(* ===== verification/Prelude.thy ===== *)
theory Prelude
  imports Main "HOL-Library.Word" "HOL-Library.Char_ord" "HOL-Library.List_Lexorder"
    "HOL-Library.AList" "HOL-Library.Monad_Syntax"
begin

text \<open>
  Shared material of the development.

  \<^item> Machine types: a byte, the unsigned integers of the sources at their width, and a
    \<^verbatim>\<open>std::string\<close> as a list of \<^typ>\<open>char\<close>, which is a list of bytes.
  \<^item> \<open>omap\<close>: a \<^verbatim>\<open>std::map\<close>, kept as its iteration order, an association list sorted by key.
  \<^item> Reads from a byte buffer at an offset, big-endian as the network sends them. A read past
    the end of the buffer is \<^term>\<open>None\<close>.
  \<^item> The locale \<open>keyed_store\<close>: what a client may rely on when it looks a key up after a store or
    an erase. It is interpreted here on the ordered maps and on the association lists that
    model the unordered maps of the sources.
\<close>

named_theorems buf_simps \<open>unfolding reads from byte buffers\<close>

subsection \<open>Machine types\<close>

type_synonym byte = "8 word"
type_synonym u16 = "16 word"
type_synonym u32 = "32 word"
type_synonym u64 = "64 word"

text \<open>A byte of a string, as \<^verbatim>\<open>static_cast<unsigned char>\<close> reads it.\<close>

abbreviation uchar :: "char \<Rightarrow> nat" where
  "uchar c \<equiv> of_char c"

definition is_digit :: "char \<Rightarrow> bool" where
  "is_digit c \<longleftrightarrow> 48 \<le> uchar c \<and> uchar c \<le> 57"

definition alpha_us :: "char \<Rightarrow> bool" where
  "alpha_us c \<longleftrightarrow> 65 \<le> uchar c \<and> uchar c \<le> 90 \<or> 97 \<le> uchar c \<and> uchar c \<le> 122 \<or> c = CHR ''_''"

lemma uchar_char_of: "n < 256 \<Longrightarrow> uchar (char_of n) = n"
  by simp

text \<open>The time stamps of the sources: \<^verbatim>\<open>time_t\<close> seconds and nanoseconds, both signed.\<close>

record timespec =
  tv_sec :: int
  tv_nsec :: int

abbreviation ts :: "int \<Rightarrow> int \<Rightarrow> timespec" where
  "ts s n \<equiv> \<lparr>tv_sec = s, tv_nsec = n\<rparr>"

subsection \<open>Ordered maps\<close>

text \<open>
  \<open>omap_put\<close> is \<^verbatim>\<open>m[k] = v\<close> on a \<^verbatim>\<open>std::map\<close>, \<open>omap_emplace\<close> is \<^verbatim>\<open>m.emplace(k, v)\<close>, which keeps an
  entry that is there already. Lookup is \<^const>\<open>map_of\<close>; iteration is the list itself.
\<close>

type_synonym ('k, 'v) omap = "('k \<times> 'v) list"

fun omap_put :: "'k::linorder \<Rightarrow> 'v \<Rightarrow> ('k, 'v) omap \<Rightarrow> ('k, 'v) omap" where
  "omap_put k v [] = [(k, v)]"
| "omap_put k v (e # m) =
     (if k = fst e then (k, v) # m
      else if k < fst e then (k, v) # e # m
      else e # omap_put k v m)"

definition omap_emplace :: "'k::linorder \<Rightarrow> 'v \<Rightarrow> ('k, 'v) omap \<Rightarrow> ('k, 'v) omap" where
  "omap_emplace k v m = (case map_of m k of None \<Rightarrow> omap_put k v m | Some _ \<Rightarrow> m)"

definition omap_erase :: "'k \<Rightarrow> ('k, 'v) omap \<Rightarrow> ('k, 'v) omap" where
  "omap_erase k m = filter (\<lambda>e. fst e \<noteq> k) m"

definition omap_ok :: "('k::linorder, 'v) omap \<Rightarrow> bool" where
  "omap_ok m \<longleftrightarrow> sorted_wrt (<) (map fst m)"

lemma map_of_omap_put [simp]: "map_of (omap_put k v m) = (map_of m)(k \<mapsto> v)"
  by (induction m) auto

lemma keys_omap_put [simp]: "fst ` set (omap_put k v m) = insert k (fst ` set m)"
  by (induction m) auto

lemma omap_ok_put: "omap_ok m \<Longrightarrow> omap_ok (omap_put k v m)"
proof (induction m)
  case Nil
  show ?case by (simp add: omap_ok_def)
next
  case (Cons e m)
  then have "omap_ok m" and e: "\<forall>k' \<in> fst ` set m. fst e < k'"
    by (auto simp: omap_ok_def)
  with Cons.IH have "omap_ok (omap_put k v m)" by blast
  then show ?case using Cons.prems e by (auto simp: omap_ok_def)
qed

lemma omap_ok_emplace: "omap_ok m \<Longrightarrow> omap_ok (omap_emplace k v m)"
  by (auto simp: omap_emplace_def omap_ok_put split: option.split)

lemma map_of_omap_erase [simp]: "map_of (omap_erase k m) = (map_of m)(k := None)"
  by (induction m) (auto simp: omap_erase_def)

lemma omap_ok_erase: "omap_ok m \<Longrightarrow> omap_ok (omap_erase k m)"
  by (auto simp: omap_ok_def omap_erase_def sorted_wrt_map sorted_wrt_filter)

lemma omap_ok_distinct: "omap_ok m \<Longrightarrow> distinct (map fst m)"
  by (simp add: omap_ok_def strict_sorted_iff)

subsection \<open>The contract of a keyed store\<close>

text \<open>
  What the code relies on when it uses a map: a lookup after a store gives the stored value and
  leaves the other keys alone, an erase removes one key, and both keep the store well formed.
\<close>

locale keyed_store =
  fixes lookup :: "'s \<Rightarrow> 'k \<Rightarrow> 'v option"
    and put :: "'k \<Rightarrow> 'v \<Rightarrow> 's \<Rightarrow> 's"
    and erase :: "'k \<Rightarrow> 's \<Rightarrow> 's"
    and ok :: "'s \<Rightarrow> bool"
  assumes lookup_put: "lookup (put k v s) = (lookup s)(k \<mapsto> v)"
    and lookup_erase: "lookup (erase k s) = (lookup s)(k := None)"
    and ok_put: "ok s \<Longrightarrow> ok (put k v s)"
    and ok_erase: "ok s \<Longrightarrow> ok (erase k s)"
begin

definition put_all :: "('k \<times> 'v) list \<Rightarrow> 's \<Rightarrow> 's" where
  "put_all ps s = fold (\<lambda>p. put (fst p) (snd p)) ps s"

definition erase_all :: "'k list \<Rightarrow> 's \<Rightarrow> 's" where
  "erase_all ks s = fold erase ks s"

lemma lookup_put_all: "lookup (put_all ps s) = lookup s ++ map_of (rev ps)"
proof (induction ps arbitrary: s)
  case Nil
  show ?case by (simp add: put_all_def)
next
  case (Cons p ps)
  have "lookup (put_all (p # ps) s) = lookup (put_all ps (put (fst p) (snd p) s))"
    by (simp add: put_all_def)
  also have "\<dots> = (lookup s)(fst p \<mapsto> snd p) ++ map_of (rev ps)"
    by (simp add: Cons.IH lookup_put del: fun_upd_apply)
  also have "\<dots> = lookup s ++ map_of (rev (p # ps))"
    by (rule ext) (simp add: map_add_def split: option.split)
  finally show ?case .
qed

lemma lookup_put_all_other: "k \<notin> fst ` set ps \<Longrightarrow> lookup (put_all ps s) k = lookup s k"
  by (simp add: lookup_put_all map_add_dom_app_simps(3) dom_map_of_conv_image_fst)

lemma lookup_put_all_mem: "k \<in> fst ` set ps \<Longrightarrow> lookup (put_all ps s) k \<noteq> None"
  by (auto simp: lookup_put_all map_add_None map_of_eq_None_iff)

lemma lookup_erase_all:
  "lookup (erase_all ks s) k = (if k \<in> set ks then None else lookup s k)"
  by (induction ks arbitrary: s) (auto simp: erase_all_def lookup_erase)

lemma ok_put_all: "ok s \<Longrightarrow> ok (put_all ps s)"
  by (induction ps arbitrary: s) (auto simp: put_all_def ok_put)

lemma ok_erase_all: "ok s \<Longrightarrow> ok (erase_all ks s)"
  by (induction ks arbitrary: s) (auto simp: erase_all_def ok_erase)

end

interpretation omap: keyed_store map_of omap_put omap_erase omap_ok
  by unfold_locales (simp_all add: omap_ok_put omap_ok_erase)

text \<open>
  Unordered maps (\<^verbatim>\<open>robin_hood::unordered_node_map\<close>, \<^verbatim>\<open>std::unordered_map\<close>) are association lists
  with distinct keys. The sources never depend on their iteration order.
\<close>

interpretation umap: keyed_store map_of AList.update AList.delete "\<lambda>m. distinct (map fst m)"
  by unfold_locales
    (simp_all add: update_conv' delete_conv' distinct_update distinct_delete)

lemma alist_delete_filter: "AList.delete k m = filter (\<lambda>e. fst e \<noteq> k) m"
  by (induction m) auto

subsection \<open>Byte buffers\<close>

definition be16 :: "byte \<Rightarrow> byte \<Rightarrow> u16" where
  "be16 a b = of_nat (unat a * 256 + unat b)"

definition be32 :: "byte \<Rightarrow> byte \<Rightarrow> byte \<Rightarrow> byte \<Rightarrow> u32" where
  "be32 a b c d = of_nat (((unat a * 256 + unat b) * 256 + unat c) * 256 + unat d)"

definition rd8 :: "byte list \<Rightarrow> nat \<Rightarrow> byte option" where
  "rd8 buf i = (if i < length buf then Some (buf ! i) else None)"

definition rd16 :: "byte list \<Rightarrow> nat \<Rightarrow> u16 option" where
  "rd16 buf i = (if i + 2 \<le> length buf then Some (be16 (buf ! i) (buf ! (i + 1))) else None)"

definition rd32 :: "byte list \<Rightarrow> nat \<Rightarrow> u32 option" where
  "rd32 buf i =
     (if i + 4 \<le> length buf
      then Some (be32 (buf ! i) (buf ! (i + 1)) (buf ! (i + 2)) (buf ! (i + 3))) else None)"

definition rd_bytes :: "byte list \<Rightarrow> nat \<Rightarrow> nat \<Rightarrow> byte list option" where
  "rd_bytes buf i n = (if i + n \<le> length buf then Some (take n (drop i buf)) else None)"

lemmas rd_defs [buf_simps] = rd8_def rd16_def rd32_def rd_bytes_def

lemma byte_less: "unat (b :: byte) < 256"
  using unsigned_less [of b] by simp

lemma u16_less: "unat (x :: u16) < 65536"
  using unsigned_less [of x] by simp

lemma unat_be16: "unat (be16 a b) = unat a * 256 + unat b"
proof -
  have "unat a * 256 + unat b < 2 ^ LENGTH(16)"
    using byte_less [of a] byte_less [of b] by simp
  then show ?thesis unfolding be16_def unat_of_nat by (rule mod_less)
qed

lemma unat_be32:
  "unat (be32 a b c d) = ((unat a * 256 + unat b) * 256 + unat c) * 256 + unat d"
proof -
  have "((unat a * 256 + unat b) * 256 + unat c) * 256 + unat d < 2 ^ LENGTH(32)"
    using byte_less [of a] byte_less [of b] byte_less [of c] byte_less [of d] by simp
  then show ?thesis unfolding be32_def unat_of_nat by (rule mod_less)
qed

lemma rd_total:
  "i < length buf \<Longrightarrow> \<exists>b. rd8 buf i = Some b"
  "i + 2 \<le> length buf \<Longrightarrow> \<exists>w. rd16 buf i = Some w"
  "i + 4 \<le> length buf \<Longrightarrow> \<exists>w. rd32 buf i = Some w"
  "i + n \<le> length buf \<Longrightarrow> \<exists>bs. rd_bytes buf i n = Some bs"
  by (simp_all add: buf_simps)

lemma rd_bytes_length: "rd_bytes buf i n = Some bs \<Longrightarrow> length bs = n"
  by (auto simp: rd_bytes_def split: if_splits)

subsection \<open>The bytes of a word\<close>

text \<open>Host order is least significant byte first, network order most significant byte first.\<close>

definition le16_bytes :: "u16 \<Rightarrow> byte list" where
  "le16_bytes w = [ucast w, ucast (drop_bit 8 w)]"

definition le32_bytes :: "u32 \<Rightarrow> byte list" where
  "le32_bytes w = [ucast w, ucast (drop_bit 8 w), ucast (drop_bit 16 w), ucast (drop_bit 24 w)]"

definition b16 :: "u16 \<Rightarrow> byte list" where
  "b16 w = rev (le16_bytes w)"

definition b32 :: "u32 \<Rightarrow> byte list" where
  "b32 w = rev (le32_bytes w)"

lemma unat_drop: "unat (drop_bit k w) = unat w div 2 ^ k"
  for w :: "'a::len word"
  by (simp only: unsigned_drop_bit_eq) (simp add: drop_bit_eq_div take_bit_nat_eq_self [OF unsigned_less])

lemma unat_byte_of: "unat (ucast w :: byte) = unat w mod 256"
  for w :: "'a::len word"
  by (simp add: unsigned_ucast_eq take_bit_eq_mod)

lemma be16_bytes: "be16 (ucast (drop_bit 8 w)) (ucast w) = w"
proof -
  have "unat (be16 (ucast (drop_bit 8 w)) (ucast w)) = unat w"
    unfolding unat_be16 unat_byte_of unat_drop using u16_less [of w] by (simp add: mod_less less_mult_imp_div_less)
  then show ?thesis by (simp only: word_unat_eq_iff)
qed

lemma base256:
  assumes "(n::nat) < 4294967296"
  shows "((n div 2 ^ 24 mod 256 * 256 + n div 2 ^ 16 mod 256) * 256 + n div 2 ^ 8 mod 256) * 256 + n mod 256 = n"
proof -
  have d: "n div 2 ^ 16 = n div 2 ^ 8 div 256" "n div 2 ^ 24 = n div 2 ^ 8 div 256 div 256"
    by (simp_all flip: div_mult2_eq)
  have "n div 2 ^ 8 div 256 div 256 < 256" using assms by (simp flip: div_mult2_eq add: less_mult_imp_div_less)
  then show ?thesis unfolding d by simp
qed

lemma be32_bytes: "be32 (ucast (drop_bit 24 w)) (ucast (drop_bit 16 w)) (ucast (drop_bit 8 w)) (ucast w) = w"
proof -
  have w: "unat w < 4294967296" using unsigned_less [of w] by simp
  have "unat (be32 (ucast (drop_bit 24 w)) (ucast (drop_bit 16 w)) (ucast (drop_bit 8 w)) (ucast w)) = unat w"
    unfolding unat_be32 unat_byte_of unat_drop using w by (rule base256)
  then show ?thesis by (simp only: word_unat_eq_iff)
qed

lemma b16_bytes: "b16 w = [ucast (drop_bit 8 w), ucast w]"
  and b32_bytes: "b32 v = [ucast (drop_bit 24 v), ucast (drop_bit 16 v), ucast (drop_bit 8 v), ucast v]"
  by (simp_all add: b16_def b32_def le16_bytes_def le32_bytes_def)

lemma rd_append:
  assumes "i + n \<le> length xs"
  shows "n = 1 \<Longrightarrow> rd8 (pre @ xs @ post) (length pre + i) = rd8 xs i"
    "n = 2 \<Longrightarrow> rd16 (pre @ xs @ post) (length pre + i) = rd16 xs i"
    "n = 4 \<Longrightarrow> rd32 (pre @ xs @ post) (length pre + i) = rd32 xs i"
    "rd_bytes (pre @ xs @ post) (length pre + i) n = rd_bytes xs i n"
  using assms by (auto simp: rd8_def rd16_def rd32_def rd_bytes_def nth_append)

end
