(* ===== verification/Labels.thy ===== *)
theory Labels
  imports Prelude
begin

text \<open>
  Label values (\<^verbatim>\<open>src/src/MetricLabels.h\<close> and the UTF-8 part of \<^verbatim>\<open>src/src/Metrics.cpp\<close>): the check
  for well-formed UTF-8 and \<^verbatim>\<open>utf8_label_value\<close>, which writes every byte that is not part of a
  well-formed sequence as a decimal escape. The loops over an index are kept as recursions over
  the index. The reference definition of UTF-8 is Table 3-7 of the Unicode standard.
\<close>

subsection \<open>The code\<close>

definition bslash :: char where
  "bslash = CHR 0x5C"

text \<open>
  The lead byte decides the length of the sequence and the range of its second byte; \<^term>\<open>None\<close>
  is a byte that leads none.
\<close>

definition utf8_lead :: "nat \<Rightarrow> (nat \<times> nat \<times> nat) option" where
  "utf8_lead lead =
     (if 0xC2 \<le> lead \<and> lead \<le> 0xDF then Some (2, 0x80, 0xBF)
      else if 0xE0 \<le> lead \<and> lead \<le> 0xEF then
        Some (3, if lead = 0xE0 then 0xA0 else 0x80, if lead = 0xED then 0x9F else 0xBF)
      else if 0xF0 \<le> lead \<and> lead \<le> 0xF4 then
        Some (4, if lead = 0xF0 then 0x90 else 0x80, if lead = 0xF4 then 0x8F else 0xBF)
      else None)"

definition utf8_sequence_length :: "string \<Rightarrow> nat \<Rightarrow> nat" where
  "utf8_sequence_length value i =
     (let lead = uchar (value ! i) in
      if lead < 0x80 then 1
      else
        case utf8_lead lead of
          None \<Rightarrow> 0
        | Some (len, lo, hi) \<Rightarrow>
            if length value - i < len then 0
            else if uchar (value ! (i + 1)) < lo \<or> uchar (value ! (i + 1)) > hi then 0
            else if list_ex (\<lambda>k. uchar (value ! (i + k)) < 0x80 \<or> uchar (value ! (i + k)) > 0xBF) [2..<len]
            then 0 else len)"

definition backslash_before_digits :: "string \<Rightarrow> nat \<Rightarrow> bool" where
  "backslash_before_digits value i \<longleftrightarrow>
     value ! i = bslash \<and> length value - i > 3
     \<and> is_digit (value ! (i + 1)) \<and> is_digit (value ! (i + 2)) \<and> is_digit (value ! (i + 3))"

function is_utf8_loop :: "string \<Rightarrow> nat \<Rightarrow> bool" where
  "is_utf8_loop value i =
     (if i < length value then
        let len = utf8_sequence_length value i in
        if len = 0 then False else is_utf8_loop value (i + len)
      else True)"
  by pat_completeness auto
termination
  by (relation "measure (\<lambda>(value, i). length value - i)") auto

definition is_utf8 :: "string \<Rightarrow> bool" where
  "is_utf8 value = is_utf8_loop value 0"

function needs_escape_loop :: "string \<Rightarrow> nat \<Rightarrow> bool" where
  "needs_escape_loop value i =
     (if i < length value then
        let len = utf8_sequence_length value i in
        if len = 0 \<or> backslash_before_digits value i then True
        else needs_escape_loop value (i + len)
      else False)"
  by pat_completeness auto
termination
  by (relation "measure (\<lambda>(value, i). length value - i)") auto

definition label_value_needs_escape :: "string \<Rightarrow> bool" where
  "label_value_needs_escape value = needs_escape_loop value 0"

text \<open>\<^verbatim>\<open>fmt::format("{:03d}", n)\<close> for a byte.\<close>

definition dec3 :: "nat \<Rightarrow> string" where
  "dec3 n = [char_of (48 + n div 100), char_of (48 + n div 10 mod 10), char_of (48 + n mod 10)]"

function escape_loop :: "string \<Rightarrow> nat \<Rightarrow> string \<Rightarrow> string" where
  "escape_loop value i out =
     (if i < length value then
        if backslash_before_digits value i then
          escape_loop value (i + 1) (out @ [bslash, CHR ''0'', CHR ''9'', CHR ''2''])
        else
          let len = utf8_sequence_length value i in
          if len \<noteq> 0 then escape_loop value (i + len) (out @ take len (drop i value))
          else escape_loop value (i + 1) (out @ bslash # dec3 (uchar (value ! i)))
      else out)"
  by pat_completeness auto
termination
  by (relation "measure (\<lambda>(value, i, out). length value - i)") auto

definition utf8_label_value :: "string \<Rightarrow> string" where
  "utf8_label_value value =
     (if \<not> label_value_needs_escape value then value else escape_loop value 0 [])"

declare is_utf8_loop.simps [simp del] needs_escape_loop.simps [simp del] escape_loop.simps [simp del]

subsection \<open>Reference definitions\<close>

text \<open>The rows of Table 3-7: which byte strings encode one code point.\<close>

definition tail_byte :: "char \<Rightarrow> bool" where
  "tail_byte c \<longleftrightarrow> 0x80 \<le> uchar c \<and> uchar c \<le> 0xBF"

fun utf8_seq :: "string \<Rightarrow> bool" where
  "utf8_seq [a] \<longleftrightarrow> uchar a < 0x80"
| "utf8_seq [a, b] \<longleftrightarrow> uchar a \<in> {0xC2..0xDF} \<and> tail_byte b"
| "utf8_seq [a, b, c] \<longleftrightarrow> tail_byte c \<and>
     (uchar a = 0xE0 \<and> uchar b \<in> {0xA0..0xBF}
      \<or> uchar a \<in> {0xE1..0xEC} \<and> tail_byte b
      \<or> uchar a = 0xED \<and> uchar b \<in> {0x80..0x9F}
      \<or> uchar a \<in> {0xEE..0xEF} \<and> tail_byte b)"
| "utf8_seq [a, b, c, d] \<longleftrightarrow> tail_byte c \<and> tail_byte d \<and>
     (uchar a = 0xF0 \<and> uchar b \<in> {0x90..0xBF}
      \<or> uchar a \<in> {0xF1..0xF3} \<and> tail_byte b
      \<or> uchar a = 0xF4 \<and> uchar b \<in> {0x80..0x8F})"
| "utf8_seq _ \<longleftrightarrow> False"

inductive well_formed_utf8 :: "string \<Rightarrow> bool" where
  empty: "well_formed_utf8 []"
| seq: "utf8_seq s \<Longrightarrow> well_formed_utf8 t \<Longrightarrow> well_formed_utf8 (s @ t)"

text \<open>Reading an escaped value back: a backslash and three digits is one byte.\<close>

fun digits3 :: "string \<Rightarrow> bool" where
  "digits3 (x # y # z # s) \<longleftrightarrow> is_digit x \<and> is_digit y \<and> is_digit z"
| "digits3 _ \<longleftrightarrow> False"

fun val3 :: "string \<Rightarrow> nat" where
  "val3 (x # y # z # s) = (uchar x - 48) * 100 + (uchar y - 48) * 10 + (uchar z - 48)"
| "val3 _ = 0"

fun unescape :: "string \<Rightarrow> string" where
  "unescape [] = []"
| "unescape (c # s) =
     (if c = bslash \<and> digits3 s then char_of (val3 s) # unescape (drop 3 s)
      else c # unescape s)"

text \<open>The escaping loop without the index: what is left of the value is the argument.\<close>

function render :: "string \<Rightarrow> string" where
  "render s =
     (if s = [] then []
      else if backslash_before_digits s 0 then [bslash, CHR ''0'', CHR ''9'', CHR ''2''] @ render (tl s)
      else
        let len = utf8_sequence_length s 0 in
        if len \<noteq> 0 then take len s @ render (drop len s)
        else bslash # dec3 (uchar (hd s)) @ render (tl s))"
  by pat_completeness auto
termination
  by (relation "measure length") auto

declare render.simps [simp del]

subsection \<open>Sequence length against the table\<close>

lemma utf8_sequence_length_drop:
  assumes "i < length v"
  shows "utf8_sequence_length v i = utf8_sequence_length (drop i v) 0"
  using assms
  by (cases "utf8_lead (uchar (v ! i))") (auto simp: utf8_sequence_length_def Let_def)

lemma backslash_before_digits_drop:
  assumes "i < length v"
  shows "backslash_before_digits v i = backslash_before_digits (drop i v) 0"
proof (cases "length v - i > 3")
  case True
  then show ?thesis using assms by (simp add: backslash_before_digits_def)
next
  case False
  then show ?thesis by (simp add: backslash_before_digits_def)
qed

lemma upt_2_3: "[2..<2] = ([] :: nat list)" "[2..<3] = [2 :: nat]" "[2..<4] = [2, 3 :: nat]"
  by (simp_all add: upt_rec)

lemma utf8_lead_cases:
  assumes "utf8_lead lead = Some (len, lo, hi)"
  obtains
    (two) "len = 2" "lo = 0x80" "hi = 0xBF" "lead \<in> {0xC2..0xDF}"
  | (three) "len = 3" "lead \<in> {0xE0..0xEF}" "lo = (if lead = 0xE0 then 0xA0 else 0x80)"
      "hi = (if lead = 0xED then 0x9F else 0xBF)"
  | (four) "len = 4" "lead \<in> {0xF0..0xF4}" "lo = (if lead = 0xF0 then 0x90 else 0x80)"
      "hi = (if lead = 0xF4 then 0x8F else 0xBF)"
  using assms unfolding utf8_lead_def by (simp split: if_split_asm)

lemma sequence_length_ascii: "s \<noteq> [] \<Longrightarrow> uchar (hd s) < 0x80 \<Longrightarrow> utf8_sequence_length s 0 = 1"
  by (cases s) (simp_all add: utf8_sequence_length_def)

lemma sequence_length_multi:
  assumes "utf8_sequence_length s 0 = n" "n \<noteq> 0" "s \<noteq> []" "\<not> uchar (hd s) < 0x80"
  obtains lo hi where "utf8_lead (uchar (hd s)) = Some (n, lo, hi)" "n \<le> length s"
    "lo \<le> uchar (s ! 1)" "uchar (s ! 1) \<le> hi" "\<forall>k \<in> set [2..<n]. tail_byte (s ! k)"
proof -
  have hd: "hd s = s ! 0" using assms(3) by (simp add: hd_conv_nth)
  show thesis
    using assms that unfolding hd utf8_sequence_length_def Let_def
    by (auto simp: Let_def list_ex_iff tail_byte_def not_less split: option.splits prod.splits if_split_asm)
qed

lemma take_as_nths: "n \<le> length s \<Longrightarrow> take n s = map ((!) s) [0..<n]"
  by (simp add: list_eq_iff_nth_eq)

lemma sequence_length_sound:
  assumes "utf8_sequence_length s 0 = n" "n \<noteq> 0" "s \<noteq> []"
  shows "n \<le> length s \<and> utf8_seq (take n s)"
proof (cases "uchar (hd s) < 0x80")
  case True
  with assms have "n = 1" by (simp add: sequence_length_ascii)
  with assms(3) True show ?thesis by (cases s) auto
next
  case False
  obtain lo hi where lead: "utf8_lead (uchar (hd s)) = Some (n, lo, hi)" and n: "n \<le> length s"
    and second: "lo \<le> uchar (s ! 1)" "uchar (s ! 1) \<le> hi"
    and rest: "\<forall>k \<in> set [2..<n]. tail_byte (s ! k)"
    using sequence_length_multi [OF assms False] .
  have hd: "hd s = s ! 0" using assms(3) by (simp add: hd_conv_nth)
  from lead have "utf8_seq (map ((!) s) [0..<n])"
  proof (cases rule: utf8_lead_cases)
    case two
    with second show ?thesis by (simp add: upt_rec hd tail_byte_def)
  next
    case three
    with second rest show ?thesis
      by (auto simp: upt_rec hd tail_byte_def numeral_2_eq_2 numeral_3_eq_3 split: if_split_asm)
  next
    case four
    with second rest show ?thesis
      by (auto simp: upt_rec hd tail_byte_def numeral_2_eq_2 numeral_3_eq_3 split: if_split_asm)
  qed
  with n show ?thesis by (simp add: take_as_nths)
qed

lemma sequence_length_seq: "utf8_seq p \<Longrightarrow> utf8_sequence_length (p @ t) 0 = length p"
proof (induction p rule: utf8_seq.induct)
  case (3 a b c)
  then have "utf8_lead (uchar a) = Some (3, if uchar a = 0xE0 then 0xA0 else 0x80, if uchar a = 0xED then 0x9F else 0xBF)"
    by (auto simp: utf8_lead_def)
  with 3 show ?case by (auto simp: utf8_sequence_length_def upt_2_3 tail_byte_def)
next
  case (4 a b c d)
  then have "utf8_lead (uchar a) = Some (4, if uchar a = 0xF0 then 0x90 else 0x80, if uchar a = 0xF4 then 0x8F else 0xBF)"
    by (auto simp: utf8_lead_def)
  with 4 show ?case by (auto simp: utf8_sequence_length_def upt_2_3 tail_byte_def)
qed (auto simp: utf8_sequence_length_def utf8_lead_def upt_2_3 tail_byte_def)

lemma utf8_seq_nonempty: "utf8_seq s \<Longrightarrow> s \<noteq> []"
  by auto

lemma is_utf8_loop_iff: "is_utf8_loop v i \<longleftrightarrow> well_formed_utf8 (drop i v)"
proof (induction v i rule: is_utf8_loop.induct)
  case (1 v i)
  show ?case
  proof (cases "i < length v")
    case False
    then show ?thesis by (subst is_utf8_loop.simps) (simp add: well_formed_utf8.empty)
  next
    case True
    let ?s = "drop i v" and ?n = "utf8_sequence_length v i"
    have n: "?n = utf8_sequence_length ?s 0" using True by (rule utf8_sequence_length_drop)
    show ?thesis
    proof (cases "?n = 0")
      case z: True
      have "\<not> well_formed_utf8 ?s"
      proof
        assume "well_formed_utf8 ?s"
        then obtain p t where "?s = p @ t" "utf8_seq p"
          using True by (cases rule: well_formed_utf8.cases) auto
        with n z sequence_length_seq [of p t] show False by auto
      qed
      with True z show ?thesis by (subst is_utf8_loop.simps) simp
    next
      case nz: False
      have seq: "utf8_seq (take ?n ?s)" "?n \<le> length ?s"
        using sequence_length_sound [of ?s ?n] n nz True by auto
      have "well_formed_utf8 ?s \<longleftrightarrow> well_formed_utf8 (drop ?n ?s)"
      proof
        assume "well_formed_utf8 ?s"
        then obtain p t where "?s = p @ t" "utf8_seq p" "well_formed_utf8 t"
          using True by (cases rule: well_formed_utf8.cases) auto
        then show "well_formed_utf8 (drop ?n ?s)"
          using sequence_length_seq [of p t] n by simp
      next
        assume "well_formed_utf8 (drop ?n ?s)"
        from well_formed_utf8.seq [OF seq(1) this] show "well_formed_utf8 ?s"
          by (simp only: append_take_drop_id)
      qed
      with True nz 1 show ?thesis by (subst is_utf8_loop.simps) (simp add: add.commute)
    qed
  qed
qed


subsection \<open>The escaping loop\<close>

lemma escape_loop_render: "escape_loop v i out = out @ render (drop i v)"
proof (induction v i out rule: escape_loop.induct)
  case (1 v i out)
  show ?case
  proof (cases "i < length v")
    case False
    then show ?thesis by (subst escape_loop.simps) (simp add: render.simps)
  next
    case True
    note b = backslash_before_digits_drop [OF True] and l = utf8_sequence_length_drop [OF True]
    have hd: "hd (drop i v) = v ! i" and tl: "tl (drop i v) = drop (i + 1) v"
      using True by (simp_all add: hd_drop_conv_nth tl_drop drop_Suc)
    show ?thesis
      using 1 True
      by (subst escape_loop.simps, subst render.simps)
        (simp add: b l hd tl Let_def add.commute [of _ i])
  qed
qed

lemma needs_escape_loop_render: "\<not> needs_escape_loop v i \<Longrightarrow> render (drop i v) = drop i v"
proof (induction v i rule: needs_escape_loop.induct)
  case (1 v i)
  show ?case
  proof (cases "i < length v")
    case False
    then show ?thesis by (simp add: render.simps)
  next
    case True
    let ?n = "utf8_sequence_length (drop i v) 0"
    note b = backslash_before_digits_drop [OF True] and l = utf8_sequence_length_drop [OF True]
    from "1.prems" True have ne: "?n \<noteq> 0" "\<not> backslash_before_digits (drop i v) 0"
      and rec: "\<not> needs_escape_loop v (i + ?n)"
      by (subst (asm) needs_escape_loop.simps, simp add: b l Let_def split: if_split_asm)+
    with "1.IH" True have "render (drop (i + ?n) v) = drop (i + ?n) v"
      by (simp add: l b)
    moreover have take_drop_i: "take ?n (drop i v) @ drop (i + ?n) v = drop i v"
      using append_take_drop_id [of ?n "drop i v"] by (simp only: drop_drop add.commute)
    ultimately show ?thesis using ne True
      by (subst render.simps)
        (simp add: Let_def add.commute [of _ i] take_drop_i)
  qed
qed

lemma utf8_label_value_render: "utf8_label_value v = render v"
  using needs_escape_loop_render [of v 0] escape_loop_render [of v 0 "[]"]
  by (simp add: utf8_label_value_def label_value_needs_escape_def)

lemma render_cases:
  obtains (empty) "s = []" "render s = []"
  | (bslash) r where "s = bslash # r" "digits3 r"
      "render s = bslash # CHR ''0'' # CHR ''9'' # CHR ''2'' # render r"
  | (seq) p t where "s = p @ t" "utf8_seq p" "render s = p @ render t"
      "\<not> (\<exists>r. s = bslash # r \<and> digits3 r)"
  | (byte) c r where "s = c # r" "128 \<le> uchar c" "render s = bslash # dec3 (uchar c) @ render r"
proof (cases s)
  case Nil
  then show thesis using that(1) by (simp add: render.simps)
next
  case (Cons c r)
  have bd: "backslash_before_digits s 0 \<longleftrightarrow> c = bslash \<and> digits3 r"
    unfolding Cons backslash_before_digits_def
    by (cases r rule: digits3.cases) (auto simp: numeral_2_eq_2 numeral_3_eq_3)
  show thesis
  proof (cases "backslash_before_digits s 0")
    case True
    then have "render s = bslash # CHR ''0'' # CHR ''9'' # CHR ''2'' # render r"
      using Cons by (subst render.simps) simp
    with True show thesis using Cons bd that(2) [of r] by simp
  next
    case nb: False
    let ?n = "utf8_sequence_length s 0"
    show thesis
    proof (cases "?n = 0")
      case True
      have "128 \<le> uchar c"
        using True Cons sequence_length_ascii [of s] by (cases "uchar c < 128") auto
      moreover have "render s = bslash # dec3 (uchar c) @ render r"
        using True nb Cons by (subst render.simps) simp
      ultimately show thesis using Cons that(4) [of c r] by simp
    next
      case False
      then have "utf8_seq (take ?n s)" using sequence_length_sound [of s ?n] Cons by auto
      moreover have "render s = take ?n s @ render (drop ?n s)"
        using False nb Cons by (subst render.simps) (simp add: Let_def)
      moreover have "\<not> (\<exists>r. s = bslash # r \<and> digits3 r)" using nb Cons bd by simp
      ultimately show thesis by (intro that(3) [of "take ?n s" "drop ?n s"]) simp_all
    qed
  qed
qed

lemma render_length_induct [case_names less]:
  "(\<And>s. (\<And>t. length t < length s \<Longrightarrow> P t) \<Longrightarrow> P s) \<Longrightarrow> P s"
  by (rule measure_induct_rule [of length P]) blast

lemma digits3_chars:
  assumes "a < 10" "b < 10" "c < (10::nat)"
  shows "digits3 (char_of (48 + a) # char_of (48 + b) # char_of (48 + c) # t)"
    "val3 (char_of (48 + a) # char_of (48 + b) # char_of (48 + c) # t) = a * 100 + b * 10 + c"
proof -
  have d: "uchar (char_of (48 + x)) = 48 + x" if "x < 10" for x :: nat
    by (rule uchar_char_of) (use that in simp)
  show "digits3 (char_of (48 + a) # char_of (48 + b) # char_of (48 + c) # t)"
    "val3 (char_of (48 + a) # char_of (48 + b) # char_of (48 + c) # t) = a * 100 + b * 10 + c"
    unfolding digits3.simps val3.simps is_digit_def d [OF assms(1)] d [OF assms(2)] d [OF assms(3)]
    using assms by simp_all
qed

lemma dec3_value: "(n::nat) div 100 * 100 + n div 10 mod 10 * 10 + n mod 10 = n"
proof -
  have "n div 100 = n div 10 div 10" by (simp add: div_mult2_eq [symmetric])
  moreover have "n div 10 div 10 * 10 + n div 10 mod 10 = n div 10" by (rule div_mult_mod_eq)
  moreover have "n div 10 * 10 + n mod 10 = n" by (rule div_mult_mod_eq)
  ultimately show ?thesis by linarith
qed

lemma dec3_bounds: "(n::nat) < 256 \<Longrightarrow> n div 100 < 10" "n div 10 mod 10 < 10" "n mod 10 < 10"
  by (auto simp: less_mult_imp_div_less)

lemma digits3_dec3: "n < 256 \<Longrightarrow> digits3 (dec3 n @ t)"
  unfolding dec3_def append.simps by (intro digits3_chars dec3_bounds)

lemma val3_dec3: "n < 256 \<Longrightarrow> val3 (dec3 n @ t) = n"
  unfolding dec3_def append.simps by (subst digits3_chars) (simp_all only: dec3_bounds dec3_value)

lemma utf8_dec3: "n < 256 \<Longrightarrow> well_formed_utf8 t \<Longrightarrow> well_formed_utf8 (bslash # dec3 n @ t)"
proof -
  assume n: "n < 256" and t: "well_formed_utf8 t"
  have d: "uchar (char_of (48 + d)) = 48 + d" if "d < 10" for d :: nat
    using that by simp
  have one: "well_formed_utf8 (c # u)" if "uchar c < 128" "well_formed_utf8 u" for c u
    using well_formed_utf8.seq [of "[c]" u] that by simp
  show ?thesis
    unfolding dec3_def append.simps using n t by (intro one) (simp_all add: bslash_def d)
qed

lemma well_formed_render: "well_formed_utf8 (render s)"
proof (induction s rule: render_length_induct)
  case (less s)
  have one: "well_formed_utf8 (c # u)" if "uchar c < 128" "well_formed_utf8 u" for c u
    using well_formed_utf8.seq [of "[c]" u] that by simp
  show ?case
  proof (cases s rule: render_cases)
    case empty
    then show ?thesis by (simp add: well_formed_utf8.empty)
  next
    case (bslash r)
    then show ?thesis using less [of r] by (auto intro!: one simp: bslash_def)
  next
    case (seq p t)
    then have "length t < length s" by (cases p) auto
    with seq less [of t] show ?thesis by (auto intro: well_formed_utf8.seq)
  next
    case (byte c r)
    then show ?thesis using less [of r] by (auto intro: utf8_dec3)
  qed
qed

subsection \<open>Reading an escaped value back\<close>

lemma utf8_seq_ascii: "utf8_seq (c # p) \<Longrightarrow> uchar c < 0x80 \<Longrightarrow> p = []"
  by (cases "c # p" rule: utf8_seq.cases) auto

lemma utf8_seq_multi: "utf8_seq (c # p) \<Longrightarrow> \<not> uchar c < 0x80 \<Longrightarrow> \<forall>x \<in> set (c # p). 0x80 \<le> uchar x"
  by (cases "c # p" rule: utf8_seq.cases) (auto simp: tail_byte_def)

lemma bslash_ascii [simp]: "uchar bslash = 0x5C"
  by (simp add: bslash_def)

lemma unescape_copy: "bslash \<notin> set p \<Longrightarrow> unescape (p @ u) = p @ unescape u"
  by (induction p) auto

lemma render_digit:
  assumes "render s = c # u" "is_digit c"
  obtains s' where "s = c # s'" "u = render s'"
proof (cases s rule: render_cases)
  case (seq p t)
  then obtain p' where p: "p = c # p'" using assms(1) utf8_seq_nonempty by (cases p) auto
  with seq(2) assms(2) have "p' = []" using utf8_seq_ascii [of c p'] by (simp add: is_digit_def)
  with seq p assms(1) that [of t] show thesis by simp
qed (use assms in \<open>auto simp: is_digit_def\<close>)

lemma digits3_render: "digits3 (render s) \<Longrightarrow> digits3 s"
proof (cases "render s" rule: digits3.cases)
  case (1 x y z u)
  assume "digits3 (render s)"
  then have d: "is_digit x" "is_digit y" "is_digit z" using 1 by auto
  from render_digit [OF 1 d(1)] obtain s1 where s1: "s = x # s1" "y # z # u = render s1" by blast
  from render_digit [OF s1(2) [symmetric] d(2)] obtain s2
    where s2: "s1 = y # s2" "z # u = render s2" by blast
  from render_digit [OF s2(2) [symmetric] d(3)] obtain s3 where "s2 = z # s3" by blast
  with s1 s2 d show ?thesis by simp
qed auto

lemma unescape_render: "unescape (render s) = s"
proof (induction s rule: render_length_induct)
  case (less s)
  show ?case
  proof (cases s rule: render_cases)
    case empty
    then show ?thesis by simp
  next
    case (bslash r)
    moreover have "char_of (92 :: nat) = bslash" by (metis bslash_ascii char_of_char)
    ultimately show ?thesis using less [of r] by (simp add: is_digit_def eval_nat_numeral)
  next
    case (seq p t)
    then have "length t < length s" using utf8_seq_nonempty by (cases p) auto
    then have ih: "unescape (render t) = t" by (rule less)
    obtain c p' where p: "p = c # p'" using seq(2) utf8_seq_nonempty by (cases p) auto
    show ?thesis
    proof (cases "uchar c < 0x80")
      case True
      then have "p = [c]" using utf8_seq_ascii [of c p'] seq p by simp
      moreover from this have "c = bslash \<Longrightarrow> \<not> digits3 (render t)"
        using seq digits3_render by auto
      ultimately show ?thesis using seq ih by auto
    next
      case False
      then have "bslash \<notin> set p" using utf8_seq_multi [of c p'] seq p by force
      then show ?thesis using seq ih by (simp add: unescape_copy)
    qed
  next
    case (byte c r)
    have n: "uchar c < 256" by simp
    have "drop 3 (dec3 (uchar c) @ render r) = render r" by (simp add: dec3_def)
    then show ?thesis
      using byte less [of r] digits3_dec3 [OF n] val3_dec3 [OF n] by simp
  qed
qed

lemma render_length: "length s \<le> length (render s)"
proof (induction s rule: render_length_induct)
  case (less s)
  show ?case
  proof (cases s rule: render_cases)
    case (seq p t)
    then have "length t < length s" using utf8_seq_nonempty by (cases p) auto
    with less [of t] seq show ?thesis by simp
  next
    case (bslash r)
    with less [of r] show ?thesis by simp
  next
    case (byte c r)
    with less [of r] show ?thesis by (simp add: dec3_def)
  qed simp
qed

lemma needs_escape_loop_grows:
  "needs_escape_loop v i \<Longrightarrow> length (drop i v) < length (render (drop i v))"
proof (induction v i rule: needs_escape_loop.induct)
  case (1 v i)
  show ?case
  proof (cases "i < length v")
    case False
    with "1.prems" show ?thesis by (subst (asm) needs_escape_loop.simps) simp
  next
    case True
    let ?n = "utf8_sequence_length (drop i v) 0" and ?s = "drop i v"
    note b = backslash_before_digits_drop [OF True] and l = utf8_sequence_length_drop [OF True]
    have ne: "?s \<noteq> []" using True by simp
    show ?thesis
    proof (cases "?n = 0 \<or> backslash_before_digits ?s 0")
      case esc: True
      have "length ?s < length (render (tl ?s)) + 4"
        using render_length [of "tl ?s"] by simp
      then show ?thesis using esc ne by (subst render.simps) (auto simp: dec3_def)
    next
      case False
      with "1.prems" True have "needs_escape_loop v (i + ?n)"
        by (subst (asm) needs_escape_loop.simps) (simp add: b l Let_def)
      with "1.IH" True False have "length (drop (i + ?n) v) < length (render (drop (i + ?n) v))"
        by (simp add: b l)
      then show ?thesis using False ne True
        by (subst render.simps) (auto simp: Let_def add.commute [of _ i])
    qed
  qed
qed

subsection \<open>Properties\<close>

text \<open>
  C13: \<^verbatim>\<open>is_utf8\<close> accepts exactly the byte strings that are well-formed UTF-8 by the rows of
  Table 3-7 of the Unicode standard, so overlong forms, surrogates and code points above
  U+10FFFF are refused and nothing else is.
\<close>

theorem is_utf8_iff_well_formed: "is_utf8 v \<longleftrightarrow> well_formed_utf8 v"
  using is_utf8_loop_iff [of v 0] by (simp add: is_utf8_def)

text \<open>
  C14: For every byte string, what \<^verbatim>\<open>utf8_label_value\<close> returns is well-formed UTF-8, and reading
  the decimal escapes back gives the byte string again. Two label values are therefore never
  merged by the escaping.
\<close>

theorem utf8_label_value_roundtrip:
  "is_utf8 (utf8_label_value v) \<and> unescape (utf8_label_value v) = v"
  using well_formed_render [of v] is_utf8_loop_iff [of "render v" 0]
  by (simp add: utf8_label_value_render unescape_render is_utf8_def)

text \<open>
  \<^verbatim>\<open>label_value_needs_escape\<close> is exact: a value is changed by \<^verbatim>\<open>utf8_label_value\<close> exactly if the
  check says that it needs to be.
\<close>

theorem utf8_label_value_same_iff: "utf8_label_value v = v \<longleftrightarrow> \<not> label_value_needs_escape v"
  using needs_escape_loop_grows [of v 0]
  by (auto simp: utf8_label_value_render label_value_needs_escape_def needs_escape_loop_render [of v 0, simplified])

end
