(* ===== verification/Prometheus.thy ===== *)
theory Prometheus
  imports Labels
begin

text \<open>
  The Prometheus text output (\<^verbatim>\<open>src/src/PrometheusSerializer.h\<close>): families of series keyed by their
  base name, written in any order and rendered once per family. A label map is a \<^verbatim>\<open>std::map\<close>, so an
  ordered map of the prelude. The process-wide static labels are an argument of the operations
  that read them. The text of a value (\<^verbatim>\<open>fmt::format("{}", value)\<close> or the stream output of a
  floating point number) is an argument of \<open>write_series\<close>.

  The reference definitions are a reader for the label block and the output a list of writes
  should give.
\<close>

subsection \<open>The code\<close>

type_synonym label_map = "(string, string) omap"

datatype prom_type = Gauge | Counter_Type | Histogram_Type | Summary

definition dquote :: char where
  "dquote = CHR 0x22"

definition newline :: char where
  "newline = CHR 0x0A"

record family =
  fam_type :: prom_type
  fam_help :: string
  fam_body :: string

record serializer =
  ser_order :: "string list"
  ser_families :: "(string, family) omap"

definition type_str :: "prom_type \<Rightarrow> string" where
  "type_str t =
     (case t of
        Counter_Type \<Rightarrow> ''counter''
      | Histogram_Type \<Rightarrow> ''histogram''
      | Summary \<Rightarrow> ''summary''
      | Gauge \<Rightarrow> ''gauge'')"

fun escaped_chars :: "string \<Rightarrow> string" where
  "escaped_chars [] = []"
| "escaped_chars (c # s) =
     (if c = bslash then [bslash, bslash]
      else if c = dquote then [bslash, dquote]
      else if c = newline then [bslash, CHR ''n'']
      else [c]) @ escaped_chars s"

definition append_escaped :: "string \<Rightarrow> string \<Rightarrow> string" where
  "append_escaped out v =
     (let text = (if label_value_needs_escape v then utf8_label_value v else v)
      in out @ escaped_chars text)"

fun help_escaped_chars :: "string \<Rightarrow> string" where
  "help_escaped_chars [] = []"
| "help_escaped_chars (c # s) =
     (if c = bslash then [bslash, bslash]
      else if c = newline then [bslash, CHR ''n'']
      else [c]) @ help_escaped_chars s"

definition append_help_escaped :: "string \<Rightarrow> string \<Rightarrow> string" where
  "append_help_escaped out v = out @ help_escaped_chars v"

definition append_one :: "string \<times> string \<Rightarrow> string \<times> bool \<Rightarrow> string \<times> bool" where
  "append_one kv st =
     (append_escaped (fst st @ fst kv @ [CHR ''='', dquote]) (snd kv) @ [dquote, CHR '','' ], True)"

definition append_labels :: "label_map \<Rightarrow> string \<Rightarrow> label_map \<Rightarrow> string" where
  "append_labels static line labels =
     (let st = (line @ ''{'', False);
          st = fold (\<lambda>kv st. if map_of labels (fst kv) = None then append_one kv st else st) static st;
          st = fold append_one labels st;
          line = (if snd st then butlast (fst st) else fst st)
      in line @ ''}'')"

definition new_serializer :: serializer where
  "new_serializer = \<lparr>ser_order = [], ser_families = []\<rparr>"

definition series_line :: "label_map \<Rightarrow> string \<Rightarrow> string list \<Rightarrow> label_map \<Rightarrow> string \<Rightarrow> string \<Rightarrow> string" where
  "series_line static base suffix labels val body =
     (let body = body @ base;
          body = fold (\<lambda>s body. body @ ''_'' @ s) suffix body;
          body = append_labels static body labels
      in body @ '' '' @ val @ [newline])"

definition write_series ::
  "label_map \<Rightarrow> string \<Rightarrow> prom_type \<Rightarrow> string \<Rightarrow> string list \<Rightarrow> label_map \<Rightarrow> string \<Rightarrow> serializer \<Rightarrow> serializer"
where
  "write_series static base type help suffix labels val ser =
     (let (order, fam) =
        (case map_of (ser_families ser) base of
           None \<Rightarrow> (ser_order ser @ [base], \<lparr>fam_type = type, fam_help = help, fam_body = []\<rparr>)
         | Some fam \<Rightarrow>
             (ser_order ser, if fam_help fam = [] \<and> help \<noteq> [] then fam\<lparr>fam_help := help\<rparr> else fam));
          fam = fam\<lparr>fam_body := series_line static base suffix labels val (fam_body fam)\<rparr>
      in ser\<lparr>ser_order := order, ser_families := omap_put base fam (ser_families ser)\<rparr>)"

definition render_family :: "string \<Rightarrow> family \<Rightarrow> string" where
  "render_family base fam =
     append_help_escaped (''# HELP '' @ base @ '' '') (fam_help fam) @ [newline]
     @ ''# TYPE '' @ base @ '' '' @ type_str (fam_type fam) @ [newline]
     @ fam_body fam"

text \<open>\<^verbatim>\<open>_families.at(base)\<close> throws for a base name that is not a key: \<^term>\<open>None\<close>.\<close>

fun finalize_loop :: "(string, family) omap \<Rightarrow> string list \<Rightarrow> string \<Rightarrow> string option" where
  "finalize_loop fams [] out = Some out"
| "finalize_loop fams (base # order) out =
     (case map_of fams base of
        None \<Rightarrow> None
      | Some fam \<Rightarrow> finalize_loop fams order (out @ render_family base fam))"

definition finalize :: "serializer \<Rightarrow> string option" where
  "finalize ser = finalize_loop (ser_families ser) (ser_order ser) []"

subsection \<open>Reference definitions\<close>

text \<open>One call of \<open>write_series\<close>, and what a list of calls should put into the output.\<close>

record call =
  c_base :: string
  c_type :: prom_type
  c_help :: string
  c_suffix :: "string list"
  c_labels :: label_map
  c_val :: string

definition run_call :: "label_map \<Rightarrow> call \<Rightarrow> serializer \<Rightarrow> serializer" where
  "run_call static c =
     write_series static (c_base c) (c_type c) (c_help c) (c_suffix c) (c_labels c) (c_val c)"

definition call_line :: "label_map \<Rightarrow> call \<Rightarrow> string" where
  "call_line static c = series_line static (c_base c) (c_suffix c) (c_labels c) (c_val c) []"

fun first_nonempty :: "string list \<Rightarrow> string" where
  "first_nonempty [] = []"
| "first_nonempty (h # hs) = (if h = [] then first_nonempty hs else h)"

definition family_of :: "label_map \<Rightarrow> call list \<Rightarrow> string \<Rightarrow> family option" where
  "family_of static cs base =
     (let mine = filter (\<lambda>c. c_base c = base) cs in
      if mine = [] then None
      else Some \<lparr>fam_type = c_type (hd mine), fam_help = first_nonempty (map c_help mine),
                fam_body = concat (map (call_line static) mine)\<rparr>)"

text \<open>The base names in the order of their first call.\<close>

definition bases :: "call list \<Rightarrow> string list" where
  "bases cs = rev (remdups (rev (map c_base cs)))"

definition exposition :: "label_map \<Rightarrow> call list \<Rightarrow> string" where
  "exposition static cs = concat (map (\<lambda>b. render_family b (the (family_of static cs b))) (bases cs))"

text \<open>A reader for a label block, as the text format defines it.\<close>

fun read_quoted :: "string \<Rightarrow> (string \<times> string) option" where
  "read_quoted [] = None"
| "read_quoted (c # s) =
     (if c = dquote then Some ([], s)
      else if c = bslash then
        (case s of
           [] \<Rightarrow> None
         | d # s' \<Rightarrow>
             if d = bslash \<or> d = dquote then map_option (apfst ((#) d)) (read_quoted s')
             else if d = CHR ''n'' then map_option (apfst ((#) newline)) (read_quoted s')
             else None)
      else map_option (apfst ((#) c)) (read_quoted s))"

lemma read_quoted_length: "read_quoted s = Some (v, r) \<Longrightarrow> length r < length s"
proof (induction s arbitrary: v r rule: length_induct)
  case (1 s)
  then show ?case
    by (cases s) (fastforce split: if_split_asm list.split_asm intro: less_SucI)+
qed

definition label_char :: "char \<Rightarrow> bool" where
  "label_char c \<longleftrightarrow> is_digit c \<or> 65 \<le> uchar c \<and> uchar c \<le> 90 \<or> 97 \<le> uchar c \<and> uchar c \<le> 122 \<or> c = CHR ''_''"

definition label_name :: "string \<Rightarrow> bool" where
  "label_name k \<longleftrightarrow> k \<noteq> [] \<and> list_all label_char k"

function read_pairs :: "string \<Rightarrow> ((string \<times> string) list \<times> string) option" where
  "read_pairs s =
     (case dropWhile label_char s of
        e # q # r \<Rightarrow>
          if e = CHR ''='' \<and> q = dquote then
            (case read_quoted r of
               None \<Rightarrow> None
             | Some (v, r') \<Rightarrow>
                 (case r' of
                    [] \<Rightarrow> None
                  | d # r'' \<Rightarrow>
                      if d = CHR '','' then
                        map_option (apfst ((#) (takeWhile label_char s, v))) (read_pairs r'')
                      else if d = CHR ''}'' then Some ([(takeWhile label_char s, v)], r'')
                      else None))
          else None
      | _ \<Rightarrow> None)"
  by pat_completeness auto
termination
proof (relation "measure length")
  fix s :: string and e q r v r' d r'' x21 x22 y
  assume d: "dropWhile label_char s = e # x21" "x21 = q # r" and q: "read_quoted r = Some y" "(v, r') = y"
    and r': "r' = d # r''"
  from d have "length r < length s" using length_dropWhile_le [of label_char s] by simp
  moreover from q have "length r' < length r" using read_quoted_length by blast
  ultimately show "(r'', s) \<in> measure length" using r' by simp
qed simp

declare read_pairs.simps [simp del]

definition read_labels :: "string \<Rightarrow> ((string \<times> string) list \<times> string) option" where
  "read_labels s =
     (case s of
        [] \<Rightarrow> None
      | c # r \<Rightarrow>
          if c \<noteq> CHR ''{'' then None
          else if r \<noteq> [] \<and> hd r = CHR ''}'' then Some ([], tl r)
          else read_pairs r)"

subsection \<open>The label block\<close>

lemma append_escaped_eq: "append_escaped out v = out @ escaped_chars (utf8_label_value v)"
  by (simp add: append_escaped_def utf8_label_value_def)

lemma read_quoted_escaped: "read_quoted (escaped_chars v @ dquote # r) = Some (v, r)"
proof (induction v)
  case Nil
  show ?case by simp
next
  case (Cons c v)
  have d: "bslash \<noteq> dquote" "CHR ''n'' \<noteq> bslash" "CHR ''n'' \<noteq> dquote"
    by (simp_all add: bslash_def dquote_def)
  show ?case using Cons d by auto
qed

definition one_label :: "string \<times> string \<Rightarrow> string" where
  "one_label kv = fst kv @ [CHR ''='', dquote] @ escaped_chars (utf8_label_value (snd kv)) @ [dquote, CHR '','']"

lemma one_label_nonempty [simp]: "one_label kv \<noteq> []"
  by (simp add: one_label_def)

lemma concat_one_label: "concat (map one_label kvs) = [] \<longleftrightarrow> kvs = []"
  by (cases kvs) simp_all

lemma fold_append_one: "fold append_one kvs (l, b) = (l @ concat (map one_label kvs), b \<or> kvs \<noteq> [])"
  by (induction kvs arbitrary: l b) (simp_all add: append_one_def append_escaped_eq one_label_def)

lemma fold_if_filter: "fold (\<lambda>x st. if P x then f x st else st) xs st = fold f (filter P xs) st"
  by (induction xs arbitrary: st) simp_all

definition shown_labels :: "label_map \<Rightarrow> label_map \<Rightarrow> (string \<times> string) list" where
  "shown_labels static labels = filter (\<lambda>kv. map_of labels (fst kv) = None) static @ labels"

definition label_block :: "(string \<times> string) list \<Rightarrow> string" where
  "label_block kvs = ''{'' @ (if kvs = [] then [] else butlast (concat (map one_label kvs))) @ ''}''"

lemma append_labels_eq: "append_labels static line labels = line @ label_block (shown_labels static labels)"
proof -
  let ?f = "filter (\<lambda>kv. map_of labels (fst kv) = None) static"
  have "fold append_one labels (fold append_one ?f (line @ ''{'', False))
    = (line @ ''{'' @ concat (map one_label (shown_labels static labels)), shown_labels static labels \<noteq> [])"
    by (simp only: fold_append_one) (auto simp: shown_labels_def)
  then show ?thesis
    by (simp add: append_labels_def Let_def fold_if_filter label_block_def butlast_append
        concat_one_label del: concat_eq_Nil_conv)
qed

lemma shown_labels_distinct:
  assumes "omap_ok static" "omap_ok labels"
  shows "distinct (map fst (shown_labels static labels))"
proof -
  have "distinct (map fst (filter (\<lambda>kv. map_of labels (fst kv) = None) static))"
    using omap_ok_distinct [OF assms(1)] by (rule distinct_map_filter)
  then show ?thesis
    using omap_ok_distinct [OF assms(2)]
    by (auto simp: shown_labels_def map_of_eq_None_iff)
qed

lemma span_label_name:
  assumes "label_name k"
  shows "takeWhile label_char (k @ CHR ''='' # s) = k" "dropWhile label_char (k @ CHR ''='' # s) = CHR ''='' # s"
proof -
  have "\<not> label_char (CHR ''='')" by (simp add: label_char_def is_digit_def)
  then show "takeWhile label_char (k @ CHR ''='' # s) = k" "dropWhile label_char (k @ CHR ''='' # s) = CHR ''='' # s"
    using assms by (auto simp: label_name_def list_all_iff takeWhile_append2 dropWhile_append2)
qed

lemma one_label_cons: "one_label kv @ s
  = fst kv @ CHR ''='' # dquote # escaped_chars (utf8_label_value (snd kv)) @ dquote # CHR '','' # s"
  by (simp add: one_label_def)

lemma read_pairs_block:
  assumes "kvs \<noteq> []" "\<forall>kv \<in> set kvs. label_name (fst kv)"
  shows "read_pairs (butlast (concat (map one_label kvs)) @ CHR ''}'' # r)
    = Some (map (apsnd utf8_label_value) kvs, r)"
  using assms
proof (induction kvs)
  case (Cons kv kvs)
  note [simp] = span_label_name [of "fst kv"] read_quoted_escaped
  have k: "label_name (fst kv)" using Cons.prems by simp
  show ?case
  proof (cases "kvs = []")
    case True
    have "butlast (one_label kv) @ CHR ''}'' # r
      = fst kv @ CHR ''='' # dquote # escaped_chars (utf8_label_value (snd kv)) @ dquote # CHR ''}'' # r"
      by (simp add: one_label_def butlast_append)
    then show ?thesis using k True by (simp add: read_pairs.simps) (cases kv, simp)
  next
    case False
    then have "butlast (concat (map one_label (kv # kvs))) @ CHR ''}'' # r
      = one_label kv @ butlast (concat (map one_label kvs)) @ CHR ''}'' # r"
      by (simp add: butlast_append concat_one_label del: concat_eq_Nil_conv)
    then show ?thesis
      using k Cons False
      by (simp add: one_label_cons read_pairs.simps [of "fst kv @ CHR ''='' # _"]) (cases kv, simp)
  qed
qed simp

lemma read_labels_block:
  assumes "\<forall>kv \<in> set kvs. label_name (fst kv)"
  shows "read_labels (label_block kvs @ r) = Some (map (apsnd utf8_label_value) kvs, r)"
proof (cases kvs)
  case Nil
  then show ?thesis by (simp add: read_labels_def label_block_def)
next
  case (Cons kv kvs')
  let ?b = "butlast (concat (map one_label kvs))"
  have "\<not> label_char (CHR ''}'')" by (simp add: label_char_def is_digit_def)
  then obtain c k where k: "fst kv = c # k" "c \<noteq> CHR ''}''"
    using assms Cons by (cases "fst kv") (auto simp: label_name_def)
  then have "?b \<noteq> [] \<and> hd ?b \<noteq> CHR ''}''"
    by (simp add: Cons one_label_def butlast_append)
  then show ?thesis
    using read_pairs_block [of kvs r] assms Cons
    by (simp add: read_labels_def label_block_def)
qed

subsection \<open>The rendered families\<close>

lemma series_line_append: "series_line static base suffix labels v body = body @ series_line static base suffix labels v []"
proof -
  have "fold (\<lambda>s body. body @ ''_'' @ s) suffix b = b @ concat (map (\<lambda>s. ''_'' @ s) suffix)" for b
    by (induction suffix arbitrary: b) simp_all
  then show ?thesis by (simp add: series_line_def append_labels_eq Let_def)
qed

lemma bases_snoc: "bases (cs @ [c]) = (if c_base c \<in> set (bases cs) then bases cs else bases cs @ [c_base c])"
  by (simp add: bases_def)

lemma set_bases: "set (bases cs) = c_base ` set cs"
  by (simp add: bases_def)

lemma first_nonempty_snoc: "first_nonempty (hs @ [h]) = (if first_nonempty hs = [] then h else first_nonempty hs)"
  by (induction hs) auto

lemma family_of_snoc:
  "family_of static (cs @ [c]) b =
     (if b \<noteq> c_base c then family_of static cs b
      else Some (case family_of static cs b of
        None \<Rightarrow> \<lparr>fam_type = c_type c, fam_help = c_help c, fam_body = call_line static c\<rparr>
      | Some fam \<Rightarrow> fam\<lparr>fam_help := (if fam_help fam = [] then c_help c else fam_help fam),
          fam_body := fam_body fam @ call_line static c\<rparr>))"
  by (auto simp: family_of_def Let_def first_nonempty_snoc)

lemma family_of_None: "family_of static cs b = None \<longleftrightarrow> b \<notin> c_base ` set cs"
  by (auto simp: family_of_def Let_def filter_empty_conv)

definition holds_calls :: "label_map \<Rightarrow> call list \<Rightarrow> serializer \<Rightarrow> bool" where
  "holds_calls static cs ser \<longleftrightarrow>
     ser_order ser = bases cs \<and> (\<forall>b. map_of (ser_families ser) b = family_of static cs b)"

lemma holds_calls_step:
  assumes "holds_calls static cs ser"
  shows "holds_calls static (cs @ [c]) (run_call static c ser)"
proof (cases "family_of static cs (c_base c)")
  case None
  then have "c_base c \<notin> set (bases cs)" by (simp add: family_of_None set_bases)
  with None assms show ?thesis
    by (simp add: holds_calls_def run_call_def write_series_def bases_snoc family_of_snoc call_line_def)
next
  case (Some fam)
  then have "c_base c \<in> set (bases cs)"
    using family_of_None [of static cs "c_base c"] by (simp add: set_bases)
  moreover note series_line_append [of static _ _ _ _ "fam_body fam"]
  ultimately show ?thesis using Some assms
    by (simp add: holds_calls_def run_call_def write_series_def bases_snoc family_of_snoc call_line_def)
qed

lemma holds_calls_run: "holds_calls static cs (fold (run_call static) cs new_serializer)"
proof (induction cs rule: rev_induct)
  case Nil
  show ?case by (simp add: holds_calls_def new_serializer_def bases_def family_of_def)
next
  case (snoc c cs)
  then show ?case by (simp add: holds_calls_step)
qed

lemma finalize_loop_concat:
  "\<forall>b \<in> set order. map_of fams b \<noteq> None \<Longrightarrow>
     finalize_loop fams order out = Some (out @ concat (map (\<lambda>b. render_family b (the (map_of fams b))) order))"
  by (induction order arbitrary: out) (auto split: option.split)

subsection \<open>Properties\<close>

text \<open>
  C20: What \<^verbatim>\<open>finalize\<close> returns after any list of calls of \<^verbatim>\<open>write\<close> on a fresh serializer: it never
  throws, each family is rendered once, in the order of the first writes; its type is the one of
  its first write, its HELP the first non-empty one, and its body holds the series of its own
  writes in their order, whatever other families were written in between.
\<close>

theorem finalize_renders_families:
  "finalize (fold (run_call static) cs new_serializer) = Some (exposition static cs)"
  using family_of_None [of static cs] holds_calls_run [of static cs]
  by (simp add: holds_calls_def finalize_def finalize_loop_concat set_bases exposition_def)

text \<open>
  C19: The label block of a series, read by the rules of the text format, gives each label name
  once: the static labels that the call does not override and then the labels of the call,
  each value in its UTF-8 form. No value can end the quoted string or the line early.
\<close>

theorem append_labels_roundtrip:
  assumes "omap_ok static" "omap_ok labels"
    and "\<forall>kv \<in> set (static @ labels). label_name (fst kv)"
  shows "\<exists>block. append_labels static line labels = line @ block
    \<and> read_labels (block @ rest) =
        Some (map (apsnd utf8_label_value)
          (filter (\<lambda>kv. fst kv \<notin> fst ` set labels) static @ labels), rest)
    \<and> distinct (map fst (filter (\<lambda>kv. fst kv \<notin> fst ` set labels) static @ labels))"
proof -
  have eq: "filter (\<lambda>kv. fst kv \<notin> fst ` set labels) static @ labels = shown_labels static labels"
    by (simp add: shown_labels_def map_of_eq_None_iff)
  have "\<forall>kv \<in> set (shown_labels static labels). label_name (fst kv)"
    using assms(3) by (auto simp: shown_labels_def)
  from read_labels_block [OF this] show ?thesis
    unfolding eq append_labels_eq using shown_labels_distinct [OF assms(1, 2)] by blast
qed

theorem append_labels_roundtrip_witness:
  "\<exists>block. append_labels [(''instance'', ''a''), (''policy'', ''p'')] [] [(''policy'', [dquote])] = [] @ block
    \<and> read_labels (block @ []) =
        Some ([(''instance'', utf8_label_value ''a''), (''policy'', utf8_label_value [dquote])], [])"
  using append_labels_roundtrip [of "[(''instance'', ''a''), (''policy'', ''p'')]" "[(''policy'', [dquote])]" "[]" "[]"]
  by (simp add: omap_ok_def label_name_def label_char_def is_digit_def less_char_def)

end
