(* ===== verification/LruList.thy ===== *)
theory LruList
  imports Prelude
begin

text \<open>
  The LRU cache (\<^verbatim>\<open>src/src/VisorLRUList.h\<close>). The source keeps a doubly linked list of pairs, most
  recently used first, and a hash map from keys to iterators into the list. A list node is
  modelled with its identity, a number, and an iterator is that number, so that the sharing
  between the two structures is part of the model. \<open>lru_ok\<close> says that the map holds exactly the
  iterators of the nodes; under it the pair of structures refines a plain list of pairs.
\<close>

subsection \<open>The code\<close>

record ('k, 'v) lru =
  m_CacheItemsList :: "(nat \<times> 'k \<times> 'v) list"
  m_CacheItemsMap :: "('k \<times> nat) list"
  m_MaxSize :: nat
  m_Next :: nat

definition new_lru :: "nat \<Rightarrow> ('k, 'v) lru" where
  "new_lru maxSize = \<lparr>m_CacheItemsList = [], m_CacheItemsMap = [], m_MaxSize = maxSize, m_Next = 0\<rparr>"

definition list_erase :: "nat \<Rightarrow> (nat \<times> 'a) list \<Rightarrow> (nat \<times> 'a) list" where
  "list_erase it xs = filter (\<lambda>n. fst n \<noteq> it) xs"

definition lru_push :: "'k \<Rightarrow> 'v \<Rightarrow> ('k, 'v) lru \<Rightarrow> ('k, 'v) lru" where
  "lru_push element val l =
     (let it = m_Next l; items = (it, element, val) # m_CacheItemsList l in
      case map_of (m_CacheItemsMap l) element of
        None \<Rightarrow>
          l\<lparr>m_CacheItemsList := items, m_CacheItemsMap := AList.update element it (m_CacheItemsMap l),
            m_Next := Suc it\<rparr>
      | Some old \<Rightarrow>
          l\<lparr>m_CacheItemsList := list_erase old items,
            m_CacheItemsMap := AList.update element it (m_CacheItemsMap l), m_Next := Suc it\<rparr>)"

text \<open>The second component is the evicted pair; the return value of the source is 1 exactly if there is one.\<close>

definition lru_put :: "'k \<Rightarrow> 'v \<Rightarrow> ('k, 'v) lru \<Rightarrow> ('k, 'v) lru \<times> ('k \<times> 'v) option" where
  "lru_put element val l =
     (let l = lru_push element val l in
      if m_MaxSize l \<noteq> 0 \<and> length (m_CacheItemsMap l) > m_MaxSize l then
        let lruIter = last (m_CacheItemsList l) in
        (l\<lparr>m_CacheItemsMap := AList.delete (fst (snd lruIter)) (m_CacheItemsMap l),
           m_CacheItemsList := list_erase (fst lruIter) (m_CacheItemsList l)\<rparr>, Some (snd lruIter))
      else (l, None))"

definition getMRUElement :: "('k, 'v) lru \<Rightarrow> 'k \<times> 'v" where
  "getMRUElement l = snd (hd (m_CacheItemsList l))"

definition getLRUElement :: "('k, 'v) lru \<Rightarrow> 'k \<times> 'v" where
  "getLRUElement l = snd (last (m_CacheItemsList l))"

definition getValue :: "'k \<Rightarrow> ('k, 'v) lru \<Rightarrow> 'v option" where
  "getValue element l =
     (case map_of (m_CacheItemsMap l) element of
        None \<Rightarrow> None
      | Some it \<Rightarrow> map_option snd (map_of (m_CacheItemsList l) it))"

definition eraseElement :: "'k \<Rightarrow> ('k, 'v) lru \<Rightarrow> ('k, 'v) lru" where
  "eraseElement element l =
     (case map_of (m_CacheItemsMap l) element of
        None \<Rightarrow> l
      | Some it \<Rightarrow>
          l\<lparr>m_CacheItemsList := list_erase it (m_CacheItemsList l),
            m_CacheItemsMap := AList.delete element (m_CacheItemsMap l)\<rparr>)"

definition getSize :: "('k, 'v) lru \<Rightarrow> nat" where
  "getSize l = length (m_CacheItemsMap l)"

subsection \<open>Specification: a recency list\<close>

definition lru_abs :: "('k, 'v) lru \<Rightarrow> ('k \<times> 'v) list" where
  "lru_abs l = map snd (m_CacheItemsList l)"

definition spec_put :: "nat \<Rightarrow> 'k \<Rightarrow> 'v \<Rightarrow> ('k \<times> 'v) list \<Rightarrow> ('k \<times> 'v) list \<times> ('k \<times> 'v) option" where
  "spec_put cap k v xs =
     (let ys = (k, v) # AList.delete k xs in
      if cap \<noteq> 0 \<and> length ys > cap then (butlast ys, Some (last ys)) else (ys, None))"

subsection \<open>Invariant\<close>

definition lru_nodes_ok :: "('k, 'v) lru \<Rightarrow> bool" where
  "lru_nodes_ok l \<longleftrightarrow>
     distinct (map fst (m_CacheItemsList l)) \<and> distinct (map fst (lru_abs l))
     \<and> (\<forall>n \<in> set (m_CacheItemsList l). fst n < m_Next l)
     \<and> distinct (map fst (m_CacheItemsMap l))
     \<and> (\<forall>k it. map_of (m_CacheItemsMap l) k = Some it \<longleftrightarrow> (\<exists>v. (it, k, v) \<in> set (m_CacheItemsList l)))"

definition lru_ok :: "('k, 'v) lru \<Rightarrow> bool" where
  "lru_ok l \<longleftrightarrow> lru_nodes_ok l \<and> (m_MaxSize l = 0 \<or> length (m_CacheItemsList l) \<le> m_MaxSize l)"

lemma lru_map_keys: "lru_nodes_ok l \<Longrightarrow> fst ` set (m_CacheItemsMap l) = fst ` set (lru_abs l)"
proof -
  assume ok: "lru_nodes_ok l"
  have "k \<in> fst ` set (m_CacheItemsMap l) \<longleftrightarrow> k \<in> fst ` set (lru_abs l)" for k
  proof -
    have "k \<in> fst ` set (m_CacheItemsMap l) \<longleftrightarrow> (\<exists>it. map_of (m_CacheItemsMap l) k = Some it)"
      by (metis map_of_eq_None_iff not_None_eq)
    also have "\<dots> \<longleftrightarrow> (\<exists>it v. (it, k, v) \<in> set (m_CacheItemsList l))"
      using ok by (auto simp: lru_nodes_ok_def)
    also have "\<dots> \<longleftrightarrow> k \<in> fst ` set (lru_abs l)"
      by (force simp: lru_abs_def)
    finally show ?thesis .
  qed
  then show ?thesis by blast
qed

lemma lru_size: "lru_nodes_ok l \<Longrightarrow> length (m_CacheItemsMap l) = length (m_CacheItemsList l)"
proof -
  assume ok: "lru_nodes_ok l"
  then have "card (set (map fst (m_CacheItemsMap l))) = card (set (map fst (lru_abs l)))"
    by (simp add: lru_map_keys)
  with ok show ?thesis
    by (simp only: lru_nodes_ok_def distinct_card) (simp add: lru_abs_def)
qed

lemma node_unique:
  assumes "distinct (map fst xs)" "distinct (map (fst \<circ> snd) xs)" "(it, k, v) \<in> set xs" "n \<in> set xs"
  shows "fst n \<noteq> it \<longleftrightarrow> fst (snd n) \<noteq> k"
proof -
  have "fst n = fst (it, k, v) \<longleftrightarrow> n = (it, k, v)"
    using assms by (intro inj_on_eq_iff [of fst "set xs"]) (auto simp: distinct_map)
  moreover have "(fst \<circ> snd) n = (fst \<circ> snd) (it, k, v) \<longleftrightarrow> n = (it, k, v)"
    using assms by (intro inj_on_eq_iff [of "fst \<circ> snd" "set xs"]) (auto simp: distinct_map)
  ultimately show ?thesis by auto
qed

lemma lru_node_unique:
  assumes "lru_nodes_ok l" "(it, k, v) \<in> set (m_CacheItemsList l)"
  shows "filter (\<lambda>n. fst n \<noteq> it) (m_CacheItemsList l) = filter (\<lambda>n. fst (snd n) \<noteq> k) (m_CacheItemsList l)"
  using node_unique [OF _ _ assms(2)] assms(1)
  by (intro filter_cong) (simp_all add: lru_nodes_ok_def lru_abs_def)

text \<open>Erasing a node by its identity is erasing its key in the abstraction.\<close>

lemma list_erase_key:
  assumes "lru_nodes_ok l" "(it, k, v) \<in> set (m_CacheItemsList l)"
  shows "map snd (list_erase it (m_CacheItemsList l)) = AList.delete k (lru_abs l)"
  unfolding list_erase_def lru_node_unique [OF assms]
  by (simp add: alist_delete_filter filter_map o_def lru_abs_def)

lemma lru_push_abs:
  assumes "lru_nodes_ok l"
  shows "lru_abs (lru_push k v l) = (k, v) # AList.delete k (lru_abs l)"
proof (cases "map_of (m_CacheItemsMap l) k")
  case None
  then have "k \<notin> fst ` set (lru_abs l)"
    using lru_map_keys [OF assms] by (simp add: map_of_eq_None_iff)
  with None show ?thesis by (simp add: lru_push_def Let_def lru_abs_def delete_notin_dom)
next
  case (Some old)
  then obtain v' where n: "(old, k, v') \<in> set (m_CacheItemsList l)"
    using assms by (auto simp: lru_nodes_ok_def)
  then have "old \<noteq> m_Next l" using assms by (auto simp: lru_nodes_ok_def)
  moreover have "map snd (list_erase old (m_CacheItemsList l)) = AList.delete k (lru_abs l)"
    by (rule list_erase_key [OF assms n])
  ultimately show ?thesis
    using Some by (simp add: lru_push_def Let_def lru_abs_def list_erase_def)
qed

lemma lru_push_items:
  assumes "lru_nodes_ok l"
  shows "m_CacheItemsList (lru_push k v l) =
    (m_Next l, k, v) # filter (\<lambda>n. fst (snd n) \<noteq> k) (m_CacheItemsList l)"
proof (cases "map_of (m_CacheItemsMap l) k")
  case None
  then have "k \<notin> fst ` set (lru_abs l)"
    using lru_map_keys [OF assms] by (simp add: map_of_eq_None_iff)
  then have "filter (\<lambda>n. fst (snd n) \<noteq> k) (m_CacheItemsList l) = m_CacheItemsList l"
    by (force simp: lru_abs_def filter_id_conv)
  with None show ?thesis by (simp add: lru_push_def Let_def)
next
  case (Some old)
  then obtain v' where n: "(old, k, v') \<in> set (m_CacheItemsList l)"
    using assms by (auto simp: lru_nodes_ok_def)
  then have "old \<noteq> m_Next l" using assms by (auto simp: lru_nodes_ok_def)
  then show ?thesis
    using Some lru_node_unique [OF assms n] by (simp add: lru_push_def Let_def list_erase_def)
qed

lemma lru_push_fields [simp]:
  "m_CacheItemsMap (lru_push k v l) = AList.update k (m_Next l) (m_CacheItemsMap l)"
  "m_Next (lru_push k v l) = Suc (m_Next l)" "m_MaxSize (lru_push k v l) = m_MaxSize l"
  by (simp_all add: lru_push_def Let_def split: option.split)

lemma lru_push_ok:
  assumes "lru_nodes_ok l"
  shows "lru_nodes_ok (lru_push k v l)"
  unfolding lru_nodes_ok_def lru_push_abs [OF assms] lru_push_items [OF assms] lru_push_fields
proof (intro conjI)
  show "distinct (map fst ((m_Next l, k, v) # filter (\<lambda>n. fst (snd n) \<noteq> k) (m_CacheItemsList l)))"
    using assms by (auto simp: lru_nodes_ok_def distinct_map_filter)
  show "distinct (map fst ((k, v) # AList.delete k (lru_abs l)))"
    using assms by (auto simp: lru_nodes_ok_def distinct_delete alist_delete_filter distinct_map_filter)
  show "\<forall>n \<in> set ((m_Next l, k, v) # filter (\<lambda>n. fst (snd n) \<noteq> k) (m_CacheItemsList l)). fst n < Suc (m_Next l)"
    using assms by (auto simp: lru_nodes_ok_def)
  show "distinct (map fst (AList.update k (m_Next l) (m_CacheItemsMap l)))"
    using assms by (simp add: lru_nodes_ok_def distinct_update)
  show "\<forall>k' it. (map_of (AList.update k (m_Next l) (m_CacheItemsMap l)) k' = Some it) =
     (\<exists>v'. (it, k', v') \<in> set ((m_Next l, k, v) # filter (\<lambda>n. fst (snd n) \<noteq> k) (m_CacheItemsList l)))"
    using assms by (auto simp: lru_nodes_ok_def update_conv')
qed

text \<open>Removing one node together with its map entry, as the eviction and \<open>eraseElement\<close> do.\<close>

definition lru_drop :: "nat \<Rightarrow> 'k \<Rightarrow> ('k, 'v) lru \<Rightarrow> ('k, 'v) lru" where
  "lru_drop it k l = l\<lparr>m_CacheItemsMap := AList.delete k (m_CacheItemsMap l),
     m_CacheItemsList := list_erase it (m_CacheItemsList l)\<rparr>"

lemma lru_drop_refines:
  assumes "lru_nodes_ok l" "(it, k, v) \<in> set (m_CacheItemsList l)"
  shows "lru_nodes_ok (lru_drop it k l)" and "lru_abs (lru_drop it k l) = AList.delete k (lru_abs l)"
proof -
  show abs: "lru_abs (lru_drop it k l) = AList.delete k (lru_abs l)"
    using list_erase_key [OF assms] by (simp add: lru_abs_def lru_drop_def)
  have items: "m_CacheItemsList (lru_drop it k l) = filter (\<lambda>n. fst (snd n) \<noteq> k) (m_CacheItemsList l)"
    using lru_node_unique [OF assms] by (simp add: lru_drop_def list_erase_def)
  have rest: "m_Next (lru_drop it k l) = m_Next l"
    "m_CacheItemsMap (lru_drop it k l) = AList.delete k (m_CacheItemsMap l)"
    by (simp_all add: lru_drop_def)
  show "lru_nodes_ok (lru_drop it k l)"
    unfolding lru_nodes_ok_def abs items rest
    using assms(1) by (auto simp: lru_nodes_ok_def distinct_map_filter distinct_delete delete_conv')
qed

lemma delete_last:
  assumes "distinct (map fst xs)" "xs \<noteq> []"
  shows "AList.delete (fst (last xs)) xs = butlast xs"
proof -
  obtain ys y where xs: "xs = ys @ [y]" using assms(2) by (cases xs rule: rev_cases) auto
  with assms(1) have "fst y \<notin> fst ` set ys" by simp
  then have "filter (\<lambda>p. fst p \<noteq> fst y) ys = ys" by (metis (mono_tags, lifting) filter_True imageI)
  with xs show ?thesis by (simp add: alist_delete_filter)
qed

lemma lru_put_refines:
  assumes "lru_ok l"
  shows "lru_ok (fst (lru_put k v l))"
    and "(lru_abs (fst (lru_put k v l)), snd (lru_put k v l)) = spec_put (m_MaxSize l) k v (lru_abs l)"
proof -
  let ?p = "lru_push k v l"
  have ok: "lru_nodes_ok ?p" using assms lru_push_ok by (auto simp: lru_ok_def)
  have abs: "lru_abs ?p = (k, v) # AList.delete k (lru_abs l)"
    using assms lru_push_abs by (auto simp: lru_ok_def)
  have len: "length (m_CacheItemsMap ?p) = length (lru_abs ?p)"
    using lru_size [OF ok] by (simp add: lru_abs_def)
  have le: "length (lru_abs ?p) \<le> Suc (length (lru_abs l))"
    by (simp add: abs length_delete_le)
  have "lru_ok (fst (lru_put k v l)) \<and>
    (lru_abs (fst (lru_put k v l)), snd (lru_put k v l)) = spec_put (m_MaxSize l) k v (lru_abs l)"
  proof (cases "m_MaxSize l \<noteq> 0 \<and> length (m_CacheItemsMap ?p) > m_MaxSize l")
    case True
    let ?n = "last (m_CacheItemsList ?p)"
    have ne: "m_CacheItemsList ?p \<noteq> []" using abs by (auto simp: lru_abs_def)
    have mem: "(fst ?n, fst (snd ?n), snd (snd ?n)) \<in> set (m_CacheItemsList ?p)" using ne by simp
    note rem = lru_drop_refines [OF ok mem]
    have last: "last (lru_abs ?p) = snd ?n" using ne by (simp add: lru_abs_def last_map)
    have "AList.delete (fst (snd ?n)) (lru_abs ?p) = butlast (lru_abs ?p)"
      using delete_last [of "lru_abs ?p"] ok ne last by (simp add: lru_nodes_ok_def lru_abs_def)
    then have drop: "lru_abs (lru_drop (fst ?n) (fst (snd ?n)) ?p) = butlast (lru_abs ?p)"
      using rem(2) by simp
    have put: "lru_put k v l = (lru_drop (fst ?n) (fst (snd ?n)) ?p, Some (snd ?n))"
      using True by (simp add: lru_put_def Let_def lru_drop_def)
    have "spec_put (m_MaxSize l) k v (lru_abs l) = (butlast (lru_abs ?p), Some (snd ?n))"
      using True len last by (simp add: spec_put_def abs)
    moreover have "length (butlast (lru_abs ?p)) \<le> m_MaxSize l"
      using assms True le by (auto simp: lru_ok_def lru_abs_def)
    then have "length (m_CacheItemsList (lru_drop (fst ?n) (fst (snd ?n)) ?p)) \<le> m_MaxSize l"
      using drop by (metis length_map lru_abs_def)
    ultimately show ?thesis
      using drop put rem(1) by (simp add: lru_ok_def lru_drop_def)
  next
    case False
    then have put: "lru_put k v l = (?p, None)" by (simp add: lru_put_def Let_def)
    moreover have "spec_put (m_MaxSize l) k v (lru_abs l) = (lru_abs ?p, None)"
      using False len by (auto simp: spec_put_def abs Let_def)
    ultimately show ?thesis
      using ok False lru_size [OF ok] by (simp add: lru_ok_def) linarith
  qed
  then show "lru_ok (fst (lru_put k v l))"
    "(lru_abs (fst (lru_put k v l)), snd (lru_put k v l)) = spec_put (m_MaxSize l) k v (lru_abs l)"
    by auto
qed

lemma getValue_refines:
  assumes "lru_ok l"
  shows "getValue k l = map_of (lru_abs l) k"
proof (cases "map_of (m_CacheItemsMap l) k")
  case None
  then have "k \<notin> fst ` set (lru_abs l)"
    using lru_map_keys [of l] assms by (simp add: lru_ok_def map_of_eq_None_iff)
  with None show ?thesis
    by (simp add: getValue_def map_of_eq_None_iff [THEN iffD2])
next
  case (Some it)
  then obtain v where n: "(it, k, v) \<in> set (m_CacheItemsList l)"
    using assms by (auto simp: lru_ok_def lru_nodes_ok_def)
  then have "map_of (m_CacheItemsList l) it = Some (k, v)"
    using assms by (auto simp: lru_ok_def lru_nodes_ok_def)
  moreover have "map_of (lru_abs l) k = Some v"
    using assms n by (force simp: lru_ok_def lru_nodes_ok_def lru_abs_def)
  ultimately show ?thesis using Some by (simp add: getValue_def)
qed

lemma eraseElement_refines:
  assumes "lru_ok l"
  shows "lru_ok (eraseElement k l)" and "lru_abs (eraseElement k l) = AList.delete k (lru_abs l)"
proof -
  have ok: "lru_nodes_ok l" using assms by (simp add: lru_ok_def)
  have "lru_ok (eraseElement k l) \<and> lru_abs (eraseElement k l) = AList.delete k (lru_abs l)"
  proof (cases "map_of (m_CacheItemsMap l) k")
    case None
    then have "k \<notin> fst ` set (lru_abs l)"
      using lru_map_keys [OF ok] by (simp add: map_of_eq_None_iff)
    with None assms show ?thesis by (simp add: eraseElement_def delete_notin_dom)
  next
    case (Some it)
    then obtain v where n: "(it, k, v) \<in> set (m_CacheItemsList l)"
      using ok by (auto simp: lru_nodes_ok_def)
    have "length (list_erase it (m_CacheItemsList l)) \<le> length (m_CacheItemsList l)"
      by (simp add: list_erase_def)
    moreover have "eraseElement k l = lru_drop it k l"
      using Some by (simp add: eraseElement_def lru_drop_def)
    ultimately show ?thesis
      using assms lru_drop_refines [OF ok n] by (auto simp: lru_ok_def lru_drop_def)
  qed
  then show "lru_ok (eraseElement k l)" "lru_abs (eraseElement k l) = AList.delete k (lru_abs l)"
    by auto
qed

subsection \<open>The contract of a bounded cache\<close>

text \<open>
  What the clients of the cache rely on, for any state with a recency list: a put returns the
  evicted pair, a lookup reads the list, and the well-formedness is kept.
\<close>

locale bounded_cache =
  fixes recency :: "'s \<Rightarrow> ('k \<times> 'v) list"
    and put :: "'k \<Rightarrow> 'v \<Rightarrow> 's \<Rightarrow> 's \<times> ('k \<times> 'v) option"
    and get :: "'k \<Rightarrow> 's \<Rightarrow> 'v option"
    and cap :: "'s \<Rightarrow> nat"
    and ok :: "'s \<Rightarrow> bool"
  assumes ok_put: "ok s \<Longrightarrow> ok (fst (put k v s))"
    and cap_put: "ok s \<Longrightarrow> cap (fst (put k v s)) = cap s"
    and recency_put: "ok s \<Longrightarrow> (recency (fst (put k v s)), snd (put k v s)) = spec_put (cap s) k v (recency s)"
    and get_recency: "ok s \<Longrightarrow> get k s = map_of (recency s) k"
    and ok_distinct: "ok s \<Longrightarrow> distinct (map fst (recency s))"
    and ok_cap: "ok s \<Longrightarrow> cap s = 0 \<or> length (recency s) \<le> cap s"
begin

definition puts :: "('k \<times> 'v) list \<Rightarrow> 's \<Rightarrow> 's" where
  "puts kvs s = fold (\<lambda>kv s. fst (put (fst kv) (snd kv) s)) kvs s"

lemma puts_ok: "ok s \<Longrightarrow> ok (puts kvs s) \<and> cap (puts kvs s) = cap s"
  by (induction kvs arbitrary: s) (auto simp: puts_def ok_put cap_put)

text \<open>The key that was put last is always found, with its value.\<close>

lemma get_put_same:
  assumes "ok s"
  shows "get k (fst (put k v s)) = Some v"
proof -
  have "cap s \<noteq> 0 \<Longrightarrow> Suc (length (AList.delete k (recency s))) > cap s \<Longrightarrow> AList.delete k (recency s) \<noteq> []"
    by auto
  then show ?thesis
    using recency_put [OF assms, of k v] get_recency [OF ok_put [OF assms], of k k v]
    by (auto simp: spec_put_def Let_def split: if_splits)
qed

text \<open>A key is lost by a put only if it is the evicted one, and then it was the least recent.\<close>

lemma get_put_other:
  assumes "ok s" "k' \<noteq> k" "get k' (fst (put k v s)) \<noteq> get k' s"
  shows "\<exists>v'. snd (put k v s) = Some (k', v') \<and> last (recency s) = (k', v')"
proof -
  let ?ys = "(k, v) # AList.delete k (recency s)"
  have del: "map_of (AList.delete k (recency s)) k' = map_of (recency s) k'"
    using assms(2) by (simp add: delete_conv')
  note r = recency_put [OF assms(1), of k v] and g = get_recency [OF ok_put [OF assms(1)], of k' k v]
    and g0 = get_recency [OF assms(1), of k']
  have ev: "cap s \<noteq> 0 \<and> length ?ys > cap s"
  proof (rule ccontr)
    assume "\<not> (cap s \<noteq> 0 \<and> length ?ys > cap s)"
    then have "recency (fst (put k v s)) = ?ys" using r by (auto simp: spec_put_def Let_def split: if_splits)
    then show False using g g0 del assms(2,3) by simp
  qed
  then have rec: "recency (fst (put k v s)) = butlast ?ys" "snd (put k v s) = Some (last ?ys)"
    using r by (auto simp: spec_put_def Let_def split: if_splits)
  have len: "length (recency s) \<le> length (AList.delete k (recency s))"
    using ev ok_cap [OF assms(1)] by auto
  then have same: "AList.delete k (recency s) = recency s"
    by (metis alist_delete_filter filter_True length_filter_less linorder_not_less)
  show ?thesis
  proof (cases "recency s" rule: rev_cases)
    case Nil
    then show ?thesis using ev by auto
  next
    case (snoc zs z)
    have "distinct (map fst (recency s))" by (rule ok_distinct [OF assms(1)])
    then have z: "map_of zs (fst z) = None" using snoc by (auto simp: map_of_eq_None_iff)
    have "map_of (recency s) k' \<noteq> map_of zs k'"
      using assms(2,3) g g0 rec same snoc by (simp add: butlast_append)
    then have "k' = fst z" using snoc by (auto simp: map_add_def split: option.splits if_splits)
    then show ?thesis using rec same snoc by (cases z) simp
  qed
qed

end

interpretation lru: bounded_cache lru_abs lru_put getValue m_MaxSize lru_ok
proof unfold_locales
  fix s :: "('a, 'b) lru" and k v
  assume ok: "lru_ok s"
  show "lru_ok (fst (lru_put k v s))" by (rule lru_put_refines(1) [OF ok])
  show "m_MaxSize (fst (lru_put k v s)) = m_MaxSize s" by (simp add: lru_put_def Let_def)
  show "(lru_abs (fst (lru_put k v s)), snd (lru_put k v s)) = spec_put (m_MaxSize s) k v (lru_abs s)"
    by (rule lru_put_refines(2) [OF ok])
  show "getValue k s = map_of (lru_abs s) k" by (rule getValue_refines [OF ok])
  show "distinct (map fst (lru_abs s))" using ok by (simp add: lru_ok_def lru_nodes_ok_def)
  show "m_MaxSize s = 0 \<or> length (lru_abs s) \<le> m_MaxSize s" using ok by (simp add: lru_ok_def lru_abs_def)
qed

lemma new_lru_ok: "lru_ok (new_lru n)" "lru_abs (new_lru n) = []"
  by (simp_all add: lru_ok_def lru_nodes_ok_def new_lru_def lru_abs_def)

subsection \<open>Properties\<close>

text \<open>
  C15: The list with its map of iterators implements a recency list. From a well-formed cache every
  operation keeps the map and the list in step (each iterator in the map points to the node of
  its key, each node has one entry) and the size within the limit; \<^verbatim>\<open>put\<close> moves the key to the
  front and evicts the last entry exactly if the limit would be passed, \<^verbatim>\<open>getValue\<close> looks the key
  up, \<^verbatim>\<open>eraseElement\<close> removes it.
\<close>

theorem lru_refines_recency_list:
  assumes "lru_ok l"
  shows "lru_ok (fst (lru_put k v l)) \<and> lru_ok (eraseElement k l)
    \<and> (lru_abs (fst (lru_put k v l)), snd (lru_put k v l)) = spec_put (m_MaxSize l) k v (lru_abs l)
    \<and> getValue k l = map_of (lru_abs l) k
    \<and> lru_abs (eraseElement k l) = AList.delete k (lru_abs l)
    \<and> getSize l = length (lru_abs l)
    \<and> (m_MaxSize l = 0 \<or> getSize l \<le> m_MaxSize l)"
  using lru_put_refines [OF assms] getValue_refines [OF assms] eraseElement_refines [OF assms] assms
    lru_size [of l]
  by (auto simp: getSize_def lru_ok_def lru_abs_def)

theorem lru_refines_recency_list_witness:
  "lru_ok (fst (lru_put (2::nat) ''b'' (fst (lru_put 1 ''a'' (new_lru 1)))))
    \<and> getValue 2 (fst (lru_put (2::nat) ''b'' (fst (lru_put 1 ''a'' (new_lru 1))))) = Some ''b''"
proof -
  have l: "lru_ok (fst (lru_put (1::nat) ''a'' (new_lru 1)))"
    by (rule lru_put_refines(1) [OF new_lru_ok(1)])
  show ?thesis
    using lru_refines_recency_list [OF l, of 2 "''b''"] lru.get_put_same [OF l, of 2 "''b''"] by blast
qed

text \<open>
  After a put the key is found with the value put, and a lookup of another key changes only if
  that key was the least recently used one and is the pair the put returns as evicted.
\<close>

theorem lru_put_evicts_least_recent:
  assumes "lru_ok l"
  shows "getValue k (fst (lru_put k v l)) = Some v
    \<and> (k' \<noteq> k \<longrightarrow> getValue k' (fst (lru_put k v l)) \<noteq> getValue k' l \<longrightarrow>
        (\<exists>v'. snd (lru_put k v l) = Some (k', v') \<and> getLRUElement l = (k', v')))"
proof -
  have "last (lru_abs l) = getLRUElement l" if "last (lru_abs l) = (k', v')" "lru_abs l \<noteq> []" for v'
    using that by (simp add: lru_abs_def getLRUElement_def last_map)
  moreover have "lru_abs l \<noteq> []" if "getValue k' (fst (lru_put k v l)) \<noteq> getValue k' l" "k' \<noteq> k"
  proof
    assume "lru_abs l = []"
    then have "lru_abs (fst (lru_put k v l)) = [(k, v)]"
      using lru.recency_put [OF assms, of k v] by (auto simp: spec_put_def Let_def split: if_splits)
    then show False
      using that \<open>lru_abs l = []\<close> getValue_refines [OF assms] getValue_refines [OF lru_put_refines(1) [OF assms]]
      by auto
  qed
  ultimately show ?thesis
    using lru.get_put_same [OF assms] lru.get_put_other [OF assms, of k' k v] by metis
qed

theorem lru_put_evicts_least_recent_witness:
  "getValue 2 (fst (lru_put (2::nat) ''b'' (fst (lru_put 1 ''a'' (new_lru 1))))) = Some ''b''
    \<and> getValue (1::nat) (fst (lru_put 1 ''a'' (new_lru 1))) = Some ''a''"
  using lru_put_evicts_least_recent [OF lru_put_refines(1) [OF new_lru_ok(1)], of "2::nat" "''b''" 1 "''a''" 1]
    lru_put_evicts_least_recent [OF new_lru_ok(1), of "1::nat" "''a''" 1 1]
  by simp

end
