(* ===== verification/Transactions.thy ===== *)
theory Transactions
  imports Prelude
begin

text \<open>
  Pairing of requests and replies (\<^verbatim>\<open>src/libs/visor_transaction/TransactionManager.h\<close>): open
  transactions by identifier, their start time, and the time to live. The hash map of the source
  is an association list with distinct keys, under the contract \<open>umap\<close> of the prelude. A
  \<^verbatim>\<open>TransactionType\<close> that inherits from \<^verbatim>\<open>Transaction\<close> is an extension of the record.

  \<^verbatim>\<open>(tv_nsec / 1.0e6) >= _ttl_ms\<close> compares in floating point; for the values of the two sides, below
  \<open>10 ^ 9\<close> and \<open>2 ^ 32\<close>, it holds exactly if \<open>tv_nsec \<ge> _ttl_ms * 10 ^ 6\<close>: the quotient is rounded
  to within \<open>2 ^ (- 43)\<close> and a quotient below an integer is below it by at least \<open>10 ^ (- 6)\<close>.
\<close>

subsection \<open>The code\<close>

definition timespec_diff :: "timespec \<Rightarrow> timespec \<Rightarrow> timespec" where
  "timespec_diff a b =
     (let sec = (if tv_sec a > tv_sec b then tv_sec a - tv_sec b else tv_sec b - tv_sec a);
          nsec = tv_nsec a - tv_nsec b
      in if nsec < 0 then ts (sec - 1) (nsec + 1000000000) else ts sec nsec)"

datatype xact_result = NotExist | TimedOut | Valid

record transaction =
  startTS :: timespec
  totalTS :: timespec

record ('id, 'x) transaction_manager =
  tm_ttl_secs :: nat
  tm_ttl_ms :: nat
  tm_transactions :: "('id \<times> 'x transaction_scheme) list"

definition new_transaction_manager :: "nat \<Rightarrow> ('id, 'x) transaction_manager" where
  "new_transaction_manager ttl_ms =
     (if ttl_ms > 1000 then
        \<lparr>tm_ttl_secs = ttl_ms div 1000, tm_ttl_ms = ttl_ms - ttl_ms div 1000 * 1000, tm_transactions = []\<rparr>
      else \<lparr>tm_ttl_secs = 0, tm_ttl_ms = ttl_ms, tm_transactions = []\<rparr>)"

definition start_transaction ::
  "'id \<Rightarrow> 'x transaction_scheme \<Rightarrow> ('id, 'x) transaction_manager \<Rightarrow> ('id, 'x) transaction_manager" where
  "start_transaction i t m = m\<lparr>tm_transactions := AList.update i t (tm_transactions m)\<rparr>"

text \<open>The returned transaction is \<^term>\<open>None\<close> where the source returns a value-initialised one.\<close>

definition maybe_end_transaction ::
  "'id \<Rightarrow> timespec \<Rightarrow> ('id, 'x) transaction_manager
     \<Rightarrow> (xact_result \<times> 'x transaction_scheme option) \<times> ('id, 'x) transaction_manager" where
  "maybe_end_transaction i endTS m =
     (case map_of (tm_transactions m) i of
        Some t \<Rightarrow>
          (let total = timespec_diff endTS (startTS t);
               result = t\<lparr>totalTS := total\<rparr>;
               m = m\<lparr>tm_transactions := AList.delete i (tm_transactions m)\<rparr>
           in if tv_sec total > int (tm_ttl_secs m) then ((TimedOut, Some result), m)
              else if tv_sec total = int (tm_ttl_secs m) \<and> tv_nsec total \<ge> int (tm_ttl_ms m) * 1000000
              then ((TimedOut, Some result), m)
              else ((Valid, Some result), m))
      | None \<Rightarrow> ((NotExist, None), m))"

definition purge_old_transactions ::
  "timespec \<Rightarrow> ('id, 'x) transaction_manager \<Rightarrow> nat \<times> ('id, 'x) transaction_manager" where
  "purge_old_transactions now m =
     (let timed_out = map fst
            (filter (\<lambda>e. tv_sec now \<ge> int (tm_ttl_secs m) + tv_sec (startTS (snd e))) (tm_transactions m))
      in (length timed_out, m\<lparr>tm_transactions := fold AList.delete timed_out (tm_transactions m)\<rparr>))"

definition clear_transactions :: "('id, 'x) transaction_manager \<Rightarrow> ('id, 'x) transaction_manager" where
  "clear_transactions m = m\<lparr>tm_transactions := []\<rparr>"

definition open_transaction_count :: "('id, 'x) transaction_manager \<Rightarrow> nat" where
  "open_transaction_count m = length (tm_transactions m)"

subsection \<open>Reference definitions\<close>

definition to_ns :: "timespec \<Rightarrow> int" where
  "to_ns t = tv_sec t * 1000000000 + tv_nsec t"

definition normalised :: "timespec \<Rightarrow> bool" where
  "normalised t \<longleftrightarrow> 0 \<le> tv_nsec t \<and> tv_nsec t < 1000000000"

definition ttl_ns :: "('id, 'x) transaction_manager \<Rightarrow> int" where
  "ttl_ns m = (int (tm_ttl_secs m) * 1000 + int (tm_ttl_ms m)) * 1000000"

text \<open>The state of a manager: the split of the time to live that the constructor makes, one entry per key.\<close>

definition manager_ok :: "('id, 'x) transaction_manager \<Rightarrow> bool" where
  "manager_ok m \<longleftrightarrow> distinct (map fst (tm_transactions m))
     \<and> (tm_ttl_ms m < 1000 \<or> tm_ttl_secs m = 0 \<and> tm_ttl_ms m = 1000)"

subsection \<open>Lemmas\<close>

lemma new_transaction_manager_ok:
  "manager_ok (new_transaction_manager ttl)" "ttl_ns (new_transaction_manager ttl) = int ttl * 1000000"
proof -
  have r: "ttl - ttl div 1000 * 1000 = ttl mod 1000" by (simp add: minus_div_mult_eq_mod)
  show "manager_ok (new_transaction_manager ttl)"
    unfolding new_transaction_manager_def r by (auto simp: manager_ok_def)
  have "int (ttl div 1000) * 1000 + int (ttl mod 1000) = int ttl"
    by (metis div_mult_mod_eq of_nat_add of_nat_mult of_nat_numeral)
  then show "ttl_ns (new_transaction_manager ttl) = int ttl * 1000000"
    unfolding new_transaction_manager_def r by (simp add: ttl_ns_def del: of_nat_mod of_nat_div)
qed

lemma timespec_diff_exact:
  assumes "normalised a" "normalised b" "to_ns b \<le> to_ns a"
  shows "normalised (timespec_diff a b)" "to_ns (timespec_diff a b) = to_ns a - to_ns b"
    "0 \<le> tv_sec (timespec_diff a b)"
  using assms by (auto simp: normalised_def to_ns_def timespec_diff_def Let_def)

lemma normalised_compare:
  assumes "normalised t" "manager_ok m"
  shows "ttl_ns m \<le> to_ns t \<longleftrightarrow>
    tv_sec t > int (tm_ttl_secs m) \<or> tv_sec t = int (tm_ttl_secs m) \<and> tv_nsec t \<ge> int (tm_ttl_ms m) * 1000000"
  using assms by (auto simp: normalised_def to_ns_def ttl_ns_def manager_ok_def)

lemma manager_ok_steps:
  assumes "manager_ok m"
  shows "manager_ok (start_transaction i t m)" "manager_ok (snd (maybe_end_transaction i e m))"
    "manager_ok (snd (purge_old_transactions now m))" "manager_ok (clear_transactions m)"
  using assms umap.ok_erase_all [of "tm_transactions m"]
  by (auto simp: manager_ok_def start_transaction_def maybe_end_transaction_def purge_old_transactions_def
      clear_transactions_def Let_def distinct_update distinct_delete umap.erase_all_def split: option.split)

lemma ttl_ns_steps [simp]:
  "ttl_ns (start_transaction i t m) = ttl_ns m" "ttl_ns (snd (maybe_end_transaction i e m)) = ttl_ns m"
  "ttl_ns (snd (purge_old_transactions now m)) = ttl_ns m" "ttl_ns (clear_transactions m) = ttl_ns m"
  by (auto simp: ttl_ns_def start_transaction_def maybe_end_transaction_def purge_old_transactions_def
      clear_transactions_def Let_def split: option.split)

text \<open>What is open after a purge: what was open and started late enough.\<close>

lemma fold_delete_filter: "fold AList.delete ks m = filter (\<lambda>e. fst e \<notin> set ks) m"
proof (induction ks arbitrary: m)
  case (Cons k ks)
  have "filter (\<lambda>e. fst e \<notin> set ks) (filter (\<lambda>e. fst e \<noteq> k) m) = filter (\<lambda>e. fst e \<notin> set (k # ks)) m"
    unfolding filter_filter by (rule filter_cong) auto
  with Cons show ?case by (simp add: alist_delete_filter)
qed simp

lemma purge_keeps:
  assumes "distinct (map fst (tm_transactions m))"
  shows "tm_transactions (snd (purge_old_transactions now m)) =
    filter (\<lambda>e. \<not> tv_sec now \<ge> int (tm_ttl_secs m) + tv_sec (startTS (snd e))) (tm_transactions m)"
proof -
  let ?P = "\<lambda>e. tv_sec now \<ge> int (tm_ttl_secs m) + tv_sec (startTS (snd e))"
  have "fst e \<notin> set (map fst (filter ?P (tm_transactions m))) \<longleftrightarrow> \<not> ?P e" if "e \<in> set (tm_transactions m)" for e
  proof -
    have "e' = e" if "e' \<in> set (tm_transactions m)" "fst e' = fst e" for e'
      using assms that \<open>e \<in> set (tm_transactions m)\<close> by (metis distinct_map inj_onD)
    then show ?thesis using that by (simp add: image_iff) (metis fst_conv snd_conv prod.collapse)
  qed
  then show ?thesis
    unfolding purge_old_transactions_def Let_def snd_conv fold_delete_filter
    by (simp cong: filter_cong)
qed

lemma purge_lookup:
  assumes "distinct (map fst (tm_transactions m))" "map_of (tm_transactions m) i = Some t"
  shows "map_of (tm_transactions (snd (purge_old_transactions now m))) i =
    (if tv_sec now \<ge> int (tm_ttl_secs m) + tv_sec (startTS t) then None else Some t)"
proof -
  let ?Q = "\<lambda>e. \<not> tv_sec now \<ge> int (tm_ttl_secs m) + tv_sec (startTS (snd e))"
  have it: "(i, t) \<in> set (tm_transactions m)" by (rule map_of_SomeD [OF assms(2)])
  have un: "t' = t" if "(i, t') \<in> set (tm_transactions m)" for t'
    using that assms by simp
  have d: "distinct (map fst (filter ?Q (tm_transactions m)))"
    using assms(1) by (rule distinct_map_filter)
  show ?thesis
  proof (cases "?Q (i, t)")
    case True
    with it d have "map_of (filter ?Q (tm_transactions m)) i = Some t" by (intro map_of_is_SomeI) auto
    with True show ?thesis by (simp add: purge_keeps [OF assms(1)])
  next
    case False
    then have "i \<notin> fst ` set (filter ?Q (tm_transactions m))" using un by auto
    with False show ?thesis by (simp add: purge_keeps [OF assms(1)] map_of_eq_None_iff)
  qed
qed

lemma purge_count:
  assumes "distinct (map fst (tm_transactions m))"
  shows "open_transaction_count (snd (purge_old_transactions now m)) + fst (purge_old_transactions now m)
    = open_transaction_count m"
proof -
  let ?P = "\<lambda>e. tv_sec now \<ge> int (tm_ttl_secs m) + tv_sec (startTS (snd e))"
  have "length (filter ?P (tm_transactions m)) + length (filter (\<lambda>e. \<not> ?P e) (tm_transactions m))
    = length (tm_transactions m)"
    by (rule sum_length_filter_compl)
  moreover have "fst (purge_old_transactions now m) = length (filter ?P (tm_transactions m))"
    by (simp add: purge_old_transactions_def Let_def)
  ultimately show ?thesis
    by (simp only: purge_keeps [OF assms] open_transaction_count_def)
qed

lemma overdue_is_purged:
  assumes "normalised now" "normalised s" "ttl_ns m \<le> to_ns now - to_ns s"
  shows "tv_sec now \<ge> int (tm_ttl_secs m) + tv_sec s"
  using assms by (auto simp: normalised_def to_ns_def ttl_ns_def)

lemma young_is_kept:
  assumes "normalised now" "normalised s" "to_ns now - to_ns s \<le> (int (tm_ttl_secs m) - 1) * 1000000000"
  shows "\<not> tv_sec now \<ge> int (tm_ttl_secs m) + tv_sec s"
  using assms by (auto simp: normalised_def to_ns_def)

subsection \<open>Properties\<close>

text \<open>
  C22: A reply ends the open transaction of its identifier once: the result is a timeout exactly if
  the time from start to reply reaches the time to live given to the constructor, in nanoseconds,
  the reported duration is exact, and the identifier is closed afterwards while the others stay.
  An identifier that is not open gives \<^verbatim>\<open>NotExist\<close> and changes nothing.
\<close>

theorem maybe_end_transaction_outcome:
  assumes "manager_ok m" "normalised e"
    and "\<forall>t. map_of (tm_transactions m) i = Some t \<longrightarrow> normalised (startTS t) \<and> to_ns (startTS t) \<le> to_ns e"
  shows "case map_of (tm_transactions m) i of
      None \<Rightarrow> maybe_end_transaction i e m = ((NotExist, None), m)
    | Some t \<Rightarrow> (\<exists>total. maybe_end_transaction i e m =
        ((if ttl_ns m \<le> to_ns e - to_ns (startTS t) then TimedOut else Valid, Some (t\<lparr>totalTS := total\<rparr>)),
         m\<lparr>tm_transactions := AList.delete i (tm_transactions m)\<rparr>)
        \<and> to_ns total = to_ns e - to_ns (startTS t))"
proof (cases "map_of (tm_transactions m) i")
  case None
  then show ?thesis by (simp add: maybe_end_transaction_def)
next
  case (Some t)
  let ?d = "timespec_diff e (startTS t)"
  have "normalised (startTS t)" "to_ns (startTS t) \<le> to_ns e" using assms(3) Some by auto
  note d = timespec_diff_exact [OF assms(2) this]
  show ?thesis
    using Some d(2) normalised_compare [OF d(1) assms(1)]
    by (auto simp: maybe_end_transaction_def Let_def intro!: exI [of _ ?d])
qed

theorem maybe_end_transaction_outcome_witness:
  "fst (fst (maybe_end_transaction (7::nat) (ts 6 0)
      (start_transaction 7 \<lparr>startTS = ts 1 0, totalTS = ts 0 0\<rparr> (new_transaction_manager 5000)))) = TimedOut"
proof -
  let ?m = "start_transaction (7::nat) \<lparr>startTS = ts 1 0, totalTS = ts 0 0\<rparr> (new_transaction_manager 5000)"
  have ok: "manager_ok ?m" by (intro manager_ok_steps new_transaction_manager_ok)
  show ?thesis
    using maybe_end_transaction_outcome [OF ok, of "ts 6 0" 7]
    by (auto simp: normalised_def to_ns_def start_transaction_def new_transaction_manager_def ttl_ns_def)
qed

text \<open>
  \<^verbatim>\<open>purge_old_transactions\<close> closes every transaction whose age has reached the time to live, returns
  how many it closed, closes none that is more than one second younger than the whole seconds of
  the time to live, and leaves what it keeps as it was.
\<close>

theorem purge_old_transactions_exact:
  assumes "manager_ok m" "normalised now" "\<forall>e \<in> set (tm_transactions m). normalised (startTS (snd e))"
  shows "(\<forall>i t. map_of (tm_transactions m) i = Some t \<longrightarrow>
      (ttl_ns m \<le> to_ns now - to_ns (startTS t) \<longrightarrow>
         map_of (tm_transactions (snd (purge_old_transactions now m))) i = None)
      \<and> (to_ns now - to_ns (startTS t) \<le> (int (tm_ttl_secs m) - 1) * 1000000000 \<longrightarrow>
         map_of (tm_transactions (snd (purge_old_transactions now m))) i = Some t))
    \<and> open_transaction_count (snd (purge_old_transactions now m)) + fst (purge_old_transactions now m)
      = open_transaction_count m"
proof (intro conjI allI impI)
  have d: "distinct (map fst (tm_transactions m))" using assms(1) by (simp add: manager_ok_def)
  fix i t
  assume t: "map_of (tm_transactions m) i = Some t"
  then have n: "normalised (startTS t)" using assms(3) by (auto dest!: map_of_SomeD)
  note look = purge_lookup [OF d t, of now]
  show "map_of (tm_transactions (snd (purge_old_transactions now m))) i = None"
    if "ttl_ns m \<le> to_ns now - to_ns (startTS t)"
    using overdue_is_purged [OF assms(2) n that] look by simp
  show "map_of (tm_transactions (snd (purge_old_transactions now m))) i = Some t"
    if "to_ns now - to_ns (startTS t) \<le> (int (tm_ttl_secs m) - 1) * 1000000000"
    using young_is_kept [OF assms(2) n that] look by simp
next
  have d: "distinct (map fst (tm_transactions m))" using assms(1) by (simp add: manager_ok_def)
  show "open_transaction_count (snd (purge_old_transactions now m)) + fst (purge_old_transactions now m)
      = open_transaction_count m"
    by (rule purge_count [OF d])
qed

theorem purge_old_transactions_exact_witness:
  "map_of (tm_transactions (snd (purge_old_transactions (ts 6 0)
      (start_transaction (7::nat) \<lparr>startTS = ts 1 0, totalTS = ts 0 0\<rparr> (new_transaction_manager 5000))))) 7 = None"
proof -
  let ?m = "start_transaction (7::nat) \<lparr>startTS = ts 1 0, totalTS = ts 0 0\<rparr> (new_transaction_manager 5000)"
  have ok: "manager_ok ?m" by (intro manager_ok_steps new_transaction_manager_ok)
  show ?thesis
    using purge_old_transactions_exact [OF ok, of "ts 6 0"]
    by (simp add: normalised_def to_ns_def start_transaction_def new_transaction_manager_def ttl_ns_def)
qed

text \<open>
  The sub-second part of the time to live is not used by the purge: with a time to live of
  5999 ms, a transaction that is just over four seconds old is discarded, while a reply at that
  moment would have ended it as valid.
\<close>

theorem purge_before_ttl:
  "\<exists>(t :: transaction) now. let m = start_transaction (7 :: nat) t (new_transaction_manager 5999) in
     normalised (startTS t) \<and> normalised now
     \<and> to_ns now - to_ns (startTS t) = 4000000001
     \<and> fst (fst (maybe_end_transaction 7 now m)) = Valid
     \<and> map_of (tm_transactions (snd (purge_old_transactions now m))) 7 = None"
  by (rule exI [of _ "\<lparr>startTS = ts 0 999999999, totalTS = ts 0 0\<rparr>"], rule exI [of _ "ts 5 0"])
    (simp add: start_transaction_def new_transaction_manager_def normalised_def to_ns_def
      maybe_end_transaction_def purge_old_transactions_def timespec_diff_def Let_def)

end
