(* ===== verification/Metrics.thy ===== *)
theory Metrics
  imports Complex_Main Prometheus
begin

text \<open>
  The metric classes (\<^verbatim>\<open>src/src/Metrics.h\<close>, \<^verbatim>\<open>src/src/Metrics.cpp\<close>): names and static labels, \<open>Counter\<close>,
  \<open>Histogram\<close>, \<open>Quantile\<close>, \<open>TopN\<close>, \<open>Cardinality\<close> and \<open>Rate\<close>, with their Prometheus and OTLP output.

  The sketches of the DataSketches library are parameters: a record of operations for the quantile
  sketch (\<open>kll_ops\<close>), for the frequent items (\<open>fi_ops\<close>) and for the distinct count (\<open>cpc_ops\<close>).
  The OTLP messages are generated from a schema; they are records with the fields the code sets,
  a repeated field being a list that \<^verbatim>\<open>add_...\<close> extends. The text of a number or of an item, as the
  formatting library or an output stream gives it, is a parameter too.
\<close>

subsection \<open>Names and labels\<close>

record metric =
  m_name :: "string list"
  m_desc :: string
  m_schema_key :: string

text \<open>A match of the whole string against \<^verbatim>\<open>[a-zA-Z_][a-zA-Z0-9_]*\<close>.\<close>

fun label_regex :: "string \<Rightarrow> bool" where
  "label_regex [] = False"
| "label_regex (c # s) = (alpha_us c \<and> list_all (\<lambda>d. alpha_us d \<or> is_digit d) s)"

fun check_name_list :: "string list \<Rightarrow> string option" where
  "check_name_list [] = None"
| "check_name_list (n # ns) =
     (if \<not> label_regex n then Some (''invalid metric name: '' @ n) else check_name_list ns)"

text \<open>\<^term>\<open>Some\<close> message is the exception that \<^verbatim>\<open>_check_names\<close> throws.\<close>

definition check_names :: "metric \<Rightarrow> string option" where
  "check_names m =
     (case check_name_list (m_name m) of
        Some e \<Rightarrow> Some e
      | None \<Rightarrow>
          if \<not> label_regex (m_schema_key m) then Some (''invalid schema name: '' @ m_schema_key m)
          else None)"

definition new_metric :: "string \<Rightarrow> string list \<Rightarrow> string \<Rightarrow> string + metric" where
  "new_metric schema_key names desc =
     (let m = \<lparr>m_name = names, m_desc = desc, m_schema_key = schema_key\<rparr>
      in case check_names m of Some e \<Rightarrow> Inl e | None \<Rightarrow> Inr m)"

text \<open>\<^verbatim>\<open>set_info\<close> stores first and checks then, so the new names stay when it throws.\<close>

definition set_info :: "string \<Rightarrow> string list \<Rightarrow> string \<Rightarrow> metric \<Rightarrow> metric \<times> string option" where
  "set_info schema_key names desc m =
     (let m = m\<lparr>m_name := names, m_desc := desc, m_schema_key := schema_key\<rparr> in (m, check_names m))"

definition add_static_label :: "string \<Rightarrow> string \<Rightarrow> label_map \<Rightarrow> label_map" where
  "add_static_label label val static = omap_emplace label val static"

definition reset_static_labels :: "label_map \<Rightarrow> label_map" where
  "reset_static_labels static = []"

definition snake :: "string \<Rightarrow> string \<Rightarrow> string" where
  "snake s ss = (if ss = [] then s else ss @ ''_'' @ s)"

definition base_name_snake :: "metric \<Rightarrow> string" where
  "base_name_snake m = m_schema_key m @ ''_'' @ fold snake (m_name m) []"

text \<open>Decimal digits, the text of an unsigned integer.\<close>

fun dec_str :: "nat \<Rightarrow> string" where
  "dec_str n = (if n < 10 then [char_of (48 + n)] else dec_str (n div 10) @ [char_of (48 + n mod 10)])"

declare dec_str.simps [simp del]

definition u64_str :: "u64 \<Rightarrow> string" where
  "u64_str w = dec_str (unat w)"

subsection \<open>OTLP messages\<close>

record otel_point =
  op_start :: u64
  op_end :: u64
  op_attributes :: "(string \<times> string) list"

record otel_number = otel_point +
  op_as_int :: u64

record 't otel_summary = otel_point +
  op_quantiles :: "(real \<times> 't) list"

record 't otel_histogram = otel_point +
  op_bounds :: "'t list"
  op_counts :: "u64 list"
  op_count :: u64

text \<open>A metric whose kind was never set, as \<^verbatim>\<open>mutable_gauge\<close> and its like do, has no data.\<close>

datatype 't otel_data =
  ONotSet | OGauge "otel_number list" | OSummary "'t otel_summary list" | OHistogram "'t otel_histogram list"

record 't otel_metric =
  om_name :: string
  om_desc :: string
  om_data :: "'t otel_data"

type_synonym 't scope_metrics = "'t otel_metric list"

text \<open>\<^verbatim>\<open>stamp.tv_sec * 1000000000ULL + stamp.tv_nsec\<close>, unsigned and at 64 bits.\<close>

definition timespec_to_uint64 :: "timespec \<Rightarrow> u64" where
  "timespec_to_uint64 t = word_of_int (tv_sec t) * 1000000000 + word_of_int (tv_nsec t)"

definition label_attributes :: "label_map \<Rightarrow> (string \<times> string) list" where
  "label_attributes labels = map (\<lambda>l. (fst l, utf8_label_value (snd l))) labels"

definition otel_number_point :: "timespec \<Rightarrow> timespec \<Rightarrow> label_map \<Rightarrow> u64 \<Rightarrow> otel_number" where
  "otel_number_point start end_ts labels val =
     \<lparr>op_start = timespec_to_uint64 start, op_end = timespec_to_uint64 end_ts,
      op_attributes = label_attributes labels, op_as_int = val\<rparr>"

subsection \<open>Counter\<close>

record counter =
  c_metric :: metric
  c_value :: u64

definition counter_inc :: "counter \<Rightarrow> counter" where
  "counter_inc c = c\<lparr>c_value := c_value c + 1\<rparr>"

definition counter_add :: "u64 \<Rightarrow> counter \<Rightarrow> counter" where
  "counter_add i c = c\<lparr>c_value := c_value c + i\<rparr>"

definition counter_merge :: "counter \<Rightarrow> counter \<Rightarrow> counter" where
  "counter_merge other c = c\<lparr>c_value := c_value c + c_value other\<rparr>"

definition counter_clear :: "counter \<Rightarrow> counter" where
  "counter_clear c = c\<lparr>c_value := 0\<rparr>"

definition counter_to_prometheus :: "label_map \<Rightarrow> label_map \<Rightarrow> counter \<Rightarrow> serializer \<Rightarrow> serializer" where
  "counter_to_prometheus static add_labels c ser =
     write_series static (base_name_snake (c_metric c)) Gauge (m_desc (c_metric c)) [] add_labels
       (u64_str (c_value c)) ser"

definition counter_to_opentelemetry ::
  "timespec \<Rightarrow> timespec \<Rightarrow> label_map \<Rightarrow> counter \<Rightarrow> 't scope_metrics \<Rightarrow> 't scope_metrics" where
  "counter_to_opentelemetry start end_ts add_labels c scope =
     scope @ [\<lparr>om_name = base_name_snake (c_metric c), om_desc = m_desc (c_metric c),
       om_data = OGauge [otel_number_point start end_ts add_labels (c_value c)]\<rparr>]"

subsection \<open>Quantile\<close>

record ('q, 't) kll_ops =
  kll_new :: 'q
  kll_update :: "'t \<Rightarrow> 'q \<Rightarrow> 'q"
  kll_merge :: "'q \<Rightarrow> 'q \<Rightarrow> 'q"
  kll_is_empty :: "'q \<Rightarrow> bool"
  kll_get_n :: "'q \<Rightarrow> u64"
  kll_get_quantile :: "'q \<Rightarrow> real \<Rightarrow> 't"
  kll_get_max_item :: "'q \<Rightarrow> 't"
  kll_get_PMF :: "'q \<Rightarrow> 't list \<Rightarrow> real list"
  kll_get_CDF :: "'q \<Rightarrow> 't list \<Rightarrow> real list"

datatype aggregate = Agg_DEFAULT | Agg_SUM

definition QUANTILES :: "(real \<times> string \<times> string) list" where
  "QUANTILES = [(50 / 100, ''p50'', ''0.5''), (90 / 100, ''p90'', ''0.9''),
     (95 / 100, ''p95'', ''0.95''), (99 / 100, ''p99'', ''0.99'')]"

definition get_quantiles :: "('q, 't) kll_ops \<Rightarrow> 'q \<Rightarrow> 't list" where
  "get_quantiles kll q = map (\<lambda>s. kll_get_quantile kll q (fst s)) QUANTILES"

record ('q, 't) quantile =
  q_metric :: metric
  q_sketch :: 'q
  q_sum :: "'t list"

definition quantile_update :: "('q, 't) kll_ops \<Rightarrow> 't \<Rightarrow> ('q, 't) quantile \<Rightarrow> ('q, 't) quantile" where
  "quantile_update kll v q = q\<lparr>q_sketch := kll_update kll v (q_sketch q)\<rparr>"

definition quantile_merge ::
  "('q, 't::plus) kll_ops \<Rightarrow> aggregate \<Rightarrow> ('q, 't) quantile \<Rightarrow> ('q, 't) quantile \<Rightarrow> ('q, 't) quantile" where
  "quantile_merge kll agg other q =
     (if agg = Agg_SUM \<and> \<not> kll_is_empty kll (q_sketch q) then
        if kll_is_empty kll (q_sketch other) then q
        else
          (let other_quantiles = get_quantiles kll (q_sketch other);
               acc = (if q_sum q = [] then get_quantiles kll (q_sketch q) else q_sum q)
           in q\<lparr>q_sum := map2 (+) acc other_quantiles\<rparr>)
      else q\<lparr>q_sketch := kll_merge kll (q_sketch q) (q_sketch other)\<rparr>)"

definition reported_quantiles :: "('q, 't) kll_ops \<Rightarrow> ('q, 't) quantile \<Rightarrow> 't list" where
  "reported_quantiles kll q = (if q_sum q = [] then get_quantiles kll (q_sketch q) else q_sum q)"

definition quantile_to_prometheus ::
  "('q, 't) kll_ops \<Rightarrow> ('t \<Rightarrow> string) \<Rightarrow> label_map \<Rightarrow> label_map \<Rightarrow> ('q, 't) quantile \<Rightarrow> serializer \<Rightarrow> serializer"
where
  "quantile_to_prometheus kll text static add_labels q ser =
     (if kll_is_empty kll (q_sketch q) then ser
      else
        let quantiles = reported_quantiles kll q;
            base = base_name_snake (q_metric q);
            desc = m_desc (q_metric q)
        in if quantiles = [] then ser
           else
             let ser = fold (\<lambda>(spec, v) ser.
                   write_series static base Summary desc [] (omap_put ''quantile'' (snd (snd spec)) add_labels)
                     (text v) ser) (zip QUANTILES quantiles) ser;
                 ser = write_series static base Summary desc [''sum''] add_labels
                   (text (kll_get_max_item kll (q_sketch q))) ser
             in write_series static base Summary desc [''count''] add_labels
                  (u64_str (kll_get_n kll (q_sketch q))) ser)"

definition quantile_to_opentelemetry ::
  "('q, 't) kll_ops \<Rightarrow> timespec \<Rightarrow> timespec \<Rightarrow> label_map \<Rightarrow> ('q, 't) quantile \<Rightarrow> 't scope_metrics \<Rightarrow> 't scope_metrics"
where
  "quantile_to_opentelemetry kll start end_ts add_labels q scope =
     (if kll_is_empty kll (q_sketch q) then scope
      else
        scope @ [\<lparr>om_name = base_name_snake (q_metric q), om_desc = m_desc (q_metric q),
          om_data = OSummary [\<lparr>op_start = timespec_to_uint64 start, op_end = timespec_to_uint64 end_ts,
            op_attributes = label_attributes add_labels,
            op_quantiles = map2 (\<lambda>spec v. (fst spec, v)) QUANTILES (reported_quantiles kll q)\<rparr>]\<rparr>])"

subsection \<open>Histogram\<close>

record 'q histogram =
  h_metric :: metric
  h_sketch :: 'q

definition histogram_update :: "('q, 't) kll_ops \<Rightarrow> 't \<Rightarrow> 'q histogram \<Rightarrow> 'q histogram" where
  "histogram_update kll v h = h\<lparr>h_sketch := kll_update kll v (h_sketch h)\<rparr>"

definition histogram_merge :: "('q, 't) kll_ops \<Rightarrow> 'q histogram \<Rightarrow> 'q histogram \<Rightarrow> 'q histogram" where
  "histogram_merge kll other h = h\<lparr>h_sketch := kll_merge kll (h_sketch h) (h_sketch other)\<rparr>"

text \<open>The bins in use: the boundaries (computed at compile time, a parameter) of non-zero mass.\<close>

definition histogram_bins :: "('q, 't) kll_ops \<Rightarrow> 't list \<Rightarrow> 'q \<Rightarrow> 't list" where
  "histogram_bins kll boundaries sketch =
     map fst (filter (\<lambda>b. snd b \<noteq> 0) (zip boundaries (kll_get_PMF kll sketch boundaries)))"

text \<open>\<^verbatim>\<open>static_cast<uint64_t>\<close> of a floating point number cuts the fraction off.\<close>

definition to_uint64 :: "real \<Rightarrow> u64" where
  "to_uint64 x = word_of_int \<lfloor>x\<rfloor>"

definition histogram_to_opentelemetry ::
  "('q, 't) kll_ops \<Rightarrow> 't list \<Rightarrow> timespec \<Rightarrow> timespec \<Rightarrow> label_map \<Rightarrow> 'q histogram \<Rightarrow> 't scope_metrics \<Rightarrow> 't scope_metrics"
where
  "histogram_to_opentelemetry kll boundaries start end_ts add_labels h scope =
     (if kll_is_empty kll (h_sketch h) then scope
      else
        let bins = histogram_bins kll boundaries (h_sketch h);
            cdf = kll_get_CDF kll (h_sketch h) bins;
            n = kll_get_n kll (h_sketch h)
        in scope @ [\<lparr>om_name = base_name_snake (h_metric h), om_desc = m_desc (h_metric h),
             om_data = OHistogram [\<lparr>op_start = timespec_to_uint64 start, op_end = timespec_to_uint64 end_ts,
               op_attributes = label_attributes add_labels, op_bounds = bins,
               op_counts = map2 (\<lambda>_ c. to_uint64 c * n) bins cdf, op_count = n\<rparr>]\<rparr>])"

definition histogram_to_prometheus ::
  "('q, 't) kll_ops \<Rightarrow> 't list \<Rightarrow> ('t \<Rightarrow> string) \<Rightarrow> (real \<Rightarrow> u64 \<Rightarrow> string) \<Rightarrow> label_map \<Rightarrow> label_map
    \<Rightarrow> 'q histogram \<Rightarrow> serializer \<Rightarrow> serializer"
where
  "histogram_to_prometheus kll boundaries text product_text static add_labels h ser =
     (if kll_is_empty kll (h_sketch h) then ser
      else
        let bins = histogram_bins kll boundaries (h_sketch h);
            cdf = kll_get_CDF kll (h_sketch h) bins;
            n = kll_get_n kll (h_sketch h);
            base = base_name_snake (h_metric h);
            desc = m_desc (h_metric h);
            ser = fold (\<lambda>(b, c) ser.
              write_series static base Histogram_Type desc [''bucket''] (omap_put ''le'' (text b) add_labels)
                (product_text c n) ser) (zip bins cdf) ser;
            ser = write_series static base Histogram_Type desc [''bucket''] (omap_put ''le'' ''+Inf'' add_labels)
              (product_text (cdf ! length bins) n) ser
        in write_series static base Histogram_Type desc [''count''] add_labels (u64_str n) ser)"

subsection \<open>TopN\<close>

record ('f, 't) fi_ops =
  fi_new :: 'f
  fi_update :: "'t \<Rightarrow> u64 \<Rightarrow> 'f \<Rightarrow> 'f"
  fi_merge :: "'f \<Rightarrow> 'f \<Rightarrow> 'f"
  fi_get_frequent_items :: "'f \<Rightarrow> ('t \<times> u64) list"

record 'f topn =
  t_metric :: metric
  t_fi :: 'f
  t_top_count :: nat
  t_item_key :: string
  t_percentile_threshold :: real

definition new_topn :: "('f, 't) fi_ops \<Rightarrow> metric \<Rightarrow> string \<Rightarrow> 'f topn" where
  "new_topn fi m item_key =
     \<lparr>t_metric = m, t_fi = fi_new fi, t_top_count = 10, t_item_key = item_key, t_percentile_threshold = 0\<rparr>"

definition topn_update :: "('f, 't) fi_ops \<Rightarrow> 't \<Rightarrow> u64 \<Rightarrow> 'f topn \<Rightarrow> 'f topn" where
  "topn_update fi v weight t = t\<lparr>t_fi := fi_update fi v weight (t_fi t)\<rparr>"

definition topn_merge :: "('f, 't) fi_ops \<Rightarrow> 'f topn \<Rightarrow> 'f topn \<Rightarrow> 'f topn" where
  "topn_merge fi other t = t\<lparr>t_fi := fi_merge fi (t_fi t) (t_fi other)\<rparr>"

text \<open>The second component says whether \<^verbatim>\<open>set_settings\<close> throws, after it has stored both settings.\<close>

definition set_settings :: "nat \<Rightarrow> u64 \<Rightarrow> 'f topn \<Rightarrow> 'f topn \<times> bool" where
  "set_settings top_count percentile_threshold t =
     (let t = t\<lparr>t_top_count := top_count, t_percentile_threshold := real (unat percentile_threshold) / 100\<rparr>
      in (t, t_percentile_threshold t > 1))"

definition topn_threshold :: "('q, u64) kll_ops \<Rightarrow> 'f topn \<Rightarrow> ('t \<times> u64) list \<Rightarrow> u64" where
  "topn_threshold kll t items =
     (let quantile = fold (\<lambda>row. kll_update kll (snd row)) (take (t_top_count t) items) (kll_new kll)
      in if kll_is_empty kll quantile then 0
         else kll_get_quantile kll quantile (t_percentile_threshold t))"

text \<open>
  The output loops run over the first \<^verbatim>\<open>min(_top_count, items.size())\<close> rows and break at the first
  row below the threshold. The formatter of an item that gives a string, and the default one that
  writes the item to a stream, are the argument \<open>text\<close>.
\<close>

fun topn_prometheus_loop ::
  "('t \<Rightarrow> string) \<Rightarrow> u64 \<Rightarrow> (label_map \<Rightarrow> u64 \<Rightarrow> serializer \<Rightarrow> serializer)
    \<Rightarrow> string \<Rightarrow> label_map \<Rightarrow> ('t \<times> u64) list \<Rightarrow> serializer \<Rightarrow> serializer"
where
  "topn_prometheus_loop text threshold wr key l [] ser = ser"
| "topn_prometheus_loop text threshold wr key l (row # rows) ser =
     (if snd row \<ge> threshold then
        let l = omap_put key (text (fst row)) l
        in topn_prometheus_loop text threshold wr key l rows (wr l (snd row) ser)
      else ser)"

fun topn_prometheus_labels_loop ::
  "(string \<Rightarrow> 't \<Rightarrow> label_map \<Rightarrow> label_map) \<Rightarrow> u64 \<Rightarrow> (label_map \<Rightarrow> u64 \<Rightarrow> serializer \<Rightarrow> serializer)
    \<Rightarrow> string \<Rightarrow> label_map \<Rightarrow> ('t \<times> u64) list \<Rightarrow> serializer \<Rightarrow> serializer"
where
  "topn_prometheus_labels_loop formatter threshold wr key add_labels [] ser = ser"
| "topn_prometheus_labels_loop formatter threshold wr key add_labels (row # rows) ser =
     (if snd row \<ge> threshold then
        let l = formatter key (fst row) add_labels
        in topn_prometheus_labels_loop formatter threshold wr key add_labels rows (wr l (snd row) ser)
      else ser)"

definition topn_write :: "label_map \<Rightarrow> 'f topn \<Rightarrow> label_map \<Rightarrow> u64 \<Rightarrow> serializer \<Rightarrow> serializer" where
  "topn_write static t l estimate =
     write_series static (base_name_snake (t_metric t)) Gauge (m_desc (t_metric t)) [] l (u64_str estimate)"

definition topn_to_prometheus ::
  "('q, u64) kll_ops \<Rightarrow> ('f, 't) fi_ops \<Rightarrow> ('t \<Rightarrow> string) \<Rightarrow> label_map \<Rightarrow> label_map \<Rightarrow> 'f topn \<Rightarrow> serializer \<Rightarrow> serializer"
where
  "topn_to_prometheus kll fi text static add_labels t ser =
     (let items = fi_get_frequent_items fi (t_fi t) in
      if min (t_top_count t) (length items) = 0 then ser
      else
        topn_prometheus_loop text (topn_threshold kll t items)
          (topn_write static t) (t_item_key t) add_labels (take (t_top_count t) items) ser)"

definition topn_to_prometheus_labels ::
  "('q, u64) kll_ops \<Rightarrow> ('f, 't) fi_ops \<Rightarrow> (string \<Rightarrow> 't \<Rightarrow> label_map \<Rightarrow> label_map) \<Rightarrow> label_map \<Rightarrow> label_map
    \<Rightarrow> 'f topn \<Rightarrow> serializer \<Rightarrow> serializer"
where
  "topn_to_prometheus_labels kll fi formatter static add_labels t ser =
     (let items = fi_get_frequent_items fi (t_fi t) in
      if min (t_top_count t) (length items) = 0 then ser
      else
        topn_prometheus_labels_loop formatter (topn_threshold kll t items)
          (topn_write static t) (t_item_key t) add_labels (take (t_top_count t) items) ser)"

text \<open>
  The OTLP loops keep one label map for all rows: the map a row leaves is the one the next row
  starts from. \<^verbatim>\<open>l[_item_key]\<close> in the test creates the key if the formatter did not set it.
\<close>

fun topn_otel_loop ::
  "(string \<Rightarrow> 't \<Rightarrow> label_map \<Rightarrow> label_map) \<Rightarrow> u64 \<Rightarrow> (label_map \<Rightarrow> u64 \<Rightarrow> otel_number)
    \<Rightarrow> string \<Rightarrow> label_map \<Rightarrow> ('t \<times> u64) list \<Rightarrow> otel_number list \<Rightarrow> otel_number list"
where
  "topn_otel_loop set_labels threshold point key l [] pts = pts"
| "topn_otel_loop set_labels threshold point key l (row # rows) pts =
     (if snd row \<ge> threshold then
        let l = set_labels key (fst row) l;
            l = omap_emplace key [] l
        in topn_otel_loop set_labels threshold point key l rows
             (if map_of l key \<noteq> Some [] then pts @ [point l (snd row)] else pts)
      else pts)"

text \<open>The gauge of a metric is made with its first point.\<close>

definition gauge_of :: "otel_number list \<Rightarrow> 'o otel_data" where
  "gauge_of pts = (if pts = [] then ONotSet else OGauge pts)"

definition topn_to_opentelemetry_labels ::
  "('q, u64) kll_ops \<Rightarrow> ('f, 't) fi_ops \<Rightarrow> (string \<Rightarrow> 't \<Rightarrow> label_map \<Rightarrow> label_map) \<Rightarrow> timespec \<Rightarrow> timespec
    \<Rightarrow> label_map \<Rightarrow> 'f topn \<Rightarrow> 'o scope_metrics \<Rightarrow> 'o scope_metrics"
where
  "topn_to_opentelemetry_labels kll fi formatter start end_ts add_labels t scope =
     (let items = fi_get_frequent_items fi (t_fi t) in
      if min (t_top_count t) (length items) = 0 then scope
      else
        scope @ [\<lparr>om_name = base_name_snake (t_metric t), om_desc = m_desc (t_metric t),
          om_data = gauge_of (topn_otel_loop formatter (topn_threshold kll t items) (otel_number_point start end_ts)
            (t_item_key t) add_labels (take (t_top_count t) items) [])\<rparr>])"

definition topn_to_opentelemetry ::
  "('q, u64) kll_ops \<Rightarrow> ('f, 't) fi_ops \<Rightarrow> ('t \<Rightarrow> string) \<Rightarrow> timespec \<Rightarrow> timespec
    \<Rightarrow> label_map \<Rightarrow> 'f topn \<Rightarrow> 'o scope_metrics \<Rightarrow> 'o scope_metrics"
where
  "topn_to_opentelemetry kll fi text start end_ts add_labels t scope =
     (let items = fi_get_frequent_items fi (t_fi t) in
      if min (t_top_count t) (length items) = 0 then scope
      else
        scope @ [\<lparr>om_name = base_name_snake (t_metric t), om_desc = m_desc (t_metric t),
          om_data = gauge_of (topn_otel_loop (\<lambda>key item l. omap_put key (text item) l) (topn_threshold kll t items)
            (otel_number_point start end_ts) (t_item_key t) add_labels (take (t_top_count t) items) [])\<rparr>])"

subsection \<open>Cardinality\<close>

record ('c, 't) cpc_ops =
  cpc_new :: 'c
  cpc_update :: "'t \<Rightarrow> 'c \<Rightarrow> 'c"
  cpc_union :: "'c list \<Rightarrow> 'c"
  cpc_estimate :: "'c \<Rightarrow> int"

record 'c cardinality =
  d_metric :: metric
  d_set :: 'c

definition cardinality_update :: "('c, 't) cpc_ops \<Rightarrow> 't \<Rightarrow> 'c cardinality \<Rightarrow> 'c cardinality" where
  "cardinality_update cpc v d = d\<lparr>d_set := cpc_update cpc v (d_set d)\<rparr>"

definition cardinality_merge :: "('c, 't) cpc_ops \<Rightarrow> 'c cardinality \<Rightarrow> 'c cardinality \<Rightarrow> 'c cardinality" where
  "cardinality_merge cpc other d = d\<lparr>d_set := cpc_union cpc [d_set d, d_set other]\<rparr>"

definition cardinality_to_prometheus ::
  "('c, 't) cpc_ops \<Rightarrow> (int \<Rightarrow> string) \<Rightarrow> label_map \<Rightarrow> label_map \<Rightarrow> 'c cardinality \<Rightarrow> serializer \<Rightarrow> serializer" where
  "cardinality_to_prometheus cpc text static add_labels d ser =
     write_series static (base_name_snake (d_metric d)) Gauge (m_desc (d_metric d)) [] add_labels
       (text (cpc_estimate cpc (d_set d))) ser"

definition cardinality_to_opentelemetry ::
  "('c, 't) cpc_ops \<Rightarrow> timespec \<Rightarrow> timespec \<Rightarrow> label_map \<Rightarrow> 'c cardinality \<Rightarrow> 'o scope_metrics \<Rightarrow> 'o scope_metrics" where
  "cardinality_to_opentelemetry cpc start end_ts add_labels d scope =
     scope @ [\<lparr>om_name = base_name_snake (d_metric d), om_desc = m_desc (d_metric d),
       om_data = OGauge [otel_number_point start end_ts add_labels (word_of_int (cpc_estimate cpc (d_set d)))]\<rparr>]"

subsection \<open>Rate\<close>

text \<open>The interval timer runs \<open>rate_tick\<close> once a second until it is cancelled.\<close>

record 'q rate =
  r_counter :: u64
  r_rate :: u64
  r_quantile :: "('q, int) quantile"
  r_timer :: bool

definition new_rate :: "('q, int) kll_ops \<Rightarrow> metric \<Rightarrow> 'q rate" where
  "new_rate kll m =
     \<lparr>r_counter = 0, r_rate = 0, r_quantile = \<lparr>q_metric = m, q_sketch = kll_new kll, q_sum = []\<rparr>, r_timer = True\<rparr>"

definition rate_inc :: "'q rate \<Rightarrow> 'q rate" where
  "rate_inc r = r\<lparr>r_counter := r_counter r + 1\<rparr>"

definition rate_add :: "u64 \<Rightarrow> 'q rate \<Rightarrow> 'q rate" where
  "rate_add i r = r\<lparr>r_counter := r_counter r + i\<rparr>"

text \<open>\<^verbatim>\<open>_quantile.update(_rate)\<close> narrows the rate to \<^verbatim>\<open>int_fast32_t\<close>, 64 bits on the supported platforms.\<close>

definition rate_tick :: "('q, int) kll_ops \<Rightarrow> 'q rate \<Rightarrow> 'q rate" where
  "rate_tick kll r =
     (if r_timer r then
        r\<lparr>r_rate := r_counter r, r_counter := 0,
          r_quantile := quantile_update kll (sint (r_counter r)) (r_quantile r)\<rparr>
      else r)"

definition rate_cancel :: "'q rate \<Rightarrow> 'q rate" where
  "rate_cancel r = r\<lparr>r_timer := False, r_rate := 0, r_counter := 0\<rparr>"

definition rate_merge :: "('q, int) kll_ops \<Rightarrow> aggregate \<Rightarrow> 'q rate \<Rightarrow> 'q rate \<Rightarrow> 'q rate" where
  "rate_merge kll agg other r =
     (let r = r\<lparr>r_quantile := quantile_merge kll agg (r_quantile other) (r_quantile r)\<rparr>
      in if r_rate other \<noteq> 0 then r\<lparr>r_rate := r_rate other\<rparr> else r)"

definition rate_to_prometheus ::
  "('q, int) kll_ops \<Rightarrow> (int \<Rightarrow> string) \<Rightarrow> label_map \<Rightarrow> label_map \<Rightarrow> 'q rate \<Rightarrow> serializer \<Rightarrow> serializer" where
  "rate_to_prometheus kll text static add_labels r =
     quantile_to_prometheus kll text static add_labels (r_quantile r)"

definition rate_to_opentelemetry ::
  "('q, int) kll_ops \<Rightarrow> timespec \<Rightarrow> timespec \<Rightarrow> label_map \<Rightarrow> 'q rate \<Rightarrow> int scope_metrics \<Rightarrow> int scope_metrics" where
  "rate_to_opentelemetry kll start end_ts add_labels r =
     quantile_to_opentelemetry kll start end_ts add_labels (r_quantile r)"

subsection \<open>Names\<close>

lemma label_regex_snake:
  assumes "label_regex a" "b = [] \<or> label_regex b"
  shows "label_regex (a @ ''_'' @ b)"
  using assms by (cases a; cases b) (auto simp: alpha_us_def)

lemma label_regex_fold_snake:
  assumes "list_all label_regex ns" "acc = [] \<or> label_regex acc" "ns \<noteq> [] \<or> acc \<noteq> []"
  shows "label_regex (fold snake ns acc)"
  using assms
proof (induction ns arbitrary: acc)
  case (Cons n ns)
  then have n: "label_regex (snake n acc)"
    using label_regex_snake [of acc n] by (cases "acc = []") (simp_all add: snake_def)
  then have "snake n acc \<noteq> []" by (cases "snake n acc") simp_all
  with n Cons.IH [of "snake n acc"] Cons.prems(1) show ?case by simp
qed simp

lemma check_name_list_ok: "check_name_list ns = None \<longleftrightarrow> list_all label_regex ns"
  by (induction ns) auto

lemma base_name_snake_ok:
  assumes "check_names m = None"
  shows "label_regex (base_name_snake m)"
proof -
  have "list_all label_regex (m_name m)" "label_regex (m_schema_key m)"
    using assms(1) by (auto simp: check_names_def check_name_list_ok [symmetric] split: option.splits if_splits)
  then show ?thesis
    unfolding base_name_snake_def
    using label_regex_snake label_regex_fold_snake [of "m_name m" "[]"] by (cases "m_name m = []") simp_all
qed

subsection \<open>Top rows\<close>

definition top_rows :: "('q, u64) kll_ops \<Rightarrow> ('f, 't) fi_ops \<Rightarrow> 'f topn \<Rightarrow> ('t \<times> u64) list" where
  "top_rows kll fi t =
     (let items = fi_get_frequent_items fi (t_fi t)
      in takeWhile (\<lambda>row. topn_threshold kll t items \<le> snd row) (take (t_top_count t) items))"

lemma omap_put_put [simp]: "omap_put k v (omap_put k v' m) = omap_put k v m"
  by (induction m) auto

lemma omap_emplace_put [simp]: "omap_emplace k w (omap_put k v m) = omap_put k v m"
  by (simp add: omap_emplace_def)

lemma topn_prometheus_loop_fold:
  "topn_prometheus_loop text th wr key (omap_put key v l) rows ser =
     fold (\<lambda>row. wr (omap_put key (text (fst row)) l) (snd row)) (takeWhile (\<lambda>row. th \<le> snd row) rows) ser"
  "topn_prometheus_loop text th wr key l rows ser =
     fold (\<lambda>row. wr (omap_put key (text (fst row)) l) (snd row)) (takeWhile (\<lambda>row. th \<le> snd row) rows) ser"
proof -
  show put: "topn_prometheus_loop text th wr key (omap_put key v l) rows ser =
     fold (\<lambda>row. wr (omap_put key (text (fst row)) l) (snd row)) (takeWhile (\<lambda>row. th \<le> snd row) rows) ser"
    for v rows ser
    by (induction rows arbitrary: v ser) auto
  show "topn_prometheus_loop text th wr key l rows ser =
     fold (\<lambda>row. wr (omap_put key (text (fst row)) l) (snd row)) (takeWhile (\<lambda>row. th \<le> snd row) rows) ser"
    using put by (cases rows) auto
qed

lemma topn_prometheus_labels_loop_fold:
  "topn_prometheus_labels_loop f th wr key l rows ser =
     fold (\<lambda>row. wr (f key (fst row) l) (snd row)) (takeWhile (\<lambda>row. th \<le> snd row) rows) ser"
  by (induction rows arbitrary: ser) auto

lemma topn_otel_loop_map:
  fixes sh :: "'t \<Rightarrow> string"
  defines "f \<equiv> \<lambda>key item l. omap_put key (sh item) l"
  shows "topn_otel_loop f th point key (omap_put key v l) rows pts =
      pts @ map (\<lambda>row. point (omap_put key (sh (fst row)) l) (snd row))
        (filter (\<lambda>row. sh (fst row) \<noteq> []) (takeWhile (\<lambda>row. th \<le> snd row) rows))"
    "topn_otel_loop f th point key l rows pts =
      pts @ map (\<lambda>row. point (omap_put key (sh (fst row)) l) (snd row))
        (filter (\<lambda>row. sh (fst row) \<noteq> []) (takeWhile (\<lambda>row. th \<le> snd row) rows))"
proof -
  show put: "topn_otel_loop f th point key (omap_put key v l) rows pts =
      pts @ map (\<lambda>row. point (omap_put key (sh (fst row)) l) (snd row))
        (filter (\<lambda>row. sh (fst row) \<noteq> []) (takeWhile (\<lambda>row. th \<le> snd row) rows))" for v rows pts
    by (induction rows arbitrary: v pts) (auto simp: f_def Let_def)
  show "topn_otel_loop f th point key l rows pts =
      pts @ map (\<lambda>row. point (omap_put key (sh (fst row)) l) (snd row))
        (filter (\<lambda>row. sh (fst row) \<noteq> []) (takeWhile (\<lambda>row. th \<le> snd row) rows))"
    using put by (cases rows) (auto simp: f_def Let_def)
qed

text \<open>The formatter the network handlers give for places (\<^verbatim>\<open>src/src/handlers/net/v1/NetStreamHandler.cpp\<close>).\<close>

record city =
  location :: string
  latitude :: string
  longitude :: string

definition geo_labels :: "string \<Rightarrow> city \<Rightarrow> label_map \<Rightarrow> label_map" where
  "geo_labels key val l =
     (let l = omap_put key (location val) l in
      if latitude val \<noteq> [] \<and> longitude val \<noteq> []
      then omap_put ''lon'' (longitude val) (omap_put ''lat'' (latitude val) l) else l)"

subsection \<open>Sums of quantiles\<close>

definition nonempty_quantiles :: "('q, 't) kll_ops \<Rightarrow> ('q, 't) quantile list \<Rightarrow> 't list list" where
  "nonempty_quantiles kll qs =
     map (\<lambda>q. get_quantiles kll (q_sketch q)) (filter (\<lambda>q. \<not> kll_is_empty kll (q_sketch q)) qs)"

text \<open>Once a sketch is not empty, every further non-empty operand is added to the reported values.\<close>

lemma quantile_merge_sums:
  assumes "\<not> kll_is_empty kll (q_sketch q)"
  shows "reported_quantiles kll (fold (quantile_merge kll Agg_SUM) qs q) =
      fold (\<lambda>s acc. map2 (+) acc s) (nonempty_quantiles kll qs) (reported_quantiles kll q)
    \<and> q_sketch (fold (quantile_merge kll Agg_SUM) qs q) = q_sketch q"
  using assms
proof (induction qs arbitrary: q)
  case Nil
  show ?case by (simp add: nonempty_quantiles_def)
next
  case (Cons p qs)
  let ?q = "quantile_merge kll Agg_SUM p q"
  have len: "get_quantiles kll s \<noteq> []" for s
    by (simp add: get_quantiles_def QUANTILES_def)
  have sk: "q_sketch ?q = q_sketch q" using Cons.prems by (simp add: quantile_merge_def Let_def)
  have rep: "reported_quantiles kll ?q = (if kll_is_empty kll (q_sketch p) then reported_quantiles kll q
      else map2 (+) (reported_quantiles kll q) (get_quantiles kll (q_sketch p)))"
    using Cons.prems len by (auto simp: quantile_merge_def reported_quantiles_def Let_def zip_eq_Nil_iff)
  show ?case
    using Cons.IH [of ?q] Cons.prems sk rep by (simp add: nonempty_quantiles_def)
qed

lemma nonempty_quantiles_Cons:
  "nonempty_quantiles kll (q # qs) =
     (if kll_is_empty kll (q_sketch q) then nonempty_quantiles kll qs
      else get_quantiles kll (q_sketch q) # nonempty_quantiles kll qs)"
  by (simp add: nonempty_quantiles_def)

lemma quantile_merge_from_empty:
  assumes emp: "\<And>a b. kll_is_empty kll (kll_merge kll a b) \<longleftrightarrow> kll_is_empty kll a \<and> kll_is_empty kll b"
    and unit: "\<And>a b r. kll_is_empty kll a \<Longrightarrow> kll_get_quantile kll (kll_merge kll a b) r = kll_get_quantile kll b r"
    and q: "kll_is_empty kll (q_sketch q)" "q_sum q = []"
  shows "case nonempty_quantiles kll qs of
      [] \<Rightarrow> kll_is_empty kll (q_sketch (fold (quantile_merge kll Agg_SUM) qs q))
    | s # ss \<Rightarrow> reported_quantiles kll (fold (quantile_merge kll Agg_SUM) qs q) = fold (\<lambda>s acc. map2 (+) acc s) ss s"
  using q
proof (induction qs arbitrary: q)
  case Nil
  then show ?case by (simp add: nonempty_quantiles_def)
next
  case (Cons p qs)
  let ?q = "quantile_merge kll Agg_SUM p q"
  have m: "?q = q\<lparr>q_sketch := kll_merge kll (q_sketch q) (q_sketch p)\<rparr>"
    using Cons.prems by (simp add: quantile_merge_def)
  show ?case
  proof (cases "kll_is_empty kll (q_sketch p)")
    case True
    then have "kll_is_empty kll (q_sketch ?q)" "q_sum ?q = []" using Cons.prems emp m by simp_all
    from Cons.IH [OF this] show ?thesis
      by (simp only: nonempty_quantiles_Cons True if_True fold_simps)
  next
    case False
    then have ne: "\<not> kll_is_empty kll (q_sketch ?q)" using emp m by simp
    have "reported_quantiles kll ?q = get_quantiles kll (q_sketch p)"
      using m Cons.prems unit by (simp add: reported_quantiles_def get_quantiles_def)
    with quantile_merge_sums [OF ne, of qs] False show ?thesis by (simp add: nonempty_quantiles_Cons)
  qed
qed

subsection \<open>Properties\<close>

text \<open>
  The constructor accepts a metric exactly if its names and its schema all match the label pattern
  \<^verbatim>\<open>[a-zA-Z_][a-zA-Z0-9_]*\<close>, and the rendered name of a metric that it accepts matches the pattern, too.
\<close>

theorem new_metric_names:
  "(\<forall>m. new_metric schema names desc = Inr m \<longrightarrow> label_regex (base_name_snake m))
   \<and> ((\<exists>m. new_metric schema names desc = Inr m) \<longleftrightarrow> list_all label_regex names \<and> label_regex schema)"
proof -
  let ?m = "\<lparr>m_name = names, m_desc = desc, m_schema_key = schema\<rparr>"
  have new: "new_metric schema names desc = (case check_names ?m of Some e \<Rightarrow> Inl e | None \<Rightarrow> Inr ?m)"
    by (simp add: new_metric_def Let_def)
  have "check_names ?m = None \<longleftrightarrow> list_all label_regex names \<and> label_regex schema"
    by (simp add: check_names_def check_name_list_ok [symmetric] split: option.split)
  then show ?thesis
    using base_name_snake_ok [of ?m] unfolding new by (auto split: option.splits)
qed

theorem new_metric_names_witness:
  "new_metric ''dns'' [''wire'', ''total''] ''d'' = Inr \<lparr>m_name = [''wire'', ''total''], m_desc = ''d'', m_schema_key = ''dns''\<rparr>
   \<and> base_name_snake \<lparr>m_name = [''wire'', ''total''], m_desc = ''d'', m_schema_key = ''dns''\<rparr> = ''dns_wire_total''
   \<and> label_regex ''dns_wire_total''"
proof -
  let ?m = "\<lparr>m_name = [''wire'', ''total''], m_desc = ''d'', m_schema_key = ''dns''\<rparr>"
  have n: "new_metric ''dns'' [''wire'', ''total''] ''d'' = Inr ?m"
    by (simp add: new_metric_def check_names_def alpha_us_def is_digit_def)
  have "label_regex (base_name_snake ?m)"
    using new_metric_names [of "''dns''" "[''wire'', ''total'']" "''d''"] n by blast
  moreover have "base_name_snake ?m = ''dns_wire_total''" by (simp add: base_name_snake_def snake_def)
  ultimately show ?thesis using n by simp
qed

text \<open>
  C33: The two outputs of a top-N table rendered as text, without a formatter of labels, list the same
  rows: from the first one on while the estimate reaches the threshold, at most the configured number, each labelled
  with the text of its item on top of the labels of the call. They differ in rows whose text is empty, which
  Prometheus writes and OTLP leaves out; an OTLP table with no row left is a metric without data.
  Neither writes anything for a table without items or with a configured number of zero.
\<close>

theorem topn_outputs_agree:
  "topn_to_prometheus kll fi shw static add_labels t ser =
      fold (\<lambda>row. topn_write static t (omap_put (t_item_key t) (shw (fst row)) add_labels) (snd row))
        (top_rows kll fi t) ser
   \<and> length (top_rows kll fi t) \<le> t_top_count t
   \<and> topn_to_opentelemetry kll fi shw start end_ts add_labels t scope =
      scope @ (if t_top_count t = 0 \<or> fi_get_frequent_items fi (t_fi t) = [] then []
        else [\<lparr>om_name = base_name_snake (t_metric t), om_desc = m_desc (t_metric t),
          om_data = gauge_of
            (map (\<lambda>row. otel_number_point start end_ts (omap_put (t_item_key t) (shw (fst row)) add_labels) (snd row))
              (filter (\<lambda>row. shw (fst row) \<noteq> []) (top_rows kll fi t)))\<rparr>])"
proof -
  have "length (top_rows kll fi t) \<le> length (take (t_top_count t) (fi_get_frequent_items fi (t_fi t)))"
    unfolding top_rows_def Let_def by (rule length_takeWhile_le)
  then have "length (top_rows kll fi t) \<le> t_top_count t" by simp
  then show ?thesis
    unfolding topn_to_prometheus_def topn_to_opentelemetry_def topn_prometheus_loop_fold(2) topn_otel_loop_map(2)
    by (auto simp: top_rows_def Let_def min_def)
qed

text \<open>
  The two outputs of a table with a formatter that sets several labels do not agree: the
  Prometheus loop starts each row from the labels of the call, the OTLP loop from the labels the
  row before left. A place without coordinates that follows one with coordinates is exported by
  OTLP with the coordinates of the other.
\<close>

theorem topn_otel_labels_leak:
  "\<exists>key add_labels point row1 row2.
     topn_otel_loop geo_labels 0 point key add_labels [row1, row2] [] =
       [point (geo_labels key (fst row1) add_labels) (snd row1),
        point (geo_labels key (fst row2) (geo_labels key (fst row1) add_labels)) (snd row2)]
     \<and> map_of (geo_labels key (fst row2) (geo_labels key (fst row1) add_labels)) ''lat'' = Some ''1.0''
     \<and> map_of (geo_labels key (fst row2) add_labels) ''lat'' = None"
  by (intro exI [of _ "''geo_loc''"] exI [of _ "[]"]
      exI [of _ "\<lambda>l v. otel_number_point (ts 0 0) (ts 60 0) l v"]
      exI [of _ "(\<lparr>location = ''a'', latitude = ''1.0'', longitude = ''2.0''\<rparr>, 5 :: u64)"]
      exI [of _ "(\<lparr>location = ''b'', latitude = [], longitude = []\<rparr>, 3 :: u64)"])
    (simp add: geo_labels_def omap_emplace_def Let_def less_char_def)

text \<open>
  Merging quantile metrics with the SUM operator, from an empty one on, reports for each rank
  the sum of the values of that rank over the operands that saw any data, in every order of the
  empty and non-empty ones; with none that saw data the result is empty and nothing is reported.
  The hypotheses are the documented laws of a sketch merge: the result is empty if both are, and
  merging into an empty sketch gives the other.
\<close>

theorem quantile_merge_sum:
  assumes "\<And>a b. kll_is_empty kll (kll_merge kll a b) \<longleftrightarrow> kll_is_empty kll a \<and> kll_is_empty kll b"
    and "\<And>a b r. kll_is_empty kll a \<Longrightarrow> kll_get_quantile kll (kll_merge kll a b) r = kll_get_quantile kll b r"
    and "kll_is_empty kll (q_sketch q)" "q_sum q = []"
  shows "case nonempty_quantiles kll qs of
      [] \<Rightarrow> kll_is_empty kll (q_sketch (fold (quantile_merge kll Agg_SUM) qs q))
    | s # ss \<Rightarrow> reported_quantiles kll (fold (quantile_merge kll Agg_SUM) qs q) = fold (\<lambda>s acc. map2 (+) acc s) ss s"
  using quantile_merge_from_empty [OF assms] .

text \<open>A sketch that keeps all its items, for the witness.\<close>

definition list_kll :: "(int list, int) kll_ops" where
  "list_kll =
     (let cdf = (\<lambda>q bs. map (\<lambda>b. real (length (filter (\<lambda>x. x \<le> b) q)) / real (length q)) bs @ [1])
      in \<lparr>kll_new = [], kll_update = (\<lambda>v q. q @ [v]), kll_merge = (\<lambda>a b. a @ b), kll_is_empty = (\<lambda>q. q = []),
          kll_get_n = (\<lambda>q. of_nat (length q)), kll_get_quantile = (\<lambda>q r. if q = [] then 0 else last (sort q)),
          kll_get_max_item = (\<lambda>q. last (sort q)),
          kll_get_PMF = (\<lambda>q bs. map2 (-) (cdf q bs) (0 # cdf q bs)), kll_get_CDF = cdf\<rparr>)"

definition some_metric :: metric where
  "some_metric = \<lparr>m_name = [''size''], m_desc = ''Size'', m_schema_key = ''net''\<rparr>"

theorem quantile_merge_sum_witness:
  "reported_quantiles list_kll
     (fold (quantile_merge list_kll Agg_SUM)
       [\<lparr>q_metric = some_metric, q_sketch = [5], q_sum = []\<rparr>, \<lparr>q_metric = some_metric, q_sketch = [], q_sum = []\<rparr>,
        \<lparr>q_metric = some_metric, q_sketch = [7], q_sum = []\<rparr>]
       \<lparr>q_metric = some_metric, q_sketch = [], q_sum = []\<rparr>) = [12, 12, 12, 12]"
  using quantile_merge_sum [of list_kll "\<lparr>q_metric = some_metric, q_sketch = [], q_sum = []\<rparr>"
    "[\<lparr>q_metric = some_metric, q_sketch = [5], q_sum = []\<rparr>, \<lparr>q_metric = some_metric, q_sketch = [], q_sum = []\<rparr>,
        \<lparr>q_metric = some_metric, q_sketch = [7], q_sum = []\<rparr>]"]
  by (simp add: list_kll_def Let_def nonempty_quantiles_def get_quantiles_def QUANTILES_def)

text \<open>
  The OTLP form of a histogram reports a bucket count of zero for every bucket whose
  cumulative share is below one, however many items the bucket holds: the share is cut to an
  integer before it is multiplied by the number of items.
\<close>

theorem histogram_otel_counts:
  assumes "\<not> kll_is_empty kll (h_sketch h)"
  shows "\<exists>p. histogram_to_opentelemetry kll boundaries start end_ts labels h scope =
      scope @ [\<lparr>om_name = base_name_snake (h_metric h), om_desc = m_desc (h_metric h), om_data = OHistogram [p]\<rparr>]
    \<and> op_bounds p = histogram_bins kll boundaries (h_sketch h)
    \<and> op_count p = kll_get_n kll (h_sketch h)
    \<and> (\<forall>i < length (op_counts p).
         0 \<le> kll_get_CDF kll (h_sketch h) (op_bounds p) ! i
         \<and> kll_get_CDF kll (h_sketch h) (op_bounds p) ! i < 1 \<longrightarrow> op_counts p ! i = 0)"
proof -
  have "to_uint64 c = 0" if "0 \<le> c" "c < 1" for c :: real
    using that floor_eq_iff [of c 0] by (simp add: to_uint64_def)
  then show ?thesis
    using assms by (simp add: histogram_to_opentelemetry_def Let_def)
qed

theorem histogram_otel_counts_witness:
  "\<exists>p. histogram_to_opentelemetry list_kll [1, 9] (ts 0 0) (ts 60 0) [] \<lparr>h_metric = some_metric, h_sketch = [1, 5]\<rparr> [] =
      [\<lparr>om_name = base_name_snake some_metric, om_desc = m_desc some_metric, om_data = OHistogram [p]\<rparr>]
    \<and> op_bounds p = [1, 9] \<and> op_count p = 2 \<and> length (op_counts p) = 2 \<and> op_counts p ! 0 = 0"
  using histogram_otel_counts [of list_kll "\<lparr>h_metric = some_metric, h_sketch = [1, 5]\<rparr>" "[1, 9]" "ts 0 0" "ts 60 0" "[]" "[]"]
  by (simp add: list_kll_def Let_def histogram_bins_def histogram_to_opentelemetry_def)
    (drule spec [of _ 0], simp)

end
