(* ===== verification/Window.thy ===== *)
theory Window
  imports Metrics
begin

text \<open>
  The metrics window (\<^verbatim>\<open>src/src/AbstractMetricsManager.h\<close>): the base part of a bucket, the deque of
  buckets with its period shift, sampling, the export of closed windows and the merges.

  The window is a template over the bucket class of a handler. That class is the record
  \<open>bucket_class\<close>, an argument of the definitions: the specialised state \<open>'s\<close> of a bucket, the name of
  its event rate, its merge under the enabled groups, which a merge takes over from the other bucket,
  what it does when it becomes read only, and its output. The clock is an argument where the code
  reads it. Locks are left out: each operation is one step on the state it locks.
\<close>

subsection \<open>Buckets\<close>

record ('q, 's) bucket =
  b_num_samples :: u64
  b_num_events :: u64
  b_rate :: "'q rate"
  b_start :: timespec
  b_end :: timespec
  b_period_length :: u32
  b_read_only :: bool
  b_recorded :: bool
  b_groups :: "u64 option"
  b_spec :: 's

record ('q, 's, 'o, 'j) bucket_class =
  bc_kll :: "('q, int) kll_ops"
  bc_event_rate_info :: metric
  bc_new :: 's
  bc_specialized_merge :: "aggregate \<Rightarrow> u64 option \<Rightarrow> 's \<Rightarrow> 's \<Rightarrow> 's"
  bc_on_set_read_only :: "'s \<Rightarrow> 's"
  bc_update_topn_metrics :: "nat \<Rightarrow> u64 \<Rightarrow> 's \<Rightarrow> 's"
  bc_to_json :: "string \<Rightarrow> int \<Rightarrow> u32 \<Rightarrow> ('q, 's) bucket \<Rightarrow> 'j \<Rightarrow> 'j"
  bc_to_prometheus :: "label_map \<Rightarrow> ('q, 's) bucket \<Rightarrow> serializer \<Rightarrow> serializer"
  bc_to_opentelemetry :: "timespec \<Rightarrow> timespec \<Rightarrow> label_map \<Rightarrow> ('q, 's) bucket \<Rightarrow> 'o \<Rightarrow> 'o"

definition event_rate_metric :: metric where
  "event_rate_metric = \<lparr>m_name = [''event_rate''], m_desc = ''Rate of events'', m_schema_key = ''base''\<rparr>"

definition new_bucket :: "('q, 's, 'o, 'j) bucket_class \<Rightarrow> timespec \<Rightarrow> ('q, 's) bucket" where
  "new_bucket cls now =
     \<lparr>b_num_samples = 0, b_num_events = 0, b_rate = new_rate (bc_kll cls) (bc_event_rate_info cls), b_start = now,
      b_end = ts 0 0, b_period_length = 0, b_read_only = False, b_recorded = False, b_groups = None,
      b_spec = bc_new cls\<rparr>"

definition period_length :: "timespec \<Rightarrow> ('q, 's) bucket \<Rightarrow> u32" where
  "period_length now b =
     (if b_read_only b \<or> b_recorded b then b_period_length b
      else word_of_int (tv_sec now - tv_sec (b_start b)))"

definition set_read_only ::
  "('q, 's, 'o, 'j) bucket_class \<Rightarrow> timespec \<Rightarrow> ('q, 's) bucket \<Rightarrow> ('q, 's) bucket" where
  "set_read_only cls stamp b =
     b\<lparr>b_end := stamp, b_period_length := word_of_int (tv_sec stamp - tv_sec (b_start b)), b_read_only := True,
       b_rate := rate_cancel (b_rate b), b_spec := bc_on_set_read_only cls (b_spec b)\<rparr>"

text \<open>The merge keeps the nanoseconds of its own time stamps and compares seconds only.\<close>

definition bucket_merge ::
  "('q, 's, 'o, 'j) bucket_class \<Rightarrow> timespec \<Rightarrow> aggregate \<Rightarrow> ('q, 's) bucket \<Rightarrow> ('q, 's) bucket \<Rightarrow> ('q, 's) bucket"
where
  "bucket_merge cls now agg other b =
     b\<lparr>b_num_events := b_num_events b + b_num_events other,
       b_num_samples := b_num_samples b + b_num_samples other,
       b_period_length := b_period_length b + period_length now other,
       b_start := (if tv_sec (b_start other) < tv_sec (b_start b)
                   then (b_start b)\<lparr>tv_sec := tv_sec (b_start other)\<rparr> else b_start b),
       b_end := (if tv_sec (b_end other) > tv_sec (b_end b)
                 then (b_end b)\<lparr>tv_sec := tv_sec (b_end other)\<rparr> else b_end b),
       b_rate := rate_merge (bc_kll cls) agg (b_rate other) (b_rate b),
       b_groups := b_groups other,
       b_spec := bc_specialized_merge cls agg (b_groups other) (b_spec other) (b_spec b)\<rparr>"

definition bucket_new_event :: "bool \<Rightarrow> ('q, 's) bucket \<Rightarrow> ('q, 's) bucket" where
  "bucket_new_event deep b =
     b\<lparr>b_rate := rate_inc (b_rate b), b_num_events := b_num_events b + 1,
       b_num_samples := (if deep then b_num_samples b + 1 else b_num_samples b)\<rparr>"

subsection \<open>Sampling\<close>

text \<open>\<open>splitmix64\<close> returns the next value and the next state.\<close>

definition splitmix64 :: "u64 \<Rightarrow> u64 \<times> u64" where
  "splitmix64 state =
     (let state = state + 0x9e3779b97f4a7c15;
          z = state;
          z = (xor z (drop_bit 30 z)) * 0xbf58476d1ce4e5b9;
          z = (xor z (drop_bit 27 z)) * 0x94d049bb133111eb
      in (xor z (drop_bit 31 z), state))"

subsection \<open>The manager\<close>

record ('q, 's, 'j) manager =
  mm_buckets :: "('q, 's) bucket list"
  mm_tap_name :: string
  mm_num_periods :: nat
  mm_rng :: u64
  mm_deep_sample_rate :: nat
  mm_topn_count :: nat
  mm_topn_percentile_threshold :: u64
  mm_deep_sampling_now :: bool
  mm_recorded_stream :: bool
  mm_groups :: "u64 option"
  mm_last_shift :: timespec
  mm_next_shift :: timespec
  mm_mergeResultCache :: "(u64 \<times> int \<times> 'j) list"

definition PERIOD_SEC :: int where
  "PERIOD_SEC = 60"

record window_config =
  cfg_deep_sample_rate :: "u64 option"
  cfg_tap_name :: "string option"
  cfg_num_periods :: "u64 option"
  cfg_topn_count :: "u64 option"
  cfg_topn_percentile_threshold :: "u64 option"

text \<open>A 64 bit setting is stored in 32 bits before it is bounded.\<close>

definition clamp_deep_sample_rate :: "u64 option \<Rightarrow> nat" where
  "clamp_deep_sample_rate cfg =
     (let r = (case cfg of Some v \<Rightarrow> unat (ucast v :: u32) | None \<Rightarrow> 100);
          r = (if r > 100 then 100 else r)
      in if r < 1 then 1 else r)"

definition clamp_num_periods :: "u64 option \<Rightarrow> nat" where
  "clamp_num_periods cfg =
     (let n = (case cfg of Some v \<Rightarrow> unat (ucast v :: u32) | None \<Rightarrow> 5)
      in max (min n 10) 1)"

text \<open>\<open>now\<close> is the clock the constructor reads, \<open>now'\<close> the one its first bucket reads.\<close>

definition new_manager ::
  "('q, 's, 'o, 'j) bucket_class \<Rightarrow> window_config \<Rightarrow> timespec \<Rightarrow> timespec \<Rightarrow> ('q, 's, 'j) manager" where
  "new_manager cls cfg now now' =
     (let topn = (case cfg_topn_count cfg of Some v \<Rightarrow> unat v | None \<Rightarrow> 10);
          thr = (case cfg_topn_percentile_threshold cfg of Some v \<Rightarrow> v | None \<Rightarrow> 0);
          b = new_bucket cls now';
          b = b\<lparr>b_spec := bc_update_topn_metrics cls topn thr (b_spec b)\<rparr>
      in \<lparr>mm_buckets = [b], mm_tap_name = (case cfg_tap_name cfg of Some s \<Rightarrow> s | None \<Rightarrow> []),
          mm_num_periods = clamp_num_periods (cfg_num_periods cfg), mm_rng = 0x9e3779b97f4a7c15,
          mm_deep_sample_rate = clamp_deep_sample_rate (cfg_deep_sample_rate cfg),
          mm_topn_count = topn, mm_topn_percentile_threshold = thr, mm_deep_sampling_now = True,
          mm_recorded_stream = False, mm_groups = None, mm_last_shift = now,
          mm_next_shift = now\<lparr>tv_sec := tv_sec now + PERIOD_SEC\<rparr>, mm_mergeResultCache = []\<rparr>)"

text \<open>
  The deque is never empty. The second component is the bucket that leaves the window, which the
  code hands to \<^verbatim>\<open>on_period_shift\<close> and then destroys.
\<close>

definition period_shift ::
  "('q, 's, 'o, 'j) bucket_class \<Rightarrow> timespec \<Rightarrow> timespec \<Rightarrow> ('q, 's, 'j) manager
     \<Rightarrow> ('q, 's, 'j) manager \<times> ('q, 's) bucket option"
where
  "period_shift cls now stamp m =
     (let b = new_bucket cls now;
          b = b\<lparr>b_groups := mm_groups m\<rparr>;
          b = b\<lparr>b_start := stamp\<rparr>;
          b = b\<lparr>b_spec := bc_update_topn_metrics cls (mm_topn_count m) (mm_topn_percentile_threshold m) (b_spec b)\<rparr>;
          b = (if mm_recorded_stream m then b\<lparr>b_recorded := True\<rparr> else b);
          buckets = b # set_read_only cls stamp (hd (mm_buckets m)) # tl (mm_buckets m);
          (buckets, expiring) =
            (if length buckets > mm_num_periods m then (butlast buckets, Some (last buckets)) else (buckets, None))
      in (m\<lparr>mm_buckets := buckets, mm_last_shift := (mm_last_shift m)\<lparr>tv_sec := tv_sec stamp\<rparr>,
            mm_next_shift := (mm_next_shift m)\<lparr>tv_sec := tv_sec stamp + PERIOD_SEC\<rparr>\<rparr>, expiring))"

definition will_shift :: "timespec \<Rightarrow> ('q, 's, 'j) manager \<Rightarrow> bool" where
  "will_shift stamp m \<longleftrightarrow> mm_num_periods m > 1 \<and> tv_sec stamp \<ge> tv_sec (mm_next_shift m)"

definition check_period_shift ::
  "('q, 's, 'o, 'j) bucket_class \<Rightarrow> timespec \<Rightarrow> timespec \<Rightarrow> ('q, 's, 'j) manager
     \<Rightarrow> ('q, 's, 'j) manager \<times> ('q, 's) bucket option"
where
  "check_period_shift cls now stamp m = (if will_shift stamp m then period_shift cls now stamp m else (m, None))"

definition upd_front :: "(('q, 's) bucket \<Rightarrow> ('q, 's) bucket) \<Rightarrow> ('q, 's, 'j) manager \<Rightarrow> ('q, 's, 'j) manager" where
  "upd_front f m = m\<lparr>mm_buckets := f (hd (mm_buckets m)) # tl (mm_buckets m)\<rparr>"

definition new_event ::
  "('q, 's, 'o, 'j) bucket_class \<Rightarrow> timespec \<Rightarrow> timespec \<Rightarrow> bool \<Rightarrow> ('q, 's, 'j) manager
     \<Rightarrow> ('q, 's, 'j) manager \<times> ('q, 's) bucket option"
where
  "new_event cls now stamp sample m =
     (let m = (if sample \<and> mm_deep_sample_rate m \<noteq> 100 then
                 let (z, state) = splitmix64 (mm_rng m)
                 in m\<lparr>mm_rng := state, mm_deep_sampling_now := unat (z mod 100) < mm_deep_sample_rate m\<rparr>
               else m);
          (m, expiring) = (if will_shift stamp m then period_shift cls now stamp m else (m, None))
      in (upd_front (bucket_new_event (mm_deep_sampling_now m)) m, expiring))"

definition set_start_tstamp :: "timespec \<Rightarrow> ('q, 's, 'j) manager \<Rightarrow> ('q, 's, 'j) manager" where
  "set_start_tstamp stamp m =
     upd_front (\<lambda>b. b\<lparr>b_start := stamp\<rparr>)
       (m\<lparr>mm_last_shift := stamp, mm_next_shift := (mm_next_shift m)\<lparr>tv_sec := tv_sec stamp + PERIOD_SEC\<rparr>\<rparr>)"

definition set_end_tstamp ::
  "('q, 's, 'o, 'j) bucket_class \<Rightarrow> timespec \<Rightarrow> ('q, 's, 'j) manager \<Rightarrow> ('q, 's, 'j) manager" where
  "set_end_tstamp cls stamp m = upd_front (set_read_only cls stamp) m"

definition set_recorded_stream :: "('q, 's, 'j) manager \<Rightarrow> ('q, 's, 'j) manager" where
  "set_recorded_stream m = upd_front (\<lambda>b. b\<lparr>b_recorded := True\<rparr>) (m\<lparr>mm_recorded_stream := True\<rparr>)"

definition configure_groups :: "u64 option \<Rightarrow> ('q, 's, 'j) manager \<Rightarrow> ('q, 's, 'j) manager" where
  "configure_groups groups m = upd_front (\<lambda>b. b\<lparr>b_groups := groups\<rparr>) (m\<lparr>mm_groups := groups\<rparr>)"

subsection \<open>Output of single windows\<close>

datatype period_error = Invalid_Period nat nat | Not_Accumulated nat | Not_Held

definition check_single_period :: "('q, 's, 'j) manager \<Rightarrow> u64 \<Rightarrow> period_error option" where
  "check_single_period m period =
     (if unat period \<ge> mm_num_periods m then Some (Invalid_Period 0 (mm_num_periods m - 1))
      else if unat period \<ge> length (mm_buckets m) then Some (Not_Accumulated (length (mm_buckets m) - 1))
      else None)"

definition groups_none :: "('q, 's, 'j) manager \<Rightarrow> bool" where
  "groups_none m \<longleftrightarrow> mm_groups m = Some 0"

definition with_tap :: "('q, 's, 'j) manager \<Rightarrow> label_map \<Rightarrow> label_map" where
  "with_tap m labels =
     (if mm_tap_name m \<noteq> [] \<and> map_of labels ''tap'' = None then omap_put ''tap'' (mm_tap_name m) labels else labels)"

definition bucket_json ::
  "('q, 's, 'o, 'j) bucket_class \<Rightarrow> timespec \<Rightarrow> string \<Rightarrow> ('q, 's) bucket \<Rightarrow> 'j \<Rightarrow> 'j" where
  "bucket_json cls now key b j = bc_to_json cls key (tv_sec (b_start b)) (period_length now b) b j"

definition window_single_json ::
  "('q, 's, 'o, 'j) bucket_class \<Rightarrow> timespec \<Rightarrow> string \<Rightarrow> u64 \<Rightarrow> ('q, 's, 'j) manager \<Rightarrow> 'j \<Rightarrow> period_error + 'j" where
  "window_single_json cls now key period m j =
     (case check_single_period m period of
        Some e \<Rightarrow> Inl e
      | None \<Rightarrow>
          if groups_none m then Inr j
          else Inr (bucket_json cls now key (mm_buckets m ! unat period) j))"

definition window_single_prometheus ::
  "('q, 's, 'o, 'j) bucket_class \<Rightarrow> u64 \<Rightarrow> label_map \<Rightarrow> ('q, 's, 'j) manager \<Rightarrow> serializer \<Rightarrow> period_error + serializer" where
  "window_single_prometheus cls period add_labels m ser =
     (case check_single_period m period of
        Some e \<Rightarrow> Inl e
      | None \<Rightarrow>
          if groups_none m then Inr ser
          else Inr (bc_to_prometheus cls (with_tap m add_labels) (mm_buckets m ! unat period) ser))"

text \<open>An end time of zero, that of a live bucket, is replaced by the clock.\<close>

definition bucket_opentelemetry ::
  "('q, 's, 'o, 'j) bucket_class \<Rightarrow> timespec \<Rightarrow> label_map \<Rightarrow> ('q, 's, 'j) manager \<Rightarrow> ('q, 's) bucket \<Rightarrow> 'o \<Rightarrow> 'o" where
  "bucket_opentelemetry cls now add_labels m b scope =
     (if groups_none m then scope
      else
        let end_ts = (if tv_sec (b_end b) = 0 then now else b_end b)
        in bc_to_opentelemetry cls (b_start b) end_ts (with_tap m add_labels) b scope)"

definition window_single_opentelemetry ::
  "('q, 's, 'o, 'j) bucket_class \<Rightarrow> timespec \<Rightarrow> u64 \<Rightarrow> label_map \<Rightarrow> ('q, 's, 'j) manager \<Rightarrow> 'o \<Rightarrow> period_error + 'o" where
  "window_single_opentelemetry cls now period add_labels m scope =
     (case check_single_period m period of
        Some e \<Rightarrow> Inl e
      | None \<Rightarrow> Inr (bucket_opentelemetry cls now add_labels m (mm_buckets m ! unat period) scope))"

definition window_external_opentelemetry ::
  "('q, 's, 'o, 'j) bucket_class \<Rightarrow> timespec \<Rightarrow> label_map \<Rightarrow> ('q, 's, 'j) manager \<Rightarrow> ('q, 's) bucket \<Rightarrow> 'o \<Rightarrow> 'o" where
  "window_external_opentelemetry cls now add_labels m b scope =
     (if groups_none m then scope
      else
        let end_ts = (if tv_sec (b_end b) = 0 then now else b_end b)
        in bc_to_opentelemetry cls (b_start b) end_ts add_labels b scope)"

definition window_external_prometheus ::
  "('q, 's, 'o, 'j) bucket_class \<Rightarrow> label_map \<Rightarrow> ('q, 's, 'j) manager \<Rightarrow> ('q, 's) bucket \<Rightarrow> serializer \<Rightarrow> serializer" where
  "window_external_prometheus cls add_labels m b ser =
     (if groups_none m then ser else bc_to_prometheus cls add_labels b ser)"

definition window_external_json ::
  "('q, 's, 'o, 'j) bucket_class \<Rightarrow> timespec \<Rightarrow> string \<Rightarrow> ('q, 's, 'j) manager \<Rightarrow> ('q, 's) bucket \<Rightarrow> 'j \<Rightarrow> 'j" where
  "window_external_json cls now key m b j = (if groups_none m then j else bucket_json cls now key b j)"

subsection \<open>Closed windows\<close>

definition starts_after :: "timespec \<Rightarrow> timespec option \<Rightarrow> bool" where
  "starts_after t after =
     (case after of
        None \<Rightarrow> True
      | Some a \<Rightarrow> tv_sec t > tv_sec a \<or> tv_sec t = tv_sec a \<and> tv_nsec t > tv_nsec a)"

definition newest_closed :: "('q, 's, 'j) manager \<Rightarrow> nat" where
  "newest_closed m = (if b_read_only (hd (mm_buckets m)) then 0 else 1)"

definition live_window_closed :: "('q, 's, 'j) manager \<Rightarrow> bool" where
  "live_window_closed m = b_read_only (hd (mm_buckets m))"

text \<open>The loops run with \<open>i\<close> from the size down, testing and then decreasing it.\<close>

fun next_closed_loop :: "('q, 's, 'j) manager \<Rightarrow> timespec option \<Rightarrow> nat \<Rightarrow> timespec option" where
  "next_closed_loop m after 0 = None"
| "next_closed_loop m after (Suc i) =
     (if Suc i > newest_closed m then
        let start = b_start (mm_buckets m ! i)
        in if starts_after start after then Some start else next_closed_loop m after i
      else None)"

definition next_closed_window_start :: "timespec option \<Rightarrow> ('q, 's, 'j) manager \<Rightarrow> timespec option" where
  "next_closed_window_start after m = next_closed_loop m after (length (mm_buckets m))"

fun window_closed_loop ::
  "('q, 's, 'o, 'j) bucket_class \<Rightarrow> timespec \<Rightarrow> label_map \<Rightarrow> ('q, 's, 'j) manager \<Rightarrow> timespec option
     \<Rightarrow> nat \<Rightarrow> timespec option \<times> 'o \<Rightarrow> timespec option \<times> 'o"
where
  "window_closed_loop cls now labels m last_start 0 st = st"
| "window_closed_loop cls now labels m last_start (Suc i) st =
     (if Suc i > newest_closed m then
        let b = mm_buckets m ! i; start_ts = b_start b
        in if \<not> starts_after start_ts last_start then window_closed_loop cls now labels m last_start i st
           else window_closed_loop cls now labels m last_start i
                  (Some start_ts, bucket_opentelemetry cls now labels m b (snd st))
      else st)"

definition window_closed_opentelemetry ::
  "('q, 's, 'o, 'j) bucket_class \<Rightarrow> timespec \<Rightarrow> label_map \<Rightarrow> ('q, 's, 'j) manager \<Rightarrow> timespec option \<Rightarrow> 'o
     \<Rightarrow> bool \<times> timespec option \<times> 'o"
where
  "window_closed_opentelemetry cls now labels m last_start scope =
     (case window_closed_loop cls now labels m last_start (length (mm_buckets m)) (None, scope) of
        (None, scope) \<Rightarrow> (False, last_start, scope)
      | (Some newest, scope) \<Rightarrow> (True, Some newest, scope))"

subsection \<open>Merges\<close>

text \<open>
  The bucket a merge is given is \<^term>\<open>Some\<close> if it is of the class of the window. The result is the
  bucket that holds the merge: the given one, changed in place, or the new one the code returns.
\<close>

definition simple_merge ::
  "('q, 's, 'o, 'j) bucket_class \<Rightarrow> timespec \<Rightarrow> ('q, 's) bucket option \<Rightarrow> u64 \<Rightarrow> ('q, 's, 'j) manager
     \<Rightarrow> period_error + ('q, 's) bucket"
where
  "simple_merge cls now ext period m =
     (case check_single_period m period of
        Some e \<Rightarrow> Inl e
      | None \<Rightarrow>
          (case ext of
             Some b \<Rightarrow> Inr (bucket_merge cls now Agg_SUM (mm_buckets m ! unat period) b)
           | None \<Rightarrow> Inr (bucket_merge cls now Agg_DEFAULT (mm_buckets m ! unat period) (new_bucket cls now))))"

fun closed_merge_loop ::
  "('q, 's, 'o, 'j) bucket_class \<Rightarrow> timespec \<Rightarrow> ('q, 's) bucket option \<Rightarrow> timespec \<Rightarrow> ('q, 's) bucket list
     \<Rightarrow> period_error + ('q, 's) bucket"
where
  "closed_merge_loop cls now ext start [] = Inl Not_Held"
| "closed_merge_loop cls now ext start (held # rest) =
     (if tv_sec (b_start held) \<noteq> tv_sec start \<or> tv_nsec (b_start held) \<noteq> tv_nsec start
      then closed_merge_loop cls now ext start rest
      else
        (case ext of
           Some b \<Rightarrow> Inr (bucket_merge cls now Agg_SUM held b)
         | None \<Rightarrow> Inr (bucket_merge cls now Agg_DEFAULT held (new_bucket cls now))))"

definition closed_merge ::
  "('q, 's, 'o, 'j) bucket_class \<Rightarrow> timespec \<Rightarrow> ('q, 's) bucket option \<Rightarrow> timespec \<Rightarrow> ('q, 's, 'j) manager
     \<Rightarrow> period_error + ('q, 's) bucket"
where
  "closed_merge cls now ext start m =
     closed_merge_loop cls now ext start (drop (newest_closed m) (mm_buckets m))"

text \<open>\<open>p\<close> counts down while the buckets are visited, newest first.\<close>

fun merge_loop ::
  "('q, 's, 'o, 'j) bucket_class \<Rightarrow> timespec \<Rightarrow> nat \<Rightarrow> ('q, 's) bucket list \<Rightarrow> ('q, 's) bucket \<Rightarrow> ('q, 's) bucket"
where
  "merge_loop cls now p [] merged = merged"
| "merge_loop cls now p (b # bs) merged =
     (if p = 0 then merged else merge_loop cls now (p - 1) bs (bucket_merge cls now Agg_DEFAULT b merged))"

definition merged_window ::
  "('q, 's, 'o, 'j) bucket_class \<Rightarrow> timespec \<Rightarrow> u64 \<Rightarrow> ('q, 's, 'j) manager \<Rightarrow> ('q, 's) bucket" where
  "merged_window cls now period m =
     (let merged = new_bucket cls now;
          merged = (if mm_recorded_stream m then merged\<lparr>b_recorded := True\<rparr> else merged)
      in merge_loop cls now (unat period) (mm_buckets m) merged)"

definition multiple_merge ::
  "('q, 's, 'o, 'j) bucket_class \<Rightarrow> timespec \<Rightarrow> ('q, 's) bucket option \<Rightarrow> u64 \<Rightarrow> ('q, 's, 'j) manager
     \<Rightarrow> period_error + ('q, 's) bucket"
where
  "multiple_merge cls now ext period m =
     (if period \<le> 1 \<or> unat period > mm_num_periods m then Inl (Invalid_Period 2 (mm_num_periods m))
      else
        (case ext of
           Some b \<Rightarrow> Inr (bucket_merge cls now Agg_SUM (merged_window cls now period m) b)
         | None \<Rightarrow> Inr (merged_window cls now period m)))"

text \<open>
  The merge cache: a cached document that is younger than a second is assigned to \<open>j\<close>, but the
  merge runs in any case and its result is written over it. Times are in milliseconds.
\<close>

definition MERGE_CACHE_TTL_MS :: int where
  "MERGE_CACHE_TTL_MS = 1000"

definition window_merged_json ::
  "('q, 's, 'o, 'j) bucket_class \<Rightarrow> timespec \<Rightarrow> int \<Rightarrow> string \<Rightarrow> u64 \<Rightarrow> ('q, 's, 'j) manager \<Rightarrow> 'j
     \<Rightarrow> period_error + ('q, 's, 'j) manager \<times> 'j"
where
  "window_merged_json cls now now_ms key period m j =
     (if period \<le> 1 \<or> unat period > mm_num_periods m then Inl (Invalid_Period 2 (mm_num_periods m))
      else if groups_none m then Inr (m, j)
      else
        let (cache, j) =
              (case map_of (mm_mergeResultCache m) period of
                 Some (t, cached) \<Rightarrow>
                   if now_ms - t < MERGE_CACHE_TTL_MS then (mm_mergeResultCache m, cached)
                   else (AList.delete period (mm_mergeResultCache m), j)
               | None \<Rightarrow> (mm_mergeResultCache m, j));
            j = bucket_json cls now key (merged_window cls now period m) j
        in Inr (m\<lparr>mm_mergeResultCache := AList.update period (now_ms, j) cache\<rparr>, j))"

subsection \<open>What an export writes\<close>

definition pending :: "timespec option \<Rightarrow> ('q, 's, 'j) manager \<Rightarrow> ('q, 's) bucket list" where
  "pending after m = filter (\<lambda>b. starts_after (b_start b) after) (rev (drop (newest_closed m) (mm_buckets m)))"

lemma drop_take_Suc: "n \<le> i \<Longrightarrow> i < length xs \<Longrightarrow> drop n (take (Suc i) xs) = drop n (take i xs) @ [xs ! i]"
  by (simp add: take_Suc_conv_app_nth)

lemma window_closed_loop_pending:
  assumes "i \<le> length (mm_buckets m)"
  shows "window_closed_loop cls now labels m last_start i (nw, scope) =
    (let bs = filter (\<lambda>b. starts_after (b_start b) last_start) (rev (drop (newest_closed m) (take i (mm_buckets m))))
     in (if bs = [] then nw else Some (b_start (last bs)), fold (bucket_opentelemetry cls now labels m) bs scope))"
  using assms
proof (induction i arbitrary: nw scope)
  case (Suc i)
  then have i: "i < length (mm_buckets m)" by simp
  show ?case
  proof (cases "newest_closed m \<le> i")
    case True
    then show ?thesis using Suc i by (simp add: drop_take_Suc Let_def)
  next
    case False
    then show ?thesis by (simp add: Let_def)
  qed
qed simp

lemma window_closed_pending:
  "window_closed_opentelemetry cls now labels m last_start scope =
     (pending last_start m \<noteq> [],
      if pending last_start m = [] then last_start else Some (b_start (last (pending last_start m))),
      fold (bucket_opentelemetry cls now labels m) (pending last_start m) scope)"
  by (simp add: window_closed_opentelemetry_def window_closed_loop_pending pending_def Let_def)

lemma next_closed_loop_pending:
  assumes "i \<le> length (mm_buckets m)"
  shows "next_closed_loop m after i =
    (case filter (\<lambda>b. starts_after (b_start b) after) (rev (drop (newest_closed m) (take i (mm_buckets m)))) of
       [] \<Rightarrow> None | b # _ \<Rightarrow> Some (b_start b))"
  using assms
proof (induction i)
  case (Suc i)
  then have i: "i < length (mm_buckets m)" by simp
  show ?case
  proof (cases "newest_closed m \<le> i")
    case True
    then show ?thesis using Suc i by (simp add: drop_take_Suc Let_def)
  next
    case False
    then show ?thesis by simp
  qed
qed simp

subsection \<open>The window invariant\<close>

definition later :: "timespec \<Rightarrow> timespec \<Rightarrow> bool" where
  "later a b \<longleftrightarrow> tv_sec a > tv_sec b"

definition starts :: "('q, 's, 'j) manager \<Rightarrow> timespec list" where
  "starts m = map b_start (mm_buckets m)"

definition window_ok :: "('q, 's, 'j) manager \<Rightarrow> bool" where
  "window_ok m \<longleftrightarrow>
     mm_buckets m \<noteq> [] \<and> length (mm_buckets m) \<le> mm_num_periods m \<and> mm_num_periods m \<le> 10
     \<and> sorted_wrt later (starts m) \<and> tv_sec (hd (starts m)) < tv_sec (mm_next_shift m)
     \<and> (\<forall>b \<in> set (tl (mm_buckets m)). b_read_only b)"

lemma window_ok_new: "tv_sec now' < tv_sec now + PERIOD_SEC \<Longrightarrow> window_ok (new_manager cls cfg now now')"
  by (simp add: window_ok_def new_manager_def Let_def starts_def clamp_num_periods_def new_bucket_def)

lemma window_ok_set_start:
  assumes "window_ok m" "length (mm_buckets m) = 1"
  shows "window_ok (set_start_tstamp stamp m)"
  using assms by (cases "mm_buckets m") (auto simp: window_ok_def set_start_tstamp_def upd_front_def starts_def PERIOD_SEC_def)

text \<open>Changes to the front bucket that keep its start.\<close>

lemma starts_upd_front:
  assumes "mm_buckets m \<noteq> []" "\<And>b. b_start (f b) = b_start b"
  shows "starts (upd_front f m) = starts m"
  using assms by (cases "mm_buckets m") (simp_all add: starts_def upd_front_def)

lemma window_ok_upd_front:
  assumes "window_ok m" "\<And>b. b_start (f b) = b_start b"
  shows "window_ok (upd_front f m)"
proof -
  have ne: "mm_buckets m \<noteq> []" using assms(1) by (simp add: window_ok_def)
  have "mm_num_periods (upd_front f m) = mm_num_periods m" "mm_next_shift (upd_front f m) = mm_next_shift m"
    "length (mm_buckets (upd_front f m)) = length (mm_buckets m)" "tl (mm_buckets (upd_front f m)) = tl (mm_buckets m)"
    "mm_buckets (upd_front f m) \<noteq> []"
    using ne by (simp_all add: upd_front_def)
  with assms(1) show ?thesis
    unfolding window_ok_def starts_upd_front [OF ne assms(2)] by simp
qed

text \<open>What a shift does to the starts: a new one in front, and the oldest leaves if the window is full.\<close>

lemma period_shift_buckets:
  fixes m :: "('q, 's, 'j) manager"
  assumes "mm_buckets m = old # rest"
  shows "\<exists>b. b_start b = stamp \<and> \<not> b_read_only b \<and> b_num_events b = 0 \<and> b_num_samples b = 0
    \<and> period_shift cls now stamp m =
      (m\<lparr>mm_buckets := (if Suc (length (mm_buckets m)) > mm_num_periods m
            then butlast (b # set_read_only cls stamp old # rest) else b # set_read_only cls stamp old # rest),
         mm_last_shift := (mm_last_shift m)\<lparr>tv_sec := tv_sec stamp\<rparr>,
         mm_next_shift := (mm_next_shift m)\<lparr>tv_sec := tv_sec stamp + PERIOD_SEC\<rparr>\<rparr>,
       if Suc (length (mm_buckets m)) > mm_num_periods m then Some (last (set_read_only cls stamp old # rest)) else None)"
  using assms
  by (intro exI [of _ "(let b = (new_bucket cls now)\<lparr>b_groups := mm_groups m, b_start := stamp\<rparr>;
       b = b\<lparr>b_spec := bc_update_topn_metrics cls (mm_topn_count m) (mm_topn_percentile_threshold m) (b_spec b)\<rparr>
     in if mm_recorded_stream m then b\<lparr>b_recorded := True\<rparr> else b)"])
    (simp add: period_shift_def Let_def new_bucket_def)

lemma set_read_only_fields [simp]:
  "b_start (set_read_only cls stamp b) = b_start b" "b_read_only (set_read_only cls stamp b)"
  "b_num_events (set_read_only cls stamp b) = b_num_events b"
  "b_num_samples (set_read_only cls stamp b) = b_num_samples b"
  by (simp_all add: set_read_only_def)

lemma starts_period_shift:
  assumes "mm_buckets m \<noteq> []"
  shows "starts (fst (period_shift cls now stamp m)) =
      (if length (starts m) \<ge> mm_num_periods m then butlast (stamp # starts m) else stamp # starts m)"
    "map_option b_start (snd (period_shift cls now stamp m)) =
      (if length (starts m) \<ge> mm_num_periods m then Some (last (starts m)) else None)"
proof -
  from assms obtain old rest where bs: "mm_buckets m = old # rest" by (cases "mm_buckets m") auto
  from period_shift_buckets [OF bs, where stamp = stamp and cls = cls and now = now] obtain b where
    b: "b_start b = stamp" "period_shift cls now stamp m =
      (m\<lparr>mm_buckets := (if Suc (length (mm_buckets m)) > mm_num_periods m
            then butlast (b # set_read_only cls stamp old # rest) else b # set_read_only cls stamp old # rest),
         mm_last_shift := (mm_last_shift m)\<lparr>tv_sec := tv_sec stamp\<rparr>,
         mm_next_shift := (mm_next_shift m)\<lparr>tv_sec := tv_sec stamp + PERIOD_SEC\<rparr>\<rparr>,
       if Suc (length (mm_buckets m)) > mm_num_periods m then Some (last (set_read_only cls stamp old # rest)) else None)"
    by blast
  have len: "(Suc (length (mm_buckets m)) > mm_num_periods m) = (length (starts m) \<ge> mm_num_periods m)"
    by (auto simp: starts_def)
  show "starts (fst (period_shift cls now stamp m)) =
      (if length (starts m) \<ge> mm_num_periods m then butlast (stamp # starts m) else stamp # starts m)"
    unfolding b(2) len by (simp add: starts_def bs b(1) map_butlast)
  show "map_option b_start (snd (period_shift cls now stamp m)) =
      (if length (starts m) \<ge> mm_num_periods m then Some (last (starts m)) else None)"
    unfolding b(2) len by (simp add: starts_def bs last_map)
qed

lemma sorted_wrt_butlast: "sorted_wrt P xs \<Longrightarrow> sorted_wrt P (butlast xs)"
  by (metis append_butlast_last_id butlast.simps(1) sorted_wrt_append)

lemma window_ok_hd_later:
  assumes "window_ok m" "tv_sec (mm_next_shift m) \<le> tv_sec stamp" "s \<in> set (starts m)"
  shows "later stamp s"
proof -
  obtain s0 ss where "starts m = s0 # ss" using assms(3) by (cases "starts m") auto
  with assms show ?thesis by (auto simp: window_ok_def later_def)
qed

lemma period_shift_fields [simp]:
  "mm_num_periods (fst (period_shift cls now stamp m)) = mm_num_periods m"
  "mm_next_shift (fst (period_shift cls now stamp m)) = (mm_next_shift m)\<lparr>tv_sec := tv_sec stamp + PERIOD_SEC\<rparr>"
  "mm_groups (fst (period_shift cls now stamp m)) = mm_groups m"
  "mm_deep_sampling_now (fst (period_shift cls now stamp m)) = mm_deep_sampling_now m"
  by (simp_all add: period_shift_def Let_def)

lemma window_ok_period_shift:
  assumes "window_ok m" "will_shift stamp m"
  shows "window_ok (fst (period_shift cls now stamp m))"
proof -
  have ne: "mm_buckets m \<noteq> []" and np: "mm_num_periods m > 1" and len: "length (starts m) \<le> mm_num_periods m"
    and nx: "tv_sec (mm_next_shift m) \<le> tv_sec stamp"
    using assms by (auto simp: window_ok_def will_shift_def starts_def)
  from ne obtain old rest where bs: "mm_buckets m = old # rest" by (cases "mm_buckets m") auto
  from period_shift_buckets [OF bs, where stamp = stamp and cls = cls and now = now] obtain b where
    b: "mm_buckets (fst (period_shift cls now stamp m)) = (if Suc (length (mm_buckets m)) > mm_num_periods m
            then butlast (b # set_read_only cls stamp old # rest) else b # set_read_only cls stamp old # rest)"
    by auto
  have "sorted_wrt later (stamp # starts m)"
    using assms(1) window_ok_hd_later [OF assms(1) nx] by (simp add: window_ok_def)
  note sb = this sorted_wrt_butlast [OF this]
  have sorted: "sorted_wrt later (starts (fst (period_shift cls now stamp m)))"
    unfolding starts_period_shift(1) [OF ne]
    by (cases "length (starts m) \<ge> mm_num_periods m") (simp_all only: if_True if_False sb)
  have ne': "starts m \<noteq> []" using ne by (simp add: starts_def)
  have hd: "hd (starts (fst (period_shift cls now stamp m))) = stamp"
    unfolding starts_period_shift(1) [OF ne] using ne' by simp
  have ro: "\<forall>b \<in> set (tl (mm_buckets (fst (period_shift cls now stamp m)))). b_read_only b"
    using assms(1) unfolding b by (auto simp: window_ok_def bs dest: in_set_butlastD)
  have "length (starts (fst (period_shift cls now stamp m))) \<le> mm_num_periods m"
    "starts (fst (period_shift cls now stamp m)) \<noteq> []"
    unfolding starts_period_shift(1) [OF ne] using len ne' by auto
  then show ?thesis
    using sorted hd ro assms(1) by (auto simp: window_ok_def starts_def PERIOD_SEC_def)
qed

subsection \<open>Windows over time\<close>

text \<open>
  A run of the window with an exporter: events and period checks with any time stamps, the end of
  a recorded stream, and exports. The exporter keeps the start of the newest window it sent. The
  bucket class writes the start of an exported window to the output, so \<open>ws_sent\<close> is what the code
  has exported. \<open>ws_since\<close> counts the shifts since the last export, \<open>ws_late\<close> says that as many
  shifts as the window has periods happened between two exports, less one.
\<close>

record ('q, 's, 'j) wstate =
  ws_mgr :: "('q, 's, 'j) manager"
  ws_last :: "timespec option"
  ws_sent :: "timespec list"
  ws_expired :: "timespec list"
  ws_since :: nat
  ws_late :: bool

definition wstart :: "('q, 's, 'j) manager \<Rightarrow> ('q, 's, 'j) wstate" where
  "wstart m = \<lparr>ws_mgr = m, ws_last = None, ws_sent = [], ws_expired = [], ws_since = 0, ws_late = False\<rparr>"

definition wshift ::
  "timespec \<Rightarrow> ('q, 's, 'j) wstate \<Rightarrow> ('q, 's, 'j) manager \<times> ('q, 's) bucket option \<Rightarrow> ('q, 's, 'j) wstate" where
  "wshift stamp w r =
     (let shifted = will_shift stamp (ws_mgr w) in
      w\<lparr>ws_mgr := fst r,
        ws_expired := ws_expired w @ (case snd r of Some b \<Rightarrow> [b_start b] | None \<Rightarrow> []),
        ws_since := (if shifted then Suc (ws_since w) else ws_since w),
        ws_late := (ws_late w \<or> shifted \<and> Suc (ws_since w) \<ge> mm_num_periods (ws_mgr w))\<rparr>)"

inductive wreach :: "('q, 's, timespec list, 'j) bucket_class \<Rightarrow> ('q, 's, 'j) wstate \<Rightarrow> bool" for cls where
  init: "tv_sec now' < tv_sec now + PERIOD_SEC \<Longrightarrow> wreach cls (wstart (new_manager cls cfg now now'))"
| start: "tv_sec now' < tv_sec now + PERIOD_SEC \<Longrightarrow>
    wreach cls (wstart (set_start_tstamp stamp (new_manager cls cfg now now')))"
| event: "wreach cls w \<Longrightarrow> wreach cls (wshift stamp w (new_event cls now stamp sample (ws_mgr w)))"
| check: "wreach cls w \<Longrightarrow> wreach cls (wshift stamp w (check_period_shift cls now stamp (ws_mgr w)))"
| stop: "wreach cls w \<Longrightarrow> wreach cls (w\<lparr>ws_mgr := set_end_tstamp cls stamp (ws_mgr w)\<rparr>)"
| export: "wreach cls w \<Longrightarrow>
    window_closed_opentelemetry cls now labels (ws_mgr w) (ws_last w) (ws_sent w) = (any, last_start, sent) \<Longrightarrow>
    wreach cls (w\<lparr>ws_last := last_start, ws_sent := sent, ws_since := 0\<rparr>)"

definition records_start :: "('q, 's, timespec list, 'j) bucket_class \<Rightarrow> bool" where
  "records_start cls \<longleftrightarrow> bc_to_opentelemetry cls = (\<lambda>start end_ts labels b scope. scope @ [start])"

text \<open>The invariant of a run, on the starts that are held, sent and expired.\<close>

definition run_ok :: "timespec list \<Rightarrow> timespec option \<Rightarrow> timespec list \<Rightarrow> timespec list \<Rightarrow> nat \<Rightarrow> bool \<Rightarrow> bool" where
  "run_ok held last_start sent expired since late \<longleftrightarrow>
     last_start = (if sent = [] then None else Some (last sent))
     \<and> sorted_wrt (\<lambda>a b. later b a) sent
     \<and> (\<forall>s \<in> set held. s \<in> set sent \<or> (\<forall>x \<in> set sent. later s x))
     \<and> (\<forall>x \<in> set sent. \<not> later x (hd held))
     \<and> set (drop since (tl held)) \<subseteq> set sent
     \<and> (\<not> late \<longrightarrow> set expired \<subseteq> set sent)"

lemma run_ok_starts_after:
  assumes "run_ok held last_start sent expired since late" "s \<in> set held"
  shows "starts_after s last_start \<longleftrightarrow> s \<notin> set sent"
proof (cases "sent = []")
  case True
  then show ?thesis using assms by (simp add: run_ok_def starts_after_def)
next
  case False
  then have l: "last_start = Some (last sent)" using assms by (simp add: run_ok_def)
  have "\<not> starts_after s last_start" if "s \<in> set sent"
  proof -
    obtain ys y where "sent = ys @ [y]" using False by (cases sent rule: rev_cases) auto
    then have "s = last sent \<or> later (last sent) s"
      using assms(1) that by (auto simp: run_ok_def sorted_wrt_append)
    then show ?thesis using l by (auto simp: starts_after_def later_def)
  qed
  moreover have "starts_after s last_start" if "s \<notin> set sent"
    using assms that False l by (auto simp: run_ok_def starts_after_def later_def)
  ultimately show ?thesis by blast
qed


text \<open>The three kinds of steps on the starts: a shift, an export, and none.\<close>

lemma run_ok_shift:
  assumes ok: "run_ok held last_start sent expired since late"
    and sorted: "sorted_wrt later (stamp # held)" and ne: "held \<noteq> []" and len: "length held \<le> np" and np: "np > 1"
  shows "run_ok (if length held \<ge> np then butlast (stamp # held) else stamp # held) last_start sent
      (expired @ (if length held \<ge> np then [last held] else [])) (Suc since) (late \<or> Suc since \<ge> np)"
proof -
  have after: "later stamp x" if "x \<in> set sent" for x
  proof -
    have "later stamp (hd held)" using sorted ne by simp
    then show ?thesis using ok that by (force simp: run_ok_def later_def)
  qed
  let ?held = "if length held \<ge> np then butlast (stamp # held) else stamp # held"
  have hd: "hd ?held = stamp" using ne by simp
  have sub: "set ?held \<subseteq> insert stamp (set held)" using ne by (auto dest: in_set_butlastD)
  have tl: "set (drop (Suc since) (tl ?held)) \<subseteq> set (drop since (tl held))"
  proof (cases "length held \<ge> np")
    case True
    have "tl (butlast (stamp # held)) = butlast held" using ne by simp
    moreover have "drop (Suc since) (butlast held) = butlast (drop since (tl held))"
      by (simp add: butlast_drop drop_Suc tl_drop butlast_tl)
    ultimately show ?thesis using True by (auto dest: in_set_butlastD)
  next
    case False
    then show ?thesis by (simp add: drop_Suc)
  qed
  have exp: "last held \<in> set sent" if "length held \<ge> np" "\<not> Suc since \<ge> np"
  proof -
    have "since < length (tl held)" using that len by simp
    then have "last held \<in> set (drop since (tl held))"
      using ne by (metis drop_eq_Nil last_drop last_in_set last_tl linorder_not_le list.size(3) not_less_zero)
    then show ?thesis using ok by (auto simp: run_ok_def)
  qed
  show ?thesis
    unfolding run_ok_def hd
  proof (intro conjI ballI impI)
    fix s
    assume "s \<in> set ?held"
    then have "s = stamp \<or> s \<in> set held" using sub by blast
    then show "s \<in> set sent \<or> (\<forall>x \<in> set sent. later s x)"
      using ok after by (auto simp: run_ok_def)
  next
    fix x
    assume "x \<in> set sent"
    from after [OF this] show "\<not> later x stamp" by (simp add: later_def)
  next
    show "set (drop (Suc since) (tl ?held)) \<subseteq> set sent" using tl ok by (auto simp: run_ok_def)
  next
    assume "\<not> (late \<or> Suc since \<ge> np)"
    then show "set (expired @ (if length held \<ge> np then [last held] else [])) \<subseteq> set sent"
      using ok exp by (auto simp: run_ok_def)
  qed (use ok in \<open>simp_all add: run_ok_def\<close>)
qed

lemma run_ok_export:
  fixes held last_start sent and n :: nat
  defines "new_sent \<equiv> sent @ filter (\<lambda>s. starts_after s last_start) (rev (drop n held))"
  assumes ok: "run_ok held last_start sent expired since late" and sorted: "sorted_wrt later held"
    and ne: "held \<noteq> []" and n: "n \<le> 1"
  shows "run_ok held (if new_sent = [] then None else Some (last new_sent)) new_sent expired 0 late"
    and "set (drop n held) \<subseteq> set new_sent"
proof -
  let ?new = "filter (\<lambda>s. starts_after s last_start) (rev (drop n held))"
  have sub: "set (drop n held) \<subseteq> set held" by (rule set_drop_subset)
  have new: "s \<in> set ?new \<longleftrightarrow> s \<in> set (drop n held) \<and> s \<notin> set sent" for s
    using run_ok_starts_after [OF ok] sub by auto
  have "sorted_wrt later (drop n held)" using sorted by (rule sorted_wrt_drop)
  then have "sorted_wrt (\<lambda>a b. later b a) (rev (drop n held))" by (simp add: sorted_wrt_rev)
  then have s1: "sorted_wrt (\<lambda>a b. later b a) ?new" by (rule sorted_wrt_filter)
  have s2: "later y x" if "x \<in> set sent" "y \<in> set ?new" for x y
    using ok that new sub by (auto simp: run_ok_def)
  have sorted': "sorted_wrt (\<lambda>a b. later b a) new_sent"
    using ok s1 s2 by (auto simp: new_sent_def sorted_wrt_append run_ok_def)
  show all: "set (drop n held) \<subseteq> set new_sent"
    using new by (auto simp: new_sent_def)
  have hdl: "x = hd held \<or> later (hd held) x" if "x \<in> set held" for x
    using that sorted by (cases held) auto
  have tl: "set (tl held) \<subseteq> set new_sent"
  proof -
    have "set (tl held) \<subseteq> set (drop n held)"
      using n by (cases held; cases n) auto
    with all show ?thesis by blast
  qed
  have J: "s \<in> set new_sent \<or> (\<forall>x \<in> set new_sent. later s x)" if "s \<in> set held" for s
  proof (cases "s \<in> set (tl held)")
    case True
    then show ?thesis using tl by blast
  next
    case False
    then have s: "s = hd held" using that by (cases held) auto
    show ?thesis
    proof (cases "s \<in> set new_sent")
      case False
      have "later s x" if "x \<in> set new_sent" for x
      proof (cases "x \<in> set sent")
        case True
        then show ?thesis using ok False \<open>s \<in> set held\<close> by (auto simp: run_ok_def new_sent_def)
      next
        case xn: False
        then have "x \<in> set held" using that new sub by (auto simp: new_sent_def)
        then show ?thesis using hdl s False that by auto
      qed
      then show ?thesis by blast
    qed simp
  qed
  have hd: "\<not> later x (hd held)" if "x \<in> set new_sent" for x
  proof (cases "x \<in> set sent")
    case True
    then show ?thesis using ok by (auto simp: run_ok_def)
  next
    case False
    then have "x \<in> set held" using that new sub by (auto simp: new_sent_def)
    from hdl [OF this] show ?thesis by (auto simp: later_def)
  qed
  have ex: "\<not> late \<longrightarrow> set expired \<subseteq> set new_sent" using ok by (auto simp: run_ok_def new_sent_def)
  show "run_ok held (if new_sent = [] then None else Some (last new_sent)) new_sent expired 0 late"
    unfolding run_ok_def using sorted' J hd tl ex by (simp add: new_sent_def [symmetric])
qed


definition wstate_ok :: "('q, 's, 'j) wstate \<Rightarrow> bool" where
  "wstate_ok w \<longleftrightarrow> window_ok (ws_mgr w) \<and> mm_groups (ws_mgr w) = None
     \<and> run_ok (starts (ws_mgr w)) (ws_last w) (ws_sent w) (ws_expired w) (ws_since w) (ws_late w)
     \<and> (\<not> live_window_closed (ws_mgr w) \<longrightarrow> hd (starts (ws_mgr w)) \<notin> set (ws_sent w))"

lemma wstate_ok_start:
  assumes "window_ok m" "mm_groups m = None" "length (mm_buckets m) = 1"
  shows "wstate_ok (wstart m)"
  using assms by (cases "mm_buckets m") (auto simp: wstate_ok_def wstart_def run_ok_def starts_def)

lemma wstate_ok_check:
  assumes "wstate_ok w"
  shows "wstate_ok (wshift stamp w (check_period_shift cls now stamp (ws_mgr w)))"
proof (cases "will_shift stamp (ws_mgr w)")
  case False
  then show ?thesis using assms by (simp add: wshift_def check_period_shift_def wstate_ok_def)
next
  case True
  let ?m = "ws_mgr w" and ?r = "period_shift cls now stamp (ws_mgr w)"
  have ok: "window_ok ?m" using assms by (simp add: wstate_ok_def)
  have ne: "mm_buckets ?m \<noteq> []" using ok by (simp add: window_ok_def)
  have sorted: "sorted_wrt later (stamp # starts ?m)"
    using ok True window_ok_hd_later [OF ok] by (auto simp: window_ok_def will_shift_def)
  have "run_ok (starts (fst ?r)) (ws_last w) (ws_sent w)
      (ws_expired w @ (case snd ?r of Some b \<Rightarrow> [b_start b] | None \<Rightarrow> [])) (Suc (ws_since w))
      (ws_late w \<or> Suc (ws_since w) \<ge> mm_num_periods ?m)"
  proof -
    have e: "(case snd ?r of Some b \<Rightarrow> [b_start b] | None \<Rightarrow> [])
        = (if length (starts ?m) \<ge> mm_num_periods ?m then [last (starts ?m)] else [])"
      using starts_period_shift(2) [OF ne, of cls now stamp] by (auto split: option.splits if_splits)
    show ?thesis
      unfolding e starts_period_shift(1) [OF ne]
      using assms True ne ok
      by (intro run_ok_shift sorted) (auto simp: wstate_ok_def window_ok_def starts_def will_shift_def)
  qed
  moreover have "stamp \<notin> set (ws_sent w)"
    using assms sorted ne by (cases "starts ?m") (auto simp: wstate_ok_def run_ok_def later_def starts_def)
  moreover have "hd (starts (fst ?r)) = stamp" using ne unfolding starts_period_shift(1) [OF ne] by (simp add: starts_def)
  ultimately show ?thesis
    using window_ok_period_shift [OF ok True, of cls now] assms True
    by (simp add: wstate_ok_def wshift_def check_period_shift_def Let_def)
qed

lemma bucket_new_event_start [simp]: "b_start (bucket_new_event deep b) = b_start b"
  by (simp add: bucket_new_event_def)

lemma bucket_new_event_read_only [simp]: "b_read_only (bucket_new_event deep b) = b_read_only b"
  by (simp add: bucket_new_event_def)

lemma wstate_ok_upd_front:
  assumes "wstate_ok w" "\<And>b. b_start (f b) = b_start b" "\<And>b. b_read_only b \<Longrightarrow> b_read_only (f b)"
  shows "wstate_ok (w\<lparr>ws_mgr := upd_front f (ws_mgr w)\<rparr>)"
proof -
  have "mm_buckets (ws_mgr w) \<noteq> []" using assms by (simp add: wstate_ok_def window_ok_def)
  from starts_upd_front [OF this assms(2)] show ?thesis
    using assms window_ok_upd_front [of "ws_mgr w" f]
    by (auto simp: wstate_ok_def live_window_closed_def) (auto simp: upd_front_def)
qed

text \<open>An event is a draw for the sampling, a period check, and a count in the live bucket.\<close>

definition draw :: "bool \<Rightarrow> ('q, 's, 'j) manager \<Rightarrow> ('q, 's, 'j) manager" where
  "draw sample m =
     (if sample \<and> mm_deep_sample_rate m \<noteq> 100 then
        m\<lparr>mm_rng := snd (splitmix64 (mm_rng m)),
          mm_deep_sampling_now := unat (fst (splitmix64 (mm_rng m)) mod 100) < mm_deep_sample_rate m\<rparr>
      else m)"

lemma new_event_steps:
  "new_event cls now stamp sample m =
     (let r = check_period_shift cls now stamp (draw sample m)
      in (upd_front (bucket_new_event (mm_deep_sampling_now (fst r))) (fst r), snd r))"
proof (cases "sample \<and> mm_deep_sample_rate m \<noteq> 100")
  case True
  then show ?thesis
    by (simp add: new_event_def draw_def check_period_shift_def Let_def case_prod_beta)
next
  case False
  then have "draw sample m = m" by (simp only: draw_def if_False)
  with False show ?thesis
    by (simp only: new_event_def check_period_shift_def Let_def case_prod_beta if_False)
qed

lemma draw_fields [simp]:
  "mm_buckets (draw sample m) = mm_buckets m" "mm_num_periods (draw sample m) = mm_num_periods m"
  "mm_next_shift (draw sample m) = mm_next_shift m" "mm_groups (draw sample m) = mm_groups m"
  by (simp_all add: draw_def)

lemma wstate_ok_draw: "wstate_ok w \<Longrightarrow> wstate_ok (w\<lparr>ws_mgr := draw sample (ws_mgr w)\<rparr>)"
  by (simp add: wstate_ok_def window_ok_def starts_def live_window_closed_def)

lemma wstate_ok_event:
  assumes "wstate_ok w"
  shows "wstate_ok (wshift stamp w (new_event cls now stamp sample (ws_mgr w)))"
proof -
  let ?w = "w\<lparr>ws_mgr := draw sample (ws_mgr w)\<rparr>"
  let ?r = "check_period_shift cls now stamp (draw sample (ws_mgr w))"
  have eq: "wshift stamp w (new_event cls now stamp sample (ws_mgr w))
    = (wshift stamp ?w ?r)\<lparr>ws_mgr := upd_front (bucket_new_event (mm_deep_sampling_now (fst ?r))) (ws_mgr (wshift stamp ?w ?r))\<rparr>"
    by (simp add: wshift_def new_event_steps Let_def will_shift_def)
  have "wstate_ok (wshift stamp ?w ?r)"
    using wstate_ok_check [OF wstate_ok_draw [OF assms, of sample], of stamp cls now] by simp
  then show ?thesis unfolding eq by (rule wstate_ok_upd_front) simp_all
qed

lemma fold_records:
  assumes "records_start cls" "mm_groups m = None"
  shows "fold (bucket_opentelemetry cls now labels m) bs sent = sent @ map b_start bs"
  using assms
  by (induction bs arbitrary: sent) (auto simp: bucket_opentelemetry_def groups_none_def records_start_def Let_def)

lemma map_pending: "map b_start (pending last_start m) =
  filter (\<lambda>s. starts_after s last_start) (rev (drop (newest_closed m) (starts m)))"
  by (simp add: pending_def starts_def rev_map drop_map filter_map o_def)

lemma wstate_ok_export:
  assumes "wstate_ok w" "records_start cls"
    and "window_closed_opentelemetry cls now labels (ws_mgr w) (ws_last w) (ws_sent w) = (any, last_start, sent)"
  shows "wstate_ok (w\<lparr>ws_last := last_start, ws_sent := sent, ws_since := 0\<rparr>)"
    and "set (drop (newest_closed (ws_mgr w)) (starts (ws_mgr w))) \<subseteq> set sent"
proof -
  let ?m = "ws_mgr w" and ?new = "map b_start (pending (ws_last w) (ws_mgr w))"
  have g: "mm_groups ?m = None" and ok: "window_ok ?m"
    and run: "run_ok (starts ?m) (ws_last w) (ws_sent w) (ws_expired w) (ws_since w) (ws_late w)"
    using assms(1) by (auto simp: wstate_ok_def)
  have sent: "sent = ws_sent w @ ?new"
    and last: "last_start = (if ?new = [] then ws_last w else Some (last ?new))"
    using assms(3) by (auto simp: window_closed_pending fold_records [OF assms(2) g] last_map)
  have last': "last_start = (if sent = [] then None else Some (last sent))"
    unfolding last sent using run by (simp add: run_ok_def)
  have srt: "sorted_wrt later (starts ?m)" and ne: "starts ?m \<noteq> []"
    using ok by (auto simp: window_ok_def starts_def)
  have n: "newest_closed ?m \<le> 1" by (simp add: newest_closed_def)
  note e = run_ok_export [OF run srt ne n]
  have "hd (starts ?m) \<notin> set sent" if "\<not> live_window_closed ?m"
  proof -
    have "newest_closed ?m = 1" using that by (simp add: newest_closed_def live_window_closed_def)
    moreover have "hd (starts ?m) \<notin> set (tl (starts ?m))" using srt ne by (cases "starts ?m") (auto simp: later_def)
    moreover have "hd (starts ?m) \<notin> set (ws_sent w)" using assms(1) that by (simp add: wstate_ok_def)
    ultimately show ?thesis unfolding sent map_pending by (simp add: drop_Suc)
  qed
  then show "wstate_ok (w\<lparr>ws_last := last_start, ws_sent := sent, ws_since := 0\<rparr>)"
    using e(1) ok g unfolding wstate_ok_def last' sent map_pending by simp
  show "set (drop (newest_closed ?m) (starts ?m)) \<subseteq> set sent"
    using e(2) unfolding sent map_pending .
qed

lemma wreach_ok: "wreach cls w \<Longrightarrow> records_start cls \<Longrightarrow> wstate_ok w"
proof (induction rule: wreach.induct)
  case (init now' now cfg)
  show ?case
    by (rule wstate_ok_start [OF window_ok_new [OF init(1)]]) (simp_all add: new_manager_def Let_def)
next
  case (start now' now stamp cfg)
  have "length (mm_buckets (new_manager cls cfg now now')) = 1" by (simp add: new_manager_def Let_def)
  from window_ok_set_start [OF window_ok_new [OF start(1)] this] show ?case
    by (rule wstate_ok_start) (simp_all add: new_manager_def set_start_tstamp_def upd_front_def Let_def)
next
  case (stop w stamp)
  then show ?case
    unfolding set_end_tstamp_def by (intro wstate_ok_upd_front) simp_all
qed (auto intro: wstate_ok_event wstate_ok_check wstate_ok_export)

subsection \<open>Counts\<close>

definition total_events :: "('q, 's) bucket list \<Rightarrow> u64" where
  "total_events bs = sum_list (map b_num_events bs)"

definition expired_events :: "('q, 's) bucket option \<Rightarrow> u64" where
  "expired_events e = (case e of Some b \<Rightarrow> b_num_events b | None \<Rightarrow> 0)"

lemma total_events_butlast: "bs \<noteq> [] \<Longrightarrow> total_events (butlast bs) + b_num_events (last bs) = total_events bs"
proof -
  assume "bs \<noteq> []"
  then have "total_events (butlast bs @ [last bs]) = total_events bs" by simp
  then show ?thesis by (simp only: total_events_def map_append sum_list_append) simp
qed

lemma total_events_check:
  assumes "mm_buckets m \<noteq> []"
  shows "total_events (mm_buckets (fst (check_period_shift cls now stamp m)))
      + expired_events (snd (check_period_shift cls now stamp m)) = total_events (mm_buckets m)"
    and "mm_buckets (fst (check_period_shift cls now stamp m)) \<noteq> []"
proof -
  from assms obtain old rest where bs: "mm_buckets m = old # rest" by (cases "mm_buckets m") auto
  from period_shift_buckets [OF bs, where stamp = stamp and cls = cls and now = now] obtain b where
    b: "b_num_events b = 0" "mm_buckets (fst (period_shift cls now stamp m)) =
         (if Suc (length (mm_buckets m)) > mm_num_periods m
            then butlast (b # set_read_only cls stamp old # rest) else b # set_read_only cls stamp old # rest)"
      "snd (period_shift cls now stamp m) =
         (if Suc (length (mm_buckets m)) > mm_num_periods m then Some (last (set_read_only cls stamp old # rest)) else None)"
    by auto
  have t: "total_events (b # set_read_only cls stamp old # rest) = total_events (mm_buckets m)"
    by (simp add: total_events_def b(1) bs)
  have l: "last (b # set_read_only cls stamp old # rest) = last (set_read_only cls stamp old # rest)" by simp
  show "total_events (mm_buckets (fst (check_period_shift cls now stamp m)))
      + expired_events (snd (check_period_shift cls now stamp m)) = total_events (mm_buckets m)"
    using total_events_butlast [of "b # set_read_only cls stamp old # rest"] t l
    by (simp add: check_period_shift_def b(2,3) expired_events_def)
  show "mm_buckets (fst (check_period_shift cls now stamp m)) \<noteq> []"
    using assms by (simp add: check_period_shift_def b(2))
qed

lemma total_events_upd_front:
  assumes "mm_buckets m \<noteq> []"
  shows "total_events (mm_buckets (upd_front (bucket_new_event deep) m)) = total_events (mm_buckets m) + 1"
  using assms by (cases "mm_buckets m") (simp_all add: upd_front_def total_events_def bucket_new_event_def)

lemma new_event_total:
  assumes "mm_buckets m \<noteq> []"
  shows "total_events (mm_buckets (fst (new_event cls now stamp sample m)))
      + expired_events (snd (new_event cls now stamp sample m)) = total_events (mm_buckets m) + 1"
proof -
  let ?r = "check_period_shift cls now stamp (draw sample m)"
  have ne: "mm_buckets (draw sample m) \<noteq> []" using assms by simp
  note c = total_events_check [OF ne, of cls now stamp]
  show ?thesis
    using c total_events_upd_front [OF c(2)]
    by (simp add: new_event_steps Let_def)
qed

subsection \<open>Merges\<close>

lemma merge_loop_take: "merge_loop cls now p bs b = fold (bucket_merge cls now Agg_DEFAULT) (take p bs) b"
proof (induction bs arbitrary: p b)
  case (Cons x bs)
  then show ?case by (cases p) simp_all
qed simp

definition sum_of :: "(('q, 's) bucket \<Rightarrow> u64) \<Rightarrow> ('q, 's) bucket list \<Rightarrow> u64" where
  "sum_of f bs = sum_list (map f bs)"

lemma fold_merge_counts:
  "b_num_events (fold (bucket_merge cls now agg) bs b) = b_num_events b + sum_of b_num_events bs"
  "b_num_samples (fold (bucket_merge cls now agg) bs b) = b_num_samples b + sum_of b_num_samples bs"
  "b_period_length (fold (bucket_merge cls now agg) bs b) = b_period_length b + sum_list (map (period_length now) bs)"
  "b_recorded (fold (bucket_merge cls now agg) bs b) = b_recorded b"
  "tv_sec (b_start (fold (bucket_merge cls now agg) bs b)) = fold min (map (tv_sec \<circ> b_start) bs) (tv_sec (b_start b))"
  "tv_sec (b_end (fold (bucket_merge cls now agg) bs b)) = fold max (map (tv_sec \<circ> b_end) bs) (tv_sec (b_end b))"
  by (induction bs arbitrary: b) (auto simp: bucket_merge_def sum_of_def min_def max_def)

lemma bucket_merge_fields:
  "tv_sec (b_start (bucket_merge cls now agg other b)) = min (tv_sec (b_start other)) (tv_sec (b_start b))"
  "b_num_events (bucket_merge cls now agg other b) = b_num_events b + b_num_events other"
  "b_num_samples (bucket_merge cls now agg other b) = b_num_samples b + b_num_samples other"
  by (simp_all add: bucket_merge_def min_def)

lemma closed_merge_loop_find:
  "closed_merge_loop cls now ext start bs =
     (case find (\<lambda>b. b_start b = start) bs of
        None \<Rightarrow> Inl Not_Held
      | Some held \<Rightarrow> Inr (case ext of
          Some b \<Rightarrow> bucket_merge cls now Agg_SUM held b
        | None \<Rightarrow> bucket_merge cls now Agg_DEFAULT held (new_bucket cls now)))"
proof -
  have "b_start b = start \<longleftrightarrow> tv_sec (b_start b) = tv_sec start \<and> tv_nsec (b_start b) = tv_nsec start" for b :: "('a, 'b) bucket"
    by (cases "b_start b"; cases start) simp
  then show ?thesis by (induction bs) (auto split: option.split)
qed

lemma increasing_distinct: "sorted_wrt (\<lambda>a b. tv_sec a < tv_sec b) xs \<Longrightarrow> distinct xs"
  by (induction xs) auto

lemma pending_after_export:
  assumes "window_ok m" "pending after m \<noteq> []"
  shows "pending (Some (b_start (last (pending after m)))) m = []"
proof -
  let ?p = "pending after m" and ?c = "rev (drop (newest_closed m) (mm_buckets m))"
  have "sorted_wrt (\<lambda>a b. later (b_start a) (b_start b)) (drop (newest_closed m) (mm_buckets m))"
    using assms(1) by (intro sorted_wrt_drop) (simp add: window_ok_def starts_def sorted_wrt_map)
  then have "sorted_wrt (\<lambda>a b. later (b_start b) (b_start a)) ?p"
    unfolding pending_def by (intro sorted_wrt_filter) (simp add: sorted_wrt_rev)
  then have le: "b = last ?p \<or> later (b_start (last ?p)) (b_start b)" if "b \<in> set ?p" for b
    using that assms(2) by (cases ?p rule: rev_cases) (auto simp: sorted_wrt_append)
  have lp: "starts_after (b_start (last ?p)) after"
    using last_in_set [OF assms(2)] by (simp add: pending_def)
  have "\<not> starts_after (b_start b) (Some (b_start (last ?p)))" if b: "b \<in> set ?c" for b
  proof (cases "starts_after (b_start b) after")
    case True
    then have "b \<in> set ?p" using b by (simp add: pending_def)
    from le [OF this] show ?thesis by (auto simp: starts_after_def later_def)
  next
    case False
    then show ?thesis using lp by (auto simp: starts_after_def split: option.splits)
  qed
  then show ?thesis unfolding pending_def by (simp add: filter_empty_conv)
qed

lemma count_list_distinct: "distinct xs \<Longrightarrow> count_list xs x = (if x \<in> set xs then 1 else 0)"
  by (induction xs) auto

lemma exported_once:
  assumes "wstate_ok w" "records_start cls" "b \<in> set (mm_buckets (ws_mgr w))"
  shows "count_list (snd (snd (window_closed_opentelemetry cls now labels (ws_mgr w) (ws_last w) (ws_sent w)))) (b_start b)
    = (if b_read_only b then 1 else 0)"
proof -
  let ?m = "ws_mgr w"
  obtain any last_start sent where e: "window_closed_opentelemetry cls now labels ?m (ws_last w) (ws_sent w) = (any, last_start, sent)"
    by (metis prod_cases3)
  note x = wstate_ok_export [OF assms(1,2) e]
  have d: "distinct sent"
    using x(1) by (intro increasing_distinct) (simp add: wstate_ok_def run_ok_def later_def)
  obtain h t where bs: "mm_buckets ?m = h # t" using assms(3) by (cases "mm_buckets ?m") auto
  have "b_start b \<in> set sent \<longleftrightarrow> b_read_only b"
  proof (cases "b = h \<and> \<not> b_read_only h")
    case True
    then show ?thesis using x(1) bs by (simp add: wstate_ok_def live_window_closed_def starts_def)
  next
    case False
    have "\<forall>b \<in> set t. b_read_only b" using assms(1) bs by (simp add: wstate_ok_def window_ok_def)
    then have "b_read_only b" using False assms(3) bs by auto
    moreover have "b_start b \<in> set (drop (newest_closed ?m) (starts ?m))"
      using False assms(3) by (auto simp: bs newest_closed_def starts_def)
    ultimately show ?thesis using x(2) by auto
  qed
  then show ?thesis using d by (simp add: e count_list_distinct)
qed

text \<open>A class whose output is the list of exported starts, and a configuration without settings, for the witnesses.\<close>

definition start_class :: "(int list, unit, timespec list, unit) bucket_class" where
  "start_class = \<lparr>bc_kll = list_kll, bc_event_rate_info = event_rate_metric, bc_new = (), bc_specialized_merge = (\<lambda>_ _ _ s. s), bc_on_set_read_only = (\<lambda>s. s),
     bc_update_topn_metrics = (\<lambda>_ _ s. s), bc_to_json = (\<lambda>_ _ _ _ j. j), bc_to_prometheus = (\<lambda>_ _ ser. ser),
     bc_to_opentelemetry = (\<lambda>start end_ts labels b scope. scope @ [start])\<rparr>"

definition no_config :: window_config where
  "no_config = \<lparr>cfg_deep_sample_rate = None, cfg_tap_name = None, cfg_num_periods = None, cfg_topn_count = None,
     cfg_topn_percentile_threshold = None\<rparr>"

subsection \<open>Properties\<close>

text \<open>
  C2: Over any sequence of events, period checks, the end of a recorded stream and exports, with any
  time stamps, the exporter sends each closed window at most once, in the order of their starts. After an
  export, whenever it happens, every window that is held and closed, the live one after the end of the stream
  included, has been sent exactly once, and the window that is still open has not been sent.
  A window that leaves the history was sent before, unless as many shifts as the history has
  periods, less one, happened since the last export. The history never exceeds the configured
  number of periods, its starts are ordered, and all but the live bucket are read only.
\<close>

theorem closed_windows_sent_once:
  assumes "wreach cls w" "records_start cls"
  shows "sorted_wrt (\<lambda>a b. tv_sec a < tv_sec b) (ws_sent w)
    \<and> distinct (ws_sent w)
    \<and> (\<forall>b \<in> set (mm_buckets (ws_mgr w)).
         count_list (snd (snd (window_closed_opentelemetry cls now labels (ws_mgr w) (ws_last w) (ws_sent w)))) (b_start b)
           = (if b_read_only b then 1 else 0))
    \<and> (\<not> ws_late w \<longrightarrow> set (ws_expired w) \<subseteq> set (ws_sent w))
    \<and> length (mm_buckets (ws_mgr w)) \<in> {1..mm_num_periods (ws_mgr w)} \<and> mm_num_periods (ws_mgr w) \<le> 10
    \<and> sorted_wrt (\<lambda>a b. tv_sec (b_start b) < tv_sec (b_start a)) (mm_buckets (ws_mgr w))
    \<and> (\<forall>b \<in> set (tl (mm_buckets (ws_mgr w))). b_read_only b)"
proof -
  have ok: "wstate_ok w" by (rule wreach_ok [OF assms])
  then have s: "sorted_wrt (\<lambda>a b. tv_sec a < tv_sec b) (ws_sent w)"
    by (simp add: wstate_ok_def run_ok_def later_def)
  with increasing_distinct [OF s] exported_once [OF ok assms(2)] ok show ?thesis
    by (auto simp: wstate_ok_def run_ok_def window_ok_def starts_def sorted_wrt_map later_def Suc_le_eq)
qed

text \<open>A window that is closed by a shift, the next one closed by the end of the stream, and an export after both.\<close>

definition demo_window :: "(int list, unit, unit) wstate" where
  "demo_window =
     (let w = wstart (new_manager start_class no_config (ts 0 0) (ts 0 0));
          w = wshift (ts 60 0) w (new_event start_class (ts 60 0) (ts 60 0) True (ws_mgr w))
      in w\<lparr>ws_mgr := set_end_tstamp start_class (ts 90 0) (ws_mgr w)\<rparr>)"

theorem closed_windows_sent_once_witness:
  "map b_start (mm_buckets (ws_mgr demo_window)) = [ts 60 0, ts 0 0]
   \<and> (let sent = snd (snd (window_closed_opentelemetry start_class (ts 91 0) [] (ws_mgr demo_window) None [])) in
      count_list sent (ts 60 0) = 1 \<and> count_list sent (ts 0 0) = 1)"
proof -
  have "wreach start_class demo_window"
    unfolding demo_window_def Let_def by (intro wreach.stop wreach.event wreach.init) (simp add: PERIOD_SEC_def)
  moreover have bs: "map b_start (mm_buckets (ws_mgr demo_window)) = [ts 60 0, ts 0 0]" "list_all b_read_only (mm_buckets (ws_mgr demo_window))"
    "ws_last demo_window = None" "ws_sent demo_window = []"
    by (simp_all add: demo_window_def wstart_def wshift_def new_event_def will_shift_def period_shift_def new_manager_def no_config_def
        clamp_num_periods_def clamp_deep_sample_rate_def PERIOD_SEC_def upd_front_def set_end_tstamp_def new_bucket_def Let_def)
  ultimately show ?thesis
    using closed_windows_sent_once [of start_class demo_window "ts 91 0" "[]"]
    by (auto simp: records_start_def start_class_def list_all_iff Let_def)
qed

text \<open>
  One export writes exactly the closed windows that start after the given one, oldest first,
  says whether there was any, and moves the mark so that nothing is left to send; the window that
  \<^verbatim>\<open>next_closed_window_start\<close> announces is the first one written.
\<close>

theorem window_closed_export:
  assumes "window_ok m"
    and "window_closed_opentelemetry cls now labels m last_start scope = (any, last_start', scope')"
  shows "scope' = fold (bucket_opentelemetry cls now labels m) (pending last_start m) scope
    \<and> any = (pending last_start m \<noteq> [])
    \<and> (any \<longrightarrow> next_closed_window_start last_start m = Some (b_start (hd (pending last_start m))))
    \<and> next_closed_window_start last_start' m = None"
proof -
  have next_eq: "next_closed_window_start after m =
      (case pending after m of [] \<Rightarrow> None | b # _ \<Rightarrow> Some (b_start b))" for after
    by (simp add: next_closed_window_start_def next_closed_loop_pending pending_def)
  show ?thesis
  proof (cases "pending last_start m = []")
    case True
    then show ?thesis using assms(2) by (simp add: window_closed_pending next_eq)
  next
    case False
    then show ?thesis
      using assms(2) pending_after_export [OF assms(1) False]
      by (auto simp: window_closed_pending next_eq split: list.split)
  qed
qed

theorem window_closed_export_witness:
  "\<exists>m any last_start sent. window_ok m
    \<and> window_closed_opentelemetry start_class (ts 70 0) [] m None [] = (any, last_start, sent)
    \<and> sent = [ts 0 0] \<and> next_closed_window_start last_start m = None"
proof -
  let ?new = "new_manager start_class no_config (ts 0 0) (ts 0 0)"
  let ?m = "fst (period_shift start_class (ts 60 0) (ts 60 0) ?new)"
  have ok0: "window_ok ?new" by (rule window_ok_new) (simp add: PERIOD_SEC_def)
  have "will_shift (ts 60 0) ?new"
    by (simp add: will_shift_def new_manager_def Let_def no_config_def clamp_num_periods_def PERIOD_SEC_def)
  note ok = window_ok_period_shift [OF ok0 this, of start_class "ts 60 0"]
  have "window_closed_opentelemetry start_class (ts 70 0) [] ?m None [] = (True, Some (ts 0 0), [ts 0 0])"
    by (simp add: window_closed_opentelemetry_def newest_closed_def period_shift_def new_manager_def Let_def
        no_config_def clamp_num_periods_def start_class_def new_bucket_def set_read_only_def starts_after_def
        bucket_opentelemetry_def groups_none_def eval_nat_numeral)
  with window_closed_export [OF ok this] ok show ?thesis by blast
qed

text \<open>
  C21: An event is counted exactly once, in the live bucket, and the window loses no bucket. Without a shift
  the front bucket has one event more and every other bucket is as before; with a shift a new bucket in
  front, which starts at the time stamp of the event, has this one event, and the buckets before it keep
  theirs. A bucket leaves the window only in a shift of a full window, and it is the oldest one.
\<close>

theorem new_event_counts_once:
  assumes "window_ok m"
  shows "let (m', expiring) = new_event cls now stamp sample m; counts = map (\<lambda>b. (b_start b, b_num_events b)) in
    counts (mm_buckets m' @ (case expiring of None \<Rightarrow> [] | Some b \<Rightarrow> [b])) =
      (if will_shift stamp m then (stamp, 1) # counts (mm_buckets m)
       else (b_start (hd (mm_buckets m)), b_num_events (hd (mm_buckets m)) + 1) # counts (tl (mm_buckets m)))
    \<and> (expiring \<noteq> None \<longleftrightarrow> will_shift stamp m \<and> length (mm_buckets m) = mm_num_periods m)"
proof -
  obtain old rest where bs: "mm_buckets m = old # rest" using assms by (cases "mm_buckets m") (auto simp: window_ok_def)
  have len: "length (mm_buckets m) \<le> mm_num_periods m" using assms by (simp add: window_ok_def)
  let ?d = "draw sample m"
  show ?thesis
  proof (cases "will_shift stamp m")
    case True
    have bs': "mm_buckets ?d = old # rest" using bs by simp
    have np: "mm_num_periods m > 1" and w: "will_shift stamp ?d" using True by (simp_all add: will_shift_def)
    from period_shift_buckets [OF bs', where stamp = stamp and cls = cls and now = now] obtain b where
      b: "b_start b = stamp" "b_num_events b = 0" "period_shift cls now stamp ?d =
        (?d\<lparr>mm_buckets := (if Suc (length (mm_buckets m)) > mm_num_periods m
              then butlast (b # set_read_only cls stamp old # rest) else b # set_read_only cls stamp old # rest),
           mm_last_shift := (mm_last_shift ?d)\<lparr>tv_sec := tv_sec stamp\<rparr>,
           mm_next_shift := (mm_next_shift ?d)\<lparr>tv_sec := tv_sec stamp + PERIOD_SEC\<rparr>\<rparr>,
         if Suc (length (mm_buckets m)) > mm_num_periods m then Some (last (set_read_only cls stamp old # rest)) else None)"
      by auto
    define l where "l = set_read_only cls stamp old # rest"
    have l: "l \<noteq> []" "map (\<lambda>b. (b_start b, b_num_events b)) l = map (\<lambda>b. (b_start b, b_num_events b)) (mm_buckets m)"
      by (simp_all add: l_def bs)
    then have split: "map (\<lambda>b. (b_start b, b_num_events b)) (butlast l) @ [(b_start (last l), b_num_events (last l))]
        = map (\<lambda>b. (b_start b, b_num_events b)) (mm_buckets m)"
      by (metis (no_types, lifting) append_butlast_last_id list.simps(8) list.simps(9) map_append)
    have ev: "b_num_events (bucket_new_event deep x) = b_num_events x + 1" for deep and x :: "('a, 'b) bucket"
      by (simp add: bucket_new_event_def)
    show ?thesis
      using w True len np split l b(1,2)
      by (auto simp: new_event_steps check_period_shift_def b(3) upd_front_def ev Let_def simp flip: l_def)
  next
    case False
    then have w: "\<not> will_shift stamp ?d" by (simp add: will_shift_def)
    then show ?thesis using False
      by (simp add: new_event_steps check_period_shift_def upd_front_def bs bucket_new_event_def Let_def)
  qed
qed

theorem new_event_counts_once_witness:
  "let (m', expiring) = new_event start_class (ts 60 0) (ts 60 0) True (new_manager start_class no_config (ts 0 0) (ts 0 0)) in
   map (\<lambda>b. (b_start b, b_num_events b)) (mm_buckets m') = [(ts 60 0, 1), (ts 0 0, 0)]"
proof -
  let ?m = "new_manager start_class no_config (ts 0 0) (ts 0 0)"
  have "window_ok ?m" by (rule window_ok_new) (simp add: PERIOD_SEC_def)
  moreover have "will_shift (ts 60 0) ?m" "mm_num_periods ?m = 5" "length (mm_buckets ?m) = 1" "map (\<lambda>b. (b_start b, b_num_events b)) (mm_buckets ?m) = [(ts 0 0, 0)]"
    by (simp_all add: new_manager_def will_shift_def no_config_def clamp_num_periods_def PERIOD_SEC_def new_bucket_def Let_def)
  ultimately show ?thesis
    using new_event_counts_once [of ?m start_class "ts 60 0" "ts 60 0" True] by (auto simp: case_prod_beta Let_def)
qed

text \<open>
  A merge over several periods takes the newest ones: for two up to the configured number of
  periods, the events and the deep samples of the result are the sums over that many buckets
  (all that are held, if fewer), added to the given bucket if there is one; any other number of
  periods is refused with the valid range.
\<close>

theorem multiple_merge_counts:
  "case multiple_merge cls now ext period m of
     Inl e \<Rightarrow> (unat period < 2 \<or> mm_num_periods m < unat period) \<and> e = Invalid_Period 2 (mm_num_periods m)
   | Inr r \<Rightarrow> 2 \<le> unat period \<and> unat period \<le> mm_num_periods m
       \<and> b_num_events r = (case ext of Some b \<Rightarrow> b_num_events b | None \<Rightarrow> 0)
         + sum_of b_num_events (take (unat period) (mm_buckets m))
       \<and> b_num_samples r = (case ext of Some b \<Rightarrow> b_num_samples b | None \<Rightarrow> 0)
         + sum_of b_num_samples (take (unat period) (mm_buckets m))
       \<and> tv_sec (b_start r) = fold min (map (tv_sec \<circ> b_start) (take (unat period) (mm_buckets m)))
           (case ext of Some b \<Rightarrow> min (tv_sec now) (tv_sec (b_start b)) | None \<Rightarrow> tv_sec now)"
proof -
  have le: "period \<le> 1 \<longleftrightarrow> unat period < 2"
    by (simp add: word_le_nat_alt) linarith
  have n: "b_num_events (new_bucket cls now) = 0" "b_num_samples (new_bucket cls now) = 0" "b_start (new_bucket cls now) = now"
    by (simp_all add: new_bucket_def)
  have fold_min: "fold min xs (min a b) = min (fold min xs a) b" for xs and a b :: int
    by (induction xs arbitrary: a) (simp_all add: min.assoc [symmetric])
  have mw: "b_num_events (merged_window cls now period m) = sum_of b_num_events (take (unat period) (mm_buckets m))"
    "b_num_samples (merged_window cls now period m) = sum_of b_num_samples (take (unat period) (mm_buckets m))"
    "tv_sec (b_start (merged_window cls now period m)) =
       fold min (map (tv_sec \<circ> b_start) (take (unat period) (mm_buckets m))) (tv_sec now)"
    by (simp_all add: merged_window_def merge_loop_take Let_def fold_merge_counts n)
  show ?thesis
  proof (cases "period \<le> 1 \<or> unat period > mm_num_periods m")
    case True
    then show ?thesis unfolding multiple_merge_def using le by auto
  next
    case False
    then have r: "2 \<le> unat period" "unat period \<le> mm_num_periods m" using le by auto
    show ?thesis
    proof (cases ext)
      case None
      with False r mw show ?thesis unfolding multiple_merge_def by simp
    next
      case (Some b)
      with False r mw show ?thesis
        unfolding multiple_merge_def by (simp add: bucket_merge_fields fold_min)
    qed
  qed
qed

end
