(* ===== verification/Subnets.thy ===== *)
theory Subnets
  imports Prelude
begin

text \<open>
  Host subnets (\<^verbatim>\<open>src/libs/visor_utils/utils.cpp\<close>): parsing of host specifications, matching of addresses
  against subnet lists, netmasks and prefix lengths.

  An IPv4 address is the 32 bit integer \<^verbatim>\<open>s_addr\<close>, which holds the address in network byte order on a
  little-endian machine; \<open>bswap32\<close> is \<^verbatim>\<open>htobe32\<close> there. An IPv6 address is its 16 bytes. A shift by the
  width of the type or more is undefined in C++ and gives \<^term>\<open>None\<close>. The conversions between text and
  address of the C library (\<^verbatim>\<open>inet_pton\<close>, \<^verbatim>\<open>inet_ntop\<close>) are parameters.
\<close>

unbundle bit_operations_syntax

subsection \<open>The code\<close>

record 'a subnet =
  sn_addr :: 'a
  sn_cidr :: nat
  sn_str :: string

type_synonym ipv4 = u32
type_synonym ipv6 = "byte list"

definition bswap32 :: "u32 \<Rightarrow> u32" where
  "bswap32 w =
     push_bit 24 (take_bit 8 w) OR push_bit 16 (take_bit 8 (drop_bit 8 w))
     OR push_bit 8 (take_bit 8 (drop_bit 16 w)) OR take_bit 8 (drop_bit 24 w)"

definition get_subnet4 :: "u32 \<Rightarrow> nat \<Rightarrow> u32 option" where
  "get_subnet4 addr cidr =
     (if cidr = 0 \<or> cidr > 32 then None
      else Some (addr AND bswap32 (push_bit (32 - cidr) 0xFFFFFFFF)))"

text \<open>The result is the position of the first match; the outer \<^term>\<open>None\<close> is undefined behaviour.\<close>

fun match_subnet4_loop :: "ipv4 subnet list \<Rightarrow> nat \<Rightarrow> u32 \<Rightarrow> nat option option" where
  "match_subnet4_loop [] i v = Some None"
| "match_subnet4_loop (s # ss) i v =
     (if sn_cidr s = 0 then Some (Some i)
      else
        (case get_subnet4 (v XOR sn_addr s) (sn_cidr s) of
           None \<Rightarrow> None
         | Some n \<Rightarrow> if n = 0 then Some (Some i) else match_subnet4_loop ss (i + 1) v))"

definition match_subnet4 :: "ipv4 subnet list \<Rightarrow> u32 \<Rightarrow> nat option option" where
  "match_subnet4 ipv4_list v =
     (if v \<noteq> 0 \<and> ipv4_list \<noteq> [] then match_subnet4_loop ipv4_list 0 v else Some None)"

definition match_one6 :: "ipv6 \<Rightarrow> nat \<Rightarrow> ipv6 \<Rightarrow> bool" where
  "match_one6 network prefixLength ip =
     (let compareByteCount = prefixLength div 8;
          compareBitCount = prefixLength mod 8;
          result = (if compareByteCount > 0 then take compareByteCount network = take compareByteCount ip else False)
      in if (result \<or> prefixLength < 8) \<and> compareBitCount > 0 then
           drop_bit (8 - compareBitCount) (network ! compareByteCount)
             = drop_bit (8 - compareBitCount) (ip ! compareByteCount)
         else result)"

fun match_subnet6_loop :: "ipv6 subnet list \<Rightarrow> nat \<Rightarrow> ipv6 \<Rightarrow> nat option" where
  "match_subnet6_loop [] i ip = None"
| "match_subnet6_loop (s # ss) i ip =
     (if match_one6 (sn_addr s) (sn_cidr s) ip then Some i else match_subnet6_loop ss (i + 1) ip)"

definition match_subnet6 :: "ipv6 subnet list \<Rightarrow> ipv6 \<Rightarrow> nat option" where
  "match_subnet6 ipv6_list ip = (if ipv6_list \<noteq> [] then match_subnet6_loop ipv6_list 0 ip else None)"

text \<open>The conversions of the packet library decide which of the two lists a textual address is matched against.\<close>

definition match_subnet_str ::
  "(string \<Rightarrow> u32 option) \<Rightarrow> (string \<Rightarrow> ipv6 option) \<Rightarrow> ipv4 subnet list \<Rightarrow> ipv6 subnet list \<Rightarrow> string \<Rightarrow> bool option" where
  "match_subnet_str to_v4 to_v6 ipv4_list ipv6_list ip_val =
     (case to_v4 ip_val of
        Some v \<Rightarrow> map_option (\<lambda>r. r \<noteq> None) (match_subnet4 ipv4_list v)
      | None \<Rightarrow>
          (case to_v6 ip_val of
             Some v \<Rightarrow> Some (match_subnet6 ipv6_list v \<noteq> None)
           | None \<Rightarrow> Some False))"

function get_cidr4 :: "u32 \<Rightarrow> nat" where
  "get_cidr4 m = (if m > 0 then get_cidr4 (drop_bit 1 m) + 1 else 0)"
  by pat_completeness auto
termination
proof (relation "measure unat")
  fix m :: u32
  assume "m > 0"
  then have "0 < unat m" by (simp add: word_less_nat_alt)
  then show "(drop_bit 1 m, m) \<in> measure unat" 
    by (simp only: in_measure unat_drop_bit_eq) (simp add: drop_bit_eq_div)
qed simp

function bit_count :: "byte \<Rightarrow> nat" where
  "bit_count b = (if b \<noteq> 0 then bit_count (drop_bit 1 b) + 1 else 0)"
  by pat_completeness auto
termination
proof (relation "measure unat")
  fix b :: byte
  assume "b \<noteq> 0"
  then have "0 < unat b" by (simp add: unat_gt_0)
  then show "(drop_bit 1 b, b) \<in> measure unat" 
    by (simp only: in_measure unat_drop_bit_eq) (simp add: drop_bit_eq_div)
qed simp

declare get_cidr4.simps [simp del] bit_count.simps [simp del]

text \<open>The loop over the bytes of a mask shifts each one out; it leaves zeros in the caller's array.\<close>

definition get_cidr6 :: "byte list \<Rightarrow> nat \<times> byte list" where
  "get_cidr6 addr = (fold (\<lambda>b n. n + bit_count b) addr 0, map (\<lambda>_. 0) addr)"

definition reverse_bits :: "nat \<Rightarrow> byte" where
  "reverse_bits n = [0, 128, 192, 224, 240, 248, 252, 254, 255] ! n"

definition get_subnet6 :: "ipv6 \<Rightarrow> nat \<Rightarrow> ipv6" where
  "get_subnet6 addr cidr =
     (let byte_count = cidr div 8; bits = cidr mod 8
      in map (\<lambda>b. if b > byte_count then 0
                  else if b = byte_count \<and> bits \<noteq> 0 then (addr ! b) AND reverse_bits bits
                  else if b = byte_count then 0
                  else addr ! b) [0..<16])"

datatype utils_error =
  Invalid_CIDR string | Invalid_IPv6 string | Invalid_IPv4 string | Stoi_Invalid_Argument | Stoi_Out_Of_Range

definition digit_val :: "char \<Rightarrow> nat" where
  "digit_val c = of_char c - 48"

definition is_dec :: "char \<Rightarrow> bool" where
  "is_dec c \<longleftrightarrow> 48 \<le> (of_char c :: nat) \<and> (of_char c :: nat) \<le> 57"

text \<open>\<^verbatim>\<open>std::stoi\<close> on a string of decimal digits.\<close>

definition stoi :: "string \<Rightarrow> utils_error + nat" where
  "stoi s =
     (if s = [] then Inl Stoi_Invalid_Argument
      else
        let n = fold (\<lambda>c n. n * 10 + digit_val c) s 0
        in if n > 2147483647 then Inl Stoi_Out_Of_Range else Inr n)"

type_synonym subnet_lists = "ipv4 subnet list \<times> ipv6 subnet list"

definition parse_host_spec ::
  "(string \<Rightarrow> u32 option) \<Rightarrow> (string \<Rightarrow> ipv6 option) \<Rightarrow> string \<Rightarrow> subnet_lists \<Rightarrow> utils_error + subnet_lists" where
  "parse_host_spec pton4 pton6 host acc =
     (let ip = takeWhile (\<lambda>c. c \<noteq> CHR ''/'') host;
          rest = dropWhile (\<lambda>c. c \<noteq> CHR ''/'') host
      in if rest = [] then Inl (Invalid_CIDR host)
         else
           let cidr = tl rest in
           if list_ex (\<lambda>c. \<not> is_dec c) cidr then Inl (Invalid_CIDR host)
           else
             (case stoi cidr of
                Inl e \<Rightarrow> Inl e
              | Inr cidr_number \<Rightarrow>
                  if CHR '':'' \<in> set ip then
                    if cidr_number > 128 then Inl (Invalid_CIDR host)
                    else
                      (case pton6 ip of
                         None \<Rightarrow> Inl (Invalid_IPv6 ip)
                       | Some a \<Rightarrow>
                           Inr (fst acc, snd acc @ [\<lparr>sn_addr = a, sn_cidr = cidr_number, sn_str = host\<rparr>]))
                  else if cidr_number > 32 then Inl (Invalid_CIDR host)
                  else
                    (case pton4 ip of
                       None \<Rightarrow> Inl (Invalid_IPv4 ip)
                     | Some a \<Rightarrow>
                         Inr (fst acc @ [\<lparr>sn_addr = a, sn_cidr = cidr_number, sn_str = host\<rparr>], snd acc))))"

text \<open>An exception leaves the lists with the hosts that were parsed before it.\<close>

fun parse_host_specs ::
  "(string \<Rightarrow> u32 option) \<Rightarrow> (string \<Rightarrow> ipv6 option) \<Rightarrow> string list \<Rightarrow> subnet_lists \<Rightarrow> subnet_lists \<times> utils_error option"
where
  "parse_host_specs pton4 pton6 [] acc = (acc, None)"
| "parse_host_specs pton4 pton6 (host # hosts) acc =
     (case parse_host_spec pton4 pton6 host acc of
        Inl e \<Rightarrow> (acc, Some e)
      | Inr acc' \<Rightarrow> parse_host_specs pton4 pton6 hosts acc')"

definition append_subnets ::
  "('a \<Rightarrow> string option) \<Rightarrow> (nat \<Rightarrow> string) \<Rightarrow> ('a \<times> nat) list \<Rightarrow> 'a subnet list \<Rightarrow> 'a subnet list" where
  "append_subnets ntop dec addrs l =
     fold (\<lambda>(addr, prefix) l.
       case ntop addr of
         None \<Rightarrow> l
       | Some buf \<Rightarrow> l @ [\<lparr>sn_addr = addr, sn_cidr = prefix, sn_str = buf @ ''/'' @ dec prefix\<rparr>]) addrs l"

definition append_interface_host_subnets ::
  "(u32 \<Rightarrow> string option) \<Rightarrow> (ipv6 \<Rightarrow> string option) \<Rightarrow> (nat \<Rightarrow> string) \<Rightarrow> bool
     \<Rightarrow> (u32 \<times> nat) list \<Rightarrow> (ipv6 \<times> nat) list \<Rightarrow> subnet_lists \<Rightarrow> subnet_lists"
where
  "append_interface_host_subnets ntop4 ntop6 dec host_set_provided v4_addrs v6_addrs acc =
     (if host_set_provided then acc
      else (append_subnets ntop4 dec v4_addrs (fst acc), append_subnets ntop6 dec v6_addrs (snd acc)))"

text \<open>\<^verbatim>\<open>std::getline\<close> up to the delimiter, until nothing is left.\<close>

function split_str_to_vec_str :: "string \<Rightarrow> char \<Rightarrow> string list" where
  "split_str_to_vec_str s d =
     (if s = [] then []
      else takeWhile (\<lambda>c. c \<noteq> d) s # split_str_to_vec_str (tl (dropWhile (\<lambda>c. c \<noteq> d) s)) d)"
  by pat_completeness auto
termination
proof (relation "measure (\<lambda>(s, d). length s)")
  fix s :: string and d
  assume "s \<noteq> []"
  then show "((tl (dropWhile (\<lambda>c. c \<noteq> d) s), d), s, d) \<in> measure (\<lambda>(s, d). length s)"
    using length_dropWhile_le [of "\<lambda>c. c \<noteq> d" s] by (cases s) auto
qed simp

declare split_str_to_vec_str.simps [simp del]

subsection \<open>Reference definitions\<close>

text \<open>The bits of an address, most significant first, and agreement of a prefix.\<close>

definition bits4 :: "ipv4 \<Rightarrow> bool list" where
  "bits4 a = map (\<lambda>i. bit (bswap32 a) (31 - i)) [0..<32]"

definition bits6 :: "ipv6 \<Rightarrow> bool list" where
  "bits6 a = map (\<lambda>i. bit (a ! (i div 8)) (7 - i mod 8)) [0..<8 * length a]"

definition first_index :: "('a \<Rightarrow> bool) \<Rightarrow> 'a list \<Rightarrow> nat option" where
  "first_index P xs = (if \<exists>x \<in> set xs. P x then Some (length (takeWhile (\<lambda>x. \<not> P x) xs)) else None)"

subsection \<open>Byte order\<close>

lemma bit_bswap32:
  "bit (bswap32 w) n \<longleftrightarrow>
     (if n < 8 then bit w (24 + n) else if n < 16 then bit w (8 + n)
      else if n < 24 then bit w (n - 8) else n < 32 \<and> bit w (n - 24))"
proof -
  have "bit w k \<Longrightarrow> k < 32" for k using bit_imp_le_length [of w k] by simp
  then show ?thesis
    unfolding bswap32_def by (auto simp: bit_simps not_less le_diff_conv)
qed

lemma bswap32_bitwise:
  "bswap32 (a AND b) = bswap32 a AND bswap32 b" "bswap32 (a XOR b) = bswap32 a XOR bswap32 b"
  by (rule bit_eqI, simp add: bit_bswap32 bit_simps)+

lemma bswap32_bswap32 [simp]: "bswap32 (bswap32 w) = w"
proof (rule bit_word_eqI)
  fix n
  assume "n < LENGTH(32)"
  then consider "n < 8" | "8 \<le> n" "n < 16" | "16 \<le> n" "n < 24" | "24 \<le> n" "n < 32"
    by (simp add: not_less) linarith
  then show "bit (bswap32 (bswap32 w)) n = bit w n"
  proof cases
    case 3
    then have "\<not> n - 8 < 8" "n - 8 < 16" by linarith+
    with 3 show ?thesis by (simp add: bit_bswap32)
  next
    case 4
    then have "n - 24 < 8" by linarith
    with 4 show ?thesis by (simp add: bit_bswap32)
  qed (simp_all add: bit_bswap32)
qed

lemma bswap32_0 [simp]: "bswap32 w = 0 \<longleftrightarrow> w = 0"
proof
  assume "bswap32 w = 0"
  then have "bswap32 (bswap32 w) = bswap32 0" by (simp only:)
  then show "w = 0" unfolding bswap32_bswap32 by (simp add: bswap32_def)
qed (simp add: bswap32_def)

lemma drop_bit_eq_iff:
  fixes x y :: "'a::len word"
  assumes "c \<le> LENGTH('a)"
  shows "drop_bit (LENGTH('a) - c) x = drop_bit (LENGTH('a) - c) y
    \<longleftrightarrow> (\<forall>i < c. bit x (LENGTH('a) - 1 - i) = bit y (LENGTH('a) - 1 - i))"
proof -
  have "drop_bit (LENGTH('a) - c) x = drop_bit (LENGTH('a) - c) y
    \<longleftrightarrow> (\<forall>n < c. bit x (LENGTH('a) - c + n) = bit y (LENGTH('a) - c + n))"
  proof
    assume "drop_bit (LENGTH('a) - c) x = drop_bit (LENGTH('a) - c) y"
    then have "bit (drop_bit (LENGTH('a) - c) x) n = bit (drop_bit (LENGTH('a) - c) y) n" for n by simp
    then show "\<forall>n < c. bit x (LENGTH('a) - c + n) = bit y (LENGTH('a) - c + n)"
      by (simp add: bit_drop_bit_eq)
  next
    assume eq: "\<forall>n < c. bit x (LENGTH('a) - c + n) = bit y (LENGTH('a) - c + n)"
    show "drop_bit (LENGTH('a) - c) x = drop_bit (LENGTH('a) - c) y"
    proof (rule bit_eqI)
      fix n
      show "bit (drop_bit (LENGTH('a) - c) x) n = bit (drop_bit (LENGTH('a) - c) y) n"
      proof (cases "n < c")
        case True
        then show ?thesis using eq by (simp add: bit_drop_bit_eq)
      next
        case False
        then have "\<not> LENGTH('a) - c + n < LENGTH('a)" using assms by simp
        then have "\<not> bit x (LENGTH('a) - c + n)" "\<not> bit y (LENGTH('a) - c + n)"
          using bit_imp_le_length by blast+
        then show ?thesis by (simp add: bit_drop_bit_eq)
      qed
    qed
  qed
  also have "\<dots> \<longleftrightarrow> (\<forall>i < c. bit x (LENGTH('a) - 1 - i) = bit y (LENGTH('a) - 1 - i))"
  proof -
    have "LENGTH('a) - c + (c - 1 - i) = LENGTH('a) - 1 - i" if "i < c" for i using that assms by simp
    moreover have "LENGTH('a) - 1 - (c - 1 - n) = LENGTH('a) - c + n" if "n < c" for n using that assms by simp
    moreover have "c - 1 - i < c" if "i < c" for i using that by simp
    ultimately show ?thesis by metis
  qed
  finally show ?thesis .
qed

lemma take_map_upt_eq:
  "c \<le> n \<Longrightarrow> take c (map f [0..<n]) = take c (map g [0..<n]) \<longleftrightarrow> (\<forall>i < c. f i = g i)"
  by (auto simp: take_map)

lemma prefix4_iff:
  assumes "0 < c" "c \<le> 32"
  shows "get_subnet4 (v XOR a) c = Some 0 \<longleftrightarrow> take c (bits4 v) = take c (bits4 a)"
proof -
  have ones: "(0xFFFFFFFF :: u32) = - 1" by simp
  have g: "get_subnet4 x c = Some (x AND bswap32 (push_bit (32 - c) (- 1)))" for x
    unfolding get_subnet4_def ones by (rule if_not_P) (use assms in linarith)
  have and0: "x AND push_bit k (- 1) = 0 \<longleftrightarrow> drop_bit k x = 0" for x :: u32 and k
  proof
    assume z: "x AND push_bit k (- 1) = 0"
    show "drop_bit k x = 0"
    proof (rule bit_eqI)
      fix n
      have "bit (x AND push_bit k (- 1)) (k + n) = bit (0 :: u32) (k + n)" by (simp only: z)
      moreover have "bit x (k + n) \<Longrightarrow> k + n < 32" using bit_imp_le_length [of x "k + n"] by simp
      ultimately show "bit (drop_bit k x) n = bit 0 n" by (auto simp: bit_simps)
    qed
  next
    assume z: "drop_bit k x = 0"
    show "x AND push_bit k (- 1) = 0"
    proof (rule bit_eqI)
      fix n
      have "bit (drop_bit k x) (n - k) = bit (0 :: u32) (n - k)" by (simp only: z)
      then show "bit (x AND push_bit k (- 1)) n = bit 0 n" by (cases "k \<le> n") (auto simp: bit_simps)
    qed
  qed
  have xz: "x XOR y = 0 \<longleftrightarrow> x = y" for x y :: u32
  proof
    assume "x XOR y = 0"
    then have "(x XOR y) XOR y = y" by simp
    then show "x = y" by (simp add: xor.assoc)
  qed simp
  have xor0: "drop_bit k (x XOR y) = 0 \<longleftrightarrow> drop_bit k x = drop_bit k y" for x y :: u32 and k
    unfolding drop_bit_xor by (rule xz)
  have "get_subnet4 (v XOR a) c = Some 0 \<longleftrightarrow> bswap32 ((v XOR a) AND bswap32 (push_bit (32 - c) (- 1))) = 0"
    unfolding g bswap32_0 by (simp only: option.inject)
  also have "\<dots> \<longleftrightarrow> drop_bit (32 - c) (bswap32 v) = drop_bit (32 - c) (bswap32 a)"
    by (simp only: bswap32_bitwise bswap32_bswap32 and0 xor0)
  also have "\<dots> \<longleftrightarrow> take c (bits4 v) = take c (bits4 a)"
    using drop_bit_eq_iff [of c "bswap32 v" "bswap32 a"] assms by (simp add: bits4_def take_map_upt_eq)
  finally show ?thesis .
qed

lemma match_subnet4_loop_index:
  assumes "\<forall>s \<in> set ss. sn_cidr s \<le> 32"
  shows "match_subnet4_loop ss i v =
    Some (map_option ((+) i) (first_index (\<lambda>s. take (sn_cidr s) (bits4 v) = take (sn_cidr s) (bits4 (sn_addr s))) ss))"
  using assms
proof (induction ss arbitrary: i)
  case Nil
  show ?case by (simp add: first_index_def)
next
  case (Cons s ss)
  let ?P = "\<lambda>s. take (sn_cidr s) (bits4 v) = take (sn_cidr s) (bits4 (sn_addr s))"
  have c: "sn_cidr s \<le> 32" using Cons.prems by simp
  show ?case
  proof (cases "?P s")
    case True
    then show ?thesis
      using prefix4_iff [of "sn_cidr s" v "sn_addr s"] c by (auto simp: first_index_def)
  next
    case False
    then have c0: "sn_cidr s \<noteq> 0" by (metis take_0)
    then obtain n where n: "get_subnet4 (v XOR sn_addr s) (sn_cidr s) = Some n"
      using c by (simp add: get_subnet4_def)
    moreover have "n \<noteq> 0" using prefix4_iff [of "sn_cidr s" v "sn_addr s"] c c0 n False by auto
    ultimately show ?thesis using False c0 Cons by (auto simp: first_index_def)
  qed
qed

subsection \<open>IPv6\<close>

lemma byte_eq_iff: "a = b \<longleftrightarrow> (\<forall>k < 8. bit a (7 - k) = bit b (7 - k))" for a b :: byte
  using drop_bit_eq_iff [of 8 a b] by simp

lemma byte_prefix_iff:
  "0 < r \<Longrightarrow> r < 8 \<Longrightarrow> drop_bit (8 - r) a = drop_bit (8 - r) b \<longleftrightarrow> (\<forall>k < r. bit a (7 - k) = bit b (7 - k))"
  for a b :: byte
  using drop_bit_eq_iff [of r a b] by simp

lemma all_bits_split:
  "(\<forall>i < 8 * q + r. P (i div 8) (i mod 8)) \<longleftrightarrow> (\<forall>j < q. \<forall>k < 8. P j k) \<and> (\<forall>k < r. P q k)"
  if "r < 8" for q r :: nat
proof
  assume all: "\<forall>i < 8 * q + r. P (i div 8) (i mod 8)"
  have "P j k" if "j < q" "k < 8" for j k
    using all [rule_format, of "8 * j + k"] that by simp
  moreover have "P q k" if "k < r" for k
    using all [rule_format, of "8 * q + k"] that \<open>r < 8\<close> by simp
  ultimately show "(\<forall>j < q. \<forall>k < 8. P j k) \<and> (\<forall>k < r. P q k)" by blast
next
  assume split: "(\<forall>j < q. \<forall>k < 8. P j k) \<and> (\<forall>k < r. P q k)"
  show "\<forall>i < 8 * q + r. P (i div 8) (i mod 8)"
  proof (intro allI impI)
    fix i
    assume i: "i < 8 * q + r"
    show "P (i div 8) (i mod 8)"
    proof (cases "i div 8 < q")
      case True
      then show ?thesis using split by simp
    next
      case False
      then have "i div 8 = q" using i that by linarith
      moreover have "i = 8 * (i div 8) + i mod 8" by simp
      ultimately have "i div 8 = q" "i mod 8 < r" using i by linarith+
      then show ?thesis using split by simp
    qed
  qed
qed

lemma prefix6_bits:
  assumes "length a = 16" "length b = 16" "c \<le> 128"
  shows "take c (bits6 a) = take c (bits6 b)
    \<longleftrightarrow> take (c div 8) a = take (c div 8) b \<and> (\<forall>k < c mod 8. bit (a ! (c div 8)) (7 - k) = bit (b ! (c div 8)) (7 - k))"
proof -
  have "take c (bits6 a) = take c (bits6 b)
      \<longleftrightarrow> (\<forall>i < c. bit (a ! (i div 8)) (7 - i mod 8) = bit (b ! (i div 8)) (7 - i mod 8))"
    using assms by (simp add: bits6_def take_map_upt_eq)
  also have "\<dots> \<longleftrightarrow> (\<forall>j < c div 8. \<forall>k < 8. bit (a ! j) (7 - k) = bit (b ! j) (7 - k))
      \<and> (\<forall>k < c mod 8. bit (a ! (c div 8)) (7 - k) = bit (b ! (c div 8)) (7 - k))"
    using all_bits_split [of "c mod 8" "c div 8" "\<lambda>j k. bit (a ! j) (7 - k) = bit (b ! j) (7 - k)"] by simp
  also have "(\<forall>j < c div 8. \<forall>k < 8. bit (a ! j) (7 - k) = bit (b ! j) (7 - k)) \<longleftrightarrow> take (c div 8) a = take (c div 8) b"
    using assms unfolding byte_eq_iff [symmetric] by (auto simp: list_eq_iff_nth_eq)
  finally show ?thesis .
qed

lemma match_one6_iff:
  assumes "length a = 16" "length b = 16" "c \<le> 128"
  shows "match_one6 a c b \<longleftrightarrow> c \<noteq> 0 \<and> take c (bits6 a) = take c (bits6 b)"
proof -
  have lt8: "c < 8 \<longleftrightarrow> c div 8 = 0" by auto
  have z: "c = 0 \<longleftrightarrow> c div 8 = 0 \<and> c mod 8 = 0" by presburger
  note pb = prefix6_bits [OF assms]
  show ?thesis
  proof (cases "c mod 8 = 0")
    case True
    then show ?thesis unfolding match_one6_def Let_def pb lt8 z by simp
  next
    case False
    then have "drop_bit (8 - c mod 8) (a ! (c div 8)) = drop_bit (8 - c mod 8) (b ! (c div 8))
      \<longleftrightarrow> (\<forall>k < c mod 8. bit (a ! (c div 8)) (7 - k) = bit (b ! (c div 8)) (7 - k))"
      by (intro byte_prefix_iff) auto
    then show ?thesis unfolding match_one6_def Let_def pb lt8 z using False by (cases "c div 8 = 0") simp_all
  qed
qed

lemma match_subnet6_loop_index:
  assumes "length ip = 16" "\<forall>s \<in> set ss. sn_cidr s \<le> 128 \<and> length (sn_addr s) = 16"
  shows "match_subnet6_loop ss i ip =
    map_option ((+) i) (first_index (\<lambda>s. sn_cidr s \<noteq> 0 \<and> take (sn_cidr s) (bits6 ip) = take (sn_cidr s) (bits6 (sn_addr s))) ss)"
  using assms(2)
proof (induction ss arbitrary: i)
  case Nil
  show ?case by (simp add: first_index_def)
next
  case (Cons s ss)
  have "match_one6 (sn_addr s) (sn_cidr s) ip \<longleftrightarrow>
      sn_cidr s \<noteq> 0 \<and> take (sn_cidr s) (bits6 ip) = take (sn_cidr s) (bits6 (sn_addr s))"
    using match_one6_iff [of "sn_addr s" ip "sn_cidr s"] assms(1) Cons.prems by auto
  then show ?case using Cons by (auto simp: first_index_def)
qed

lemma bit_reverse_bits: "r < 8 \<Longrightarrow> k < 8 \<Longrightarrow> bit (reverse_bits r) (7 - k) \<longleftrightarrow> k < r"
proof -
  have "\<forall>r \<in> set [0..<8]. \<forall>k \<in> set [0..<8]. bit (reverse_bits r) (7 - k) \<longleftrightarrow> k < r"
    unfolding reverse_bits_def by code_simp
  then show "r < 8 \<Longrightarrow> k < 8 \<Longrightarrow> bit (reverse_bits r) (7 - k) \<longleftrightarrow> k < r" by simp
qed

lemma get_subnet6_bits:
  assumes "length a = 16" "c \<le> 128"
  shows "bits6 (get_subnet6 a c) = take c (bits6 a) @ replicate (128 - c) False"
proof (rule nth_equalityI)
  show "length (bits6 (get_subnet6 a c)) = length (take c (bits6 a) @ replicate (128 - c) False)"
    using assms by (simp add: bits6_def get_subnet6_def Let_def)
  fix i
  assume "i < length (bits6 (get_subnet6 a c))"
  then have i: "i < 128" by (simp add: bits6_def get_subnet6_def Let_def)
  then have j: "i div 8 < 16" by auto
  have lhs: "bits6 (get_subnet6 a c) ! i =
    bit (if i div 8 > c div 8 then 0
         else if i div 8 = c div 8 \<and> c mod 8 \<noteq> 0 then (a ! (i div 8)) AND reverse_bits (c mod 8)
         else if i div 8 = c div 8 then 0 else a ! (i div 8)) (7 - i mod 8)"
    using i j by (simp add: bits6_def get_subnet6_def Let_def)
  have rhs: "(take c (bits6 a) @ replicate (128 - c) False) ! i = (i < c \<and> bit (a ! (i div 8)) (7 - i mod 8))"
    using i assms by (simp add: bits6_def nth_append min_def)
  consider "i div 8 > c div 8" | "i div 8 = c div 8" | "i div 8 < c div 8" by linarith
  then show "bits6 (get_subnet6 a c) ! i = (take c (bits6 a) @ replicate (128 - c) False) ! i"
  proof cases
    case 1
    then have "\<not> i < c" by (metis div_le_mono linorder_not_le less_imp_le)
    with 1 show ?thesis unfolding lhs rhs by simp
  next
    case 2
    then have "i < c \<longleftrightarrow> i mod 8 < c mod 8" by (metis div_mult_mod_eq nat_add_left_cancel_less)
    then show ?thesis
      unfolding lhs rhs using 2 bit_reverse_bits [of "c mod 8" "i mod 8"] by (auto simp: bit_and_iff)
  next
    case 3
    then have "i < c" by (metis div_le_mono linorder_not_le)
    with 3 show ?thesis unfolding lhs rhs by simp
  qed
qed

subsection \<open>Netmasks\<close>

text \<open>The mask of a prefix length as the interface reports it: the first bits set, in network byte order.\<close>

definition netmask4 :: "nat \<Rightarrow> u32" where
  "netmask4 n = bswap32 (push_bit (32 - n) 0xFFFFFFFF)"

lemma get_cidr4_top:
  assumes "bit m k" "\<forall>j > k. \<not> bit m j"
  shows "get_cidr4 m = Suc k"
  using assms
proof (induction k arbitrary: m)
  case 0
  have "drop_bit 1 m = 0" using 0 by (intro bit_eqI) (simp add: bit_drop_bit_eq)
  moreover have "m > 0" using 0 by (auto simp: word_gt_0)
  moreover have "get_cidr4 0 = 0" by (simp add: get_cidr4.simps)
  ultimately show ?case by (simp add: get_cidr4.simps [of m])
next
  case (Suc k)
  have "get_cidr4 (drop_bit 1 m) = Suc k"
    by (rule Suc.IH) (use Suc.prems in \<open>simp_all add: bit_drop_bit_eq\<close>)
  moreover have "m > 0" using Suc by (auto simp: word_gt_0)
  ultimately show ?case by (simp add: get_cidr4.simps [of m])
qed

lemma get_cidr4_netmask:
  assumes "n \<le> 32"
  shows "get_cidr4 (netmask4 n) = 8 * ((n + 7) div 8)"
proof (cases "n = 0")
  case True
  have "netmask4 0 = 0" unfolding netmask4_def by (simp add: bswap32_def)
  then show ?thesis using True by (simp add: get_cidr4.simps)
next
  case False
  have ones: "(0xFFFFFFFF :: u32) = - 1" by simp
  have b: "bit (netmask4 n) j \<longleftrightarrow> j < 32 \<and>
      (if j < 8 then 32 - n \<le> 24 + j else if j < 16 then 32 - n \<le> 8 + j
       else if j < 24 then 32 - n \<le> j - 8 else 32 - n \<le> j - 24)" for j
    unfolding netmask4_def ones by (auto simp: bit_bswap32 bit_simps)
  define q where "q = (n + 7) div 8"
  have q: "8 * q < n + 8" "n \<le> 8 * q" "1 \<le> q" "q \<le> 4" using assms False by (auto simp: q_def)
  from q consider "q = 1" | "q = 2" | "q = 3" | "q = 4" by linarith
  then have top: "bit (netmask4 n) (8 * q - 1)"
    by cases (use q in \<open>simp_all add: b\<close>)
  from q consider "q = 1" | "q = 2" | "q = 3" | "q = 4" by linarith
  then have rest: "\<forall>j > 8 * q - 1. \<not> bit (netmask4 n) j"
    by cases (use q in \<open>auto simp: b\<close>)
  show ?thesis using get_cidr4_top [OF top rest] q by (simp add: q_def [symmetric])
qed

subsection \<open>Host specifications\<close>

definition lists_ok :: "subnet_lists \<Rightarrow> bool" where
  "lists_ok l \<longleftrightarrow> (\<forall>s \<in> set (fst l). sn_cidr s \<le> 32) \<and> (\<forall>s \<in> set (snd l). sn_cidr s \<le> 128 \<and> length (sn_addr s) = 16)"

text \<open>
  What a host of the configuration means: an address, a slash and a decimal prefix length, at most 32 for the addresses
  that the socket library reads as IPv4 and at most 128 for those with a colon, which it reads as IPv6.
\<close>

definition dec_value :: "string \<Rightarrow> nat" where
  "dec_value ds = fold (\<lambda>c n. n * 10 + digit_val c) ds 0"

inductive host_subnet ::
  "(string \<Rightarrow> u32 option) \<Rightarrow> (string \<Rightarrow> ipv6 option) \<Rightarrow> string \<Rightarrow> ipv4 subnet + ipv6 subnet \<Rightarrow> bool"
  for pton4 pton6
where
  host4: "CHR ''/'' \<notin> set ip \<Longrightarrow> CHR '':'' \<notin> set ip \<Longrightarrow> pton4 ip = Some a \<Longrightarrow> ds \<noteq> [] \<Longrightarrow> list_all is_dec ds \<Longrightarrow> dec_value ds \<le> 32 \<Longrightarrow>
    host_subnet pton4 pton6 (ip @ CHR ''/'' # ds) (Inl \<lparr>sn_addr = a, sn_cidr = dec_value ds, sn_str = ip @ CHR ''/'' # ds\<rparr>)"
| host6: "CHR ''/'' \<notin> set ip \<Longrightarrow> CHR '':'' \<in> set ip \<Longrightarrow> pton6 ip = Some a \<Longrightarrow> ds \<noteq> [] \<Longrightarrow> list_all is_dec ds \<Longrightarrow> dec_value ds \<le> 128 \<Longrightarrow>
    host_subnet pton4 pton6 (ip @ CHR ''/'' # ds) (Inr \<lparr>sn_addr = a, sn_cidr = dec_value ds, sn_str = ip @ CHR ''/'' # ds\<rparr>)"

inductive_simps host_subnet_simps: "host_subnet pton4 pton6 host s"

definition add_subnets :: "(ipv4 subnet + ipv6 subnet) list \<Rightarrow> subnet_lists \<Rightarrow> subnet_lists" where
  "add_subnets ss l =
     (fst l @ List.map_filter (case_sum Some (\<lambda>_. None)) ss, snd l @ List.map_filter (case_sum (\<lambda>_. None) Some) ss)"

lemma add_subnets_simps [simp]:
  "add_subnets [] l = l"
  "add_subnets (Inl s # ss) l = add_subnets ss (fst l @ [s], snd l)"
  "add_subnets (Inr t # ss) l = add_subnets ss (fst l, snd l @ [t])"
  by (simp_all add: add_subnets_def map_filter_simps)

lemma slash_split:
  "CHR ''/'' \<notin> set ip \<Longrightarrow>
   takeWhile (\<lambda>c. c \<noteq> CHR ''/'') (ip @ CHR ''/'' # ds) = ip \<and> dropWhile (\<lambda>c. c \<noteq> CHR ''/'') (ip @ CHR ''/'' # ds) = CHR ''/'' # ds"
  by (induction ip) auto

lemma parse_host_spec_sound:
  assumes "parse_host_spec pton4 pton6 host l = Inr l'"
  shows "\<exists>s. host_subnet pton4 pton6 host s \<and> l' = add_subnets [s] l"
proof -
  let ?ip = "takeWhile (\<lambda>c. c \<noteq> CHR ''/'') host" and ?rest = "dropWhile (\<lambda>c. c \<noteq> CHR ''/'') host"
  have ne: "?rest \<noteq> []" using assms by (auto simp: parse_host_spec_def Let_def split: if_splits)
  then have "hd ?rest = CHR ''/''" using hd_dropWhile [of "\<lambda>c. c \<noteq> CHR ''/''" host] by simp
  then have host: "host = ?ip @ CHR ''/'' # tl ?rest" using ne by (metis list.collapse takeWhile_dropWhile_id)
  have ip: "CHR ''/'' \<notin> set ?ip" by (auto dest: set_takeWhileD)
  have ds: "list_all is_dec (tl ?rest)" "tl ?rest \<noteq> []"
    using assms ne by (auto simp: parse_host_spec_def Let_def stoi_def list_all_iff list_ex_iff split: if_splits sum.splits)
  have stoi: "stoi (tl ?rest) = Inr c \<Longrightarrow> c = dec_value (tl ?rest)" for c
    by (simp add: stoi_def dec_value_def Let_def split: if_splits)
  show ?thesis
  proof (cases "CHR '':'' \<in> set ?ip")
    case True
    then obtain a where a: "pton6 ?ip = Some a" "dec_value (tl ?rest) \<le> 128"
      "l' = (fst l, snd l @ [\<lparr>sn_addr = a, sn_cidr = dec_value (tl ?rest), sn_str = host\<rparr>])"
      using assms ne stoi by (auto simp: parse_host_spec_def Let_def split: if_splits sum.splits option.splits)
    with host6 [where ?pton6.0 = pton6, OF ip True a(1) ds(2,1) a(2), of pton4] show ?thesis by (auto simp: host [symmetric])
  next
    case False
    then obtain a where a: "pton4 ?ip = Some a" "dec_value (tl ?rest) \<le> 32"
      "l' = (fst l @ [\<lparr>sn_addr = a, sn_cidr = dec_value (tl ?rest), sn_str = host\<rparr>], snd l)"
      using assms ne stoi by (auto simp: parse_host_spec_def Let_def split: if_splits sum.splits option.splits)
    with host4 [where ?pton4.0 = pton4, OF ip False a(1) ds(2,1) a(2), of pton6] show ?thesis by (auto simp: host [symmetric])
  qed
qed

lemma parse_host_spec_complete:
  "host_subnet pton4 pton6 host s \<Longrightarrow> parse_host_spec pton4 pton6 host l = Inr (add_subnets [s] l)"
  by (auto simp: host_subnet_simps slash_split parse_host_spec_def stoi_def dec_value_def list_all_iff list_ex_iff Let_def)

lemma parse_host_specs_denote:
  "\<exists>before rest ss. hosts = before @ rest \<and> list_all2 (host_subnet pton4 pton6) before ss
     \<and> fst (parse_host_specs pton4 pton6 hosts l) = add_subnets ss l
     \<and> (case rest of
          [] \<Rightarrow> snd (parse_host_specs pton4 pton6 hosts l) = None
        | host # _ \<Rightarrow> snd (parse_host_specs pton4 pton6 hosts l) \<noteq> None \<and> (\<nexists>s. host_subnet pton4 pton6 host s))"
proof (induction hosts arbitrary: l)
  case (Cons h hs)
  show ?case
  proof (cases "parse_host_spec pton4 pton6 h l")
    case (Inl e)
    then have "\<nexists>s. host_subnet pton4 pton6 h s" using parse_host_spec_complete by fastforce
    then show ?thesis using Inl by (intro exI [of _ "[]"] exI [of _ "h # hs"]) simp
  next
    case (Inr l')
    obtain s where s: "host_subnet pton4 pton6 h s" "l' = add_subnets [s] l" using parse_host_spec_sound [OF Inr] by blast
    obtain before rest ss where r: "hs = before @ rest" "list_all2 (host_subnet pton4 pton6) before ss"
      "fst (parse_host_specs pton4 pton6 hs l') = add_subnets ss l'"
      "case rest of [] \<Rightarrow> snd (parse_host_specs pton4 pton6 hs l') = None
        | host # _ \<Rightarrow> snd (parse_host_specs pton4 pton6 hs l') \<noteq> None \<and> (\<nexists>s. host_subnet pton4 pton6 host s)"
      using Cons.IH [of l'] by blast
    have "add_subnets ss l' = add_subnets (s # ss) l" by (cases s) (simp_all add: s(2))
    then have f: "fst (parse_host_specs pton4 pton6 hs l') = add_subnets (s # ss) l" using r(3) by simp
    have eq: "parse_host_specs pton4 pton6 (h # hs) l = parse_host_specs pton4 pton6 hs l'" using Inr by simp
    have "h # hs = (h # before) @ rest" "list_all2 (host_subnet pton4 pton6) (h # before) (s # ss)" using r(1,2) s(1) by simp_all
    with f r(4) show ?thesis unfolding eq by blast
  qed
qed simp

lemma host_subnets_ok:
  assumes "list_all2 (host_subnet pton4 pton6) hosts ss" "\<forall>s a. pton6 s = Some a \<longrightarrow> length a = 16" "lists_ok l"
  shows "lists_ok (add_subnets ss l)"
  using assms(1,3)
proof (induction arbitrary: l rule: list_all2_induct)
  case (Cons h hs s ss)
  from Cons.hyps(1) assms(2) Cons.prems have "lists_ok (add_subnets [s] l)"
    by (cases rule: host_subnet.cases) (simp_all add: lists_ok_def)
  with Cons.IH [of "add_subnets [s] l"] show ?case by (cases s) simp_all
qed simp

subsection \<open>Properties\<close>

text \<open>
  C23: An IPv4 address other than 0.0.0.0 is matched to the first subnet of the list whose prefix it
  shares: the leading bits of the two addresses, as many as the prefix length, are equal. No
  shift in the mask computation is undefined for prefix lengths up to 32.
\<close>

theorem match_subnet4_first_prefix:
  assumes "v \<noteq> 0" "\<forall>s \<in> set ss. sn_cidr s \<le> 32"
  shows "match_subnet4 ss v =
    Some (first_index (\<lambda>s. take (sn_cidr s) (bits4 v) = take (sn_cidr s) (bits4 (sn_addr s))) ss)"
proof (cases "ss = []")
  case True
  then show ?thesis by (simp add: match_subnet4_def first_index_def)
next
  case False
  then show ?thesis
    using assms match_subnet4_loop_index [OF assms(2), of 0 v]
    by (simp add: match_subnet4_def option.map_id0 [unfolded id_def] plus_nat.add_0 [abs_def])
qed

theorem match_subnet4_first_prefix_witness:
  "match_subnet4 [\<lparr>sn_addr = 0x0000A8C0, sn_cidr = 16, sn_str = ''192.168.0.0/16''\<rparr>] 0x0505A8C0 = Some (Some 0)"
  using match_subnet4_first_prefix [of "0x0505A8C0" "[\<lparr>sn_addr = 0x0000A8C0, sn_cidr = 16, sn_str = ''192.168.0.0/16''\<rparr>]"]
  by (simp add: match_subnet4_def get_subnet4_def bswap32_def)

text \<open>
  C35: An IPv6 address is matched to the first subnet whose prefix it shares, of those with a prefix
  length of at least one. A subnet of prefix length zero matches no IPv6 address, whereas it
  matches every IPv4 address.
\<close>

theorem match_subnet6_first_prefix:
  assumes "length ip = 16" "\<forall>s \<in> set ss. sn_cidr s \<le> 128 \<and> length (sn_addr s) = 16"
  shows "match_subnet6 ss ip = first_index
    (\<lambda>s. sn_cidr s \<noteq> 0 \<and> take (sn_cidr s) (bits6 ip) = take (sn_cidr s) (bits6 (sn_addr s))) ss"
proof (cases "ss = []")
  case True
  then show ?thesis by (simp add: match_subnet6_def first_index_def)
next
  case False
  then show ?thesis
    using match_subnet6_loop_index [OF assms, of 0]
    by (simp add: match_subnet6_def option.map_id0 [unfolded id_def] plus_nat.add_0 [abs_def])
qed

theorem match_subnet6_first_prefix_witness:
  "match_subnet6 [\<lparr>sn_addr = replicate 16 0, sn_cidr = 0, sn_str = ''::/0''\<rparr>] (replicate 16 0) = None"
  using match_subnet6_first_prefix [of "replicate 16 0" "[\<lparr>sn_addr = replicate 16 0, sn_cidr = 0, sn_str = ''::/0''\<rparr>]"]
  by (simp add: first_index_def)

text \<open>
  The subnet of an IPv6 address keeps as many leading bits as the prefix length says and clears
  all others.
\<close>

theorem get_subnet6_keeps_prefix:
  assumes "length a = 16" "c \<le> 128"
  shows "bits6 (get_subnet6 a c) = take c (bits6 a) @ replicate (128 - c) False"
  using get_subnet6_bits [OF assms] .

theorem get_subnet6_keeps_prefix_witness:
  "bits6 (get_subnet6 (replicate 16 0xFF) 9) = take 9 (bits6 (replicate 16 0xFF)) @ replicate 119 False"
  using get_subnet6_keeps_prefix [of "replicate 16 0xFF" 9] by simp

text \<open>
  The prefix length computed from an IPv4 netmask is the real one rounded up to a whole number
  of bytes. A netmask of 255.255.254.0 gives 24 and not 23.
\<close>

theorem get_cidr4_rounds_up:
  assumes "n \<le> 32"
  shows "get_cidr4 (netmask4 n) = 8 * ((n + 7) div 8)"
  using get_cidr4_netmask [OF assms] .

theorem get_cidr4_rounds_up_witness: "get_cidr4 (netmask4 23) = 24"
  using get_cidr4_rounds_up [of 23] by simp

text \<open>
  C24: A list of hosts is read exactly. The hosts up to the first invalid one are stored in order, each as the
  address, the prefix length and the text it denotes, behind what the lists held; the first
  that denotes no subnet, for want of a slash, of a prefix length in decimal digits that is at most 32 or 128, or of an address that
  the socket library reads, is refused with an error and ends the reading. Without such a host there is no error.
  No prefix length above 32 or 128 is ever stored, which the matching of addresses relies on.
\<close>

theorem parse_host_specs_exact:
  assumes "\<forall>s a. pton6 s = Some a \<longrightarrow> length a = 16" "lists_ok l"
  shows "\<exists>before rest ss. hosts = before @ rest \<and> list_all2 (host_subnet pton4 pton6) before ss
     \<and> fst (parse_host_specs pton4 pton6 hosts l) = add_subnets ss l \<and> lists_ok (add_subnets ss l)
     \<and> (case rest of
          [] \<Rightarrow> snd (parse_host_specs pton4 pton6 hosts l) = None
        | host # _ \<Rightarrow> snd (parse_host_specs pton4 pton6 hosts l) \<noteq> None \<and> (\<nexists>s. host_subnet pton4 pton6 host s))"
  using parse_host_specs_denote [of hosts pton4 pton6 l] host_subnets_ok [OF _ assms] by blast

text \<open>The third host has a prefix length that is too long.\<close>

definition demo_hosts :: "string list" where
  "demo_hosts = [''10.0.0.1/8'', ''::1/64'', ''::1/129'', ''10.0.0.2/8'']"

theorem parse_host_specs_exact_witness:
  "\<exists>ss. list_all2 (host_subnet (\<lambda>_. Some 1) (\<lambda>_. Some (replicate 16 0))) [''10.0.0.1/8'', ''::1/64''] ss
     \<and> fst (parse_host_specs (\<lambda>_. Some 1) (\<lambda>_. Some (replicate 16 0)) demo_hosts ([], [])) = add_subnets ss ([], [])
     \<and> lists_ok (add_subnets ss ([], []))
     \<and> snd (parse_host_specs (\<lambda>_. Some 1) (\<lambda>_. Some (replicate 16 0)) demo_hosts ([], [])) = Some (Invalid_CIDR ''::1/129'')
     \<and> (\<nexists>s. host_subnet (\<lambda>_. Some 1) (\<lambda>_. Some (replicate 16 0)) ''::1/129'' s)"
proof -
  let ?p4 = "\<lambda>_. Some 1 :: u32 option" and ?p6 = "\<lambda>_. Some (replicate 16 0) :: ipv6 option"
  have run: "parse_host_specs ?p4 ?p6 demo_hosts ([], [])
      = (([\<lparr>sn_addr = 1, sn_cidr = 8, sn_str = ''10.0.0.1/8''\<rparr>], [\<lparr>sn_addr = replicate 16 0, sn_cidr = 64, sn_str = ''::1/64''\<rparr>]),
         Some (Invalid_CIDR ''::1/129''))"
    by (simp add: demo_hosts_def parse_host_spec_def stoi_def is_dec_def digit_val_def)
  obtain before rest ss where r: "demo_hosts = before @ rest" "list_all2 (host_subnet ?p4 ?p6) before ss"
    "fst (parse_host_specs ?p4 ?p6 demo_hosts ([], [])) = add_subnets ss ([], [])" "lists_ok (add_subnets ss ([], []))"
    "case rest of [] \<Rightarrow> snd (parse_host_specs ?p4 ?p6 demo_hosts ([], [])) = None
      | host # _ \<Rightarrow> snd (parse_host_specs ?p4 ?p6 demo_hosts ([], [])) \<noteq> None \<and> (\<nexists>s. host_subnet ?p4 ?p6 host s)"
    using parse_host_specs_exact [of ?p6 "([], [])" demo_hosts ?p4] by (auto simp: lists_ok_def)
  have count: "length (fst (add_subnets ss l)) + length (snd (add_subnets ss l)) = length (fst l) + length (snd l) + length ss" for l
  proof (induction ss arbitrary: l)
    case (Cons s ss)
    then show ?case by (cases s) simp_all
  qed simp
  have "length ss = 2" using count [of "([], [])"] unfolding r(3) [symmetric] run by simp
  then have "length before = 2" using r(2) by (simp add: list_all2_lengthD)
  with append_eq_conv_conj [of before rest demo_hosts] r(1) have "before = take 2 demo_hosts" "rest = drop 2 demo_hosts" by metis+
  then have "before = [''10.0.0.1/8'', ''::1/64'']" "rest = [''::1/129'', ''10.0.0.2/8'']" by (simp_all add: demo_hosts_def)
  then show ?thesis using r run by auto
qed

end
