(* ===== verification/DnsNames.thy ===== *)
theory DnsNames
  imports Prelude
begin

text \<open>
  Domain names (\<^verbatim>\<open>src/libs/visor_dns/DnsResource.cpp\<close>, \<^verbatim>\<open>dns.cpp\<close>, \<^verbatim>\<open>PublicSuffixList.h\<close>): decoding of a
  possibly compressed name from a packet into the 256 byte buffer of the caller, encoding, the raw
  form of a name, public suffixes and aggregation of a name to its last labels.

  The packet layer is a list of bytes. The decoder writes through a pointer into the buffer; the
  bytes between the start of the buffer and the pointer are the list \<open>out\<close>, so a write at the pointer
  is a write at index \<open>length out\<close>. A write at index 256 or above is undefined behaviour and the
  result \<^term>\<open>None\<close>. Reads are guarded in the code; the guards are part of the model.
\<close>

unbundle bit_operations_syntax

subsection \<open>Decoding\<close>

definition BUF :: nat where
  "BUF = 256"

text \<open>
  The result of the decoder: the returned length, the bytes before the pointer, and whether a zero
  byte was written at (or before) the pointer. A caller that reads the buffer as a C string sees
  the bytes up to the first zero; without the terminator it reads on into what the buffer held.
\<close>

record decoded =
  dn_len :: nat
  dn_out :: "byte list"
  dn_terminated :: bool

text \<open>The two places that close a name early: the pointer steps back if the buffer is full.\<close>

definition cut_name :: "byte list \<Rightarrow> nat \<Rightarrow> decoded option" where
  "cut_name out encodedNameLength =
     (let out' = (if encodedNameLength = 256 then butlast out else out);
          len = (if encodedNameLength = 256 then encodedNameLength else encodedNameLength + 1)
      in if length out' < BUF then Some \<lparr>dn_len = len, dn_out = out', dn_terminated = True\<rparr> else None)"

definition HDR :: nat where
  "HDR = 12"

definition ptr_target :: "byte \<Rightarrow> byte \<Rightarrow> nat" where
  "ptr_target a b = unat (a AND 0x3f) * 256 + unat b"

text \<open>The bytes of a zeroed buffer up to the first zero, as the copy loop reads them.\<close>

definition c_string :: "byte list \<Rightarrow> byte list" where
  "c_string bs = takeWhile (\<lambda>b. b \<noteq> 0) bs"

function decodeName :: "byte list \<Rightarrow> nat \<Rightarrow> nat \<Rightarrow> decoded option"
  and decode_loop :: "byte list \<Rightarrow> nat \<Rightarrow> nat \<Rightarrow> byte list \<Rightarrow> nat \<Rightarrow> decoded option"
where
  "decodeName data off iteration =
     (if off + 1 > length data then Some \<lparr>dn_len = 0, dn_out = [], dn_terminated = True\<rparr>
      else if iteration > 20 then Some \<lparr>dn_len = 0, dn_out = [], dn_terminated = True\<rparr>
      else decode_loop data iteration off [] 0)"
| "decode_loop data iteration cur out encodedNameLength =
     (if \<not> (cur < length data \<and> iteration \<le> 20) then None
      else
        let wordLength = data ! cur in
        if wordLength \<noteq> 0 then
          if wordLength AND 0xc0 = 0xc0 then
            if cur + 2 > length data \<or> encodedNameLength > 255 then
              Some \<lparr>dn_len = encodedNameLength, dn_out = out, dn_terminated = (out = [])\<rparr>
            else
              let offsetInLayer = ptr_target wordLength (data ! (cur + 1)) in
              if offsetInLayer < HDR \<or> offsetInLayer \<ge> length data then
                Some \<lparr>dn_len = 0, dn_out = out, dn_terminated = (out = [])\<rparr>
              else
                (case decodeName data offsetInLayer (iteration + 1) of
                   None \<Rightarrow> None
                 | Some r \<Rightarrow>
                     let out' = out @ take (255 - length out) (c_string (dn_out r))
                     in if length out' < BUF
                        then Some \<lparr>dn_len = encodedNameLength + 2, dn_out = out', dn_terminated = True\<rparr>
                        else None)
          else if cur + unat wordLength + 1 > length data \<or> encodedNameLength + unat wordLength > 255 then
            cut_name out encodedNameLength
          else
            let out' = out @ take (unat wordLength) (drop (cur + 1) data) @ [46];
                cur' = cur + unat wordLength + 1;
                len' = encodedNameLength + unat wordLength + 1
            in if length out' > BUF then None
               else if cur' + 1 > length data then cut_name out' len'
               else decode_loop data iteration cur' out' len'
        else if length out < BUF then
          Some \<lparr>dn_len = encodedNameLength + 1, dn_out = butlast out, dn_terminated = True\<rparr>
        else None)"
  by pat_completeness auto
termination
  by (relation "inv_image (less_than <*lex*> less_than <*lex*> less_than)
        (case_sum (\<lambda>(data, off, iteration). (21 - iteration, length data + 1, 0))
          (\<lambda>(data, iteration, cur, out, len). (21 - iteration, length data - cur, 0 :: nat)))") auto

declare decodeName.simps [simp del] decode_loop.simps [simp del]

subsection \<open>Encoding\<close>

text \<open>\<^verbatim>\<open>getline\<close> with a dot: the words of a name; an empty rest gives no word.\<close>

function words_of :: "string \<Rightarrow> string list" where
  "words_of s =
     (if s = [] then []
      else takeWhile (\<lambda>c. c \<noteq> CHR ''.'') s # words_of (tl (dropWhile (\<lambda>c. c \<noteq> CHR ''.'') s)))"
  by pat_completeness auto
termination
proof (relation "measure length")
  fix s :: string
  assume "s \<noteq> []"
  then show "(tl (dropWhile (\<lambda>c. c \<noteq> CHR ''.'') s), s) \<in> measure length"
    using length_dropWhile_le [of "\<lambda>c. c \<noteq> CHR ''.''" s] by (cases s) auto
qed simp

declare words_of.simps [simp del]

definition byte_of_char :: "char \<Rightarrow> byte" where
  "byte_of_char c = of_nat (of_char c)"

definition char_of_byte :: "byte \<Rightarrow> char" where
  "char_of_byte b = char_of (unat b)"

text \<open>
  \<open>parse_int\<close> is the extraction of an \<^verbatim>\<open>int\<close> from a string stream, \<^term>\<open>None\<close> if it fails. The second
  component of the result says that the name was written to its end.
\<close>

fun encode_words :: "(string \<Rightarrow> int option) \<Rightarrow> string list \<Rightarrow> byte list \<times> bool" where
  "encode_words parse_int [] = ([0], True)"
| "encode_words parse_int (word # ws) =
     (if word \<noteq> [] \<and> hd word = CHR ''#'' then
        (case parse_int (tl word) of
           None \<Rightarrow> ([], False)
         | Some p \<Rightarrow> if p < 0 \<or> p > 0xff then ([], False) else ([0xc0, word_of_int p], True))
      else
        let (rest, ok) = encode_words parse_int ws
        in (of_nat (length word) # map byte_of_char word @ rest, ok))"

definition encodeName :: "(string \<Rightarrow> int option) \<Rightarrow> string \<Rightarrow> byte list \<times> bool" where
  "encodeName parse_int decodedName = encode_words parse_int (words_of decodedName)"

subsection \<open>The raw name\<close>

text \<open>The scan ends at \<^term>\<open>Some\<close> position, or at \<^term>\<open>None\<close> for a malformed name (\<^verbatim>\<open>npos\<close>).\<close>

function raw_name_scan :: "byte list \<Rightarrow> nat \<Rightarrow> nat option" where
  "raw_name_scan scan pos =
     (if pos < length scan then
        if scan ! pos = 0 then Some (pos + 1)
        else if scan ! pos < 0xc0 then raw_name_scan scan (pos + unat (scan ! pos) + 1)
        else if scan ! pos = 0xc0 then Some (pos + 3)
        else None
      else Some pos)"
  by pat_completeness auto
termination
  by (relation "measure (\<lambda>(scan, pos). length scan - pos)") auto

declare raw_name_scan.simps [simp del]

definition getRawName :: "byte list \<Rightarrow> nat \<Rightarrow> nat \<Rightarrow> byte list" where
  "getRawName data off nameLength =
     (if nameLength = 0 then []
      else
        let scan = take 255 (drop off data) in
        (case raw_name_scan scan 0 of
           None \<Rightarrow> []
         | Some pos \<Rightarrow> if pos \<ge> length scan then [] else take pos scan))"

subsection \<open>Aggregation\<close>

text \<open>
  \<open>rfind c pos s\<close> is \<^verbatim>\<open>s.rfind(c, pos)\<close>: the last position up to \<open>pos\<close> that holds \<open>c\<close>; \<^term>\<open>None\<close> is
  \<^verbatim>\<open>npos\<close>, and as the argument \<open>pos\<close> it means the whole string.
\<close>

fun rfind_upto :: "char \<Rightarrow> nat \<Rightarrow> string \<Rightarrow> nat option" where
  "rfind_upto c 0 s = None"
| "rfind_upto c (Suc n) s = (if s ! n = c then Some n else rfind_upto c n s)"

definition rfind :: "char \<Rightarrow> nat option \<Rightarrow> string \<Rightarrow> nat option" where
  "rfind c pos s =
     (case pos of
        None \<Rightarrow> rfind_upto c (length s) s
      | Some p \<Rightarrow> rfind_upto c (min (p + 1) (length s)) s)"

definition aggregateDomain :: "string \<Rightarrow> nat \<Rightarrow> string \<times> string" where
  "aggregateDomain domain suffix_size =
     (if length domain < 5 then (domain, [])
      else
        let endDot =
              (if suffix_size > 0 \<and> length domain > suffix_size then Some (length domain - suffix_size)
               else if last domain = CHR ''.'' then Some (length domain - 2)
               else None)
        in case rfind (CHR ''.'') endDot domain of
             None \<Rightarrow> (domain, domain)
           | Some first_dot \<Rightarrow>
               if first_dot > 0 then
                 (case rfind (CHR ''.'') (Some (first_dot - 1)) domain of
                    Some second_dot \<Rightarrow>
                      (drop second_dot domain,
                       if second_dot > 0 then
                         (case rfind (CHR ''.'') (Some (second_dot - 1)) domain of
                            Some third_dot \<Rightarrow> drop third_dot domain
                          | None \<Rightarrow> domain)
                       else domain)
                  | None \<Rightarrow> (domain, []))
               else (domain, domain))"

definition ends_with :: "string \<Rightarrow> string \<Rightarrow> bool" where
  "ends_with str suf \<longleftrightarrow> length str \<ge> length suf \<and> drop (length str - length suf) str = suf"

text \<open>The table of the suffixes by top-level domain is a parameter; a hash map gives one entry per key.\<close>

fun first_suffix :: "string \<Rightarrow> string list \<Rightarrow> nat option" where
  "first_suffix str [] = None"
| "first_suffix str (s # ss) = (if ends_with str s then Some (length s + 1) else first_suffix str ss)"

definition match_public_suffix :: "(string \<Rightarrow> string list option) \<Rightarrow> string \<Rightarrow> nat" where
  "match_public_suffix domains str =
     (case rfind (CHR ''.'') None str of
        None \<Rightarrow> 0
      | Some pos \<Rightarrow>
          if pos + 1 = length str then 0
          else
            (case domains (drop (pos + 1) str) of
               None \<Rightarrow> 0
             | Some subs \<Rightarrow>
                 (case first_suffix str subs of
                    Some n \<Rightarrow> n
                  | None \<Rightarrow> length (drop (pos + 1) str) + 1)))"

subsection \<open>Bounds of the decoder\<close>

lemma cut_name_bounds:
  assumes "cut_name out len = Some r" "length out = len" "len \<le> 256"
  shows "dn_len r \<le> 257 \<and> length (dn_out r) \<le> 256"
  using assms by (auto simp: cut_name_def Let_def BUF_def split: if_splits)

lemma decode_bounds:
  "decodeName data off iteration = Some r \<Longrightarrow> dn_len r \<le> 257 \<and> length (dn_out r) \<le> 256"
  "decode_loop data iteration cur out len = Some r \<Longrightarrow> length out = len \<Longrightarrow> len \<le> 256
     \<Longrightarrow> dn_len r \<le> 257 \<and> length (dn_out r) \<le> 256"
proof (induction data off iteration and data iteration cur out len arbitrary: r and r rule: decodeName_decode_loop.induct)
  case (1 data off iteration)
  then show ?case by (subst (asm) decodeName.simps) (auto split: if_splits)
next
  case (2 data iteration cur out len)
  let ?w = "data ! cur"
  have in_range: "cur < length data \<and> iteration \<le> 20"
    using "2.prems" by (subst (asm) decode_loop.simps) (auto split: if_splits)
  show ?case
  proof (cases "?w = 0")
    case True
    then show ?thesis
      using "2.prems" in_range by (subst (asm) decode_loop.simps) (auto simp: BUF_def split: if_splits)
  next
    case w: False
    show ?thesis
    proof (cases "?w AND 0xc0 = 0xc0")
      case True
      then show ?thesis
        using "2.prems" in_range w
        by (subst (asm) decode_loop.simps) (auto simp: Let_def BUF_def split: if_splits option.splits)
    next
      case False
      then show ?thesis
        using "2.prems" in_range w "2.IH"(2) [of "?w"] cut_name_bounds
        by (subst (asm) decode_loop.simps)
          (auto simp: Let_def BUF_def split: if_splits intro: "2.IH"(2))
    qed
  qed
qed

subsection \<open>Labels\<close>

definition encode_labels :: "byte list list \<Rightarrow> byte list" where
  "encode_labels ls = concat (map (\<lambda>l. of_nat (length l) # l) ls)"

definition join_labels :: "byte list list \<Rightarrow> byte list" where
  "join_labels ls = concat (map (\<lambda>l. l @ [46]) ls)"

definition label_ok :: "byte list \<Rightarrow> bool" where
  "label_ok l \<longleftrightarrow> 1 \<le> length l \<and> length l \<le> 63"

lemma join_labels_length: "length (join_labels ls) = length (encode_labels ls)"
  by (induction ls) (simp_all add: join_labels_def encode_labels_def)

lemma label_byte:
  assumes "label_ok l"
  shows "unat (of_nat (length l) :: byte) = length l" "(of_nat (length l) :: byte) \<noteq> 0"
    "(of_nat (length l) :: byte) AND 0xc0 \<noteq> 0xc0"
proof -
  have l: "length l < 2 ^ 6" "0 < length l" using assms by (auto simp: label_ok_def)
  show u: "unat (of_nat (length l) :: byte) = length l"
    using l unfolding unat_of_nat by simp
  then show "(of_nat (length l) :: byte) \<noteq> 0" using l by auto
  show "(of_nat (length l) :: byte) AND 0xc0 \<noteq> 0xc0"
  proof
    assume "(of_nat (length l) :: byte) AND 0xc0 = 0xc0"
    then have "bit ((of_nat (length l) :: byte) AND 0xc0) 6 = bit (0xc0 :: byte) 6" by simp
    then have "bit (of_nat (length l) :: byte) 6" by (simp add: bit_simps)
    then have "bit (length l) 6" using u by (simp add: bit_simps)
    then show False using l by (simp add: bit_iff_odd)
  qed
qed

lemma decode_loop_label:
  assumes "label_ok l" "iteration \<le> 20" "cur + length l + 1 < length d" "d ! cur = of_nat (length l)"
    and "take (length l) (drop (cur + 1) d) = l" "length out = len" "len + length l \<le> 255"
  shows "decode_loop d iteration cur out len =
    decode_loop d iteration (cur + length l + 1) (out @ l @ [46]) (len + length l + 1)"
  using assms label_byte [OF assms(1)]
  by (subst decode_loop.simps) (simp add: Let_def BUF_def)

text \<open>The loop over whole labels, up to the zero byte that ends the name.\<close>

lemma decode_loop_labels:
  assumes "\<forall>l \<in> set ls. label_ok l" "iteration \<le> 20" "length out = len"
    and "len + length (encode_labels ls) \<le> 256"
  shows "decode_loop (pre @ encode_labels ls @ 0 # post) iteration (length pre) out len =
    (if len + length (encode_labels ls) < 256
     then Some \<lparr>dn_len = len + length (encode_labels ls) + 1, dn_out = butlast (out @ join_labels ls), dn_terminated = True\<rparr>
     else None)"
  using assms
proof (induction ls arbitrary: pre out len)
  case Nil
  then show ?case
    by (subst decode_loop.simps) (simp add: encode_labels_def join_labels_def BUF_def)
next
  case (Cons l ls)
  let ?data = "pre @ encode_labels (l # ls) @ 0 # post"
  have l: "label_ok l" using Cons.prems by simp
  have data: "?data = (pre @ of_nat (length l) # l) @ encode_labels ls @ 0 # post"
    by (simp add: encode_labels_def)
  have w: "?data ! length pre = of_nat (length l)" by (simp add: encode_labels_def)
  have take: "take (length l) (drop (length pre + 1) ?data) = l" by (simp add: encode_labels_def)
  have len: "len + length l \<le> 255" using Cons.prems(4) by (simp add: encode_labels_def)
  have room: "length pre + length l + 1 < length ?data" by (simp add: encode_labels_def)
  have "decode_loop ?data iteration (length pre) out len =
    decode_loop ?data iteration (length pre + length l + 1) (out @ l @ [46]) (len + length l + 1)"
    by (rule decode_loop_label [OF l Cons.prems(2) room w take Cons.prems(3) len])
  also have "\<dots> = decode_loop ((pre @ of_nat (length l) # l) @ encode_labels ls @ 0 # post) iteration
      (length (pre @ of_nat (length l) # l)) (out @ l @ [46]) (len + length l + 1)"
    unfolding data by simp
  also have "\<dots> = (if len + length l + 1 + length (encode_labels ls) < 256
     then Some \<lparr>dn_len = len + length l + 1 + length (encode_labels ls) + 1,
       dn_out = butlast ((out @ l @ [46]) @ join_labels ls), dn_terminated = True\<rparr> else None)"
    using Cons.prems by (intro Cons.IH) (simp_all add: encode_labels_def)
  finally show ?case by (simp add: encode_labels_def join_labels_def)
qed

lemma decodeName_labels:
  assumes "\<forall>l \<in> set ls. label_ok l" "length (encode_labels ls) \<le> 256"
  shows "decodeName (pre @ encode_labels ls @ 0 # post) (length pre) 0 =
    (if length (encode_labels ls) < 256
     then Some \<lparr>dn_len = length (encode_labels ls) + 1, dn_out = butlast (join_labels ls), dn_terminated = True\<rparr>
     else None)"
  using decode_loop_labels [of ls 0 "[]" 0 pre post] assms by (subst decodeName.simps) simp

subsection \<open>Encoding and decoding\<close>

fun dotted :: "string list \<Rightarrow> string" where
  "dotted [] = []"
| "dotted [w] = w"
| "dotted (w # ws) = w @ ''.'' @ dotted ws"

definition word_ok :: "string \<Rightarrow> bool" where
  "word_ok w \<longleftrightarrow> 1 \<le> length w \<and> length w \<le> 63 \<and> CHR ''.'' \<notin> set w \<and> hd w \<noteq> CHR ''#''"

lemma takeWhile_dot:
  "CHR ''.'' \<notin> set w \<Longrightarrow> takeWhile (\<lambda>c. c \<noteq> CHR ''.'') w = w"
  "CHR ''.'' \<notin> set w \<Longrightarrow> dropWhile (\<lambda>c. c \<noteq> CHR ''.'') w = []"
  "CHR ''.'' \<notin> set w \<Longrightarrow> takeWhile (\<lambda>c. c \<noteq> CHR ''.'') (w @ CHR ''.'' # s) = w"
  "CHR ''.'' \<notin> set w \<Longrightarrow> dropWhile (\<lambda>c. c \<noteq> CHR ''.'') (w @ CHR ''.'' # s) = CHR ''.'' # s"
  by (induction w) auto

lemma words_of_dotted:
  assumes "\<forall>w \<in> set ws. word_ok w"
  shows "words_of (dotted ws) = ws"
  using assms
proof (induction ws rule: dotted.induct)
  case 1
  show ?case by (simp add: words_of.simps)
next
  case (2 w)
  then have "CHR ''.'' \<notin> set w" "w \<noteq> []" by (auto simp: word_ok_def)
  then show ?case by (simp add: words_of.simps takeWhile_dot)
next
  case (3 w v ws)
  then have "CHR ''.'' \<notin> set w" "w \<noteq> []" by (auto simp: word_ok_def)
  then show ?case
    using 3 by (subst dotted.simps, subst words_of.simps) (simp add: takeWhile_dot del: dotted.simps)
qed

lemma encode_words_labels:
  assumes "\<forall>w \<in> set ws. word_ok w"
  shows "encode_words parse_int ws = (encode_labels (map (map byte_of_char) ws) @ [0], True)"
  using assms by (induction ws) (auto simp: encode_labels_def word_ok_def)

lemma byte_of_char_char [simp]: "char_of_byte (byte_of_char c) = c"
proof -
  have "(of_char c :: nat) < 2 ^ LENGTH(8)" by simp
  then have "unat (of_nat (of_char c) :: byte) = of_char c"
    unfolding unat_of_nat by (rule mod_less)
  then show ?thesis by (simp add: char_of_byte_def byte_of_char_def)
qed

lemma join_labels_dotted:
  "ws \<noteq> [] \<Longrightarrow> join_labels (map (map byte_of_char) ws) = map byte_of_char (dotted ws) @ [46]"
proof (induction ws rule: dotted.induct)
  case (3 w v ws)
  have "byte_of_char (CHR ''.'') = 46" by (simp add: byte_of_char_def)
  with 3 show ?case by (simp add: join_labels_def)
qed (simp_all add: join_labels_def)

subsection \<open>Aggregation\<close>

lemma rfind_upto_Some:
  "k < n \<Longrightarrow> s ! k = c \<Longrightarrow> \<forall>j. k < j \<and> j < n \<longrightarrow> s ! j \<noteq> c \<Longrightarrow> rfind_upto c n s = Some k"
proof (induction n)
  case (Suc n)
  then show ?case by (cases "k = n") auto
qed simp

lemma rfind_upto_None: "\<forall>j < n. s ! j \<noteq> c \<Longrightarrow> rfind_upto c n s = None"
  by (induction n) auto

declare rfind_upto.simps [simp del]

text \<open>The last dot before a stretch without dots.\<close>

lemma rfind_upto_split:
  assumes "c \<notin> set b" "n = length a + 1 + length b"
  shows "rfind_upto c n (a @ c # b @ r) = Some (length a)"
proof (rule rfind_upto_Some)
  show "\<forall>j. length a < j \<and> j < n \<longrightarrow> (a @ c # b @ r) ! j \<noteq> c"
  proof (intro allI impI)
    fix j
    assume j: "length a < j \<and> j < n"
    then have "(a @ c # b @ r) ! j = b ! (j - length a - 1)"
      using assms(2) by (auto simp: nth_append nth_Cons' )
    moreover have "j - length a - 1 < length b" using j assms(2) by auto
    ultimately show "(a @ c # b @ r) ! j \<noteq> c" using assms(1) nth_mem by metis
  qed
qed (use assms in simp_all)

definition last_label :: "string \<Rightarrow> string" where
  "last_label p = rev (takeWhile (\<lambda>c. c \<noteq> CHR ''.'') (rev p))"

lemma last_label_split:
  assumes "CHR ''.'' \<in> set p"
  obtains a where "p = a @ CHR ''.'' # last_label p" "CHR ''.'' \<notin> set (last_label p)"
proof -
  from assms obtain a b where p: "p = a @ CHR ''.'' # b" "CHR ''.'' \<notin> set b"
    using split_list_last by metis
  then have "last_label p = b" by (simp add: last_label_def takeWhile_dot(1,3) [of "rev b"])
  with p that show thesis by simp
qed

lemma aggregate_three:
  fixes p l suf :: string
  defines "domain \<equiv> p @ CHR ''.'' # l @ CHR ''.'' # suf"
  assumes l: "CHR ''.'' \<notin> set l" and len: "5 \<le> length domain"
    and suf: "n = length suf + 1 \<or> n = 0 \<and> suf \<noteq> [] \<and> CHR ''.'' \<notin> set suf"
  shows "aggregateDomain domain n =
    (CHR ''.'' # l @ CHR ''.'' # suf,
     (if CHR ''.'' \<in> set p then CHR ''.'' # last_label p else p) @ CHR ''.'' # l @ CHR ''.'' # suf)"
proof -
  let ?d = "CHR ''.''"
  define end_dot where "end_dot =
    (if n > 0 \<and> length domain > n then Some (length domain - n)
     else if last domain = ?d then Some (length domain - 2) else None)"
  have first: "rfind ?d end_dot domain = Some (length p + 1 + length l)"
  proof (cases "n = length suf + 1")
    case True
    then have "end_dot = Some (length p + 1 + length l)" by (simp add: end_dot_def domain_def)
    moreover have "rfind_upto ?d (length (p @ ?d # l) + 1 + length []) ((p @ ?d # l) @ ?d # [] @ suf) = Some (length (p @ ?d # l))"
      by (rule rfind_upto_split) simp_all
    ultimately show ?thesis by (simp add: rfind_def domain_def)
  next
    case False
    then have s: "suf \<noteq> []" "?d \<notin> set suf" "n = 0" using suf by auto
    then have "last domain \<noteq> ?d" by (auto simp: domain_def dest: last_in_set)
    then have "end_dot = None" using s by (simp add: end_dot_def)
    moreover have "rfind_upto ?d (length (p @ ?d # l) + 1 + length suf) ((p @ ?d # l) @ ?d # suf @ []) = Some (length (p @ ?d # l))"
      by (rule rfind_upto_split) (simp_all add: s)
    ultimately show ?thesis by (simp add: rfind_def domain_def add.assoc)
  qed
  have second: "rfind ?d (Some (length p + 1 + length l - 1)) domain = Some (length p)"
    using rfind_upto_split [OF l refl, of p "?d # suf"] by (simp add: rfind_def domain_def min_def)
  have third: "rfind ?d (Some (length p - 1)) domain =
      (if ?d \<in> set p then Some (length p - length (last_label p) - 1) else None)" if "p \<noteq> []"
  proof -
    have upto: "rfind ?d (Some (length p - 1)) domain = rfind_upto ?d (length p) domain"
      using that by (simp add: rfind_def domain_def min_def)
    show ?thesis
    proof (cases "?d \<in> set p")
      case True
      then obtain a where a: "p = a @ ?d # last_label p" "?d \<notin> set (last_label p)" by (rule last_label_split)
      then have lp: "length p = length a + 1 + length (last_label p)" by (metis add.assoc length_Cons length_append plus_1_eq_Suc add.commute)
      have "rfind_upto ?d (length p) (a @ ?d # last_label p @ (?d # l @ ?d # suf)) = Some (length a)"
        by (rule rfind_upto_split [OF a(2) lp])
      moreover have "domain = a @ ?d # last_label p @ (?d # l @ ?d # suf)"
        unfolding domain_def by (subst a(1)) simp
      ultimately show ?thesis using True lp upto by simp
    next
      case False
      have "rfind_upto ?d (length p) domain = None"
        by (rule rfind_upto_None) (use False in \<open>auto simp: domain_def nth_append dest: nth_mem\<close>)
      with False upto show ?thesis by simp
    qed
  qed
  have drop_p: "drop (length p) domain = ?d # l @ ?d # suf" by (simp add: domain_def)
  have agg: "aggregateDomain domain n =
    (drop (length p) domain,
     if length p > 0 then
       (case rfind ?d (Some (length p - 1)) domain of Some third_dot \<Rightarrow> drop third_dot domain | None \<Rightarrow> domain)
     else domain)"
    unfolding aggregateDomain_def Let_def end_dot_def [symmetric] using len first second by simp
  show ?thesis
  proof (cases "?d \<in> set p")
    case True
    then obtain a where a: "p = a @ ?d # last_label p" by (rule last_label_split)
    then have "length p - length (last_label p) - 1 = length a" by (metis add_diff_cancel_right' diff_Suc_1' diff_diff_left length_Cons length_append plus_1_eq_Suc add.commute)
    moreover have "drop (length a) domain = ?d # last_label p @ ?d # l @ ?d # suf"
      unfolding domain_def by (subst a) simp
    moreover have "p \<noteq> []" using True by auto
    ultimately show ?thesis using True agg third drop_p by simp
  next
    case False
    then show ?thesis using agg third drop_p by (cases "p = []") (auto simp: domain_def)
  qed
qed

subsection \<open>Properties\<close>

text \<open>
  C25: A name of labels of 1 to 63 bytes whose encoded form before the final zero byte takes fewer than
  256 bytes decodes to its labels joined by dots, and the returned length is the encoded length.
  With exactly 256 bytes, the decoder writes past the end of the 256 byte buffer.
\<close>

theorem decodeName_labels_or_overflow:
  assumes "\<forall>l \<in> set ls. label_ok l" "length (encode_labels ls) \<le> 256"
  shows "decodeName (pre @ encode_labels ls @ 0 # post) (length pre) 0 =
    (if length (encode_labels ls) < 256
     then Some \<lparr>dn_len = length (encode_labels ls) + 1, dn_out = butlast (join_labels ls), dn_terminated = True\<rparr>
     else None)"
  using decodeName_labels [OF assms] .

theorem decodeName_labels_or_overflow_witness:
  "decodeName (replicate 12 0 @ encode_labels (replicate 4 (replicate 63 97)) @ 0 # []) (length (replicate 12 (0::byte))) 0 = None"
  using decodeName_labels_or_overflow [of "replicate 4 (replicate 63 97)" "replicate 12 0" "[]"]
  by (simp add: label_ok_def encode_labels_def eval_nat_numeral)

text \<open>
  C18: Encoding a host name and decoding it from a packet, at any place and whatever follows, gives the
  name back, and the decoder returns the number of bytes the encoder wrote. The name is one of
  words of 1 to 63 characters that are not pointer words, with at most 254 characters.
\<close>

theorem encode_decode_roundtrip:
  assumes "\<forall>w \<in> set ws. word_ok w" "ws \<noteq> []" "length (dotted ws) \<le> 254"
  shows "\<exists>r. decodeName (pre @ fst (encodeName parse_int (dotted ws)) @ post) (length pre) 0 = Some r
    \<and> map char_of_byte (dn_out r) = dotted ws \<and> dn_terminated r
    \<and> dn_len r = length (fst (encodeName parse_int (dotted ws)))"
proof -
  let ?ls = "map (map byte_of_char) ws"
  have ok: "\<forall>l \<in> set ?ls. label_ok l" using assms(1) by (auto simp: word_ok_def label_ok_def)
  have enc: "fst (encodeName parse_int (dotted ws)) = encode_labels ?ls @ [0]"
    using assms(1) by (simp add: encodeName_def words_of_dotted encode_words_labels)
  have join: "join_labels ?ls = map byte_of_char (dotted ws) @ [46]" by (rule join_labels_dotted [OF assms(2)])
  then have len: "length (encode_labels ?ls) = length (dotted ws) + 1"
    using join_labels_length [of ?ls] by simp
  show ?thesis
    using decodeName_labels [OF ok, of pre post] assms(3)
    by (simp add: enc len join o_def)
qed

theorem encode_decode_roundtrip_witness:
  "\<exists>r. decodeName ([] @ fst (encodeName (\<lambda>_. None) (dotted [''example'', ''com''])) @ []) (length ([] :: byte list)) 0 = Some r
    \<and> map char_of_byte (dn_out r) = ''example.com''"
  using encode_decode_roundtrip [of "[''example'', ''com'']" "[]" "\<lambda>_. None" "[]"]
  by (auto simp: word_ok_def)

text \<open>
  Aggregation of a name with at least two dots: given a public suffix (or, without one, taking the
  last label for it) the first result is the suffix with the label before it, the second one with
  up to two labels before it; both start with a dot unless they are the whole name.
\<close>

theorem aggregateDomain_labels:
  fixes p l suf :: string
  assumes "CHR ''.'' \<notin> set l" "5 \<le> length (p @ CHR ''.'' # l @ CHR ''.'' # suf)"
    and "n = length suf + 1 \<or> n = 0 \<and> suf \<noteq> [] \<and> CHR ''.'' \<notin> set suf"
  shows "aggregateDomain (p @ CHR ''.'' # l @ CHR ''.'' # suf) n =
    (CHR ''.'' # l @ CHR ''.'' # suf,
     (if CHR ''.'' \<in> set p then CHR ''.'' # last_label p else p) @ CHR ''.'' # l @ CHR ''.'' # suf)"
  using aggregate_three [OF assms] .

theorem aggregateDomain_labels_witness:
  "aggregateDomain ''www.biz.foo.co.uk'' 6 = (''.foo.co.uk'', ''.biz.foo.co.uk'')"
  using aggregateDomain_labels [of "''foo''" "''www.biz''" "''co.uk''" 6] by (simp add: last_label_def)

text \<open>
  The public suffix of a name is the first entry of the table for its last label that the name
  ends with, and the last label otherwise. The comparison is one of characters and not of labels:
  with an entry \<^verbatim>\<open>co.uk\<close>, the name \<^verbatim>\<open>disco.uk\<close> gets the suffix \<^verbatim>\<open>co.uk\<close>, and its aggregation does not
  find a label before it.
\<close>

theorem match_public_suffix_ignores_labels:
  "match_public_suffix (map_of [(''uk'', [''ac.uk'', ''co.uk''])]) ''disco.uk'' = length ''co.uk'' + 1
   \<and> aggregateDomain ''disco.uk'' (length ''co.uk'' + 1) = (''disco.uk'', ''disco.uk'')
   \<and> match_public_suffix (map_of [(''uk'', [''ac.uk'', ''co.uk''])]) ''www.example.uk'' = length ''uk'' + 1
   \<and> match_public_suffix (map_of [(''uk'', [''ac.uk'', ''co.uk''])]) ''www.example.co.uk'' = length ''co.uk'' + 1"
  by (simp add: match_public_suffix_def rfind_def rfind_upto.simps ends_with_def aggregateDomain_def eval_nat_numeral)

end
