(* ===== verification/DnsWire.thy ===== *)
theory DnsWire
  imports DnsNames
begin

text \<open>
  Parsing of DNS messages (\<^verbatim>\<open>src/libs/visor_dns/DnsLayer.cpp\<close>, \<^verbatim>\<open>DnsResource.cpp\<close>, \<^verbatim>\<open>DnsResource.h\<close>,
  \<^verbatim>\<open>DnsAdditionalRecord.h\<close>): the header counts, the list of resources with the first one of each section,
  lookups by name, the fields of a resource, and the EDNS client subnet option.

  The linked list of resources is a list. An outer \<^term>\<open>None\<close> is undefined behaviour: a read outside the
  packet, a name that is read without its terminator, or a write outside a local array.
\<close>

subsection \<open>Resources\<close>

datatype res_type = DnsQueryType | DnsAnswerType | DnsAuthorityType | DnsAdditionalType

record dns_resource =
  r_type :: res_type
  r_offset :: nat
  r_name_len :: nat
  r_name :: string

text \<open>The constructor decodes the name at the offset; a name of length zero is left empty.\<close>

definition new_resource :: "byte list \<Rightarrow> nat \<Rightarrow> res_type \<Rightarrow> dns_resource option" where
  "new_resource data off ty =
     (case decodeName data off 0 of
        None \<Rightarrow> None
      | Some d \<Rightarrow>
          if dn_len d > 0 then
            if dn_terminated d then
              Some \<lparr>r_type = ty, r_offset = off, r_name_len = dn_len d, r_name = map char_of_byte (c_string (dn_out d))\<rparr>
            else None
          else Some \<lparr>r_type = ty, r_offset = off, r_name_len = dn_len d, r_name = []\<rparr>)"

definition getDnsType :: "byte list \<Rightarrow> dns_resource \<Rightarrow> u16 option" where
  "getDnsType data r = rd16 data (r_offset r + r_name_len r)"

definition getDnsClass :: "byte list \<Rightarrow> dns_resource \<Rightarrow> u16 option" where
  "getDnsClass data r = rd16 data (r_offset r + r_name_len r + 2)"

definition getTTL :: "byte list \<Rightarrow> dns_resource \<Rightarrow> u32 option" where
  "getTTL data r = rd32 data (r_offset r + r_name_len r + 4)"

text \<open>\<^verbatim>\<open>m_DataLen - 1\<close> is unsigned; the layer is never empty where this is called.\<close>

definition getDataLength :: "byte list \<Rightarrow> dns_resource \<Rightarrow> nat option" where
  "getDataLength data r =
     (let sizeToRead = r_name_len r + 8 in
      if r_offset r + sizeToRead \<ge> length data - 1 then Some 0
      else map_option unat (rd16 data (r_offset r + sizeToRead)))"

definition getDataOffset :: "dns_resource \<Rightarrow> nat" where
  "getDataOffset r = r_offset r + r_name_len r + 10"

definition getSize :: "byte list \<Rightarrow> dns_resource \<Rightarrow> nat option" where
  "getSize data r =
     (if r_type r = DnsQueryType then Some (r_name_len r + 4)
      else map_option (\<lambda>n. r_name_len r + 10 + n) (getDataLength data r))"

subsection \<open>The layer\<close>

record dns_layer =
  l_data :: "byte list"
  l_resources :: "dns_resource list"
  l_first_query :: "dns_resource option"
  l_first_answer :: "dns_resource option"
  l_first_authority :: "dns_resource option"
  l_first_additional :: "dns_resource option"
  l_parsed :: bool
  l_result :: bool

definition new_layer :: "byte list \<Rightarrow> dns_layer" where
  "new_layer data =
     \<lparr>l_data = data, l_resources = [], l_first_query = None, l_first_answer = None, l_first_authority = None,
      l_first_additional = None, l_parsed = False, l_result = False\<rparr>"

type_synonym counts = "nat \<times> nat \<times> nat \<times> nat"

definition header_counts :: "byte list \<Rightarrow> counts option" where
  "header_counts data =
     do { q \<leftarrow> rd16 data 4; a \<leftarrow> rd16 data 6; au \<leftarrow> rd16 data 8; ad \<leftarrow> rd16 data 10;
          Some (unat q, unat a, unat au, unat ad) }"

fun next_type :: "counts \<Rightarrow> res_type \<times> counts" where
  "next_type (q, a, au, ad) =
     (if q > 0 then (DnsQueryType, (q - 1, a, au, ad))
      else if a > 0 then (DnsAnswerType, (q, a - 1, au, ad))
      else if au > 0 then (DnsAuthorityType, (q, a, au - 1, ad))
      else (DnsAdditionalType, (q, a, au, ad - 1)))"

text \<open>
  Appending to the linked list: \<open>cur\<close> is the position of the current resource, and setting its next
  one cuts off what followed it before.
\<close>

definition link_resource :: "dns_resource \<Rightarrow> dns_layer \<Rightarrow> nat \<Rightarrow> dns_layer \<times> nat" where
  "link_resource r l cur =
     (if l_resources l = [] then (l\<lparr>l_resources := [r]\<rparr>, 0)
      else (l\<lparr>l_resources := take (cur + 1) (l_resources l) @ [r]\<rparr>, cur + 1))"

text \<open>The flag says whether the loop is left because only this section was asked for.\<close>

definition note_first :: "bool \<Rightarrow> bool \<Rightarrow> dns_resource \<Rightarrow> dns_layer \<Rightarrow> dns_layer \<times> bool" where
  "note_first queryOnly additionalOnly r l =
     (if r_type r = DnsQueryType \<and> l_first_query l = None then (l\<lparr>l_first_query := Some r\<rparr>, queryOnly)
      else if r_type r = DnsAnswerType \<and> l_first_answer l = None then (l\<lparr>l_first_answer := Some r\<rparr>, False)
      else if r_type r = DnsAuthorityType \<and> l_first_authority l = None then (l\<lparr>l_first_authority := Some r\<rparr>, False)
      else if r_type r = DnsAdditionalType \<and> l_first_additional l = None then (l\<lparr>l_first_additional := Some r\<rparr>, additionalOnly)
      else (l, False))"

fun parse_loop :: "bool \<Rightarrow> bool \<Rightarrow> nat \<Rightarrow> counts \<Rightarrow> nat \<Rightarrow> nat \<Rightarrow> dns_layer \<Rightarrow> (dns_layer \<times> bool) option" where
  "parse_loop queryOnly additionalOnly 0 counts off cur l = Some (l, True)"
| "parse_loop queryOnly additionalOnly (Suc n) counts off cur l =
     (let (ty, counts') = next_type counts in
      case new_resource (l_data l) off ty of
        None \<Rightarrow> None
      | Some r \<Rightarrow>
          (case getSize (l_data l) r of
             None \<Rightarrow> None
           | Some sz \<Rightarrow>
               if off + sz > length (l_data l) then Some (l, False)
               else
                 let (l', cur') = link_resource r l cur;
                     (l'', stop) = note_first queryOnly additionalOnly r l'
                 in if stop then Some (l'', True)
                    else parse_loop queryOnly additionalOnly n counts' (off + sz) cur' l''))"

definition MAX_RESOURCES :: nat where
  "MAX_RESOURCES = 100"

definition parseResources :: "bool \<Rightarrow> bool \<Rightarrow> bool \<Rightarrow> dns_layer \<Rightarrow> (dns_layer \<times> bool) option" where
  "parseResources queryOnly additionalOnly forceParse l =
     (if l_parsed l \<and> (\<not> forceParse \<or> \<not> l_result l) then Some (l, l_result l)
      else
        (case header_counts (l_data l) of
           None \<Rightarrow> None
         | Some (q, a, au, ad) \<Rightarrow>
             let n = q + a + au + ad in
             if n > MAX_RESOURCES then Some (l\<lparr>l_parsed := True, l_result := False\<rparr>, False)
             else
               (case parse_loop queryOnly additionalOnly n (q, a, au, ad) HDR 0 l of
                  None \<Rightarrow> None
                | Some (l', res) \<Rightarrow> Some (l'\<lparr>l_parsed := True, l_result := res\<rparr>, res))))"

text \<open>Search from a resource on, over at most as many as the header counts.\<close>

fun contains :: "string \<Rightarrow> string \<Rightarrow> bool" where
  "contains pat [] = (pat = [])"
| "contains pat (c # s) = (take (length pat) (c # s) = pat \<or> contains pat s)"

fun getResourceByName :: "dns_resource list \<Rightarrow> nat \<Rightarrow> string \<Rightarrow> bool \<Rightarrow> dns_resource option" where
  "getResourceByName rs 0 name exactMatch = None"
| "getResourceByName [] (Suc n) name exactMatch = None"
| "getResourceByName (r # rs) (Suc n) name exactMatch =
     (if exactMatch \<and> r_name r = name then Some r
      else if \<not> exactMatch \<and> contains name (r_name r) then Some r
      else getResourceByName rs n name exactMatch)"

subsection \<open>Client subnet\<close>

record ecs =
  e_option_code :: u16
  e_option_length :: u16
  e_family :: u16
  e_source_netmask :: byte
  e_scope_netmask :: byte
  e_client_subnet :: string

definition DNS_TYPE_OPT :: u16 where
  "DNS_TYPE_OPT = 41"

definition CSUBNET :: u16 where
  "CSUBNET = 8"

text \<open>
  Writing bytes to a local array of a fixed size that starts as zeros; \<^term>\<open>None\<close> if one is written past its
  end.
\<close>

definition copy_array :: "nat \<Rightarrow> byte list \<Rightarrow> byte list option" where
  "copy_array n bs = (if length bs \<le> n then Some (bs @ replicate (n - length bs) 0) else None)"

text \<open>\<open>dns_type\<close> and \<open>arr\<close> are the type and the data of the record; the text of an address is a parameter.\<close>

definition parse_additional_records_ecs ::
  "(byte list \<Rightarrow> string option) \<Rightarrow> (byte list \<Rightarrow> string option) \<Rightarrow> u16 \<Rightarrow> byte list \<Rightarrow> ecs option option" where
  "parse_additional_records_ecs ntop4 ntop6 dns_type arr =
     (if dns_type \<noteq> DNS_TYPE_OPT \<or> length arr = 0 then Some None
      else if length arr < 9 then Some None
      else if be16 (arr ! 0) (arr ! 1) \<noteq> CSUBNET then Some None
      else
        let e = \<lparr>e_option_code = be16 (arr ! 0) (arr ! 1), e_option_length = be16 (arr ! 2) (arr ! 3),
                 e_family = be16 (arr ! 4) (arr ! 5), e_source_netmask = arr ! 6, e_scope_netmask = arr ! 7,
                 e_client_subnet = []\<rparr>
        in if e_family e = 1 then
             (case copy_array 4 (drop 8 arr) of
                None \<Rightarrow> None
              | Some ipv4 \<Rightarrow> Some (Some (case ntop4 ipv4 of Some s \<Rightarrow> e\<lparr>e_client_subnet := s\<rparr> | None \<Rightarrow> e)))
           else if e_family e = 2 then
             (case copy_array 16 (take (min (length arr) 16 - 8) (drop 8 arr)) of
                None \<Rightarrow> None
              | Some ipv6 \<Rightarrow> Some (Some (case ntop6 ipv6 of Some s \<Rightarrow> e\<lparr>e_client_subnet := s\<rparr> | None \<Rightarrow> e)))
           else Some (Some e))"

subsection \<open>Parsed resources\<close>

text \<open>Where a chain of adjacent resources ends, all of them inside the packet.\<close>

fun chain_end :: "byte list \<Rightarrow> nat \<Rightarrow> dns_resource list \<Rightarrow> nat option" where
  "chain_end data off [] = Some off"
| "chain_end data off (r # rs) =
     (if r_offset r = off then
        (case getSize data r of
           Some n \<Rightarrow> if off + n \<le> length data then chain_end data (off + n) rs else None
         | None \<Rightarrow> None)
      else None)"

lemma chain_end_snoc:
  "chain_end data off (rs @ [r]) = Option.bind (chain_end data off rs) (\<lambda>e. chain_end data e [r])"
  by (induction rs arbitrary: off) (auto split: option.split)

definition sections :: "counts \<Rightarrow> res_type list" where
  "sections = (\<lambda>(q, a, au, ad). replicate q DnsQueryType @ replicate a DnsAnswerType
     @ replicate au DnsAuthorityType @ replicate ad DnsAdditionalType)"

definition total_count :: "counts \<Rightarrow> nat" where
  "total_count = (\<lambda>(q, a, au, ad). q + a + au + ad)"

lemma next_type_sections:
  assumes "total_count c = Suc n"
  shows "sections c = fst (next_type c) # sections (snd (next_type c))" "total_count (snd (next_type c)) = n"
proof -
  obtain q a au ad where c: "c = (q, a, au, ad)" by (cases c)
  show "sections c = fst (next_type c) # sections (snd (next_type c))" "total_count (snd (next_type c)) = n"
    using assms by (cases q; cases a; cases au; cases ad; simp add: c sections_def total_count_def)+
qed

definition firsts_ok :: "dns_layer \<Rightarrow> bool" where
  "firsts_ok l \<longleftrightarrow>
     l_first_query l = find (\<lambda>r. r_type r = DnsQueryType) (l_resources l)
     \<and> l_first_answer l = find (\<lambda>r. r_type r = DnsAnswerType) (l_resources l)
     \<and> l_first_authority l = find (\<lambda>r. r_type r = DnsAuthorityType) (l_resources l)
     \<and> l_first_additional l = find (\<lambda>r. r_type r = DnsAdditionalType) (l_resources l)"

lemma find_snoc: "find P (xs @ [x]) = (case find P xs of Some y \<Rightarrow> Some y | None \<Rightarrow> if P x then Some x else None)"
  by (induction xs) auto

lemma firsts_ok_step:
  assumes "firsts_ok l" "l_resources l' = l_resources l @ [r]"
    and "l' = l\<lparr>l_resources := l_resources l'\<rparr>"
  shows "firsts_ok (fst (note_first qo ao r l'))"
proof -
  have f: "l_first_query l' = l_first_query l" "l_first_answer l' = l_first_answer l"
    "l_first_authority l' = l_first_authority l" "l_first_additional l' = l_first_additional l"
    by (subst assms(3), simp)+
  show ?thesis
    using assms(1) unfolding firsts_ok_def note_first_def
    by (cases "r_type r") (auto simp: assms(2) f find_snoc split: option.splits)
qed

lemma note_first_fields [simp]:
  "l_resources (fst (note_first qo ao r l)) = l_resources l" "l_data (fst (note_first qo ao r l)) = l_data l"
  by (simp_all add: note_first_def)

lemma note_first_stop: "snd (note_first qo ao r l) \<Longrightarrow> qo \<or> ao"
  by (auto simp: note_first_def split: if_splits)

lemma new_resource_fields:
  "new_resource data off ty = Some r \<Longrightarrow> r_offset r = off \<and> r_type r = ty"
  by (auto simp: new_resource_def split: option.splits if_splits)

definition parsed_ok :: "dns_layer \<Rightarrow> nat \<Rightarrow> nat \<Rightarrow> bool" where
  "parsed_ok l off cur \<longleftrightarrow> chain_end (l_data l) HDR (l_resources l) = Some off \<and> firsts_ok l
     \<and> (l_resources l \<noteq> [] \<longrightarrow> cur = length (l_resources l) - 1)"

lemma parse_step:
  assumes ok: "parsed_ok l off cur" and r: "new_resource (l_data l) off ty = Some r"
    and sz: "getSize (l_data l) r = Some n" "off + n \<le> length (l_data l)"
    and link: "link_resource r l cur = (l', cur')"
  shows "parsed_ok (fst (note_first qo ao r l')) (off + n) cur'" "l_resources l' = l_resources l @ [r]"
    "l_data l' = l_data l"
proof -
  have res: "l_resources l' = l_resources l @ [r]" and l': "l' = l\<lparr>l_resources := l_resources l'\<rparr>"
    and cur: "cur' = length (l_resources l)"
    using link ok by (auto simp: link_resource_def parsed_ok_def split: if_splits)
  show "l_resources l' = l_resources l @ [r]" by (rule res)
  show d: "l_data l' = l_data l" by (subst l') simp
  have "chain_end (l_data l) HDR (l_resources l @ [r]) = Some (off + n)"
    using ok new_resource_fields [OF r] sz by (simp add: chain_end_snoc parsed_ok_def)
  then show "parsed_ok (fst (note_first qo ao r l')) (off + n) cur'"
    using firsts_ok_step [OF _ res l', of qo ao] ok by (simp add: parsed_ok_def res d cur)
qed

lemma parse_loop_ok:
  assumes "parse_loop qo ao n counts off cur l = Some (l', res)" "parsed_ok l off cur" "total_count counts = n"
  shows "l_data l' = l_data l \<and> (\<exists>e. chain_end (l_data l) HDR (l_resources l') = Some e) \<and> firsts_ok l'
    \<and> (\<exists>k \<le> n. map r_type (l_resources l') = map r_type (l_resources l) @ take k (sections counts)
        \<and> (res \<and> \<not> qo \<and> \<not> ao \<longrightarrow> k = n))"
  using assms
proof (induction n arbitrary: counts off cur l)
  case 0
  then show ?case by (auto simp: parsed_ok_def)
next
  case (Suc n)
  let ?ty = "fst (next_type counts)" and ?c = "snd (next_type counts)"
  note sec = next_type_sections [OF Suc.prems(3)]
  from Suc.prems(1) obtain r where r: "new_resource (l_data l) off ?ty = Some r"
    by (auto simp: Let_def split: prod.splits option.splits)
  from Suc.prems(1) r obtain sz where sz: "getSize (l_data l) r = Some sz"
    by (auto simp: Let_def split: prod.splits option.splits)
  show ?case
  proof (cases "off + sz > length (l_data l)")
    case True
    then have "l' = l" "\<not> res" using Suc.prems(1) r sz by (auto simp: Let_def split: prod.splits)
    then show ?thesis using Suc.prems(2) by (auto simp: parsed_ok_def)
  next
    case False
    obtain l1 cur1 where link: "link_resource r l cur = (l1, cur1)" by (cases "link_resource r l cur")
    let ?l = "fst (note_first qo ao r l1)" and ?stop = "snd (note_first qo ao r l1)"
    have fit: "off + sz \<le> length (l_data l)" using False by simp
    note step = parse_step(1) [OF Suc.prems(2) r sz fit link, of qo ao] parse_step(2,3) [OF Suc.prems(2) r sz fit link]
    have ty: "map r_type (l_resources ?l) = map r_type (l_resources l) @ [?ty]"
      using step(2) new_resource_fields [OF r] by simp
    show ?thesis
    proof (cases ?stop)
      case True
      then have "l' = ?l" "res" using Suc.prems(1) r sz False link by (auto simp: Let_def split: prod.splits)
      then show ?thesis
        using step ty note_first_stop [OF True] sec(1)
        by (auto simp: parsed_ok_def intro!: exI [of _ 1])
    next
      case no: False
      then have "parse_loop qo ao n ?c (off + sz) cur1 ?l = Some (l', res)"
        using Suc.prems(1) r sz False link by (auto simp: Let_def split: prod.splits)
      from Suc.IH [OF this step(1) sec(2)] obtain k where
        ih: "l_data l' = l_data ?l" "\<exists>e. chain_end (l_data ?l) HDR (l_resources l') = Some e" "firsts_ok l'"
        and k: "k \<le> n" "map r_type (l_resources l') = map r_type (l_resources ?l) @ take k (sections ?c)"
          "res \<and> \<not> qo \<and> \<not> ao \<longrightarrow> k = n"
        by blast
      have "map r_type (l_resources l') = map r_type (l_resources l) @ take (Suc k) (sections counts)"
        using k(2) ty sec(1) by simp
      moreover have "l_data ?l = l_data l" using step(3) by simp
      ultimately show ?thesis using ih k(1,3) by (auto intro!: exI [of _ "Suc k"])
    qed
  qed
qed

text \<open>An address that has no text leaves the subnet empty.\<close>

definition the_default :: "'a \<Rightarrow> 'a option \<Rightarrow> 'a" where
  "the_default d x = (case x of Some y \<Rightarrow> y | None \<Rightarrow> d)"

subsection \<open>Properties\<close>

text \<open>
  C17: A successful parse of a fresh DNS layer: the resources lie one after the other from the end of
  the header on and inside the packet, in the order of the sections of the header and no more of
  each than it counts, all of them unless only the first query or additional record was asked
  for, and the first resource of each section is recorded.
\<close>

theorem parseResources_sections:
  assumes "header_counts data = Some counts"
    and "parseResources queryOnly additionalOnly forceParse (new_layer data) = Some (l, True)"
  shows "(\<exists>e. chain_end data HDR (l_resources l) = Some e)
    \<and> (\<exists>k \<le> total_count counts. map r_type (l_resources l) = take k (sections counts)
        \<and> (queryOnly \<or> additionalOnly \<or> k = total_count counts))
    \<and> total_count counts \<le> MAX_RESOURCES \<and> firsts_ok l"
proof -
  obtain q a au ad where c: "counts = (q, a, au, ad)" by (cases counts)
  let ?l = "new_layer data"
  from assms obtain l' where loop: "parse_loop queryOnly additionalOnly (total_count counts) counts HDR 0 ?l = Some (l', True)"
    and l: "l = l'\<lparr>l_parsed := True, l_result := True\<rparr>" and n: "total_count counts \<le> MAX_RESOURCES"
    by (auto simp: parseResources_def new_layer_def Let_def c total_count_def split: if_splits option.splits)
  have ok: "parsed_ok ?l HDR 0" by (simp add: parsed_ok_def new_layer_def firsts_ok_def)
  have f: "l_resources l = l_resources l'" "firsts_ok l = firsts_ok l'" by (simp_all add: l firsts_ok_def)
  have "l_resources ?l = []" "l_data ?l = data" by (simp_all add: new_layer_def)
  with parse_loop_ok [OF loop ok refl] n f show ?thesis by auto
qed

text \<open>A query for the name \<^verbatim>\<open>a\<close>: a header with one question, one label, the root, and a type and a class.\<close>

definition small_query :: "byte list" where
  "small_query = [0, 1, 0, 0, 0, 1, 0, 0, 0, 0, 0, 0, 1, 97, 0, 0, 1, 0, 1]"

theorem parseResources_sections_witness:
  "\<exists>l. parseResources False False False (new_layer small_query) = Some (l, True)
     \<and> total_count (1, 0, 0, 0) \<le> MAX_RESOURCES \<and> firsts_ok l"
proof -
  have h: "header_counts small_query = Some (1, 0, 0, 0)"
    by (simp add: header_counts_def small_query_def rd16_def be16_def)
  have "decodeName small_query 12 0 = Some \<lparr>dn_len = 3, dn_out = [97], dn_terminated = True\<rparr>"
    using decodeName_labels [of "[[97]]" "[0, 1, 0, 0, 0, 1, 0, 0, 0, 0, 0, 0]" "[0, 1, 0, 1]"]
    by (simp add: small_query_def label_ok_def encode_labels_def join_labels_def eval_nat_numeral)
  then obtain l where "parseResources False False False (new_layer small_query) = Some (l, True)"
    by (simp add: parseResources_def h new_layer_def Let_def MAX_RESOURCES_def HDR_def new_resource_def getSize_def
        link_resource_def note_first_def small_query_def [symmetric])
      (simp add: small_query_def link_resource_def note_first_def)
  with parseResources_sections [OF h this] show ?thesis by blast
qed

text \<open>
  The client subnet option: with an IPv4 family and an option record of at most 12 bytes, the
  address is the transmitted bytes filled up with zeros; with a longer record, which another
  option after the subnet makes, the parser writes past the end of the four byte address. With an
  IPv6 family, at most the first eight bytes of the address are taken.
\<close>

theorem parse_ecs_addresses:
  assumes "9 \<le> length arr" "be16 (arr ! 0) (arr ! 1) = CSUBNET"
  shows "(be16 (arr ! 4) (arr ! 5) = 1 \<longrightarrow>
      (if length arr \<le> 12
       then \<exists>e. parse_additional_records_ecs ntop4 ntop6 DNS_TYPE_OPT arr = Some (Some e)
         \<and> e_client_subnet e = the_default [] (ntop4 (drop 8 arr @ replicate (12 - length arr) 0))
       else parse_additional_records_ecs ntop4 ntop6 DNS_TYPE_OPT arr = None))
    \<and> (be16 (arr ! 4) (arr ! 5) = 2 \<longrightarrow>
      (\<exists>e. parse_additional_records_ecs ntop4 ntop6 DNS_TYPE_OPT arr = Some (Some e)
         \<and> e_client_subnet e =
             the_default [] (ntop6 (take 8 (drop 8 arr) @ replicate (16 - min (length arr - 8) 8) 0))))"
proof -
  let ?p = "parse_additional_records_ecs ntop4 ntop6 DNS_TYPE_OPT arr"
  have ne: "arr \<noteq> []" using assms(1) by auto
  have four: "?p = (case copy_array 4 (drop 8 arr) of None \<Rightarrow> None | Some a \<Rightarrow> ?p)"
    if "be16 (arr ! 4) (arr ! 5) = 1"
    using ne assms that by (simp add: parse_additional_records_ecs_def Let_def split: option.split)
  show ?thesis
  proof (intro conjI impI)
    assume f: "be16 (arr ! 4) (arr ! 5) = 1"
    show "if length arr \<le> 12
       then \<exists>e. ?p = Some (Some e)
         \<and> e_client_subnet e = the_default [] (ntop4 (drop 8 arr @ replicate (12 - length arr) 0))
       else ?p = None"
    proof (cases "length arr \<le> 12")
      case True
      then have "copy_array 4 (drop 8 arr) = Some (drop 8 arr @ replicate (12 - length arr) 0)"
        using assms(1) by (auto simp: copy_array_def)
      then show ?thesis using True ne assms f
        by (cases "ntop4 (drop 8 arr @ replicate (12 - length arr) 0)")
          (simp_all add: parse_additional_records_ecs_def the_default_def)
    next
      case False
      then have "copy_array 4 (drop 8 arr) = None" by (simp add: copy_array_def)
      then show ?thesis using False four [OF f] by simp
    qed
  next
    assume f: "be16 (arr ! 4) (arr ! 5) = 2"
    let ?a = "take 8 (drop 8 arr) @ replicate (16 - min (length arr - 8) 8) 0"
    have "take (min (length arr) 16 - 8) (drop 8 arr) = take 8 (drop 8 arr)" by (simp add: min_def)
    then have "copy_array 16 (take (min (length arr) 16 - 8) (drop 8 arr)) = Some ?a"
      by (simp add: copy_array_def min_def)
    then show "\<exists>e. ?p = Some (Some e) \<and> e_client_subnet e = the_default [] (ntop6 ?a)"
      using ne assms f
      by (cases "ntop6 ?a") (simp_all add: parse_additional_records_ecs_def the_default_def)
  qed
qed

theorem parse_ecs_addresses_witness:
  "parse_additional_records_ecs (\<lambda>a. Some (map char_of_byte a)) (\<lambda>a. None) DNS_TYPE_OPT
     [0, 8, 0, 8, 0, 1, 32, 0, 10, 0, 0, 1, 0] = None"
  using parse_ecs_addresses [of "[0, 8, 0, 8, 0, 1, 32, 0, 10, 0, 0, 1, 0]" "\<lambda>a. Some (map char_of_byte a)" "\<lambda>a. None"]
  by (simp add: be16_def CSUBNET_def)

end
