(* ===== verification/Netflow.thy ===== *)
theory Netflow
  imports Prelude
begin

text \<open>
  The NetFlow and IPFIX decoder (\<^verbatim>\<open>src/inputs/flow/NetflowData.h\<close>, with the packet structures of
  \<^verbatim>\<open>3rd/netflow/netflow.h\<close>): versions 1, 5 and 7 with fixed records, versions 9 and 10 with templates that
  exporters announce and that are kept in four maps shared by all exporters.

  A pointer into the datagram is the datagram and an offset, so that a read past the end of a flowset but
  inside the datagram is what it is in the code. \<open>Undef\<close> is undefined behaviour: a read outside the
  datagram or a division by zero. \<open>Bad\<close> is the result \<^verbatim>\<open>false\<close>.
\<close>

subsection \<open>Results\<close>

datatype 'a res = Undef | Bad | Good 'a

fun and_then :: "'a res \<Rightarrow> ('a \<Rightarrow> 'b res) \<Rightarrow> 'b res" where
  "and_then Undef g = Undef"
| "and_then Bad g = Bad"
| "and_then (Good x) g = g x"

definition need :: "'a option \<Rightarrow> 'a res" where
  "need x = (case x of None \<Rightarrow> Undef | Some y \<Rightarrow> Good y)"

subsection \<open>Samples\<close>

record nf_flow =
  is_ipv6 :: bool
  src_ip :: "byte list"
  dst_ip :: "byte list"
  nexthop_ip :: "byte list"
  if_index_in :: u16
  if_index_out :: u16
  flow_packets :: u32
  flow_octets :: u32
  flow_start :: u32
  flow_finish :: u32
  src_port :: u16
  dst_port :: u16
  protocol :: byte
  tos :: byte
  tcp_flags :: byte
  src_as :: u16
  dst_as :: u16
  src_mask :: byte
  dst_mask :: byte

definition new_flow :: nf_flow where
  "new_flow =
     \<lparr>is_ipv6 = False, src_ip = replicate 16 0, dst_ip = replicate 16 0, nexthop_ip = replicate 16 0,
      if_index_in = 0, if_index_out = 0, flow_packets = 0, flow_octets = 0, flow_start = 0, flow_finish = 0,
      src_port = 0, dst_port = 0, protocol = 0, tos = 0, tcp_flags = 0, src_as = 0, dst_as = 0,
      src_mask = 0, dst_mask = 0\<rparr>"

record nf_sample =
  raw_sample :: "byte list"
  version :: u16
  nflows :: nat
  uptime_ms :: u32
  time_sec :: u32
  time_nanosec :: u32
  flow_sequence :: u32
  source_id :: u32
  exporter_ip :: string
  listener_id :: string
  exporter_port :: u16
  flows :: "nf_flow list"

record nf_map_id =
  id_exporter_ip :: string
  id_listener_id :: string
  id_source_id :: u32
  id_template_id :: nat
  id_exporter_port :: u16

record nf_record =
  rec_type :: nat
  rec_len :: nat

record nf_template =
  t_template_id :: nat
  t_source_id :: u32
  t_num_records :: nat
  t_total_len :: nat
  t_records :: "nf_record list"

type_synonym nf_map = "(nf_map_id \<times> nf_template) list"

record nf_state =
  nf9_template_map :: nf_map
  nf9_options_template_map :: nf_map
  nf10_template_map :: nf_map
  nf10_options_template_map :: nf_map

abbreviation map_id :: "nf_sample \<Rightarrow> nat \<Rightarrow> nf_map_id" where
  "map_id s t \<equiv>
     \<lparr>id_exporter_ip = exporter_ip s, id_listener_id = listener_id s, id_source_id = source_id s,
      id_template_id = t, id_exporter_port = exporter_port s\<rparr>"

subsection \<open>Versions 1, 5 and 7\<close>

text \<open>\<open>ip4 raw p\<close> is a copy of four bytes into an address of sixteen.\<close>

definition ip4 :: "byte list \<Rightarrow> nat \<Rightarrow> byte list option" where
  "ip4 raw p = map_option (\<lambda>bs. bs @ replicate 12 0) (rd_bytes raw p 4)"

definition nf1_flow :: "byte list \<Rightarrow> nat \<Rightarrow> nf_flow option" where
  "nf1_flow raw p =
     do { fl \<leftarrow> rd8 raw (p + 40); pr \<leftarrow> rd8 raw (p + 38); to \<leftarrow> rd8 raw (p + 39);
          si \<leftarrow> ip4 raw p; di \<leftarrow> ip4 raw (p + 4); ni \<leftarrow> ip4 raw (p + 8);
          sp \<leftarrow> rd16 raw (p + 32); dp \<leftarrow> rd16 raw (p + 34);
          st \<leftarrow> rd32 raw (p + 24); fi \<leftarrow> rd32 raw (p + 28);
          ii \<leftarrow> rd16 raw (p + 12); io \<leftarrow> rd16 raw (p + 14);
          oc \<leftarrow> rd32 raw (p + 20); pa \<leftarrow> rd32 raw (p + 16);
          Some (new_flow
            \<lparr>tcp_flags := fl, protocol := pr, tos := to, src_ip := si, dst_ip := di, nexthop_ip := ni,
             src_port := sp, dst_port := dp, flow_start := st, flow_finish := fi, if_index_in := ii,
             if_index_out := io, flow_octets := oc, flow_packets := pa\<rparr>) }"

definition nf5_flow :: "byte list \<Rightarrow> nat \<Rightarrow> nf_flow option" where
  "nf5_flow raw p =
     do { fl \<leftarrow> rd8 raw (p + 37); pr \<leftarrow> rd8 raw (p + 38); to \<leftarrow> rd8 raw (p + 39);
          si \<leftarrow> ip4 raw p; di \<leftarrow> ip4 raw (p + 4); ni \<leftarrow> ip4 raw (p + 8);
          sp \<leftarrow> rd16 raw (p + 32); dp \<leftarrow> rd16 raw (p + 34);
          st \<leftarrow> rd32 raw (p + 24); fi \<leftarrow> rd32 raw (p + 28);
          ii \<leftarrow> rd16 raw (p + 12); io \<leftarrow> rd16 raw (p + 14);
          oc \<leftarrow> rd32 raw (p + 20); pa \<leftarrow> rd32 raw (p + 16);
          sa \<leftarrow> rd16 raw (p + 40); da \<leftarrow> rd16 raw (p + 42); sm \<leftarrow> rd8 raw (p + 44); dm \<leftarrow> rd8 raw (p + 45);
          Some (new_flow
            \<lparr>tcp_flags := fl, protocol := pr, tos := to, src_ip := si, dst_ip := di, nexthop_ip := ni,
             src_port := sp, dst_port := dp, flow_start := st, flow_finish := fi, if_index_in := ii,
             if_index_out := io, flow_octets := oc, flow_packets := pa,
             src_as := sa, dst_as := da, src_mask := sm, dst_mask := dm\<rparr>) }"

text \<open>A record of version 7 has the layout of one of version 5 and four bytes more at its end.\<close>

definition nf7_flow :: "byte list \<Rightarrow> nat \<Rightarrow> nf_flow option" where
  "nf7_flow raw p = nf5_flow raw p"

text \<open>The loop over the flows of a packet with a header of \<open>h\<close> bytes and records of \<open>w\<close> bytes.\<close>

fun flow_loop :: "(nat \<Rightarrow> nf_flow option) \<Rightarrow> nat \<Rightarrow> nat \<Rightarrow> nat \<Rightarrow> nat \<Rightarrow> nf_sample \<Rightarrow> nf_sample option" where
  "flow_loop rd h w i 0 s = Some s"
| "flow_loop rd h w i (Suc n) s =
     (case rd (h + i * w) of
        None \<Rightarrow> None
      | Some f \<Rightarrow> flow_loop rd h w (i + 1) n (s\<lparr>flows := flows s @ [f]\<rparr>))"

definition NF1_MAXFLOWS :: nat where "NF1_MAXFLOWS = 24"

definition NF5_MAXFLOWS :: nat where "NF5_MAXFLOWS = 30"

definition NF7_MAXFLOWS :: nat where "NF7_MAXFLOWS = 30"

definition NF1_PACKET_SIZE :: "nat \<Rightarrow> nat" where "NF1_PACKET_SIZE n = 16 + n * 48"

definition NF5_PACKET_SIZE :: "nat \<Rightarrow> nat" where "NF5_PACKET_SIZE n = 24 + n * 48"

definition NF7_PACKET_SIZE :: "nat \<Rightarrow> nat" where "NF7_PACKET_SIZE n = 24 + n * 52"

definition process_netflow_v1 :: "nf_sample \<Rightarrow> (nf_sample \<times> bool) option" where
  "process_netflow_v1 s =
     (let raw = raw_sample s in
      if length raw < 16 then Some (s, False)
      else if nflows s = 0 \<or> nflows s > NF1_MAXFLOWS \<or> length raw \<noteq> NF1_PACKET_SIZE (nflows s) then Some (s, False)
      else do {
        up \<leftarrow> rd32 raw 4; sec \<leftarrow> rd32 raw 8; ns \<leftarrow> rd32 raw 12;
        s' \<leftarrow> flow_loop (nf1_flow raw) 16 48 0 (nflows s) (s\<lparr>uptime_ms := up, time_sec := sec, time_nanosec := ns\<rparr>);
        Some (s', True) })"

definition process_netflow_v5 :: "nf_sample \<Rightarrow> (nf_sample \<times> bool) option" where
  "process_netflow_v5 s =
     (let raw = raw_sample s in
      if length raw < 24 then Some (s, False)
      else if nflows s = 0 \<or> nflows s > NF5_MAXFLOWS \<or> length raw \<noteq> NF5_PACKET_SIZE (nflows s) then Some (s, False)
      else do {
        up \<leftarrow> rd32 raw 4; sec \<leftarrow> rd32 raw 8; ns \<leftarrow> rd32 raw 12; sq \<leftarrow> rd32 raw 16;
        s' \<leftarrow> flow_loop (nf5_flow raw) 24 48 0 (nflows s)
               (s\<lparr>uptime_ms := up, time_sec := sec, time_nanosec := ns, flow_sequence := sq\<rparr>);
        Some (s', True) })"

definition process_netflow_v7 :: "nf_sample \<Rightarrow> (nf_sample \<times> bool) option" where
  "process_netflow_v7 s =
     (let raw = raw_sample s in
      if length raw < 24 then Some (s, False)
      else if nflows s = 0 \<or> nflows s > NF7_MAXFLOWS \<or> length raw \<noteq> NF7_PACKET_SIZE (nflows s) then Some (s, False)
      else do {
        up \<leftarrow> rd32 raw 4; sec \<leftarrow> rd32 raw 8; ns \<leftarrow> rd32 raw 12; sq \<leftarrow> rd32 raw 16;
        s' \<leftarrow> flow_loop (nf7_flow raw) 24 52 0 (nflows s)
               (s\<lparr>uptime_ms := up, time_sec := sec, time_nanosec := ns, flow_sequence := sq\<rparr>);
        Some (s', True) })"

subsection \<open>Fields of versions 9 and 10\<close>

text \<open>
  \<open>be_copy raw p target n\<close> copies a field of \<open>n\<close> bytes at \<open>p\<close> over the bytes of the target: right
  aligned when it fits, its last bytes for the two common truncations, and nothing otherwise.
\<close>

definition be_copy :: "byte list \<Rightarrow> nat \<Rightarrow> byte list \<Rightarrow> nat \<Rightarrow> byte list option" where
  "be_copy raw p target n =
     (if length target < n then
        (if length target = 2 \<and> n = 4 then map_option (drop 2) (rd_bytes raw p 4)
         else if length target = 4 \<and> n = 8 then map_option (drop 4) (rd_bytes raw p 8)
         else Some target)
      else map_option (\<lambda>bs. take (length target - n) target @ bs) (rd_bytes raw p n))"

text \<open>
  A 16 or 32 bit target holds its value in host order, the least significant byte first, when the
  bytes are copied over it, and is then read as big-endian.
\<close>

definition field8 :: "byte list \<Rightarrow> nat \<Rightarrow> nat \<Rightarrow> byte \<Rightarrow> byte option" where
  "field8 raw p n v = map_option (\<lambda>bs. bs ! 0) (be_copy raw p [v] n)"

definition field16 :: "byte list \<Rightarrow> nat \<Rightarrow> nat \<Rightarrow> u16 \<Rightarrow> u16 option" where
  "field16 raw p n v = map_option (\<lambda>bs. be16 (bs ! 0) (bs ! 1)) (be_copy raw p (le16_bytes v) n)"

definition field32 :: "byte list \<Rightarrow> nat \<Rightarrow> nat \<Rightarrow> u32 \<Rightarrow> u32 option" where
  "field32 raw p n v =
     map_option (\<lambda>bs. be32 (bs ! 0) (bs ! 1) (bs ! 2) (bs ! 3)) (be_copy raw p (le32_bytes v) n)"

definition field_ip4 :: "byte list \<Rightarrow> nat \<Rightarrow> nat \<Rightarrow> byte list \<Rightarrow> byte list option" where
  "field_ip4 raw p n v = map_option (\<lambda>bs. bs @ drop 4 v) (be_copy raw p (take 4 v) n)"

definition field_ip6 :: "byte list \<Rightarrow> nat \<Rightarrow> nat \<Rightarrow> byte list \<Rightarrow> byte list option" where
  "field_ip6 raw p n v = be_copy raw p v n"

definition nf9_rec_to_flow :: "nf_flow \<Rightarrow> nf_record \<Rightarrow> byte list \<Rightarrow> nat \<Rightarrow> nf_flow option" where
  "nf9_rec_to_flow f r raw p =
     (let t = rec_type r; n = rec_len r in
      if t = 1 then map_option (\<lambda>v. f\<lparr>flow_octets := v\<rparr>) (field32 raw p n (flow_octets f))
      else if t = 2 then map_option (\<lambda>v. f\<lparr>flow_packets := v\<rparr>) (field32 raw p n (flow_packets f))
      else if t = 4 then map_option (\<lambda>v. f\<lparr>protocol := v\<rparr>) (field8 raw p n (protocol f))
      else if t = 5 then map_option (\<lambda>v. f\<lparr>tos := v\<rparr>) (field8 raw p n (tos f))
      else if t = 6 then map_option (\<lambda>v. f\<lparr>tcp_flags := v\<rparr>) (field8 raw p n (tcp_flags f))
      else if t = 9 then map_option (\<lambda>v. f\<lparr>src_mask := v\<rparr>) (field8 raw p n (src_mask f))
      else if t = 13 then map_option (\<lambda>v. f\<lparr>dst_mask := v\<rparr>) (field8 raw p n (dst_mask f))
      else if t = 7 then map_option (\<lambda>v. f\<lparr>src_port := v\<rparr>) (field16 raw p n (src_port f))
      else if t = 10 then map_option (\<lambda>v. f\<lparr>if_index_in := v\<rparr>) (field16 raw p n (if_index_in f))
      else if t = 11 then map_option (\<lambda>v. f\<lparr>dst_port := v\<rparr>) (field16 raw p n (dst_port f))
      else if t = 14 then map_option (\<lambda>v. f\<lparr>if_index_out := v\<rparr>) (field16 raw p n (if_index_out f))
      else if t = 16 then map_option (\<lambda>v. f\<lparr>src_as := v\<rparr>) (field16 raw p n (src_as f))
      else if t = 17 then map_option (\<lambda>v. f\<lparr>dst_as := v\<rparr>) (field16 raw p n (dst_as f))
      else if t = 21 then map_option (\<lambda>v. f\<lparr>flow_finish := v\<rparr>) (field32 raw p n (flow_finish f))
      else if t = 22 then map_option (\<lambda>v. f\<lparr>flow_start := v\<rparr>) (field32 raw p n (flow_start f))
      else if t = 29 then map_option (\<lambda>v. f\<lparr>src_mask := v\<rparr>) (field8 raw p n (src_mask f))
      else if t = 30 then map_option (\<lambda>v. f\<lparr>dst_mask := v\<rparr>) (field8 raw p n (dst_mask f))
      else if t = 8 then map_option (\<lambda>v. f\<lparr>src_ip := v\<rparr>) (field_ip4 raw p n (src_ip f))
      else if t = 27 then map_option (\<lambda>v. f\<lparr>src_ip := v\<rparr>) (field_ip6 raw p n (src_ip f))
      else if t = 12 then map_option (\<lambda>v. f\<lparr>dst_ip := v\<rparr>) (field_ip4 raw p n (dst_ip f))
      else if t = 28 then map_option (\<lambda>v. f\<lparr>dst_ip := v\<rparr>) (field_ip6 raw p n (dst_ip f))
      else if t = 15 then map_option (\<lambda>v. f\<lparr>nexthop_ip := v\<rparr>) (field_ip4 raw p n (nexthop_ip f))
      else if t = 62 then map_option (\<lambda>v. f\<lparr>nexthop_ip := v\<rparr>) (field_ip6 raw p n (nexthop_ip f))
      else if t = 60 then map_option (\<lambda>b. if b = 6 then f\<lparr>is_ipv6 := True\<rparr> else f) (rd8 raw p)
      else Some f)"

text \<open>The cases of version 10 and their numbers are those of version 9.\<close>

definition nf10_rec_to_flow :: "nf_flow \<Rightarrow> nf_record \<Rightarrow> byte list \<Rightarrow> nat \<Rightarrow> nf_flow option" where
  "nf10_rec_to_flow = nf9_rec_to_flow"

subsection \<open>Templates of version 9\<close>

text \<open>
  The field specifications of a template: \<open>b\<close> is where the flowset starts in the datagram, \<open>len\<close> its
  length, \<open>off\<close> the offset in the flowset. The result has the offset after the fields.
\<close>

fun v9_fields :: "byte list \<Rightarrow> nat \<Rightarrow> nat \<Rightarrow> nat \<Rightarrow> nat \<Rightarrow> (nf_record list \<times> nat) res" where
  "v9_fields raw b len 0 off = Good ([], off)"
| "v9_fields raw b len (Suc n) off =
     (if off \<ge> len then Bad
      else and_then (need (rd16 raw (b + off))) (\<lambda>t.
        and_then (need (rd16 raw (b + off + 2))) (\<lambda>l.
          and_then (v9_fields raw b len n (off + 4)) (\<lambda>(rs, off').
            Good (\<lparr>rec_type = unat t, rec_len = unat l\<rparr> # rs, off')))))"

lemma v9_fields_advance: "v9_fields raw b len n off = Good (rs, off') \<Longrightarrow> off' = off + 4 * n \<and> length rs = n"
proof (induction n arbitrary: off rs off')
  case 0
  then show ?case by simp
next
  case (Suc n)
  from Suc.prems obtain t l rs' where "v9_fields raw b len n (off + 4) = Good (rs', off')" "rs = \<lparr>rec_type = t, rec_len = l\<rparr> # rs'"
    by (auto simp: need_def split: if_splits option.splits elim!: and_then.elims)
  with Suc.IH [of "off + 4" rs' off'] show ?case by simp
qed

definition mk_template :: "u32 \<Rightarrow> nat \<Rightarrow> nat \<Rightarrow> nf_record list \<Rightarrow> nat \<Rightarrow> nf_template" where
  "mk_template sid tid count rs bytes =
     \<lparr>t_template_id = tid, t_source_id = sid, t_num_records = count, t_total_len = bytes, t_records = rs\<rparr>"

type_synonym pending = "(nat \<times> nf_template) list"

function v9_templates :: "byte list \<Rightarrow> nat \<Rightarrow> nat \<Rightarrow> u32 \<Rightarrow> nat \<Rightarrow> pending res" where
  "v9_templates raw b len sid off =
     (if off < len then
        (case rd16 raw (b + off) of None \<Rightarrow> Undef | Some tid \<Rightarrow>
         case rd16 raw (b + off + 2) of None \<Rightarrow> Undef | Some count \<Rightarrow>
         case v9_fields raw b len (unat count) (off + 4) of Undef \<Rightarrow> Undef | Bad \<Rightarrow> Bad | Good (rs, off') \<Rightarrow>
         and_then (v9_templates raw b len sid off') (\<lambda>ps.
           Good ((unat tid, mk_template sid (unat tid) (unat count) rs (sum_list (map rec_len rs))) # ps)))
      else Good [])"
  by pat_completeness auto
termination
  by (relation "measure (\<lambda>(raw, b, len, sid, off). len - off)") (auto dest: v9_fields_advance)

declare v9_templates.simps [simp del]

text \<open>Registration: one map gets the templates, the other one loses their ids.\<close>

definition commit :: "nf_sample \<Rightarrow> pending \<Rightarrow> nf_map \<times> nf_map \<Rightarrow> nf_map \<times> nf_map" where
  "commit s ps maps =
     fold (\<lambda>(tid, t) (m, m'). (AList.update (map_id s tid) t m, AList.delete (map_id s tid) m')) ps maps"

definition process_netflow_v9_template :: "nf_sample \<Rightarrow> nat \<Rightarrow> nat \<Rightarrow> nf_state \<Rightarrow> (nf_state \<times> bool) option" where
  "process_netflow_v9_template s b len st =
     (if len < 4 then Some (st, False)
      else case rd16 (raw_sample s) b of
        None \<Rightarrow> None
      | Some fid \<Rightarrow>
          if fid \<noteq> 0 then Some (st, False)
          else
            (case v9_templates (raw_sample s) b len (source_id s) 4 of
               Undef \<Rightarrow> None
             | Bad \<Rightarrow> Some (st, False)
             | Good ps \<Rightarrow>
                 let (m, m') = commit s ps (nf9_template_map st, nf9_options_template_map st)
                 in Some (st\<lparr>nf9_template_map := m, nf9_options_template_map := m'\<rparr>, True)))"

subsection \<open>Options templates of version 9\<close>

fun v9_option_fields :: "byte list \<Rightarrow> nat \<Rightarrow> nat \<Rightarrow> nat \<Rightarrow> nat \<Rightarrow> (nf_record list \<times> nat) res" where
  "v9_option_fields raw b len 0 off = Good ([], off)"
| "v9_option_fields raw b len (Suc n) off =
     (if off + 4 > len then Bad
      else and_then (need (rd16 raw (b + off))) (\<lambda>t.
        and_then (need (rd16 raw (b + off + 2))) (\<lambda>l.
          and_then (v9_option_fields raw b len n (off + 4)) (\<lambda>(rs, off').
            Good (\<lparr>rec_type = unat t, rec_len = unat l\<rparr> # rs, off')))))"

lemma v9_option_fields_advance:
  "v9_option_fields raw b len n off = Good (rs, off') \<Longrightarrow> off' = off + 4 * n \<and> length rs = n"
proof (induction n arbitrary: off rs off')
  case 0
  then show ?case by simp
next
  case (Suc n)
  from Suc.prems obtain t l rs' where
    "v9_option_fields raw b len n (off + 4) = Good (rs', off')" "rs = \<lparr>rec_type = t, rec_len = l\<rparr> # rs'"
    by (auto simp: need_def split: if_splits option.splits elim!: and_then.elims)
  with Suc.IH [of "off + 4" rs' off'] show ?case by simp
qed

text \<open>What remains of a flowset after its last record is padding if it is short and zero.\<close>

definition padding :: "byte list \<Rightarrow> nat \<Rightarrow> nat \<Rightarrow> nat \<Rightarrow> pending res" where
  "padding raw b len off =
     (if len - off > 3 then Bad
      else and_then (need (rd_bytes raw (b + off) (len - off))) (\<lambda>bs.
        if list_all (\<lambda>x. x = 0) bs then Good [] else Bad))"

function v9_options :: "byte list \<Rightarrow> nat \<Rightarrow> nat \<Rightarrow> u32 \<Rightarrow> nat \<Rightarrow> pending res" where
  "v9_options raw b len sid off =
     (if off < len then
        if off + 6 > len then padding raw b len off
        else
          (case rd16 raw (b + off) of None \<Rightarrow> Undef | Some tid \<Rightarrow>
           case rd16 raw (b + off + 2) of None \<Rightarrow> Undef | Some scope \<Rightarrow>
           case rd16 raw (b + off + 4) of None \<Rightarrow> Undef | Some opt \<Rightarrow>
           if unat scope mod 4 \<noteq> 0 \<or> unat opt mod 4 \<noteq> 0 then Bad
           else
             case v9_option_fields raw b len ((unat scope + unat opt) div 4) (off + 6) of
               Undef \<Rightarrow> Undef | Bad \<Rightarrow> Bad | Good (rs, off') \<Rightarrow>
             and_then (v9_options raw b len sid off') (\<lambda>ps.
               Good ((unat tid, mk_template sid (unat tid) ((unat scope + unat opt) div 4) rs (sum_list (map rec_len rs))) # ps)))
      else Good [])"
  by pat_completeness auto
termination
  by (relation "measure (\<lambda>(raw, b, len, sid, off). len - off)") (auto dest: v9_option_fields_advance)

declare v9_options.simps [simp del]

definition process_netflow_v9_options_template :: "nf_sample \<Rightarrow> nat \<Rightarrow> nat \<Rightarrow> nf_state \<Rightarrow> (nf_state \<times> bool) option" where
  "process_netflow_v9_options_template s b len st =
     (if len < 4 then Some (st, False)
      else case rd16 (raw_sample s) b of
        None \<Rightarrow> None
      | Some fid \<Rightarrow>
          if fid \<noteq> 1 then Some (st, False)
          else
            (case v9_options (raw_sample s) b len (source_id s) 4 of
               Undef \<Rightarrow> None
             | Bad \<Rightarrow> Some (st, False)
             | Good ps \<Rightarrow>
                 let (m, m') = commit s ps (nf9_options_template_map st, nf9_template_map st)
                 in Some (st\<lparr>nf9_options_template_map := m, nf9_template_map := m'\<rparr>, True)))"

subsection \<open>Data and datagrams of version 9\<close>

fun v9_record :: "nf_record list \<Rightarrow> byte list \<Rightarrow> nat \<Rightarrow> nf_flow \<Rightarrow> nf_flow option" where
  "v9_record [] raw p f = Some f"
| "v9_record (r # rs) raw p f =
     (case nf9_rec_to_flow f r raw p of None \<Rightarrow> None | Some f' \<Rightarrow> v9_record rs raw (p + rec_len r) f')"

text \<open>The offset is a 16 bit variable.\<close>

fun v9_data_loop :: "nf_template \<Rightarrow> byte list \<Rightarrow> nat \<Rightarrow> nat \<Rightarrow> nat \<Rightarrow> nf_flow list \<Rightarrow> nf_flow list option" where
  "v9_data_loop t raw b 0 off fs = Some fs"
| "v9_data_loop t raw b (Suc n) off fs =
     (case v9_record (take (t_num_records t) (t_records t)) raw (b + off) new_flow of
        None \<Rightarrow> None
      | Some f \<Rightarrow> v9_data_loop t raw b n ((off + t_total_len t) mod 65536) (fs @ [f]))"

definition process_netflow_v9_data :: "nf_sample \<Rightarrow> nat \<Rightarrow> nat \<Rightarrow> nf_state \<Rightarrow> nf_flow list \<Rightarrow> nf_flow list res" where
  "process_netflow_v9_data s b len st fs =
     (if nf9_template_map st = [] then Bad
      else if len < 4 then Bad
      else and_then (need (rd16 (raw_sample s) b)) (\<lambda>fid.
        case map_of (nf9_template_map st) (map_id s (unat fid)) of
          None \<Rightarrow> Bad
        | Some t \<Rightarrow>
            if t_records t = [] then Bad
            else if t_total_len t = 0 then Undef
            else
              let n = (len - 4) div t_total_len t mod 65536 in
              if n = 0 \<or> n > 16384 then Bad
              else need (v9_data_loop t (raw_sample s) b n 4 fs)))"

text \<open>
  One flowset: the templates and the flows after it, or \<^verbatim>\<open>false\<close> for the whole datagram. Templates that a
  datagram registered before it is refused stay registered.
\<close>

definition v9_flowset :: "nf_sample \<Rightarrow> nat \<Rightarrow> nat \<Rightarrow> nat \<Rightarrow> nf_state \<Rightarrow> nf_flow list \<Rightarrow> (nf_state \<times> nf_flow list \<times> bool) option" where
  "v9_flowset s b fid len st fs =
     (if fid = 0 then
        map_option (\<lambda>(st', ok). (st', fs, ok)) (process_netflow_v9_template s b len st)
      else if fid = 1 then
        map_option (\<lambda>(st', _). (st', fs, True)) (process_netflow_v9_options_template s b len st)
      else if fid < 256 then Some (st, fs, True)
      else if map_of (nf9_options_template_map st) (map_id s fid) \<noteq> None then Some (st, fs, True)
      else if map_of (nf9_template_map st) (map_id s fid) = None then Some (st, fs, True)
      else
        (case process_netflow_v9_data s b len st fs of
           Undef \<Rightarrow> None
         | Bad \<Rightarrow> Some (st, fs, False)
         | Good fs' \<Rightarrow> Some (st, fs', True)))"

datatype loop_end = Done | Truncated | Refused

function v9_loop :: "nf_sample \<Rightarrow> nat \<Rightarrow> nf_state \<Rightarrow> nf_flow list \<Rightarrow> (nf_state \<times> nf_flow list \<times> loop_end) option" where
  "v9_loop s off st fs =
     (if off \<ge> length (raw_sample s) then Some (st, fs, Done)
      else
        case rd16 (raw_sample s) off of None \<Rightarrow> None | Some fid \<Rightarrow>
        case rd16 (raw_sample s) (off + 2) of None \<Rightarrow> None | Some len \<Rightarrow>
        if off + unat len > length (raw_sample s) then Some (st, fs, Truncated)
        else if unat len < 4 then Some (st, fs, Truncated)
        else
          case v9_flowset s off (unat fid) (unat len) st fs of
            None \<Rightarrow> None
          | Some (st', fs', ok) \<Rightarrow>
              if \<not> ok then Some (st', fs', Refused)
              else v9_loop s (off + unat len) st' fs')"
  by pat_completeness auto
termination
  by (relation "measure (\<lambda>(s, off, st, fs). length (raw_sample s) - off)") auto

declare v9_loop.simps [simp del]

definition process_netflow_v9 :: "nf_sample \<Rightarrow> nf_state \<Rightarrow> (nf_state \<times> nf_sample \<times> bool) option" where
  "process_netflow_v9 s st =
     (let raw = raw_sample s in
      if length raw < 20 then Some (st, s, False)
      else if length raw = 20 \<and> nflows s \<noteq> 0 then Some (st, s, False)
      else do {
        up \<leftarrow> rd32 raw 4; sec \<leftarrow> rd32 raw 8; sq \<leftarrow> rd32 raw 12; sid \<leftarrow> rd32 raw 16;
        let s' = s\<lparr>uptime_ms := up, time_sec := sec, flow_sequence := sq, source_id := sid\<rparr>;
        (st', fs, e) \<leftarrow> v9_loop s' 20 st [];
        Some (case e of
                Refused \<Rightarrow> (st', s', False)
              | Truncated \<Rightarrow> (st', s'\<lparr>flows := fs\<rparr>, False)
              | Done \<Rightarrow> (st', s'\<lparr>flows := fs\<rparr>, True)) })"

subsection \<open>Templates of version 10\<close>

definition ENTERPRISE :: "u16 \<Rightarrow> bool" where
  "ENTERPRISE t = bit t 15"

definition VARIABLE_LEN :: nat where
  "VARIABLE_LEN = 65535"

fun v10_fields :: "byte list \<Rightarrow> nat \<Rightarrow> nat \<Rightarrow> nat \<Rightarrow> nat \<Rightarrow> (nf_record list \<times> nat) res" where
  "v10_fields raw b len 0 off = Good ([], off)"
| "v10_fields raw b len (Suc n) off =
     (if off \<ge> len then Bad
      else and_then (need (rd16 raw (b + off))) (\<lambda>t.
        and_then (need (rd16 raw (b + off + 2))) (\<lambda>l.
          if ENTERPRISE t \<and> off + 8 > len then Bad
          else
            and_then (v10_fields raw b len n (off + (if ENTERPRISE t then 8 else 4))) (\<lambda>(rs, off').
              Good (\<lparr>rec_type = unat t, rec_len = unat l\<rparr> # rs, off')))))"

lemma v10_fields_advance:
  "v10_fields raw b len n off = Good (rs, off') \<Longrightarrow> off + 4 * n \<le> off' \<and> length rs = n"
proof (induction n arbitrary: off rs off')
  case 0
  then show ?case by simp
next
  case (Suc n)
  from Suc.prems obtain t l rs' k where
    "v10_fields raw b len n k = Good (rs', off')" "off + 4 \<le> k" "rs = \<lparr>rec_type = t, rec_len = l\<rparr> # rs'"
    by (auto simp: need_def split: if_splits option.splits elim!: and_then.elims)
  with Suc.IH [of k rs' off'] show ?case by simp
qed

definition v10_len :: "nf_record \<Rightarrow> nat" where
  "v10_len r = (if rec_len r = VARIABLE_LEN then 1 else rec_len r)"

function v10_templates :: "byte list \<Rightarrow> nat \<Rightarrow> nat \<Rightarrow> u32 \<Rightarrow> nat \<Rightarrow> pending res" where
  "v10_templates raw b len sid off =
     (if off < len then
        (case rd16 raw (b + off) of None \<Rightarrow> Undef | Some tid \<Rightarrow>
         case rd16 raw (b + off + 2) of None \<Rightarrow> Undef | Some count \<Rightarrow>
         case v10_fields raw b len (unat count) (off + 4) of Undef \<Rightarrow> Undef | Bad \<Rightarrow> Bad | Good (rs, off') \<Rightarrow>
         and_then (v10_templates raw b len sid off') (\<lambda>ps.
           Good ((unat tid, mk_template sid (unat tid) (unat count) rs (sum_list (map v10_len rs))) # ps)))
      else Good [])"
  by pat_completeness auto
termination
  by (relation "measure (\<lambda>(raw, b, len, sid, off). len - off)") (auto dest: v10_fields_advance)

declare v10_templates.simps [simp del]

definition process_netflow_v10_template :: "nf_sample \<Rightarrow> nat \<Rightarrow> nat \<Rightarrow> nf_state \<Rightarrow> (nf_state \<times> bool) option" where
  "process_netflow_v10_template s b len st =
     (if len < 4 then Some (st, False)
      else case rd16 (raw_sample s) b of
        None \<Rightarrow> None
      | Some fid \<Rightarrow>
          if fid \<noteq> 2 then Some (st, False)
          else
            (case v10_templates (raw_sample s) b len (source_id s) 4 of
               Undef \<Rightarrow> None
             | Bad \<Rightarrow> Some (st, False)
             | Good ps \<Rightarrow>
                 let (m, m') = commit s ps (nf10_template_map st, nf10_options_template_map st)
                 in Some (st\<lparr>nf10_template_map := m, nf10_options_template_map := m'\<rparr>, True)))"

subsection \<open>Options templates of version 10\<close>

fun v10_option_fields :: "byte list \<Rightarrow> nat \<Rightarrow> nat \<Rightarrow> nat \<Rightarrow> nat \<Rightarrow> (nf_record list \<times> nat) res" where
  "v10_option_fields raw b len 0 off = Good ([], off)"
| "v10_option_fields raw b len (Suc n) off =
     (if off + 4 > len then Bad
      else and_then (need (rd16 raw (b + off))) (\<lambda>t.
        and_then (need (rd16 raw (b + off + 2))) (\<lambda>l.
          if ENTERPRISE t \<and> off + 8 > len then Bad
          else
            and_then (v10_option_fields raw b len n (off + (if ENTERPRISE t then 8 else 4))) (\<lambda>(rs, off').
              Good (\<lparr>rec_type = unat t, rec_len = unat l\<rparr> # rs, off')))))"

lemma v10_option_fields_advance:
  "v10_option_fields raw b len n off = Good (rs, off') \<Longrightarrow> off + 4 * n \<le> off' \<and> length rs = n"
proof (induction n arbitrary: off rs off')
  case 0
  then show ?case by simp
next
  case (Suc n)
  from Suc.prems obtain t l rs' k where
    "v10_option_fields raw b len n k = Good (rs', off')" "off + 4 \<le> k" "rs = \<lparr>rec_type = t, rec_len = l\<rparr> # rs'"
    by (auto simp: need_def split: if_splits option.splits elim!: and_then.elims)
  with Suc.IH [of k rs' off'] show ?case by simp
qed

function v10_options :: "byte list \<Rightarrow> nat \<Rightarrow> nat \<Rightarrow> u32 \<Rightarrow> nat \<Rightarrow> pending res" where
  "v10_options raw b len sid off =
     (if off < len then
        if off + 6 > len then padding raw b len off
        else
          (case rd16 raw (b + off) of None \<Rightarrow> Undef | Some tid \<Rightarrow>
           case rd16 raw (b + off + 2) of None \<Rightarrow> Undef | Some count \<Rightarrow>
           case rd16 raw (b + off + 4) of None \<Rightarrow> Undef | Some scope \<Rightarrow>
           if unat scope > unat count then Bad
           else if unat count > 0 \<and> unat scope = 0 then Bad
           else
             case v10_option_fields raw b len (unat count) (off + 6) of
               Undef \<Rightarrow> Undef | Bad \<Rightarrow> Bad | Good (rs, off') \<Rightarrow>
             and_then (v10_options raw b len sid off') (\<lambda>ps.
               Good ((unat tid, mk_template sid (unat tid) (unat count) rs (sum_list (map v10_len rs))) # ps)))
      else Good [])"
  by pat_completeness auto
termination
  by (relation "measure (\<lambda>(raw, b, len, sid, off). len - off)") (auto dest: v10_option_fields_advance)

declare v10_options.simps [simp del]

definition process_netflow_v10_options_template :: "nf_sample \<Rightarrow> nat \<Rightarrow> nat \<Rightarrow> nf_state \<Rightarrow> (nf_state \<times> bool) option" where
  "process_netflow_v10_options_template s b len st =
     (if len < 4 then Some (st, False)
      else case rd16 (raw_sample s) b of
        None \<Rightarrow> None
      | Some fid \<Rightarrow>
          if fid \<noteq> 3 then Some (st, False)
          else
            (case v10_options (raw_sample s) b len (source_id s) 4 of
               Undef \<Rightarrow> None
             | Bad \<Rightarrow> Some (st, False)
             | Good ps \<Rightarrow>
                 let (m, m') = commit s ps (nf10_options_template_map st, nf10_template_map st)
                 in Some (st\<lparr>nf10_options_template_map := m, nf10_template_map := m'\<rparr>, True)))"

subsection \<open>Data and datagrams of version 10\<close>

text \<open>A field of variable length starts with a byte that has its length.\<close>

fun v10_record :: "nf_record list \<Rightarrow> byte list \<Rightarrow> nat \<Rightarrow> nf_flow \<Rightarrow> nf_flow option" where
  "v10_record [] raw p f = Some f"
| "v10_record (r # rs) raw p f =
     (case nf10_rec_to_flow f r raw p of
        None \<Rightarrow> None
      | Some f' \<Rightarrow>
          if rec_len r = VARIABLE_LEN then
            (case rd8 raw p of None \<Rightarrow> None | Some n \<Rightarrow> v10_record rs raw (p + (unat n + 1)) f')
          else v10_record rs raw (p + rec_len r) f')"

fun v10_data_loop :: "nf_template \<Rightarrow> byte list \<Rightarrow> nat \<Rightarrow> nat \<Rightarrow> nat \<Rightarrow> nf_flow list \<Rightarrow> nf_flow list option" where
  "v10_data_loop t raw b 0 off fs = Some fs"
| "v10_data_loop t raw b (Suc n) off fs =
     (case v10_record (take (t_num_records t) (t_records t)) raw (b + off) new_flow of
        None \<Rightarrow> None
      | Some f \<Rightarrow> v10_data_loop t raw b n ((off + t_total_len t) mod 65536) (fs @ [f]))"

definition process_netflow_v10_data :: "nf_sample \<Rightarrow> nat \<Rightarrow> nat \<Rightarrow> nf_state \<Rightarrow> nf_flow list \<Rightarrow> nf_flow list res" where
  "process_netflow_v10_data s b len st fs =
     (if nf10_template_map st = [] then Bad
      else if len < 4 then Bad
      else and_then (need (rd16 (raw_sample s) b)) (\<lambda>fid.
        case map_of (nf10_template_map st) (map_id s (unat fid)) of
          None \<Rightarrow> Bad
        | Some t \<Rightarrow>
            if t_records t = [] then Bad
            else if t_total_len t = 0 then Undef
            else
              let n = (len - 4) div t_total_len t mod 65536 in
              if n = 0 \<or> n > 16384 then Bad
              else need (v10_data_loop t (raw_sample s) b n 4 fs)))"

definition v10_flowset :: "nf_sample \<Rightarrow> nat \<Rightarrow> nat \<Rightarrow> nat \<Rightarrow> nf_state \<Rightarrow> nf_flow list \<Rightarrow> (nf_state \<times> nf_flow list \<times> bool) option" where
  "v10_flowset s b fid len st fs =
     (if fid = 2 then
        map_option (\<lambda>(st', ok). (st', fs, ok)) (process_netflow_v10_template s b len st)
      else if fid = 3 then
        map_option (\<lambda>(st', _). (st', fs, True)) (process_netflow_v10_options_template s b len st)
      else if fid < 256 then Some (st, fs, True)
      else if map_of (nf10_options_template_map st) (map_id s fid) \<noteq> None then Some (st, fs, True)
      else if map_of (nf10_template_map st) (map_id s fid) = None then Some (st, fs, True)
      else
        (case process_netflow_v10_data s b len st fs of
           Undef \<Rightarrow> None
         | Bad \<Rightarrow> Some (st, fs, False)
         | Good fs' \<Rightarrow> Some (st, fs', True)))"

function v10_loop :: "nf_sample \<Rightarrow> nat \<Rightarrow> nf_state \<Rightarrow> nf_flow list \<Rightarrow> (nf_state \<times> nf_flow list \<times> loop_end) option" where
  "v10_loop s off st fs =
     (if off \<ge> length (raw_sample s) then Some (st, fs, Done)
      else
        case rd16 (raw_sample s) off of None \<Rightarrow> None | Some fid \<Rightarrow>
        case rd16 (raw_sample s) (off + 2) of None \<Rightarrow> None | Some len \<Rightarrow>
        if off + unat len > length (raw_sample s) then Some (st, fs, Truncated)
        else if unat len < 4 then Some (st, fs, Truncated)
        else
          case v10_flowset s off (unat fid) (unat len) st fs of
            None \<Rightarrow> None
          | Some (st', fs', ok) \<Rightarrow>
              if \<not> ok then Some (st', fs', Refused)
              else v10_loop s (off + unat len) st' fs')"
  by pat_completeness auto
termination
  by (relation "measure (\<lambda>(s, off, st, fs). length (raw_sample s) - off)") auto

declare v10_loop.simps [simp del]

definition process_netflow_v10 :: "nf_sample \<Rightarrow> nf_state \<Rightarrow> (nf_state \<times> nf_sample \<times> bool) option" where
  "process_netflow_v10 s st =
     (let raw = raw_sample s in
      if length raw < 16 then Some (st, s, False)
      else do {
        sec \<leftarrow> rd32 raw 4; sq \<leftarrow> rd32 raw 8; sid \<leftarrow> rd32 raw 12;
        let s' = s\<lparr>time_sec := sec, flow_sequence := sq, source_id := sid\<rparr>;
        (st', fs, e) \<leftarrow> v10_loop s' 16 st [];
        Some (case e of
                Refused \<Rightarrow> (st', s', False)
              | Truncated \<Rightarrow> (st', s'\<lparr>flows := fs\<rparr>, False)
              | Done \<Rightarrow> (st', s'\<lparr>flows := fs\<rparr>, True)) })"

subsection \<open>Datagrams\<close>

definition process_netflow_packet :: "nf_sample \<Rightarrow> nf_state \<Rightarrow> (nf_state \<times> nf_sample \<times> bool) option" where
  "process_netflow_packet s st =
     do { v \<leftarrow> rd16 (raw_sample s) 0; n \<leftarrow> rd16 (raw_sample s) 2;
          let s' = s\<lparr>version := v, nflows := unat n\<rparr>;
          if v = 1 then map_option (Pair st) (process_netflow_v1 s')
          else if v = 5 then map_option (Pair st) (process_netflow_v5 s')
          else if v = 7 then map_option (Pair st) (process_netflow_v7 s')
          else if v = 9 then process_netflow_v9 s' st
          else if v = 10 then process_netflow_v10 s' st
          else Some (st, s', False) }"

subsection \<open>Registration of templates\<close>

text \<open>
  A key is foreign to a sample if it belongs to another exporter, listener, port or source. What a
  flowset may do to the four maps: nothing to foreign keys, no id in both maps of a version, and only
  templates whose counts are those of their records.
\<close>

definition foreign :: "nf_sample \<Rightarrow> nf_map_id \<Rightarrow> bool" where
  "foreign s k \<longleftrightarrow> id_exporter_ip k \<noteq> exporter_ip s \<or> id_listener_id k \<noteq> listener_id s
     \<or> id_source_id k \<noteq> source_id s \<or> id_exporter_port k \<noteq> exporter_port s"

definition exclusive :: "nf_map \<Rightarrow> nf_map \<Rightarrow> bool" where
  "exclusive m m' \<longleftrightarrow> (\<forall>k. map_of m k = None \<or> map_of m' k = None)"

definition template_ok :: "(nf_record \<Rightarrow> nat) \<Rightarrow> nf_template \<Rightarrow> bool" where
  "template_ok w t \<longleftrightarrow> t_num_records t = length (t_records t) \<and> t_total_len t = sum_list (map w (t_records t))"

definition all_ok :: "(nf_record \<Rightarrow> nat) \<Rightarrow> nf_map \<Rightarrow> bool" where
  "all_ok w m \<longleftrightarrow> (\<forall>k t. map_of m k = Some t \<longrightarrow> template_ok w t)"

definition maps_ok :: "nf_state \<Rightarrow> bool" where
  "maps_ok st \<longleftrightarrow>
     exclusive (nf9_template_map st) (nf9_options_template_map st)
     \<and> exclusive (nf10_template_map st) (nf10_options_template_map st)
     \<and> all_ok rec_len (nf9_template_map st) \<and> all_ok rec_len (nf9_options_template_map st)
     \<and> all_ok v10_len (nf10_template_map st) \<and> all_ok v10_len (nf10_options_template_map st)"

definition same_foreign :: "nf_sample \<Rightarrow> nf_map \<Rightarrow> nf_map \<Rightarrow> bool" where
  "same_foreign s m m' \<longleftrightarrow> (\<forall>k. foreign s k \<longrightarrow> map_of m' k = map_of m k)"

definition keeps :: "nf_sample \<Rightarrow> nf_state \<Rightarrow> nf_state \<Rightarrow> bool" where
  "keeps s st st' \<longleftrightarrow>
     same_foreign s (nf9_template_map st) (nf9_template_map st')
     \<and> same_foreign s (nf9_options_template_map st) (nf9_options_template_map st')
     \<and> same_foreign s (nf10_template_map st) (nf10_template_map st')
     \<and> same_foreign s (nf10_options_template_map st) (nf10_options_template_map st')
     \<and> (maps_ok st \<longrightarrow> maps_ok st')"

lemma keeps_refl [simp]: "keeps s st st"
  by (simp add: keeps_def same_foreign_def)

lemma keeps_trans: "keeps s st st' \<Longrightarrow> keeps s st' st'' \<Longrightarrow> keeps s st st''"
  by (simp add: keeps_def same_foreign_def)

lemma same_foreign_refl [simp]: "same_foreign s m m"
  by (simp add: same_foreign_def)

lemma commit_put_erase:
  "commit s ps (m, m') =
     (umap.put_all (map (\<lambda>p. (map_id s (fst p), snd p)) ps) m, umap.erase_all (map (\<lambda>p. map_id s (fst p)) ps) m')"
  by (induction ps arbitrary: m m') (auto simp: commit_def umap.put_all_def umap.erase_all_def)

lemma not_foreign_map_id: "\<not> foreign s (map_id s t)"
  by (simp add: foreign_def)

definition ids :: "nf_sample \<Rightarrow> pending \<Rightarrow> nf_map_id set" where
  "ids s ps = (\<lambda>p. map_id s (fst p)) ` set ps"

lemma commit_lookup:
  assumes "commit s ps (m, m') = (n, n')"
  shows "map_of n' k = (if k \<in> ids s ps then None else map_of m' k)"
    and "k \<notin> ids s ps \<Longrightarrow> map_of n k = map_of m k"
    and "map_of n k = Some t \<Longrightarrow> map_of m k = Some t \<or> t \<in> snd ` set ps"
proof -
  let ?ps = "map (\<lambda>p. (map_id s (fst p), snd p)) ps"
  have n: "n = umap.put_all ?ps m" "n' = umap.erase_all (map (\<lambda>p. map_id s (fst p)) ps) m'"
    using assms by (simp_all add: commit_put_erase)
  have keys: "fst ` set ?ps = ids s ps" by (simp add: ids_def image_image)
  show "map_of n' k = (if k \<in> ids s ps then None else map_of m' k)"
    unfolding n umap.lookup_erase_all by (simp add: ids_def)
  show "map_of n k = map_of m k" if "k \<notin> ids s ps"
    unfolding n using that by (intro umap.lookup_put_all_other) (simp only: keys not_False_eq_True)
  assume "map_of n k = Some t"
  then have "map_of (rev ?ps) k = Some t \<or> map_of m k = Some t"
    unfolding n umap.lookup_put_all by (auto simp: map_add_Some_iff)
  then show "map_of m k = Some t \<or> t \<in> snd ` set ps"
    by (auto dest!: map_of_SomeD [where xs = "rev ?ps"] intro: rev_image_eqI)
qed

lemma foreign_ids: "foreign s k \<Longrightarrow> k \<notin> ids s ps"
  using not_foreign_map_id by (auto simp: ids_def)

lemma commit_foreign:
  assumes "commit s ps (m, m') = (n, n')"
  shows "same_foreign s m n" "same_foreign s m' n'"
  using commit_lookup [OF assms] foreign_ids by (simp_all add: same_foreign_def)

lemma commit_exclusive:
  assumes "commit s ps (m, m') = (n, n')" "exclusive m m'"
  shows "exclusive n n'"
  using commit_lookup(1,2) [OF assms(1)] assms(2) by (simp add: exclusive_def)

lemma exclusive_sym: "exclusive m m' \<Longrightarrow> exclusive m' m"
  unfolding exclusive_def by metis

lemma commit_all_ok:
  assumes "commit s ps (m, m') = (n, n')" "all_ok w m" "all_ok w m'" "\<forall>p \<in> set ps. template_ok w (snd p)"
  shows "all_ok w n" "all_ok w n'"
proof -
  have "template_ok w t" if "map_of n k = Some t" for k t
    using commit_lookup(3) [OF assms(1) that] assms(2,4) by (auto simp: all_ok_def)
  then show "all_ok w n" by (simp add: all_ok_def)
  show "all_ok w n'"
    using commit_lookup(1) [OF assms(1)] assms(3) by (simp add: all_ok_def)
qed

lemma v9_templates_ok:
  "v9_templates raw b len sid off = Good ps \<Longrightarrow> \<forall>p \<in> set ps. template_ok rec_len (snd p)"
proof (induction raw b len sid off arbitrary: ps rule: v9_templates.induct)
  case (1 raw b len sid off)
  note unfolded = "1.prems" [unfolded v9_templates.simps [of raw b len sid off]]
  show ?case
  proof (cases "off < len")
    case True
    with unfolded obtain tid count rs off' ps' where
      rd: "rd16 raw (b + off) = Some tid" "rd16 raw (b + off + 2) = Some count"
        "v9_fields raw b len (unat count) (off + 4) = Good (rs, off')"
      and rest: "v9_templates raw b len sid off' = Good ps'"
      and ps: "ps = (unat tid, mk_template sid (unat tid) (unat count) rs (sum_list (map rec_len rs))) # ps'"
      by (auto split: option.splits res.splits elim!: and_then.elims)
    from v9_fields_advance [OF rd(3)] "1.IH" [OF True rd refl rest] show ?thesis
      by (simp add: ps template_ok_def mk_template_def)
  qed (use unfolded in simp)
qed

lemma v10_templates_ok:
  "v10_templates raw b len sid off = Good ps \<Longrightarrow> \<forall>p \<in> set ps. template_ok v10_len (snd p)"
proof (induction raw b len sid off arbitrary: ps rule: v10_templates.induct)
  case (1 raw b len sid off)
  note unfolded = "1.prems" [unfolded v10_templates.simps [of raw b len sid off]]
  show ?case
  proof (cases "off < len")
    case True
    with unfolded obtain tid count rs off' ps' where
      rd: "rd16 raw (b + off) = Some tid" "rd16 raw (b + off + 2) = Some count"
        "v10_fields raw b len (unat count) (off + 4) = Good (rs, off')"
      and rest: "v10_templates raw b len sid off' = Good ps'"
      and ps: "ps = (unat tid, mk_template sid (unat tid) (unat count) rs (sum_list (map v10_len rs))) # ps'"
      by (auto split: option.splits res.splits elim!: and_then.elims)
    from v10_fields_advance [OF rd(3)] "1.IH" [OF True rd refl rest] show ?thesis
      by (simp add: ps template_ok_def mk_template_def)
  qed (use unfolded in simp)
qed

lemma padding_none: "padding raw b len off = Good ps \<Longrightarrow> ps = []"
  by (auto simp: padding_def need_def split: if_splits option.splits)

lemma v9_options_ok:
  "v9_options raw b len sid off = Good ps \<Longrightarrow> \<forall>p \<in> set ps. template_ok rec_len (snd p)"
proof (induction raw b len sid off arbitrary: ps rule: v9_options.induct)
  case (1 raw b len sid off)
  note unfolded = "1.prems" [unfolded v9_options.simps [of raw b len sid off]]
  consider "\<not> off < len \<or> off + 6 > len" | "off < len" "\<not> off + 6 > len" by auto
  then show ?case
  proof cases
    case 1
    with unfolded show ?thesis by (auto dest: padding_none split: if_splits)
  next
    case 2
    with unfolded obtain tid x y rs off' ps' where
      rd: "rd16 raw (b + off) = Some tid" "rd16 raw (b + off + 2) = Some x" "rd16 raw (b + off + 4) = Some y"
        "\<not> (unat x mod 4 \<noteq> 0 \<or> unat y mod 4 \<noteq> 0)"
        "v9_option_fields raw b len ((unat x + unat y) div 4) (off + 6) = Good (rs, off')"
      and rest: "v9_options raw b len sid off' = Good ps'"
      and ps: "ps = (unat tid, mk_template sid (unat tid) ((unat x + unat y) div 4) rs (sum_list (map rec_len rs))) # ps'"
      by (auto split: option.splits res.splits if_splits elim!: and_then.elims)
    from v9_option_fields_advance [OF rd(5)] "1.IH" [OF 2 rd refl rest] show ?thesis
      by (simp add: ps template_ok_def mk_template_def)
  qed
qed

lemma v10_options_ok:
  "v10_options raw b len sid off = Good ps \<Longrightarrow> \<forall>p \<in> set ps. template_ok v10_len (snd p)"
proof (induction raw b len sid off arbitrary: ps rule: v10_options.induct)
  case (1 raw b len sid off)
  note unfolded = "1.prems" [unfolded v10_options.simps [of raw b len sid off]]
  consider "\<not> off < len \<or> off + 6 > len" | "off < len" "\<not> off + 6 > len" by auto
  then show ?case
  proof cases
    case 1
    with unfolded show ?thesis by (auto dest: padding_none split: if_splits)
  next
    case 2
    with unfolded obtain tid x y rs off' ps' where
      rd: "rd16 raw (b + off) = Some tid" "rd16 raw (b + off + 2) = Some x" "rd16 raw (b + off + 4) = Some y"
        "\<not> unat y > unat x" "\<not> (unat x > 0 \<and> unat y = 0)"
        "v10_option_fields raw b len (unat x) (off + 6) = Good (rs, off')"
      and rest: "v10_options raw b len sid off' = Good ps'"
      and ps: "ps = (unat tid, mk_template sid (unat tid) (unat x) rs (sum_list (map v10_len rs))) # ps'"
      by (auto split: option.splits res.splits if_splits elim!: and_then.elims)
    from v10_option_fields_advance [OF rd(6)] "1.IH" [OF 2 rd refl rest] show ?thesis
      by (simp add: ps template_ok_def mk_template_def)
  qed
qed

lemma v9_commit_templates_keeps:
  assumes "commit s ps (nf9_template_map st, nf9_options_template_map st) = (n, n')" "\<forall>p \<in> set ps. template_ok rec_len (snd p)"
  shows "keeps s st (st\<lparr>nf9_template_map := n, nf9_options_template_map := n'\<rparr>)"
  using commit_foreign [OF assms(1)] commit_all_ok [OF assms(1) _ _ assms(2)] commit_exclusive [OF assms(1)] exclusive_sym
  by (auto simp: keeps_def maps_ok_def)

lemma v9_commit_options_keeps:
  assumes "commit s ps (nf9_options_template_map st, nf9_template_map st) = (n, n')" "\<forall>p \<in> set ps. template_ok rec_len (snd p)"
  shows "keeps s st (st\<lparr>nf9_options_template_map := n, nf9_template_map := n'\<rparr>)"
  using commit_foreign [OF assms(1)] commit_all_ok [OF assms(1) _ _ assms(2)] commit_exclusive [OF assms(1)] exclusive_sym
  by (auto simp: keeps_def maps_ok_def)

lemma v10_commit_templates_keeps:
  assumes "commit s ps (nf10_template_map st, nf10_options_template_map st) = (n, n')" "\<forall>p \<in> set ps. template_ok v10_len (snd p)"
  shows "keeps s st (st\<lparr>nf10_template_map := n, nf10_options_template_map := n'\<rparr>)"
  using commit_foreign [OF assms(1)] commit_all_ok [OF assms(1) _ _ assms(2)] commit_exclusive [OF assms(1)] exclusive_sym
  by (auto simp: keeps_def maps_ok_def)

lemma v10_commit_options_keeps:
  assumes "commit s ps (nf10_options_template_map st, nf10_template_map st) = (n, n')" "\<forall>p \<in> set ps. template_ok v10_len (snd p)"
  shows "keeps s st (st\<lparr>nf10_options_template_map := n, nf10_template_map := n'\<rparr>)"
  using commit_foreign [OF assms(1)] commit_all_ok [OF assms(1) _ _ assms(2)] commit_exclusive [OF assms(1)] exclusive_sym
  by (auto simp: keeps_def maps_ok_def)

lemmas commit_keeps = v9_commit_templates_keeps v9_commit_options_keeps v10_commit_templates_keeps v10_commit_options_keeps

lemma v9_flowset_keeps:
  "v9_flowset s b fid len st fs = Some (st', fs', ok) \<Longrightarrow> keeps s st st'"
  by (auto simp: v9_flowset_def process_netflow_v9_template_def process_netflow_v9_options_template_def Let_def
      split: if_splits option.splits res.splits prod.splits
      intro!: commit_keeps dest: v9_templates_ok v9_options_ok)

lemma v10_flowset_keeps:
  "v10_flowset s b fid len st fs = Some (st', fs', ok) \<Longrightarrow> keeps s st st'"
  by (auto simp: v10_flowset_def process_netflow_v10_template_def process_netflow_v10_options_template_def Let_def
      split: if_splits option.splits res.splits prod.splits
      intro!: commit_keeps dest: v10_templates_ok v10_options_ok)

subsection \<open>The loop over the flowsets\<close>

text \<open>
  Both versions walk a datagram the same way. What one flowset keeps, the walk keeps; a walk that is
  defined ends.
\<close>

locale flowset_walk =
  fixes flowset :: "nf_sample \<Rightarrow> nat \<Rightarrow> nat \<Rightarrow> nat \<Rightarrow> nf_state \<Rightarrow> nf_flow list \<Rightarrow> (nf_state \<times> nf_flow list \<times> bool) option"
    and walk :: "nf_sample \<Rightarrow> nat \<Rightarrow> nf_state \<Rightarrow> nf_flow list \<Rightarrow> (nf_state \<times> nf_flow list \<times> loop_end) option"
  assumes walk_end: "length (raw_sample s) \<le> off \<Longrightarrow> walk s off st fs = Some (st, fs, Done)"
    and walk_step: "off < length (raw_sample s) \<Longrightarrow> walk s off st fs =
      (case rd16 (raw_sample s) off of None \<Rightarrow> None | Some fid \<Rightarrow>
       case rd16 (raw_sample s) (off + 2) of None \<Rightarrow> None | Some len \<Rightarrow>
       if off + unat len > length (raw_sample s) then Some (st, fs, Truncated)
       else if unat len < 4 then Some (st, fs, Truncated)
       else case flowset s off (unat fid) (unat len) st fs of
              None \<Rightarrow> None
            | Some (st', fs', ok) \<Rightarrow> if \<not> ok then Some (st', fs', Refused) else walk s (off + unat len) st' fs')"
    and flowset_keeps: "flowset s off fid len st fs = Some (st', fs', ok) \<Longrightarrow> keeps s st st'"
begin

lemma walk_keeps:
  assumes "walk s off st fs = Some (st', fs', e)"
  shows "keeps s st st'"
  using assms
proof (induction "length (raw_sample s) - off" arbitrary: off st fs rule: less_induct)
  case less
  show ?case
  proof (cases "off < length (raw_sample s)")
    case False
    then show ?thesis using less.prems walk_end [of s off st fs] by simp
  next
    case off: True
    note step = less.prems [unfolded walk_step [OF off]]
    from step obtain fid len where rd: "rd16 (raw_sample s) off = Some fid" "rd16 (raw_sample s) (off + 2) = Some len"
      by (auto split: option.splits)
    show ?thesis
    proof (cases "off + unat len > length (raw_sample s) \<or> unat len < 4")
      case True
      then show ?thesis using step rd by (auto split: if_splits)
    next
      case no: False
      then obtain st1 fs1 ok where f: "flowset s off (unat fid) (unat len) st fs = Some (st1, fs1, ok)"
        using step rd by (auto split: option.splits)
      show ?thesis
      proof (cases ok)
        case False
        then show ?thesis using step rd no f flowset_keeps [OF f] by simp
      next
        case True
        then have "walk s (off + unat len) st1 fs1 = Some (st', fs', e)" using step rd no f by simp
        moreover have "length (raw_sample s) - (off + unat len) < length (raw_sample s) - off" using no off by arith
        ultimately have "keeps s st1 st'" by (rule less.hyps [rotated])
        with flowset_keeps [OF f] show ?thesis by (rule keeps_trans)
      qed
    qed
  qed
qed

text \<open>A flowset that is passed over leaves the walk where it would start after it.\<close>

lemma walk_skip:
  assumes "rd16 (raw_sample s) off = Some fid" "rd16 (raw_sample s) (off + 2) = Some len"
    and "off + unat len \<le> length (raw_sample s)" "4 \<le> unat len"
    and "flowset s off (unat fid) (unat len) st fs = Some (st, fs, True)"
  shows "walk s off st fs = walk s (off + unat len) st fs"
proof -
  have "off < length (raw_sample s)" using assms(3,4) by simp
  then show ?thesis using assms by (simp add: walk_step)
qed

end

interpretation v9: flowset_walk v9_flowset v9_loop
  by unfold_locales
    (simp add: v9_loop.simps, subst v9_loop.simps, simp add: not_le, rule v9_flowset_keeps)

interpretation v10: flowset_walk v10_flowset v10_loop
  by unfold_locales
    (simp add: v10_loop.simps, subst v10_loop.simps, simp add: not_le, rule v10_flowset_keeps)

lemma keeps_cong:
  assumes "exporter_ip s = exporter_ip s'" "listener_id s = listener_id s'" "source_id s = source_id s'"
    and "exporter_port s = exporter_port s'"
  shows "keeps s = keeps s'"
proof -
  have "foreign s = foreign s'" using assms by (intro ext) (simp add: foreign_def)
  then show ?thesis by (intro ext) (simp add: keeps_def same_foreign_def)
qed

text \<open>What the processing of a datagram keeps; the source is the one of its header.\<close>

definition packet_keeps :: "nf_sample \<Rightarrow> nf_state \<Rightarrow> nf_state \<times> nf_sample \<times> bool \<Rightarrow> bool" where
  "packet_keeps s st = (\<lambda>(st', s', _). keeps s' st st' \<and> exporter_ip s' = exporter_ip s
     \<and> listener_id s' = listener_id s \<and> exporter_port s' = exporter_port s)"

lemma process_netflow_v9_keeps:
  assumes "process_netflow_v9 s st = Some r"
  shows "packet_keeps s st r"
proof -
  consider "r = (st, s, False)" | s1 st' fs e where "v9_loop s1 20 st [] = Some (st', fs, e)"
      "exporter_ip s1 = exporter_ip s" "listener_id s1 = listener_id s" "exporter_port s1 = exporter_port s"
      "r = (case e of Refused \<Rightarrow> (st', s1, False) | Truncated \<Rightarrow> (st', s1\<lparr>flows := fs\<rparr>, False) | Done \<Rightarrow> (st', s1\<lparr>flows := fs\<rparr>, True))"
    using assms by (force simp: process_netflow_v9_def Let_def bind_eq_Some_conv split: if_splits)
  then show ?thesis
  proof cases
    case 2
    have "keeps (s1\<lparr>flows := fs\<rparr>) = keeps s1" by (rule keeps_cong) simp_all
    with 2 v9.walk_keeps [OF 2(1)] show ?thesis by (cases e) (simp_all add: packet_keeps_def)
  qed (simp add: packet_keeps_def)
qed

lemma process_netflow_v10_keeps:
  assumes "process_netflow_v10 s st = Some r"
  shows "packet_keeps s st r"
proof -
  consider "r = (st, s, False)" | s1 st' fs e where "v10_loop s1 16 st [] = Some (st', fs, e)"
      "exporter_ip s1 = exporter_ip s" "listener_id s1 = listener_id s" "exporter_port s1 = exporter_port s"
      "r = (case e of Refused \<Rightarrow> (st', s1, False) | Truncated \<Rightarrow> (st', s1\<lparr>flows := fs\<rparr>, False) | Done \<Rightarrow> (st', s1\<lparr>flows := fs\<rparr>, True))"
    using assms by (force simp: process_netflow_v10_def Let_def bind_eq_Some_conv split: if_splits)
  then show ?thesis
  proof cases
    case 2
    have "keeps (s1\<lparr>flows := fs\<rparr>) = keeps s1" by (rule keeps_cong) simp_all
    with 2 v10.walk_keeps [OF 2(1)] show ?thesis by (cases e) (simp_all add: packet_keeps_def)
  qed (simp add: packet_keeps_def)
qed

subsection \<open>Reachable template maps\<close>

definition empty_state :: nf_state where
  "empty_state =
     \<lparr>nf9_template_map = [], nf9_options_template_map = [], nf10_template_map = [], nf10_options_template_map = []\<rparr>"

inductive nf_reach :: "nf_state \<Rightarrow> bool" where
  start: "nf_reach empty_state"
| datagram: "nf_reach st \<Longrightarrow> process_netflow_packet s st = Some (st', s', ok) \<Longrightarrow> nf_reach st'"

lemma process_netflow_packet_keeps:
  assumes "process_netflow_packet s st = Some (st', s', ok)"
  shows "maps_ok st \<longrightarrow> maps_ok st'"
    and "keeps s' st st' \<or> st' = st"
    and "st' = st \<or> exporter_ip s' = exporter_ip s \<and> listener_id s' = listener_id s \<and> exporter_port s' = exporter_port s"
proof -
  consider "st' = st" | s1 where "packet_keeps s1 st (st', s', ok)" "exporter_ip s1 = exporter_ip s"
    "listener_id s1 = listener_id s" "exporter_port s1 = exporter_port s"
    using assms
    by (auto simp: process_netflow_packet_def bind_eq_Some_conv Let_def split: if_splits
        dest!: process_netflow_v9_keeps process_netflow_v10_keeps)
  then show "maps_ok st \<longrightarrow> maps_ok st'"
    and "keeps s' st st' \<or> st' = st"
    and "st' = st \<or> exporter_ip s' = exporter_ip s \<and> listener_id s' = listener_id s \<and> exporter_port s' = exporter_port s"
    by (cases; auto simp: packet_keeps_def keeps_def)+
qed

lemma nf_reach_maps_ok: "nf_reach st \<Longrightarrow> maps_ok st"
proof (induction rule: nf_reach.induct)
  case start
  show ?case by (simp add: maps_ok_def empty_state_def exclusive_def all_ok_def)
next
  case (datagram st s st' s' ok)
  then show ?case using process_netflow_packet_keeps(1) by blast
qed

subsection \<open>Decoding inside a flowset\<close>

lemma be_copy_total: "p + n \<le> length raw \<Longrightarrow> \<exists>bs. be_copy raw p target n = Some bs"
  by (auto simp: be_copy_def rd_bytes_def)

definition rec_ok :: "nf_record \<Rightarrow> bool" where
  "rec_ok r \<longleftrightarrow> (rec_type r = 60 \<longrightarrow> 0 < rec_len r)"

lemma nf9_rec_to_flow_total:
  assumes "p + rec_len r \<le> length raw" "rec_ok r"
  shows "\<exists>f'. nf9_rec_to_flow f r raw p = Some f'"
proof -
  have fields: "\<exists>v. field8 raw p (rec_len r) x8 = Some v" "\<exists>v. field16 raw p (rec_len r) x16 = Some v"
    "\<exists>v. field32 raw p (rec_len r) x32 = Some v" "\<exists>v. field_ip4 raw p (rec_len r) xs = Some v"
    "\<exists>v. field_ip6 raw p (rec_len r) xs = Some v" for x8 x16 x32 xs
    using be_copy_total [OF assms(1)] by (simp_all add: field8_def field16_def field32_def field_ip4_def field_ip6_def)
  have "\<exists>b. rd8 raw p = Some b" if "rec_type r = 60"
    using assms that by (simp add: rd8_def rec_ok_def)
  then show ?thesis using fields by (simp add: nf9_rec_to_flow_def Let_def)
qed

lemma v9_record_total:
  "p + sum_list (map rec_len rs) \<le> length raw \<Longrightarrow> list_all rec_ok rs \<Longrightarrow> \<exists>f'. v9_record rs raw p f = Some f'"
proof (induction rs arbitrary: p f)
  case Nil
  then show ?case by simp
next
  case (Cons r rs)
  then obtain f' where "nf9_rec_to_flow f r raw p = Some f'"
    using nf9_rec_to_flow_total [of p r raw f] by auto
  moreover have "\<exists>f''. v9_record rs raw (p + rec_len r) f' = Some f''" using Cons by simp
  ultimately show ?case by simp
qed

text \<open>A read that succeeds on a part of the datagram gives the same on all of it.\<close>

lemma be_copy_take: "be_copy (take m raw) p target n = Some bs \<Longrightarrow> be_copy raw p target n = Some bs"
  by (auto simp: be_copy_def rd_bytes_def drop_take split: if_splits)

lemma map_option_mono: "(\<And>x. a = Some x \<Longrightarrow> b = Some x) \<Longrightarrow> map_option g a = Some y \<Longrightarrow> map_option g b = Some y"
  by (cases a) auto

lemma if_mono:
  "(c \<Longrightarrow> a = Some y \<Longrightarrow> a' = Some y) \<Longrightarrow> (\<not> c \<Longrightarrow> b = Some y \<Longrightarrow> b' = Some y)
    \<Longrightarrow> (if c then a else b) = Some y \<Longrightarrow> (if c then a' else b') = Some y"
  by (auto split: if_splits)

lemma fields_take:
  "field8 (take m raw) p n a = Some b \<Longrightarrow> field8 raw p n a = Some b"
  "field16 (take m raw) p n c = Some d \<Longrightarrow> field16 raw p n c = Some d"
  "field32 (take m raw) p n e = Some f \<Longrightarrow> field32 raw p n e = Some f"
  "field_ip4 (take m raw) p n xs = Some ys \<Longrightarrow> field_ip4 raw p n xs = Some ys"
  "field_ip6 (take m raw) p n xs = Some ys \<Longrightarrow> field_ip6 raw p n xs = Some ys"
  "rd8 (take m raw) p = Some g \<Longrightarrow> rd8 raw p = Some g"
  unfolding field8_def field16_def field32_def field_ip4_def field_ip6_def
  by (blast intro: map_option_mono be_copy_take) + (auto simp: rd8_def split: if_splits)

lemma nf9_rec_to_flow_take:
  "nf9_rec_to_flow f r (take m raw) p = Some f' \<Longrightarrow> nf9_rec_to_flow f r raw p = Some f'"
  unfolding nf9_rec_to_flow_def Let_def
  by ((erule if_mono [rotated -1], erule map_option_mono [rotated], erule fields_take)+, assumption)

lemma v9_record_take: "v9_record rs (take m raw) p f = Some f' \<Longrightarrow> v9_record rs raw p f = Some f'"
  by (induction rs arbitrary: p f) (auto split: option.splits dest: nf9_rec_to_flow_take)

lemma v9_data_loop_take:
  "v9_data_loop t (take m raw) b n off fs = Some gs \<Longrightarrow> v9_data_loop t raw b n off fs = Some gs"
  by (induction n arbitrary: off fs) (auto split: option.splits dest: v9_record_take)

lemma v9_data_loop_records:
  assumes "t_num_records t = length (t_records t)" "t_total_len t = sum_list (map rec_len (t_records t))"
    and "list_all rec_ok (t_records t)" "b + off + n * t_total_len t \<le> length raw" "off + n * t_total_len t < 65536"
  shows "\<exists>gs. v9_data_loop t raw b n off fs = Some (fs @ gs) \<and> length gs = n
    \<and> (\<forall>i < n. v9_record (t_records t) raw (b + off + i * t_total_len t) new_flow = Some (gs ! i))"
  using assms(4,5)
proof (induction n arbitrary: off fs)
  case 0
  then show ?case by simp
next
  case (Suc n)
  let ?w = "t_total_len t"
  have "b + off + sum_list (map rec_len (t_records t)) \<le> length raw" using Suc.prems(1) assms(2) by simp
  then obtain f where f: "v9_record (t_records t) raw (b + off) new_flow = Some f"
    using v9_record_total [OF _ assms(3)] by blast
  have "(off + ?w) mod 65536 = off + ?w" using Suc.prems(2) by simp
  moreover obtain gs where gs: "v9_data_loop t raw b n (off + ?w) (fs @ [f]) = Some ((fs @ [f]) @ gs)" "length gs = n"
    "\<forall>i < n. v9_record (t_records t) raw (b + (off + ?w) + i * ?w) new_flow = Some (gs ! i)"
    using Suc.IH [of "off + ?w" "fs @ [f]"] Suc.prems by auto
  moreover have "v9_record (t_records t) raw (b + off + i * ?w) new_flow = Some ((f # gs) ! i)" if "i < Suc n" for i
    using that f gs(3) by (cases i) (simp_all add: algebra_simps)
  ultimately show ?case using f assms(1) by (intro exI [of _ "f # gs"]) simp
qed

subsection \<open>A datagram\<close>

text \<open>
  A datagram of version 9 that announces the template 256, with one field that is the number of bytes of a flow
  and \<open>n\<close> bytes long, and that has a flowset of four bytes of data for it.
\<close>

definition demo_raw :: "byte \<Rightarrow> byte list" where
  "demo_raw n =
     [0, 9, 0, 2, 0, 0, 0, 0, 0, 0, 0, 0, 0, 0, 0, 0, 0, 0, 0, 1] @
     [0, 0, 0, 12, 1, 0, 0, 1, 0, 1, 0, n] @ [1, 0, 0, 8, 0, 0, 0, 7]"

definition demo_sample :: "byte \<Rightarrow> nf_sample" where
  "demo_sample n =
     \<lparr>raw_sample = demo_raw n, version = 0, nflows = 0, uptime_ms = 0, time_sec = 0, time_nanosec = 0, flow_sequence = 0,
      source_id = 0, exporter_ip = ''10.0.0.5'', listener_id = ''nf'', exporter_port = 2055, flows = []\<rparr>"

definition demo_done :: "byte \<Rightarrow> nf_sample" where
  "demo_done n = demo_sample n\<lparr>version := 9, nflows := 2, source_id := 1\<rparr>"

definition demo_template :: "byte \<Rightarrow> nf_template" where
  "demo_template n = mk_template 1 256 1 [\<lparr>rec_type = 1, rec_len = unat n\<rparr>] (unat n)"

definition demo_state :: "byte \<Rightarrow> nf_state" where
  "demo_state n = empty_state\<lparr>nf9_template_map := [(map_id (demo_done n) 256, demo_template n)]\<rparr>"

lemma demo_len [simp]: "length (demo_raw n) = 40"
  by (simp add: demo_raw_def)

lemma demo_fields [simp]:
  "raw_sample (demo_done n) = demo_raw n" "source_id (demo_done n) = 1" "exporter_ip (demo_done n) = ''10.0.0.5''"
  "listener_id (demo_done n) = ''nf''" "exporter_port (demo_done n) = 2055" "flows (demo_done n) = []"
  by (simp_all add: demo_done_def demo_sample_def)

lemma demo_reads:
  "rd16 (demo_raw n) 0 = Some 9" "rd16 (demo_raw n) 2 = Some 2" "rd32 (demo_raw n) 4 = Some 0" "rd32 (demo_raw n) 8 = Some 0"
  "rd32 (demo_raw n) 12 = Some 0" "rd32 (demo_raw n) 16 = Some 1" "rd16 (demo_raw n) 20 = Some 0" "rd16 (demo_raw n) 22 = Some 12"
  "rd16 (demo_raw n) 24 = Some 256" "rd16 (demo_raw n) 26 = Some 1" "rd16 (demo_raw n) 28 = Some 1"
  "rd16 (demo_raw n) 30 = Some (be16 0 n)" "rd16 (demo_raw n) 32 = Some 256" "rd16 (demo_raw n) 34 = Some 8"
  by (simp_all add: demo_raw_def rd16_def rd32_def be16_def be32_def)

lemma demo_template_flowset:
  "process_netflow_v9_template (demo_done n) 20 12 empty_state = Some (demo_state n, True)"
proof -
  have "v9_fields (demo_raw n) 20 12 (Suc 0) 8 = Good ([\<lparr>rec_type = 1, rec_len = unat n\<rparr>], 12)"
    by (simp add: need_def demo_reads unat_be16)
  then have "v9_templates (demo_raw n) 20 12 1 4 = Good [(256, demo_template n)]"
    by (simp add: v9_templates.simps demo_reads demo_template_def)
  then show ?thesis
    by (simp add: process_netflow_v9_template_def demo_reads commit_def demo_state_def empty_state_def)
qed

lemma demo_walk:
  "v9_loop (demo_done n) 20 empty_state [] =
     (case v9_flowset (demo_done n) 32 256 8 (demo_state n) [] of
        None \<Rightarrow> None
      | Some (st, fs, ok) \<Rightarrow> Some (st, fs, if ok then Done else Refused))"
  by (subst v9_loop.simps, subst v9_loop.simps)
    (simp add: demo_reads v9_flowset_def [of _ 20] demo_template_flowset v9_loop.simps [of _ 40] split: option.split prod.split)

lemma demo_packet:
  "process_netflow_packet (demo_sample n) empty_state =
     (case v9_flowset (demo_done n) 32 256 8 (demo_state n) [] of
        None \<Rightarrow> None
      | Some (st, fs, ok) \<Rightarrow> Some (if ok then (st, demo_done n\<lparr>flows := fs\<rparr>, True) else (st, demo_done n, False)))"
proof -
  have s: "demo_sample n\<lparr>version := 9, nflows := 2, uptime_ms := 0, time_sec := 0, flow_sequence := 0, source_id := 1\<rparr> = demo_done n"
    by (simp add: demo_done_def demo_sample_def)
  have r: "raw_sample (demo_sample n) = demo_raw n" by (simp add: demo_sample_def)
  show ?thesis
    by (simp add: process_netflow_packet_def process_netflow_v9_def r demo_reads s demo_walk split: option.split prod.split)
qed

lemma demo_data:
  "v9_flowset (demo_done 4) 32 256 8 (demo_state 4) [] = Some (demo_state 4, [new_flow\<lparr>flow_octets := 7\<rparr>], True)"
proof -
  have "be_copy (demo_raw 4) 36 (le32_bytes 0) 4 = Some [0, 0, 0, 7]"
    by (simp add: be_copy_def rd_bytes_def demo_raw_def le32_bytes_def)
  then have "nf9_rec_to_flow new_flow \<lparr>rec_type = 1, rec_len = 4\<rparr> (demo_raw 4) 36 = Some (new_flow\<lparr>flow_octets := 7\<rparr>)"
    by (simp add: nf9_rec_to_flow_def field32_def new_flow_def be32_def)
  then show ?thesis
    by (simp add: v9_flowset_def process_netflow_v9_data_def demo_state_def empty_state_def demo_reads need_def
        demo_template_def mk_template_def)
qed

lemma demo_reach: "nf_reach (demo_state 4)"
  using nf_reach.datagram [OF nf_reach.start, of "demo_sample 4"] by (simp add: demo_packet demo_data)

subsection \<open>Properties\<close>

text \<open>
  C4: Whatever datagrams arrive, in any order and from any exporters, no template id of an exporter is
  registered both as a template of flow data and as a template of options, and every registered
  template has the number of records and the total length of its own records.
\<close>

theorem templates_exclusive:
  assumes "nf_reach st"
  shows "(map_of (nf9_template_map st) k = None \<or> map_of (nf9_options_template_map st) k = None)
    \<and> (map_of (nf10_template_map st) k = None \<or> map_of (nf10_options_template_map st) k = None)
    \<and> (\<forall>t. map_of (nf9_template_map st) k = Some t \<or> map_of (nf9_options_template_map st) k = Some t \<longrightarrow>
        t_num_records t = length (t_records t) \<and> t_total_len t = sum_list (map rec_len (t_records t)))
    \<and> (\<forall>t. map_of (nf10_template_map st) k = Some t \<or> map_of (nf10_options_template_map st) k = Some t \<longrightarrow>
        t_num_records t = length (t_records t) \<and> t_total_len t = sum_list (map v10_len (t_records t)))"
  using nf_reach_maps_ok [OF assms] by (auto simp: maps_ok_def exclusive_def all_ok_def template_ok_def)

theorem templates_exclusive_witness:
  "map_of (nf9_options_template_map (demo_state 4)) (map_id (demo_done 4) 256) = None
   \<and> t_total_len (demo_template 4) = 4"
  using templates_exclusive [OF demo_reach, of "map_id (demo_done 4) 256"]
  by (simp add: demo_state_def demo_template_def mk_template_def)

text \<open>
  C16: A datagram changes no template of another exporter, listener, port or source: a lookup with such
  a key gives after it what it gave before, in all four maps.
\<close>

theorem exporters_isolated:
  assumes "process_netflow_packet s st = Some (st', s', ok)"
    and "id_exporter_ip k \<noteq> exporter_ip s \<or> id_listener_id k \<noteq> listener_id s
      \<or> id_exporter_port k \<noteq> exporter_port s \<or> id_source_id k \<noteq> source_id s'"
  shows "map_of (nf9_template_map st') k = map_of (nf9_template_map st) k
    \<and> map_of (nf9_options_template_map st') k = map_of (nf9_options_template_map st) k
    \<and> map_of (nf10_template_map st') k = map_of (nf10_template_map st) k
    \<and> map_of (nf10_options_template_map st') k = map_of (nf10_options_template_map st) k"
  using process_netflow_packet_keeps(2,3) [OF assms(1)] assms(2)
  by (auto simp: keeps_def same_foreign_def foreign_def)

theorem exporters_isolated_witness:
  "map_of (nf9_template_map (demo_state 4)) (map_id (demo_done 4\<lparr>exporter_ip := ''10.0.0.6''\<rparr>) 256) = None"
proof -
  have "process_netflow_packet (demo_sample 4) empty_state =
      Some (demo_state 4, demo_done 4\<lparr>flows := [new_flow\<lparr>flow_octets := 7\<rparr>]\<rparr>, True)"
    by (simp add: demo_packet demo_data)
  from exporters_isolated [OF this, of "map_id (demo_done 4\<lparr>exporter_ip := ''10.0.0.6''\<rparr>) 256"]
  show ?thesis by (simp add: demo_sample_def empty_state_def)
qed

text \<open>
  C27: A data flowset of version 9 whose template is registered: as many flows are appended as records fit, each
  of them read at its own place, one after the other, and from the bytes up to the end of the flowset
  alone. The template has to have a positive length, and a protocol version field in it as well.
\<close>

theorem v9_data_records:
  assumes "nf_reach st" "rd16 (raw_sample s) b = Some fid"
    and "map_of (nf9_template_map st) (map_id s (unat fid)) = Some t"
    and "0 < t_total_len t" "list_all rec_ok (t_records t)"
    and "b + len \<le> length (raw_sample s)" "len < 65536"
    and "t_total_len t + 4 \<le> len" "(len - 4) div t_total_len t \<le> 16384"
  shows "\<exists>gs. process_netflow_v9_data s b len st fs = Good (fs @ gs)
    \<and> length gs = (len - 4) div t_total_len t
    \<and> (\<forall>i < length gs. v9_record (t_records t) (take (b + len) (raw_sample s)) (b + 4 + i * t_total_len t) new_flow = Some (gs ! i))"
proof -
  let ?n = "(len - 4) div t_total_len t"
  have ok: "t_num_records t = length (t_records t)" "t_total_len t = sum_list (map rec_len (t_records t))"
    using nf_reach_maps_ok [OF assms(1)] assms(3) by (auto simp: maps_ok_def all_ok_def template_ok_def)
  have all: "length (take (b + len) (raw_sample s)) = b + len" using assms(6) by simp
  have "?n * t_total_len t \<le> len - 4" by (rule div_times_less_eq_dividend)
  then have fit: "b + 4 + ?n * t_total_len t \<le> length (take (b + len) (raw_sample s))" "4 + ?n * t_total_len t < 65536"
    using assms(6-8) all by linarith+
  obtain gs where gs: "v9_data_loop t (take (b + len) (raw_sample s)) b ?n 4 fs = Some (fs @ gs)" "length gs = ?n"
    "\<forall>i < ?n. v9_record (t_records t) (take (b + len) (raw_sample s)) (b + 4 + i * t_total_len t) new_flow = Some (gs ! i)"
    using v9_data_loop_records [OF ok assms(5) fit, of fs] by blast
  have "nf9_template_map st \<noteq> []" "t_records t \<noteq> []" using assms(3,4) ok(2) by auto
  moreover have "?n mod 65536 = ?n" "?n \<noteq> 0" using assms(4,8,9) by (simp_all add: div_greater_zero_iff)
  ultimately have "process_netflow_v9_data s b len st fs = need (Some (fs @ gs))"
    using assms(2-4,8,9) v9_data_loop_take [OF gs(1)] by (simp add: process_netflow_v9_data_def need_def Let_def)
  then show ?thesis using gs(2,3) by (auto simp: need_def)
qed

theorem v9_data_records_witness:
  "\<exists>gs. process_netflow_v9_data (demo_done 4) 32 8 (demo_state 4) [] = Good ([] @ gs) \<and> length gs = 1"
  using v9_data_records [OF demo_reach, of "demo_done 4" 32 256 "demo_template 4" 8 "[]"]
  by (auto simp: demo_reads demo_state_def demo_template_def mk_template_def rec_ok_def)

text \<open>
  A template may have fields whose lengths are all zero. A datagram that registers one and has data for it makes
  the decoder divide by the length of the template, which is undefined; with a length of four bytes the same
  datagram is decoded to one flow.
\<close>

theorem zero_length_template_undefined:
  "process_netflow_packet (demo_sample 0) empty_state = None
   \<and> process_netflow_packet (demo_sample 4) empty_state =
       Some (demo_state 4, demo_done 4\<lparr>flows := [new_flow\<lparr>flow_octets := 7\<rparr>]\<rparr>, True)"
proof
  have "v9_flowset (demo_done 0) 32 256 8 (demo_state 0) [] = None"
    by (simp add: v9_flowset_def process_netflow_v9_data_def demo_state_def empty_state_def demo_reads need_def
        demo_template_def mk_template_def)
  then show "process_netflow_packet (demo_sample 0) empty_state = None" by (simp add: demo_packet)
  show "process_netflow_packet (demo_sample 4) empty_state =
      Some (demo_state 4, demo_done 4\<lparr>flows := [new_flow\<lparr>flow_octets := 7\<rparr>]\<rparr>, True)"
    by (simp add: demo_packet demo_data)
qed

subsection \<open>Packets of version 5\<close>

text \<open>The layout of a packet, as an exporter writes it.\<close>

definition nf5_record_bytes :: "nf_flow \<Rightarrow> byte list" where
  "nf5_record_bytes f =
     take 4 (src_ip f) @ take 4 (dst_ip f) @ take 4 (nexthop_ip f)
     @ b16 (if_index_in f) @ b16 (if_index_out f) @ b32 (flow_packets f) @ b32 (flow_octets f)
     @ b32 (flow_start f) @ b32 (flow_finish f) @ b16 (src_port f) @ b16 (dst_port f)
     @ [0, tcp_flags f, protocol f, tos f] @ b16 (src_as f) @ b16 (dst_as f) @ [src_mask f, dst_mask f, 0, 0]"

definition nf5_bytes :: "u32 \<Rightarrow> u32 \<Rightarrow> u32 \<Rightarrow> u32 \<Rightarrow> nf_flow list \<Rightarrow> byte list" where
  "nf5_bytes up sec ns sq fs =
     (b16 5 @ b16 (of_nat (length fs)) @ b32 up @ b32 sec @ b32 ns @ b32 sq @ [0, 0, 0, 0])
     @ concat (map nf5_record_bytes fs)"

definition v4_addr :: "byte list \<Rightarrow> bool" where
  "v4_addr a \<longleftrightarrow> length a = 16 \<and> drop 4 a = replicate 12 0"

definition v4_flow :: "nf_flow \<Rightarrow> bool" where
  "v4_flow f \<longleftrightarrow> \<not> is_ipv6 f \<and> v4_addr (src_ip f) \<and> v4_addr (dst_ip f) \<and> v4_addr (nexthop_ip f)"

lemma nf5_flow_shift:
  assumes "length xs = 48"
  shows "nf5_flow (pre @ xs @ post) (length pre) = nf5_flow xs 0"
proof -
  have r8: "rd8 (pre @ xs @ post) (length pre + i) = rd8 xs i" if "i + 1 \<le> 48" for i
    using rd_append(1) [of i 1 xs pre post] that assms by simp
  have r16: "rd16 (pre @ xs @ post) (length pre + i) = rd16 xs i" if "i + 2 \<le> 48" for i
    using rd_append(2) [of i 2 xs pre post] that assms by simp
  have r32: "rd32 (pre @ xs @ post) (length pre + i) = rd32 xs i" if "i + 4 \<le> 48" for i
    using rd_append(3) [of i 4 xs pre post] that assms by simp
  have ip: "ip4 (pre @ xs @ post) (length pre + i) = ip4 xs i" if "i + 4 \<le> 48" for i
    using rd_append(4) [of i 4 xs pre post] that assms by (simp add: ip4_def)
  show ?thesis using ip [of 0] by (simp add: nf5_flow_def r8 r16 r32 ip)
qed

lemma length4: "length xs = 4 \<Longrightarrow> \<exists>b c d e. xs = [b, c, d, e]"
  by (auto simp: eval_nat_numeral length_Suc_conv)

lemma v4_addr_take:
  assumes "v4_addr a"
  shows "\<exists>b c d e. take 4 a = [b, c, d, e] \<and> a = [b, c, d, e] @ replicate 12 0"
proof -
  have "length (take 4 a) = 4" using assms by (simp add: v4_addr_def)
  then obtain b c d e where "take 4 a = [b, c, d, e]" using length4 by blast
  moreover have "a = take 4 a @ drop 4 a" by simp
  ultimately show ?thesis using assms by (metis v4_addr_def)
qed

lemma nf5_flow_record:
  assumes "v4_flow f"
  shows "nf5_flow (nf5_record_bytes f) 0 = Some f" "length (nf5_record_bytes f) = 48"
proof -
  have v: "v4_addr (src_ip f)" "v4_addr (dst_ip f)" "v4_addr (nexthop_ip f)" using assms by (simp_all add: v4_flow_def)
  obtain a b c d where s: "take 4 (src_ip f) = [a, b, c, d]" "src_ip f = [a, b, c, d] @ replicate 12 0"
    using v4_addr_take [OF v(1)] by blast
  obtain a' b' c' d' where t: "take 4 (dst_ip f) = [a', b', c', d']" "dst_ip f = [a', b', c', d'] @ replicate 12 0"
    using v4_addr_take [OF v(2)] by blast
  obtain x y z w where n: "take 4 (nexthop_ip f) = [x, y, z, w]" "nexthop_ip f = [x, y, z, w] @ replicate 12 0"
    using v4_addr_take [OF v(3)] by blast
  note bytes = nf5_record_bytes_def b16_bytes b32_bytes s(1) t(1) n(1)
  show "length (nf5_record_bytes f) = 48" by (simp add: bytes)
  have "\<not> is_ipv6 f" using assms by (simp add: v4_flow_def)
  then show "nf5_flow (nf5_record_bytes f) 0 = Some f"
    using s(2) t(2) n(2)
    by (simp add: bytes nf5_flow_def ip4_def rd8_def rd16_def rd32_def rd_bytes_def be16_bytes be32_bytes new_flow_def)
qed

lemma flow_loop_nf5:
  assumes "list_all v4_flow fs" "length pre = 24 + i * 48"
  shows "flow_loop (nf5_flow (pre @ concat (map nf5_record_bytes fs))) 24 48 i (length fs) s = Some (s\<lparr>flows := flows s @ fs\<rparr>)"
  using assms
proof (induction fs arbitrary: pre i s)
  case Nil
  then show ?case by simp
next
  case (Cons f fs)
  let ?r = "nf5_record_bytes f" and ?rest = "concat (map nf5_record_bytes fs)"
  have f: "nf5_flow ?r 0 = Some f" "length ?r = 48" using nf5_flow_record [of f] Cons.prems(1) by auto
  have "nf5_flow (pre @ ?r @ ?rest) (24 + i * 48) = Some f"
    using nf5_flow_shift [OF f(2), of pre ?rest] f(1) Cons.prems(2) by simp
  moreover have "flow_loop (nf5_flow ((pre @ ?r) @ ?rest)) 24 48 (i + 1) (length fs) (s\<lparr>flows := flows s @ [f]\<rparr>)
      = Some (s\<lparr>flows := flows s @ [f]\<rparr>\<lparr>flows := flows (s\<lparr>flows := flows s @ [f]\<rparr>) @ fs\<rparr>)"
    by (rule Cons.IH) (use Cons.prems f(2) in simp_all)
  ultimately show ?case by simp
qed

lemma length_records: "list_all v4_flow fs \<Longrightarrow> length (concat (map nf5_record_bytes fs)) = length fs * 48"
  by (induction fs) (auto simp: nf5_flow_record(2))

text \<open>
  C26: A packet of version 5 that has 1 to 30 flows, as an exporter writes it, is decoded to exactly these flows,
  with the header fields; with bytes after the last flow it is refused, and no flow is taken from it.
\<close>

theorem v5_packet_roundtrip:
  assumes "fs \<noteq> []" "length fs \<le> 30" "list_all v4_flow fs"
  shows "process_netflow_packet (s\<lparr>raw_sample := nf5_bytes up sec ns sq fs\<rparr>) st =
      Some (st, s\<lparr>raw_sample := nf5_bytes up sec ns sq fs, version := 5, nflows := length fs, uptime_ms := up,
        time_sec := sec, time_nanosec := ns, flow_sequence := sq, flows := flows s @ fs\<rparr>, True)
    \<and> process_netflow_packet (s\<lparr>raw_sample := nf5_bytes up sec ns sq fs @ x # xs\<rparr>) st =
      Some (st, s\<lparr>raw_sample := nf5_bytes up sec ns sq fs @ x # xs, version := 5, nflows := length fs\<rparr>, False)"
proof -
  let ?h = "b16 5 @ b16 (of_nat (length fs)) @ b32 up @ b32 sec @ b32 ns @ b32 sq @ [0, 0, 0, 0]"
  let ?r = "concat (map nf5_record_bytes fs)" and ?b = "nf5_bytes up sec ns sq fs"
  have raw: "?b = ?h @ ?r" by (simp add: nf5_bytes_def)
  have count: "unat (of_nat (length fs) :: u16) = length fs"
    using assms(2) by (simp add: unat_of_nat)
  have len: "length ?b = NF5_PACKET_SIZE (length fs)"
    using length_records [OF assms(3)] by (simp add: raw b16_bytes b32_bytes NF5_PACKET_SIZE_def)
  have five: "be16 0 5 = 5" by (simp add: be16_def)
  have rd16: "rd16 (?b @ ys) 0 = Some 5" "rd16 (?b @ ys) 2 = Some (of_nat (length fs))" for ys
    unfolding raw by (simp_all add: rd16_def b16_bytes b32_bytes be16_bytes five)
  have rd32: "rd32 ?b 4 = Some up" "rd32 ?b 8 = Some sec" "rd32 ?b 12 = Some ns" "rd32 ?b 16 = Some sq"
    unfolding raw by (simp_all add: rd32_def b16_bytes b32_bytes be32_bytes)
  have loop: "flow_loop (nf5_flow ?b) 24 48 0 (length fs) s' = Some (s'\<lparr>flows := flows s' @ fs\<rparr>)" for s'
    unfolding raw by (rule flow_loop_nf5 [OF assms(3)]) (simp add: b16_bytes b32_bytes)
  have ok: "process_netflow_packet (s\<lparr>raw_sample := ?b\<rparr>) st =
      Some (st, s\<lparr>raw_sample := ?b, version := 5, nflows := length fs, uptime_ms := up,
        time_sec := sec, time_nanosec := ns, flow_sequence := sq, flows := flows s @ fs\<rparr>, True)"
    using assms(1,2) rd16 [of "[]"] len
    by (simp add: process_netflow_packet_def process_netflow_v5_def count rd32 loop NF5_MAXFLOWS_def NF5_PACKET_SIZE_def)
  have bad: "process_netflow_packet (s\<lparr>raw_sample := ?b @ x # xs\<rparr>) st =
      Some (st, s\<lparr>raw_sample := ?b @ x # xs, version := 5, nflows := length fs\<rparr>, False)"
    using len by (auto simp: process_netflow_packet_def process_netflow_v5_def count rd16 Let_def)
  from ok bad show ?thesis ..
qed

theorem v5_packet_roundtrip_witness:
  "process_netflow_packet ((demo_sample 0)\<lparr>raw_sample := nf5_bytes 1 2 3 4 [new_flow]\<rparr>) empty_state =
      Some (empty_state, (demo_sample 0)\<lparr>raw_sample := nf5_bytes 1 2 3 4 [new_flow], version := 5, nflows := 1, uptime_ms := 1,
        time_sec := 2, time_nanosec := 3, flow_sequence := 4, flows := [new_flow]\<rparr>, True)"
  using v5_packet_roundtrip [of "[new_flow]" 1 2 3 4 "demo_sample 0" empty_state]
  by (simp add: v4_flow_def v4_addr_def new_flow_def demo_sample_def)

end
