(* ===== verification/Sflow.thy ===== *)
theory Sflow
  imports Prelude
begin

text \<open>
  The sFlow decoder (\<^verbatim>\<open>src/inputs/flow/SflowData.h\<close>, with the tags and the structures of
  \<^verbatim>\<open>3rd/sflow/sflow.h\<close> and \<^verbatim>\<open>sflow_v2v4.h\<close>): datagrams of versions 2, 4 and 5 with flow and counter
  samples, and the decoding of a sampled packet header down to the ports.

  The datagram is the front of a block of memory; a pointer is an offset into the block, and a read
  outside the block is \<open>Undefined\<close>. The code often reads first and compares with the end
  of the datagram afterwards, so reads behind the datagram but inside the block are part of the model.
  An exception is \<open>Thrown\<close>; the callers drop the sample then. Arithmetic on offsets does not wrap.
  The addition to a signed length in \<^verbatim>\<open>lengthCheck\<close> is taken to wrap.
\<close>

unbundle bit_operations_syntax

subsection \<open>Results\<close>

datatype sf_error = OutOfRange | LengthError | InvalidArgument

datatype 'a sf = Undefined | Thrown sf_error | Value 'a

fun bnd :: "'a sf \<Rightarrow> ('a \<Rightarrow> 'b sf) \<Rightarrow> 'b sf" where
  "bnd Undefined g = Undefined"
| "bnd (Thrown e) g = Thrown e"
| "bnd (Value x) g = g x"

definition peek :: "'a option \<Rightarrow> 'a sf" where
  "peek x = (case x of None \<Rightarrow> Undefined | Some y \<Rightarrow> Value y)"

text \<open>Statements in sequence.\<close>

fun steps :: "('s \<Rightarrow> 's sf) list \<Rightarrow> 's \<Rightarrow> 's sf" where
  "steps [] s = Value s"
| "steps (f # fs) s = bnd (f s) (steps fs)"

subsection \<open>Samples\<close>

record sfl_address =
  addr_type :: u32
  addr_bytes :: "byte list"

definition no_address :: sfl_address where
  "no_address = \<lparr>addr_type = 0, addr_bytes = replicate 16 0\<rparr>"

text \<open>\<^verbatim>\<open>memcpy\<close> of some bytes over the front of an array.\<close>

definition copy_front :: "byte list \<Rightarrow> byte list \<Rightarrow> byte list" where
  "copy_front bs old = bs @ drop (length bs) old"

record sfl_if_counters =
  ifIndex :: u32
  ifType :: u32
  ifSpeed :: u64
  ifDirection :: u32
  ifStatus :: u32
  ifInOctets :: u64
  ifInUcastPkts :: u32
  ifInMulticastPkts :: u32
  ifInBroadcastPkts :: u32
  ifInDiscards :: u32
  ifInErrors :: u32
  ifInUnknownProtos :: u32
  ifOutOctets :: u64
  ifOutUcastPkts :: u32
  ifOutMulticastPkts :: u32
  ifOutBroadcastPkts :: u32
  ifOutDiscards :: u32
  ifOutErrors :: u32
  ifPromiscuousMode :: u32

text \<open>An element, with the fields that the decoder or the flow handler use.\<close>

record sf_element =
  sampleType :: u32
  elementType :: u32
  ds_class :: u32
  ds_index :: u32
  ifCounters :: sfl_if_counters
  samplesGenerated :: u32
  meanSkipCount :: u32
  samplePool :: u32
  dropEvents :: u32
  sampledPacketSize :: u32
  packet_data_tag :: u32
  headerProtocol :: u32
  header :: nat
  headerLen :: u32
  stripped :: u32
  gotIPV4 :: bool
  gotIPV4Struct :: bool
  offsetToIPV4 :: nat
  gotIPV6 :: bool
  gotIPV6Struct :: bool
  offsetToIPV6 :: nat
  offsetToPayload :: nat
  ipsrc :: sfl_address
  ipdst :: sfl_address
  dcd_ipProtocol :: u32
  dcd_ipTos :: u32
  dcd_ipTTL :: u32
  dcd_sport :: u32
  dcd_dport :: u32
  dcd_tcpFlags :: u32
  ip_fragmentOffset :: u32
  udp_pduLen :: u32
  inputPortFormat :: u32
  outputPortFormat :: u32
  inputPort :: u32
  outputPort :: u32
  eth_type :: u32
  eth_len :: u32
  eth_src :: "byte list"
  eth_dst :: "byte list"
  in_vlan :: u32
  num_extended :: u32
  extended_data_tag :: u32
  statsSamplingInterval :: u32
  counterBlockVersion :: u32

definition no_counters :: sfl_if_counters where
  "no_counters =
     \<lparr>ifIndex = 0, ifType = 0, ifSpeed = 0, ifDirection = 0, ifStatus = 0, ifInOctets = 0, ifInUcastPkts = 0,
      ifInMulticastPkts = 0, ifInBroadcastPkts = 0, ifInDiscards = 0, ifInErrors = 0, ifInUnknownProtos = 0,
      ifOutOctets = 0, ifOutUcastPkts = 0, ifOutMulticastPkts = 0, ifOutBroadcastPkts = 0, ifOutDiscards = 0,
      ifOutErrors = 0, ifPromiscuousMode = 0\<rparr>"

definition new_element :: sf_element where
  "new_element =
     \<lparr>sampleType = 0, elementType = 0, ds_class = 0, ds_index = 0, ifCounters = no_counters,
      samplesGenerated = 0, meanSkipCount = 0, samplePool = 0, dropEvents = 0,
      sampledPacketSize = 0, packet_data_tag = 0, headerProtocol = 0, header = 0, headerLen = 0, stripped = 0,
      gotIPV4 = False, gotIPV4Struct = False, offsetToIPV4 = 0, gotIPV6 = False, gotIPV6Struct = False,
      offsetToIPV6 = 0, offsetToPayload = 0, ipsrc = no_address, ipdst = no_address,
      dcd_ipProtocol = 0, dcd_ipTos = 0, dcd_ipTTL = 0, dcd_sport = 0, dcd_dport = 0, dcd_tcpFlags = 0,
      ip_fragmentOffset = 0, udp_pduLen = 0, inputPortFormat = 0, outputPortFormat = 0, inputPort = 0,
      outputPort = 0, eth_type = 0, eth_len = 0, eth_src = replicate 8 0, eth_dst = replicate 8 0,
      in_vlan = 0, num_extended = 0, extended_data_tag = 0, statsSamplingInterval = 0, counterBlockVersion = 0\<rparr>"

record sf_sample =
  rawSample :: "byte list"
  rawSampleLen :: u32
  datap :: nat
  agent_addr :: sfl_address
  agentSubId :: u32
  datagramVersion :: u32
  sysUpTime :: u32
  sequenceNo :: u32
  elem :: sf_element
  elements :: "sf_element list"

abbreviation endp :: "sf_sample \<Rightarrow> nat" where
  "endp s \<equiv> unat (rawSampleLen s)"

text \<open>A sample as the input stream hands it over: the block, and the length of the datagram in it.\<close>

definition new_sample :: "byte list \<Rightarrow> u32 \<Rightarrow> sf_sample" where
  "new_sample block len =
     \<lparr>rawSample = block, rawSampleLen = len, datap = 0, agent_addr = no_address, agentSubId = 0,
      datagramVersion = 0, sysUpTime = 0, sequenceNo = 0, elem = new_element, elements = []\<rparr>"

subsection \<open>Reading the datagram\<close>

definition getData32_nobswap :: "sf_sample \<Rightarrow> (byte list \<times> sf_sample) sf" where
  "getData32_nobswap s =
     bnd (peek (rd_bytes (rawSample s) (datap s) 4)) (\<lambda>ans.
       let s' = s\<lparr>datap := datap s + 4\<rparr> in
       if datap s' > endp s' then Thrown OutOfRange else Value (ans, s'))"

definition getData32 :: "sf_sample \<Rightarrow> (u32 \<times> sf_sample) sf" where
  "getData32 s =
     bnd (getData32_nobswap s) (\<lambda>(b, s). Value (be32 (b ! 0) (b ! 1) (b ! 2) (b ! 3), s))"

definition getData64 :: "sf_sample \<Rightarrow> (u64 \<times> sf_sample) sf" where
  "getData64 s =
     bnd (getData32 s) (\<lambda>(tmpHi, s).
     bnd (getData32 s) (\<lambda>(tmpLo, s).
       Value (push_bit 32 (ucast tmpHi) + ucast tmpLo, s)))"

definition skipBytes :: "u32 \<Rightarrow> sf_sample \<Rightarrow> sf_sample sf" where
  "skipBytes skip s =
     (let quads = unat ((skip + 3) div 4); s' = s\<lparr>datap := datap s + 4 * quads\<rparr> in
      if skip > rawSampleLen s \<or> datap s' > endp s' then Thrown OutOfRange else Value s')"

definition SFLADDRESSTYPE_IP_V4 :: u32 where "SFLADDRESSTYPE_IP_V4 = 1"

definition SFLADDRESSTYPE_IP_V6 :: u32 where "SFLADDRESSTYPE_IP_V6 = 2"

definition getAddress :: "sfl_address \<Rightarrow> sf_sample \<Rightarrow> (sfl_address \<times> sf_sample) sf" where
  "getAddress a s =
     bnd (getData32 s) (\<lambda>(t, s).
       if t = SFLADDRESSTYPE_IP_V4 then
         bnd (getData32_nobswap s) (\<lambda>(b, s). Value (\<lparr>addr_type = t, addr_bytes = copy_front b (addr_bytes a)\<rparr>, s))
       else
         bnd (skipBytes 16 s) (\<lambda>s'.
         bnd (peek (rd_bytes (rawSample s) (datap s) 16)) (\<lambda>b.
           Value (\<lparr>addr_type = t, addr_bytes = b\<rparr>, s'))))"

definition adjusted :: "u32 \<Rightarrow> u32" where
  "adjusted len = push_bit 2 (drop_bit 2 (len + 3))"

definition lengthCheck :: "nat \<Rightarrow> u32 \<Rightarrow> sf_sample \<Rightarrow> sf_sample sf" where
  "lengthCheck start len s =
     (if (of_nat (datap s - start) :: u32) \<noteq> adjusted len then Thrown LengthError else Value s)"

text \<open>\<^verbatim>\<open>sample->s.f = getData32(sample)\<close> and its variant for a counter of the generic block.\<close>

definition get32 :: "((u32 \<Rightarrow> u32) \<Rightarrow> sf_element \<Rightarrow> sf_element) \<Rightarrow> sf_sample \<Rightarrow> sf_sample sf" where
  "get32 upd s = bnd (getData32 s) (\<lambda>(x, s). Value (s\<lparr>elem := upd (\<lambda>_. x) (elem s)\<rparr>))"

definition cnt32 :: "((u32 \<Rightarrow> u32) \<Rightarrow> sfl_if_counters \<Rightarrow> sfl_if_counters) \<Rightarrow> sf_sample \<Rightarrow> sf_sample sf" where
  "cnt32 upd s =
     bnd (getData32 s) (\<lambda>(x, s). Value (s\<lparr>elem := (elem s)\<lparr>ifCounters := upd (\<lambda>_. x) (ifCounters (elem s))\<rparr>\<rparr>))"

definition cnt64 :: "((u64 \<Rightarrow> u64) \<Rightarrow> sfl_if_counters \<Rightarrow> sfl_if_counters) \<Rightarrow> sf_sample \<Rightarrow> sf_sample sf" where
  "cnt64 upd s =
     bnd (getData64 s) (\<lambda>(x, s). Value (s\<lparr>elem := (elem s)\<lparr>ifCounters := upd (\<lambda>_. x) (ifCounters (elem s))\<rparr>\<rparr>))"

subsection \<open>The sampled header\<close>

text \<open>
  \<^verbatim>\<open>(end - ptr) < sizeof(...)\<close>: the difference is converted to an unsigned number, so that a pointer
  behind the end is never too close to it.
\<close>

definition fewer :: "nat \<Rightarrow> nat \<Rightarrow> nat \<Rightarrow> bool" where
  "fewer ende ptr n \<longleftrightarrow> ptr \<le> ende \<and> ende < ptr + n"

text \<open>A conjunction of comparisons of consecutive bytes, which stops at the first that fails.\<close>

fun bytes_are :: "byte list \<Rightarrow> nat \<Rightarrow> byte list \<Rightarrow> bool sf" where
  "bytes_are buf p [] = Value True"
| "bytes_are buf p (b # bs) =
     bnd (peek (rd8 buf p)) (\<lambda>x. if x = b then bytes_are buf (p + 1) bs else Value False)"

declare bytes_are.simps [simp del]

definition vlan_type :: "u16 \<Rightarrow> bool" where
  "vlan_type t \<longleftrightarrow> t = 0x8100 \<or> t = 0x88A8 \<or> t = 0x9100 \<or> t = 0x9200 \<or> t = 0x9300"

text \<open>The loop over 802.1Q headers; the flag tells that it was left by its condition.\<close>

function vlan_loop :: "byte list \<Rightarrow> nat \<Rightarrow> nat \<Rightarrow> u16 \<Rightarrow> u32 \<Rightarrow> (bool \<times> nat \<times> u16 \<times> u32) sf" where
  "vlan_loop buf ende ptr type_len vlan =
     (if \<not> vlan_type type_len then Value (True, ptr, type_len, vlan)
      else if ende < ptr + 4 then Value (False, ptr, type_len, vlan)
      else
        bnd (peek (rd16 buf ptr)) (\<lambda>vlanData.
        bnd (peek (rd16 buf (ptr + 2))) (\<lambda>t.
          vlan_loop buf ende (ptr + 4) t (ucast vlanData AND 0x0fff))))"
  by pat_completeness auto
termination by (relation "measure (\<lambda>(buf, ende, ptr, _). ende - ptr)") auto

declare vlan_loop.simps [simp del]

definition IPX_HDR_LEN :: nat where "IPX_HDR_LEN = 30"

definition IPX_MAX_DATA :: nat where "IPX_MAX_DATA = 546"

definition is_ipx :: "byte list \<Rightarrow> nat \<Rightarrow> u16 \<Rightarrow> bool sf" where
  "is_ipx buf ptr type_len =
     (if type_len = 0x0200 \<or> type_len = 0x0201 \<or> type_len = 0x0600 then
        bnd (bytes_are buf ptr [0xff, 0xff]) (\<lambda>ipxChecksum.
        bnd (peek (rd16 buf (ptr + 2))) (\<lambda>ipxLen.
          Value (ipxChecksum \<and> unat ipxLen \<ge> IPX_HDR_LEN \<and> unat ipxLen \<le> IPX_HDR_LEN + IPX_MAX_DATA)))
      else Value False)"

definition NFT_MAX_8023_LEN :: u16 where "NFT_MAX_8023_LEN = 1500"

text \<open>The 802.3 and 802.2 headers: where the payload starts and its type, or none for another protocol.\<close>

definition llc :: "byte list \<Rightarrow> nat \<Rightarrow> u16 \<Rightarrow> (nat \<times> u16) option sf" where
  "llc buf ptr type_len =
     (if type_len \<le> NFT_MAX_8023_LEN then
        bnd (bytes_are buf ptr [0xAA, 0xAA, 0x03]) (\<lambda>snap.
          if snap then
            bnd (bytes_are buf (ptr + 3) [0, 0, 0]) (\<lambda>oui.
              if \<not> oui then Value None
              else bnd (peek (rd16 buf (ptr + 6))) (\<lambda>t. Value (Some (ptr + 8, t))))
          else
            bnd (bytes_are buf ptr [0x06, 0x06]) (\<lambda>ip.
              if ip then
                bnd (peek (rd8 buf (ptr + 2))) (\<lambda>c.
                  if c AND 0x01 \<noteq> 0 then Value (Some (ptr + 3, 0x0800)) else Value None)
              else Value None))
      else Value (Some (ptr, type_len)))"

definition link_ip :: "byte list \<Rightarrow> nat \<Rightarrow> nat \<Rightarrow> u16 \<Rightarrow> sf_element \<Rightarrow> sf_element sf" where
  "link_ip buf ende ptr type_len e =
     (if type_len = 0x0800 then
        if fewer ende ptr 20 then Value e
        else bnd (peek (rd8 buf ptr)) (\<lambda>b.
          if drop_bit 4 b \<noteq> 4 then Value e
          else if b AND 15 < 5 then Value e
          else Value (e\<lparr>gotIPV4 := True, offsetToIPV4 := ptr - header e\<rparr>))
      else if type_len = 0x86DD then
        bnd (peek (rd8 buf ptr)) (\<lambda>b.
          if drop_bit 4 b \<noteq> 6 then Value e
          else Value (e\<lparr>gotIPV6 := True, offsetToIPV6 := ptr - header e\<rparr>))
      else Value e)"

definition NFT_ETHHDR_SIZ :: nat where "NFT_ETHHDR_SIZ = 14"

definition decodeLinkLayer :: "byte list \<Rightarrow> sf_element \<Rightarrow> sf_element sf" where
  "decodeLinkLayer buf e =
     (let start = header e; ende = start + unat (headerLen e);
          e = e\<lparr>gotIPV4 := False, gotIPV6 := False\<rparr> in
      if ende < start + NFT_ETHHDR_SIZ then Value e
      else
        bnd (peek (rd_bytes buf start 6)) (\<lambda>dst.
        bnd (peek (rd_bytes buf (start + 6) 6)) (\<lambda>src.
        bnd (peek (rd16 buf (start + 12))) (\<lambda>t.
        bnd (vlan_loop buf ende (start + 14) t (in_vlan e)) (\<lambda>(done, ptr, type_len, vlan).
          let e = e\<lparr>eth_dst := copy_front dst (eth_dst e), eth_src := copy_front src (eth_src e), in_vlan := vlan\<rparr> in
          if \<not> done then Value e
          else if ende < start + 20 then Value e
          else
            bnd (is_ipx buf ptr type_len) (\<lambda>ipx.
              if ipx then Value e
              else
                bnd (llc buf ptr type_len) (\<lambda>next.
                  case next of
                    None \<Rightarrow> Value e
                  | Some (ptr, type_len) \<Rightarrow>
                      link_ip buf ende ptr type_len (e\<lparr>eth_type := ucast type_len\<rparr>))))))))"

definition WIFI_MIN_HDR_SIZ :: u32 where "WIFI_MIN_HDR_SIZ = 24"

definition decode80211MAC :: "byte list \<Rightarrow> sf_element \<Rightarrow> sf_element sf" where
  "decode80211MAC buf e =
     (let start = header e; e = e\<lparr>gotIPV4 := False, gotIPV6 := False\<rparr> in
      if headerLen e < WIFI_MIN_HDR_SIZ then Value e
      else
        bnd (peek (rd_bytes buf start 4)) (\<lambda>b.
          let fc = be16 (b ! 1) (b ! 0); control = drop_bit 2 fc AND 3; toDS = bit fc 8; fromDS = bit fc 9 in
          if control \<noteq> 2 then Value e
          else
            bnd (peek (rd16 buf (start + 22))) (\<lambda>_.
              let srcMAC = (if toDS then (if fromDS then start + 24 else start + 10)
                            else if fromDS then start + 16 else start + 10) in
              bnd (peek (rd_bytes buf srcMAC 6)) (\<lambda>m.
                Value (e\<lparr>eth_src := copy_front m (eth_src e), eth_dst := copy_front m (eth_dst e)\<rparr>)))))"

definition decodeIPLayer4 :: "byte list \<Rightarrow> nat \<Rightarrow> sf_element \<Rightarrow> sf_element sf" where
  "decodeIPLayer4 buf ptr e =
     (let ende = header e + unat (headerLen e) in
      if ptr + 8 > ende then Value e
      else if dcd_ipProtocol e = 1 then
        bnd (peek (rd_bytes buf ptr 2)) (\<lambda>icmp.
          Value (e\<lparr>dcd_sport := ucast (icmp ! 0), dcd_dport := ucast (icmp ! 1), offsetToPayload := ptr + 2 - header e\<rparr>))
      else if dcd_ipProtocol e = 6 then
        bnd (peek (rd_bytes buf ptr 20)) (\<lambda>tcp.
          Value (e\<lparr>dcd_sport := ucast (be16 (tcp ! 0) (tcp ! 1)), dcd_dport := ucast (be16 (tcp ! 2) (tcp ! 3)),
            dcd_tcpFlags := ucast (tcp ! 13), offsetToPayload := ptr + unat (drop_bit 4 (tcp ! 12)) * 4 - header e\<rparr>))
      else if dcd_ipProtocol e = 17 then
        bnd (peek (rd_bytes buf ptr 8)) (\<lambda>udp.
          Value (e\<lparr>dcd_sport := ucast (be16 (udp ! 0) (udp ! 1)), dcd_dport := ucast (be16 (udp ! 2) (udp ! 3)),
            udp_pduLen := ucast (be16 (udp ! 4) (udp ! 5)), offsetToPayload := ptr + 8 - header e\<rparr>))
      else Value (e\<lparr>offsetToPayload := ptr - header e\<rparr>))"

definition v4_address :: "byte list \<Rightarrow> sfl_address \<Rightarrow> sfl_address" where
  "v4_address b a = \<lparr>addr_type = SFLADDRESSTYPE_IP_V4, addr_bytes = copy_front b (addr_bytes a)\<rparr>"

definition v6_address :: "byte list \<Rightarrow> sfl_address" where
  "v6_address b = \<lparr>addr_type = SFLADDRESSTYPE_IP_V6, addr_bytes = b\<rparr>"

definition decodeIPV4 :: "byte list \<Rightarrow> sf_element \<Rightarrow> sf_element sf" where
  "decodeIPV4 buf e =
     (if gotIPV4 e then
        let ende = header e + unat (headerLen e); ptr = header e + offsetToIPV4 e in
        if fewer ende ptr 20 then Value e
        else
          bnd (peek (rd_bytes buf ptr 20)) (\<lambda>ip.
            let e = e\<lparr>ipsrc := v4_address (take 4 (drop 12 ip)) (ipsrc e), ipdst := v4_address (take 4 (drop 16 ip)) (ipdst e),
                      dcd_ipProtocol := ucast (ip ! 9), dcd_ipTos := ucast (ip ! 1), dcd_ipTTL := ucast (ip ! 8),
                      ip_fragmentOffset := ucast (be16 (ip ! 6) (ip ! 7)) AND 0x1FFF\<rparr> in
            if ip_fragmentOffset e > 0 then Value e
            else
              let headerBytes = unat (ip ! 0 AND 0x0f) * 4 in
              if ende < ptr + headerBytes then Value e
              else decodeIPLayer4 buf (ptr + headerBytes) e)
      else Value e)"

definition extension :: "byte \<Rightarrow> bool" where
  "extension h \<longleftrightarrow> h = 0 \<or> h = 43 \<or> h = 44 \<or> h = 51 \<or> h = 60"

text \<open>The loop over extension headers: the protocol and the start of the payload, or none past the end.\<close>

function v6_extensions :: "byte list \<Rightarrow> nat \<Rightarrow> nat \<Rightarrow> byte \<Rightarrow> (byte \<times> nat) option sf" where
  "v6_extensions buf ende ptr nextHeader =
     (if extension nextHeader then
        bnd (peek (rd_bytes buf ptr 2)) (\<lambda>b.
          let ptr' = ptr + 8 * (unat (b ! 1) + 1) in
          if ptr' > ende then Value None else v6_extensions buf ende ptr' (b ! 0))
      else Value (Some (nextHeader, ptr)))"
  by pat_completeness auto
termination by (relation "measure (\<lambda>(buf, ende, ptr, _). ende - ptr)") auto

declare v6_extensions.simps [simp del]

definition decodeIPV6 :: "byte list \<Rightarrow> sf_element \<Rightarrow> sf_element sf" where
  "decodeIPV6 buf e =
     (let ende = header e + unat (headerLen e); ptr = header e + offsetToIPV6 e in
      if fewer ende ptr 40 then Value e
      else if gotIPV6 e then
        bnd (peek (rd8 buf ptr)) (\<lambda>v.
          if drop_bit 4 v \<noteq> 6 then Value e
          else
            bnd (peek (rd_bytes buf ptr 40)) (\<lambda>ip.
              let e = e\<lparr>dcd_ipTos := push_bit 4 (ucast (ip ! 0 AND 15)) + ucast (drop_bit 4 (ip ! 1)),
                        dcd_ipTTL := ucast (ip ! 7),
                        ipsrc := v6_address (take 16 (drop 8 ip)), ipdst := v6_address (take 16 (drop 24 ip))\<rparr> in
              bnd (v6_extensions buf ende (ptr + 40) (ip ! 6)) (\<lambda>r.
                case r of
                  None \<Rightarrow> Value e
                | Some (nextHeader, ptr) \<Rightarrow> decodeIPLayer4 buf ptr (e\<lparr>dcd_ipProtocol := ucast nextHeader\<rparr>))))
      else Value e)"

subsection \<open>Counter samples\<close>

definition readCounters_generic :: "sf_sample \<Rightarrow> sf_sample sf" where
  "readCounters_generic =
     steps [cnt32 ifIndex_update, cnt32 ifType_update, cnt64 ifSpeed_update, cnt32 ifDirection_update, cnt32 ifStatus_update,
       cnt64 ifInOctets_update, cnt32 ifInUcastPkts_update, cnt32 ifInMulticastPkts_update,
       cnt32 ifInBroadcastPkts_update, cnt32 ifInDiscards_update, cnt32 ifInErrors_update,
       cnt32 ifInUnknownProtos_update, cnt64 ifOutOctets_update, cnt32 ifOutUcastPkts_update,
       cnt32 ifOutMulticastPkts_update, cnt32 ifOutBroadcastPkts_update, cnt32 ifOutDiscards_update,
       cnt32 ifOutErrors_update, cnt32 ifPromiscuousMode_update]"

text \<open>The class and the index of the data source, packed into one word.\<close>

definition getSampler :: "sf_sample \<Rightarrow> sf_sample sf" where
  "getSampler s =
     bnd (getData32 s) (\<lambda>(samplerId, s).
       Value (s\<lparr>elem := (elem s)\<lparr>ds_class := drop_bit 24 samplerId, ds_index := samplerId AND 0x00ffffff\<rparr>\<rparr>))"

definition counter_block :: "sf_sample \<Rightarrow> sf_sample sf" where
  "counter_block s =
     (let v = counterBlockVersion (elem s) in
      if v \<in> {1, 2, 3, 4, 5, 6} then readCounters_generic s
      else if v = 7 then Value s
      else Thrown InvalidArgument)"

definition readCountersSample_v2v4 :: "sf_sample \<Rightarrow> sf_sample sf" where
  "readCountersSample_v2v4 =
     steps [get32 samplesGenerated_update, getSampler, get32 statsSamplingInterval_update,
       get32 counterBlockVersion_update, counter_block]"

definition getSource :: "bool \<Rightarrow> sf_sample \<Rightarrow> sf_sample sf" where
  "getSource expanded = (if expanded then steps [get32 ds_class_update, get32 ds_index_update] else getSampler)"

definition counters_element :: "u32 \<Rightarrow> u32 \<Rightarrow> sf_sample \<Rightarrow> sf_sample sf" where
  "counters_element tag len s = (if tag = 1 then readCounters_generic s else skipBytes len s)"

text \<open>
  The loop over the elements of a sample: the tag, the length, the decoder of the tag, and the check
  that it read as many bytes as the length says.
\<close>

fun elements_loop :: "(u32 \<Rightarrow> u32 \<Rightarrow> sf_sample \<Rightarrow> sf_sample sf) \<Rightarrow> nat \<Rightarrow> sf_sample \<Rightarrow> sf_sample sf" where
  "elements_loop dec 0 s = Value s"
| "elements_loop dec (Suc n) s =
     bnd (get32 elementType_update s) (\<lambda>s.
     bnd (getData32 s) (\<lambda>(len, s).
     bnd (dec (elementType (elem s)) len s) (\<lambda>s'.
     bnd (lengthCheck (datap s) len s') (elements_loop dec n))))"

definition readCountersSample :: "bool \<Rightarrow> sf_sample \<Rightarrow> sf_sample sf" where
  "readCountersSample expanded s =
     bnd (getData32 s) (\<lambda>(sampleLength, s).
     bnd (steps [get32 samplesGenerated_update, getSource expanded] s) (\<lambda>s1.
     bnd (getData32 s1) (\<lambda>(num_elements, s2).
     bnd (elements_loop counters_element (unat num_elements) s2)
       (lengthCheck (datap s) sampleLength))))"

subsection \<open>Flow samples\<close>

text \<open>A word of a structure that was copied from the datagram.\<close>

definition key32 :: "byte list \<Rightarrow> nat \<Rightarrow> u32" where
  "key32 b i = be32 (b ! i) (b ! (i + 1)) (b ! (i + 2)) (b ! (i + 3))"

definition readFlowSample_IPv4 :: "sf_sample \<Rightarrow> sf_sample sf" where
  "readFlowSample_IPv4 s =
     (let s = s\<lparr>elem := (elem s)\<lparr>headerLen := 32, header := datap s\<rparr>\<rparr> in
      bnd (skipBytes 32 s) (\<lambda>s.
      bnd (peek (rd_bytes (rawSample s) (header (elem s)) 32)) (\<lambda>k.
        let e = (elem s)\<lparr>sampledPacketSize := key32 k 0,
                  ipsrc := v4_address (take 4 (drop 8 k)) (ipsrc (elem s)),
                  ipdst := v4_address (take 4 (drop 12 k)) (ipdst (elem s)),
                  dcd_ipProtocol := key32 k 4, dcd_ipTos := key32 k 28,
                  dcd_sport := key32 k 16, dcd_dport := key32 k 20\<rparr> in
        Value (s\<lparr>elem := if dcd_ipProtocol e = 6 then e\<lparr>dcd_tcpFlags := key32 k 24\<rparr> else e\<rparr>))))"

definition readFlowSample_IPv6 :: "sf_sample \<Rightarrow> sf_sample sf" where
  "readFlowSample_IPv6 s =
     (let s = s\<lparr>elem := (elem s)\<lparr>header := datap s, headerLen := 56\<rparr>\<rparr> in
      bnd (skipBytes 56 s) (\<lambda>s.
      bnd (peek (rd_bytes (rawSample s) (header (elem s)) 56)) (\<lambda>k.
        let e = (elem s)\<lparr>sampledPacketSize := key32 k 0,
                  ipsrc := v6_address (take 16 (drop 8 k)), ipdst := v6_address (take 16 (drop 24 k)),
                  dcd_ipProtocol := key32 k 4, dcd_sport := key32 k 40, dcd_dport := key32 k 44\<rparr> in
        Value (s\<lparr>elem := if dcd_ipProtocol e = 6 then e\<lparr>dcd_tcpFlags := key32 k 48\<rparr> else e\<rparr>))))"

definition copy_mac :: "((byte list \<Rightarrow> byte list) \<Rightarrow> sf_element \<Rightarrow> sf_element) \<Rightarrow> sf_sample \<Rightarrow> sf_sample sf" where
  "copy_mac upd s =
     bnd (peek (rd_bytes (rawSample s) (datap s) 6)) (\<lambda>b.
       skipBytes 6 (s\<lparr>elem := upd (copy_front b) (elem s)\<rparr>))"

definition readFlowSample_ethernet :: "sf_sample \<Rightarrow> sf_sample sf" where
  "readFlowSample_ethernet =
     steps [get32 eth_len_update, copy_mac eth_src_update, copy_mac eth_dst_update, get32 eth_type_update]"

text \<open>Where the decoding of a header starts, by its protocol.\<close>

definition header_protocol :: "byte list \<Rightarrow> sf_element \<Rightarrow> sf_element sf" where
  "header_protocol buf e =
     (let p = headerProtocol e in
      if p = 1 then decodeLinkLayer buf e
      else if p = 11 then Value (e\<lparr>gotIPV4 := True, offsetToIPV4 := 0\<rparr>)
      else if p = 12 then Value (e\<lparr>gotIPV6 := True, offsetToIPV6 := 0\<rparr>)
      else if p = 15 then decode80211MAC buf e
      else if p \<in> {2, 3, 4, 5, 6, 7, 8, 9, 10, 13, 14, 16, 17} then Value e
      else Thrown InvalidArgument)"

definition decode_header :: "byte list \<Rightarrow> sf_element \<Rightarrow> sf_element sf" where
  "decode_header buf e =
     bnd (header_protocol buf e) (\<lambda>e.
       if gotIPV4 e then decodeIPV4 buf e else if gotIPV6 e then decodeIPV6 buf e else Value e)"

definition readFlowSample_header :: "sf_sample \<Rightarrow> sf_sample sf" where
  "readFlowSample_header s =
     bnd (steps [get32 headerProtocol_update, get32 sampledPacketSize_update,
       (if datagramVersion s > 4 then get32 stripped_update else Value), get32 headerLen_update] s) (\<lambda>s.
     let s = s\<lparr>elem := (elem s)\<lparr>header := datap s\<rparr>\<rparr> in
     bnd (skipBytes (headerLen (elem s)) s) (\<lambda>s.
     bnd (decode_header (rawSample s) (elem s)) (\<lambda>e. Value (s\<lparr>elem := e\<rparr>))))"

definition packet_data :: "sf_sample \<Rightarrow> sf_sample sf" where
  "packet_data s =
     (let t = packet_data_tag (elem s) in
      if t = 1 then readFlowSample_header s
      else if t = 2 then readFlowSample_IPv4 (s\<lparr>elem := (elem s)\<lparr>gotIPV4Struct := True\<rparr>\<rparr>)
      else if t = 3 then readFlowSample_IPv6 (s\<lparr>elem := (elem s)\<lparr>gotIPV6Struct := True\<rparr>\<rparr>)
      else Thrown InvalidArgument)"

definition readFlowSample_v2v4 :: "sf_sample \<Rightarrow> sf_sample sf" where
  "readFlowSample_v2v4 s =
     bnd (steps [get32 samplesGenerated_update, getSampler, get32 meanSkipCount_update, get32 samplePool_update,
       get32 dropEvents_update, get32 inputPort_update, get32 outputPort_update, get32 packet_data_tag_update,
       packet_data] s) (\<lambda>s.
     bnd (get32 num_extended_update (s\<lparr>elem := (elem s)\<lparr>extended_data_tag := 0\<rparr>\<rparr>)) (\<lambda>s.
       if num_extended (elem s) > 0 then Thrown InvalidArgument else Value s))"

definition getPorts :: "bool \<Rightarrow> sf_sample \<Rightarrow> sf_sample sf" where
  "getPorts expanded s =
     (if expanded then
        steps [get32 inputPortFormat_update, get32 inputPort_update, get32 outputPortFormat_update, get32 outputPort_update] s
      else
        bnd (getData32 s) (\<lambda>(inp, s).
        bnd (getData32 s) (\<lambda>(outp, s).
          Value (s\<lparr>elem := (elem s)\<lparr>inputPortFormat := drop_bit 30 inp, outputPortFormat := drop_bit 30 outp,
            inputPort := inp AND 0x3fffffff, outputPort := outp AND 0x3fffffff\<rparr>\<rparr>))))"

definition flow_element :: "u32 \<Rightarrow> u32 \<Rightarrow> sf_sample \<Rightarrow> sf_sample sf" where
  "flow_element tag len s =
     (if tag = 1 then readFlowSample_header s
      else if tag = 2 \<or> tag = 1021 \<or> tag = 1022 then readFlowSample_ethernet s
      else if tag = 3 \<or> tag = 1023 \<or> tag = 1024 then readFlowSample_IPv4 s
      else if tag = 4 \<or> tag = 1025 \<or> tag = 1026 then readFlowSample_IPv6 s
      else skipBytes len s)"

definition readFlowSample :: "bool \<Rightarrow> sf_sample \<Rightarrow> sf_sample sf" where
  "readFlowSample expanded s =
     bnd (getData32 s) (\<lambda>(sampleLength, s).
     bnd (steps [get32 samplesGenerated_update, getSource expanded, get32 meanSkipCount_update, get32 samplePool_update,
       get32 dropEvents_update, getPorts expanded] s) (\<lambda>s1.
     bnd (getData32 s1) (\<lambda>(num_elements, s2).
     bnd (elements_loop flow_element (unat num_elements) s2)
       (lengthCheck (datap s) sampleLength))))"

subsection \<open>Datagrams\<close>

definition read_sample :: "sf_sample \<Rightarrow> sf_sample sf" where
  "read_sample s =
     (let t = sampleType (elem s) in
      if datagramVersion s \<ge> 5 then
        if t = 1 then readFlowSample False s
        else if t = 2 then readCountersSample False s
        else if t = 3 then readFlowSample True s
        else if t = 4 then readCountersSample True s
        else bnd (getData32 s) (\<lambda>(len, s). skipBytes len s)
      else
        if t = 1 then readFlowSample_v2v4 s
        else if t = 2 then readCountersSample_v2v4 s
        else Thrown InvalidArgument)"

fun samples_loop :: "nat \<Rightarrow> sf_sample \<Rightarrow> sf_sample sf" where
  "samples_loop 0 s = Value s"
| "samples_loop (Suc n) s =
     (if datap s \<ge> endp s then Thrown OutOfRange
      else
        bnd (get32 sampleType_update (s\<lparr>elem := new_element\<rparr>)) (\<lambda>s.
        bnd (read_sample s) (\<lambda>s.
          samples_loop n (s\<lparr>elements := elements s @ [elem s]\<rparr>))))"

definition read_sflow_datagram :: "sf_sample \<Rightarrow> sf_sample sf" where
  "read_sflow_datagram s =
     bnd (getData32 (s\<lparr>datap := 0\<rparr>)) (\<lambda>(version, s).
       if version \<noteq> 2 \<and> version \<noteq> 4 \<and> version \<noteq> 5 then Thrown InvalidArgument
       else
         bnd (getAddress (agent_addr s) (s\<lparr>datagramVersion := version\<rparr>)) (\<lambda>(a, s).
         bnd (if version \<ge> 5 then getData32 s else Value (agentSubId s, s)) (\<lambda>(sub, s).
         bnd (getData32 s) (\<lambda>(seqno, s).
         bnd (getData32 s) (\<lambda>(uptime, s).
         bnd (getData32 s) (\<lambda>(samplesInPacket, s).
           samples_loop (unat samplesInPacket)
             (s\<lparr>agent_addr := a, agentSubId := sub, sequenceNo := seqno, sysUpTime := uptime\<rparr>)))))))"

subsection \<open>Reads stay in the block\<close>

text \<open>
  A result that is not undefined and, if it is a value, satisfies a condition. The rules below follow the
  statements of the code.
\<close>

definition ensures :: "'a sf \<Rightarrow> ('a \<Rightarrow> bool) \<Rightarrow> bool" where
  "ensures r Q \<longleftrightarrow> (case r of Undefined \<Rightarrow> False | Thrown e \<Rightarrow> True | Value x \<Rightarrow> Q x)"

lemma ensures_simps [simp]:
  "\<not> ensures Undefined Q" "ensures (Thrown e) Q" "ensures (Value x) Q \<longleftrightarrow> Q x"
  by (simp_all add: ensures_def)

lemma ensures_bnd: "ensures r Q \<Longrightarrow> (\<And>x. Q x \<Longrightarrow> ensures (g x) R) \<Longrightarrow> ensures (bnd r g) R"
  by (cases r) simp_all

lemma ensures_mono: "ensures r Q \<Longrightarrow> (\<And>x. Q x \<Longrightarrow> R x) \<Longrightarrow> ensures r R"
  by (cases r) simp_all

lemma ensures_not_undefined: "ensures r Q \<Longrightarrow> r \<noteq> Undefined"
  by auto

lemma ensures_Value: "ensures r Q \<Longrightarrow> r = Value x \<Longrightarrow> Q x"
  by simp

lemma ensures_peek:
  "p < length buf \<Longrightarrow> ensures (peek (rd8 buf p)) (\<lambda>_. True)"
  "p + 2 \<le> length buf \<Longrightarrow> ensures (peek (rd16 buf p)) (\<lambda>_. True)"
  "p + n \<le> length buf \<Longrightarrow> ensures (peek (rd_bytes buf p n)) (\<lambda>_. True)"
  by (simp_all add: peek_def buf_simps)

lemma ensures_bytes_are: "p + length bs \<le> length buf \<Longrightarrow> ensures (bytes_are buf p bs) (\<lambda>_. True)"
proof (induction bs arbitrary: p)
  case (Cons b bs)
  show ?case unfolding bytes_are.simps
    by (rule ensures_bnd [OF ensures_peek(1)]) (use Cons in auto)
qed (simp add: bytes_are.simps)

text \<open>What the decoding of a header keeps of an element, and where it may find an IP header.\<close>

definition same_header :: "sf_element \<Rightarrow> sf_element \<Rightarrow> bool" where
  "same_header e e' \<longleftrightarrow> header e' = header e \<and> headerLen e' = headerLen e \<and> sampleType e' = sampleType e"

definition offsets_within :: "nat \<Rightarrow> sf_element \<Rightarrow> bool" where
  "offsets_within n e \<longleftrightarrow> (gotIPV4 e \<longrightarrow> offsetToIPV4 e \<le> n) \<and> (gotIPV6 e \<longrightarrow> offsetToIPV6 e \<le> n)"

abbreviation header_end :: "sf_element \<Rightarrow> nat" where
  "header_end e \<equiv> header e + unat (headerLen e)"

lemma vlan_loop_safe:
  "ptr \<le> ende \<Longrightarrow> ende \<le> length buf \<Longrightarrow>
   ensures (vlan_loop buf ende ptr t v) (\<lambda>(d, p, _). ptr \<le> p \<and> p \<le> ende)"
proof (induction buf ende ptr t v rule: vlan_loop.induct)
  case (1 buf ende ptr t v)
  show ?case
  proof (cases "vlan_type t \<and> ptr + 4 \<le> ende")
    case True
    have "ensures (bnd (peek (rd16 buf ptr)) (\<lambda>d. bnd (peek (rd16 buf (ptr + 2)))
        (\<lambda>t. vlan_loop buf ende (ptr + 4) t (ucast d AND 0x0fff)))) (\<lambda>(d, p, _). ptr \<le> p \<and> p \<le> ende)"
    proof (rule ensures_bnd [OF ensures_peek(2)], use True 1 in simp)
      fix d :: u16
      show "ensures (bnd (peek (rd16 buf (ptr + 2))) (\<lambda>t. vlan_loop buf ende (ptr + 4) t (ucast d AND 0x0fff)))
          (\<lambda>(d, p, _). ptr \<le> p \<and> p \<le> ende)"
      proof (rule ensures_bnd [OF ensures_peek(2)], use True 1 in simp)
        fix t' :: u16
        have "ensures (vlan_loop buf ende (ptr + 4) t' (ucast d AND 0x0fff)) (\<lambda>(d, p, _). ptr + 4 \<le> p \<and> p \<le> ende)"
          using 1 True by simp
        then show "ensures (vlan_loop buf ende (ptr + 4) t' (ucast d AND 0x0fff)) (\<lambda>(d, p, _). ptr \<le> p \<and> p \<le> ende)"
          by (rule ensures_mono) auto
      qed
    qed
    then show ?thesis using True by (subst vlan_loop.simps) (simp add: not_less)
  next
    case False
    then show ?thesis using 1 by (subst vlan_loop.simps) auto
  qed
qed

lemma is_ipx_safe: "ptr + 4 \<le> length buf \<Longrightarrow> ensures (is_ipx buf ptr t) (\<lambda>_. True)"
  unfolding is_ipx_def
  by (auto intro!: ensures_bnd [OF ensures_bytes_are] ensures_bnd [OF ensures_peek(2)])

lemma llc_safe:
  assumes "ptr + 8 \<le> length buf"
  shows "ensures (llc buf ptr t) (\<lambda>r. \<forall>p t'. r = Some (p, t') \<longrightarrow> ptr \<le> p \<and> p \<le> ptr + 8)"
  unfolding llc_def using assms
  by (auto intro!: ensures_bnd [OF ensures_bytes_are] ensures_bnd [OF ensures_peek(1)] ensures_bnd [OF ensures_peek(2)])

lemma link_ip_safe:
  assumes "ptr < length buf" "header e \<le> ptr" "ptr \<le> header e + n" "\<not> gotIPV4 e" "\<not> gotIPV6 e"
  shows "ensures (link_ip buf ende ptr t e) (\<lambda>e'. same_header e e' \<and> offsets_within n e')"
  unfolding link_ip_def using assms
  by (auto intro!: ensures_bnd [OF ensures_peek(1)] simp: same_header_def offsets_within_def le_diff_conv)

lemma decodeLinkLayer_safe:
  assumes "header_end e + 9 \<le> length buf"
  shows "ensures (decodeLinkLayer buf e) (\<lambda>e'. same_header e e' \<and> offsets_within (unat (headerLen e) + 8) e')"
proof (cases "unat (headerLen e) < NFT_ETHHDR_SIZ")
  case True
  then show ?thesis by (simp add: decodeLinkLayer_def Let_def same_header_def offsets_within_def)
next
  case False
  then have len: "14 \<le> unat (headerLen e)" by (simp add: NFT_ETHHDR_SIZ_def)
  show ?thesis
    unfolding decodeLinkLayer_def Let_def using len
    apply (simp add: NFT_ETHHDR_SIZ_def)
    apply (rule ensures_bnd [OF ensures_peek(3)], use assms in simp)
    apply (rule ensures_bnd [OF ensures_peek(3)], use assms in simp)
    apply (rule ensures_bnd [OF ensures_peek(2)], use assms in simp)
    apply (rule ensures_bnd [OF vlan_loop_safe], simp, use assms in simp)
    apply (clarsimp simp: same_header_def offsets_within_def)
    apply (rule ensures_bnd [OF is_ipx_safe], use assms in simp)
    apply (clarsimp simp: same_header_def offsets_within_def)
    apply (rule ensures_bnd [OF llc_safe], use assms in simp)
    apply (clarsimp simp: same_header_def offsets_within_def split: option.splits)
    apply (rule ensures_mono [OF link_ip_safe [where n = "unat (headerLen e) + 8"]])
    using assms by (auto simp: same_header_def offsets_within_def)
qed

lemma decode80211MAC_safe:
  assumes "header_end e + 6 \<le> length buf"
  shows "ensures (decode80211MAC buf e) (\<lambda>e'. same_header e e' \<and> offsets_within 0 e')"
proof (cases "headerLen e < WIFI_MIN_HDR_SIZ")
  case True
  then show ?thesis by (simp add: decode80211MAC_def Let_def same_header_def offsets_within_def)
next
  case False
  then have "24 \<le> unat (headerLen e)" by (simp add: WIFI_MIN_HDR_SIZ_def word_less_nat_alt)
  then show ?thesis
    unfolding decode80211MAC_def Let_def using False assms
    by (auto intro!: ensures_bnd [OF ensures_peek(2)] ensures_bnd [OF ensures_peek(3)]
      simp: same_header_def offsets_within_def)
qed

lemma decodeIPLayer4_safe:
  assumes "header_end e + 12 \<le> length buf"
  shows "ensures (decodeIPLayer4 buf ptr e)
    (\<lambda>e'. same_header e e' \<and> (\<forall>n. offsets_within n e \<longrightarrow> offsets_within n e'))"
  unfolding decodeIPLayer4_def Let_def using assms
  by (auto intro!: ensures_bnd [OF ensures_peek(3)] simp: same_header_def offsets_within_def)

lemma decodeIPV4_safe:
  assumes "offsets_within n e" "header_end e + n + 20 \<le> length buf" "header_end e + 12 \<le> length buf"
  shows "ensures (decodeIPV4 buf e) (\<lambda>e'. same_header e e' \<and> offsets_within n e')"
proof -
  have keep: "ensures (decodeIPLayer4 buf p e') (\<lambda>e''. same_header e e'' \<and> offsets_within n e'')"
    if "same_header e e'" "offsets_within n e'" for e' p
    by (rule ensures_mono [OF decodeIPLayer4_safe]) (use that assms in \<open>auto simp: same_header_def\<close>)
  have p: "header e + offsetToIPV4 e + 20 \<le> length buf" if "gotIPV4 e"
    using that assms(1,2) by (simp add: offsets_within_def)
  have same: "same_header e e" by (simp add: same_header_def)
  show ?thesis
  proof (cases "gotIPV4 e \<and> \<not> fewer (header_end e) (header e + offsetToIPV4 e) 20")
    case True
    then show ?thesis unfolding decodeIPV4_def Let_def
      by (simp, intro ensures_bnd [OF ensures_peek(3)])
        (use True p in simp, auto intro!: keep, use assms(1) in \<open>auto simp: same_header_def offsets_within_def\<close>)
  next
    case False
    then show ?thesis using same assms(1) by (auto simp: decodeIPV4_def Let_def)
  qed
qed

lemma v6_extensions_safe:
  "ptr + 2 \<le> length buf \<Longrightarrow> ende + 2 \<le> length buf \<Longrightarrow> ensures (v6_extensions buf ende ptr h) (\<lambda>_. True)"
proof (induction buf ende ptr h rule: v6_extensions.induct)
  case (1 buf ende ptr h)
  show ?case
  proof (cases "extension h")
    case True
    have "ensures (bnd (peek (rd_bytes buf ptr 2)) (\<lambda>b.
        if ptr + 8 * (unat (b ! 1) + 1) > ende then Value None
        else v6_extensions buf ende (ptr + 8 * (unat (b ! 1) + 1)) (b ! 0))) (\<lambda>_. True)"
      by (rule ensures_bnd [OF ensures_peek(3)]) (use 1 True in auto)
    then show ?thesis using True by (subst v6_extensions.simps) (simp only: if_True Let_def)
  qed (subst v6_extensions.simps, simp)
qed

lemma decodeIPV6_safe:
  assumes "offsets_within n e" "gotIPV6 e" "header_end e + n + 42 \<le> length buf"
  shows "ensures (decodeIPV6 buf e) (\<lambda>e'. same_header e e' \<and> offsets_within n e')"
proof -
  have keep: "ensures (decodeIPLayer4 buf p e') (\<lambda>e''. same_header e e'' \<and> offsets_within n e'')"
    if "same_header e e'" "offsets_within n e'" for e' p
    by (rule ensures_mono [OF decodeIPLayer4_safe]) (use that assms in \<open>auto simp: same_header_def\<close>)
  have p: "header e + offsetToIPV6 e + 42 \<le> length buf"
    using assms by (simp add: offsets_within_def)
  have same: "same_header e e" by (simp add: same_header_def)
  show ?thesis
  proof (cases "fewer (header_end e) (header e + offsetToIPV6 e) 40")
    case True
    then show ?thesis using same assms(1) by (simp add: decodeIPV6_def Let_def)
  next
    case False
    then show ?thesis unfolding decodeIPV6_def Let_def using assms(2) p
      apply simp
      apply (rule ensures_bnd [OF ensures_peek(1)], simp)
      apply (clarsimp simp: same assms(1))
      apply (rule ensures_bnd [OF ensures_peek(3)], simp)
      apply (rule ensures_bnd [OF v6_extensions_safe], simp, use assms(3) in simp)
      apply (auto intro!: keep split: option.split)
      using assms(1) by (auto simp: same_header_def offsets_within_def)
  qed
qed

lemma header_protocol_safe:
  assumes "offsets_within n e" "unat (headerLen e) + 8 \<le> n" "header_end e + n + 1 \<le> length buf"
  shows "ensures (header_protocol buf e) (\<lambda>e'. same_header e e' \<and> offsets_within n e')"
proof -
  have more: "offsets_within m e' \<Longrightarrow> m \<le> n \<Longrightarrow> offsets_within n e'" for m e'
    by (auto simp: offsets_within_def)
  have "ensures (decodeLinkLayer buf e) (\<lambda>e'. same_header e e' \<and> offsets_within n e')"
    by (rule ensures_mono [OF decodeLinkLayer_safe]) (use assms more in auto)
  moreover have "ensures (decode80211MAC buf e) (\<lambda>e'. same_header e e' \<and> offsets_within n e')"
    by (rule ensures_mono [OF decode80211MAC_safe]) (use assms more in auto)
  ultimately show ?thesis
    using assms(1) by (auto simp: header_protocol_def Let_def same_header_def offsets_within_def)
qed

lemma decode_header_safe:
  assumes "offsets_within n e" "unat (headerLen e) + 8 \<le> n" "header_end e + n + 42 \<le> length buf"
  shows "ensures (decode_header buf e) (\<lambda>e'. same_header e e' \<and> offsets_within n e')"
proof -
  have "ensures (if gotIPV4 e' then decodeIPV4 buf e' else if gotIPV6 e' then decodeIPV6 buf e' else Value e')
      (\<lambda>e''. same_header e e'' \<and> offsets_within n e'')" if e': "same_header e e' \<and> offsets_within n e'" for e'
  proof -
    have "header_end e' + n + 42 \<le> length buf" using assms(3) e' by (simp add: same_header_def)
    then have "ensures (decodeIPV4 buf e') (\<lambda>e''. same_header e' e'' \<and> offsets_within n e'')"
      "gotIPV6 e' \<Longrightarrow> ensures (decodeIPV6 buf e') (\<lambda>e''. same_header e' e'' \<and> offsets_within n e'')"
      using assms(2) e' by (auto intro: decodeIPV4_safe decodeIPV6_safe)
    then show ?thesis using e' by (auto simp: same_header_def elim: ensures_mono)
  qed
  then show ?thesis unfolding decode_header_def
    by (intro ensures_bnd [OF header_protocol_safe [of n]]) (use assms in auto)
qed

text \<open>
  What every reader keeps: it moves the cursor forward, inside the datagram, and writes fields of the
  current element but not its type. The offsets of an IP header that an earlier
  element of the same sample left behind can be as large as the datagram, so that the block
  has to be twice as long.
\<close>

definition advanced :: "sf_sample \<Rightarrow> sf_sample \<Rightarrow> bool" where
  "advanced s s' \<longleftrightarrow>
     s' = s\<lparr>datap := datap s', elem := elem s'\<rparr> \<and> sampleType (elem s') = sampleType (elem s)
     \<and> datap s \<le> datap s' \<and> datap s' \<le> endp s"

definition roomy :: "sf_sample \<Rightarrow> bool" where
  "roomy s \<longleftrightarrow>
     2 * endp s + 50 \<le> length (rawSample s) \<and> endp s < 2 ^ 32 - 3 \<and> datap s \<le> endp s \<and> offsets_within (endp s + 8) (elem s)"

definition reader :: "(sf_sample \<Rightarrow> sf_sample sf) \<Rightarrow> bool" where
  "reader f \<longleftrightarrow>
     (\<forall>s s'. datap s \<le> endp s \<longrightarrow> f s = Value s' \<longrightarrow> advanced s s')
     \<and> (\<forall>s. roomy s \<longrightarrow> ensures (f s) roomy)"

lemma readerD:
  assumes "reader f" "f s = Value s'" "datap s \<le> endp s"
  shows "advanced s s'" "datap s \<le> datap s'" "datap s' \<le> endp s'" "rawSampleLen s' = rawSampleLen s" "rawSample s' = rawSample s"
proof -
  show a: "advanced s s'" using assms by (auto simp: reader_def)
  then show "datap s \<le> datap s'" by (simp add: advanced_def)
  from a have e: "s' = s\<lparr>datap := datap s', elem := elem s'\<rparr>" and d: "datap s' \<le> endp s" by (simp_all add: advanced_def)
  show r: "rawSampleLen s' = rawSampleLen s" by (subst e) simp
  then show "datap s' \<le> endp s'" using d by simp
  show "rawSample s' = rawSample s" by (subst e) simp
qed

lemma advanced_refl: "datap s \<le> endp s \<Longrightarrow> advanced s s"
  by (simp add: advanced_def)

lemma advanced_trans:
  assumes "advanced s s1" "advanced s1 s2"
  shows "advanced s s2"
proof -
  have 1: "s1 = s\<lparr>datap := datap s1, elem := elem s1\<rparr>" and 2: "s2 = s1\<lparr>datap := datap s2, elem := elem s2\<rparr>"
    using assms by (simp_all add: advanced_def)
  have e: "endp s1 = endp s" by (subst 1) simp
  have "s2 = s\<lparr>datap := datap s1, elem := elem s1\<rparr>\<lparr>datap := datap s2, elem := elem s2\<rparr>"
    using 2 unfolding 1 [symmetric] .
  then show ?thesis using assms e by (simp add: advanced_def)
qed

lemma bnd_Value: "bnd r g = Value y \<longleftrightarrow> (\<exists>x. r = Value x \<and> g x = Value y)"
  by (cases r) simp_all

lemma reader_Value: "reader Value"
  by (auto simp: reader_def advanced_refl)

lemma reader_bnd:
  assumes "reader f" "\<And>s. reader (g s)"
  shows "reader (\<lambda>s. bnd (f s) (g s))"
  unfolding reader_def
proof (intro conjI allI impI)
  fix s s' assume s: "datap s \<le> endp s" and "bnd (f s) (g s) = Value s'"
  then obtain s1 where 1: "f s = Value s1" and 2: "g s s1 = Value s'" by (auto simp: bnd_Value)
  from readerD [OF assms(1) 1 s] readerD [OF assms(2) 2]
  show "advanced s s'" by (blast intro: advanced_trans)
next
  fix s assume "roomy s"
  then have "ensures (f s) roomy" using assms(1) by (simp add: reader_def)
  then show "ensures (bnd (f s) (g s)) roomy"
    by (rule ensures_bnd) (use assms(2) in \<open>simp add: reader_def\<close>)
qed

lemma reader_steps: "\<forall>f \<in> set fs. reader f \<Longrightarrow> reader (steps fs)"
proof (induction fs)
  case Nil
  have "steps [] = Value" by (rule ext) simp
  then show ?case using reader_Value by simp
next
  case (Cons f fs)
  have "steps (f # fs) = (\<lambda>s. bnd (f s) (steps fs))" by (rule ext) simp
  then show ?case using Cons reader_bnd [of f "\<lambda>_. steps fs"] by simp
qed

lemma reader_if: "reader f \<Longrightarrow> reader g \<Longrightarrow> reader (\<lambda>s. if P s then f s else g s)"
  by (simp add: reader_def)

lemma reader_Thrown: "reader (\<lambda>s. Thrown e)"
  by (simp add: reader_def)

text \<open>Reading a word and going on.\<close>

lemma getData32_Value:
  assumes "getData32 s = Value (x, s')"
  shows "s' = s\<lparr>datap := datap s + 4\<rparr>" "datap s + 4 \<le> endp s" "rd32 (rawSample s) (datap s) = Some x"
  using assms
  by (auto simp: getData32_def getData32_nobswap_def bnd_Value peek_def buf_simps Let_def split: if_splits option.splits)

lemma getData32_ensures:
  "roomy s \<Longrightarrow> ensures (getData32 s) (\<lambda>(x, s'). roomy s')"
  unfolding getData32_def getData32_nobswap_def
  by (rule ensures_bnd [where Q = "\<lambda>(x, s'). roomy s'"], rule ensures_bnd [OF ensures_peek(3)])
    (auto simp: roomy_def Let_def)

lemma reader_getData32:
  assumes "\<And>x. reader (g x)"
  shows "reader (\<lambda>s. bnd (getData32 s) (\<lambda>(x, s). g x s))"
  unfolding reader_def
proof (intro conjI allI impI)
  fix s s' assume s: "datap s \<le> endp s" and "bnd (getData32 s) (\<lambda>(x, s). g x s) = Value s'"
  then obtain x s1 where 1: "getData32 s = Value (x, s1)" and 2: "g x s1 = Value s'" by (auto simp: bnd_Value)
  have "advanced s s1" using getData32_Value [OF 1] by (simp add: advanced_def)
  with readerD(1) [OF assms 2] getData32_Value [OF 1] show "advanced s s'" by (auto intro: advanced_trans)
next
  fix s assume "roomy s"
  from getData32_ensures [OF this] show "ensures (bnd (getData32 s) (\<lambda>(x, s). g x s)) roomy"
    by (rule ensures_bnd) (use assms in \<open>auto simp: reader_def\<close>)
qed

text \<open>Writing fields other than the type and the offsets.\<close>

definition harmless :: "(sf_element \<Rightarrow> sf_element) \<Rightarrow> bool" where
  "harmless u \<longleftrightarrow>
     (\<forall>e. sampleType (u e) = sampleType e \<and> gotIPV4 (u e) = gotIPV4 e \<and> gotIPV6 (u e) = gotIPV6 e
        \<and> offsetToIPV4 (u e) = offsetToIPV4 e \<and> offsetToIPV6 (u e) = offsetToIPV6 e)"

lemma reader_update: "harmless u \<Longrightarrow> reader (\<lambda>s. Value (s\<lparr>elem := u (elem s)\<rparr>))"
  by (auto simp: reader_def advanced_def harmless_def roomy_def offsets_within_def)

lemma reader_get32: "(\<And>x. harmless (upd (\<lambda>_. x))) \<Longrightarrow> reader (get32 upd)"
  unfolding get32_def by (intro reader_getData32 reader_update)

lemma reader_cnt32: "reader (cnt32 upd)"
  unfolding cnt32_def
  by (intro reader_getData32 reader_update [of "\<lambda>e. e\<lparr>ifCounters := upd (\<lambda>_. x) (ifCounters e)\<rparr>" for x])
    (simp add: harmless_def)

lemma bnd_assoc: "bnd (bnd r g) h = bnd r (\<lambda>x. bnd (g x) h)"
  by (cases r) simp_all

lemma reader_cnt64: "reader (cnt64 upd)"
proof -
  have "reader (\<lambda>s. bnd (getData32 s) (\<lambda>(hi, s). bnd (getData32 s) (\<lambda>(lo, s).
      Value (s\<lparr>elem := (elem s)\<lparr>ifCounters := upd (\<lambda>_. push_bit 32 (ucast hi) + ucast lo) (ifCounters (elem s))\<rparr>\<rparr>))))"
    by (intro reader_getData32 reader_update [of "\<lambda>e. e\<lparr>ifCounters := upd (\<lambda>_. x) (ifCounters e)\<rparr>" for x])
      (simp add: harmless_def)
  then show ?thesis by (simp add: cnt64_def [abs_def] getData64_def bnd_assoc case_prod_unfold)
qed

lemma reader_getSampler: "reader getSampler"
  unfolding getSampler_def
  by (intro reader_getData32
      reader_update [of "\<lambda>e. e\<lparr>ds_class := drop_bit 24 x, ds_index := x AND 0x00ffffff\<rparr>" for x])
    (simp add: harmless_def)

lemma unat_adjusted: "unat (adjusted len) = 4 * (unat (len + 3) div 4)"
proof -
  have "unat (len + 3) < 4294967296" using unsigned_less [of "len + 3"] by simp
  then show ?thesis
    by (simp add: adjusted_def push_bit_eq_mult unat_word_ariths(2) unat_drop mod_less less_mult_imp_div_less)
qed

lemma skip_quads: "4 * unat ((len + 3) div 4) = unat (adjusted len)"
  for len :: u32
  by (simp add: unat_adjusted unat_div)

lemma skipBytes_Value:
  assumes "skipBytes n s = Value s'"
  shows "s' = s\<lparr>datap := datap s + unat (adjusted n)\<rparr>" "datap s + unat (adjusted n) \<le> endp s" "n \<le> rawSampleLen s"
  using assms by (auto simp: skipBytes_def Let_def skip_quads split: if_splits)

lemma reader_skipBytes: "reader (skipBytes n)"
  unfolding reader_def
proof (intro conjI allI impI)
  show "advanced s s'" if "skipBytes n s = Value s'" for s s'
    using skipBytes_Value [OF that] by (simp add: advanced_def)
  show "ensures (skipBytes n s) roomy" if "roomy s" for s
    using that by (auto simp: skipBytes_def Let_def roomy_def)
qed

lemma reader_lengthCheck: "reader (lengthCheck start n)"
  by (auto simp: reader_def lengthCheck_def advanced_refl)

lemma reader_counters_generic: "reader readCounters_generic"
  unfolding readCounters_generic_def by (rule reader_steps) (simp add: reader_cnt32 reader_cnt64)

lemma harmless_updates [simp]:
  "harmless (elementType_update f)" "harmless (ds_class_update f)" "harmless (ds_index_update f)"
  "harmless (samplesGenerated_update f)" "harmless (meanSkipCount_update f)" "harmless (samplePool_update f)"
  "harmless (dropEvents_update f)" "harmless (sampledPacketSize_update f)" "harmless (packet_data_tag_update f)"
  "harmless (headerProtocol_update f)" "harmless (headerLen_update f)" "harmless (stripped_update f)"
  "harmless (inputPortFormat_update f)" "harmless (outputPortFormat_update f)" "harmless (inputPort_update f)"
  "harmless (outputPort_update f)" "harmless (eth_type_update f)" "harmless (eth_len_update f)"
  "harmless (num_extended_update f)" "harmless (statsSamplingInterval_update f)" "harmless (counterBlockVersion_update f)"
  by (simp_all add: harmless_def)

lemma reader_countersSample_v2v4: "reader readCountersSample_v2v4"
proof -
  have "reader counter_block"
    unfolding counter_block_def Let_def
    by (intro reader_if reader_counters_generic reader_Value reader_Thrown)
  then show ?thesis
    unfolding readCountersSample_v2v4_def
    by (intro reader_steps) (simp add: reader_get32 reader_getSampler)
qed

lemma reader_getSource: "reader (getSource b)"
  unfolding getSource_def by (auto intro!: reader_steps reader_getSampler reader_get32)

lemma reader_counters_element: "reader (counters_element tag len)"
  unfolding counters_element_def by (intro reader_if reader_counters_generic reader_skipBytes)

text \<open>The loop over elements and the samples of version 5, for any decoder of an element.\<close>

lemma reader_elements_loop:
  assumes "\<And>tag len. reader (dec tag len)"
  shows "reader (elements_loop dec n)"
proof (induction n)
  case 0
  have "elements_loop dec 0 = Value" by (rule ext) simp
  then show ?case using reader_Value by simp
next
  case (Suc n)
  have "reader (\<lambda>s. bnd (dec (elementType (elem s)) len s) (\<lambda>s'. bnd (lengthCheck (datap s) len s') (elements_loop dec n)))"
    for len
  proof -
    have "reader (\<lambda>s. bnd (dec t len s) (\<lambda>s'. bnd (lengthCheck d len s') (elements_loop dec n)))" for t d
      using assms Suc reader_lengthCheck by (intro reader_bnd)
    then show ?thesis unfolding reader_def by blast
  qed
  then have "reader (\<lambda>s. bnd (getData32 s) (\<lambda>(len, s). bnd (dec (elementType (elem s)) len s)
      (\<lambda>s'. bnd (lengthCheck (datap s) len s') (elements_loop dec n))))"
    by (rule reader_getData32)
  then have "reader (\<lambda>s. bnd (get32 elementType_update s) (\<lambda>s. bnd (getData32 s) (\<lambda>(len, s). bnd (dec (elementType (elem s)) len s)
      (\<lambda>s'. bnd (lengthCheck (datap s) len s') (elements_loop dec n)))))"
    by (intro reader_bnd reader_get32) simp_all
  then show ?case by (simp add: elements_loop.simps(2) [abs_def])
qed

lemma reader_cases:
  assumes "\<And>s. \<exists>g. f s = g s \<and> reader g"
  shows "reader f"
  unfolding reader_def
proof (intro conjI allI impI)
  show "advanced s s'" if "datap s \<le> endp s" "f s = Value s'" for s s'
    using assms [of s] that by (auto simp: reader_def)
  show "ensures (f s) roomy" if "roomy s" for s
    using assms [of s] that by (auto simp: reader_def)
qed

lemma reader_after:
  assumes "harmless u" "reader f"
  shows "reader (\<lambda>s. f (s\<lparr>elem := u (elem s)\<rparr>))"
  using reader_bnd [OF reader_update [OF assms(1)], of "\<lambda>_. f"] assms(2) by simp

text \<open>A structure of \<open>n\<close> bytes that is copied after the cursor has been moved over it.\<close>

lemma reader_struct:
  assumes "harmless h" "\<And>k. harmless (u k)" "\<And>e. header (h e) = header e" "m \<le> unat (adjusted n)"
  shows "reader (\<lambda>s. bnd (skipBytes n (s\<lparr>elem := h ((elem s)\<lparr>header := datap s\<rparr>)\<rparr>)) (\<lambda>s.
    bnd (peek (rd_bytes (rawSample s) (header (elem s)) m)) (\<lambda>k. Value (s\<lparr>elem := u k (elem s)\<rparr>))))" (is "reader ?f")
  unfolding reader_def
proof (intro conjI allI impI)
  fix s s' assume "?f s = Value s'"
  then obtain s1 k where 1: "skipBytes n (s\<lparr>elem := h ((elem s)\<lparr>header := datap s\<rparr>)\<rparr>) = Value s1"
    and 2: "s' = s1\<lparr>elem := u k (elem s1)\<rparr>"
    by (auto simp: bnd_Value)
  then show "advanced s s'" using skipBytes_Value [OF 1] assms(1,2) by (simp add: advanced_def harmless_def)
next
  fix s assume s: "roomy s"
  have "ensures (skipBytes n (s\<lparr>elem := h ((elem s)\<lparr>header := datap s\<rparr>)\<rparr>))
      (\<lambda>s1. roomy s1 \<and> header (elem s1) + m \<le> length (rawSample s1))"
    using s assms by (auto simp: skipBytes_def skip_quads Let_def roomy_def offsets_within_def harmless_def)
  then show "ensures (?f s) roomy"
    by (rule ensures_bnd, intro ensures_bnd [OF ensures_peek(3)])
      (use assms(2) in \<open>auto simp: roomy_def offsets_within_def harmless_def\<close>)
qed

lemma reader_IPv4: "reader readFlowSample_IPv4"
proof -
  define u where "u k e =
      (let e = e\<lparr>sampledPacketSize := key32 k 0, ipsrc := v4_address (take 4 (drop 8 k)) (ipsrc e),
         ipdst := v4_address (take 4 (drop 12 k)) (ipdst e), dcd_ipProtocol := key32 k 4, dcd_ipTos := key32 k 28,
         dcd_sport := key32 k 16, dcd_dport := key32 k 20\<rparr> in
       if dcd_ipProtocol e = 6 then e\<lparr>dcd_tcpFlags := key32 k 24\<rparr> else e)" for k and e :: sf_element
  have "reader (\<lambda>s. bnd (skipBytes 32 (s\<lparr>elem := headerLen_update (\<lambda>_. 32) ((elem s)\<lparr>header := datap s\<rparr>)\<rparr>)) (\<lambda>s.
      bnd (peek (rd_bytes (rawSample s) (header (elem s)) 32)) (\<lambda>k. Value (s\<lparr>elem := u k (elem s)\<rparr>))))"
    by (rule reader_struct) (simp_all add: unat_adjusted harmless_def u_def Let_def)
  moreover have "e\<lparr>header := d, headerLen := x\<rparr> = e\<lparr>headerLen := x, header := d\<rparr>" for d x and e :: sf_element by simp
  ultimately show ?thesis by (simp add: readFlowSample_IPv4_def [abs_def] Let_def u_def)
qed

lemma reader_IPv6: "reader readFlowSample_IPv6"
proof -
  define u where "u k e =
      (let e = e\<lparr>sampledPacketSize := key32 k 0, ipsrc := v6_address (take 16 (drop 8 k)),
         ipdst := v6_address (take 16 (drop 24 k)), dcd_ipProtocol := key32 k 4,
         dcd_sport := key32 k 40, dcd_dport := key32 k 44\<rparr> in
       if dcd_ipProtocol e = 6 then e\<lparr>dcd_tcpFlags := key32 k 48\<rparr> else e)" for k and e :: sf_element
  have "reader (\<lambda>s. bnd (skipBytes 56 (s\<lparr>elem := headerLen_update (\<lambda>_. 56) ((elem s)\<lparr>header := datap s\<rparr>)\<rparr>)) (\<lambda>s.
      bnd (peek (rd_bytes (rawSample s) (header (elem s)) 56)) (\<lambda>k. Value (s\<lparr>elem := u k (elem s)\<rparr>))))"
    by (rule reader_struct) (simp_all add: unat_adjusted harmless_def u_def Let_def)
  moreover have "e\<lparr>headerLen := x, header := d\<rparr> = e\<lparr>header := d, headerLen := x\<rparr>" for d x and e :: sf_element by simp
  ultimately show ?thesis by (simp add: readFlowSample_IPv6_def [abs_def] Let_def u_def)
qed

lemma reader_copy_mac:
  assumes "\<And>f. harmless (upd f)"
  shows "reader (copy_mac upd)"
  unfolding reader_def
proof (intro conjI allI impI)
  fix s s' assume s: "datap s \<le> endp s" and "copy_mac upd s = Value s'"
  then obtain b where "skipBytes 6 (s\<lparr>elem := upd (copy_front b) (elem s)\<rparr>) = Value s'"
    by (auto simp: copy_mac_def bnd_Value)
  then show "advanced s s'"
    using readerD(1) [OF reader_after [OF assms reader_skipBytes], of 6 "copy_front b" s s'] s by simp
next
  fix s assume s: "roomy s"
  show "ensures (copy_mac upd s) roomy" unfolding copy_mac_def
    by (rule ensures_bnd [OF ensures_peek(3)])
      (use s reader_after [OF assms reader_skipBytes] in \<open>auto simp: reader_def roomy_def\<close>)
qed

lemma reader_ethernet: "reader readFlowSample_ethernet"
proof -
  have "reader (copy_mac eth_src_update)" "reader (copy_mac eth_dst_update)"
    by (intro reader_copy_mac; simp add: harmless_def)+
  then show ?thesis
    unfolding readFlowSample_ethernet_def by (intro reader_steps) (simp add: reader_get32)
qed

lemma peek_Value: "peek x = Value y \<longleftrightarrow> x = Some y"
  by (simp add: peek_def split: option.split)

text \<open>The decoders of a header do not write the type of the sample, whatever they read.\<close>

definition typed :: "u32 \<Rightarrow> sf_element sf \<Rightarrow> bool" where
  "typed t r \<longleftrightarrow> (\<forall>e. r = Value e \<longrightarrow> sampleType e = t)"

lemma typed_rules:
  "(\<And>x. typed t (g x)) \<Longrightarrow> typed t (bnd r g)"
  "typed t r1 \<Longrightarrow> typed t r2 \<Longrightarrow> typed t (if b then r1 else r2)"
  "typed t r1 \<Longrightarrow> (\<And>x. typed t (f x)) \<Longrightarrow> typed t (case p of None \<Rightarrow> r1 | Some x \<Rightarrow> f x)"
  "(\<And>x y. typed t (h x y)) \<Longrightarrow> typed t (case q of (x, y) \<Rightarrow> h x y)"
  "sampleType e = t \<Longrightarrow> typed t (Value e)"
  "typed t (Thrown err)"
  by (auto simp: typed_def bnd_Value split: option.split prod.split)

lemma typed_decodeIPLayer4: "sampleType e = t \<Longrightarrow> typed t (decodeIPLayer4 buf p e)"
  unfolding decodeIPLayer4_def Let_def by (intro typed_rules) simp_all

lemma typed_decodeIPV4: "sampleType e = t \<Longrightarrow> typed t (decodeIPV4 buf e)"
  unfolding decodeIPV4_def Let_def by (intro typed_rules typed_decodeIPLayer4) simp_all

lemma typed_decodeIPV6: "sampleType e = t \<Longrightarrow> typed t (decodeIPV6 buf e)"
  unfolding decodeIPV6_def Let_def by (intro typed_rules typed_decodeIPLayer4) simp_all

lemma typed_link_ip: "sampleType e = t \<Longrightarrow> typed t (link_ip buf ende p ty e)"
  unfolding link_ip_def by (intro typed_rules) simp_all

lemma typed_decodeLinkLayer: "sampleType e = t \<Longrightarrow> typed t (decodeLinkLayer buf e)"
  unfolding decodeLinkLayer_def Let_def by (intro typed_rules typed_link_ip) simp_all

lemma typed_decode80211MAC: "sampleType e = t \<Longrightarrow> typed t (decode80211MAC buf e)"
  unfolding decode80211MAC_def Let_def by (intro typed_rules) simp_all

lemma decode_header_type:
  assumes "decode_header buf e = Value e'"
  shows "sampleType e' = sampleType e"
proof -
  from assms obtain e1 where 1: "header_protocol buf e = Value e1"
    and 2: "(if gotIPV4 e1 then decodeIPV4 buf e1 else if gotIPV6 e1 then decodeIPV6 buf e1 else Value e1) = Value e'"
    by (auto simp: decode_header_def bnd_Value)
  have "typed (sampleType e) (header_protocol buf e)" unfolding header_protocol_def Let_def
    by (intro typed_rules typed_decodeLinkLayer typed_decode80211MAC) simp_all
  with 1 have e1: "sampleType e1 = sampleType e" by (simp add: typed_def)
  have "typed (sampleType e1) (if gotIPV4 e1 then decodeIPV4 buf e1 else if gotIPV6 e1 then decodeIPV6 buf e1 else Value e1)"
    by (intro typed_rules typed_decodeIPV4 typed_decodeIPV6) simp_all
  with 2 e1 show ?thesis by (simp add: typed_def)
qed

lemma reader_header: "reader readFlowSample_header"
proof -
  have tail: "reader (\<lambda>s. bnd (skipBytes (headerLen (elem s)) (s\<lparr>elem := (elem s)\<lparr>header := datap s\<rparr>\<rparr>)) (\<lambda>s.
      bnd (decode_header (rawSample s) (elem s)) (\<lambda>e. Value (s\<lparr>elem := e\<rparr>))))" (is "reader ?f")
    unfolding reader_def
  proof (intro conjI allI impI)
    fix s s' assume "?f s = Value s'"
    then obtain s1 e where 1: "skipBytes (headerLen (elem s)) (s\<lparr>elem := (elem s)\<lparr>header := datap s\<rparr>\<rparr>) = Value s1"
      and 2: "decode_header (rawSample s1) (elem s1) = Value e" "s' = s1\<lparr>elem := e\<rparr>"
      by (auto simp: bnd_Value)
    then show "advanced s s'" using skipBytes_Value [OF 1] decode_header_type [OF 2(1)] by (simp add: advanced_def)
  next
    fix s assume s: "roomy s"
    let ?n = "headerLen (elem s)"
    have adj: "unat ?n \<le> unat (adjusted ?n)" if "?n \<le> rawSampleLen s"
    proof -
      have "unat ?n + 3 < 2 ^ 32" using that s by (simp add: roomy_def word_le_nat_alt)
      then have "unat (?n + 3) = unat ?n + 3" by (simp add: unat_word_ariths(1))
      then show ?thesis by (simp add: unat_adjusted)
    qed
    have "ensures (skipBytes ?n (s\<lparr>elem := (elem s)\<lparr>header := datap s\<rparr>\<rparr>))
      (\<lambda>s1. roomy s1 \<and> header_end (elem s1) \<le> endp s1)"
      using s adj by (auto simp: skipBytes_def skip_quads Let_def roomy_def offsets_within_def not_less)
    then show "ensures (?f s) roomy"
    proof (rule ensures_bnd)
      fix s1 assume s1: "roomy s1 \<and> header_end (elem s1) \<le> endp s1"
      then have "ensures (decode_header (rawSample s1) (elem s1))
          (\<lambda>e. same_header (elem s1) e \<and> offsets_within (endp s1 + 8) e)"
        by (intro decode_header_safe) (auto simp: roomy_def)
      then show "ensures (bnd (decode_header (rawSample s1) (elem s1)) (\<lambda>e. Value (s1\<lparr>elem := e\<rparr>))) roomy"
        by (rule ensures_bnd) (use s1 in \<open>simp add: roomy_def\<close>)
    qed
  qed
  have "reader (steps [get32 headerProtocol_update, get32 sampledPacketSize_update,
      (if b then get32 stripped_update else Value), get32 headerLen_update])" for b
    by (rule reader_steps) (simp add: reader_get32 reader_Value)
  then have r: "reader (\<lambda>s. bnd (steps [get32 headerProtocol_update, get32 sampledPacketSize_update,
      (if b then get32 stripped_update else Value), get32 headerLen_update] s) ?f)" for b
    using tail by (rule reader_bnd)
  show ?thesis
  proof (rule reader_cases)
    fix s
    have "readFlowSample_header s = bnd (steps [get32 headerProtocol_update, get32 sampledPacketSize_update,
        (if datagramVersion s > 4 then get32 stripped_update else Value), get32 headerLen_update] s) ?f"
      unfolding readFlowSample_header_def Let_def by (simp del: steps.simps)
    then show "\<exists>g. readFlowSample_header s = g s \<and> reader g" using r [of "datagramVersion s > 4"]
      by (intro exI [of _ "\<lambda>s'. bnd (steps [get32 headerProtocol_update, get32 sampledPacketSize_update,
        (if datagramVersion s > 4 then get32 stripped_update else Value), get32 headerLen_update] s') ?f"] conjI)
  qed
qed

lemma reader_flowSample_v2v4: "reader readFlowSample_v2v4"
proof -
  have pd: "reader packet_data"
    unfolding packet_data_def Let_def
    by (intro reader_if reader_header reader_Thrown reader_after [OF _ reader_IPv4, of "gotIPV4Struct_update (\<lambda>_. True)"]
        reader_after [OF _ reader_IPv6, of "gotIPV6Struct_update (\<lambda>_. True)"]) (simp_all add: harmless_def)
  have "reader (\<lambda>s. get32 num_extended_update (s\<lparr>elem := (elem s)\<lparr>extended_data_tag := 0\<rparr>\<rparr>))"
    by (intro reader_after [OF _ reader_get32, of "extended_data_tag_update (\<lambda>_. 0)"]) (simp_all add: harmless_def)
  then have "reader (\<lambda>s. bnd (get32 num_extended_update (s\<lparr>elem := (elem s)\<lparr>extended_data_tag := 0\<rparr>\<rparr>)) (\<lambda>s.
      if num_extended (elem s) > 0 then Thrown InvalidArgument else Value s))"
    by (intro reader_bnd reader_if reader_Thrown reader_Value)
  moreover have "reader (steps [get32 samplesGenerated_update, getSampler, get32 meanSkipCount_update,
      get32 samplePool_update, get32 dropEvents_update, get32 inputPort_update, get32 outputPort_update,
      get32 packet_data_tag_update, packet_data])"
    by (rule reader_steps) (simp add: reader_get32 reader_getSampler pd)
  ultimately show ?thesis unfolding readFlowSample_v2v4_def by (rule reader_bnd [rotated])
qed

lemma reader_getPorts: "reader (getPorts b)"
proof -
  have "reader (\<lambda>s. bnd (getData32 s) (\<lambda>(inp, s). bnd (getData32 s) (\<lambda>(outp, s).
      Value (s\<lparr>elem := (elem s)\<lparr>inputPortFormat := drop_bit 30 inp, outputPortFormat := drop_bit 30 outp,
        inputPort := inp AND 0x3fffffff, outputPort := outp AND 0x3fffffff\<rparr>\<rparr>))))"
    by (intro reader_getData32 reader_update
        [of "\<lambda>e. e\<lparr>inputPortFormat := drop_bit 30 inp, outputPortFormat := drop_bit 30 outp,
           inputPort := inp AND 0x3fffffff, outputPort := outp AND 0x3fffffff\<rparr>" for inp outp])
      (simp add: harmless_def)
  moreover have "reader (steps [get32 inputPortFormat_update, get32 inputPort_update, get32 outputPortFormat_update,
      get32 outputPort_update])"
    by (rule reader_steps) (simp add: reader_get32)
  ultimately show ?thesis unfolding getPorts_def by (cases b) (simp_all del: steps.simps)
qed

lemma reader_flow_element: "reader (flow_element tag len)"
  unfolding flow_element_def by (intro reader_if reader_header reader_ethernet reader_IPv4 reader_IPv6 reader_skipBytes)

text \<open>The common part of the samples of version 5.\<close>

definition sample5 :: "(sf_sample \<Rightarrow> sf_sample sf) \<Rightarrow> (u32 \<Rightarrow> u32 \<Rightarrow> sf_sample \<Rightarrow> sf_sample sf) \<Rightarrow> sf_sample \<Rightarrow> sf_sample sf" where
  "sample5 pre dec s =
     bnd (getData32 s) (\<lambda>(sampleLength, s).
     bnd (pre s) (\<lambda>s1.
     bnd (getData32 s1) (\<lambda>(num_elements, s2).
     bnd (elements_loop dec (unat num_elements) s2) (lengthCheck (datap s) sampleLength))))"

lemma sample5_eq:
  "readCountersSample expanded = sample5 (steps [get32 samplesGenerated_update, getSource expanded]) counters_element"
  "readFlowSample expanded =
     sample5 (steps [get32 samplesGenerated_update, getSource expanded, get32 meanSkipCount_update, get32 samplePool_update,
       get32 dropEvents_update, getPorts expanded]) flow_element"
  by (rule ext, simp only: readCountersSample_def readFlowSample_def sample5_def)+

lemma reader_sample5:
  assumes "reader pre" "\<And>tag len. reader (dec tag len)"
  shows "reader (sample5 pre dec)"
proof -
  have "reader (\<lambda>s. bnd (pre s) (\<lambda>s1. bnd (getData32 s1) (\<lambda>(n, s2). bnd (elements_loop dec (unat n) s2) (lengthCheck (datap s) len))))"
    for len
    by (intro reader_bnd assms reader_getData32 reader_elements_loop reader_lengthCheck)
  then show ?thesis unfolding sample5_def by (rule reader_getData32)
qed

lemma reader_read_sample: "reader read_sample"
proof -
  have "reader (readCountersSample b)" "reader (readFlowSample b)" for b
    unfolding sample5_eq
    by (intro reader_sample5 reader_steps reader_counters_element reader_flow_element;
      simp add: reader_get32 reader_getSource reader_getPorts)+
  then show ?thesis
    unfolding read_sample_def Let_def
    by (intro reader_if reader_getData32 reader_skipBytes reader_flowSample_v2v4 reader_countersSample_v2v4 reader_Thrown)
qed

lemma samples_loop_safe: "roomy s \<Longrightarrow> ensures (samples_loop n s) (\<lambda>_. True)"
proof (induction n arbitrary: s)
  case (Suc n)
  have "roomy (s\<lparr>elem := new_element\<rparr>)" using Suc.prems by (simp add: roomy_def offsets_within_def new_element_def)
  then have "ensures (get32 sampleType_update (s\<lparr>elem := new_element\<rparr>)) roomy"
    unfolding get32_def by (intro ensures_bnd [OF getData32_ensures]) (auto simp: roomy_def offsets_within_def)
  then have "ensures (bnd (get32 sampleType_update (s\<lparr>elem := new_element\<rparr>)) (\<lambda>s. bnd (read_sample s) (\<lambda>s.
      samples_loop n (s\<lparr>elements := elements s @ [elem s]\<rparr>)))) (\<lambda>_. True)"
  proof (rule ensures_bnd)
    fix s1 assume "roomy s1"
    then have "ensures (read_sample s1) roomy" using reader_read_sample by (simp add: reader_def)
    then show "ensures (bnd (read_sample s1) (\<lambda>s. samples_loop n (s\<lparr>elements := elements s @ [elem s]\<rparr>))) (\<lambda>_. True)"
      by (rule ensures_bnd) (intro Suc.IH, simp add: roomy_def)
  qed
  then show ?case by simp
qed simp

lemma ensures_if: "ensures r Q \<Longrightarrow> ensures r' Q \<Longrightarrow> ensures (if b then r else r') Q"
  by simp

lemma getAddress_safe:
  assumes "roomy s"
  shows "ensures (getAddress a s) (\<lambda>(a, s'). roomy s')"
  unfolding getAddress_def
proof (rule ensures_bnd [OF getData32_ensures [OF assms]], clarify)
  fix t s1 assume s1: "roomy s1"
  have "ensures (getData32_nobswap s1) (\<lambda>(x, s'). roomy s')"
    unfolding getData32_nobswap_def
    by (rule ensures_bnd [OF ensures_peek(3)]) (use s1 in \<open>auto simp: roomy_def Let_def\<close>)
  then have 4: "ensures (bnd (getData32_nobswap s1) (\<lambda>(b, s). Value (\<lparr>addr_type = t, addr_bytes = copy_front b (addr_bytes a)\<rparr>, s)))
      (\<lambda>(a, s'). roomy s')" by (rule ensures_bnd) auto
  have "ensures (skipBytes 16 s1) roomy" using reader_skipBytes s1 by (simp add: reader_def)
  then have 6: "ensures (bnd (skipBytes 16 s1) (\<lambda>s'. bnd (peek (rd_bytes (rawSample s1) (datap s1) 16)) (\<lambda>b.
      Value (\<lparr>addr_type = t, addr_bytes = b\<rparr>, s')))) (\<lambda>(a, s'). roomy s')"
    by (rule ensures_bnd, intro ensures_bnd [OF ensures_peek(3)]) (use s1 in \<open>auto simp: roomy_def\<close>)
  show "ensures (if t = SFLADDRESSTYPE_IP_V4 then
         bnd (getData32_nobswap s1) (\<lambda>(b, s). Value (\<lparr>addr_type = t, addr_bytes = copy_front b (addr_bytes a)\<rparr>, s))
       else
         bnd (skipBytes 16 s1) (\<lambda>s'. bnd (peek (rd_bytes (rawSample s1) (datap s1) 16)) (\<lambda>b.
           Value (\<lparr>addr_type = t, addr_bytes = b\<rparr>, s')))) (\<lambda>(a, s'). roomy s')"
    using 4 6 by (rule ensures_if)
qed

lemma datagram_rest_safe:
  assumes "roomy s"
  shows "ensures (bnd (getAddress a s) (\<lambda>(a, s).
     bnd (if v then getData32 s else Value (agentSubId s, s)) (\<lambda>(sub, s).
     bnd (getData32 s) (\<lambda>(seqno, s).
     bnd (getData32 s) (\<lambda>(uptime, s).
     bnd (getData32 s) (\<lambda>(samplesInPacket, s).
       samples_loop (unat samplesInPacket)
         (s\<lparr>agent_addr := a, agentSubId := sub, sequenceNo := seqno, sysUpTime := uptime\<rparr>))))))) (\<lambda>_. True)"
proof (rule ensures_bnd [OF getAddress_safe [OF assms]], clarify)
  fix a s1 assume s1: "roomy s1"
  have "ensures (if v then getData32 s1 else Value (agentSubId s1, s1)) (\<lambda>(x, s). roomy s)"
    using getData32_ensures [OF s1] s1 by simp
  then show "ensures (bnd (if v then getData32 s1 else Value (agentSubId s1, s1)) (\<lambda>(sub, s).
     bnd (getData32 s) (\<lambda>(seqno, s).
     bnd (getData32 s) (\<lambda>(uptime, s).
     bnd (getData32 s) (\<lambda>(samplesInPacket, s).
       samples_loop (unat samplesInPacket)
         (s\<lparr>agent_addr := a, agentSubId := sub, sequenceNo := seqno, sysUpTime := uptime\<rparr>)))))) (\<lambda>_. True)"
    apply (rule ensures_bnd)
    apply (clarify, rule ensures_bnd [OF getData32_ensures], assumption)+
    apply (clarify, rule samples_loop_safe, simp add: roomy_def)
    done
qed

lemma ensures_guard: "ensures r Q \<Longrightarrow> ensures (if b then Thrown e else r) Q"
  by simp

lemma read_sflow_datagram_safe:
  assumes "roomy (s\<lparr>datap := 0\<rparr>)"
  shows "ensures (read_sflow_datagram s) (\<lambda>_. True)"
  unfolding read_sflow_datagram_def
proof (rule ensures_bnd [OF getData32_ensures [OF assms]], clarify)
  fix version s1 assume "roomy s1"
  then have "roomy (s1\<lparr>datagramVersion := version\<rparr>)" by (simp add: roomy_def)
  from datagram_rest_safe [OF this]
  show "ensures (if version \<noteq> 2 \<and> version \<noteq> 4 \<and> version \<noteq> 5 then Thrown InvalidArgument
       else
         bnd (getAddress (agent_addr s1) (s1\<lparr>datagramVersion := version\<rparr>)) (\<lambda>(a, s).
         bnd (if version \<ge> 5 then getData32 s else Value (agentSubId s, s)) (\<lambda>(sub, s).
         bnd (getData32 s) (\<lambda>(seqno, s).
         bnd (getData32 s) (\<lambda>(uptime, s).
         bnd (getData32 s) (\<lambda>(samplesInPacket, s).
           samples_loop (unat samplesInPacket)
             (s\<lparr>agent_addr := a, agentSubId := sub, sequenceNo := seqno, sysUpTime := uptime\<rparr>))))))) (\<lambda>_. True)"
    by (rule ensures_guard)
qed

text \<open>
  C30: No read of the decoder leaves a block that is 50 bytes longer than twice the datagram: whatever the
  datagram, the decoder then returns a sample or throws.
\<close>

theorem sflow_reads_bounded:
  assumes "2 * unat len + 50 \<le> length block" "unat len < 2 ^ 32 - 3"
  shows "read_sflow_datagram (new_sample block len) \<noteq> Undefined"
proof -
  have "roomy ((new_sample block len)\<lparr>datap := 0\<rparr>)"
    using assms by (simp add: roomy_def new_sample_def offsets_within_def new_element_def)
  then show ?thesis by (rule ensures_not_undefined [OF read_sflow_datagram_safe])
qed

theorem sflow_reads_bounded_witness:
  "read_sflow_datagram (new_sample (replicate 150 1) 50) \<noteq> Undefined"
  by (rule sflow_reads_bounded) simp_all

subsection \<open>Framing of version 5\<close>

lemma u32_less: "unat (x :: u32) < 4294967296"
  using unsigned_less [of x] by simp

lemma sample5_frame:
  assumes "reader pre" "\<And>tag len. reader (dec tag len)" "sample5 pre dec s = Value s'" "datap s \<le> endp s"
  shows "\<exists>len. rd32 (rawSample s) (datap s) = Some len \<and> datap s' = datap s + 4 + unat (adjusted len)"
proof -
  from assms(3) obtain len s1 s2 n s3 s4 where 1: "getData32 s = Value (len, s1)" and 2: "pre s1 = Value s2"
    and 3: "getData32 s2 = Value (n, s3)" and 4: "elements_loop dec (unat n) s3 = Value s4"
    and 5: "lengthCheck (datap s1) len s4 = Value s'"
    by (auto simp: sample5_def bnd_Value)
  have d1: "datap s1 = datap s + 4" "datap s1 \<le> endp s1" using getData32_Value [OF 1] by simp_all
  note r2 = readerD [OF assms(1) 2 d1(2)]
  have d3: "datap s2 \<le> datap s3" "datap s3 \<le> endp s3" "rawSampleLen s3 = rawSampleLen s2"
    using getData32_Value [OF 3] by simp_all
  note r4 = readerD [OF reader_elements_loop [OF assms(2)] 4 d3(2)]
  have "datap s4 \<le> endp s4" using r4 by simp
  moreover have "endp s4 < 2 ^ 32" using u32_less [of "rawSampleLen s4"] by simp
  ultimately have "datap s4 - datap s1 < 2 ^ 32" by simp
  then have "unat (of_nat (datap s4 - datap s1) :: u32) = datap s4 - datap s1" by (simp add: unat_of_nat)
  moreover have "of_nat (datap s4 - datap s1) = adjusted len" "s' = s4"
    using 5 by (auto simp: lengthCheck_def split: if_splits)
  ultimately have "datap s4 - datap s1 = unat (adjusted len)" by simp
  moreover have "datap s1 \<le> datap s4" using r2(2) d3(1) r4(2) by simp
  ultimately show ?thesis using getData32_Value(3) [OF 1] \<open>s' = s4\<close> d1(1) by simp
qed

lemma read_sample_frame:
  assumes "read_sample s = Value s'" "datap s \<le> endp s" "datagramVersion s \<ge> 5"
  shows "\<exists>len. rd32 (rawSample s) (datap s) = Some len \<and> datap s' = datap s + 4 + unat (adjusted len)"
proof -
  have pre: "reader (steps [get32 samplesGenerated_update, getSource b])"
    "reader (steps [get32 samplesGenerated_update, getSource b, get32 meanSkipCount_update, get32 samplePool_update,
       get32 dropEvents_update, getPorts b])" for b
    by (rule reader_steps, simp add: reader_get32 reader_getSource reader_getPorts)+
  have k: ?thesis if u: "bnd (getData32 s) (\<lambda>(len, s). skipBytes len s) = Value s'"
  proof -
    from u obtain len s1 where 1: "getData32 s = Value (len, s1)" and 2: "skipBytes len s1 = Value s'"
      by (auto simp: bnd_Value)
    show ?thesis using getData32_Value [OF 1] skipBytes_Value(1) [OF 2] by simp
  qed
  from assms(1,3) consider b where "readFlowSample b s = Value s'" | b where "readCountersSample b s = Value s'"
    | "bnd (getData32 s) (\<lambda>(len, s). skipBytes len s) = Value s'"
    by (auto simp only: read_sample_def Let_def if_True split: if_splits)
  then show ?thesis
  proof cases
    case 1
    then show ?thesis unfolding sample5_eq by (rule sample5_frame [OF pre(2) reader_flow_element _ assms(2)])
  next
    case 2
    then show ?thesis unfolding sample5_eq by (rule sample5_frame [OF pre(1) reader_counters_element _ assms(2)])
  next
    case 3
    then show ?thesis by (rule k)
  qed
qed

text \<open>The start of sample \<open>i\<close>: each is a tag, a length, and the length rounded up to whole words.\<close>

fun frame_at :: "byte list \<Rightarrow> nat \<Rightarrow> nat \<Rightarrow> nat" where
  "frame_at b p 0 = p"
| "frame_at b p (Suc i) = frame_at b (p + 8 + unat (adjusted (the (rd32 b (p + 4))))) i"

lemma samples_loop_frames:
  assumes "samples_loop n s = Value s'" "datap s \<le> endp s" "datagramVersion s \<ge> 5"
  shows "\<exists>es. elements s' = elements s @ es \<and> length es = n \<and> datap s' = frame_at (rawSample s) (datap s) n
    \<and> datap s' \<le> endp s
    \<and> (\<forall>i < n. rd32 (rawSample s) (frame_at (rawSample s) (datap s) i) = Some (sampleType (es ! i)))"
  using assms
proof (induction n arbitrary: s)
  case (Suc n)
  then obtain s1 s2 where 1: "get32 sampleType_update (s\<lparr>elem := new_element\<rparr>) = Value s1"
    and 2: "read_sample s1 = Value s2" and 3: "samples_loop n (s2\<lparr>elements := elements s2 @ [elem s2]\<rparr>) = Value s'"
    by (auto simp: bnd_Value split: if_splits)
  from 1 obtain t s0 where t: "getData32 (s\<lparr>elem := new_element\<rparr>) = Value (t, s0)"
    and s0: "s1 = s0\<lparr>elem := (elem s0)\<lparr>sampleType := t\<rparr>\<rparr>"
    by (auto simp: get32_def bnd_Value)
  note g = getData32_Value [OF t]
  have s1: "s1 = s\<lparr>elem := new_element\<lparr>sampleType := t\<rparr>, datap := datap s + 4\<rparr>" using s0 g(1) by simp
  have d1: "datap s1 \<le> endp s1" "datagramVersion s1 \<ge> 5" using g(2) s1 Suc.prems(3) by simp_all
  from readerD [OF reader_read_sample 2 d1(1)]
  have a: "advanced s1 s2" and d2: "datap s2 \<le> endp s2" by simp_all
  then have s2: "s2 = s1\<lparr>datap := datap s2, elem := elem s2\<rparr>" and ty: "sampleType (elem s2) = t"
    using s1 by (auto simp: advanced_def)
  have keep: "rawSample s2 = rawSample s" "rawSampleLen s2 = rawSampleLen s" "elements s2 = elements s"
    "datagramVersion s2 = datagramVersion s"
    by (subst s2, simp add: s1)+
  obtain len where len: "rd32 (rawSample s) (datap s + 4) = Some len" "datap s2 = datap s + 8 + unat (adjusted len)"
    using read_sample_frame [OF 2 d1] s1 by auto
  from Suc.IH [OF 3] d2 Suc.prems(3) keep obtain es where es: "elements s' = elements s @ [elem s2] @ es" "length es = n"
    "datap s' = frame_at (rawSample s) (datap s2) n" "datap s' \<le> endp s"
    "\<forall>i < n. rd32 (rawSample s) (frame_at (rawSample s) (datap s2) i) = Some (sampleType (es ! i))"
    by auto
  have "rd32 (rawSample s) (datap s) = Some t" using g(3) by simp
  then have "rd32 (rawSample s) (frame_at (rawSample s) (datap s) i) = Some (sampleType ((elem s2 # es) ! i))" if "i < Suc n" for i
    using that es(5) ty len by (cases i) simp_all
  then show ?case using es len by (intro exI [of _ "elem s2 # es"]) simp
qed simp

subsection \<open>Datagrams built from samples\<close>

text \<open>A datagram read word by word.\<close>

lemma getData32_rd32:
  "getData32 s =
     (case rd32 (rawSample s) (datap s) of
        None \<Rightarrow> Undefined
      | Some w \<Rightarrow> if datap s + 4 \<le> endp s then Value (w, s\<lparr>datap := datap s + 4\<rparr>) else Thrown OutOfRange)"
  by (simp add: getData32_def getData32_nobswap_def peek_def buf_simps Let_def not_le)

text \<open>The words that lie ahead of a position, all of them in the datagram.\<close>

fun ahead :: "byte list \<Rightarrow> nat \<Rightarrow> nat \<Rightarrow> u32 list \<Rightarrow> bool" where
  "ahead raw n d [] \<longleftrightarrow> d \<le> n"
| "ahead raw n d (w # ws) \<longleftrightarrow> rd32 raw d = Some w \<and> d + 4 \<le> n \<and> ahead raw n (d + 4) ws"

lemma ahead_append: "ahead raw n d (us @ ws) \<longleftrightarrow> ahead raw n d us \<and> ahead raw n (d + 4 * length us) ws"
proof (induction us arbitrary: d)
  case Nil
  show ?case by (cases ws) auto
next
  case (Cons u us)
  then show ?case by (simp add: algebra_simps)
qed

lemma ahead_le: "ahead raw n d ws \<Longrightarrow> d + 4 * length ws \<le> n"
  by (induction ws arbitrary: d) force+

lemma length_b32 [simp]: "length (b32 w) = 4"
  by (simp add: b32_bytes)

lemma length_words: "length (concat (map b32 ws)) = 4 * length ws"
  by (induction ws) simp_all

lemma rd32_b32: "rd32 (pre @ b32 w @ post) (length pre) = Some w"
  using rd_append(3) [of 0 4 "b32 w" pre post] by (simp add: b32_bytes rd32_def be32_bytes)

lemma ahead_words:
  "length pre + 4 * length ws \<le> n \<Longrightarrow> ahead (pre @ concat (map b32 ws) @ post) n (length pre) ws"
proof (induction ws arbitrary: pre)
  case (Cons w ws)
  have "rd32 (pre @ b32 w @ concat (map b32 ws) @ post) (length pre) = Some w" by (rule rd32_b32)
  moreover have "ahead ((pre @ b32 w) @ concat (map b32 ws) @ post) n (length (pre @ b32 w)) ws"
    by (rule Cons.IH) (use Cons.prems in simp)
  ultimately show ?case using Cons.prems by simp
qed simp

lemma b32_be32: "b32 (be32 a b c d) = [a, b, c, d]"
proof -
  let ?w = "be32 a b c d"
  have digit: "(m * 256 + unat x) div 256 = m" "(m * 256 + unat x) mod 256 = unat x" for m and x :: byte
    using byte_less [of x] by simp_all
  have 8: "unat ?w div 2 ^ 8 = (unat a * 256 + unat b) * 256 + unat c"
    using digit(1) [of "(unat a * 256 + unat b) * 256 + unat c" d] by (simp only: unat_be32) simp
  have "unat ?w div 2 ^ 16 = unat ?w div 2 ^ 8 div 256" by (simp flip: div_mult2_eq)
  then have 16: "unat ?w div 2 ^ 16 = unat a * 256 + unat b" by (simp only: 8 digit)
  have "unat ?w div 2 ^ 24 = unat ?w div 2 ^ 16 div 256" by (simp flip: div_mult2_eq)
  then have 24: "unat ?w div 2 ^ 24 = unat a" by (simp only: 16 digit)
  have "unat ?w mod 256 = unat d" "unat ?w div 2 ^ 8 mod 256 = unat c" "unat ?w div 2 ^ 16 mod 256 = unat b"
    by (simp_all only: 8 16 digit) (simp only: unat_be32 digit)
  moreover have "unat ?w div 2 ^ 24 mod 256 = unat a" unfolding 24 using byte_less [of a] by simp
  ultimately show ?thesis by (simp add: b32_bytes word_unat_eq_iff unat_byte_of unat_drop)
qed

lemma key_word:
  assumes "rd32 raw (d + i) = Some w" "i + 4 \<le> n"
  shows "key32 (take n (drop d raw)) i = w" "take 4 (drop i (take n (drop d raw))) = b32 w"
proof -
  have l: "d + i + 4 \<le> length raw" and w: "w = be32 (raw ! (d + i)) (raw ! (d + i + 1)) (raw ! (d + i + 2)) (raw ! (d + i + 3))"
    using assms(1) by (auto simp: rd32_def split: if_splits)
  show "key32 (take n (drop d raw)) i = w" using l assms(2) by (simp add: key32_def w add.assoc)
  have "take 4 (drop (d + i) raw) = [raw ! (d + i), raw ! (d + i + 1), raw ! (d + i + 2), raw ! (d + i + 3)]"
    using l by (intro nth_equalityI) (auto simp: less_Suc_eq numeral_eq_Suc)
  then show "take 4 (drop i (take n (drop d raw))) = b32 w"
    using assms(2) by (simp add: w b32_be32 drop_take min_def add.commute)
qed

text \<open>
  What an agent sends: an expanded flow sample with an IPv4 record behind any records of other kinds, the
  generic counters of an interface, or a sample of another kind.
\<close>

record flow_item =
  f_seq :: u32
  f_class :: u32
  f_index :: u32
  f_rate :: u32
  f_pool :: u32
  f_drops :: u32
  f_inf :: u32
  f_inp :: u32
  f_outf :: u32
  f_outp :: u32
  f_others :: "(u32 \<times> u32 list) list"
  f_size :: u32
  f_proto :: u32
  f_src :: u32
  f_dst :: u32
  f_sport :: u32
  f_dport :: u32
  f_flags :: u32
  f_tos :: u32

datatype item =
  Flow flow_item
| Counters u32 u32 u32 sfl_if_counters
| Other u32 "u32 list"

definition hi32 :: "u64 \<Rightarrow> u32" where
  "hi32 x = ucast (drop_bit 32 x)"

definition lo32 :: "u64 \<Rightarrow> u32" where
  "lo32 x = ucast x"

definition counters_words :: "sfl_if_counters \<Rightarrow> u32 list" where
  "counters_words c =
     [ifIndex c, ifType c, hi32 (ifSpeed c), lo32 (ifSpeed c), ifDirection c, ifStatus c, hi32 (ifInOctets c), lo32 (ifInOctets c),
      ifInUcastPkts c, ifInMulticastPkts c, ifInBroadcastPkts c, ifInDiscards c, ifInErrors c, ifInUnknownProtos c,
      hi32 (ifOutOctets c), lo32 (ifOutOctets c), ifOutUcastPkts c, ifOutMulticastPkts c, ifOutBroadcastPkts c,
      ifOutDiscards c, ifOutErrors c, ifPromiscuousMode c]"

definition other_words :: "u32 \<times> u32 list \<Rightarrow> u32 list" where
  "other_words r = fst r # of_nat (4 * length (snd r)) # snd r"

definition flow_head :: "flow_item \<Rightarrow> u32 list" where
  "flow_head f =
     [f_seq f, f_class f, f_index f, f_rate f, f_pool f, f_drops f, f_inf f, f_inp f, f_outf f, f_outp f,
      of_nat (length (f_others f) + 1)]"

definition flow_key :: "flow_item \<Rightarrow> u32 list" where
  "flow_key f = [3, 32, f_size f, f_proto f, f_src f, f_dst f, f_sport f, f_dport f, f_flags f, f_tos f]"

definition flow_others :: "flow_item \<Rightarrow> u32 list" where
  "flow_others f = concat (map other_words (f_others f))"

fun item_words :: "item \<Rightarrow> u32 list" where
  "item_words (Flow f) =
     3 # of_nat (4 * (21 + length (flow_others f))) # flow_head f @ flow_others f @ flow_key f"
| "item_words (Counters sq cl ix c) = [4, 112, sq, cl, ix, 1, 1, 88] @ counters_words c"
| "item_words (Other t ws) = other_words (t, ws)"

text \<open>What is to come out of it; the decoder keeps where in the block the IPv4 record starts.\<close>

definition flow_result :: "nat \<Rightarrow> flow_item \<Rightarrow> sf_element" where
  "flow_result p f =
     new_element
       \<lparr>sampleType := 3, elementType := 3, samplesGenerated := f_seq f, ds_class := f_class f, ds_index := f_index f,
        meanSkipCount := f_rate f, samplePool := f_pool f, dropEvents := f_drops f,
        inputPortFormat := f_inf f, inputPort := f_inp f, outputPortFormat := f_outf f, outputPort := f_outp f,
        header := p + 4 * (15 + length (flow_others f)), headerLen := 32, sampledPacketSize := f_size f,
        ipsrc := \<lparr>addr_type = SFLADDRESSTYPE_IP_V4, addr_bytes = b32 (f_src f) @ replicate 12 0\<rparr>,
        ipdst := \<lparr>addr_type = SFLADDRESSTYPE_IP_V4, addr_bytes = b32 (f_dst f) @ replicate 12 0\<rparr>,
        dcd_ipProtocol := f_proto f, dcd_ipTos := f_tos f, dcd_sport := f_sport f, dcd_dport := f_dport f,
        dcd_tcpFlags := if f_proto f = 6 then f_flags f else 0\<rparr>"

fun item_result :: "nat \<Rightarrow> item \<Rightarrow> sf_element" where
  "item_result p (Flow f) = flow_result p f"
| "item_result p (Counters sq cl ix c) =
     new_element\<lparr>sampleType := 4, elementType := 1, samplesGenerated := sq, ds_class := cl, ds_index := ix, ifCounters := c\<rparr>"
| "item_result p (Other t ws) = new_element\<lparr>sampleType := t\<rparr>"

fun results :: "nat \<Rightarrow> item list \<Rightarrow> sf_element list" where
  "results p [] = []"
| "results p (i # is) = item_result p i # results (p + 4 * length (item_words i)) is"

definition skipped_tag :: "u32 \<Rightarrow> bool" where
  "skipped_tag t \<longleftrightarrow> t \<notin> {1, 2, 3, 4, 1021, 1022, 1023, 1024, 1025, 1026}"

fun item_ok :: "item \<Rightarrow> bool" where
  "item_ok (Flow f) \<longleftrightarrow> (\<forall>(t, ws) \<in> set (f_others f). skipped_tag t)"
| "item_ok (Counters sq cl ix c) \<longleftrightarrow> True"
| "item_ok (Other t ws) \<longleftrightarrow> t \<notin> {1, 2, 3, 4}"

lemma hi_lo: "push_bit 32 (ucast (hi32 x)) + ucast (lo32 x) = x"
proof -
  have x: "unat x < 2 ^ 64" using unsigned_less [of x] by simp
  have h: "unat (hi32 x) = unat x div 2 ^ 32"
    using x by (simp add: hi32_def unsigned_ucast_eq unat_drop take_bit_eq_mod mod_less less_mult_imp_div_less)
  have l: "unat (lo32 x) = unat x mod 2 ^ 32" by (simp add: lo32_def unsigned_ucast_eq take_bit_eq_mod)
  have "unat (push_bit 32 (ucast (hi32 x)) + ucast (lo32 x) :: u64) =
      (unat (hi32 x) * 2 ^ 32 + unat (lo32 x)) mod 2 ^ 64"
    by (simp add: push_bit_eq_mult unat_word_ariths unsigned_ucast_eq take_bit_eq_mod mod_simps
      mod_less [OF less_trans [OF u32_less]])
  also have "\<dots> = unat x" using x unfolding h l by simp
  finally show ?thesis by (simp only: word_unat_eq_iff)
qed


lemma at_word:
  assumes "rd32 (rawSample s) (datap s) = Some w" "datap s + 4 \<le> endp s"
  shows "getData32 s = Value (w, s\<lparr>datap := datap s + 4\<rparr>)"
    "get32 upd s = Value (s\<lparr>datap := datap s + 4, elem := upd (\<lambda>_. w) (elem s)\<rparr>)"
    "cnt32 updc s = Value (s\<lparr>datap := datap s + 4, elem := (elem s)\<lparr>ifCounters := updc (\<lambda>_. w) (ifCounters (elem s))\<rparr>\<rparr>)"
  using assms by (simp_all add: getData32_rd32 get32_def cnt32_def)

lemma at_words:
  assumes "rd32 (rawSample s) (datap s) = Some (hi32 x)" "rd32 (rawSample s) (datap s + 4) = Some (lo32 x)"
    "datap s + 8 \<le> endp s"
  shows "cnt64 updc s = Value (s\<lparr>datap := datap s + 8, elem := (elem s)\<lparr>ifCounters := updc (\<lambda>_. x) (ifCounters (elem s))\<rparr>\<rparr>)"
  using assms by (simp add: getData32_rd32 getData64_def cnt64_def hi_lo)

lemma readCounters_words:
  assumes "ahead (rawSample s) (endp s) (datap s) (counters_words c)"
  shows "readCounters_generic s = Value (s\<lparr>datap := datap s + 88, elem := (elem s)\<lparr>ifCounters := c\<rparr>\<rparr>)"
  using assms
  by (simp add: readCounters_generic_def counters_words_def at_word at_words)

lemma lengthCheck_ok:
  assumes "datap s = start + n" "n < 2 ^ 32" "n mod 4 = 0"
  shows "lengthCheck start (of_nat n) s = Value s"
proof -
  have "unat (of_nat n :: u32) = n" using assms(2) by (simp add: unat_of_nat)
  moreover have "unat (of_nat n + 3 :: u32) div 4 * 4 = n"
  proof -
    have "n < 4294967296" using assms(2) by simp
    then have "n + 3 < 2 ^ 32" using assms(3) by simp presburger
    then have "unat (of_nat n + 3 :: u32) = n + 3" by (simp add: unat_word_ariths(1) unat_of_nat)
    then show ?thesis using assms(3) by presburger
  qed
  ultimately have "adjusted (of_nat n) = of_nat n" by (simp add: word_unat_eq_iff unat_adjusted mult.commute)
  then show ?thesis using assms(1) by (simp add: lengthCheck_def)
qed

lemma skipBytes_ok:
  assumes "datap s + n \<le> endp s" "n mod 4 = 0"
  shows "skipBytes (of_nat n) s = Value (s\<lparr>datap := datap s + n\<rparr>)"
proof -
  have n: "n < 2 ^ 32" using assms(1) u32_less [of "rawSampleLen s"] by simp
  have "lengthCheck 0 (of_nat n) (s\<lparr>datap := n\<rparr>) = Value (s\<lparr>datap := n\<rparr>)"
    by (rule lengthCheck_ok) (use n assms in simp_all)
  then have a: "adjusted (of_nat n) = of_nat n" by (simp add: lengthCheck_def split: if_splits)
  have u: "unat (of_nat n :: u32) = n" using n by (simp add: unat_of_nat)
  have "\<not> rawSampleLen s < of_nat n" using assms(1) u by (simp add: word_less_nat_alt)
  then show ?thesis using assms(1) by (simp add: skipBytes_def Let_def skip_quads a u not_less)
qed

lemma length_other: "length (other_words (t, ws)) = length ws + 2"
  by (simp add: other_words_def)

lemma counters_item:
  assumes "ahead (rawSample s) (endp s) (datap s) (item_words (Counters sq cl ix c))" "elem s = new_element"
    "datagramVersion s = 5"
  shows "bnd (get32 sampleType_update s) read_sample =
    Value (s\<lparr>datap := datap s + 120, elem := item_result p (Counters sq cl ix c)\<rparr>)"
proof -
  let ?s = "s\<lparr>elem := new_element\<lparr>sampleType := 4, samplesGenerated := sq, ds_class := cl, ds_index := ix, elementType := 1\<rparr>,
      datap := datap s + 32\<rparr>"
  let ?t = "?s\<lparr>elem := (elem ?s)\<lparr>ifCounters := c\<rparr>, datap := datap s + 120\<rparr>"
  have "ahead (rawSample ?s) (endp ?s) (datap ?s) (counters_words c)" using assms(1) by (simp add: add.assoc)
  from readCounters_words [OF this] have r: "readCounters_generic ?s = Value ?t" by simp
  have l1: "lengthCheck (datap s + 32) 88 ?t = Value ?t"
    using lengthCheck_ok [of ?t "datap s + 32" 88] by simp
  have l2: "lengthCheck (datap s + 8) 112 ?t = Value ?t"
    using lengthCheck_ok [of ?t "datap s + 8" 112] by simp
  show ?thesis
    using assms r l1 l2
    by (simp add: at_word read_sample_def readCountersSample_def getSource_def counters_element_def add.assoc)
qed

lemma other_item:
  assumes "ahead (rawSample s) (endp s) (datap s) (other_words (t, ws))" "elem s = new_element"
    "datagramVersion s = 5" "t \<notin> {1, 2, 3, 4}"
  shows "bnd (get32 sampleType_update s) read_sample =
    Value (s\<lparr>datap := datap s + 4 * length (other_words (t, ws)), elem := new_element\<lparr>sampleType := t\<rparr>\<rparr>)"
proof -
  let ?s = "s\<lparr>elem := new_element\<lparr>sampleType := t\<rparr>, datap := datap s + 8\<rparr>"
  have "datap s + 8 + 4 * length ws \<le> endp s" using ahead_le [OF assms(1)] by (simp add: other_words_def)
  then have "skipBytes (of_nat (4 * length ws)) ?s = Value (?s\<lparr>datap := datap s + 8 + 4 * length ws\<rparr>)"
    using skipBytes_ok [of ?s "4 * length ws"] by simp
  then show ?thesis
    using assms by (simp add: at_word read_sample_def other_words_def add.assoc)
qed

lemma elements_others:
  assumes "ahead (rawSample s) (endp s) (datap s) (concat (map other_words rs))" "\<forall>(t, ws) \<in> set rs. skipped_tag t"
  shows "\<exists>t. elements_loop flow_element (length rs + n) s =
    elements_loop flow_element n (s\<lparr>elem := (elem s)\<lparr>elementType := t\<rparr>, datap := datap s + 4 * length (concat (map other_words rs))\<rparr>)"
  using assms
proof (induction rs arbitrary: s)
  case Nil
  have "s\<lparr>elem := (elem s)\<lparr>elementType := elementType (elem s)\<rparr>\<rparr> = s" by simp
  then show ?case by (intro exI [of _ "elementType (elem s)"]) simp
next
  case (Cons r rs)
  obtain t ws where r: "r = (t, ws)" by (cases r)
  let ?s = "s\<lparr>elem := (elem s)\<lparr>elementType := t\<rparr>, datap := datap s + 8\<rparr>"
  let ?t = "s\<lparr>elem := (elem s)\<lparr>elementType := t\<rparr>, datap := datap s + 8 + 4 * length ws\<rparr>"
  from Cons.prems(1) have a: "ahead (rawSample s) (endp s) (datap s) (other_words (t, ws))"
    and b: "ahead (rawSample ?t) (endp ?t) (datap ?t) (concat (map other_words rs))"
    by (simp_all add: r ahead_append length_other add.assoc)
  have le: "datap s + 8 + 4 * length ws \<le> endp s" using ahead_le [OF a] by (simp add: other_words_def)
  have "skipBytes (of_nat (4 * length ws)) ?s = Value ?t"
    using skipBytes_ok [of ?s "4 * length ws"] le by simp
  moreover have "lengthCheck (datap s + 8) (of_nat (4 * length ws)) ?t = Value ?t"
    by (rule lengthCheck_ok) (use le u32_less [of "rawSampleLen s"] in simp_all)
  moreover have "flow_element t len s' = skipBytes len s'" for len s'
    using Cons.prems(2) by (simp add: r skipped_tag_def flow_element_def)
  ultimately have "elements_loop flow_element (length (r # rs) + n) s = elements_loop flow_element (length rs + n) ?t"
    using a by (simp add: at_word other_words_def add.assoc)
  moreover obtain t' where "elements_loop flow_element (length rs + n) ?t = elements_loop flow_element n
      (?t\<lparr>elem := (elem ?t)\<lparr>elementType := t'\<rparr>, datap := datap ?t + 4 * length (concat (map other_words rs))\<rparr>)"
    using Cons.IH [OF b] Cons.prems(2) by auto
  ultimately show ?case by (intro exI [of _ t']) (simp add: r length_other algebra_simps)
qed


definition with_key :: "nat \<Rightarrow> flow_item \<Rightarrow> sf_element \<Rightarrow> sf_element" where
  "with_key p f e =
     (let e = e\<lparr>headerLen := 32, header := p, sampledPacketSize := f_size f,
        ipsrc := \<lparr>addr_type = SFLADDRESSTYPE_IP_V4, addr_bytes = b32 (f_src f) @ replicate 12 0\<rparr>,
        ipdst := \<lparr>addr_type = SFLADDRESSTYPE_IP_V4, addr_bytes = b32 (f_dst f) @ replicate 12 0\<rparr>,
        dcd_ipProtocol := f_proto f, dcd_ipTos := f_tos f, dcd_sport := f_sport f, dcd_dport := f_dport f\<rparr> in
      if f_proto f = 6 then e\<lparr>dcd_tcpFlags := f_flags f\<rparr> else e)"

lemma readFlowSample_IPv4_words:
  assumes "ahead (rawSample s) (endp s) (datap s) (drop 2 (flow_key f))" "addr_bytes (ipsrc (elem s)) = replicate 16 0"
    "addr_bytes (ipdst (elem s)) = replicate 16 0"
  shows "readFlowSample_IPv4 s = Value (s\<lparr>elem := with_key (datap s) f (elem s), datap := datap s + 32\<rparr>)"
proof -
  have a: "rd32 (rawSample s) (datap s + 0) = Some (f_size f)" "rd32 (rawSample s) (datap s + 4) = Some (f_proto f)"
    "rd32 (rawSample s) (datap s + 8) = Some (f_src f)" "rd32 (rawSample s) (datap s + 12) = Some (f_dst f)"
    "rd32 (rawSample s) (datap s + 16) = Some (f_sport f)" "rd32 (rawSample s) (datap s + 20) = Some (f_dport f)"
    "rd32 (rawSample s) (datap s + 24) = Some (f_flags f)" "rd32 (rawSample s) (datap s + 28) = Some (f_tos f)"
    "datap s + 32 \<le> endp s"
    using assms(1) by (simp_all add: flow_key_def add.assoc)
  let ?s = "s\<lparr>elem := (elem s)\<lparr>headerLen := 32, header := datap s\<rparr>\<rparr>"
  have skip: "skipBytes 32 ?s = Value (?s\<lparr>datap := datap s + 32\<rparr>)" using skipBytes_ok [of ?s 32] a by simp
  have "datap s + 32 \<le> length (rawSample s)" using a(8) by (simp add: rd32_def split: if_splits)
  then obtain k where k: "peek (rd_bytes (rawSample s) (datap s) 32) = Value k" and "k = take 32 (drop (datap s) (rawSample s))"
    by (simp add: peek_def rd_bytes_def)
  then have "key32 k 0 = f_size f" "key32 k 4 = f_proto f" "take 4 (drop 8 k) = b32 (f_src f)"
    "take 4 (drop 12 k) = b32 (f_dst f)" "key32 k 16 = f_sport f" "key32 k 20 = f_dport f" "key32 k 24 = f_flags f"
    "key32 k 28 = f_tos f"
    by (simp_all only:) (rule key_word, rule a, simp)+
  with skip k assms(2,3) show ?thesis
    by (simp add: readFlowSample_IPv4_def v4_address_def copy_front_def Let_def with_key_def del: length_take)
qed

lemma flow_key_element:
  assumes "ahead (rawSample s) (endp s) (datap s) (flow_key f)" "addr_bytes (ipsrc (elem s)) = replicate 16 0"
    "addr_bytes (ipdst (elem s)) = replicate 16 0"
  shows "elements_loop flow_element 1 s =
    Value (s\<lparr>elem := with_key (datap s + 8) f ((elem s)\<lparr>elementType := 3\<rparr>), datap := datap s + 40\<rparr>)"
proof -
  let ?s = "s\<lparr>elem := (elem s)\<lparr>elementType := 3\<rparr>, datap := datap s + 8\<rparr>"
  have a: "rd32 (rawSample s) (datap s) = Some 3" "datap s + 4 \<le> endp s" "rd32 (rawSample s) (datap s + 4) = Some 32"
    "datap s + 8 \<le> endp s" "ahead (rawSample ?s) (endp ?s) (datap ?s) (drop 2 (flow_key f))"
    using assms(1) by (simp_all add: flow_key_def add.assoc)
  have "readFlowSample_IPv4 ?s = Value (?s\<lparr>elem := with_key (datap ?s) f (elem ?s), datap := datap ?s + 32\<rparr>)"
    by (rule readFlowSample_IPv4_words) (use a assms(2,3) in simp_all)
  moreover have "lengthCheck (datap s + 8) 32 s' = Value s'" if "datap s' = datap s + 40" for s'
    using lengthCheck_ok [of s' "datap s + 8" 32] that by simp
  ultimately show ?thesis using a(1-4) by (simp add: at_word flow_element_def add.assoc)
qed

lemma length_others: "length rs \<le> length (concat (map other_words rs))"
  by (induction rs) (auto simp: other_words_def)

lemma flow_item_sample:
  assumes "ahead (rawSample s) (endp s) (datap s) (item_words (Flow f))" "elem s = new_element" "datagramVersion s = 5"
    "item_ok (Flow f)"
  shows "bnd (get32 sampleType_update s) read_sample =
    Value (s\<lparr>elem := flow_result (datap s) f, datap := datap s + 4 * length (item_words (Flow f))\<rparr>)"
proof -
  let ?n = "length (flow_others f)"
  let ?e = "new_element\<lparr>sampleType := 3, samplesGenerated := f_seq f, ds_class := f_class f, ds_index := f_index f,
    meanSkipCount := f_rate f, samplePool := f_pool f, dropEvents := f_drops f, inputPortFormat := f_inf f,
    inputPort := f_inp f, outputPortFormat := f_outf f, outputPort := f_outp f\<rparr>"
  let ?s = "s\<lparr>elem := ?e, datap := datap s + 52\<rparr>"
  have a: "ahead (rawSample s) (endp s) (datap s) (3 # of_nat (4 * (21 + ?n)) # flow_head f)"
    and o: "ahead (rawSample ?s) (endp ?s) (datap ?s) (flow_others f)"
    and k: "ahead (rawSample s) (endp s) (datap s + 52 + 4 * ?n) (flow_key f)"
    using assms(1) by (simp_all add: ahead_append flow_head_def add.assoc)
  have le: "datap s + 92 + 4 * ?n \<le> endp s" using ahead_le [OF k] by (simp add: flow_key_def)
  have "length (f_others f) \<le> ?n"
    unfolding flow_others_def by (rule length_others)
  then have count: "unat (of_nat (length (f_others f) + 1) :: u32) = length (f_others f) + 1"
    using le u32_less [of "rawSampleLen s"] by (subst unat_of_nat) simp
  obtain t where "elements_loop flow_element (length (f_others f) + 1) ?s =
      elements_loop flow_element 1 (?s\<lparr>elem := (elem ?s)\<lparr>elementType := t\<rparr>, datap := datap ?s + 4 * ?n\<rparr>)"
    using elements_others [of ?s "f_others f" 1] o assms(4) by (auto simp: flow_others_def)
  also have "\<dots> = Value (s\<lparr>elem := with_key (datap s + 60 + 4 * ?n) f (?e\<lparr>elementType := 3\<rparr>), datap := datap s + 92 + 4 * ?n\<rparr>)"
    using flow_key_element [of "?s\<lparr>elem := (elem ?s)\<lparr>elementType := t\<rparr>, datap := datap ?s + 4 * ?n\<rparr>" f] k
    by (simp add: new_element_def no_address_def algebra_simps)
  also have "with_key (datap s + 60 + 4 * ?n) f (?e\<lparr>elementType := 3\<rparr>) = flow_result (datap s) f"
    by (simp add: with_key_def flow_result_def new_element_def Let_def)
  finally have loop: "elements_loop flow_element (length (f_others f) + 1) ?s =
    Value (s\<lparr>elem := flow_result (datap s) f, datap := datap s + 92 + 4 * ?n\<rparr>)" .
  have "lengthCheck (datap s + 8) (of_nat (4 * (21 + ?n))) (s\<lparr>elem := flow_result (datap s) f, datap := datap s + 92 + 4 * ?n\<rparr>) =
      Value (s\<lparr>elem := flow_result (datap s) f, datap := datap s + 92 + 4 * ?n\<rparr>)"
    by (rule lengthCheck_ok) (use le u32_less [of "rawSampleLen s"] in simp_all)
  then show ?thesis
    using a loop assms(2,3) count
    by (simp add: at_word read_sample_def readFlowSample_def getSource_def getPorts_def flow_head_def flow_key_def add.assoc del: of_nat_add of_nat_mult of_nat_Suc)
qed


lemma item_sample:
  assumes "ahead (rawSample s) (endp s) (datap s) (item_words i)" "elem s = new_element" "datagramVersion s = 5" "item_ok i"
  shows "bnd (get32 sampleType_update s) read_sample =
    Value (s\<lparr>elem := item_result (datap s) i, datap := datap s + 4 * length (item_words i)\<rparr>)"
proof (cases i)
  case (Flow f)
  then show ?thesis using flow_item_sample assms by simp
next
  case (Counters sq cl ix c)
  then show ?thesis using counters_item [of s sq cl ix c "datap s"] assms by (simp add: counters_words_def)
next
  case (Other t ws)
  then show ?thesis using other_item [of s t ws] assms by simp
qed

lemma samples_loop_items:
  assumes "ahead (rawSample s) (endp s) (datap s) (concat (map item_words is))" "datagramVersion s = 5" "\<forall>i \<in> set is. item_ok i"
  shows "\<exists>e. samples_loop (length is) s =
    Value (s\<lparr>elem := e, datap := datap s + 4 * length (concat (map item_words is)), elements := elements s @ results (datap s) is\<rparr>)"
  using assms
proof (induction "is" arbitrary: s)
  case Nil
  have "s\<lparr>elem := elem s\<rparr> = s" by simp
  then show ?case by (intro exI [of _ "elem s"]) simp
next
  case (Cons i "is")
  let ?n = "4 * length (item_words i)"
  let ?s = "s\<lparr>elem := new_element\<rparr>"
  let ?t = "s\<lparr>elem := item_result (datap s) i, datap := datap s + ?n, elements := elements s @ [item_result (datap s) i]\<rparr>"
  from Cons.prems(1) have a: "ahead (rawSample ?s) (endp ?s) (datap ?s) (item_words i)"
    and b: "ahead (rawSample ?t) (endp ?t) (datap ?t) (concat (map item_words is))"
    by (simp_all add: ahead_append)
  have "0 < length (item_words i)" by (cases i) (simp_all add: other_words_def)
  then have "datap s < endp s" using ahead_le [OF a] by (simp, linarith)
  moreover have "bnd (get32 sampleType_update ?s) read_sample =
      Value (?s\<lparr>elem := item_result (datap s) i, datap := datap s + ?n\<rparr>)"
    using item_sample [OF a] Cons.prems(2,3) by simp
  then have "bnd (get32 sampleType_update ?s) (\<lambda>s. bnd (read_sample s) g) = g (?s\<lparr>elem := item_result (datap s) i, datap := datap s + ?n\<rparr>)"
    for g :: "sf_sample \<Rightarrow> sf_sample sf"
    by (simp add: bnd_assoc [symmetric])
  ultimately have "samples_loop (length (i # is)) s = samples_loop (length is) ?t" by simp
  moreover obtain e where "samples_loop (length is) ?t =
      Value (?t\<lparr>elem := e, datap := datap ?t + 4 * length (concat (map item_words is)), elements := elements ?t @ results (datap ?t) is\<rparr>)"
    using Cons.IH [OF b] Cons.prems(2,3) by auto
  ultimately show ?case by (intro exI [of _ e]) (simp add: algebra_simps)
qed

text \<open>A datagram of version 5 from an agent with an IPv4 address.\<close>

definition datagram_words :: "u32 \<Rightarrow> u32 \<Rightarrow> u32 \<Rightarrow> u32 \<Rightarrow> item list \<Rightarrow> u32 list" where
  "datagram_words agent sub sq up is =
     [5, SFLADDRESSTYPE_IP_V4, agent, sub, sq, up, of_nat (length is)] @ concat (map item_words is)"

definition datagram_bytes :: "u32 \<Rightarrow> u32 \<Rightarrow> u32 \<Rightarrow> u32 \<Rightarrow> item list \<Rightarrow> byte list" where
  "datagram_bytes agent sub sq up is = concat (map b32 (datagram_words agent sub sq up is))"

lemma length_items: "length is \<le> length (concat (map item_words is))"
proof (induction "is")
  case (Cons i "is")
  have "1 \<le> length (item_words i)" by (cases i) (simp_all add: other_words_def)
  then show ?case using Cons by (simp only: list.map concat.simps length_append list.size)
qed simp

lemma datagram_items:
  assumes "\<forall>i \<in> set is. item_ok i" "length (datagram_bytes agent sub sq up is) < 2 ^ 32"
  shows "\<exists>s. read_sflow_datagram (new_sample (datagram_bytes agent sub sq up is @ rest) (of_nat (length (datagram_bytes agent sub sq up is)))) =
      Value s \<and> elements s = results 28 is \<and> datap s = length (datagram_bytes agent sub sq up is)
    \<and> agent_addr s = \<lparr>addr_type = SFLADDRESSTYPE_IP_V4, addr_bytes = b32 agent @ replicate 12 0\<rparr>
    \<and> agentSubId s = sub \<and> sequenceNo s = sq \<and> sysUpTime s = up"
proof -
  let ?ws = "datagram_words agent sub sq up is"
  let ?raw = "datagram_bytes agent sub sq up is @ rest"
  let ?len = "of_nat (length (datagram_bytes agent sub sq up is)) :: u32"
  let ?s = "new_sample ?raw ?len"
  have l: "unat ?len = 4 * length ?ws" 
    using assms(2) unfolding unat_of_nat by (simp add: datagram_bytes_def length_words)
  have a: "ahead ?raw (unat ?len) 0 ?ws"
    using ahead_words [of "[]" ?ws "unat ?len" rest] l by (simp add: datagram_bytes_def)
  then have w: "rd32 ?raw 0 = Some 5" "rd32 ?raw 4 = Some SFLADDRESSTYPE_IP_V4" "rd32 ?raw 8 = Some agent" "rd32 ?raw 12 = Some sub"
    "rd32 ?raw 16 = Some sq" "rd32 ?raw 20 = Some up" "rd32 ?raw 24 = Some (of_nat (length is))" "28 \<le> unat ?len"
    and items: "ahead ?raw (unat ?len) 28 (concat (map item_words is))"
    by (simp_all add: datagram_words_def)
  have "28 \<le> length ?raw" using w(7) by (simp add: rd32_def split: if_splits)
  moreover have "take 4 (drop 8 ?raw) = b32 agent" using key_word(2) [of ?raw 0 8 agent "length ?raw"] w(3) calculation by simp
  ultimately have addr: "rd_bytes ?raw 8 4 = Some (b32 agent)" by (simp add: rd_bytes_def)
  have n: "unat (of_nat (length is) :: u32) = length is"
    using length_items [of "is"] l u32_less [of ?len] by (subst unat_of_nat) (simp add: datagram_words_def)
  let ?t = "?s\<lparr>datap := 28, datagramVersion := 5,
    agent_addr := \<lparr>addr_type = SFLADDRESSTYPE_IP_V4, addr_bytes = b32 agent @ replicate 12 0\<rparr>,
    agentSubId := sub, sequenceNo := sq, sysUpTime := up\<rparr>"
  have "read_sflow_datagram ?s = samples_loop (length is) ?t"
    using w addr n
    by (simp add: read_sflow_datagram_def getData32_rd32 getAddress_def getData32_nobswap_def peek_def
      new_sample_def no_address_def copy_front_def Let_def)
  moreover obtain e where "samples_loop (length is) ?t =
      Value (?t\<lparr>elem := e, datap := datap ?t + 4 * length (concat (map item_words is)), elements := elements ?t @ results (datap ?t) is\<rparr>)"
    using samples_loop_items [of ?t "is"] items assms(1) by (auto simp: new_sample_def)
  moreover have "28 + 4 * length (concat (map item_words is)) = length (datagram_bytes agent sub sq up is)"
    by (simp add: datagram_bytes_def length_words datagram_words_def)
  ultimately show ?thesis by (simp add: new_sample_def)
qed

text \<open>
  C28: Expanded samples survive encoding and decoding. A datagram of version 5 that an agent with an IPv4 address builds from
  expanded flow samples, each with one record of a sampled IPv4 packet among records of kinds that are skipped, from expanded samples
  of generic interface counters and from samples of kinds that are skipped is
  decoded to exactly these samples, whatever lies behind it in the block. Raw packet headers and compact samples are not
  in the datagrams of this statement.
\<close>

theorem sflow_roundtrip:
  assumes "\<forall>i \<in> set is. item_ok i" "length (datagram_bytes agent sub sq up is) < 2 ^ 32"
  shows "\<exists>s. read_sflow_datagram (new_sample (datagram_bytes agent sub sq up is @ rest) (of_nat (length (datagram_bytes agent sub sq up is)))) =
      Value s \<and> elements s = results 28 is
    \<and> agent_addr s = \<lparr>addr_type = SFLADDRESSTYPE_IP_V4, addr_bytes = b32 agent @ replicate 12 0\<rparr>
    \<and> agentSubId s = sub \<and> sequenceNo s = sq \<and> sysUpTime s = up"
  using datagram_items [OF assms, of rest] by blast

definition demo_flow :: flow_item where
  "demo_flow =
     \<lparr>f_seq = 1, f_class = 0, f_index = 7, f_rate = 400, f_pool = 800, f_drops = 0, f_inf = 0, f_inp = 7, f_outf = 0,
      f_outp = 8, f_others = [(1001, [1, 2, 3, 4])], f_size = 60, f_proto = 6, f_src = 0x0A000001, f_dst = 0x0A000002,
      f_sport = 443, f_dport = 50000, f_flags = 16, f_tos = 0\<rparr>"

theorem sflow_roundtrip_witness:
  "\<exists>s. read_sflow_datagram (new_sample (datagram_bytes 1 0 5 9 [Flow demo_flow, Other 9 [7], Counters 2 0 7 no_counters]) 276) = Value s
    \<and> elements s = results 28 [Flow demo_flow, Other 9 [7], Counters 2 0 7 no_counters]"
proof -
  have "length (datagram_bytes 1 0 5 9 [Flow demo_flow, Other 9 [7], Counters 2 0 7 no_counters]) = 276"
    by (simp add: datagram_bytes_def datagram_words_def length_words demo_flow_def flow_others_def flow_head_def flow_key_def
      other_words_def counters_words_def)
  then show ?thesis
    using sflow_roundtrip [of "[Flow demo_flow, Other 9 [7], Counters 2 0 7 no_counters]" 1 0 5 9 "[]"]
    by (auto simp: demo_flow_def skipped_tag_def)
qed

lemma getAddress_moves:
  assumes "getAddress a s = Value (a', s')"
  shows "s' = s\<lparr>datap := datap s'\<rparr>" "datap s' \<le> endp s"
    "datap s' = datap s + (if rd32 (rawSample s) (datap s) = Some SFLADDRESSTYPE_IP_V4 then 8 else 20)"
proof -
  from assms obtain t s1 where 1: "getData32 s = Value (t, s1)" and 2: "(if t = SFLADDRESSTYPE_IP_V4 then
         bnd (getData32_nobswap s1) (\<lambda>(b, s). Value (\<lparr>addr_type = t, addr_bytes = copy_front b (addr_bytes a)\<rparr>, s))
       else
         bnd (skipBytes 16 s1) (\<lambda>s'. bnd (peek (rd_bytes (rawSample s1) (datap s1) 16)) (\<lambda>b.
           Value (\<lparr>addr_type = t, addr_bytes = b\<rparr>, s')))) = Value (a', s')"
    by (auto simp: getAddress_def bnd_Value)
  note g = getData32_Value [OF 1]
  have "s' = s\<lparr>datap := datap s'\<rparr> \<and> datap s' \<le> endp s \<and> datap s' = datap s + (if t = SFLADDRESSTYPE_IP_V4 then 8 else 20)"
  proof (cases "t = SFLADDRESSTYPE_IP_V4")
    case True
    then show ?thesis using 2 g by (auto simp: bnd_Value getData32_nobswap_def Let_def split: if_splits)
  next
    case False
    then have "skipBytes 16 s1 = Value s'" using 2 by (auto simp: bnd_Value)
    from skipBytes_Value [OF this] show ?thesis using g False by (simp add: unat_adjusted)
  qed
  then show "s' = s\<lparr>datap := datap s'\<rparr>" "datap s' \<le> endp s"
    "datap s' = datap s + (if rd32 (rawSample s) (datap s) = Some SFLADDRESSTYPE_IP_V4 then 8 else 20)"
    using g(3) by auto
qed

lemma datagram5_parts:
  assumes "read_sflow_datagram (new_sample block len) = Value s" "rd32 block 0 = Some 5"
  obtains a s1 sub s2 sq s3 up s4 n s5 where
    "getAddress no_address ((new_sample block len)\<lparr>datap := 4, datagramVersion := 5\<rparr>) = Value (a, s1)"
    "getData32 s1 = Value (sub, s2)" "getData32 s2 = Value (sq, s3)" "getData32 s3 = Value (up, s4)" "getData32 s4 = Value (n, s5)"
    "samples_loop (unat n) (s5\<lparr>agent_addr := a, agentSubId := sub, sequenceNo := sq, sysUpTime := up\<rparr>) = Value s"
proof -
  let ?s = "new_sample block len"
  from assms(1) obtain v s0 where 0: "getData32 (?s\<lparr>datap := 0\<rparr>) = Value (v, s0)"
    by (auto simp only: read_sflow_datagram_def bnd_Value)
  have v: "v = 5" and s0: "s0 = ?s\<lparr>datap := 4\<rparr>" using getData32_Value [OF 0] assms(2) by (simp_all add: new_sample_def)
  have "agent_addr s0 = no_address" by (simp add: s0 new_sample_def)
  then have "bnd (getAddress no_address (?s\<lparr>datap := 4, datagramVersion := 5\<rparr>)) (\<lambda>(a, s).
       bnd (getData32 s) (\<lambda>(sub, s). bnd (getData32 s) (\<lambda>(seqno, s). bnd (getData32 s) (\<lambda>(uptime, s).
       bnd (getData32 s) (\<lambda>(samplesInPacket, s).
         samples_loop (unat samplesInPacket)
           (s\<lparr>agent_addr := a, agentSubId := sub, sequenceNo := seqno, sysUpTime := uptime\<rparr>)))))) = Value s"
    using assms(1) by (simp add: read_sflow_datagram_def 0 v s0)
  then obtain a s1 where 1: "getAddress no_address (?s\<lparr>datap := 4, datagramVersion := 5\<rparr>) = Value (a, s1)"
    and r: "bnd (getData32 s1) (\<lambda>(sub, s). bnd (getData32 s) (\<lambda>(seqno, s). bnd (getData32 s) (\<lambda>(uptime, s).
       bnd (getData32 s) (\<lambda>(samplesInPacket, s).
         samples_loop (unat samplesInPacket)
           (s\<lparr>agent_addr := a, agentSubId := sub, sequenceNo := seqno, sysUpTime := uptime\<rparr>))))) = Value s"
    by (force simp: bnd_Value)
  from r obtain sub s2 where 2: "getData32 s1 = Value (sub, s2)"
    and r: "bnd (getData32 s2) (\<lambda>(seqno, s). bnd (getData32 s) (\<lambda>(uptime, s).
       bnd (getData32 s) (\<lambda>(samplesInPacket, s).
         samples_loop (unat samplesInPacket)
           (s\<lparr>agent_addr := a, agentSubId := sub, sequenceNo := seqno, sysUpTime := uptime\<rparr>)))) = Value s"
    by (force simp: bnd_Value)
  from r obtain sq s3 up s4 n s5 where "getData32 s2 = Value (sq, s3)" "getData32 s3 = Value (up, s4)"
    "getData32 s4 = Value (n, s5)"
    "samples_loop (unat n) (s5\<lparr>agent_addr := a, agentSubId := sub, sequenceNo := sq, sysUpTime := up\<rparr>) = Value s"
    by (force simp: bnd_Value)
  with 1 2 show thesis by (rule that)
qed

text \<open>
  C29: Every datagram of version 5 that is accepted is a row of frames, whatever the samples hold: as many as the
  header says, each a tag, a length, and the length rounded up to whole words; element \<open>i\<close> has the tag of
  frame \<open>i\<close>, and the last frame ends inside the datagram.
\<close>

theorem sflow_framing:
  assumes "read_sflow_datagram (new_sample block len) = Value s" "rd32 block 0 = Some 5"
    "p = (if rd32 block 4 = Some SFLADDRESSTYPE_IP_V4 then 28 else 40)"
  shows "rd32 block (p - 4) = Some (of_nat (length (elements s))) \<and> length (elements s) < 2 ^ 32
    \<and> frame_at block p (length (elements s)) \<le> unat len
    \<and> (\<forall>i < length (elements s). rd32 block (frame_at block p i) = Some (sampleType (elements s ! i)))"
  using assms(1,2)
proof (rule datagram5_parts)
  fix a s1 sub s2 sq s3 up s4 n s5
  assume 1: "getAddress no_address ((new_sample block len)\<lparr>datap := 4, datagramVersion := 5\<rparr>) = Value (a, s1)"
    and 2: "getData32 s1 = Value (sub, s2)" and 3: "getData32 s2 = Value (sq, s3)" and 4: "getData32 s3 = Value (up, s4)"
    and 5: "getData32 s4 = Value (n, s5)"
    and 6: "samples_loop (unat n) (s5\<lparr>agent_addr := a, agentSubId := sub, sequenceNo := sq, sysUpTime := up\<rparr>) = Value s"
  note ga = getAddress_moves [OF 1]
  have p: "datap s1 = p - 16" "16 \<le> p"
    using ga(3) assms(3) by (simp_all add: new_sample_def)
  have s1: "rawSample s1 = block" "rawSampleLen s1 = len" "datagramVersion s1 = 5" "elements s1 = []"
    by (subst ga(1), simp add: new_sample_def)+
  have s4: "s4 = s1\<lparr>datap := p - 4\<rparr>" and s5: "s5 = s1\<lparr>datap := p\<rparr>"
    using getData32_Value(1) [OF 2] getData32_Value(1) [OF 3] getData32_Value(1) [OF 4] getData32_Value(1) [OF 5] p
    by simp_all
  have n: "rd32 block (p - 4) = Some n" "p \<le> unat len"
    using getData32_Value(2,3) [OF 5] s1 p by (simp_all add: s4)
  from samples_loop_frames [OF 6] n(2) s1 s5 have "length (elements s) = unat n" "datap s = frame_at block p (unat n)"
    "datap s \<le> unat len" "\<forall>i < unat n. rd32 block (frame_at block p i) = Some (sampleType (elements s ! i))"
    by auto
  then show ?thesis using n(1) u32_less [of n] by simp
qed

theorem sflow_framing_witness:
  "\<exists>s. read_sflow_datagram (new_sample (datagram_bytes 1 0 5 9 [Flow demo_flow, Other 9 [7]]) 156) = Value s
    \<and> frame_at (datagram_bytes 1 0 5 9 [Flow demo_flow, Other 9 [7]]) 28 (length (elements s)) \<le> 156"
proof -
  let ?is = "[Flow demo_flow, Other 9 [7]]"
  have l: "length (datagram_bytes 1 0 5 9 ?is) = 156"
    by (simp add: datagram_bytes_def datagram_words_def length_words demo_flow_def flow_others_def flow_head_def flow_key_def
      other_words_def)
  obtain s where s: "read_sflow_datagram (new_sample (datagram_bytes 1 0 5 9 ?is) 156) = Value s"
    using datagram_items [of ?is 1 0 5 9 "[]"] l by (auto simp: demo_flow_def skipped_tag_def)
  have "ahead (datagram_bytes 1 0 5 9 ?is) 156 0 (datagram_words 1 0 5 9 ?is)"
    using ahead_words [of "[]" "datagram_words 1 0 5 9 ?is" 156 "[]"] l by (simp add: datagram_bytes_def length_words)
  then have "rd32 (datagram_bytes 1 0 5 9 ?is) 0 = Some 5" "rd32 (datagram_bytes 1 0 5 9 ?is) 4 = Some SFLADDRESSTYPE_IP_V4"
    by (simp_all add: datagram_words_def)
  then show ?thesis using sflow_framing [OF s] s by auto
qed

text \<open>
  A flow sample with two headers: an Ethernet frame with an IPv4 packet, and an empty token bus header, for
  which \<^verbatim>\<open>gotIPV4\<close> and the offset of the first are still set.
\<close>

definition stale_datagram :: "byte list" where
  "stale_datagram =
     concat (map b32 [5, 1, 1, 0, 1, 1, 1, 1, 116, 1, 0, 1, 1, 0, 0, 0, 2,
       1, 52, 1, 60, 0, 34])
     @ [2, 0, 0, 0, 0, 1, 2, 0, 0, 0, 0, 2, 8, 0,
        0x45, 0, 0, 40, 0, 1, 0, 1, 64, 6, 0, 0, 10, 0, 0, 1, 10, 0, 0, 2, 0, 0]
     @ concat (map b32 [1, 16, 2, 60, 0, 0])"

text \<open>
  The decoder reads behind the datagram, at the offset that the first header of the sample left behind: in a block
  that is 33 bytes longer than the datagram the read leaves the block, and in a longer one the
  addresses of the sample are bytes that the datagram does not have.
\<close>

theorem sflow_stale_offset:
  "read_sflow_datagram (new_sample (stale_datagram @ replicate 33 9) (of_nat (length stale_datagram))) = Undefined
   \<and> (case read_sflow_datagram (new_sample (stale_datagram @ replicate 34 9) (of_nat (length stale_datagram))) of
        Value s \<Rightarrow> map (take 4 \<circ> addr_bytes \<circ> ipsrc) (elements s) = [[9, 9, 9, 9]]
      | _ \<Rightarrow> False)"
proof
  show "read_sflow_datagram (new_sample (stale_datagram @ replicate 33 9) (of_nat (length stale_datagram))) = Undefined"
    by code_simp
  show "case read_sflow_datagram (new_sample (stale_datagram @ replicate 34 9) (of_nat (length stale_datagram))) of
        Value s \<Rightarrow> map (take 4 \<circ> addr_bytes \<circ> ipsrc) (elements s) = [[9, 9, 9, 9]]
      | _ \<Rightarrow> False"
    by code_simp
qed

end
