(* ===== verification/FrameSession.thy ===== *)
theory FrameSession
  imports Prelude
begin

text \<open>
  The frame stream of dnstap clients (\<^verbatim>\<open>src/inputs/dnstap/UnixFrameSession.h\<close>): socket data is
  collected in a buffer, data frames go to a callback and control frames drive a small state machine.

  The control frames themselves are decoded and encoded by the fstrm library and written by the
  socket library, which are parameters. A throw ends the session; it is the error of the result.
\<close>

subsection \<open>State\<close>

datatype frame_state = New | Ready | Running | Finishing

datatype control_type = START | READY | STOP | ACCEPT | FINISH

datatype session_error =
    StartOutOfOrder | ReadyAlreadyStarted | ContentTypeMismatch | UnableToSend control_type
  | FrameAfterStop | DataWithoutStart | DataFrameTooLarge | ControlFrameTooLarge | UnableToParseControl

text \<open>
  The libraries: decoding of a control frame to its type, whether its content types admit a given one (both on
  the bytes of the frame), encoding of a control frame with an optional content type, whether the next write succeeds
  after what has been written, and the two size limits.
\<close>

record fstrm =
  f_decode :: "byte list \<Rightarrow> control_type option"
  f_match_content_type :: "byte list \<Rightarrow> string \<Rightarrow> bool"
  f_encode :: "control_type \<Rightarrow> string option \<Rightarrow> byte list option"
  f_write :: "byte list list \<Rightarrow> byte list \<Rightarrow> bool"
  f_max_control :: nat
  f_max_frame :: nat

record session =
  content_type :: string
  buffer :: "byte list"
  is_bidir :: bool
  state :: frame_state
  delivered :: "byte list list"
  sent :: "byte list list"

definition new_session :: "string \<Rightarrow> session" where
  "new_session ct = \<lparr>content_type = ct, buffer = [], is_bidir = False, state = New, delivered = [], sent = []\<rparr>"

subsection \<open>Control frames\<close>

definition send_control_frame :: "fstrm \<Rightarrow> control_type \<Rightarrow> bool \<Rightarrow> session \<Rightarrow> session \<times> session_error option" where
  "send_control_frame lib ty with_content_type s =
     (case f_encode lib ty (if with_content_type then Some (content_type s) else None) of
        None \<Rightarrow> (s, Some (UnableToSend ty))
      | Some bs \<Rightarrow>
          if f_write lib (sent s) bs then (s\<lparr>sent := sent s @ [bs]\<rparr>, None) else (s, Some (UnableToSend ty)))"

definition decode_control_frame :: "fstrm \<Rightarrow> byte list \<Rightarrow> session \<Rightarrow> session \<times> (session_error + bool)" where
  "decode_control_frame lib frame s =
     (case f_decode lib frame of
        None \<Rightarrow> (s, Inr False)
      | Some START \<Rightarrow>
          if \<not> is_bidir s \<and> state s \<noteq> New \<or> is_bidir s \<and> state s \<noteq> Ready then (s, Inl StartOutOfOrder)
          else if \<not> f_match_content_type lib frame (content_type s) then (s, Inl ContentTypeMismatch)
          else (s\<lparr>state := Running\<rparr>, Inr True)
      | Some READY \<Rightarrow>
          if state s \<noteq> New then (s, Inl ReadyAlreadyStarted)
          else if \<not> f_match_content_type lib frame (content_type s) then (s, Inl ContentTypeMismatch)
          else
            (case send_control_frame lib ACCEPT True (s\<lparr>state := Ready, is_bidir := True\<rparr>) of
               (s', Some e) \<Rightarrow> (s', Inl e)
             | (s', None) \<Rightarrow> (s', Inr True))
      | Some STOP \<Rightarrow>
          if is_bidir s then
            (case send_control_frame lib FINISH False (s\<lparr>state := Finishing\<rparr>) of
               (s', Some e) \<Rightarrow> (s', Inl e)
             | (s', None) \<Rightarrow> (s', Inr True))
          else (s\<lparr>state := Finishing\<rparr>, Inr True)
      | Some ACCEPT \<Rightarrow> (s, Inr True)
      | Some FINISH \<Rightarrow> (s, Inr True))"

subsection \<open>Frames\<close>

definition frame_word :: "byte list \<Rightarrow> nat" where
  "frame_word bs = unat (be32 (bs ! 0) (bs ! 1) (bs ! 2) (bs ! 3))"

definition try_yield_frame :: "fstrm \<Rightarrow> session \<Rightarrow> nat \<Rightarrow> session \<times> nat \<times> (session_error + bool)" where
  "try_yield_frame lib s pos =
     (let frame = drop pos (buffer s); available = length (buffer s) - pos in
      if available < 4 then (s, pos, Inr False)
      else if state s = Finishing then (s, pos, Inl FrameAfterStop)
      else
        let frame_len = frame_word frame in
        if frame_len \<noteq> 0 then
          if state s \<noteq> Running then (s, pos, Inl DataWithoutStart)
          else if frame_len > f_max_frame lib then (s, pos, Inl DataFrameTooLarge)
          else if available \<ge> 4 + frame_len then
            let pos' = pos + 4 + frame_len in
            (s\<lparr>delivered := delivered s @ [take frame_len (drop 4 frame)]\<rparr>, pos', Inr (pos' < length (buffer s)))
          else (s, pos, Inr False)
        else if available < 8 then (s, pos, Inr False)
        else
          let ctrl_len = frame_word (drop 4 frame) in
          if ctrl_len > f_max_control lib then (s, pos, Inl ControlFrameTooLarge)
          else if available \<ge> 8 + ctrl_len then
            (case decode_control_frame lib (take ctrl_len (drop 8 frame)) s of
               (s', Inl e) \<Rightarrow> (s', pos, Inl e)
             | (s', Inr False) \<Rightarrow> (s', pos, Inl UnableToParseControl)
             | (s', Inr True) \<Rightarrow>
                 let pos' = pos + 8 + ctrl_len in (s', pos', Inr (pos' < length (buffer s))))
          else (s, pos, Inr False))"

lemma send_control_frame_buffer: "send_control_frame lib ty w s = (s', r) \<Longrightarrow> buffer s' = buffer s"
  by (auto simp: send_control_frame_def split: option.splits if_splits)

lemma decode_control_frame_buffer: "decode_control_frame lib frame s = (s', r) \<Longrightarrow> buffer s' = buffer s"
  by (auto simp: decode_control_frame_def split: option.splits control_type.splits if_splits prod.splits
      dest!: send_control_frame_buffer)

lemma try_yield_frame_progress:
  assumes "try_yield_frame lib s pos = (s', pos', r)"
  shows "buffer s' = buffer s" "r = Inr True \<Longrightarrow> pos < pos' \<and> pos' < length (buffer s)"
  using assms
  by (auto simp: try_yield_frame_def Let_def split: if_splits prod.splits sum.splits bool.splits dest: decode_control_frame_buffer)

lemma yield_measure:
  "try_yield_frame lib s pos = (s', pos', Inr True) \<Longrightarrow> length (buffer s') - pos' < length (buffer s) - pos"
  using try_yield_frame_progress [of lib s pos s' pos' "Inr True"] by (simp add: diff_less_mono2)

text \<open>The loop of \<^verbatim>\<open>receive_socket_data\<close>, with the position after it and the exception that ended it.\<close>

function yield_loop :: "fstrm \<Rightarrow> session \<Rightarrow> nat \<Rightarrow> session \<times> nat \<times> session_error option" where
  "yield_loop lib s pos =
     (case try_yield_frame lib s pos of
        (s', pos', r) \<Rightarrow>
          (case r of
             Inl e \<Rightarrow> (s', pos', Some e)
           | Inr True \<Rightarrow> yield_loop lib s' pos'
           | Inr False \<Rightarrow> (s', pos', None)))"
  by pat_completeness auto
termination
  by (relation "measure (\<lambda>(lib, s, pos). length (buffer s) - pos)")
    (auto dest!: yield_measure [OF sym])

declare yield_loop.simps [simp del]

definition receive_socket_data :: "fstrm \<Rightarrow> byte list \<Rightarrow> session \<Rightarrow> session \<times> session_error option" where
  "receive_socket_data lib data s =
     (case yield_loop lib (s\<lparr>buffer := buffer s @ data\<rparr>) 0 of
        (s', pos, Some e) \<Rightarrow> (s', Some e)
      | (s', pos, None) \<Rightarrow> (s'\<lparr>buffer := drop pos (buffer s')\<rparr>, None))"

subsection \<open>Consuming a stream\<close>

text \<open>
  The abstract view of a session: a stream is consumed frame by frame, and what is not a complete frame
  is left over. The state is kept with an empty buffer.
\<close>

datatype step = More | Stop session_error session | Took nat session

definition step_frame :: "fstrm \<Rightarrow> session \<Rightarrow> byte list \<Rightarrow> step" where
  "step_frame lib s rest =
     (case try_yield_frame lib (s\<lparr>buffer := rest\<rparr>) 0 of
        (s', n, Inl e) \<Rightarrow> Stop e (s'\<lparr>buffer := []\<rparr>)
      | (s', n, Inr _) \<Rightarrow> if n = 0 then More else Took n (s'\<lparr>buffer := []\<rparr>))"

lemma decode_control_frame_set_buffer:
  "decode_control_frame lib frame (s\<lparr>buffer := b\<rparr>) =
     (case decode_control_frame lib frame s of (s', r) \<Rightarrow> (s'\<lparr>buffer := b\<rparr>, r))"
proof (cases "f_decode lib frame")
  case (Some ty)
  then show ?thesis
    by (cases ty) (simp_all add: decode_control_frame_def send_control_frame_def split: option.split)
qed (simp add: decode_control_frame_def)

lemma try_yield_frame_shift:
  assumes "pos \<le> length (buffer s)"
  shows "try_yield_frame lib s pos =
    (case try_yield_frame lib (s\<lparr>buffer := drop pos (buffer s)\<rparr>) 0 of (s', n, r) \<Rightarrow> (s'\<lparr>buffer := buffer s\<rparr>, pos + n, r))"
proof -
  have "pos + n < length (buffer s) \<longleftrightarrow> n < length (buffer s) - pos" for n using assms by linarith
  moreover have "s'\<lparr>buffer := buffer s\<rparr> = s'" if "decode_control_frame lib f s = (s', r)" for f s' r
    using decode_control_frame_buffer [OF that] by simp
  ultimately show ?thesis
    by (auto simp: try_yield_frame_def Let_def decode_control_frame_set_buffer add.assoc split: prod.split sum.split bool.split)
qed

lemma step_frame_set_buffer [simp]: "step_frame lib (s\<lparr>buffer := b\<rparr>) rest = step_frame lib s rest"
  by (simp add: step_frame_def)

text \<open>Once a frame is consumed or refused, the bytes after it do not matter.\<close>

lemma frame_word_append: "4 \<le> length bs \<Longrightarrow> frame_word (bs @ x) = frame_word bs"
  by (auto simp: frame_word_def nth_append)

lemma step_frame_append:
  assumes "step_frame lib s a \<noteq> More"
  shows "step_frame lib s (a @ b) = step_frame lib s a"
proof -
  have four: "\<not> length a < 4" using assms by (auto simp: step_frame_def try_yield_frame_def split: if_splits)
  then have w: "frame_word (a @ b) = frame_word a" by (simp add: frame_word_append)
  show ?thesis
  proof (cases "frame_word a = 0")
    case False
    then show ?thesis using assms four w
      by (auto simp: step_frame_def try_yield_frame_def Let_def split: if_splits)
  next
    case True
    show ?thesis
    proof (cases "state s = Finishing")
      case False
      then have eight: "\<not> length a < 8" using assms four True
        by (auto simp: step_frame_def try_yield_frame_def Let_def split: if_splits)
      then have w4: "frame_word (drop 4 a @ b) = frame_word (drop 4 a)" by (simp add: frame_word_append)
      let ?n = "frame_word (drop 4 a)"
      show ?thesis
      proof (cases "?n > f_max_control lib")
        case True
        then show ?thesis using four eight w w4 False \<open>frame_word a = 0\<close> by (simp add: step_frame_def try_yield_frame_def Let_def)
      next
        case small: False
        have fit: "8 + ?n \<le> length a" using assms four eight False small True
          by (auto simp: step_frame_def try_yield_frame_def Let_def split: if_splits)
        then show ?thesis using four eight w w4 False small True
          by (simp add: step_frame_def try_yield_frame_def Let_def decode_control_frame_set_buffer split: prod.split sum.split bool.split)
      qed
    qed (use assms four w True in \<open>simp add: step_frame_def try_yield_frame_def\<close>)
  qed
qed

lemma step_frame_took:
  assumes "step_frame lib s a = Took n s'"
  shows "0 < n" "n \<le> length a" "buffer s' = []"
  using assms
  by (auto simp: step_frame_def try_yield_frame_def Let_def split: if_splits prod.splits sum.splits bool.splits)

lemma step_frame_shrinks: "step_frame lib s a = Took n s' \<Longrightarrow> length (drop n a) < length a"
  using step_frame_took [of lib s a n s'] by simp

function run :: "fstrm \<Rightarrow> session \<Rightarrow> byte list \<Rightarrow> session \<times> byte list \<times> session_error option" where
  "run lib s rest =
     (case step_frame lib s rest of
        More \<Rightarrow> (s, rest, None)
      | Stop e s' \<Rightarrow> (s', rest, Some e)
      | Took n s' \<Rightarrow> run lib s' (drop n rest))"
  by pat_completeness auto
termination
  by (relation "measure (\<lambda>(lib, s, rest). length rest)") (auto dest: step_frame_shrinks)

declare run.simps [simp del]

lemma run_append:
  "run lib s (a @ b) =
     (case run lib s a of (s', r, None) \<Rightarrow> run lib s' (r @ b) | (s', r, Some e) \<Rightarrow> (s', r @ b, Some e))"
proof (induction lib s a rule: run.induct)
  case (1 lib s a)
  show ?case
  proof (cases "step_frame lib s a")
    case More
    then show ?thesis by (simp add: run.simps [of lib s a])
  next
    case (Stop e s')
    then show ?thesis using step_frame_append [of lib s a b] by (simp add: run.simps [of lib s])
  next
    case (Took n s')
    then show ?thesis using step_frame_append [of lib s a b] step_frame_took [OF Took] 1 [OF Took]
      by (simp add: run.simps [of lib s])
  qed
qed

lemma run_suffix: "run lib s a = (s', r, e) \<Longrightarrow> \<exists>p. a = p @ r"
proof (induction lib s a arbitrary: s' r e rule: run.induct)
  case (1 lib s a)
  show ?case
  proof (cases "step_frame lib s a")
    case (Took n s1)
    then have "run lib s1 (drop n a) = (s', r, e)" using "1.prems" by (simp add: run.simps [of lib s a])
    from "1.IH" [OF Took this] obtain p where "drop n a = p @ r" by blast
    then have "a = (take n a @ p) @ r" by (metis append_assoc append_take_drop_id)
    then show ?thesis ..
  qed (use "1.prems" in \<open>simp_all add: run.simps [of lib s a]\<close>)
qed

lemma try_yield_frame_start:
  assumes "try_yield_frame lib s 0 = (s', n, r)"
  shows "r = Inl e \<Longrightarrow> n = 0" "r = Inr b \<Longrightarrow> n = 0 \<Longrightarrow> s' = s \<and> \<not> b"
    "r = Inr b \<Longrightarrow> 0 < n \<Longrightarrow> b = (n < length (buffer s))"
  using assms
  by (auto simp: try_yield_frame_def Let_def split: if_splits prod.splits sum.splits bool.splits)

lemma step_frame_Nil [simp]: "step_frame lib s [] = More"
  by (simp add: step_frame_def try_yield_frame_def)

text \<open>The loop over the positions of the buffer runs the stream from the position on.\<close>

lemma yield_loop_run:
  assumes "pos \<le> length (buffer s)" "run lib (s\<lparr>buffer := []\<rparr>) (drop pos (buffer s)) = (s', r, e)"
  shows "yield_loop lib s pos = (s'\<lparr>buffer := buffer s\<rparr>, length (buffer s) - length r, e)"
  using assms
proof (induction lib s pos arbitrary: s' r e rule: yield_loop.induct)
  case (1 lib s pos)
  let ?rest = "drop pos (buffer s)"
  obtain s1 n x where t: "try_yield_frame lib (s\<lparr>buffer := ?rest\<rparr>) 0 = (s1, n, x)" by (cases "try_yield_frame lib (s\<lparr>buffer := ?rest\<rparr>) 0")
  have y: "try_yield_frame lib s pos = (s1\<lparr>buffer := buffer s\<rparr>, pos + n, x)"
    using try_yield_frame_shift [OF "1.prems"(1), of lib] t by simp
  have buf: "buffer s1 = ?rest" using try_yield_frame_progress(1) [OF t] by simp
  show ?case
  proof (cases x)
    case (Inl err)
    then have "step_frame lib s ?rest = Stop err (s1\<lparr>buffer := []\<rparr>)" by (simp add: step_frame_def t)
    then have "s' = s1\<lparr>buffer := []\<rparr>" "r = ?rest" "e = Some err" using "1.prems"(2) by (simp_all add: run.simps [of lib _ ?rest])
    moreover have "n = 0" using try_yield_frame_start(1) [OF t] Inl by simp
    ultimately show ?thesis using "1.prems"(1) y Inl by (simp add: yield_loop.simps [of lib s pos])
  next
    case (Inr more)
    show ?thesis
    proof (cases "n = 0")
      case True
      then have s1: "s1 = s\<lparr>buffer := ?rest\<rparr>" "\<not> more" using try_yield_frame_start(2) [OF t Inr] by auto
      have "step_frame lib s ?rest = More" using Inr True by (simp add: step_frame_def t)
      then have "s' = s\<lparr>buffer := []\<rparr>" "r = ?rest" "e = None" using "1.prems"(2) by (simp_all add: run.simps [of lib _ ?rest])
      then show ?thesis using "1.prems"(1) y Inr s1 True by (subst yield_loop.simps) simp
    next
      case False
      then have took: "step_frame lib s ?rest = Took n (s1\<lparr>buffer := []\<rparr>)" using Inr by (simp add: step_frame_def t)
      then have le: "n \<le> length ?rest" by (rule step_frame_took)
      have run: "run lib (s1\<lparr>buffer := []\<rparr>) (drop (pos + n) (buffer s)) = (s', r, e)"
        using took "1.prems"(2) by (simp add: run.simps [of lib _ ?rest] add.commute)
      have more: "more = (n < length ?rest)" using try_yield_frame_start(3) [OF t Inr] False by simp
      show ?thesis
      proof (cases more)
        case True
        have "yield_loop lib (s1\<lparr>buffer := buffer s\<rparr>) (pos + n) =
            (s'\<lparr>buffer := buffer (s1\<lparr>buffer := buffer s\<rparr>)\<rparr>, length (buffer (s1\<lparr>buffer := buffer s\<rparr>)) - length r, e)"
          by (rule "1.IH" [OF y [symmetric] refl Inr eqTrueI [OF True]]) (use le "1.prems"(1) run in simp_all)
        then show ?thesis using y Inr True by (simp add: yield_loop.simps [of lib s pos])
      next
        case False
        then have "drop (pos + n) (buffer s) = []" "pos + n = length (buffer s)" using more le "1.prems"(1) by auto
        then have "s' = s1\<lparr>buffer := []\<rparr>" "r = []" "e = None" using run by (simp_all add: run.simps)
        then show ?thesis using y Inr False \<open>pos + n = length (buffer s)\<close> by (simp add: yield_loop.simps [of lib s pos])
      qed
    qed
  qed
qed

lemma receive_socket_data_run:
  "receive_socket_data lib data s =
     (case run lib (s\<lparr>buffer := []\<rparr>) (buffer s @ data) of
        (s', r, None) \<Rightarrow> (s'\<lparr>buffer := r\<rparr>, None)
      | (s', r, Some e) \<Rightarrow> (s'\<lparr>buffer := buffer s @ data\<rparr>, Some e))"
proof -
  obtain s' r e where run: "run lib (s\<lparr>buffer := []\<rparr>) (buffer s @ data) = (s', r, e)"
    by (cases "run lib (s\<lparr>buffer := []\<rparr>) (buffer s @ data)")
  obtain p where "buffer s @ data = p @ r" using run_suffix [OF run] by blast
  then have "drop (length (buffer s @ data) - length r) (buffer s @ data) = r" by simp
  moreover have "yield_loop lib (s\<lparr>buffer := buffer s @ data\<rparr>) 0 =
      (s'\<lparr>buffer := buffer s @ data\<rparr>, length (buffer s @ data) - length r, e)"
    using yield_loop_run [of 0 "s\<lparr>buffer := buffer s @ data\<rparr>" lib s' r e] run by simp
  ultimately show ?thesis by (simp add: receive_socket_data_def run split: option.split)
qed

text \<open>The reads of a connection one after the other, up to the one that throws.\<close>

fun receive_all :: "fstrm \<Rightarrow> byte list list \<Rightarrow> session \<Rightarrow> session \<times> session_error option" where
  "receive_all lib [] s = (s, None)"
| "receive_all lib (d # ds) s =
     (case receive_socket_data lib d s of
        (s', Some e) \<Rightarrow> (s', Some e)
      | (s', None) \<Rightarrow> receive_all lib ds s')"

lemma step_frame_Stop_buffer: "step_frame lib s a = Stop e s' \<Longrightarrow> buffer s' = []"
  by (auto simp: step_frame_def split: prod.splits sum.splits if_splits)

lemma run_end:
  assumes "run lib s a = (s', r, e)" "buffer s = []"
  shows "buffer s' = [] \<and> (e = None \<longrightarrow> run lib s' r = (s', r, None))"
  using assms
proof (induction lib s a arbitrary: s' r e rule: run.induct)
  case (1 lib s a)
  show ?case
  proof (cases "step_frame lib s a")
    case More
    then have "s' = s" "r = a" "e = None" using "1.prems"(1) by (simp_all add: run.simps [of lib s a])
    then show ?thesis using More "1.prems"(2) by (simp add: run.simps [of lib s a])
  next
    case (Stop err s1)
    then have "s' = s1" "e = Some err" using "1.prems"(1) by (simp_all add: run.simps [of lib s a])
    then show ?thesis using step_frame_Stop_buffer [OF Stop] by simp
  next
    case (Took n s1)
    then have "run lib s1 (drop n a) = (s', r, e)" using "1.prems"(1) by (simp add: run.simps [of lib s a])
    then show ?thesis using "1.IH" [OF Took] step_frame_took(3) [OF Took] by simp
  qed
qed

lemma receive_all_run:
  assumes "run lib (s\<lparr>buffer := []\<rparr>) (buffer s @ concat ds) = (s', r, e)" "ds \<noteq> []"
  shows "\<exists>b. receive_all lib ds s = (s'\<lparr>buffer := b\<rparr>, e) \<and> (e = None \<longrightarrow> b = r)"
  using assms
proof (induction ds arbitrary: s)
  case (Cons d ds)
  obtain s1 r1 e1 where run: "run lib (s\<lparr>buffer := []\<rparr>) (buffer s @ d) = (s1, r1, e1)"
    by (cases "run lib (s\<lparr>buffer := []\<rparr>) (buffer s @ d)")
  have b1: "buffer s1 = []" and settled: "e1 = None \<longrightarrow> run lib s1 r1 = (s1, r1, None)"
    using run_end [OF run] by simp_all
  have all: "(case (s1, r1, e1) of (s', r, None) \<Rightarrow> run lib s' (r @ concat ds) | (s', r, Some e) \<Rightarrow> (s', r @ concat ds, Some e)) = (s', r, e)"
    using Cons.prems(1) run_append [of lib "s\<lparr>buffer := []\<rparr>" "buffer s @ d" "concat ds", unfolded run] by simp
  show ?case
  proof (cases e1)
    case (Some err)
    then have "s' = s1" "e = Some err" using all by simp_all
    then show ?thesis using run Some by (simp add: receive_socket_data_run) blast
  next
    case None
    then have rest: "run lib s1 (r1 @ concat ds) = (s', r, e)" using all by simp
    have recv: "receive_socket_data lib d s = (s1\<lparr>buffer := r1\<rparr>, None)" using run None by (simp add: receive_socket_data_run)
    show ?thesis
    proof (cases ds)
      case Nil
      then have "s' = s1" "r = r1" "e = None" using rest settled None by simp_all
      then show ?thesis using recv Nil by simp
    next
      case (Cons d' ds')
      have "s1\<lparr>buffer := []\<rparr> = s1" using b1 by simp
      then show ?thesis using Cons.IH [of "s1\<lparr>buffer := r1\<rparr>"] rest recv Cons by simp
    qed
  qed
qed simp

subsection \<open>The control protocol\<close>

text \<open>
  What the peer has been sent: nothing, an ACCEPT, or an ACCEPT and then a FINISH, the latter only
  after a STOP; and what was delivered. Without an error, a session is bidirectional exactly if it sent
  something.
\<close>

definition sent_ok :: "fstrm \<Rightarrow> session \<Rightarrow> bool" where
  "sent_ok lib s \<longleftrightarrow>
     sent s = []
     \<or> (\<exists>a. f_encode lib ACCEPT (Some (content_type s)) = Some a \<and> is_bidir s
         \<and> (sent s = [a] \<or> (\<exists>f. f_encode lib FINISH None = Some f \<and> sent s = [a, f] \<and> state s = Finishing)))"

definition session_safe :: "fstrm \<Rightarrow> session \<Rightarrow> bool" where
  "session_safe lib s \<longleftrightarrow>
     sent_ok lib s \<and> (state s = New \<or> state s = Ready \<longrightarrow> delivered s = [])
     \<and> (\<forall>d \<in> set (delivered s). 0 < length d \<and> length d \<le> f_max_frame lib)"

definition session_ok :: "fstrm \<Rightarrow> session \<Rightarrow> bool" where
  "session_ok lib s \<longleftrightarrow>
     session_safe lib s \<and> (is_bidir s \<longleftrightarrow> sent s \<noteq> []) \<and> (length (sent s) = 2 \<longrightarrow> state s = Finishing)
     \<and> (state s = New \<longrightarrow> \<not> is_bidir s) \<and> (state s = Ready \<longrightarrow> is_bidir s)"

lemma decode_START:
  assumes "f_decode lib frame = Some START" "decode_control_frame lib frame s = (s', r)"
  shows "(s' = s \<and> r \<noteq> Inr True) \<or> ((state s = New \<or> state s = Ready) \<and> s' = s\<lparr>state := Running\<rparr>)"
proof (cases "\<not> is_bidir s \<and> state s \<noteq> New \<or> is_bidir s \<and> state s \<noteq> Ready")
  case True
  then have "decode_control_frame lib frame s = (s, Inl StartOutOfOrder)"
    using assms(1) by (simp add: decode_control_frame_def)
  then show ?thesis using assms(2) by simp
next
  case False
  show ?thesis
  proof (cases "f_match_content_type lib frame (content_type s)")
    case True
    then have "decode_control_frame lib frame s = (s\<lparr>state := Running\<rparr>, Inr True)"
      using assms(1) False by (simp add: decode_control_frame_def)
    then show ?thesis using assms(2) False by auto
  next
    case no: False
    then have "decode_control_frame lib frame s = (s, Inl ContentTypeMismatch)"
      using assms(1) False by (simp add: decode_control_frame_def)
    then show ?thesis using assms(2) by simp
  qed
qed

lemma send_control_frame_result:
  assumes "send_control_frame lib ty w s = (s', e)"
  obtains "s' = s" "e = Some (UnableToSend ty)"
    | bs where "f_encode lib ty (if w then Some (content_type s) else None) = Some bs" "s' = s\<lparr>sent := sent s @ [bs]\<rparr>" "e = None"
proof (cases "f_encode lib ty (if w then Some (content_type s) else None)")
  case None
  then have "send_control_frame lib ty w s = (s, Some (UnableToSend ty))" by (simp add: send_control_frame_def)
  then show thesis using assms that(1) by simp
next
  case (Some bs)
  then have "send_control_frame lib ty w s =
      (if f_write lib (sent s) bs then (s\<lparr>sent := sent s @ [bs]\<rparr>, None) else (s, Some (UnableToSend ty)))"
    by (simp add: send_control_frame_def)
  then show thesis using assms that Some by (cases "f_write lib (sent s) bs") simp_all
qed

lemma decode_READY:
  assumes "f_decode lib frame = Some READY" "decode_control_frame lib frame s = (s', r)"
  obtains "s' = s" "r \<noteq> Inr True"
    | "state s = New" "s' = s\<lparr>state := Ready, is_bidir := True\<rparr>" "r \<noteq> Inr True"
    | a where "state s = New" "f_encode lib ACCEPT (Some (content_type s)) = Some a"
        "s' = s\<lparr>state := Ready, is_bidir := True, sent := sent s @ [a]\<rparr>"
proof (cases "state s \<noteq> New \<or> \<not> f_match_content_type lib frame (content_type s)")
  case True
  then have "\<exists>e. decode_control_frame lib frame s = (s, Inl e)"
    using assms(1) by (cases "state s \<noteq> New") (simp_all add: decode_control_frame_def)
  then show thesis using assms(2) that(1) by auto
next
  case False
  obtain s1 e where r: "send_control_frame lib ACCEPT True (s\<lparr>state := Ready, is_bidir := True\<rparr>) = (s1, e)"
    by fastforce
  have d: "decode_control_frame lib frame s = (s1, case e of Some e \<Rightarrow> Inl e | None \<Rightarrow> Inr True)"
    using assms(1) False r by (simp add: decode_control_frame_def split: option.split)
  from r show thesis
  proof (cases rule: send_control_frame_result)
    case 1
    then show thesis using that(2) d assms(2) False by simp
  next
    case (2 bs)
    then show thesis using that(3) [of bs] d assms(2) False by simp
  qed
qed

lemma decode_STOP:
  assumes "f_decode lib frame = Some STOP" "decode_control_frame lib frame s = (s', r)"
  obtains "\<not> is_bidir s" "s' = s\<lparr>state := Finishing\<rparr>"
    | "is_bidir s" "s' = s\<lparr>state := Finishing\<rparr>" "r \<noteq> Inr True"
    | f where "is_bidir s" "f_encode lib FINISH None = Some f" "s' = s\<lparr>state := Finishing, sent := sent s @ [f]\<rparr>"
proof (cases "is_bidir s")
  case False
  then have "decode_control_frame lib frame s = (s\<lparr>state := Finishing\<rparr>, Inr True)"
    using assms(1) by (simp add: decode_control_frame_def)
  then show thesis using assms(2) that(1) False by simp
next
  case True
  obtain s1 e where r: "send_control_frame lib FINISH False (s\<lparr>state := Finishing\<rparr>) = (s1, e)"
    by fastforce
  have d: "decode_control_frame lib frame s = (s1, case e of Some e \<Rightarrow> Inl e | None \<Rightarrow> Inr True)"
    using assms(1) True r by (simp add: decode_control_frame_def split: option.split)
  from r show thesis
  proof (cases rule: send_control_frame_result)
    case 1
    then show thesis using that(2) d assms(2) True by simp
  next
    case (2 bs)
    then show thesis using that(3) [of bs] d assms(2) True by simp
  qed
qed

lemma decode_control_frame_safe:
  assumes "decode_control_frame lib frame s = (s', r)" "session_ok lib s" "state s \<noteq> Finishing"
  shows "session_safe lib s'" "r = Inr True \<Longrightarrow> session_ok lib s'"
proof -
  have one: "sent s = [] \<or> (\<exists>a. f_encode lib ACCEPT (Some (content_type s)) = Some a \<and> is_bidir s \<and> sent s = [a])"
    using assms(2,3) by (auto simp: session_ok_def session_safe_def sent_ok_def)
  have "session_safe lib s' \<and> (r = Inr True \<longrightarrow> session_ok lib s')"
  proof (cases "f_decode lib frame")
    case None
    then show ?thesis using assms by (auto simp: decode_control_frame_def session_ok_def)
  next
    case (Some ty)
    show ?thesis
    proof (cases ty)
      case START
      consider "s' = s" "r \<noteq> Inr True" | "state s = New \<or> state s = Ready" "s' = s\<lparr>state := Running\<rparr>"
        using decode_START Some START assms(1) by blast
      then show ?thesis
      proof cases
        case 1
        then show ?thesis using assms(2) by (simp add: session_ok_def)
      next
        case 2
        then have "delivered s = []" "length (sent s) \<noteq> 2" using assms(2) one by (auto simp: session_ok_def session_safe_def)
        then show ?thesis using 2 one assms(2) by (auto simp: session_ok_def session_safe_def sent_ok_def)
      qed
    next
      case READY
      with Some have "f_decode lib frame = Some READY" by simp
      then show ?thesis using assms(1)
      proof (cases rule: decode_READY)
        case 1
        then show ?thesis using assms(2) by (simp add: session_ok_def)
      next
        case 2
        then show ?thesis using assms(2) by (auto simp: session_ok_def session_safe_def sent_ok_def)
      next
        case 3
        then have "sent s = []" "delivered s = []" using assms(2) by (auto simp: session_ok_def session_safe_def)
        then show ?thesis using 3 by (simp add: session_ok_def session_safe_def sent_ok_def)
      qed
    next
      case STOP
      with Some have "f_decode lib frame = Some STOP" by simp
      then show ?thesis using assms(1)
      proof (cases rule: decode_STOP)
        case 1
        then show ?thesis using assms(2) by (auto simp: session_ok_def session_safe_def sent_ok_def)
      next
        case 2
        then show ?thesis using one assms(2) by (auto simp: session_ok_def session_safe_def sent_ok_def)
      next
        case 3
        then obtain a where "f_encode lib ACCEPT (Some (content_type s)) = Some a" "sent s = [a]"
          using one assms(2) by (auto simp: session_ok_def)
        then show ?thesis using 3 assms(2) by (simp add: session_ok_def session_safe_def sent_ok_def)
      qed
    qed (use Some assms in \<open>auto simp: decode_control_frame_def session_ok_def\<close>)
  qed
  then show "session_safe lib s'" "r = Inr True \<Longrightarrow> session_ok lib s'" by auto
qed

lemma session_buffer [simp]:
  "session_ok lib (s\<lparr>buffer := b\<rparr>) = session_ok lib s" "session_safe lib (s\<lparr>buffer := b\<rparr>) = session_safe lib s"
  by (simp_all add: session_ok_def session_safe_def sent_ok_def)

lemma step_frame_safe:
  assumes "session_ok lib s"
  shows "step_frame lib s a = Stop e s' \<Longrightarrow> session_safe lib s'" "step_frame lib s a = Took n s' \<Longrightarrow> session_ok lib s'"
proof -
  obtain s1 m r where t: "try_yield_frame lib (s\<lparr>buffer := a\<rparr>) 0 = (s1, m, r)" by (cases "try_yield_frame lib (s\<lparr>buffer := a\<rparr>) 0")
  have ok: "session_ok lib (s\<lparr>buffer := a\<rparr>)" using assms by simp
  have safe: "session_safe lib (s\<lparr>buffer := a\<rparr>)" using ok by (simp only: session_ok_def)
  have "session_safe lib s1 \<and> (\<forall>b. r = Inr b \<longrightarrow> session_ok lib s1)"
  proof (cases "state s = Finishing \<or> length a < 4")
    case True
    then show ?thesis using t ok safe by (auto simp: try_yield_frame_def Let_def split: if_splits)
  next
    case running: False
    show ?thesis
    proof (cases "frame_word a = 0")
      case False
      consider "s1 = s\<lparr>buffer := a\<rparr>"
        | d where "state s = Running" "s1 = s\<lparr>buffer := a, delivered := delivered s @ [d]\<rparr>" "0 < length d" "length d \<le> f_max_frame lib"
        using t running False by (auto simp: try_yield_frame_def Let_def split: if_splits)
      then show ?thesis
      proof cases
        case 1
        then show ?thesis using ok safe by simp
      next
        case 2
        then show ?thesis using assms by (auto simp: session_ok_def session_safe_def sent_ok_def)
      qed
    next
      case True
      consider "s1 = s\<lparr>buffer := a\<rparr>"
        | frame q where "decode_control_frame lib frame (s\<lparr>buffer := a\<rparr>) = (s1, q)" "\<forall>b. r = Inr b \<longrightarrow> q = Inr True"
        using t running True
        by (auto simp: try_yield_frame_def Let_def split: if_splits prod.splits sum.splits bool.splits)
      then show ?thesis
      proof cases
        case 1
        then show ?thesis using ok safe by simp
      next
        case 2
        have fin: "state (s\<lparr>buffer := a\<rparr>) \<noteq> Finishing" using running by simp
        show ?thesis using decode_control_frame_safe [OF 2(1) ok fin] 2(2) by auto
      qed
    qed
  qed
  then show "step_frame lib s a = Stop e s' \<Longrightarrow> session_safe lib s'" "step_frame lib s a = Took n s' \<Longrightarrow> session_ok lib s'"
    by (auto simp: step_frame_def t split: sum.splits if_splits)
qed

lemma run_safe:
  assumes "run lib s a = (s', r, e)" "session_ok lib s"
  shows "session_safe lib s' \<and> (e = None \<longrightarrow> session_ok lib s')"
  using assms
proof (induction lib s a arbitrary: s' r e rule: run.induct)
  case (1 lib s a)
  show ?case
  proof (cases "step_frame lib s a")
    case More
    then show ?thesis using "1.prems" by (auto simp: run.simps [of lib s a] session_ok_def)
  next
    case (Stop err s1)
    then have "s' = s1" "e = Some err" using "1.prems"(1) by (simp_all add: run.simps [of lib s a])
    then show ?thesis using step_frame_safe(1) [OF "1.prems"(2) Stop] by simp
  next
    case (Took n s1)
    then have "run lib s1 (drop n a) = (s', r, e)" using "1.prems"(1) by (simp add: run.simps [of lib s a])
    then show ?thesis using "1.IH" [OF Took] step_frame_safe(2) [OF "1.prems"(2) Took] by blast
  qed
qed

subsection \<open>Properties\<close>

text \<open>
  C31: What a session does with a stream does not depend on how the stream is cut into reads: one read
  after the other, up to the first error, gives the same frames delivered, the same control frames sent,
  the same state and the same error as one read of all of it, and without an error the same bytes left in
  the buffer.
\<close>

theorem reads_do_not_matter:
  "case (receive_all lib ds (new_session ct), receive_socket_data lib (concat ds) (new_session ct)) of
     ((s1, e1), (s2, e2)) \<Rightarrow> e1 = e2 \<and> (if e1 = None then s1 = s2 else s1\<lparr>buffer := []\<rparr> = s2\<lparr>buffer := []\<rparr>)"
proof (cases "ds = []")
  case True
  have "run lib (new_session ct) [] = (new_session ct, [], None)" by (simp add: run.simps)
  then show ?thesis using True by (simp add: receive_socket_data_run new_session_def)
next
  case False
  obtain s' r e where run: "run lib ((new_session ct)\<lparr>buffer := []\<rparr>) (buffer (new_session ct) @ concat ds) = (s', r, e)"
    by (cases "run lib ((new_session ct)\<lparr>buffer := []\<rparr>) (buffer (new_session ct) @ concat ds)")
  obtain b where "receive_all lib ds (new_session ct) = (s'\<lparr>buffer := b\<rparr>, e)" "e = None \<longrightarrow> b = r"
    using receive_all_run [OF run False] by blast
  then show ?thesis by (simp add: receive_socket_data_run run split: option.split)
qed

text \<open>
  C32: After any reads, with or without an error, the peer has been sent nothing, the ACCEPT, or the ACCEPT and
  then the FINISH, and the FINISH only after a STOP; nothing was delivered before a START, and every
  frame delivered has a length from one to the limit. Without an error, a session has sent something
  exactly if it is bidirectional.
\<close>

theorem session_protocol:
  assumes "receive_all lib ds (new_session ct) = (s, e)"
  shows "session_safe lib s \<and> (e = None \<longrightarrow> (is_bidir s \<longleftrightarrow> sent s \<noteq> []))"
proof (cases "ds = []")
  case True
  then show ?thesis using assms by (auto simp: new_session_def session_safe_def sent_ok_def)
next
  case False
  have ok: "session_ok lib ((new_session ct)\<lparr>buffer := []\<rparr>)"
    by (simp add: new_session_def session_ok_def session_safe_def sent_ok_def)
  obtain s' r e' where run: "run lib ((new_session ct)\<lparr>buffer := []\<rparr>) (buffer (new_session ct) @ concat ds) = (s', r, e')"
    by (cases "run lib ((new_session ct)\<lparr>buffer := []\<rparr>) (buffer (new_session ct) @ concat ds)")
  obtain b where "s = s'\<lparr>buffer := b\<rparr>" "e = e'"
    using receive_all_run [OF run False] assms by auto
  then show ?thesis using run_safe [OF run ok] by (auto simp: session_ok_def)
qed

text \<open>A session with a library whose control frames are one byte, and a read that has a READY frame.\<close>

definition demo_fstrm :: fstrm where
  "demo_fstrm =
     \<lparr>f_decode = (\<lambda>f. if f = [1] then Some READY else None),
      f_match_content_type = (\<lambda>_ _. True), f_encode = (\<lambda>ty _. Some [if ty = ACCEPT then 4 else 5]),
      f_write = (\<lambda>_ _. True), f_max_control = 512, f_max_frame = 1048576\<rparr>"

theorem session_protocol_witness:
  "session_safe demo_fstrm \<lparr>content_type = ''ct'', buffer = [], is_bidir = True, state = Ready, delivered = [], sent = [[4]]\<rparr>"
proof -
  have "yield_loop demo_fstrm ((new_session ''ct'')\<lparr>buffer := [0, 0, 0, 0, 0, 0, 0, 1, 1]\<rparr>) 0 =
      (\<lparr>content_type = ''ct'', buffer = [0, 0, 0, 0, 0, 0, 0, 1, 1], is_bidir = True, state = Ready, delivered = [], sent = [[4]]\<rparr>, 9, None)"
    by (subst yield_loop.simps)
      (simp add: new_session_def demo_fstrm_def try_yield_frame_def
        decode_control_frame_def send_control_frame_def frame_word_def be32_def)
  then have "receive_socket_data demo_fstrm [0, 0, 0, 0, 0, 0, 0, 1, 1] (new_session ''ct'') =
      (\<lparr>content_type = ''ct'', buffer = [], is_bidir = True, state = Ready, delivered = [], sent = [[4]]\<rparr>, None)"
    by (simp add: receive_socket_data_def new_session_def)
  then show ?thesis
    using session_protocol [of demo_fstrm "[[0, 0, 0, 0, 0, 0, 0, 1, 1]]" "''ct''"] by simp
qed

end
