(* ===== verification/Configurable.thy ===== *)
theory Configurable
  imports Prelude "HOL-Library.Multiset"
begin

text \<open>
  Configurations (\<^verbatim>\<open>src/Configurable.h\<close>): a map from names to strings, numbers, flags, lists of strings
  and nested configurations, filled from YAML.

  A YAML node is a tree; what the YAML library makes of a scalar, its text, its number or
  its flag, is a parameter \<open>yaml_lib\<close>. Likewise \<^verbatim>\<open>std::hash\<close> is a parameter. The locks are left out.
  A call that throws has no configuration as its result: the callers drop the object.
\<close>

subsection \<open>YAML\<close>

datatype yaml =
  YNull
| YScalar string
| YSeq "yaml list"
| YMap "(yaml \<times> yaml) list"

record yaml_lib =
  as_string :: "yaml \<Rightarrow> string option"
  as_uint64 :: "yaml \<Rightarrow> u64 option"
  as_bool :: "yaml \<Rightarrow> bool option"

fun is_map :: "yaml \<Rightarrow> bool" where
  "is_map (YMap es) = True"
| "is_map n = False"

fun is_sequence :: "yaml \<Rightarrow> bool" where
  "is_sequence (YSeq ns) = True"
| "is_sequence n = False"

fun is_scalar :: "yaml \<Rightarrow> bool" where
  "is_scalar (YScalar s) = True"
| "is_scalar n = False"

text \<open>\<^verbatim>\<open>node["key"]\<close> of a map or a sequence; none stands for an undefined node.\<close>

fun key_of :: "string \<Rightarrow> (yaml \<times> yaml) list \<Rightarrow> yaml option" where
  "key_of k [] = None"
| "key_of k ((n, v) # es) = (if n = YScalar k then Some v else key_of k es)"

fun at_key :: "yaml \<Rightarrow> string \<Rightarrow> yaml option" where
  "at_key (YMap es) k = key_of k es"
| "at_key n k = None"

subsection \<open>Values\<close>

datatype conf_value =
  CString string
| CUint u64
| CBool bool
| CList "string list"
| CConfig "(string \<times> conf_value) list"

type_synonym conf = "(string \<times> conf_value) list"

datatype conf_error = MissingKey string | WrongType string | BadSequence string | BadConversion

definition config_exists :: "conf \<Rightarrow> string \<Rightarrow> bool" where
  "config_exists c k \<longleftrightarrow> map_of c k \<noteq> None"

definition config_set :: "string \<Rightarrow> conf_value \<Rightarrow> conf \<Rightarrow> conf" where
  "config_set k v c = AList.update k v c"

text \<open>\<^verbatim>\<open>config_get<T>\<close>; the type is given by the function that selects it.\<close>

definition config_get :: "(conf_value \<Rightarrow> 'a option) \<Rightarrow> conf \<Rightarrow> string \<Rightarrow> conf_error + 'a" where
  "config_get sel c k =
     (case map_of c k of
        None \<Rightarrow> Inl (MissingKey k)
      | Some v \<Rightarrow> (case sel v of None \<Rightarrow> Inl (WrongType k) | Some x \<Rightarrow> Inr x))"

fun sel_string :: "conf_value \<Rightarrow> string option" where
  "sel_string (CString s) = Some s"
| "sel_string v = None"

fun sel_uint :: "conf_value \<Rightarrow> u64 option" where
  "sel_uint (CUint n) = Some n"
| "sel_uint v = None"

fun sel_bool :: "conf_value \<Rightarrow> bool option" where
  "sel_bool (CBool b) = Some b"
| "sel_bool v = None"

fun sel_list :: "conf_value \<Rightarrow> string list option" where
  "sel_list (CList l) = Some l"
| "sel_list v = None"

definition config_merge :: "conf \<Rightarrow> conf \<Rightarrow> conf" where
  "config_merge other c = fold (\<lambda>(k, v). config_set k v) other c"

definition get_all_keys :: "conf \<Rightarrow> string list" where
  "get_all_keys c = map fst c"

subsection \<open>Configurations from YAML\<close>

definition all_digits :: "string \<Rightarrow> bool" where
  "all_digits s \<longleftrightarrow> s \<noteq> [] \<and> (\<forall>c \<in> set s. CHR ''0'' \<le> c \<and> c \<le> CHR ''9'')"

definition to_lower :: "char \<Rightarrow> char" where
  "to_lower c = (if CHR ''A'' \<le> c \<and> c \<le> CHR ''Z'' then char_of (of_char c + (32 :: nat)) else c)"

definition true_or_false :: "string \<Rightarrow> bool" where
  "true_or_false s \<longleftrightarrow> map to_lower s = ''true'' \<or> map to_lower s = ''false''"

definition scalar_value :: "yaml_lib \<Rightarrow> yaml \<Rightarrow> conf_error + conf_value" where
  "scalar_value lib n =
     (case as_string lib n of
        None \<Rightarrow> Inl BadConversion
      | Some v \<Rightarrow>
          if all_digits v then (case as_uint64 lib n of None \<Rightarrow> Inl BadConversion | Some x \<Rightarrow> Inr (CUint x))
          else if true_or_false v then (case as_bool lib n of None \<Rightarrow> Inl BadConversion | Some b \<Rightarrow> Inr (CBool b))
          else Inr (CString v))"

fun sequence_value :: "yaml_lib \<Rightarrow> string \<Rightarrow> yaml list \<Rightarrow> conf_error + string list" where
  "sequence_value lib key [] = Inr []"
| "sequence_value lib key (n # ns) =
     (if \<not> is_scalar n then Inl (BadSequence key)
      else
        case as_string lib n of
          None \<Rightarrow> Inl BadConversion
        | Some s \<Rightarrow>
            (case sequence_value lib key ns of Inl e \<Rightarrow> Inl e | Inr sl \<Rightarrow> Inr (s # sl)))"

fun config_set_yaml :: "yaml_lib \<Rightarrow> (yaml \<times> yaml) list \<Rightarrow> conf \<Rightarrow> conf_error + conf" where
  "config_set_yaml lib [] c = Inr c"
| "config_set_yaml lib ((k, YMap es') # es) c =
     (case as_string lib k of
        None \<Rightarrow> Inl BadConversion
      | Some key \<Rightarrow>
          (case config_set_yaml lib es' [] of
             Inl e \<Rightarrow> Inl e
           | Inr c' \<Rightarrow> config_set_yaml lib es (config_set key (CConfig c') c)))"
| "config_set_yaml lib ((k, YSeq ns) # es) c =
     (case as_string lib k of
        None \<Rightarrow> Inl BadConversion
      | Some key \<Rightarrow>
          (case sequence_value lib key ns of
             Inl e \<Rightarrow> Inl e
           | Inr sl \<Rightarrow> config_set_yaml lib es (config_set key (CList sl) c)))"
| "config_set_yaml lib ((k, v) # es) c =
     (case as_string lib k of
        None \<Rightarrow> Inl BadConversion
      | Some key \<Rightarrow>
          (case scalar_value lib v of
             Inl e \<Rightarrow> Inl e
           | Inr x \<Rightarrow> config_set_yaml lib es (config_set key x c)))"

subsection \<open>Hashes\<close>

fun decimal :: "nat \<Rightarrow> string" where
  "decimal n = (if n < 10 then [char_of (48 + n)] else decimal (n div 10) @ [char_of (48 + n mod 10)])"

declare decimal.simps [simp del]

definition hex_digit :: "nat \<Rightarrow> char" where
  "hex_digit d = char_of (if d < 10 then 48 + d else 87 + d)"

fun hex :: "nat \<Rightarrow> string" where
  "hex n = (if n < 16 then [hex_digit n] else hex (n div 16) @ [hex_digit (n mod 16)])"

declare hex.simps [simp del]

text \<open>\<^verbatim>\<open>std::hash<std::string>\<close> is left to the implementation of the standard library.\<close>

type_synonym hash_lib = "string \<Rightarrow> u64"

text \<open>The text of a pair, and the hash of the sorted texts of all pairs.\<close>

fun pair_data :: "hash_lib \<Rightarrow> string \<times> conf_value \<Rightarrow> string"
  and config_hash :: "hash_lib \<Rightarrow> conf \<Rightarrow> string"
  and all_data :: "hash_lib \<Rightarrow> conf \<Rightarrow> string list" where
  "pair_data h (key, CList l) = key @ concat (sort l)"
| "pair_data h (key, CString s) = key @ s"
| "pair_data h (key, CConfig c) = key @ config_hash h c"
| "pair_data h (key, CUint n) = key @ decimal (unat n)"
| "pair_data h (key, CBool b) = key @ (if b then ''1'' else ''0'')"
| "config_hash h c = hex (unat (h (concat (sort (all_data h c)))))"
| "all_data h [] = []"
| "all_data h (p # ps) = pair_data h p # all_data h ps"

subsection \<open>Lookups\<close>

lemma config_merge_put_all: "config_merge other c = umap.put_all other c"
  by (simp add: config_merge_def umap.put_all_def config_set_def [abs_def] case_prod_unfold)

text \<open>A merge overrides: the merged-in configuration wins.\<close>

lemma map_of_config_merge:
  assumes "distinct (map fst other)"
  shows "map_of (config_merge other c) = map_of c ++ map_of other"
proof -
  have "distinct (map fst (rev other))" using assms by (simp flip: rev_map)
  then have "map_of (rev other) = map_of other" using map_of_inject_set [of "rev other" other] assms by simp
  then show ?thesis by (simp add: config_merge_put_all umap.lookup_put_all)
qed

subsection \<open>The hash\<close>

text \<open>
  Two configurations that differ in nothing but the order in which maps and lists of strings are
  traversed.
\<close>

inductive same_conf :: "conf \<Rightarrow> conf \<Rightarrow> bool"
  and same_value :: "conf_value \<Rightarrow> conf_value \<Rightarrow> bool" where
  same_Nil: "same_conf [] []"
| same_Cons: "same_value v v' \<Longrightarrow> same_conf c c' \<Longrightarrow> same_conf ((k, v) # c) ((k, v') # c')"
| same_swap: "same_conf (p # q # c) (q # p # c)"
| same_trans: "same_conf c c' \<Longrightarrow> same_conf c' c'' \<Longrightarrow> same_conf c c''"
| same_refl: "same_value v v"
| same_list: "mset l = mset l' \<Longrightarrow> same_value (CList l) (CList l')"
| same_config: "same_conf c c' \<Longrightarrow> same_value (CConfig c) (CConfig c')"

lemma same_data:
  "same_conf c c' \<Longrightarrow> mset (all_data h c) = mset (all_data h c')"
  "same_value v v' \<Longrightarrow> pair_data h (k, v) = pair_data h (k, v')"
proof (induction arbitrary: and k rule: same_conf_same_value.inducts)
  case (same_list l l')
  then have "sort l = sort l'" by (metis sorted_list_of_multiset_mset)
  then show ?case by simp
next
  case (same_config c c')
  then have "sort (all_data h c) = sort (all_data h c')" by (metis sorted_list_of_multiset_mset)
  then show ?case by simp
qed simp_all

text \<open>
  The hash of a configuration does not depend on the order in which the maps and lists in it are
  traversed, at any depth.
\<close>

theorem config_hash_order:
  assumes "same_conf c c'"
  shows "config_hash h c = config_hash h c'"
proof -
  have "sort (all_data h c) = sort (all_data h c')"
    using same_data(1) [OF assms] by (metis sorted_list_of_multiset_mset)
  then show ?thesis by simp
qed

theorem config_hash_order_witness:
  "\<forall>h. config_hash h [(''a'', CList [''x'', ''y'']), (''b'', CBool True)] = config_hash h [(''b'', CBool True), (''a'', CList [''y'', ''x''])]"
proof (intro allI, rule config_hash_order)
  have "same_conf [(''a'', CList [''x'', ''y'']), (''b'', CBool True)] [(''a'', CList [''y'', ''x'']), (''b'', CBool True)]"
    by (intro same_conf_same_value.intros) simp
  then show "same_conf [(''a'', CList [''x'', ''y'']), (''b'', CBool True)] [(''b'', CBool True), (''a'', CList [''y'', ''x''])]"
    by (rule same_trans) (rule same_swap)
qed

subsection \<open>What a YAML map sets\<close>

definition entry_value :: "yaml_lib \<Rightarrow> yaml \<times> yaml \<Rightarrow> conf_error + string \<times> conf_value" where
  "entry_value lib e =
     (case as_string lib (fst e) of
        None \<Rightarrow> Inl BadConversion
      | Some key \<Rightarrow>
          map_sum id (Pair key)
            (case snd e of
               YMap es \<Rightarrow> map_sum id CConfig (config_set_yaml lib es [])
             | YSeq ns \<Rightarrow> map_sum id CList (sequence_value lib key ns)
             | n \<Rightarrow> scalar_value lib n))"

fun entry_values :: "yaml_lib \<Rightarrow> (yaml \<times> yaml) list \<Rightarrow> conf_error + conf" where
  "entry_values lib [] = Inr []"
| "entry_values lib (e # es) =
     (case entry_value lib e of
        Inl err \<Rightarrow> Inl err
      | Inr p \<Rightarrow> map_sum id (Cons p) (entry_values lib es))"

lemma config_set_yaml_entries:
  "config_set_yaml lib es c = map_sum id (\<lambda>ps. umap.put_all ps c) (entry_values lib es)"
proof (induction es arbitrary: c)
  case (Cons e es)
  have put: "umap.put_all (p # ps) c = umap.put_all ps (config_set (fst p) (snd p) c)" for p ps
    by (simp add: umap.put_all_def config_set_def)
  obtain k v where e: "e = (k, v)" by (cases e)
  show ?case
  proof (cases v)
    case (YMap es')
    then show ?thesis
      by (auto simp: e entry_value_def put Cons.IH sum.map_comp o_def split: option.split sum.split)
  next
    case (YSeq ns)
    then show ?thesis
      by (auto simp: e entry_value_def put Cons.IH sum.map_comp o_def split: option.split sum.split)
  qed (auto simp: e entry_value_def put Cons.IH sum.map_comp o_def split: option.split sum.split)
qed (simp add: umap.put_all_def)

end
