(* ===== verification/Registry.thy ===== *)
theory Registry
  imports Configurable
begin

text \<open>
  The modules of a running pktvisor and their managers: \<^verbatim>\<open>src/AbstractManager.h\<close>, \<^verbatim>\<open>AbstractModule.h\<close>,
  \<^verbatim>\<open>InputStream.h\<close>, \<^verbatim>\<open>InputStreamManager.h\<close>, \<^verbatim>\<open>HandlerManager.h\<close>, \<^verbatim>\<open>StreamHandler.h\<close> and \<^verbatim>\<open>Taps.cpp\<close>.

  A pointer to an input stream or to a handler is its name, which is unique in its manager; a pointer
  to a policy is a number, since two policies of one name can be alive while one is loaded. The plugins, which
  make and start input streams and handlers, are a parameter: each call says whether it throws.
  A stop does not throw. A handler that runs is connected to its event proxy and counts as its
  consumer. The locks are left out, so that the operations are those of one thread.
\<close>

subsection \<open>Exceptions\<close>

datatype exn =
  ModuleException
| TapException
| PolicyException
| HandlerException
| InputStreamException
| ConfigException
| YamlException
| RuntimeError
| InvalidArgument
| OtherException

text \<open>The exceptions that derive from \<^verbatim>\<open>std::runtime_error\<close>.\<close>

definition runtime_error :: "exn \<Rightarrow> bool" where
  "runtime_error e \<longleftrightarrow> e \<noteq> InvalidArgument \<and> e \<noteq> OtherException"

fun conf_exn :: "conf_error \<Rightarrow> exn" where
  "conf_exn BadConversion = YamlException"
| "conf_exn e = ConfigException"

subsection \<open>Modules\<close>

definition module_id :: "string \<Rightarrow> bool" where
  "module_id s = (case s of [] \<Rightarrow> False | c # cs \<Rightarrow> alpha_us c \<and> list_all (\<lambda>d. alpha_us d \<or> is_digit d \<or> d = CHR ''-'') cs)"

type_synonym 'm modules = "(string \<times> 'm) list"

definition module_exists :: "string \<Rightarrow> 'm modules \<Rightarrow> bool" where
  "module_exists name M \<longleftrightarrow> map_of M name \<noteq> None"

definition module_add :: "string \<Rightarrow> 'm \<Rightarrow> 'm modules \<Rightarrow> exn + 'm modules" where
  "module_add name m M = (if module_exists name M then Inl ModuleException else Inr (AList.update name m M))"

definition module_get :: "string \<Rightarrow> 'm modules \<Rightarrow> exn + 'm" where
  "module_get name M = (case map_of M name of None \<Rightarrow> Inl ModuleException | Some m \<Rightarrow> Inr m)"

definition module_remove :: "string \<Rightarrow> 'm modules \<Rightarrow> exn + 'm modules" where
  "module_remove name M = (if module_exists name M then Inr (AList.delete name M) else Inl ModuleException)"

record tap =
  input_plugin :: string
  tap_config :: conf
  tap_tags :: conf

record input_stream =
  in_running :: bool
  in_policies :: "nat list"
  in_proxies :: "(string \<times> conf) list"

datatype proxy = InputProxy string string | HandlerProxy string

record handler =
  h_running :: bool
  h_proxy :: proxy
  h_own_proxy :: bool
  h_version :: string

record policy =
  p_id :: nat
  p_running :: bool
  p_taps :: "string list"
  p_inputs :: "string list"
  p_modules :: "string list"
  p_sequence :: bool
  p_merge_like_handlers :: bool
  p_config :: conf

record registry =
  taps :: "tap modules"
  inputs :: "input_stream modules"
  handlers :: "handler modules"
  policies :: "policy modules"
  next_id :: nat

record plugins =
  yaml_of :: yaml_lib
  hash_of :: hash_lib
  input_available :: "string \<Rightarrow> bool"
  handler_available :: "string \<Rightarrow> string \<Rightarrow> bool"
  filter_in_name :: "string \<Rightarrow> bool"
  new_input :: "string \<Rightarrow> string \<Rightarrow> conf \<Rightarrow> conf \<Rightarrow> exn option"
  new_proxy :: "string \<Rightarrow> conf \<Rightarrow> exn option"
  new_handler :: "string \<Rightarrow> string \<Rightarrow> string \<Rightarrow> conf \<Rightarrow> conf \<Rightarrow> exn option"
  start_input :: "string \<Rightarrow> exn option"
  start_handler :: "string \<Rightarrow> exn option"
  global_handler_config :: "(string \<times> conf) list"
  default_num_periods :: u64
  default_deep_sample_rate :: u64

subsection \<open>Input streams\<close>

definition add_policy :: "nat \<Rightarrow> input_stream \<Rightarrow> input_stream" where
  "add_policy p i = i\<lparr>in_policies := in_policies i @ [p]\<rparr>"

definition remove_policy_ptr :: "nat \<Rightarrow> input_stream \<Rightarrow> input_stream" where
  "remove_policy_ptr p i = i\<lparr>in_policies := filter (\<lambda>q. q \<noteq> p) (in_policies i)\<rparr>"

definition policies_count :: "input_stream \<Rightarrow> nat" where
  "policies_count i = length (in_policies i)"

text \<open>The proxy for a filter: the one with the same hash, or a new one.\<close>

definition add_event_proxy :: "plugins \<Rightarrow> string \<Rightarrow> conf \<Rightarrow> input_stream \<Rightarrow> exn + proxy \<times> input_stream" where
  "add_event_proxy pl name flt i =
     (let h = config_hash (hash_of pl) flt in
      if map_of (in_proxies i) h \<noteq> None then Inr (InputProxy name h, i)
      else
        case new_proxy pl name flt of
          Some e \<Rightarrow> Inl e
        | None \<Rightarrow> Inr (InputProxy name h, i\<lparr>in_proxies := in_proxies i @ [(h, flt)]\<rparr>))"

definition proxy_consumers :: "handler modules \<Rightarrow> proxy \<Rightarrow> nat" where
  "proxy_consumers H p = length (filter (\<lambda>(_, h). h_running h \<and> h_proxy h = p) H)"

text \<open>\<^verbatim>\<open>InputStream::consumer_count\<close>: its loop assigns, so that the last proxy counts.\<close>

definition input_consumers :: "handler modules \<Rightarrow> string \<Rightarrow> input_stream \<Rightarrow> nat" where
  "input_consumers H name i = fold (\<lambda>(h, _) count. proxy_consumers H (InputProxy name h)) (in_proxies i) 0"

definition input_module_remove :: "string \<Rightarrow> registry \<Rightarrow> exn + registry" where
  "input_module_remove name r =
     (case map_of (inputs r) name of
        None \<Rightarrow> Inl RuntimeError
      | Some i \<Rightarrow>
          if input_consumers (handlers r) name i \<noteq> 0 then Inl RuntimeError
          else Inr (r\<lparr>inputs := AList.delete name (inputs r)\<rparr>))"

text \<open>A configuration under a key: absent, not a map, or read, with its errors reported as another exception.\<close>

definition optional_config :: "plugins \<Rightarrow> exn \<Rightarrow> yaml option \<Rightarrow> conf \<Rightarrow> exn + conf" where
  "optional_config pl e n c =
     (case n of
        None \<Rightarrow> Inr c
      | Some (YMap es) \<Rightarrow>
          (case config_set_yaml (yaml_of pl) es c of
             Inl err \<Rightarrow> Inl (if conf_exn err = ConfigException then e else conf_exn err)
           | Inr c' \<Rightarrow> Inr c')
      | Some _ \<Rightarrow> Inl e)"

definition get_config_and_filter :: "plugins \<Rightarrow> yaml option \<Rightarrow> exn + conf \<times> conf" where
  "get_config_and_filter pl input_node =
     (case input_node of
        None \<Rightarrow> Inl InputStreamException
      | Some n \<Rightarrow>
          if \<not> is_map n then Inl InputStreamException
          else
            case at_key n ''input_type'' of
              None \<Rightarrow> Inl InputStreamException
            | Some t \<Rightarrow>
                if \<not> is_scalar t then Inl InputStreamException
                else
                  case optional_config pl InputStreamException (at_key n ''config'') [] of
                    Inl e \<Rightarrow> Inl e
                  | Inr c \<Rightarrow>
                      (case optional_config pl InputStreamException (at_key n ''filter'') [] of
                         Inl e \<Rightarrow> Inl e
                       | Inr f \<Rightarrow> Inr (c, f)))"

text \<open>
  The name of the input stream of a tap: the plugin of capture devices hashes the filter together with the
  configuration, the others the configuration alone.
\<close>

definition generate_input_name :: "plugins \<Rightarrow> string \<Rightarrow> string \<Rightarrow> conf \<Rightarrow> conf \<Rightarrow> string" where
  "generate_input_name pl plugin prefix c flt =
     prefix @ ''-'' @ config_hash (hash_of pl) (if filter_in_name pl plugin then config_merge flt c else c)"

definition get_input_name :: "plugins \<Rightarrow> string \<Rightarrow> tap \<Rightarrow> conf \<Rightarrow> conf \<Rightarrow> string" where
  "get_input_name pl name t c flt =
     generate_input_name pl (input_plugin t) name (config_merge c (config_merge (tap_config t) [])) flt"

definition instantiate_input :: "plugins \<Rightarrow> tap \<Rightarrow> conf \<Rightarrow> conf \<Rightarrow> string \<Rightarrow> exn + input_stream" where
  "instantiate_input pl t c flt input_name =
     (if \<not> module_id input_name then Inl RuntimeError
      else
        case new_input pl (input_plugin t) input_name (config_merge c (config_merge (tap_config t) [])) flt of
          Some e \<Rightarrow> Inl e
        | None \<Rightarrow> Inr \<lparr>in_running = False, in_policies = [], in_proxies = []\<rparr>)"

subsection \<open>Handlers\<close>

definition handler_consumers :: "handler modules \<Rightarrow> string \<Rightarrow> handler \<Rightarrow> nat" where
  "handler_consumers H name h = (if h_own_proxy h then proxy_consumers H (HandlerProxy name) else 0)"

definition handler_module_remove :: "string \<Rightarrow> registry \<Rightarrow> exn + registry" where
  "handler_module_remove name r =
     (case map_of (handlers r) name of
        None \<Rightarrow> Inl RuntimeError
      | Some h \<Rightarrow>
          if handler_consumers (handlers r) name h \<noteq> 0 then Inl RuntimeError
          else Inr (r\<lparr>handlers := AList.delete name (handlers r)\<rparr>))"

definition get_default_configuration :: "plugins \<Rightarrow> yaml option \<Rightarrow> exn + conf \<times> bool" where
  "get_default_configuration pl handler_node =
     (case handler_node of
        None \<Rightarrow> Inl HandlerException
      | Some n \<Rightarrow>
          if \<not> is_map n then Inl HandlerException
          else
            case at_key n ''modules'' of
              None \<Rightarrow> Inl HandlerException
            | Some m \<Rightarrow>
                if \<not> is_map m \<and> \<not> is_sequence m then Inl HandlerException
                else
                  case at_key n ''window_config'' of
                    Some (YMap es) \<Rightarrow>
                      (case optional_config pl HandlerException (Some (YMap es)) [] of
                         Inl e \<Rightarrow> Inl e
                       | Inr c \<Rightarrow> Inr (c, is_sequence m))
                  | _ \<Rightarrow>
                      Inr (config_set ''deep_sample_rate'' (CUint (default_deep_sample_rate pl))
                             (config_set ''num_periods'' (CUint (default_num_periods pl)) []), is_sequence m))"

record handler_data =
  hd_name :: string
  hd_type :: string
  hd_version :: string
  hd_config :: conf
  hd_filter :: conf

text \<open>The name of a handler and the node that describes it, from an entry of a map or of a sequence.\<close>

fun handler_entry :: "plugins \<Rightarrow> bool \<Rightarrow> yaml \<times> yaml \<Rightarrow> exn + string \<times> yaml" where
  "handler_entry pl sequence (k, v) =
     (if sequence then
        case v of
          YMap ((k', _) # _) \<Rightarrow>
            if \<not> is_scalar k' then Inl HandlerException
            else (case as_string (yaml_of pl) k' of None \<Rightarrow> Inl YamlException | Some s \<Rightarrow> Inr (s, v))
        | _ \<Rightarrow> Inl YamlException
      else
        if \<not> is_scalar k then Inl HandlerException
        else (case as_string (yaml_of pl) k of None \<Rightarrow> Inl YamlException | Some s \<Rightarrow> Inr (s, v)))"

definition scalar_at :: "yaml \<Rightarrow> string \<Rightarrow> yaml option" where
  "scalar_at n k = (case at_key n k of Some v \<Rightarrow> if is_scalar v then Some v else None | None \<Rightarrow> None)"

text \<open>The description itself, or what it has under the name of the handler.\<close>

definition typed_module :: "yaml \<Rightarrow> string \<Rightarrow> yaml option" where
  "typed_module n name =
     (if scalar_at n ''type'' \<noteq> None then Some n
      else case at_key n name of None \<Rightarrow> None | Some m \<Rightarrow> if scalar_at m ''type'' \<noteq> None then Some m else None)"

definition required_version :: "plugins \<Rightarrow> yaml \<Rightarrow> exn + string" where
  "required_version pl m =
     (case at_key m ''require_version'' of
        None \<Rightarrow> Inr ''1.0''
      | Some v \<Rightarrow>
          if \<not> is_scalar v then Inl HandlerException
          else (case as_string (yaml_of pl) v of None \<Rightarrow> Inl YamlException | Some s \<Rightarrow> Inr s))"

definition metric_groups :: "plugins \<Rightarrow> yaml \<Rightarrow> exn + conf" where
  "metric_groups pl m =
     (case at_key m ''metric_groups'' of
        None \<Rightarrow> Inr []
      | Some g \<Rightarrow>
          if \<not> is_map g then Inl HandlerException
          else if at_key g ''enable'' = None \<and> at_key g ''disable'' = None then Inl HandlerException
          else optional_config pl HandlerException (Some g) [])"

definition validate_handler :: "plugins \<Rightarrow> yaml \<times> yaml \<Rightarrow> conf \<Rightarrow> bool \<Rightarrow> exn + handler_data" where
  "validate_handler pl entry window_config sequence =
     (case handler_entry pl sequence entry of
        Inl e \<Rightarrow> Inl e
      | Inr (name, n) \<Rightarrow>
          if \<not> is_map n then Inl HandlerException
          else
            case typed_module n name of
              None \<Rightarrow> Inl HandlerException
            | Some m \<Rightarrow>
                (case required_version pl m of
                   Inl e \<Rightarrow> Inl e
                 | Inr version \<Rightarrow>
                     (case Option.bind (at_key m ''type'') (as_string (yaml_of pl)) of
                        None \<Rightarrow> Inl YamlException
                      | Some type \<Rightarrow>
                          if \<not> handler_available pl type version then Inl HandlerException
                          else
                            case optional_config pl HandlerException (at_key m ''filter'') [] of
                              Inl e \<Rightarrow> Inl e
                            | Inr flt \<Rightarrow>
                                (case optional_config pl HandlerException (at_key m ''config'')
                                   (case map_of (global_handler_config pl) type of
                                      None \<Rightarrow> [] | Some g \<Rightarrow> config_merge g []) of
                                   Inl e \<Rightarrow> Inl e
                                 | Inr cfg \<Rightarrow>
                                     (case metric_groups pl m of
                                        Inl e \<Rightarrow> Inl e
                                      | Inr groups \<Rightarrow>
                                          Inr \<lparr>hd_name = name, hd_type = type, hd_version = version,
                                            hd_config = config_merge window_config cfg,
                                            hd_filter = config_merge groups flt\<rparr>)))))"

subsection \<open>Taps\<close>

text \<open>One entry of a selector against the tags of a tap: whether it matches, or that the tag is not there.\<close>

definition tag_match :: "plugins \<Rightarrow> conf \<Rightarrow> yaml \<Rightarrow> yaml \<Rightarrow> exn + bool option" where
  "tag_match pl tags k v =
     (case as_string (yaml_of pl) k of
        None \<Rightarrow> Inl YamlException
      | Some key \<Rightarrow>
          if \<not> is_scalar k then Inl TapException
          else if \<not> is_scalar v then Inl TapException
          else if \<not> config_exists tags key then Inr None
          else
            case as_string (yaml_of pl) v of
              None \<Rightarrow> Inl YamlException
            | Some value \<Rightarrow>
                if all_digits value then
                  (case config_get sel_uint tags key of
                     Inl e \<Rightarrow> Inl TapException
                   | Inr x \<Rightarrow>
                       (case as_uint64 (yaml_of pl) v of None \<Rightarrow> Inl YamlException | Some y \<Rightarrow> Inr (Some (x = y))))
                else if true_or_false value then
                  (case config_get sel_bool tags key of
                     Inl e \<Rightarrow> Inl TapException
                   | Inr x \<Rightarrow>
                       (case as_bool (yaml_of pl) v of None \<Rightarrow> Inl YamlException | Some y \<Rightarrow> Inr (Some (x = y))))
                else
                  (case config_get sel_string tags key of
                     Inl e \<Rightarrow> Inl ConfigException
                   | Inr x \<Rightarrow> Inr (Some (x = value))))"

text \<open>An element of a selector has one pair; what is not a map has none to look at.\<close>

fun selector_entry :: "yaml \<Rightarrow> exn + yaml \<times> yaml" where
  "selector_entry (YMap [e]) = Inr e"
| "selector_entry (YMap (e # f # es)) = Inl TapException"
| "selector_entry (YSeq (n # m # ns)) = Inl TapException"
| "selector_entry n = Inl YamlException"

fun tags_match :: "plugins \<Rightarrow> conf \<Rightarrow> bool \<Rightarrow> bool \<Rightarrow> yaml list \<Rightarrow> exn + bool" where
  "tags_match pl tags all any_match [] = Inr any_match"
| "tags_match pl tags all any_match (n # ns) =
     (case selector_entry n of
        Inl e \<Rightarrow> Inl e
      | Inr (k, v) \<Rightarrow>
          (case tag_match pl tags k v of
             Inl e \<Rightarrow> Inl e
           | Inr (Some True) \<Rightarrow> tags_match pl tags all True ns
           | Inr _ \<Rightarrow> if all then Inr False else tags_match pl tags all any_match ns))"

definition tags_match_selector_yaml :: "plugins \<Rightarrow> tap \<Rightarrow> yaml list \<Rightarrow> bool \<Rightarrow> exn + bool" where
  "tags_match_selector_yaml pl t ns all = tags_match pl (tap_tags t) all False ns"

fun selected_taps :: "plugins \<Rightarrow> yaml list \<Rightarrow> bool \<Rightarrow> tap modules \<Rightarrow> exn + string list" where
  "selected_taps pl ns all [] = Inr []"
| "selected_taps pl ns all ((name, t) # T) =
     (case tags_match_selector_yaml pl t ns all of
        Inl e \<Rightarrow> Inl e
      | Inr b \<Rightarrow>
          (case selected_taps pl ns all T of
             Inl e \<Rightarrow> Inl e
           | Inr names \<Rightarrow> Inr (if b then name # names else names)))"

definition get_input_taps_name :: "plugins \<Rightarrow> yaml \<Rightarrow> tap modules \<Rightarrow> exn + string list" where
  "get_input_taps_name pl n T =
     (case (at_key n ''tap'', at_key n ''tap_selector'') of
        (Some _, Some _) \<Rightarrow> Inl TapException
      | (None, None) \<Rightarrow> Inl TapException
      | (Some t, None) \<Rightarrow>
          if \<not> is_scalar t then Inl PolicyException
          else
            (case as_string (yaml_of pl) t of
               None \<Rightarrow> Inl YamlException
             | Some name \<Rightarrow> if module_exists name T then Inr [name] else Inl TapException)
      | (None, Some sel) \<Rightarrow>
          if \<not> is_map sel then Inl TapException
          else
            let found = (\<lambda>ns all.
              case selected_taps pl ns all T of
                Inl e \<Rightarrow> Inl e
              | Inr [] \<Rightarrow> Inl InvalidArgument
              | Inr names \<Rightarrow> Inr names) in
            (case (at_key sel ''all'', at_key sel ''any'') of
               (Some _, Some _) \<Rightarrow> Inl TapException
             | (None, None) \<Rightarrow> Inl TapException
             | (Some a, None) \<Rightarrow> (case a of YSeq ns \<Rightarrow> found ns True | _ \<Rightarrow> Inl TapException)
             | (None, Some a) \<Rightarrow> (case a of YSeq ns \<Rightarrow> found ns False | _ \<Rightarrow> Inl TapException)))"

text \<open>The configuration or the tags of a tap; here the exceptions of the configuration are not translated.\<close>

definition tap_conf :: "plugins \<Rightarrow> yaml option \<Rightarrow> exn + conf" where
  "tap_conf pl n =
     (case n of
        None \<Rightarrow> Inr []
      | Some (YMap es) \<Rightarrow> (case config_set_yaml (yaml_of pl) es [] of Inl err \<Rightarrow> Inl (conf_exn err) | Inr c \<Rightarrow> Inr c)
      | Some _ \<Rightarrow> Inl TapException)"

text \<open>A tap from its YAML; none is a tap that is skipped, since its input type is not there.\<close>

definition parse_tap :: "plugins \<Rightarrow> bool \<Rightarrow> yaml \<times> yaml \<Rightarrow> exn + (string \<times> tap) option" where
  "parse_tap pl strict e =
     (if \<not> is_scalar (fst e) then Inl TapException
      else
        case as_string (yaml_of pl) (fst e) of
          None \<Rightarrow> Inl YamlException
        | Some tap_name \<Rightarrow>
            if \<not> is_map (snd e) then Inl TapException
            else
              case scalar_at (snd e) ''input_type'' of
                None \<Rightarrow> Inl TapException
              | Some t \<Rightarrow>
                  (case as_string (yaml_of pl) t of
                     None \<Rightarrow> Inl YamlException
                   | Some input_type \<Rightarrow>
                       if \<not> input_available pl input_type then (if strict then Inl TapException else Inr None)
                       else if \<not> module_id tap_name then Inl RuntimeError
                       else
                         case tap_conf pl (at_key (snd e) ''config'') of
                           Inl err \<Rightarrow> Inl err
                         | Inr c \<Rightarrow>
                             (case tap_conf pl (at_key (snd e) ''tags'') of
                                Inl err \<Rightarrow> Inl err
                              | Inr tags \<Rightarrow>
                                  Inr (Some (tap_name, \<lparr>input_plugin = input_type, tap_config = c, tap_tags = tags\<rparr>)))))"

text \<open>The loop of \<^verbatim>\<open>TapManager::load\<close>; with an exception, the taps that were added stay.\<close>

fun load_taps_loop :: "plugins \<Rightarrow> bool \<Rightarrow> (yaml \<times> yaml) list \<Rightarrow> tap modules \<Rightarrow> exn option \<times> string list \<times> tap modules" where
  "load_taps_loop pl strict [] T = (None, [], T)"
| "load_taps_loop pl strict (e # es) T =
     (case parse_tap pl strict e of
        Inl err \<Rightarrow> (Some err, [], T)
      | Inr None \<Rightarrow> load_taps_loop pl strict es T
      | Inr (Some (name, t)) \<Rightarrow>
          (case module_add name t T of
             Inl err \<Rightarrow> (Some err, [], T)
           | Inr T' \<Rightarrow>
               (case load_taps_loop pl strict es T' of (err, names, T'') \<Rightarrow> (err, name # names, T''))))"

definition load_taps :: "plugins \<Rightarrow> (yaml \<times> yaml) list \<Rightarrow> bool \<Rightarrow> bool \<Rightarrow> tap modules \<Rightarrow> exn option \<times> string list \<times> tap modules" where
  "load_taps pl es strict single T =
     (if single \<and> length es > 1 then (Some TapException, [], T) else load_taps_loop pl strict es T)"

end
