(* ===== verification/Policies.thy ===== *)
theory Policies
  imports Registry
begin

text \<open>
  Policies (\<^verbatim>\<open>src/Policies.cpp\<close>, \<^verbatim>\<open>src/Policies.h\<close>): their start and stop, the load of a policy with the rollback
  of a load that fails, and the removal of a policy.

  An operation that can throw returns the exception next to the registry it leaves behind.
\<close>

subsection \<open>Following a pointer\<close>

definition on_input :: "string \<Rightarrow> (input_stream \<Rightarrow> input_stream) \<Rightarrow> registry \<Rightarrow> registry" where
  "on_input n f r = r\<lparr>inputs := AList.map_entry n f (inputs r)\<rparr>"

definition on_handler :: "string \<Rightarrow> (handler \<Rightarrow> handler) \<Rightarrow> registry \<Rightarrow> registry" where
  "on_handler n f r = r\<lparr>handlers := AList.map_entry n f (handlers r)\<rparr>"

subsection \<open>Start and stop\<close>

definition start_module :: "plugins \<Rightarrow> string \<Rightarrow> registry \<Rightarrow> exn option \<times> registry" where
  "start_module pl n r =
     (case map_of (handlers r) n of
        None \<Rightarrow> (None, r)
      | Some h \<Rightarrow>
          if h_running h then (None, r)
          else
            case start_handler pl n of
              Some e \<Rightarrow> (Some e, r)
            | None \<Rightarrow> (None, on_handler n (\<lambda>h. h\<lparr>h_running := True\<rparr>) r))"

definition start_stream :: "plugins \<Rightarrow> string \<Rightarrow> registry \<Rightarrow> exn option \<times> registry" where
  "start_stream pl n r =
     (case map_of (inputs r) n of
        None \<Rightarrow> (None, r)
      | Some i \<Rightarrow>
          if in_running i then (None, r)
          else
            case start_input pl n of
              Some e \<Rightarrow> (Some e, r)
            | None \<Rightarrow> (None, on_input n (\<lambda>i. i\<lparr>in_running := True\<rparr>) r))"

fun in_order :: "(string \<Rightarrow> registry \<Rightarrow> exn option \<times> registry) \<Rightarrow> string list \<Rightarrow> registry \<Rightarrow> exn option \<times> registry" where
  "in_order f [] r = (None, r)"
| "in_order f (n # ns) r = (case f n r of (Some e, r') \<Rightarrow> (Some e, r') | (None, r') \<Rightarrow> in_order f ns r')"

definition stop_module :: "string \<Rightarrow> registry \<Rightarrow> registry" where
  "stop_module n r = on_handler n (\<lambda>h. h\<lparr>h_running := False\<rparr>) r"

definition merge_like_handlers :: "conf \<Rightarrow> exn + bool" where
  "merge_like_handlers c =
     (if \<not> config_exists c ''merge_like_handlers'' then Inr False
      else case config_get sel_bool c ''merge_like_handlers'' of Inl e \<Rightarrow> Inl ConfigException | Inr b \<Rightarrow> Inr b)"

definition policy_start :: "plugins \<Rightarrow> policy \<Rightarrow> registry \<Rightarrow> exn option \<times> policy \<times> registry" where
  "policy_start pl p r =
     (if p_running p then (None, p, r)
      else
        case merge_like_handlers (p_config p) of
          Inl e \<Rightarrow> (Some e, p, r)
        | Inr b \<Rightarrow>
            let p = p\<lparr>p_merge_like_handlers := b\<rparr> in
            (case in_order (start_module pl) (p_modules p) r of
               (Some e, r') \<Rightarrow> (Some e, p, fold stop_module (p_modules p) r')
             | (None, r') \<Rightarrow>
                 (case in_order (start_stream pl) (p_inputs p) r' of
                    (Some e, r'') \<Rightarrow> (Some e, p, fold stop_module (p_modules p) r'')
                  | (None, r'') \<Rightarrow> (None, p\<lparr>p_running := True\<rparr>, r''))))"

text \<open>A policy that leaves an input stops it if no other is on it.\<close>

definition leave_input :: "nat \<Rightarrow> string \<Rightarrow> registry \<Rightarrow> registry" where
  "leave_input pid n r =
     on_input n (\<lambda>i. remove_policy_ptr pid
       (if in_running i \<and> policies_count i \<le> 1 then i\<lparr>in_running := False\<rparr> else i)) r"

definition policy_stop :: "policy \<Rightarrow> registry \<Rightarrow> policy \<times> registry" where
  "policy_stop p r =
     (if \<not> p_running p then (p, r)
      else (p\<lparr>p_running := False\<rparr>, fold stop_module (p_modules p) (fold (leave_input (p_id p)) (p_inputs p) r)))"

subsection \<open>Removal\<close>

definition resources_name :: "string \<Rightarrow> string" where
  "resources_name n = n @ ''-resources''"

definition count_on :: "string \<Rightarrow> registry \<Rightarrow> nat" where
  "count_on n r = (case map_of (inputs r) n of None \<Rightarrow> 0 | Some i \<Rightarrow> policies_count i)"

definition remove_handler :: "string \<Rightarrow> registry \<Rightarrow> exn option \<times> registry" where
  "remove_handler n r = (case handler_module_remove n r of Inl e \<Rightarrow> (Some e, r) | Inr r' \<Rightarrow> (None, r'))"

definition remove_input :: "string \<Rightarrow> registry \<Rightarrow> exn option \<times> registry" where
  "remove_input n r = (case input_module_remove n r of Inl e \<Rightarrow> (Some e, r) | Inr r' \<Rightarrow> (None, r'))"

text \<open>The stop of a policy that is registered under a name.\<close>

definition stop_registered :: "string \<Rightarrow> policy \<Rightarrow> registry \<Rightarrow> registry" where
  "stop_registered name p r =
     (case policy_stop p r of (p', r') \<Rightarrow> r'\<lparr>policies := AList.map_entry name (\<lambda>_. p') (policies r')\<rparr>)"

definition erase_policy :: "string \<Rightarrow> registry \<Rightarrow> registry" where
  "erase_policy name r = r\<lparr>policies := AList.delete name (policies r)\<rparr>"

definition remove_resources_policy :: "string \<Rightarrow> string \<Rightarrow> registry \<Rightarrow> exn option \<times> registry" where
  "remove_resources_policy n leaving r =
     (if count_on n r = 1 \<and> leaving \<noteq> resources_name n then
        case map_of (policies r) (resources_name n) of
          None \<Rightarrow> (None, r)
        | Some q \<Rightarrow>
            (case remove_handler (resources_name n) (stop_registered (resources_name n) q r) of
               (Some e, r') \<Rightarrow> (Some e, r')
             | (None, r') \<Rightarrow> (None, erase_policy (resources_name n) r'))
      else (None, r))"

definition remove_input_if_unused :: "string \<Rightarrow> string \<Rightarrow> registry \<Rightarrow> exn option \<times> registry" where
  "remove_input_if_unused leaving n r =
     (case remove_resources_policy n leaving r of
        (Some e, r') \<Rightarrow> (Some e, r')
      | (None, r') \<Rightarrow> if count_on n r' = 0 then remove_input n r' else (None, r'))"

definition remove_policy :: "string \<Rightarrow> registry \<Rightarrow> exn option \<times> registry" where
  "remove_policy name r =
     (case map_of (policies r) name of
        None \<Rightarrow> (Some ModuleException, r)
      | Some p \<Rightarrow>
          (case in_order remove_handler (p_modules p) (stop_registered name p r) of
             (Some e, r') \<Rightarrow> (Some e, r')
           | (None, r') \<Rightarrow>
               (case in_order (remove_input_if_unused name) (remdups (sort (p_inputs p))) r' of
                  (Some e, r'') \<Rightarrow> (Some e, r'')
                | (None, r'') \<Rightarrow> (None, erase_policy name r''))))"

subsection \<open>Load\<close>

text \<open>What a load of one policy has read from its YAML.\<close>

record request =
  q_name :: string
  q_input_type :: "string option"
  q_input_config :: conf
  q_input_filter :: conf
  q_window_config :: conf
  q_sequence :: bool
  q_modules :: "(yaml \<times> yaml) list"
  q_taps :: "string list"
  q_config :: conf

definition get_policy_name :: "plugins \<Rightarrow> yaml \<times> yaml \<Rightarrow> policy modules \<Rightarrow> exn + string" where
  "get_policy_name pl e P =
     (if \<not> is_scalar (fst e) then Inl PolicyException
      else
        case as_string (yaml_of pl) (fst e) of
          None \<Rightarrow> Inl YamlException
        | Some policy_name \<Rightarrow>
            if \<not> is_map (snd e) then Inl PolicyException
            else if module_exists policy_name P then Inl PolicyException
            else
              case scalar_at (snd e) ''kind'' of
                None \<Rightarrow> Inl PolicyException
              | Some k \<Rightarrow>
                  (case as_string (yaml_of pl) k of
                     None \<Rightarrow> Inl YamlException
                   | Some kind \<Rightarrow> if kind \<noteq> ''collection'' then Inl PolicyException else Inr policy_name))"

text \<open>The entries of the handlers, of a map or of a sequence.\<close>

fun module_entries :: "yaml option \<Rightarrow> (yaml \<times> yaml) list" where
  "module_entries (Some (YMap es)) = es"
| "module_entries (Some (YSeq ns)) = map (Pair YNull) ns"
| "module_entries n = []"

definition policy_config :: "plugins \<Rightarrow> yaml option \<Rightarrow> exn + conf" where
  "policy_config pl n =
     (case n of
        None \<Rightarrow> Inr []
      | Some (YMap es) \<Rightarrow> optional_config pl HandlerException (Some (YMap es)) []
      | Some _ \<Rightarrow> Inl PolicyException)"

definition parse_policy :: "plugins \<Rightarrow> yaml \<times> yaml \<Rightarrow> registry \<Rightarrow> exn + request" where
  "parse_policy pl e r =
     (case get_policy_name pl e (policies r) of
        Inl err \<Rightarrow> Inl err
      | Inr name \<Rightarrow>
          (case get_config_and_filter pl (at_key (snd e) ''input'') of
             Inl err \<Rightarrow> Inl err
           | Inr (input_config, input_filter) \<Rightarrow>
               (case get_default_configuration pl (at_key (snd e) ''handlers'') of
                  Inl err \<Rightarrow> Inl err
                | Inr (window_config, sequence) \<Rightarrow>
                    (case get_input_taps_name pl (the (at_key (snd e) ''input'')) (taps r) of
                       Inl err \<Rightarrow> Inl err
                     | Inr names \<Rightarrow>
                         if \<not> module_id name then Inl RuntimeError
                         else
                           case policy_config pl (at_key (snd e) ''config'') of
                             Inl err \<Rightarrow> Inl err
                           | Inr c \<Rightarrow>
                               Inr \<lparr>q_name = name,
                                 q_input_type = Option.bind (at_key (the (at_key (snd e) ''input'')) ''input_type'') (as_string (yaml_of pl)),
                                 q_input_config = input_config, q_input_filter = input_filter,
                                 q_window_config = window_config, q_sequence = sequence,
                                 q_modules = module_entries (at_key (the (at_key (snd e) ''handlers'')) ''modules''),
                                 q_taps = names, q_config = c\<rparr>))))"

text \<open>A load in progress: the registry, the policy that is built, and what a rollback has to undo.\<close>

record load =
  ld_reg :: registry
  ld_policy :: policy
  ld_window :: conf
  added_inputs :: "string list"
  added_handlers :: "string list"
  attached_inputs :: "string list"
  added_resources_policies :: "string list"

definition instantiate_handler :: "plugins \<Rightarrow> handler_data \<Rightarrow> string \<Rightarrow> proxy \<Rightarrow> exn + handler" where
  "instantiate_handler pl d name p =
     (if \<not> module_id name then Inl RuntimeError
      else
        case new_handler pl (hd_type d) (hd_version d) name (hd_config d) (hd_filter d) of
          Some e \<Rightarrow> Inl e
        | None \<Rightarrow> Inr \<lparr>h_running = False, h_proxy = p, h_own_proxy = False, h_version = hd_version d\<rparr>)"

text \<open>The event proxy a handler is made for: the input's, or in a sequence a new one of the handler before.\<close>

fun chain_proxy :: "plugins \<Rightarrow> bool \<Rightarrow> string \<Rightarrow> proxy \<Rightarrow> (string \<times> handler) list \<Rightarrow> exn + proxy \<times> (string \<times> handler) list" where
  "chain_proxy pl sequence input p [] = Inr (p, [])"
| "chain_proxy pl sequence input p (h # hs) =
     (if \<not> sequence then Inr (p, h # hs)
      else
        case new_proxy pl input [] of
          Some e \<Rightarrow> Inl e
        | None \<Rightarrow>
            let (n, m) = last (h # hs) in
            Inr (HandlerProxy n, butlast (h # hs) @ [(n, m\<lparr>h_own_proxy := True\<rparr>)]))"

fun make_handlers ::
  "plugins \<Rightarrow> request \<Rightarrow> string \<Rightarrow> conf \<Rightarrow> string \<Rightarrow> proxy \<Rightarrow> (yaml \<times> yaml) list \<Rightarrow> (string \<times> handler) list
    \<Rightarrow> exn option \<times> (string \<times> handler) list" where
  "make_handlers pl q tap_name window input p [] hs = (None, hs)"
| "make_handlers pl q tap_name window input p (e # es) hs =
     (case validate_handler pl e window (q_sequence q) of
        Inl err \<Rightarrow> (Some err, hs)
      | Inr d \<Rightarrow>
          (case chain_proxy pl (q_sequence q) input p hs of
             Inl err \<Rightarrow> (Some err, hs)
           | Inr (proxy, hs') \<Rightarrow>
               let name = q_name q @ ''-'' @ tap_name @ ''-'' @ hd_name d in
               (case instantiate_handler pl d name proxy of
                  Inl err \<Rightarrow> (Some err, hs')
                | Inr h \<Rightarrow> make_handlers pl q tap_name window input p es (hs' @ [(name, h)]))))"

fun add_handlers :: "(string \<times> handler) list \<Rightarrow> load \<Rightarrow> exn option \<times> load" where
  "add_handlers [] l = (None, l)"
| "add_handlers ((n, h) # hs) l =
     (case module_add n h (handlers (ld_reg l)) of
        Inl e \<Rightarrow> (Some e, l)
      | Inr H \<Rightarrow>
          add_handlers hs (l\<lparr>ld_reg := (ld_reg l)\<lparr>handlers := H\<rparr>, added_handlers := added_handlers l @ [n]\<rparr>))"

definition make_input :: "plugins \<Rightarrow> request \<Rightarrow> tap \<Rightarrow> string \<Rightarrow> load \<Rightarrow> exn option \<times> load" where
  "make_input pl q t n l =
     (if module_exists n (inputs (ld_reg l)) then (None, l)
      else
        case instantiate_input pl t (q_input_config q) (q_input_filter q) n of
          Inl e \<Rightarrow> (Some (if runtime_error e then PolicyException else e), l)
        | Inr i \<Rightarrow>
            (None, l\<lparr>ld_reg := (ld_reg l)\<lparr>inputs := AList.update n i (inputs (ld_reg l))\<rparr>,
              added_inputs := added_inputs l @ [n]\<rparr>))"

text \<open>The handlers of one tap on its input stream.\<close>

definition join_input :: "plugins \<Rightarrow> request \<Rightarrow> string \<Rightarrow> string \<Rightarrow> load \<Rightarrow> exn option \<times> load" where
  "join_input pl q tap_name n l =
     (case module_get n (inputs (ld_reg l)) of
        Inl e \<Rightarrow> (Some e, l)
      | Inr i \<Rightarrow>
          (case add_event_proxy pl n (q_input_filter q) i of
             Inl e \<Rightarrow> (Some e, l)
           | Inr (proxy, i') \<Rightarrow>
               let l = l\<lparr>ld_reg := on_input n (\<lambda>_. i') (ld_reg l),
                          ld_policy := (ld_policy l)\<lparr>p_inputs := p_inputs (ld_policy l) @ [n]\<rparr>\<rparr> in
               (case make_handlers pl q tap_name (ld_window l) n proxy (q_modules q) [] of
                  (Some e, hs) \<Rightarrow> (Some e, l)
                | (None, hs) \<Rightarrow>
                    let l = l\<lparr>ld_policy := (ld_policy l)\<lparr>p_modules := p_modules (ld_policy l) @ map fst hs\<rparr>\<rparr> in
                    (case add_handlers hs l of
                       (Some e, l) \<Rightarrow> (Some e, l)
                     | (None, l) \<Rightarrow>
                         (None, l\<lparr>ld_reg := on_input n (add_policy (p_id (ld_policy l))) (ld_reg l),
                           attached_inputs := attached_inputs l @ [n]\<rparr>)))))"

definition load_tap :: "plugins \<Rightarrow> request \<Rightarrow> string \<Rightarrow> load \<Rightarrow> exn option \<times> load" where
  "load_tap pl q tap_name l =
     (case module_get tap_name (taps (ld_reg l)) of
        Inl e \<Rightarrow> (Some e, l)
      | Inr t \<Rightarrow>
          let l = l\<lparr>ld_policy := (ld_policy l)\<lparr>p_taps := p_taps (ld_policy l) @ [tap_name]\<rparr>\<rparr> in
          if q_input_type q = None then (Some YamlException, l)
          else if q_input_type q \<noteq> Some (input_plugin t) then (Some PolicyException, l)
          else
            let l = l\<lparr>ld_window := config_set ''_internal_tap_name'' (CString tap_name) (ld_window l)\<rparr>;
                n = get_input_name pl tap_name t (q_input_config q) (q_input_filter q) in
            (case make_input pl q t n l of
               (Some e, l) \<Rightarrow> (Some e, l)
             | (None, l) \<Rightarrow> join_input pl q tap_name n l))"

fun load_taps_of :: "plugins \<Rightarrow> request \<Rightarrow> string list \<Rightarrow> load \<Rightarrow> exn option \<times> load" where
  "load_taps_of pl q [] l = (None, l)"
| "load_taps_of pl q (t # ts') l = (case load_tap pl q t l of (Some e, l') \<Rightarrow> (Some e, l') | (None, l') \<Rightarrow> load_taps_of pl q ts' l')"

subsection \<open>The policies of the resources of an input\<close>

definition INPUT_RESOURCES :: string where "INPUT_RESOURCES = ''input_resources''"

text \<open>
  The policy for the resources of an input stream and its handler, which is started and registered here.
\<close>

definition create_resources_policy :: "plugins \<Rightarrow> string \<Rightarrow> conf \<Rightarrow> registry \<Rightarrow> (exn + (policy \<times> string) option) \<times> registry" where
  "create_resources_policy pl n window r =
     (if \<not> handler_available pl INPUT_RESOURCES ''1.0'' then (Inr None, r)
      else if \<not> module_id (resources_name n) then (Inl RuntimeError, r)
      else
        case module_get n (inputs r) of
          Inl e \<Rightarrow> (Inl e, r)
        | Inr i \<Rightarrow>
            (case add_event_proxy pl n [] i of
               Inl e \<Rightarrow> (Inl e, r)
             | Inr (proxy, i') \<Rightarrow>
                 let r = on_input n (\<lambda>_. i') r; name = resources_name n;
                     p = \<lparr>p_id = next_id r, p_running = False, p_taps = [], p_inputs = [n], p_modules = [name],
                       p_sequence = False, p_merge_like_handlers = False, p_config = []\<rparr> in
                 (case new_handler pl INPUT_RESOURCES ''1.0'' name window [] of
                    Some e \<Rightarrow> (Inl e, r)
                  | None \<Rightarrow>
                      (case start_handler pl name of
                         Some e \<Rightarrow> (Inl e, r)
                       | None \<Rightarrow>
                           (case module_add name \<lparr>h_running = True, h_proxy = proxy, h_own_proxy = False, h_version = ''1.0''\<rparr>
                                   (handlers r) of
                              Inl e \<Rightarrow> (Inl e, r)
                            | Inr H \<Rightarrow> (Inr (Some (p, name)), r\<lparr>handlers := H, next_id := next_id r + 1\<rparr>))))))"

fun create_all :: "plugins \<Rightarrow> string list \<Rightarrow> load \<Rightarrow> exn option \<times> (string \<times> policy) list \<times> load" where
  "create_all pl [] l = (None, [], l)"
| "create_all pl (n # ns) l =
     (case create_resources_policy pl n (ld_window l) (ld_reg l) of
        (Inl e, r) \<Rightarrow> (Some e, [], l\<lparr>ld_reg := r\<rparr>)
      | (Inr None, r) \<Rightarrow> create_all pl ns (l\<lparr>ld_reg := r\<rparr>)
      | (Inr (Some (p, name)), r) \<Rightarrow>
          (case create_all pl ns (l\<lparr>ld_reg := r, added_handlers := added_handlers l @ [name]\<rparr>) of
             (e, ps, l') \<Rightarrow> (e, (name, p) # ps, l')))"

text \<open>Started, put on its input and registered; what cannot be registered is stopped again.\<close>

definition register_resources :: "plugins \<Rightarrow> string \<Rightarrow> policy \<Rightarrow> load \<Rightarrow> exn option \<times> load" where
  "register_resources pl name p l =
     (case policy_start pl p (ld_reg l) of
        (Some e, p', r) \<Rightarrow> (Some e, l\<lparr>ld_reg := r\<rparr>)
      | (None, p', r) \<Rightarrow>
          let r = on_input (last (p_inputs p')) (add_policy (p_id p')) r in
          (case module_add name p' (policies r) of
             Inl e \<Rightarrow> (Some e, l\<lparr>ld_reg := snd (policy_stop p' r)\<rparr>)
           | Inr P \<Rightarrow>
               (None, l\<lparr>ld_reg := r\<lparr>policies := P\<rparr>, added_resources_policies := added_resources_policies l @ [name]\<rparr>)))"

fun register_all :: "plugins \<Rightarrow> (string \<times> policy) list \<Rightarrow> load \<Rightarrow> exn option \<times> load" where
  "register_all pl [] l = (None, l)"
| "register_all pl ((name, p) # ps) l =
     (case register_resources pl name p l of (Some e, l') \<Rightarrow> (Some e, l') | (None, l') \<Rightarrow> register_all pl ps l')"

subsection \<open>Rollback\<close>

text \<open>One step of a rollback: its exception is logged and dropped.\<close>

definition drop_exn :: "exn option \<times> registry \<Rightarrow> registry" where
  "drop_exn s = snd s"

definition detach_input :: "string \<Rightarrow> nat \<Rightarrow> string list \<Rightarrow> string \<Rightarrow> registry \<Rightarrow> exn option \<times> registry" where
  "detach_input policy_name pid added n r =
     (if map_of (inputs r) n = None then (None, r)
      else
        let r = on_input n (remove_policy_ptr pid) r in
        if n \<in> set added then (None, r) else remove_input_if_unused policy_name n r)"

definition drop_resources :: "string \<Rightarrow> registry \<Rightarrow> registry" where
  "drop_resources name r =
     (let r = (case map_of (policies r) name of None \<Rightarrow> r | Some q \<Rightarrow> stop_registered name q r) in
      case module_remove name (policies r) of Inl e \<Rightarrow> r | Inr P \<Rightarrow> r\<lparr>policies := P\<rparr>)"

definition rollback :: "string \<Rightarrow> load \<Rightarrow> registry" where
  "rollback policy_name l =
     (let r = snd (policy_stop (ld_policy l) (ld_reg l));
          r = fold (\<lambda>n r. drop_exn (detach_input policy_name (p_id (ld_policy l)) (added_inputs l) n r)) (attached_inputs l) r;
          r = fold drop_resources (added_resources_policies l) r;
          r = fold (\<lambda>n r. drop_exn (remove_handler n r)) (added_handlers l) r in
      fold (\<lambda>n r. drop_exn (remove_input n r)) (added_inputs l) r)"

subsection \<open>The load of policies\<close>

definition start_load :: "request \<Rightarrow> registry \<Rightarrow> load" where
  "start_load q r =
     \<lparr>ld_reg = r\<lparr>next_id := next_id r + 1\<rparr>,
      ld_policy = \<lparr>p_id = next_id r, p_running = False, p_taps = [], p_inputs = [], p_modules = [],
        p_sequence = q_sequence q, p_merge_like_handlers = False, p_config = q_config q\<rparr>,
      ld_window = q_window_config q, added_inputs = [], added_handlers = [], attached_inputs = [],
      added_resources_policies = []\<rparr>"

text \<open>The second half of a load: everything that was made is started and registered.\<close>

definition run_load :: "plugins \<Rightarrow> request \<Rightarrow> load \<Rightarrow> exn option \<times> load" where
  "run_load pl q l =
     (case create_all pl (added_inputs l) l of
        (Some e, ps, l) \<Rightarrow> (Some e, l)
      | (None, ps, l) \<Rightarrow>
          (case policy_start pl (ld_policy l) (ld_reg l) of
             (Some e, p, r) \<Rightarrow> (Some e, l\<lparr>ld_policy := p, ld_reg := r\<rparr>)
           | (None, p, r) \<Rightarrow>
               (case register_all pl ps (l\<lparr>ld_policy := p, ld_reg := r\<rparr>) of
                  (Some e, l) \<Rightarrow> (Some e, l)
                | (None, l) \<Rightarrow>
                    (case module_add (q_name q) (ld_policy l) (policies (ld_reg l)) of
                       Inl e \<Rightarrow> (Some e, l)
                     | Inr P \<Rightarrow> (None, l\<lparr>ld_reg := (ld_reg l)\<lparr>policies := P\<rparr>\<rparr>)))))"

definition load_policy :: "plugins \<Rightarrow> yaml \<times> yaml \<Rightarrow> registry \<Rightarrow> exn option \<times> registry" where
  "load_policy pl e r =
     (case parse_policy pl e r of
        Inl err \<Rightarrow> (Some err, r)
      | Inr q \<Rightarrow>
          (case load_taps_of pl q (q_taps q) (start_load q r) of
             (Some err, l) \<Rightarrow> (Some err, rollback (q_name q) l)
           | (None, l) \<Rightarrow>
               (case run_load pl q l of
                  (Some err, l) \<Rightarrow> (Some (if runtime_error err then PolicyException else err), rollback (q_name q) l)
                | (None, l) \<Rightarrow> (None, ld_reg l))))"

fun load_policies :: "plugins \<Rightarrow> (yaml \<times> yaml) list \<Rightarrow> registry \<Rightarrow> exn option \<times> registry" where
  "load_policies pl [] r = (None, r)"
| "load_policies pl (e # es) r =
     (case load_policy pl e r of (Some err, r') \<Rightarrow> (Some err, r') | (None, r') \<Rightarrow> load_policies pl es r')"

definition load_all :: "plugins \<Rightarrow> (yaml \<times> yaml) list \<Rightarrow> bool \<Rightarrow> registry \<Rightarrow> exn option \<times> registry" where
  "load_all pl es single r =
     (if single \<and> length es > 1 then (Some PolicyException, r) else load_policies pl es r)"

end
