(* ===== verification/PolicyLoads.thy ===== *)
theory PolicyLoads
  imports Policies
begin

text \<open>
  The load of a policy is transactional: the rollback of a load that fails restores the registry
  (\<^verbatim>\<open>PolicyManager::load\<close> of \<^verbatim>\<open>src/Policies.cpp\<close>).
\<close>

subsection \<open>A failed load leaves nothing behind\<close>

text \<open>Association lists with new entries behind the old ones.\<close>

lemma map_entry_old: "n \<in> fst ` set xs \<Longrightarrow> AList.map_entry n f (xs @ ys) = AList.map_entry n f xs @ ys"
  by (induction xs) auto

lemma map_entry_new: "n \<notin> fst ` set xs \<Longrightarrow> AList.map_entry n f (xs @ ys) = xs @ AList.map_entry n f ys"
  by (induction xs) auto

lemma map_entry_none: "n \<notin> fst ` set xs \<Longrightarrow> AList.map_entry n f xs = xs"
  by (induction xs) auto

lemma keys_map_entry [simp]: "map fst (AList.map_entry n f xs) = map fst xs"
  by (induction xs) auto

lemma update_new: "n \<notin> fst ` set xs \<Longrightarrow> AList.update n v xs = xs @ [(n, v)]"
  by (induction xs) auto

lemma delete_new: "n \<notin> fst ` set xs \<Longrightarrow> AList.delete n (xs @ ys) = xs @ AList.delete n ys"
  by (induction xs) auto

lemma delete_head: "n \<notin> fst ` set ys \<Longrightarrow> AList.delete n ((n, v) # ys) = ys"
  by (auto simp: alist_delete_filter intro!: filter_True)

lemma keys_eq: "fst ` set xs = set (map fst xs)"
  by simp

lemma set_map_entry:
  assumes "(m, y) \<in> set (AList.map_entry n f xs)"
  shows "(m, y) \<in> set xs \<or> m = n \<and> (\<exists>x. (n, x) \<in> set xs \<and> y = f x)"
  using assms by (induction xs) (auto split: if_splits)

lemma module_exists_iff: "module_exists n M \<longleftrightarrow> n \<in> set (map fst M)"
  by (auto simp: module_exists_def map_of_eq_None_iff)

text \<open>An input of before the load: it has the policies it had, and perhaps the one that is loaded.\<close>

definition kept :: "nat \<Rightarrow> string \<times> input_stream \<Rightarrow> string \<times> input_stream \<Rightarrow> bool" where
  "kept pid a b \<longleftrightarrow>
     fst a = fst b \<and> in_running (snd a) = in_running (snd b)
     \<and> filter (\<lambda>q. q \<noteq> pid) (in_policies (snd a)) = in_policies (snd b)"

text \<open>
  The registry during a load: the old entries, and behind them the inputs, the handlers and the policies of
  resources that the load has added. \<open>PM\<close> are the modules of the policy that is loaded and
  \<open>b\<close> tells whether it runs.
\<close>

definition old_inputs :: "registry \<Rightarrow> nat \<Rightarrow> string list \<Rightarrow> input_stream modules \<Rightarrow> bool" where
  "old_inputs r0 pid ai xs \<longleftrightarrow> (\<exists>I N. xs = I @ N \<and> map fst N = ai \<and> list_all2 (kept pid) I (inputs r0))"

definition old_handlers :: "registry \<Rightarrow> bool \<Rightarrow> string set \<Rightarrow> string list \<Rightarrow> handler modules \<Rightarrow> bool" where
  "old_handlers r0 b PM ah xs \<longleftrightarrow>
     (\<exists>H. xs = handlers r0 @ H \<and> map fst H = ah
        \<and> (\<forall>(n, h) \<in> set H. if n \<in> PM then h_running h \<longrightarrow> b else \<exists>m k. h_proxy h = InputProxy m k))"

definition resources_of :: "string set \<Rightarrow> string list \<Rightarrow> string list \<Rightarrow> policy \<Rightarrow> bool" where
  "resources_of PM ai ah p \<longleftrightarrow> set (p_inputs p) \<subseteq> set ai \<and> set (p_modules p) \<subseteq> set ah - PM"

definition old_policies :: "registry \<Rightarrow> string set \<Rightarrow> string list \<Rightarrow> string list \<Rightarrow> string list \<Rightarrow> policy modules \<Rightarrow> bool" where
  "old_policies r0 PM ai ah ap xs \<longleftrightarrow>
     (\<exists>P. xs = policies r0 @ P \<and> map fst P = ap \<and> (\<forall>(m, p) \<in> set P. resources_of PM ai ah p))"

definition core ::
  "registry \<Rightarrow> nat \<Rightarrow> bool \<Rightarrow> string set \<Rightarrow> string list \<Rightarrow> string list \<Rightarrow> string list \<Rightarrow> registry \<Rightarrow> bool" where
  "core r0 pid b PM ai ah ap r \<longleftrightarrow>
     taps r = taps r0 \<and> old_inputs r0 pid ai (inputs r) \<and> old_handlers r0 b PM ah (handlers r)
     \<and> old_policies r0 PM ai ah ap (policies r)"

text \<open>The names the load adds are new, and the policies of resources have the names of the new inputs.\<close>

definition new_names :: "registry \<Rightarrow> string list \<Rightarrow> string list \<Rightarrow> string list \<Rightarrow> bool" where
  "new_names r0 ai ah ap \<longleftrightarrow>
     distinct (map fst (inputs r0) @ ai) \<and> distinct (map fst (handlers r0) @ ah) \<and> distinct (map fst (policies r0) @ ap)
     \<and> set ap \<subseteq> resources_name ` set ai"

text \<open>
  What a load relies on: every input runs, is used by a policy, and by two if the policy of its resources is
  there; every handler is connected to an input or a handler that is registered.
\<close>

definition settled :: "registry \<Rightarrow> bool" where
  "settled r \<longleftrightarrow>
     distinct (map fst (taps r)) \<and> distinct (map fst (inputs r)) \<and> distinct (map fst (handlers r)) \<and> distinct (map fst (policies r))
     \<and> (\<forall>(n, i) \<in> set (inputs r). in_running i \<and> in_policies i \<noteq> [] \<and> (\<forall>q \<in> set (in_policies i). q < next_id r)
          \<and> (module_exists (resources_name n) (policies r) \<longrightarrow> 2 \<le> policies_count i))
     \<and> (\<forall>(n, h) \<in> set (handlers r).
          case h_proxy h of InputProxy m _ \<Rightarrow> module_exists m (inputs r) | HandlerProxy m \<Rightarrow> module_exists m (handlers r))"

lemma resources_name_inj [simp]: "resources_name a = resources_name b \<longleftrightarrow> a = b"
  by (simp add: resources_name_def)

lemma kept_keys: "list_all2 (kept pid) I J \<Longrightarrow> map fst I = map fst J"
  by (induction rule: list_all2_induct) (auto simp: kept_def)

text \<open>Following a pointer to a new input or to a new handler.\<close>

lemma old_inputs_map_entry:
  assumes "old_inputs r0 pid ai xs" "n \<notin> fst ` set (inputs r0)"
  shows "old_inputs r0 pid ai (AList.map_entry n f xs)"
proof -
  from assms(1) obtain I N where I: "xs = I @ N" "map fst N = ai" "list_all2 (kept pid) I (inputs r0)"
    by (auto simp: old_inputs_def)
  have "n \<notin> fst ` set I" using kept_keys [OF I(3)] assms(2) by (metis keys_eq)
  then have "AList.map_entry n f xs = I @ AList.map_entry n f N" "map fst (AList.map_entry n f N) = ai"
    by (simp_all add: I map_entry_new)
  then show ?thesis using I(3) unfolding old_inputs_def by blast
qed

lemma on_new_input:
  "core r0 pid b PM ai ah ap r \<Longrightarrow> n \<notin> fst ` set (inputs r0) \<Longrightarrow> core r0 pid b PM ai ah ap (on_input n f r)"
  by (simp add: core_def on_input_def old_inputs_map_entry)

lemma old_handlers_map_entry:
  assumes "old_handlers r0 b PM ah xs" "n \<notin> fst ` set (handlers r0)" "\<And>h. h_proxy (f h) = h_proxy h"
    "\<And>h. n \<in> PM \<Longrightarrow> (h_running h \<longrightarrow> b) \<Longrightarrow> h_running (f h) \<Longrightarrow> b'" "b \<longrightarrow> b'"
  shows "old_handlers r0 b' PM ah (AList.map_entry n f xs)"
proof -
  from assms(1) obtain H where H: "xs = handlers r0 @ H" "map fst H = ah"
    "\<forall>(n, h) \<in> set H. if n \<in> PM then h_running h \<longrightarrow> b else \<exists>m k. h_proxy h = InputProxy m k"
    by (auto simp: old_handlers_def)
  have h: "AList.map_entry n f xs = handlers r0 @ AList.map_entry n f H" "map fst (AList.map_entry n f H) = ah"
    using assms(2) by (simp_all add: H map_entry_new)
  have "if m \<in> PM then h_running h \<longrightarrow> b' else \<exists>m k. h_proxy h = InputProxy m k" if "(m, h) \<in> set (AList.map_entry n f H)" for m h
    using set_map_entry [OF that] H(3) assms(3-5) by (force split: if_splits)
  then show ?thesis unfolding old_handlers_def using h by blast
qed

lemma on_new_handler:
  assumes "core r0 pid b PM ai ah ap r" "n \<notin> fst ` set (handlers r0)" "\<And>h. h_proxy (f h) = h_proxy h"
    "\<And>h. n \<in> PM \<Longrightarrow> (h_running h \<longrightarrow> b) \<Longrightarrow> h_running (f h) \<Longrightarrow> b'" "b \<longrightarrow> b'"
  shows "core r0 pid b' PM ai ah ap (on_handler n f r)"
  using old_handlers_map_entry [of r0 b PM ah "handlers r" n f b'] assms by (simp add: core_def on_handler_def)

lemma core_mono: "core r0 pid b PM ai ah ap r \<Longrightarrow> b \<longrightarrow> b' \<Longrightarrow> core r0 pid b' PM ai ah ap r"
  unfolding core_def old_handlers_def by (auto split: if_splits)

text \<open>Stopping the modules of a policy.\<close>

lemma map_entry_map:
  "distinct (map fst xs) \<Longrightarrow> AList.map_entry n f xs = map (\<lambda>(m, x). (m, if m = n then f x else x)) xs"
proof (induction xs)
  case (Cons p xs)
  have "map (\<lambda>(m, x). (m, if m = fst p then f x else x)) xs = xs"
    using Cons.prems by (intro map_idI) (auto simp: image_iff split: prod.splits)
  then show ?case using Cons by (cases p) auto
qed simp

lemma stop_modules_handlers:
  assumes "distinct (map fst (handlers r))"
  shows "handlers (fold stop_module ns r) = map (\<lambda>(m, h). (m, if m \<in> set ns then h\<lparr>h_running := False\<rparr> else h)) (handlers r)"
  using assms
proof (induction ns arbitrary: r)
  case Nil
  have "map (\<lambda>(m, h). (m, if m \<in> set [] then h\<lparr>h_running := False\<rparr> else h)) (handlers r) = handlers r"
    by (intro map_idI) auto
  then show ?case by simp
next
  case (Cons n ns)
  have h: "handlers (stop_module n r) = map (\<lambda>(m, h). (m, if m = n then h\<lparr>h_running := False\<rparr> else h)) (handlers r)"
    by (simp add: stop_module_def on_handler_def map_entry_map [OF Cons.prems])
  then have "distinct (map fst (handlers (stop_module n r)))" using Cons.prems by (simp add: o_def case_prod_unfold)
  from Cons.IH [OF this] show ?case by (simp add: h) (auto intro!: map_cong split: if_splits)
qed

lemma stop_modules_other [simp]:
  "inputs (fold stop_module ns r) = inputs r" "policies (fold stop_module ns r) = policies r"
  "taps (fold stop_module ns r) = taps r" "next_id (fold stop_module ns r) = next_id r"
  by (induction ns arbitrary: r) (simp_all add: stop_module_def on_handler_def)

lemma core_handler_keys:
  assumes "core r0 pid b PM ai ah ap r" "new_names r0 ai ah ap"
  shows "map fst (handlers r) = map fst (handlers r0) @ ah" "distinct (map fst (handlers r))"
  using assms by (auto simp: core_def old_handlers_def new_names_def)

lemma core_input_keys:
  assumes "core r0 pid b PM ai ah ap r" "new_names r0 ai ah ap"
  shows "map fst (inputs r) = map fst (inputs r0) @ ai" "distinct (map fst (inputs r))"
proof -
  from assms(1) obtain I N where I: "inputs r = I @ N" "map fst N = ai" "list_all2 (kept pid) I (inputs r0)"
    by (auto simp: core_def old_inputs_def)
  then show a: "map fst (inputs r) = map fst (inputs r0) @ ai" using kept_keys by auto
  show "distinct (map fst (inputs r))" using assms(2) unfolding a by (simp add: new_names_def)
qed

lemma core_stop_modules:
  assumes "core r0 pid b PM ai ah ap r" "new_names r0 ai ah ap" "set ns \<subseteq> set ah" "b \<longrightarrow> PM \<inter> set ah \<subseteq> set ns \<or> b'"
  shows "core r0 pid b' PM ai ah ap (fold stop_module ns r)"
proof -
  from assms(1) obtain H where H: "handlers r = handlers r0 @ H" "map fst H = ah"
    "\<forall>(n, h) \<in> set H. if n \<in> PM then h_running h \<longrightarrow> b else \<exists>m k. h_proxy h = InputProxy m k"
    by (auto simp: core_def old_handlers_def)
  let ?f = "\<lambda>(m, h). (m, if m \<in> set ns then h\<lparr>h_running := False\<rparr> else h)"
  have "map ?f (handlers r0) = handlers r0"
    using assms(2,3) by (intro map_idI) (force simp: new_names_def)
  then have "handlers (fold stop_module ns r) = handlers r0 @ map ?f H"
    by (simp add: stop_modules_handlers [OF core_handler_keys(2) [OF assms(1,2)]] H(1))
  moreover have "map fst (map ?f H) = ah" using H(2) by (simp add: o_def case_prod_unfold)
  moreover have "if n \<in> PM then h_running h \<longrightarrow> b' else \<exists>m k. h_proxy h = InputProxy m k" if n: "(n, h) \<in> set (map ?f H)" for n h
  proof -
    obtain h0 where h0: "(n, h0) \<in> set H" "h = (if n \<in> set ns then h0\<lparr>h_running := False\<rparr> else h0)" using n by auto
    then have "n \<in> set ah" using H(2) by force
    then show ?thesis using h0 H(3) assms(4) by (force split: if_splits)
  qed
  ultimately have "old_handlers r0 b' PM ah (handlers (fold stop_module ns r))"
    unfolding old_handlers_def by blast
  then show ?thesis using assms(1) by (simp add: core_def)
qed

text \<open>Leaving inputs.\<close>

lemma leave_other [simp]:
  "handlers (fold (leave_input pid) ns r) = handlers r" "policies (fold (leave_input pid) ns r) = policies r"
  "taps (fold (leave_input pid) ns r) = taps r" "next_id (fold (leave_input pid) ns r) = next_id r"
  by (induction ns arbitrary: r) (simp_all add: leave_input_def on_input_def)

lemma leave_new_inputs:
  assumes "core r0 pid b PM ai ah ap r" "new_names r0 ai ah ap" "set ns \<subseteq> set ai"
  shows "core r0 pid b PM ai ah ap (fold (leave_input q) ns r)"
  using assms(1,3)
proof (induction ns arbitrary: r)
  case (Cons n ns)
  have "n \<notin> fst ` set (inputs r0)" using assms(2) Cons.prems(2) by (auto simp: new_names_def)
  then have "core r0 pid b PM ai ah ap (leave_input q n r)" unfolding leave_input_def by (rule on_new_input [OF Cons.prems(1)])
  then show ?case using Cons by simp
qed simp

text \<open>Whether the policy that is loaded is on an input.\<close>

definition is_on :: "nat \<Rightarrow> string \<Rightarrow> registry \<Rightarrow> bool" where
  "is_on pid n r \<longleftrightarrow> (\<exists>i. map_of (inputs r) n = Some i \<and> pid \<in> set (in_policies i))"

lemma is_on_on_input:
  "is_on pid m (on_input n f r) \<longleftrightarrow>
     (if m = n then \<exists>i. map_of (inputs r) n = Some i \<and> pid \<in> set (in_policies (f i)) else is_on pid m r)"
  by (auto simp: is_on_def on_input_def AList.map_of_map_entry split: option.splits)

lemma old_inputs_keep:
  assumes "old_inputs r0 pid ai xs" "\<And>i. (n, i) \<in> set xs \<Longrightarrow> in_running (f i) = in_running i \<and> filter (\<lambda>q. q \<noteq> pid) (in_policies (f i)) = filter (\<lambda>q. q \<noteq> pid) (in_policies i)"
  shows "old_inputs r0 pid ai (AList.map_entry n f xs)"
proof (cases "n \<in> fst ` set (inputs r0)")
  case False
  then show ?thesis using assms(1) by (rule old_inputs_map_entry [rotated])
next
  case True
  from assms(1) obtain I N where I: "xs = I @ N" "map fst N = ai" "list_all2 (kept pid) I (inputs r0)"
    by (auto simp: old_inputs_def)
  have "n \<in> fst ` set I" using kept_keys [OF I(3)] True by (metis keys_eq)
  then have "AList.map_entry n f xs = AList.map_entry n f I @ N" by (simp add: I map_entry_old)
  moreover have "list_all2 (kept pid) (AList.map_entry n f I) (inputs r0)"
    using I(3) assms(2) unfolding I(1)
  proof (induction rule: list_all2_induct)
    case (Cons a I b J)
    obtain m i where a: "a = (m, i)" by (cases a)
    have "list_all2 (kept pid) (AList.map_entry n f I) J" using Cons.IH Cons.prems by auto
    moreover have "kept pid (n, f i) b" if "m = n" using Cons.prems [of i] Cons.hyps(1) that by (simp add: kept_def a)
    ultimately show ?case using Cons.hyps by (simp add: a)
  qed simp
  ultimately show ?thesis using I(2) unfolding old_inputs_def by blast
qed

lemma old_input:
  assumes "core r0 pid b PM ai ah ap r" "new_names r0 ai ah ap" "n \<in> fst ` set (inputs r0)" "(n, i) \<in> set (inputs r)"
  shows "\<exists>j. (n, j) \<in> set (inputs r0) \<and> in_running i = in_running j \<and> filter (\<lambda>q. q \<noteq> pid) (in_policies i) = in_policies j"
proof -
  from assms(1) obtain I N where I: "inputs r = I @ N" "map fst N = ai" "list_all2 (kept pid) I (inputs r0)"
    by (auto simp: core_def old_inputs_def)
  have "n \<notin> set ai" using assms(2,3) by (auto simp: new_names_def)
  then have "(n, i) \<in> set I" using assms(4) I(1,2) by force
  then obtain b where "b \<in> set (inputs r0)" "kept pid (n, i) b" using I(3) by (metis list_all2_conv_all_nth in_set_conv_nth)
  then show ?thesis by (intro exI [of _ "snd b"]) (auto simp: kept_def prod_eq_iff)
qed

lemma keep_old_input:
  assumes "core r0 pid b PM ai ah ap r"
    "\<And>i. (n, i) \<in> set (inputs r) \<Longrightarrow> in_running (f i) = in_running i \<and> filter (\<lambda>q. q \<noteq> pid) (in_policies (f i)) = filter (\<lambda>q. q \<noteq> pid) (in_policies i)"
  shows "core r0 pid b PM ai ah ap (on_input n f r)"
  using assms(1) old_inputs_keep [OF _ assms(2)] by (simp add: core_def on_input_def)

lemma settled_input:
  assumes "settled r0" "(n, j) \<in> set (inputs r0)"
  shows "in_running j" "in_policies j \<noteq> []" "\<forall>q \<in> set (in_policies j). q < next_id r0"
    "resources_name n \<in> fst ` set (policies r0) \<Longrightarrow> 2 \<le> length (in_policies j)"
  using assms by (auto simp: settled_def module_exists_iff policies_count_def)

lemma leave_joined_one:
  assumes "core r0 pid b PM ai ah ap r" "new_names r0 ai ah ap" "settled r0" "n \<in> fst ` set (inputs r0) \<Longrightarrow> is_on pid n r"
  shows "core r0 pid b PM ai ah ap (leave_input pid n r)"
proof (cases "n \<in> fst ` set (inputs r0)")
  case False
  then show ?thesis unfolding leave_input_def by (rule on_new_input [OF assms(1)])
next
  case True
  show ?thesis unfolding leave_input_def
  proof (rule keep_old_input [OF assms(1)])
    fix i assume i: "(n, i) \<in> set (inputs r)"
    obtain j where j: "(n, j) \<in> set (inputs r0)" "filter (\<lambda>q. q \<noteq> pid) (in_policies i) = in_policies j"
      using old_input [OF assms(1,2) True i] by blast
    have "map_of (inputs r) n = Some i" using i core_input_keys(2) [OF assms(1,2)] by simp
    then have "pid \<in> set (in_policies i)" using assms(4) [OF True] by (simp add: is_on_def)
    then have "length (filter (\<lambda>q. q \<noteq> pid) (in_policies i)) < length (in_policies i)" by (rule length_filter_less) simp
    then have "\<not> policies_count i \<le> 1" using settled_input(2) [OF assms(3) j(1)] j(2) by (simp add: policies_count_def) (cases "in_policies j"; simp)
    then show "in_running (remove_policy_ptr pid (if in_running i \<and> policies_count i \<le> 1 then i\<lparr>in_running := False\<rparr> else i)) = in_running i
      \<and> filter (\<lambda>q. q \<noteq> pid) (in_policies (remove_policy_ptr pid (if in_running i \<and> policies_count i \<le> 1 then i\<lparr>in_running := False\<rparr> else i))) =
        filter (\<lambda>q. q \<noteq> pid) (in_policies i)"
      by (simp add: remove_policy_ptr_def)
  qed
qed

lemma is_on_leave: "is_on pid m (leave_input pid n r) \<longleftrightarrow> m \<noteq> n \<and> is_on pid m r"
  by (auto simp: leave_input_def is_on_on_input remove_policy_ptr_def)

lemma leave_joined:
  assumes "core r0 pid b PM ai ah ap r" "new_names r0 ai ah ap" "settled r0" "distinct ns"
    "\<forall>n \<in> set ns \<inter> fst ` set (inputs r0). is_on pid n r"
  shows "core r0 pid b PM ai ah ap (fold (leave_input pid) ns r) \<and> (\<forall>m. is_on pid m (fold (leave_input pid) ns r) \<longrightarrow> is_on pid m r)"
  using assms(1,4,5)
proof (induction ns arbitrary: r)
  case (Cons n ns)
  have "core r0 pid b PM ai ah ap (leave_input pid n r)" using leave_joined_one Cons.prems assms(2,3) by simp
  moreover have "\<forall>m \<in> set ns \<inter> fst ` set (inputs r0). is_on pid m (leave_input pid n r)" using Cons.prems by (auto simp: is_on_leave)
  ultimately show ?case using Cons.IH [of "leave_input pid n r"] Cons.prems by (auto simp: is_on_leave)
qed simp

lemma is_on_stop_modules [simp]: "is_on pid m (fold stop_module ns r) = is_on pid m r"
  by (simp add: is_on_def)

lemma stop_loaded:
  assumes "core r0 (p_id p) (p_running p) (set (p_modules p)) ai ah ap r" "new_names r0 ai ah ap" "settled r0"
    "p_running p \<Longrightarrow> distinct (p_inputs p) \<and> (\<forall>n \<in> set (p_inputs p) \<inter> fst ` set (inputs r0). is_on (p_id p) n r) \<and> set (p_modules p) \<subseteq> set ah"
  shows "core r0 (p_id p) False (set (p_modules p)) ai ah ap (snd (policy_stop p r))"
    "is_on (p_id p) m (snd (policy_stop p r)) \<Longrightarrow> is_on (p_id p) m r"
proof -
  have "core r0 (p_id p) False (set (p_modules p)) ai ah ap (snd (policy_stop p r))
      \<and> (is_on (p_id p) m (snd (policy_stop p r)) \<longrightarrow> is_on (p_id p) m r)"
  proof (cases "p_running p")
    case False
    then show ?thesis using assms(1) by (simp add: policy_stop_def)
  next
    case True
    note l = leave_joined [OF assms(1-3), of "p_inputs p"]
    have "core r0 (p_id p) False (set (p_modules p)) ai ah ap (fold stop_module (p_modules p) (fold (leave_input (p_id p)) (p_inputs p) r))"
      using assms(4) True by (intro core_stop_modules [OF conjunct1 [OF l] assms(2)]) auto
    then show ?thesis using l assms(4) True by (simp add: policy_stop_def)
  qed
  then show "core r0 (p_id p) False (set (p_modules p)) ai ah ap (snd (policy_stop p r))"
    "is_on (p_id p) m (snd (policy_stop p r)) \<Longrightarrow> is_on (p_id p) m r" by simp_all
qed

lemma no_resources_policy:
  assumes "core r0 pid b PM ai ah ap r" "new_names r0 ai ah ap" "settled r0" "(n, j) \<in> set (inputs r0)" "length (in_policies j) = 1"
  shows "map_of (policies r) (resources_name n) = None"
proof -
  have "resources_name n \<notin> fst ` set (policies r0)" using settled_input(4) [OF assms(3,4)] assms(5) by auto
  moreover have "n \<notin> set ai" using assms(2,4) by (force simp: new_names_def)
  then have "resources_name n \<notin> set ap" using assms(2) by (auto simp: new_names_def)
  moreover have "map fst (policies r) = map fst (policies r0) @ ap" using assms(1) by (auto simp: core_def old_policies_def)
  then have "fst ` set (policies r) = fst ` set (policies r0) \<union> set ap" by (metis set_append set_map)
  ultimately show ?thesis by (auto simp: map_of_eq_None_iff)
qed

lemma detach_one:
  assumes "core r0 pid b PM ai ah ap r" "new_names r0 ai ah ap" "settled r0"
  shows "core r0 pid b PM ai ah ap (drop_exn (detach_input name pid ai n r))"
    "is_on pid m (drop_exn (detach_input name pid ai n r)) \<Longrightarrow> m \<noteq> n \<and> is_on pid m r"
proof -
  let ?r = "on_input n (remove_policy_ptr pid) r"
  have c: "core r0 pid b PM ai ah ap ?r"
    by (rule keep_old_input [OF assms(1)]) (simp add: remove_policy_ptr_def)
  have o: "is_on pid m ?r \<Longrightarrow> m \<noteq> n \<and> is_on pid m r" for m
    by (auto simp: is_on_on_input remove_policy_ptr_def split: if_splits)
  have "drop_exn (detach_input name pid ai n r) = (if map_of (inputs r) n = None then r else ?r)"
  proof (cases "map_of (inputs r) n = None \<or> n \<in> set ai")
    case True
    then show ?thesis by (auto simp: detach_input_def drop_exn_def Let_def)
  next
    case False
    then obtain i where i: "map_of (inputs r) n = Some i" by auto
    then have "(n, i) \<in> set (inputs r)" by (rule map_of_SomeD)
    moreover from this have n: "n \<in> fst ` set (inputs r0)"
      using core_input_keys(1) [OF assms(1,2)] False by (metis Un_iff fst_conv image_eqI set_append set_map)
    ultimately obtain j where j: "(n, j) \<in> set (inputs r0)" "filter (\<lambda>q. q \<noteq> pid) (in_policies i) = in_policies j"
      using old_input [OF assms(1,2)] by blast
    have count: "count_on n ?r = length (in_policies j)"
      by (simp add: count_on_def on_input_def AList.map_of_map_entry i remove_policy_ptr_def policies_count_def j)
    have "remove_resources_policy n name ?r = (None, ?r)"
      using no_resources_policy [OF c assms(2,3) j(1)] by (simp add: remove_resources_policy_def count)
    then have "remove_input_if_unused name n ?r = (None, ?r)"
      using settled_input(2) [OF assms(3) j(1)] by (simp add: remove_input_if_unused_def count)
    then show ?thesis using False by (auto simp: detach_input_def drop_exn_def Let_def)
  qed
  then show "core r0 pid b PM ai ah ap (drop_exn (detach_input name pid ai n r))"
    "is_on pid m (drop_exn (detach_input name pid ai n r)) \<Longrightarrow> m \<noteq> n \<and> is_on pid m r"
    using c o [of m] assms(1) by (auto simp: is_on_def split: if_splits)
qed

lemma detach_all:
  assumes "core r0 pid b PM ai ah ap r" "new_names r0 ai ah ap" "settled r0"
  shows "core r0 pid b PM ai ah ap (fold (\<lambda>n r. drop_exn (detach_input name pid ai n r)) ns r)
    \<and> (\<forall>m. is_on pid m (fold (\<lambda>n r. drop_exn (detach_input name pid ai n r)) ns r) \<longrightarrow> m \<notin> set ns \<and> is_on pid m r)"
  using assms(1)
proof (induction ns arbitrary: r)
  case (Cons n ns)
  from detach_one [OF Cons.prems assms(2,3)] Cons.IH show ?case by (simp, blast)
qed simp

lemma map_of_middle: "n \<notin> fst ` set xs \<Longrightarrow> map_of (xs @ (n, v) # ys) n = Some v"
  by (simp add: map_add_def map_of_eq_None_iff [THEN iffD2])

lemma stop_resources:
  assumes "core r0 pid b PM ai ah ap r" "new_names r0 ai ah ap" "resources_of PM ai ah q"
  shows "core r0 pid b PM ai ah ap (snd (policy_stop q r))" "policies (snd (policy_stop q r)) = policies r"
    "n \<notin> set ai \<Longrightarrow> is_on pid n (snd (policy_stop q r)) = is_on pid n r"
proof -
  have s: "set (p_inputs q) \<subseteq> set ai" "set (p_modules q) \<subseteq> set ah" using assms(3) by (auto simp: resources_of_def)
  show "core r0 pid b PM ai ah ap (snd (policy_stop q r))"
    using core_stop_modules [OF leave_new_inputs [OF assms(1,2) s(1)] assms(2) s(2)] assms(1) by (simp add: policy_stop_def)
  show "policies (snd (policy_stop q r)) = policies r" by (simp add: policy_stop_def)
  have "is_on pid n (fold (leave_input k) ns r) = is_on pid n r" if "n \<notin> set ns" for k ns r
    using that by (induction ns arbitrary: r) (auto simp: leave_input_def is_on_on_input)
  then show "n \<notin> set ai \<Longrightarrow> is_on pid n (snd (policy_stop q r)) = is_on pid n r"
    using s(1) by (auto simp: policy_stop_def)
qed

lemma drop_one:
  assumes "core r0 pid False PM ai ah (name # ap) r" "new_names r0 ai ah (name # ap)"
  shows "core r0 pid False PM ai ah ap (drop_resources name r)"
    "n \<notin> set ai \<Longrightarrow> is_on pid n (drop_resources name r) = is_on pid n r"
proof -
  from assms(1) obtain q P where P: "policies r = policies r0 @ (name, q) # P" "map fst P = ap"
    "\<forall>(m, p) \<in> set P. resources_of PM ai ah p" "resources_of PM ai ah q"
    by (auto simp: core_def old_policies_def Cons_eq_map_conv)
  have old: "name \<notin> fst ` set (policies r0)" "name \<notin> fst ` set P" using assms(2) unfolding new_names_def P(2) [symmetric] by simp_all
  have "map_of (policies r) name = Some q" unfolding P(1) by (rule map_of_middle [OF old(1)])
  moreover have "policies (stop_registered name q r) = policies r0 @ (name, fst (policy_stop q r)) # P"
    using old by (simp add: stop_registered_def case_prod_unfold stop_resources(2) [OF assms P(4)] P(1) map_entry_new)
  moreover have "module_remove name (policies r0 @ (name, q') # P) = Inr (policies r0 @ P)" for q'
    using old by (simp add: module_remove_def module_exists_iff delete_new delete_head)
  ultimately have d: "drop_resources name r = (stop_registered name q r)\<lparr>policies := policies r0 @ P\<rparr>"
    by (simp add: drop_resources_def Let_def)
  show "core r0 pid False PM ai ah ap (drop_resources name r)"
    using stop_resources(1) [OF assms P(4)] P(2,3)
    by (auto simp: d core_def stop_registered_def case_prod_unfold old_policies_def)
  show "n \<notin> set ai \<Longrightarrow> is_on pid n (drop_resources name r) = is_on pid n r"
    using stop_resources(3) [OF assms P(4)] by (simp add: d stop_registered_def case_prod_unfold is_on_def)
qed

lemma drop_all:
  assumes "core r0 pid False PM ai ah ap r" "new_names r0 ai ah ap"
  shows "core r0 pid False PM ai ah [] (fold drop_resources ap r)
    \<and> (\<forall>n. n \<notin> set ai \<longrightarrow> is_on pid n (fold drop_resources ap r) = is_on pid n r)"
  using assms
proof (induction ap arbitrary: r)
  case (Cons name ap)
  have "new_names r0 ai ah ap" using Cons.prems(2) by (auto simp: new_names_def)
  then show ?case using Cons.IH [OF drop_one(1) [OF Cons.prems]] drop_one(2) [OF Cons.prems] by simp
qed simp

lemma no_policies_left: "old_policies r0 PM ai ah [] xs \<Longrightarrow> old_policies r0 PM ai' ah' [] xs"
  by (auto simp: old_policies_def)

lemma remove_one_handler:
  assumes "core r0 pid False PM ai (n # ah) [] r" "new_names r0 ai (n # ah) []" "settled r0"
  shows "core r0 pid False PM ai ah [] (drop_exn (remove_handler n r))" "inputs (drop_exn (remove_handler n r)) = inputs r"
proof -
  from assms(1) obtain h H where H: "handlers r = handlers r0 @ (n, h) # H" "map fst H = ah"
    "\<forall>(n, h) \<in> set ((n, h) # H). if n \<in> PM then h_running h \<longrightarrow> False else \<exists>m k. h_proxy h = InputProxy m k"
    by (force simp: core_def old_handlers_def Cons_eq_map_conv)
  have old: "n \<notin> fst ` set (handlers r0)" "n \<notin> fst ` set H" using assms(2) unfolding new_names_def H(2) [symmetric] by simp_all
  have "\<not> (h_running k \<and> h_proxy k = HandlerProxy n)" if m: "(m, k) \<in> set (handlers r)" for m k
  proof -
    consider "(m, k) \<in> set (handlers r0)" | "(m, k) \<in> set ((n, h) # H)" using m unfolding H(1) set_append by blast
    then show ?thesis
    proof cases
      case 1
      then have "h_proxy k = HandlerProxy n \<Longrightarrow> module_exists n (handlers r0)" using assms(3) by (force simp: settled_def)
      then show ?thesis using old(1) by (auto simp: module_exists_iff)
    next
      case 2
      then show ?thesis using H(3) by (fastforce split: if_splits)
    qed
  qed
  then have "proxy_consumers (handlers r) (HandlerProxy n) = 0" by (auto simp: proxy_consumers_def filter_empty_conv)
  moreover have "map_of (handlers r) n = Some h" unfolding H(1) by (rule map_of_middle [OF old(1)])
  ultimately have d: "drop_exn (remove_handler n r) = r\<lparr>handlers := handlers r0 @ H\<rparr>"
    using old by (simp add: drop_exn_def remove_handler_def handler_module_remove_def handler_consumers_def H(1) delete_new delete_head)
  then show "inputs (drop_exn (remove_handler n r)) = inputs r" by simp
  show "core r0 pid False PM ai ah [] (drop_exn (remove_handler n r))"
    using assms(1) H(2,3) no_policies_left by (auto simp: d core_def old_handlers_def)
qed

lemma remove_all_handlers:
  assumes "core r0 pid False PM ai ah [] r" "new_names r0 ai ah []" "settled r0"
  shows "core r0 pid False PM ai [] [] (fold (\<lambda>n r. drop_exn (remove_handler n r)) ah r)
    \<and> inputs (fold (\<lambda>n r. drop_exn (remove_handler n r)) ah r) = inputs r"
  using assms(1,2)
proof (induction ah arbitrary: r)
  case (Cons n ah)
  have "new_names r0 ai ah []" using Cons.prems(2) by (auto simp: new_names_def)
  then show ?case using Cons.IH [OF remove_one_handler(1) [OF Cons.prems assms(3)]] remove_one_handler(2) [OF Cons.prems assms(3)] by simp
qed simp

lemma remove_one_input:
  assumes "core r0 pid False PM (n # ai) [] [] r" "new_names r0 (n # ai) [] []" "settled r0"
  shows "core r0 pid False PM ai [] [] (drop_exn (remove_input n r))"
    "m \<in> fst ` set (inputs r0) \<Longrightarrow> is_on pid m (drop_exn (remove_input n r)) = is_on pid m r"
proof -
  from assms(1) obtain I i N where I: "inputs r = I @ (n, i) # N" "map fst N = ai" "list_all2 (kept pid) I (inputs r0)"
    by (force simp: core_def old_inputs_def Cons_eq_map_conv)
  have h: "handlers r = handlers r0" using assms(1) by (simp add: core_def old_handlers_def)
  have new: "n \<notin> fst ` set (inputs r0)" "n \<notin> fst ` set N" using assms(2) unfolding new_names_def I(2) [symmetric] by simp_all
  then have "n \<notin> fst ` set I" using kept_keys [OF I(3)] by (metis keys_eq)
  note old = this new(2)
  have "\<not> (h_running k \<and> h_proxy k = InputProxy n x)" if "(m, k) \<in> set (handlers r)" for m k x
  proof -
    have "h_proxy k = InputProxy n x \<Longrightarrow> module_exists n (inputs r0)" using that h assms(3) by (force simp: settled_def)
    then show ?thesis using new(1) by (auto simp: module_exists_iff)
  qed
  then have zero: "proxy_consumers (handlers r) (InputProxy n x) = 0" for x
    by (auto simp: proxy_consumers_def filter_empty_conv)
  have "fold (\<lambda>(h, _) count. proxy_consumers (handlers r) (InputProxy n h)) ps (0 :: nat) = 0" for ps :: "(string \<times> conf) list"
    by (induction ps) (auto simp: zero)
  then have "input_consumers (handlers r) n i = 0" by (simp add: input_consumers_def)
  moreover have "map_of (inputs r) n = Some i" unfolding I(1) by (rule map_of_middle [OF old(1)])
  ultimately have d: "drop_exn (remove_input n r) = r\<lparr>inputs := I @ N\<rparr>"
    using old by (simp add: drop_exn_def remove_input_def input_module_remove_def I(1) delete_new delete_head)
  show "core r0 pid False PM ai [] [] (drop_exn (remove_input n r))"
    using assms(1) I(2,3) no_policies_left by (auto simp: d core_def old_inputs_def)
  show "m \<in> fst ` set (inputs r0) \<Longrightarrow> is_on pid m (drop_exn (remove_input n r)) = is_on pid m r"
    using new(1) by (auto simp: d is_on_def I(1) map_add_def split: option.splits)
qed

lemma remove_all_inputs:
  assumes "core r0 pid False PM ai [] [] r" "new_names r0 ai [] []" "settled r0"
  shows "core r0 pid False PM [] [] [] (fold (\<lambda>n r. drop_exn (remove_input n r)) ai r)
    \<and> (\<forall>m \<in> fst ` set (inputs r0). is_on pid m (fold (\<lambda>n r. drop_exn (remove_input n r)) ai r) = is_on pid m r)"
  using assms(1,2)
proof (induction ai arbitrary: r)
  case (Cons n ai)
  have "new_names r0 ai [] []" using Cons.prems(2) by (auto simp: new_names_def)
  then show ?case
    using Cons.IH [OF remove_one_input(1) [OF Cons.prems assms(3)]] remove_one_input(2) [OF Cons.prems assms(3)] by simp
qed simp

text \<open>
  The same registry, but for the event proxies that the inputs have: a proxy that was made for a
  filter stays.
\<close>

definition unchanged :: "registry \<Rightarrow> registry \<Rightarrow> bool" where
  "unchanged r r' \<longleftrightarrow>
     taps r' = taps r \<and> handlers r' = handlers r \<and> policies r' = policies r
     \<and> list_all2 (\<lambda>a b. fst a = fst b \<and> in_running (snd a) = in_running (snd b) \<and> in_policies (snd a) = in_policies (snd b))
         (inputs r') (inputs r)"

lemma core_unchanged:
  assumes "core r0 pid False PM [] [] [] r" "settled r0" "\<forall>n \<in> fst ` set (inputs r0). \<not> is_on pid n r"
  shows "unchanged r0 r"
proof -
  have n: "new_names r0 [] [] []" using assms(2) by (simp add: new_names_def settled_def)
  have k: "list_all2 (kept pid) (inputs r) (inputs r0)" using assms(1) by (auto simp: core_def old_inputs_def)
  have "filter (\<lambda>q. q \<noteq> pid) (in_policies i) = in_policies i" if i: "(m, i) \<in> set (inputs r)" for m i
  proof -
    have "map_of (inputs r) m = Some i" using i core_input_keys(2) [OF assms(1) n] by simp
    moreover have "m \<in> fst ` set (inputs r0)" using i kept_keys [OF k] by (metis fst_conv image_eqI keys_eq)
    ultimately have "pid \<notin> set (in_policies i)" using assms(3) by (auto simp: is_on_def)
    then show ?thesis by (intro filter_True) auto
  qed
  then have "list_all2 (\<lambda>a b. fst a = fst b \<and> in_running (snd a) = in_running (snd b) \<and> in_policies (snd a) = in_policies (snd b))
      (inputs r) (inputs r0)"
    using k by (intro list.rel_mono_strong [OF k]) (auto simp: kept_def)
  then show ?thesis
    using assms(1) by (auto simp: unchanged_def core_def old_handlers_def old_policies_def)
qed

text \<open>What a rollback can undo.\<close>

definition undoable :: "registry \<Rightarrow> load \<Rightarrow> bool" where
  "undoable r0 l \<longleftrightarrow>
     core r0 (next_id r0) (p_running (ld_policy l)) (set (p_modules (ld_policy l))) (added_inputs l) (added_handlers l)
       (added_resources_policies l) (ld_reg l)
     \<and> new_names r0 (added_inputs l) (added_handlers l) (added_resources_policies l) \<and> p_id (ld_policy l) = next_id r0
     \<and> (\<forall>n \<in> fst ` set (inputs r0). is_on (next_id r0) n (ld_reg l) \<longrightarrow> n \<in> set (attached_inputs l))
     \<and> (p_running (ld_policy l) \<longrightarrow>
          distinct (p_inputs (ld_policy l)) \<and> set (p_modules (ld_policy l)) \<subseteq> set (added_handlers l)
          \<and> (\<forall>n \<in> set (p_inputs (ld_policy l)) \<inter> fst ` set (inputs r0). is_on (next_id r0) n (ld_reg l)))"

lemma rollback_unchanged:
  assumes "undoable r0 l" "settled r0"
  shows "unchanged r0 (rollback name l)"
proof -
  let ?p = "ld_policy l" and ?PM = "set (p_modules (ld_policy l))" and ?id = "next_id r0"
  let ?ai = "added_inputs l" and ?ah = "added_handlers l" and ?ap = "added_resources_policies l"
  note u = assms(1) [unfolded undoable_def]
  have id: "p_id ?p = ?id" and n: "new_names r0 ?ai ?ah ?ap" using u by auto
  then have n1: "new_names r0 ?ai ?ah []" and n2: "new_names r0 ?ai [] []" by (auto simp: new_names_def)
  define r1 where "r1 = snd (policy_stop ?p (ld_reg l))"
  define r2 where "r2 = fold (\<lambda>n r. drop_exn (detach_input name ?id ?ai n r)) (attached_inputs l) r1"
  define r3 where "r3 = fold drop_resources ?ap r2"
  define r4 where "r4 = fold (\<lambda>n r. drop_exn (remove_handler n r)) ?ah r3"
  define r5 where "r5 = fold (\<lambda>n r. drop_exn (remove_input n r)) ?ai r4"
  have 1: "core r0 ?id False ?PM ?ai ?ah ?ap r1" "\<And>m. is_on ?id m r1 \<Longrightarrow> is_on ?id m (ld_reg l)"
    using stop_loaded [of r0 ?p ?ai ?ah ?ap "ld_reg l", unfolded id, OF _ n assms(2)] u by (auto simp: r1_def)
  have 2: "core r0 ?id False ?PM ?ai ?ah ?ap r2" "\<And>m. is_on ?id m r2 \<Longrightarrow> m \<notin> set (attached_inputs l) \<and> is_on ?id m r1"
    using detach_all [OF 1(1) n assms(2)] by (auto simp: r2_def)
  have 3: "core r0 ?id False ?PM ?ai ?ah [] r3" "\<And>m. m \<notin> set ?ai \<Longrightarrow> is_on ?id m r3 = is_on ?id m r2"
    using drop_all [OF 2(1) n] by (auto simp: r3_def)
  have 4: "core r0 ?id False ?PM ?ai [] [] r4" "inputs r4 = inputs r3"
    using remove_all_handlers [OF 3(1) n1 assms(2)] by (auto simp: r4_def)
  have 5: "core r0 ?id False ?PM [] [] [] r5" "\<And>m. m \<in> fst ` set (inputs r0) \<Longrightarrow> is_on ?id m r5 = is_on ?id m r4"
    using remove_all_inputs [OF 4(1) n2 assms(2)] by (auto simp: r5_def)
  have "\<not> is_on ?id m r5" if m: "m \<in> fst ` set (inputs r0)" for m
  proof -
    have "m \<notin> set ?ai" using n m by (auto simp: new_names_def)
    then have "is_on ?id m r5 = is_on ?id m r2" using 5(2) [OF m] 4(2) 3(2) by (simp add: is_on_def)
    then show ?thesis using 2(2) [of m] 1(2) [of m] u m by blast
  qed
  then have "unchanged r0 r5" using core_unchanged [OF 5(1) assms(2)] by blast
  then show ?thesis by (simp add: rollback_def Let_def id r1_def r2_def r3_def r4_def r5_def)
qed

text \<open>The first half of a load, after some of the taps.\<close>

definition joined :: "registry \<Rightarrow> load \<Rightarrow> bool" where
  "joined r0 l \<longleftrightarrow>
     core r0 (next_id r0) False (set (added_handlers l)) (added_inputs l) (added_handlers l) [] (ld_reg l)
     \<and> new_names r0 (added_inputs l) (added_handlers l) [] \<and> added_resources_policies l = []
     \<and> p_id (ld_policy l) = next_id r0 \<and> \<not> p_running (ld_policy l)
     \<and> set (p_modules (ld_policy l)) = set (added_handlers l)
     \<and> (\<forall>n \<in> fst ` set (inputs r0). is_on (next_id r0) n (ld_reg l) \<longrightarrow> n \<in> set (attached_inputs l))
     \<and> (\<forall>n \<in> set (p_inputs (ld_policy l)). is_on (next_id r0) n (ld_reg l))"

lemma joined_undoable: "joined r0 l \<Longrightarrow> undoable r0 l"
  unfolding joined_def undoable_def by metis

lemma joined_start:
  assumes "settled r"
  shows "joined r (start_load q r)"
proof -
  have new: "filter (\<lambda>q. q \<noteq> next_id r) (in_policies i) = in_policies i" if "(n, i) \<in> set (inputs r)" for n i
    using settled_input(3) [OF assms that] by (intro filter_True) auto
  then have "list_all2 (kept (next_id r)) (inputs r) (inputs r)" by (auto simp: list_all2_same kept_def)
  moreover have "\<not> is_on (next_id r) n r" for n
    using settled_input(3) [OF assms] by (auto simp: is_on_def dest!: map_of_SomeD)
  then have "\<not> is_on (next_id r) n (r\<lparr>next_id := next_id r + 1\<rparr>)" for n by (simp add: is_on_def)
  ultimately show ?thesis
    using assms by (simp add: joined_def start_load_def core_def old_inputs_def old_handlers_def old_policies_def new_names_def settled_def)
qed

lemma is_on_update: "n \<notin> fst ` set (inputs r) \<Longrightarrow> is_on pid m (r\<lparr>inputs := AList.update n i (inputs r)\<rparr>) \<longleftrightarrow> (if m = n then pid \<in> set (in_policies i) else is_on pid m r)"
  by (simp add: is_on_def AList.update_conv)

lemma joined_keys:
  assumes "joined r0 l"
  shows "map fst (inputs (ld_reg l)) = map fst (inputs r0) @ added_inputs l" "map fst (handlers (ld_reg l)) = map fst (handlers r0) @ added_handlers l"
proof -
  have "core r0 (next_id r0) False (set (added_handlers l)) (added_inputs l) (added_handlers l) [] (ld_reg l)"
    "new_names r0 (added_inputs l) (added_handlers l) []" using assms by (auto simp: joined_def)
  then show "map fst (inputs (ld_reg l)) = map fst (inputs r0) @ added_inputs l" "map fst (handlers (ld_reg l)) = map fst (handlers r0) @ added_handlers l"
    by (rule core_input_keys(1) core_handler_keys(1))+
qed

lemma core_add_input:
  assumes "core r0 pid b PM ai ah ap r" "new_names r0 ai ah ap" "n \<notin> fst ` set (inputs r)"
  shows "core r0 pid b PM (ai @ [n]) ah ap (r\<lparr>inputs := AList.update n i (inputs r)\<rparr>)" "new_names r0 (ai @ [n]) ah ap"
proof -
  have n: "n \<notin> fst ` set (inputs r0)" "n \<notin> set ai"
    using assms(3) core_input_keys(1) [OF assms(1,2)] by (metis Un_iff set_append set_map)+
  then show "new_names r0 (ai @ [n]) ah ap" using assms(2) by (auto simp: new_names_def)
  have "old_inputs r0 pid (ai @ [n]) (inputs r @ [(n, i)])"
  proof -
    from assms(1) obtain I N where I: "inputs r = I @ N" "map fst N = ai" "list_all2 (kept pid) I (inputs r0)"
      by (auto simp: core_def old_inputs_def)
    have "inputs r @ [(n, i)] = I @ (N @ [(n, i)])" "map fst (N @ [(n, i)]) = ai @ [n]" using I by auto
    then show ?thesis using I(3) unfolding old_inputs_def by blast
  qed
  moreover have "old_policies r0 PM (ai @ [n]) ah ap (policies r)"
    using assms(1) by (fastforce simp: core_def old_policies_def resources_of_def)
  ultimately show "core r0 pid b PM (ai @ [n]) ah ap (r\<lparr>inputs := AList.update n i (inputs r)\<rparr>)"
    using assms(1) by (simp add: core_def update_new [OF assms(3)])
qed

lemma make_input_joined:
  assumes "joined r0 l" "make_input pl q t n l = (e, l')"
  shows "joined r0 l' \<and> p_inputs (ld_policy l') = p_inputs (ld_policy l)"
proof (cases "l' = l")
  case True
  then show ?thesis using assms(1) by simp
next
  case False
  define i where "i = \<lparr>in_running = False, in_policies = [], in_proxies = []\<rparr>"
  have "n \<notin> fst ` set (inputs (ld_reg l))"
    "l' = l\<lparr>ld_reg := (ld_reg l)\<lparr>inputs := AList.update n i (inputs (ld_reg l))\<rparr>, added_inputs := added_inputs l @ [n]\<rparr>"
    using False assms(2) unfolding make_input_def instantiate_input_def module_exists_iff i_def
    by (auto split: if_splits sum.splits option.splits)
  moreover have "in_policies i = []" by (simp add: i_def)
  ultimately have i: "n \<notin> fst ` set (inputs (ld_reg l))" "in_policies i = []"
    "l' = l\<lparr>ld_reg := (ld_reg l)\<lparr>inputs := AList.update n i (inputs (ld_reg l))\<rparr>, added_inputs := added_inputs l @ [n]\<rparr>"
    by blast+
  have o: "n \<notin> fst ` set (inputs r0)" using i(1) joined_keys(1) [OF assms(1)] by (metis Un_iff set_append set_map)
  have "\<not> is_on (next_id r0) n (ld_reg l)" using i(1) by (force simp: is_on_def dest: map_of_SomeD)
  then have on: "is_on (next_id r0) m (ld_reg l') = is_on (next_id r0) m (ld_reg l)" for m
    using i(1,2) by (simp add: i(3) is_on_update)
  have c: "core r0 (next_id r0) False (set (added_handlers l)) (added_inputs l) (added_handlers l) [] (ld_reg l)"
    "new_names r0 (added_inputs l) (added_handlers l) []" using assms(1) by (auto simp: joined_def)
  show ?thesis
    using assms(1) on core_add_input [OF c i(1)] unfolding joined_def by (simp add: i(3))
qed


text \<open>The handlers of a tap, none of which runs yet.\<close>

lemma chain_proxy_stopped:
  "chain_proxy pl sq n p hs = Inr (p', hs') \<Longrightarrow> \<forall>(n, h) \<in> set hs. \<not> h_running h \<Longrightarrow> \<forall>(n, h) \<in> set hs'. \<not> h_running h"
proof (induction pl sq n p hs rule: chain_proxy.induct)
  case (2 pl sq n p h hs)
  have "last (h # hs) \<in> set (h # hs)" by (rule last_in_set) simp
  then have "\<not> h_running (snd (last (h # hs)))" using 2(2) by (auto simp only: case_prod_unfold)
  moreover have "\<forall>x \<in> set (butlast (h # hs)). \<not> h_running (snd x)"
    using 2(2) by (auto simp only: case_prod_unfold dest: in_set_butlastD)
  ultimately show ?case
    using 2 by (auto simp: Let_def case_prod_unfold simp del: last.simps butlast.simps split: if_splits option.splits)
qed simp

lemma make_handlers_stopped:
  "make_handlers pl q t w n p es hs = (e, hs') \<Longrightarrow> \<forall>(n, h) \<in> set hs. \<not> h_running h \<Longrightarrow> \<forall>(n, h) \<in> set hs'. \<not> h_running h"
proof (induction es arbitrary: hs)
  case (Cons y es)
  show ?case
  proof (cases "validate_handler pl y w (q_sequence q)")
    case (Inr d)
    show ?thesis
    proof (cases "chain_proxy pl (q_sequence q) n p hs")
      case (Inr c)
      obtain p1 hs1 where c: "c = (p1, hs1)" by (cases c)
      have s: "\<forall>(n, h) \<in> set hs1. \<not> h_running h" using chain_proxy_stopped Inr c Cons.prems(2) by blast
      let ?name = "q_name q @ ''-'' @ t @ ''-'' @ hd_name d"
      show ?thesis
      proof (cases "instantiate_handler pl d ?name p1")
        case (Inr h)
        then have "\<not> h_running h" by (auto simp: instantiate_handler_def split: if_splits option.splits)
        then have "\<forall>(n, h) \<in> set (hs1 @ [(?name, h)]). \<not> h_running h" using s by auto
        then show ?thesis
          using Cons.IH [of "hs1 @ [(?name, h)]"] Cons.prems(1)
            \<open>validate_handler pl y w (q_sequence q) = Inr d\<close> \<open>chain_proxy pl (q_sequence q) n p hs = Inr c\<close> Inr
          by (simp add: c)
      qed (use s Cons.prems(1) \<open>validate_handler pl y w (q_sequence q) = Inr d\<close> \<open>chain_proxy pl (q_sequence q) n p hs = Inr c\<close> c in simp)
    qed (use Cons.prems Inr in simp)
  qed (use Cons.prems in simp)
qed simp

lemma core_add_handler:
  assumes "core r0 pid b PM ai ah ap r" "new_names r0 ai ah ap" "n \<notin> fst ` set (handlers r)"
    "if n \<in> PM then h_running h \<longrightarrow> b else \<exists>m k. h_proxy h = InputProxy m k"
  shows "core r0 pid b PM ai (ah @ [n]) ap (r\<lparr>handlers := handlers r @ [(n, h)]\<rparr>)" "new_names r0 ai (ah @ [n]) ap"
proof -
  have n: "n \<notin> fst ` set (handlers r0)" "n \<notin> set ah"
    using assms(3) core_handler_keys(1) [OF assms(1,2)] by (metis Un_iff set_append set_map)+
  then show "new_names r0 ai (ah @ [n]) ap" using assms(2) by (auto simp: new_names_def)
  have "old_handlers r0 b PM (ah @ [n]) (handlers r @ [(n, h)])"
  proof -
    from assms(1) obtain H where H: "handlers r = handlers r0 @ H" "map fst H = ah"
      "\<forall>(n, h) \<in> set H. if n \<in> PM then h_running h \<longrightarrow> b else \<exists>m k. h_proxy h = InputProxy m k"
      by (auto simp: core_def old_handlers_def)
    have "handlers r @ [(n, h)] = handlers r0 @ (H @ [(n, h)])" "map fst (H @ [(n, h)]) = ah @ [n]" using H by auto
    moreover have "\<forall>(n, h) \<in> set (H @ [(n, h)]). if n \<in> PM then h_running h \<longrightarrow> b else \<exists>m k. h_proxy h = InputProxy m k"
      using H(3) assms(4) by simp
    ultimately show ?thesis unfolding old_handlers_def by blast
  qed
  moreover have "old_policies r0 PM ai (ah @ [n]) ap (policies r)"
    using assms(1) by (fastforce simp: core_def old_policies_def resources_of_def)
  ultimately show "core r0 pid b PM ai (ah @ [n]) ap (r\<lparr>handlers := handlers r @ [(n, h)]\<rparr>)"
    using assms(1) by (simp add: core_def)
qed

lemma module_add_new: "module_add n x M = Inr M' \<Longrightarrow> n \<notin> fst ` set M \<and> M' = M @ [(n, x)]"
  by (auto simp: module_add_def module_exists_iff update_new split: if_splits)

lemma add_handlers_core:
  assumes "core r0 pid False PM (added_inputs l) (added_handlers l) ap (ld_reg l)" "new_names r0 (added_inputs l) (added_handlers l) ap"
    "add_handlers hs l = (e, l')" "\<forall>(n, h) \<in> set hs. \<not> h_running h" "fst ` set hs \<subseteq> PM"
  shows "core r0 pid False PM (added_inputs l') (added_handlers l') ap (ld_reg l') \<and> new_names r0 (added_inputs l') (added_handlers l') ap
    \<and> inputs (ld_reg l') = inputs (ld_reg l) \<and> ld_policy l' = ld_policy l \<and> attached_inputs l' = attached_inputs l
    \<and> added_resources_policies l' = added_resources_policies l \<and> set (added_handlers l') \<subseteq> set (added_handlers l) \<union> fst ` set hs
    \<and> (e = None \<longrightarrow> added_handlers l' = added_handlers l @ map fst hs)"
  using assms
proof (induction hs arbitrary: l)
  case (Cons x hs)
  obtain n h where x: "x = (n, h)" by (cases x)
  show ?case
  proof (cases "module_add n h (handlers (ld_reg l))")
    case (Inl e)
    then show ?thesis using Cons.prems by (auto simp: x)
  next
    case (Inr H)
    let ?l = "l\<lparr>ld_reg := (ld_reg l)\<lparr>handlers := handlers (ld_reg l) @ [(n, h)]\<rparr>, added_handlers := added_handlers l @ [n]\<rparr>"
    have "n \<in> PM \<and> \<not> h_running h" using Cons.prems(4,5) by (simp add: x)
    then have "core r0 pid False PM (added_inputs ?l) (added_handlers ?l) ap (ld_reg ?l)" "new_names r0 (added_inputs ?l) (added_handlers ?l) ap"
      using core_add_handler [OF Cons.prems(1,2), of n h] module_add_new [OF Inr] by simp_all
    moreover have "add_handlers hs ?l = (e, l')" using Cons.prems(3) Inr module_add_new [OF Inr] by (simp add: x)
    ultimately show ?thesis using Cons.IH [of ?l] Cons.prems(4,5) by (auto simp: x)
  qed
qed auto

lemma add_event_proxy_keeps:
  "add_event_proxy pl n flt i = Inr (p, i') \<Longrightarrow> in_running i' = in_running i \<and> in_policies i' = in_policies i \<and> (\<exists>k. p = InputProxy n k)"
  by (auto simp: add_event_proxy_def Let_def split: if_splits option.splits)

lemma core_more_modules:
  "core r0 pid False PM ai ah [] r \<Longrightarrow> set ah \<subseteq> PM \<Longrightarrow> core r0 pid False (PM \<union> X) ai ah [] r"
  unfolding core_def old_handlers_def old_policies_def by (fastforce split: if_splits)

text \<open>An input to which an event proxy is added.\<close>

lemma core_on_proxy:
  assumes "core r0 pid b PM ai ah ap r" "new_names r0 ai ah ap" "map_of (inputs r) n = Some i" "add_event_proxy pl n flt i = Inr (p, i')"
  shows "core r0 pid b PM ai ah ap (on_input n (\<lambda>_. i') r)" "is_on pid m (on_input n (\<lambda>_. i') r) = is_on pid m r"
proof -
  have "j = i" if "(n, j) \<in> set (inputs r)" for j
    using that assms(3) core_input_keys(2) [OF assms(1,2)] by (metis map_of_eq_Some_iff option.inject)
  then show "core r0 pid b PM ai ah ap (on_input n (\<lambda>_. i') r)"
    using add_event_proxy_keeps [OF assms(4)] by (intro keep_old_input [OF assms(1)]) auto
  show "is_on pid m (on_input n (\<lambda>_. i') r) = is_on pid m r"
    using add_event_proxy_keeps [OF assms(4)] assms(3) by (simp add: is_on_on_input) (auto simp: is_on_def)
qed

definition with_proxy :: "string \<Rightarrow> input_stream \<Rightarrow> load \<Rightarrow> load" where
  "with_proxy n i l = l\<lparr>ld_reg := on_input n (\<lambda>_. i) (ld_reg l), ld_policy := (ld_policy l)\<lparr>p_inputs := p_inputs (ld_policy l) @ [n]\<rparr>\<rparr>"

lemma add_handlers_joined:
  assumes "joined r0 l" "map_of (inputs (ld_reg l)) n = Some i" "add_event_proxy pl n flt i = Inr (p, i')"
    "add_handlers hs ((with_proxy n i' l)\<lparr>ld_policy := (ld_policy (with_proxy n i' l))\<lparr>p_modules := p_modules (ld_policy l) @ map fst hs\<rparr>\<rparr>) = (e, l')"
    "\<forall>(n, h) \<in> set hs. \<not> h_running h"
  shows "undoable r0 l'" "p_inputs (ld_policy l') = p_inputs (ld_policy l) @ [n]"
    "e = None \<Longrightarrow> joined r0 (l'\<lparr>ld_reg := on_input n (add_policy (p_id (ld_policy l'))) (ld_reg l'), attached_inputs := attached_inputs l' @ [n]\<rparr>)"
proof -
  note j = assms(1) [unfolded joined_def]
  let ?PM = "set (added_handlers l) \<union> fst ` set hs"
  let ?l = "(with_proxy n i' l)\<lparr>ld_policy := (ld_policy (with_proxy n i' l))\<lparr>p_modules := p_modules (ld_policy l) @ map fst hs\<rparr>\<rparr>"
  have nn: "new_names r0 (added_inputs l) (added_handlers l) []" using j by simp
  have c: "core r0 (next_id r0) False ?PM (added_inputs l) (added_handlers l) [] (ld_reg l)"
    using j by (intro core_more_modules) auto
  have "core r0 (next_id r0) False ?PM (added_inputs ?l) (added_handlers ?l) [] (ld_reg ?l)"
    using core_on_proxy(1) [OF c nn assms(2,3)] by (simp add: with_proxy_def)
  moreover have "new_names r0 (added_inputs ?l) (added_handlers ?l) []" using nn by (simp add: with_proxy_def)
  ultimately have a: "core r0 (next_id r0) False ?PM (added_inputs l') (added_handlers l') [] (ld_reg l')"
    "new_names r0 (added_inputs l') (added_handlers l') []" "inputs (ld_reg l') = inputs (on_input n (\<lambda>_. i') (ld_reg l))"
    "ld_policy l' = ld_policy ?l" "attached_inputs l' = attached_inputs l" "added_resources_policies l' = []"
    "set (added_handlers l') \<subseteq> set (added_handlers l) \<union> fst ` set hs"
    "e = None \<Longrightarrow> added_handlers l' = added_handlers l @ map fst hs"
    using add_handlers_core [OF _ _ assms(4,5), of r0 "next_id r0" ?PM "[]"] j by (auto simp: with_proxy_def)
  have on: "is_on (next_id r0) m (ld_reg l') = is_on (next_id r0) m (ld_reg l)" for m
    using core_on_proxy(2) [OF c nn assms(2,3)] a(3) by (simp add: is_on_def)
  have PM: "set (p_modules (ld_policy l')) = ?PM" using j by (simp add: a(4))
  then show "undoable r0 l'" using a j unfolding undoable_def by (simp add: on with_proxy_def)
  show "p_inputs (ld_policy l') = p_inputs (ld_policy l) @ [n]" by (simp add: a(4) with_proxy_def)
  assume e: "e = None"
  let ?r = "on_input n (add_policy (p_id (ld_policy l'))) (ld_reg l')"
  have id: "p_id (ld_policy l') = next_id r0" using j by (simp add: a(4) with_proxy_def)
  have "core r0 (next_id r0) False ?PM (added_inputs l') (added_handlers l') [] ?r"
    by (rule keep_old_input [OF a(1)]) (simp add: add_policy_def id)
  moreover have "?PM = set (added_handlers l')" using a(8) [OF e] by simp
  moreover have "map_of (inputs (ld_reg l')) n \<noteq> None" using a(3) assms(2) by (simp add: on_input_def AList.map_of_map_entry)
  then have "is_on (next_id r0) m ?r \<longleftrightarrow> m = n \<or> is_on (next_id r0) m (ld_reg l)" for m
    by (auto simp: is_on_on_input id add_policy_def on)
  ultimately show "joined r0 (l'\<lparr>ld_reg := ?r, attached_inputs := attached_inputs l' @ [n]\<rparr>)"
    using a(2,5,6) id PM j unfolding joined_def by (simp add: a(4) with_proxy_def)
qed

lemma join_input_joined:
  assumes "joined r0 l" "join_input pl q t n l = (e, l')"
  shows "undoable r0 l' \<and> (e = None \<longrightarrow> joined r0 l' \<and> p_inputs (ld_policy l') = p_inputs (ld_policy l) @ [n])"
proof (cases "map_of (inputs (ld_reg l)) n")
  case None
  then show ?thesis using assms joined_undoable [OF assms(1)] by (auto simp: join_input_def module_get_def)
next
  case (Some i)
  show ?thesis
  proof (cases "add_event_proxy pl n (q_input_filter q) i")
    case (Inl err)
    then show ?thesis using assms Some joined_undoable [OF assms(1)] by (auto simp: join_input_def module_get_def)
  next
    case (Inr x)
    obtain p i' where x: "x = (p, i')" by (cases x)
    let ?l = "with_proxy n i' l"
    obtain e1 hs where m: "make_handlers pl q t (ld_window l) n p (q_modules q) [] = (e1, hs)" by (cases "make_handlers pl q t (ld_window l) n p (q_modules q) []")
    let ?l2 = "?l\<lparr>ld_policy := (ld_policy ?l)\<lparr>p_modules := p_modules (ld_policy l) @ map fst hs\<rparr>\<rparr>"
    obtain e2 l3 where a: "add_handlers hs ?l2 = (e2, l3)" by (cases "add_handlers hs ?l2")
    note h = add_handlers_joined [OF assms(1) Some Inr [unfolded x] a make_handlers_stopped [OF m], simplified]
    have "undoable r0 ?l"
      using add_handlers_joined(1) [OF assms(1) Some Inr [unfolded x], of "[]" None "?l\<lparr>ld_policy := (ld_policy ?l)\<lparr>p_modules := p_modules (ld_policy l)\<rparr>\<rparr>"]
      by (simp add: with_proxy_def)
    moreover have "join_input pl q t n l = (case e1 of Some e \<Rightarrow> (Some e, ?l) | None \<Rightarrow>
        (case e2 of Some e \<Rightarrow> (Some e, l3) | None \<Rightarrow> (None, l3\<lparr>ld_reg := on_input n (add_policy (p_id (ld_policy l3))) (ld_reg l3),
                           attached_inputs := attached_inputs l3 @ [n]\<rparr>)))"
      using a by (simp add: join_input_def module_get_def Some Inr x m with_proxy_def Let_def split: option.split)
    ultimately show ?thesis using h assms(2) joined_undoable by (auto split: option.splits)
  qed
qed


text \<open>The name of an input determines the tap it was made for.\<close>

lemma hex_no_dash: "CHR ''-'' \<notin> set (hex n)"
proof (induction n rule: hex.induct)
  case (1 n)
  have d: "hex_digit m \<noteq> CHR ''-''" if "m < 16" for m
  proof -
    have "of_char (hex_digit m) \<noteq> (of_char (CHR ''-'') :: nat)" using that by (simp add: hex_digit_def)
    then show ?thesis by metis
  qed
  then show ?case using 1 by (subst hex.simps) (auto simp: eq_commute [of "CHR ''-''"])
qed

lemma dashed_inj:
  assumes "t @ ''-'' @ hex m = t' @ ''-'' @ hex n"
  shows "t = t'"
proof -
  have "dropWhile (\<lambda>c. c \<noteq> CHR ''-'') (rev (x @ ''-'' @ hex k)) = CHR ''-'' # rev x" for x k
  proof -
    have "c \<noteq> CHR ''-''" if "c \<in> set (rev (hex k))" for c using that hex_no_dash [of k] by auto
    then have "dropWhile (\<lambda>c. c \<noteq> CHR ''-'') (rev (hex k) @ CHR ''-'' # rev x) = dropWhile (\<lambda>c. c \<noteq> CHR ''-'') (CHR ''-'' # rev x)"
      by (rule dropWhile_append2)
    then show ?thesis by simp
  qed
  from this [of t m] this [of t' n] have "CHR ''-'' # rev t = CHR ''-'' # rev t'" unfolding assms by (rule trans [OF sym])
  then show ?thesis by simp
qed

definition of_tap :: "string \<Rightarrow> string \<Rightarrow> bool" where
  "of_tap t n \<longleftrightarrow> (\<exists>k. n = t @ ''-'' @ hex k)"

lemma of_tap_distinct: "list_all2 of_tap xs ns \<Longrightarrow> distinct xs \<Longrightarrow> distinct ns"
proof (induction rule: list_all2_induct)
  case (Cons x xs n ns)
  have "n \<notin> set ns"
  proof
    assume "n \<in> set ns"
    then obtain y where "y \<in> set xs" "of_tap y n" using Cons.hyps(2) by (metis in_set_conv_nth list_all2_conv_all_nth)
    then show False using Cons.hyps(1) Cons.prems by (auto simp: of_tap_def dest!: dashed_inj [simplified])
  qed
  then show ?case using Cons by simp
qed simp

lemma load_tap_joined:
  assumes "joined r0 l" "load_tap pl q t l = (e, l')"
  shows "undoable r0 l' \<and> (e = None \<longrightarrow> joined r0 l' \<and> (\<exists>n. of_tap t n \<and> p_inputs (ld_policy l') = p_inputs (ld_policy l) @ [n]))"
proof (cases "map_of (taps (ld_reg l)) t")
  case None
  then show ?thesis using assms joined_undoable [OF assms(1)] by (auto simp: load_tap_def module_get_def)
next
  case (Some tp)
  let ?l = "l\<lparr>ld_policy := (ld_policy l)\<lparr>p_taps := p_taps (ld_policy l) @ [t]\<rparr>\<rparr>"
  let ?l2 = "?l\<lparr>ld_window := config_set ''_internal_tap_name'' (CString t) (ld_window l)\<rparr>"
  let ?n = "get_input_name pl t tp (q_input_config q) (q_input_filter q)"
  have j: "joined r0 ?l" "joined r0 ?l2" using assms(1) by (simp_all add: joined_def)
  obtain e1 l1 where m: "make_input pl q tp ?n ?l2 = (e1, l1)" by (cases "make_input pl q tp ?n ?l2")
  have k: "of_tap t ?n" by (auto simp: of_tap_def get_input_name_def generate_input_name_def)
  note mi = make_input_joined [OF j(2) m]
  note ji = join_input_joined [OF conjunct1 [OF mi]]
  have "load_tap pl q t l = (if q_input_type q = None then (Some YamlException, ?l)
      else if q_input_type q \<noteq> Some (input_plugin tp) then (Some PolicyException, ?l)
      else case e1 of Some e \<Rightarrow> (Some e, l1) | None \<Rightarrow> join_input pl q t ?n l1)"
    using m by (simp add: load_tap_def module_get_def Some Let_def split: option.split)
  then show ?thesis
    using assms(2) joined_undoable [OF j(1)] joined_undoable [OF conjunct1 [OF mi]] ji [of pl q t ?n e l'] conjunct2 [OF mi] k
    by (auto split: if_splits option.splits)
qed

lemma load_taps_joined:
  assumes "joined r0 l" "load_taps_of pl q xs l = (e, l')"
  shows "undoable r0 l' \<and> (e = None \<longrightarrow> joined r0 l' \<and> (\<exists>ns. list_all2 of_tap xs ns \<and> p_inputs (ld_policy l') = p_inputs (ld_policy l) @ ns))"
  using assms
proof (induction xs arbitrary: l)
  case Nil
  then show ?case using joined_undoable by auto
next
  case (Cons x xs)
  obtain e1 l1 where l: "load_tap pl q x l = (e1, l1)" by (cases "load_tap pl q x l")
  note t = load_tap_joined [OF Cons.prems(1) l]
  show ?case
  proof (cases e1)
    case None
    then obtain n where n: "joined r0 l1" "of_tap x n" "p_inputs (ld_policy l1) = p_inputs (ld_policy l) @ [n]" using t by auto
    have "load_taps_of pl q xs l1 = (e, l')" using Cons.prems(2) l None by simp
    note ih = Cons.IH [OF n(1) this]
    have "\<exists>ms. list_all2 of_tap (x # xs) ms \<and> p_inputs (ld_policy l') = p_inputs (ld_policy l) @ ms" if e: "e = None"
    proof -
      from ih e obtain ns where "list_all2 of_tap xs ns" "p_inputs (ld_policy l') = p_inputs (ld_policy l) @ n # ns" using n(3) by auto
      then show ?thesis using n(2) by (intro exI [of _ "n # ns"]) simp
    qed
    then show ?thesis using ih by simp
  qed (use t Cons.prems(2) l in auto)
qed

text \<open>The second half of a load.\<close>

lemma start_modules_core:
  assumes "core r0 pid b PM ai ah ap r" "new_names r0 ai ah ap" "set ns \<subseteq> set ah" "in_order (start_module pl) ns r = (e, r')"
    "b \<longrightarrow> b'" "set ns \<inter> PM \<noteq> {} \<longrightarrow> b'"
  shows "core r0 pid b' PM ai ah ap r' \<and> inputs r' = inputs r \<and> policies r' = policies r"
  using assms(1,3-6)
proof (induction ns arbitrary: r b)
  case Nil
  then show ?case using core_mono by auto
next
  case (Cons n ns)
  obtain e1 r1 where s: "start_module pl n r = (e1, r1)" by (cases "start_module pl n r")
  have new: "n \<notin> fst ` set (handlers r0)" using assms(2) Cons.prems(2) by (auto simp: new_names_def)
  have "core r0 pid b' PM ai ah ap (on_handler n (\<lambda>h. h\<lparr>h_running := True\<rparr>) r)"
    using Cons.prems(4,5) by (intro on_new_handler [OF Cons.prems(1) new]) auto
  then have "core r0 pid b' PM ai ah ap r1 \<and> inputs r1 = inputs r \<and> policies r1 = policies r"
    using s core_mono [OF Cons.prems(1,4)] by (auto simp: start_module_def on_handler_def split: option.splits if_splits)
  then show ?case using Cons.IH [of b' r1] Cons.prems s by (auto split: option.splits)
qed

lemma start_streams_core:
  assumes "core r0 pid b PM ai ah ap r" "new_names r0 ai ah ap" "settled r0" "in_order (start_stream pl) ns r = (e, r')"
  shows "core r0 pid b PM ai ah ap r' \<and> (\<forall>m. is_on pid m r' = is_on pid m r) \<and> policies r' = policies r"
  using assms(1,4)
proof (induction ns arbitrary: r)
  case (Cons n ns)
  obtain e1 r1 where s: "start_stream pl n r = (e1, r1)" by (cases "start_stream pl n r")
  let ?r = "on_input n (\<lambda>i. i\<lparr>in_running := True\<rparr>) r"
  have "core r0 pid b PM ai ah ap ?r" if "n \<notin> fst ` set (inputs r0)" using on_new_input [OF Cons.prems(1) that] .
  moreover have "in_running i" if "map_of (inputs r) n = Some i" "n \<in> fst ` set (inputs r0)" for i
    using old_input [OF Cons.prems(1) assms(2) that(2) map_of_SomeD [OF that(1)]] settled_input(1) [OF assms(3)] by blast
  ultimately have "core r0 pid b PM ai ah ap r1" using s Cons.prems(1) by (auto simp: start_stream_def split: option.splits if_splits)
  moreover have "is_on pid m ?r = is_on pid m r" for m by (simp add: is_on_on_input) (auto simp: is_on_def)
  then have "(\<forall>m. is_on pid m r1 = is_on pid m r) \<and> policies r1 = policies r"
    using s by (auto simp: start_stream_def on_input_def split: option.splits if_splits)
  ultimately show ?case using Cons.IH [of r1] Cons.prems s by (auto split: option.splits)
qed simp

lemma policy_start_core:
  assumes "core r0 pid b PM ai ah ap r" "new_names r0 ai ah ap" "settled r0" "set (p_modules p) \<subseteq> set ah"
    "PM \<subseteq> set (p_modules p) \<or> set (p_modules p) \<inter> PM = {}" "policy_start pl p r = (e, p', r')" "\<not> p_running p"
  shows "core r0 pid (b \<or> e = None \<and> set (p_modules p) \<inter> PM \<noteq> {}) PM ai ah ap r'"
    "\<forall>m. is_on pid m r' = is_on pid m r" "policies r' = policies r"
    "p_id p' = p_id p" "p_inputs p' = p_inputs p" "p_modules p' = p_modules p" "p_running p' \<longleftrightarrow> e = None"
proof -
  let ?b = "b \<or> set (p_modules p) \<inter> PM \<noteq> {}"
  let ?P = "core r0 pid (b \<or> e = None \<and> set (p_modules p) \<inter> PM \<noteq> {}) PM ai ah ap r' \<and> (\<forall>m. is_on pid m r' = is_on pid m r) \<and> policies r' = policies r
    \<and> p_id p' = p_id p \<and> p_inputs p' = p_inputs p \<and> p_modules p' = p_modules p \<and> (p_running p' \<longleftrightarrow> e = None)"
  have st: "core r0 pid b PM ai ah ap (fold stop_module (p_modules p) s)" if "core r0 pid ?b PM ai ah ap s" for s
    using assms(4,5) by (intro core_stop_modules [OF that assms(2,4)]) auto
  have ?P
  proof (cases "merge_like_handlers (p_config p)")
    case (Inl x)
    then show ?thesis using assms by (auto simp: policy_start_def)
  next
    case (Inr m)
    obtain e1 r1 where 1: "in_order (start_module pl) (p_modules p) r = (e1, r1)" by (cases "in_order (start_module pl) (p_modules p) r")
    obtain e2 r2 where 2: "in_order (start_stream pl) (p_inputs p) r1 = (e2, r2)" by (cases "in_order (start_stream pl) (p_inputs p) r1")
    have c1: "core r0 pid ?b PM ai ah ap r1" "inputs r1 = inputs r" "policies r1 = policies r"
      using start_modules_core [OF assms(1,2,4) 1, of ?b] by auto
    note c2 = start_streams_core [OF c1(1) assms(2,3) 2]
    have "policy_start pl p r = (case e1 of Some e \<Rightarrow> (Some e, p\<lparr>p_merge_like_handlers := m\<rparr>, fold stop_module (p_modules p) r1)
      | None \<Rightarrow> (case e2 of Some e \<Rightarrow> (Some e, p\<lparr>p_merge_like_handlers := m\<rparr>, fold stop_module (p_modules p) r2)
      | None \<Rightarrow> (None, p\<lparr>p_merge_like_handlers := m, p_running := True\<rparr>, r2)))"
      using assms(7) by (simp add: policy_start_def Inr 1 2 split: option.split)
    moreover have "is_on pid m r1 = is_on pid m r" for m by (simp add: is_on_def c1)
    ultimately show ?thesis
      using assms(6,7) st [OF c1(1)] st [OF conjunct1 [OF c2]] c1 c2 by (cases e1; cases e2; auto)
  qed
  then show "core r0 pid (b \<or> e = None \<and> set (p_modules p) \<inter> PM \<noteq> {}) PM ai ah ap r'"
    "\<forall>m. is_on pid m r' = is_on pid m r" "policies r' = policies r"
    "p_id p' = p_id p" "p_inputs p' = p_inputs p" "p_modules p' = p_modules p" "p_running p' \<longleftrightarrow> e = None" by auto
qed


definition ready :: "registry \<Rightarrow> load \<Rightarrow> bool" where
  "ready r0 l \<longleftrightarrow>
     undoable r0 l \<and> distinct (p_inputs (ld_policy l)) \<and> set (p_modules (ld_policy l)) \<subseteq> set (added_handlers l)
     \<and> (\<forall>n \<in> set (p_inputs (ld_policy l)) \<inter> fst ` set (inputs r0). is_on (next_id r0) n (ld_reg l))"

text \<open>A change of the registry that no old input notices.\<close>

lemma ready_reg:
  assumes "ready r0 l" "\<And>n. n \<in> fst ` set (inputs r0) \<Longrightarrow> is_on (next_id r0) n r = is_on (next_id r0) n (ld_reg l)"
    "core r0 (next_id r0) (p_running (ld_policy l)) (set (p_modules (ld_policy l))) (added_inputs l) ah ap r"
    "new_names r0 (added_inputs l) ah ap" "set (added_handlers l) \<subseteq> set ah"
  shows "ready r0 (l\<lparr>ld_reg := r, added_handlers := ah, added_resources_policies := ap\<rparr>)"
proof -
  have "set (p_modules (ld_policy l)) \<subseteq> set ah" using assms(1,5) by (auto simp: ready_def)
  then show ?thesis using assms unfolding ready_def undoable_def by simp
qed

lemma ready_core:
  assumes "ready r0 l"
  shows "core r0 (next_id r0) (p_running (ld_policy l)) (set (p_modules (ld_policy l))) (added_inputs l) (added_handlers l)
       (added_resources_policies l) (ld_reg l)" "new_names r0 (added_inputs l) (added_handlers l) (added_resources_policies l)"
    "set (p_modules (ld_policy l)) \<subseteq> set (added_handlers l)" "p_id (ld_policy l) = next_id r0"
  using assms by (simp_all add: ready_def undoable_def)

lemma is_on_other: "n \<noteq> m \<Longrightarrow> is_on pid m (on_input n f r) = is_on pid m r"
  by (simp add: is_on_on_input)

definition for_resources :: "load \<Rightarrow> string \<times> policy \<Rightarrow> bool" where
  "for_resources l x \<longleftrightarrow>
     resources_of (set (p_modules (ld_policy l))) (added_inputs l) (added_handlers l) (snd x) \<and> \<not> p_running (snd x)
     \<and> p_inputs (snd x) \<noteq> [] \<and> fst x \<in> resources_name ` set (added_inputs l)"

lemma create_resources_ready:
  assumes "ready r0 l" "n \<in> set (added_inputs l)" "create_resources_policy pl n w (ld_reg l) = (x, r)"
  shows "case x of Inr (Some (p, name)) \<Rightarrow>
        ready r0 (l\<lparr>ld_reg := r, added_handlers := added_handlers l @ [name]\<rparr>)
        \<and> for_resources (l\<lparr>ld_reg := r, added_handlers := added_handlers l @ [name]\<rparr>) (name, p)
      | _ \<Rightarrow> ready r0 (l\<lparr>ld_reg := r\<rparr>)"
proof -
  note c = ready_core [OF assms(1)]
  have l: "ready r0 (l\<lparr>ld_reg := ld_reg l\<rparr>)" using assms(1) by simp
  have new: "n \<notin> fst ` set (inputs r0)" using c(2) assms(2) by (auto simp: new_names_def)
  have c1: "core r0 (next_id r0) (p_running (ld_policy l)) (set (p_modules (ld_policy l))) (added_inputs l) (added_handlers l)
       (added_resources_policies l) (on_input n f (ld_reg l))" for f by (rule on_new_input [OF c(1) new])
  have on: "m \<in> fst ` set (inputs r0) \<Longrightarrow> is_on (next_id r0) m (on_input n f (ld_reg l)) = is_on (next_id r0) m (ld_reg l)" for m f
    using new by (intro is_on_other) auto
  have r1: "ready r0 (l\<lparr>ld_reg := on_input n f (ld_reg l)\<rparr>)" for f
    using ready_reg [OF assms(1) on c1 c(2)] by simp
  have r2: "ready r0 (l\<lparr>ld_reg := (on_input n f (ld_reg l))\<lparr>handlers := H, next_id := k\<rparr>, added_handlers := added_handlers l @ [resources_name n]\<rparr>)
      \<and> resources_name n \<notin> set (added_handlers l)"
    if m: "module_add (resources_name n) h (handlers (on_input n f (ld_reg l))) = Inr H" and p: "\<exists>m k. h_proxy h = InputProxy m k" for f h H k
  proof -
    note a = module_add_new [OF m]
    then have "resources_name n \<notin> set (added_handlers l)" using core_handler_keys(1) [OF c1 c(2)] by (metis Un_iff set_append set_map)
    moreover from this have "resources_name n \<notin> set (p_modules (ld_policy l))" using c(3) by auto
    then have h: "core r0 (next_id r0) (p_running (ld_policy l)) (set (p_modules (ld_policy l))) (added_inputs l) (added_handlers l @ [resources_name n])
         (added_resources_policies l) ((on_input n f (ld_reg l))\<lparr>handlers := H, next_id := k\<rparr>)"
      "new_names r0 (added_inputs l) (added_handlers l @ [resources_name n]) (added_resources_policies l)"
      using core_add_handler [OF c1 c(2), of "resources_name n" _ h] a p by (auto simp: core_def)
    moreover have "is_on (next_id r0) m ((on_input n f (ld_reg l))\<lparr>handlers := H, next_id := k\<rparr>) = is_on (next_id r0) m (ld_reg l)"
      if "m \<in> fst ` set (inputs r0)" for m using on [OF that] by (simp add: is_on_def)
    ultimately show ?thesis using ready_reg [OF assms(1) _ h] by auto
  qed
  have k: "\<exists>m k. p = InputProxy m k" if "add_event_proxy pl n [] i = Inr (p, i')" for i p i'
    using add_event_proxy_keeps [OF that] by auto
  show ?thesis
    using assms(2,3) c(3) assms(1) r1 r2 k unfolding create_resources_policy_def Let_def module_get_def
    by (auto simp: for_resources_def resources_of_def split: if_splits option.splits sum.splits prod.splits)
qed


lemma for_resources_mono:
  "for_resources l x \<Longrightarrow> added_inputs l' = added_inputs l \<Longrightarrow> set (added_handlers l) \<subseteq> set (added_handlers l') \<Longrightarrow>
   p_modules (ld_policy l') = p_modules (ld_policy l) \<Longrightarrow> for_resources l' x"
  by (auto simp: for_resources_def resources_of_def)

lemma create_all_ready:
  assumes "ready r0 l" "set ns \<subseteq> set (added_inputs l)" "create_all pl ns l = (e, ps, l')"
  shows "ready r0 l' \<and> ld_policy l' = ld_policy l \<and> added_inputs l' = added_inputs l \<and> set (added_handlers l) \<subseteq> set (added_handlers l')
    \<and> added_resources_policies l' = added_resources_policies l \<and> (\<forall>x \<in> set ps. for_resources l' x)"
  using assms
proof (induction ns arbitrary: l ps)
  case (Cons n ns)
  obtain x r where c: "create_resources_policy pl n (ld_window l) (ld_reg l) = (x, r)"
    by (cases "create_resources_policy pl n (ld_window l) (ld_reg l)")
  have "n \<in> set (added_inputs l)" using Cons.prems(2) by simp
  note k = create_resources_ready [OF Cons.prems(1) this c]
  show ?case
  proof (cases x)
    case (Inl err)
    then show ?thesis using k c Cons.prems(3) by auto
  next
    case (Inr y)
    show ?thesis
    proof (cases y)
      case None
      then show ?thesis using Cons.IH [of "l\<lparr>ld_reg := r\<rparr>" ps] k c Cons.prems(2,3) Inr by simp
    next
      case (Some z)
      obtain p name where z: "z = (p, name)" by (cases z)
      let ?l = "l\<lparr>ld_reg := r, added_handlers := added_handlers l @ [name]\<rparr>"
      obtain ps1 where ps: "create_all pl ns ?l = (e, ps1, l')" "ps = (name, p) # ps1"
        using Cons.prems(3) c by (auto simp: Inr Some z split: prod.splits)
      have r: "ready r0 ?l" "for_resources ?l (name, p)" using k by (simp_all add: Inr Some z)
      note ih = Cons.IH [OF r(1) _ ps(1)]
      have "for_resources l' (name, p)" using for_resources_mono [OF r(2), of l'] ih Cons.prems(2) by simp
      then show ?thesis using ih Cons.prems(2) by (auto simp: ps(2))
    qed
  qed
qed simp

lemma core_add_policy:
  assumes "core r0 pid b PM ai ah ap r" "new_names r0 ai ah ap" "n \<notin> fst ` set (policies r) \<and> P = policies r @ [(n, p)]"
    "resources_of PM ai ah p" "n \<in> resources_name ` set ai"
  shows "core r0 pid b PM ai ah (ap @ [n]) (r\<lparr>policies := P\<rparr>)" "new_names r0 ai ah (ap @ [n])"
proof -
  from assms(1) obtain Q where Q: "policies r = policies r0 @ Q" "map fst Q = ap" "\<forall>(m, p) \<in> set Q. resources_of PM ai ah p"
    by (auto simp: core_def old_policies_def)
  then have n: "n \<notin> fst ` set (policies r0)" "n \<notin> set ap" using assms(3) by auto
  then show "new_names r0 ai ah (ap @ [n])" using assms(2,5) by (auto simp: new_names_def)
  have "P = policies r0 @ (Q @ [(n, p)])" "map fst (Q @ [(n, p)]) = ap @ [n]" "\<forall>(m, p) \<in> set (Q @ [(n, p)]). resources_of PM ai ah p"
    using Q assms(3,4) by auto
  then have "old_policies r0 PM ai ah (ap @ [n]) P" unfolding old_policies_def by blast
  then show "core r0 pid b PM ai ah (ap @ [n]) (r\<lparr>policies := P\<rparr>)" using assms(1) by (simp add: core_def)
qed

lemma register_ready:
  assumes "ready r0 l" "for_resources l (name, p)" "settled r0" "register_resources pl name p l = (e, l')"
  shows "ready r0 l' \<and> ld_policy l' = ld_policy l \<and> added_inputs l' = added_inputs l \<and> added_handlers l' = added_handlers l"
proof -
  note c = ready_core [OF assms(1)]
  let ?b = "p_running (ld_policy l)" and ?PM = "set (p_modules (ld_policy l))" and ?ai = "added_inputs l"
    and ?ah = "added_handlers l" and ?ap = "added_resources_policies l" and ?id = "next_id r0"
  have f: "set (p_inputs p) \<subseteq> set ?ai" "set (p_modules p) \<subseteq> set ?ah" "set (p_modules p) \<inter> ?PM = {}" "\<not> p_running p" "p_inputs p \<noteq> []"
    "name \<in> resources_name ` set ?ai" using assms(2) by (auto simp: for_resources_def resources_of_def)
  obtain e1 p1 r1 where s: "policy_start pl p (ld_reg l) = (e1, p1, r1)" by (cases "policy_start pl p (ld_reg l)")
  note ps = policy_start_core [OF c(1,2) assms(3) f(2) disjI2 [OF f(3)] s f(4)]
  have c1: "core r0 ?id ?b ?PM ?ai ?ah ?ap r1" using ps(1) f(3) by simp
  have ready1: "ready r0 (l\<lparr>ld_reg := r1\<rparr>)" using ready_reg [OF assms(1) _ c1 c(2)] ps(2) by simp
  let ?n = "last (p_inputs p1)" and ?r = "on_input (last (p_inputs p1)) (add_policy (p_id p1)) r1"
  have "?n \<in> set ?ai" using f(1,5) ps(5) by (metis last_in_set subsetD)
  then have new: "?n \<notin> fst ` set (inputs r0)" using c(2) by (auto simp: new_names_def)
  have c2: "core r0 ?id ?b ?PM ?ai ?ah ?ap ?r" by (rule on_new_input [OF c1 new])
  have on: "is_on ?id m ?r = is_on ?id m (ld_reg l)" if "m \<in> fst ` set (inputs r0)" for m
    using is_on_other [of ?n m] new that ps(2) by force
  have res: "resources_of ?PM ?ai ?ah p1" using f(1-3) ps(5,6) by (auto simp: resources_of_def)
  show ?thesis
  proof (cases e1)
    case (Some x)
    then show ?thesis using assms(4) s ready1 by (auto simp: register_resources_def)
  next
    case None
    show ?thesis
    proof (cases "module_add name p1 (policies ?r)")
      case (Inl x)
      let ?s = "snd (policy_stop p1 ?r)"
      have "is_on ?id m ?s = is_on ?id m (ld_reg l)" if m: "m \<in> fst ` set (inputs r0)" for m
      proof -
        have "m \<notin> set ?ai" using m c(2) by (auto simp: new_names_def)
        then show ?thesis using stop_resources(3) [OF c2 c(2) res] on [OF m] by simp
      qed
      then have "ready r0 (l\<lparr>ld_reg := ?s\<rparr>)" using ready_reg [OF assms(1) _ stop_resources(1) [OF c2 c(2) res] c(2)] by simp
      then show ?thesis using assms(4) by (auto simp: register_resources_def s None Inl Let_def)
    next
      case (Inr P)
      note a = core_add_policy [OF c2 c(2) module_add_new [OF Inr] res f(6)]
      have "ready r0 (l\<lparr>ld_reg := ?r\<lparr>policies := P\<rparr>, added_resources_policies := ?ap @ [name]\<rparr>)"
        using ready_reg [OF assms(1) _ a] on by (simp add: is_on_def)
      then show ?thesis using assms(4) by (auto simp: register_resources_def s None Inr Let_def)
    qed
  qed
qed

lemma register_all_ready:
  assumes "ready r0 l" "\<forall>x \<in> set ps. for_resources l x" "settled r0" "register_all pl ps l = (e, l')"
  shows "ready r0 l' \<and> ld_policy l' = ld_policy l"
  using assms(1,2,4)
proof (induction ps arbitrary: l)
  case (Cons x ps)
  obtain name p where x: "x = (name, p)" by (cases x)
  obtain e1 l1 where r: "register_resources pl name p l = (e1, l1)" by (cases "register_resources pl name p l")
  have "for_resources l (name, p)" using Cons.prems(2) by (simp add: x)
  note k = register_ready [OF Cons.prems(1) this assms(3) r]
  have "\<forall>x \<in> set ps. for_resources l1 x" using k Cons.prems(2) for_resources_mono [of l _ l1] by simp
  then show ?case using Cons.IH [of l1] k Cons.prems(3) r by (cases e1) (auto simp: x)
qed simp

lemma ready_undoable: "ready r0 l \<Longrightarrow> undoable r0 l"
  by (simp add: ready_def)

lemma start_ready:
  assumes "ready r0 l" "settled r0" "\<not> p_running (ld_policy l)" "policy_start pl (ld_policy l) (ld_reg l) = (e, p, r)"
  shows "ready r0 (l\<lparr>ld_policy := p, ld_reg := r\<rparr>)" "p_modules p = p_modules (ld_policy l)"
proof -
  note c = ready_core [OF assms(1)]
  note s = policy_start_core [OF c(1,2) assms(2) c(3) disjI1 [OF subset_refl] assms(4,3)]
  have "core r0 (next_id r0) (p_running p) (set (p_modules p)) (added_inputs l) (added_handlers l) (added_resources_policies l) r"
    using core_mono [OF s(1)] assms(3) s(6,7) by simp
  then show "ready r0 (l\<lparr>ld_policy := p, ld_reg := r\<rparr>)"
    using assms(1) s unfolding ready_def undoable_def by simp
  show "p_modules p = p_modules (ld_policy l)" by (rule s(6))
qed

lemma run_load_undoable:
  assumes "ready r0 l" "settled r0" "\<not> p_running (ld_policy l)" "run_load pl q l = (Some e, l')"
  shows "undoable r0 l'"
proof -
  obtain e1 ps l1 where 1: "create_all pl (added_inputs l) l = (e1, ps, l1)" by (cases "create_all pl (added_inputs l) l")
  note c = create_all_ready [OF assms(1) subset_refl 1]
  obtain e2 p r where 2: "policy_start pl (ld_policy l1) (ld_reg l1) = (e2, p, r)" by (cases "policy_start pl (ld_policy l1) (ld_reg l1)")
  let ?l2 = "l1\<lparr>ld_policy := p, ld_reg := r\<rparr>"
  have np: "\<not> p_running (ld_policy l1)" using c assms(3) by simp
  note s = start_ready [OF conjunct1 [OF c] assms(2) np 2]
  have "\<forall>x \<in> set ps. for_resources ?l2 x" using c s(2) for_resources_mono [of l1 _ ?l2] by simp
  moreover obtain e3 l3 where 3: "register_all pl ps ?l2 = (e3, l3)" by (cases "register_all pl ps ?l2")
  ultimately have "ready r0 l3" using register_all_ready [OF s(1) _ assms(2) 3] by simp
  then have "undoable r0 l1" "undoable r0 ?l2" "undoable r0 l3" using c s(1) ready_undoable by auto
  then show ?thesis
    using assms(4) by (auto simp: run_load_def 1 2 3 split: option.splits sum.splits)
qed


lemma selected_taps_distinct:
  "selected_taps pl ns b T = Inr names \<Longrightarrow> set names \<subseteq> fst ` set T \<and> (distinct (map fst T) \<longrightarrow> distinct names)"
proof (induction T arbitrary: names)
  case (Cons x T)
  obtain name t where x: "x = (name, t)" by (cases x)
  obtain c ms where "selected_taps pl ns b T = Inr ms" "names = (if c then name # ms else ms)"
    using Cons.prems by (auto simp: x split: sum.splits)
  then show ?case using Cons.IH [of ms] by (auto simp: x)
qed simp

lemma get_input_taps_name_distinct:
  assumes "get_input_taps_name pl n T = Inr names" "distinct (map fst T)"
  shows "distinct names"
proof -
  have "(\<exists>name. names = [name]) \<or> (\<exists>ns b. selected_taps pl ns b T = Inr names)"
    using assms(1) by (auto simp: get_input_taps_name_def Let_def split: option.splits if_splits sum.splits list.splits yaml.splits)
  then show ?thesis using selected_taps_distinct assms(2) by auto
qed

lemma parse_policy_taps:
  assumes "parse_policy pl e r = Inr q" "distinct (map fst (taps r))"
  shows "distinct (q_taps q)"
proof -
  have "get_input_taps_name pl (the (at_key (snd e) ''input'')) (taps r) = Inr (q_taps q)"
    using assms(1) by (auto simp: parse_policy_def split: sum.splits if_splits)
  then show ?thesis using get_input_taps_name_distinct assms(2) by blast
qed

lemma unchanged_refl [simp]: "unchanged r r"
  by (simp add: unchanged_def list_all2_same)

text \<open>
  C1: A load of a policy that fails, at whatever step and with whatever exception, leaves the registry as it
  was: the same taps, handlers and policies, and the same inputs, running as before and used by the same policies. Only the
  event proxies that it has added to inputs of before stay.
\<close>

theorem load_transactional:
  assumes "settled r" "load_policy pl e r = (Some err, r')"
  shows "unchanged r r'"
proof (cases "parse_policy pl e r")
  case (Inl x)
  then show ?thesis using assms by (simp add: load_policy_def unchanged_refl)
next
  case (Inr q)
  obtain e1 l1 where 1: "load_taps_of pl q (q_taps q) (start_load q r) = (e1, l1)" by (cases "load_taps_of pl q (q_taps q) (start_load q r)")
  note t = load_taps_joined [OF joined_start [OF assms(1)] 1]
  show ?thesis
  proof (cases e1)
    case (Some x)
    then show ?thesis using assms(2) t rollback_unchanged [OF _ assms(1)] by (auto simp: load_policy_def Inr 1)
  next
    case None
    then have j: "joined r l1" "distinct (p_inputs (ld_policy l1))"
      using t of_tap_distinct parse_policy_taps [OF Inr] assms(1) by (auto simp: start_load_def settled_def)
    then have "ready r l1" "\<not> p_running (ld_policy l1)" using joined_undoable [OF j(1)] by (auto simp: ready_def joined_def)
    then show ?thesis
      using assms(2) run_load_undoable [OF _ assms(1)] rollback_unchanged [OF _ assms(1)]
      by (auto simp: load_policy_def Inr 1 None split: prod.splits option.splits)
  qed
qed

definition demo_yaml :: yaml_lib where
  "demo_yaml = \<lparr>as_string = (\<lambda>n. case n of YScalar s \<Rightarrow> Some s | _ \<Rightarrow> None), as_uint64 = (\<lambda>_. None), as_bool = (\<lambda>_. None)\<rparr>"

definition demo_plugins :: plugins where
  "demo_plugins =
     \<lparr>yaml_of = demo_yaml, hash_of = (\<lambda>s. of_nat (length s)), input_available = (\<lambda>_. True), handler_available = (\<lambda>_ _. True),
      filter_in_name = (\<lambda>_. False), new_input = (\<lambda>_ _ _ _. None), new_proxy = (\<lambda>_ _. None), new_handler = (\<lambda>_ _ _ _ _. None),
      start_input = (\<lambda>_. None), start_handler = (\<lambda>n. if n = ''q-t-h'' then Some HandlerException else None), global_handler_config = [],
      default_num_periods = 5, default_deep_sample_rate = 100\<rparr>"

definition demo_policy :: "string \<Rightarrow> yaml \<times> yaml" where
  "demo_policy name =
     (YScalar name, YMap [(YScalar ''kind'', YScalar ''collection''),
        (YScalar ''input'', YMap [(YScalar ''tap'', YScalar ''t''), (YScalar ''input_type'', YScalar ''pcap'')]),
        (YScalar ''handlers'', YMap [(YScalar ''modules'', YMap [(YScalar ''h'', YMap [(YScalar ''type'', YScalar ''net'')])])])])"

definition demo_registry :: registry where
  "demo_registry = \<lparr>taps = [(''t'', \<lparr>input_plugin = ''pcap'', tap_config = [], tap_tags = []\<rparr>)], inputs = [], handlers = [], policies = [], next_id = 0\<rparr>"

definition demo_loaded :: registry where
  "demo_loaded = snd (load_policy demo_plugins (demo_policy ''p'') demo_registry)"

lemma demo_settled: "settled demo_loaded"
  by code_simp

lemma demo_fails: "load_policy demo_plugins (demo_policy ''q'') demo_loaded =
  (Some PolicyException, snd (load_policy demo_plugins (demo_policy ''q'') demo_loaded))"
  by code_simp

theorem load_transactional_witness:
  "map fst (policies demo_loaded) = [''t-0-resources'', ''p''] \<and>
   settled demo_loaded \<and> fst (load_policy demo_plugins (demo_policy ''q'') demo_loaded) = Some PolicyException \<and>
   unchanged demo_loaded (snd (load_policy demo_plugins (demo_policy ''q'') demo_loaded))"
proof (intro conjI)
  show "map fst (policies demo_loaded) = [''t-0-resources'', ''p'']" by code_simp
  show "settled demo_loaded" by (rule demo_settled)
  show "fst (load_policy demo_plugins (demo_policy ''q'') demo_loaded) = Some PolicyException" by (subst demo_fails) simp
  show "unchanged demo_loaded (snd (load_policy demo_plugins (demo_policy ''q'') demo_loaded))"
    by (rule load_transactional [OF demo_settled demo_fails])
qed

end
