(* ===== verification/Exports.thy ===== *)
theory Exports
  imports Window Configurable
begin

text \<open>
  Stream handlers and the output of a policy (\<^verbatim>\<open>src/src/StreamHandler.h\<close>, the second half of \<^verbatim>\<open>src/src/Policies.cpp\<close>):
  settings and metric groups of a handler, its windows as JSON, Prometheus text and OTLP, and the
  merge of the windows of several handlers.

  The handlers of a policy can have different bucket classes. A class is a number, \<open>cls\<close> gives its operations, and
  a bucket is carried with its class: \<^verbatim>\<open>dynamic_cast\<close> succeeds if the class is that of the handler.
  The map of merged buckets is ordered by the addresses of the buckets; \<open>place\<close> says
  where the address of the next new bucket is among those of the buckets before.
  Writing a window does not throw in the model, so the catch clauses that drop a half written window are left out.
\<close>

subsection \<open>Handlers\<close>

record ('q, 's, 'j) stream_handler =
  sh_name :: string
  sh_schema_key :: string
  sh_version :: string
  sh_class :: nat
  sh_metrics :: "('q, 's, 'j) manager"
  sh_groups :: u64
  sh_last_window :: "timespec option"
  sh_last_live :: "int option"

datatype settings_error = UnknownGroup string | UnknownSetting string | Setting conf_error

definition process_group :: "(string \<times> nat) list \<Rightarrow> string \<Rightarrow> settings_error + nat" where
  "process_group defs name = (case map_of defs name of None \<Rightarrow> Inl (UnknownGroup name) | Some g \<Rightarrow> Inr g)"

fun disable_groups :: "(string \<times> nat) list \<Rightarrow> string list \<Rightarrow> u64 \<Rightarrow> settings_error + u64" where
  "disable_groups defs [] groups = Inr groups"
| "disable_groups defs (g # gs) groups =
     (if g = ''all'' then Inr 0
      else case process_group defs g of Inl e \<Rightarrow> Inl e | Inr n \<Rightarrow> disable_groups defs gs (unset_bit n groups))"

fun enable_groups :: "(string \<times> nat) list \<Rightarrow> string list \<Rightarrow> u64 \<Rightarrow> settings_error + u64" where
  "enable_groups defs [] groups = Inr groups"
| "enable_groups defs (g # gs) groups =
     (if g = ''all'' then Inr (- 1)
      else case process_group defs g of Inl e \<Rightarrow> Inl e | Inr n \<Rightarrow> enable_groups defs gs (set_bit n groups))"

definition with_list :: "conf \<Rightarrow> string \<Rightarrow> (string list \<Rightarrow> u64 \<Rightarrow> settings_error + u64) \<Rightarrow> u64 \<Rightarrow> settings_error + u64" where
  "with_list c key f groups =
     (if \<not> config_exists c key then Inr groups
      else case config_get sel_list c key of Inl e \<Rightarrow> Inl (Setting e) | Inr gs \<Rightarrow> f gs groups)"

definition process_groups ::
  "(string \<times> nat) list \<Rightarrow> conf \<Rightarrow> ('q, 's, 'j) stream_handler \<Rightarrow> settings_error + ('q, 's, 'j) stream_handler" where
  "process_groups defs c h =
     (case with_list c ''disable'' (disable_groups defs) (sh_groups h) of
        Inl e \<Rightarrow> Inl e
      | Inr groups \<Rightarrow>
          (case with_list c ''enable'' (enable_groups defs) groups of
             Inl e \<Rightarrow> Inl e
           | Inr groups \<Rightarrow>
               Inr (h\<lparr>sh_groups := groups, sh_metrics := configure_groups (Some groups) (sh_metrics h)\<rparr>)))"

definition window_config_defs :: "string list" where
  "window_config_defs = [''deep_sample_rate'', ''num_periods'', ''topn_count'', ''topn_percentile_threshold'']"

fun validate_keys :: "string list \<Rightarrow> string list \<Rightarrow> settings_error option" where
  "validate_keys defs [] = None"
| "validate_keys defs (k # ks) =
     (if k \<in> set window_config_defs then validate_keys defs ks
      else if k \<in> set defs then validate_keys defs ks
      else if k = ''enable'' then validate_keys defs ks
      else if k = ''disable'' then validate_keys defs ks
      else if k = ''_internal_tap_name'' then validate_keys defs ks
      else Some (UnknownSetting k))"

definition validate_configs :: "string list \<Rightarrow> conf \<Rightarrow> settings_error option" where
  "validate_configs defs c = validate_keys defs (get_all_keys c)"

subsection \<open>The windows of a handler\<close>

text \<open>Times of the steady clock are in nanoseconds.\<close>

definition LIVE_WINDOW_PUSH_INTERVAL :: int where
  "LIVE_WINDOW_PUSH_INTERVAL = PERIOD_SEC * 1000000000"

definition live_window_due :: "int option \<Rightarrow> int \<Rightarrow> bool \<times> int option" where
  "live_window_due last_live now =
     (case last_live of
        Some l \<Rightarrow> if now - l < LIVE_WINDOW_PUSH_INTERVAL then (False, last_live) else (True, Some now)
      | None \<Rightarrow> (True, Some now))"

definition closes_windows :: "('q, 's, 'j) stream_handler \<Rightarrow> bool" where
  "closes_windows h \<longleftrightarrow> mm_num_periods (sh_metrics h) > 1 \<or> live_window_closed (sh_metrics h)"

definition window_json ::
  "(nat \<Rightarrow> ('q, 's, 'o, 'j) bucket_class) \<Rightarrow> timespec \<Rightarrow> int \<Rightarrow> u64 \<Rightarrow> bool \<Rightarrow> ('q, 's, 'j) stream_handler \<Rightarrow> 'j
     \<Rightarrow> period_error + ('q, 's, 'j) stream_handler \<times> 'j" where
  "window_json cls now now_ms period merged h j =
     (if merged then
        case window_merged_json (cls (sh_class h)) now now_ms (sh_schema_key h) period (sh_metrics h) j of
          Inl e \<Rightarrow> Inl e
        | Inr (m, j) \<Rightarrow> Inr (h\<lparr>sh_metrics := m\<rparr>, j)
      else
        case window_single_json (cls (sh_class h)) now (sh_schema_key h) period (sh_metrics h) j of
          Inl e \<Rightarrow> Inl e
        | Inr j \<Rightarrow> Inr (h, j))"

definition current_period :: "('q, 's, 'j) stream_handler \<Rightarrow> u64" where
  "current_period h = (if length (mm_buckets (sh_metrics h)) > 1 then 1 else 0)"

definition window_prometheus ::
  "(nat \<Rightarrow> ('q, 's, 'o, 'j) bucket_class) \<Rightarrow> label_map \<Rightarrow> ('q, 's, 'j) stream_handler \<Rightarrow> serializer \<Rightarrow> period_error + serializer" where
  "window_prometheus cls add_labels h ser =
     window_single_prometheus (cls (sh_class h)) (current_period h) add_labels (sh_metrics h) ser"

text \<open>The clock \<open>now\<close> stamps a live window, \<open>steady\<close> decides whether it is due.\<close>

definition window_opentelemetry ::
  "(nat \<Rightarrow> ('q, 's, 'o, 'j) bucket_class) \<Rightarrow> timespec \<Rightarrow> int \<Rightarrow> label_map \<Rightarrow> ('q, 's, 'j) stream_handler \<Rightarrow> 'o
     \<Rightarrow> period_error + ('q, 's, 'j) stream_handler \<times> 'o" where
  "window_opentelemetry cls now steady labels h scope =
     (if closes_windows h then
        case window_closed_opentelemetry (cls (sh_class h)) now labels (sh_metrics h) (sh_last_window h) scope of
          (_, last_window, scope) \<Rightarrow> Inr (h\<lparr>sh_last_window := last_window\<rparr>, scope)
      else
        case live_window_due (sh_last_live h) steady of
          (False, last_live) \<Rightarrow> Inr (h\<lparr>sh_last_live := last_live\<rparr>, scope)
        | (True, last_live) \<Rightarrow>
            (case window_single_opentelemetry (cls (sh_class h)) now 0 labels (sh_metrics h) scope of
               Inl e \<Rightarrow> Inl e
             | Inr scope \<Rightarrow> Inr (h\<lparr>sh_last_live := last_live\<rparr>, scope)))"

subsection \<open>Merging handlers\<close>

type_synonym ('q, 's) tagged = "nat \<times> ('q, 's) bucket"

text \<open>
  How a handler merges its window: into a bucket of its class, or into a new one.
\<close>

type_synonym ('q, 's) merger = "('q, 's) bucket option \<Rightarrow> period_error + ('q, 's) bucket"

definition handler_merge ::
  "(nat \<Rightarrow> ('q, 's, 'o, 'j) bucket_class) \<Rightarrow> timespec \<Rightarrow> u64 \<Rightarrow> bool \<Rightarrow> bool \<Rightarrow> ('q, 's, 'j) stream_handler \<Rightarrow> ('q, 's) merger" where
  "handler_merge cls now period prometheus merged h ext =
     (let period = (if prometheus then current_period h else period);
          merged = (if prometheus then False else merged) in
      if merged then multiple_merge (cls (sh_class h)) now ext period (sh_metrics h)
      else simple_merge (cls (sh_class h)) now ext period (sh_metrics h))"

definition merge_closed ::
  "(nat \<Rightarrow> ('q, 's, 'o, 'j) bucket_class) \<Rightarrow> timespec \<Rightarrow> timespec \<Rightarrow> ('q, 's, 'j) stream_handler \<Rightarrow> ('q, 's) merger" where
  "merge_closed cls now start h ext = closed_merge (cls (sh_class h)) now ext start (sh_metrics h)"

definition cast_to :: "('q, 's, 'j) stream_handler \<Rightarrow> ('q, 's) tagged \<Rightarrow> ('q, 's) bucket option" where
  "cast_to h b = (if fst b = sh_class h then Some (snd b) else None)"

type_synonym ('q, 's, 'j) bucket_map = "(('q, 's) tagged \<times> ('q, 's, 'j) stream_handler) list"

definition emplace :: "nat \<Rightarrow> 'a \<Rightarrow> 'a list \<Rightarrow> 'a list" where
  "emplace p x xs = take p xs @ x # drop p xs"

text \<open>
  The loop over the buckets for one handler: the buckets it has passed, and those that are left. The new bucket of
  a merge that finds no bucket of its class is dropped, except at the last one.
\<close>

fun merge_into ::
  "nat \<Rightarrow> ('q, 's, 'j) stream_handler \<Rightarrow> ('q, 's) merger \<Rightarrow> ('q, 's, 'j) bucket_map \<Rightarrow> ('q, 's, 'j) bucket_map
     \<Rightarrow> period_error + ('q, 's, 'j) bucket_map" where
  "merge_into p h merge passed [] = Inr passed"
| "merge_into p h merge passed ((b, k) # rest) =
     (if rest \<noteq> [] \<and> sh_schema_key h \<noteq> sh_schema_key k \<and> sh_version h \<noteq> sh_version k
      then merge_into p h merge (passed @ [(b, k)]) rest
      else
        case merge (cast_to h b) of
          Inl e \<Rightarrow> Inl e
        | Inr r \<Rightarrow>
            if cast_to h b \<noteq> None then Inr (passed @ ((sh_class h, r), k) # rest)
            else if rest = [] then Inr (emplace p ((sh_class h, r), h) (passed @ [(b, k)]))
            else merge_into p h merge (passed @ [(b, k)]) rest)"

fun get_merged_buckets ::
  "(nat \<Rightarrow> nat) \<Rightarrow> (('q, 's, 'j) stream_handler \<times> ('q, 's) merger) list \<Rightarrow> ('q, 's, 'j) bucket_map
     \<Rightarrow> period_error + ('q, 's, 'j) bucket_map" where
  "get_merged_buckets place [] m = Inr m"
| "get_merged_buckets place ((h, merge) # hs) m =
     (if m = [] then
        case merge None of Inl e \<Rightarrow> Inl e | Inr r \<Rightarrow> get_merged_buckets place hs [((sh_class h, r), h)]
      else
        case merge_into (place (length m)) h merge [] m of
          Inl e \<Rightarrow> Inl e
        | Inr m' \<Rightarrow> get_merged_buckets place hs m')"

subsection \<open>The output of a policy\<close>

record ('q, 's, 'j) export_policy =
  ep_name :: string
  ep_merge_like_handlers :: bool
  ep_handlers :: "('q, 's, 'j) stream_handler list"
  ep_last_merged :: "timespec list"
  ep_last_merged_live :: "int option"

definition policy_labels :: "string \<Rightarrow> string \<Rightarrow> label_map" where
  "policy_labels policy handler = [(''handler'', handler), (''policy'', policy)]"

definition merged_name :: "('q, 's, 'j) stream_handler \<Rightarrow> string" where
  "merged_name h = sh_schema_key h @ ''_merged''"

text \<open>Where the handlers are in their windows: after the last merged ones, or at the beginning.\<close>

definition afters :: "('q, 's, 'j) stream_handler list \<Rightarrow> timespec list \<Rightarrow> timespec option list" where
  "afters hs last_starts = (if length last_starts = length hs then map Some last_starts else map (\<lambda>_. None) hs)"

fun next_starts :: "('q, 's, 'j) stream_handler list \<Rightarrow> timespec option list \<Rightarrow> timespec list option" where
  "next_starts (h # hs) (a # as) =
     (case next_closed_window_start a (sh_metrics h) of
        None \<Rightarrow> None
      | Some start \<Rightarrow> (case next_starts hs as of None \<Rightarrow> None | Some ss \<Rightarrow> Some (start # ss)))"
| "next_starts hs as = Some []"

definition next_merged_windows :: "('q, 's, 'j) stream_handler list \<Rightarrow> timespec list \<Rightarrow> timespec list option" where
  "next_merged_windows hs last_starts = (if hs = [] then None else next_starts hs (afters hs last_starts))"

definition export_merged ::
  "(nat \<Rightarrow> ('q, 's, 'o, 'j) bucket_class) \<Rightarrow> timespec \<Rightarrow> string \<Rightarrow> ('q, 's, 'j) bucket_map \<Rightarrow> 'o \<Rightarrow> 'o" where
  "export_merged cls now name m scope =
     fold (\<lambda>((_, b), h) scope.
       window_external_opentelemetry (cls (sh_class h)) now (policy_labels name (merged_name h)) (sh_metrics h) b scope) m scope"

text \<open>What is left to merge: the closed windows of the handlers that have not been merged.\<close>

definition windows_left :: "('q, 's, 'j) stream_handler list \<Rightarrow> timespec list \<Rightarrow> nat" where
  "windows_left hs last_starts =
     sum_list (map2 (\<lambda>h a. length (pending a (sh_metrics h))) hs (afters hs last_starts))"

lemma next_closed_window_pending:
  "next_closed_window_start a m = (case pending a m of [] \<Rightarrow> None | b # _ \<Rightarrow> Some (b_start b))"
  by (simp add: next_closed_window_start_def next_closed_loop_pending pending_def)

lemma starts_after_trans: "starts_after t (Some s) \<Longrightarrow> starts_after s a \<Longrightarrow> starts_after t a"
  by (auto simp: starts_after_def split: option.splits)

lemma pending_shrinks:
  assumes "next_closed_window_start a m = Some s"
  shows "length (pending (Some s) m) < length (pending a m)"
proof -
  obtain b bs where p: "pending a m = b # bs" and s: "s = b_start b"
    using assms by (auto simp: next_closed_window_pending split: list.splits)
  then have b: "b \<in> set (pending a m)" by simp
  then have after: "starts_after s a" by (simp add: pending_def s)
  have "pending (Some s) m = filter (\<lambda>x. starts_after (b_start x) (Some s)) (pending a m)"
    unfolding pending_def by (auto intro: filter_cong starts_after_trans [OF _ after])
  moreover have "\<not> starts_after (b_start b) (Some s)" by (simp add: s starts_after_def)
  ultimately show ?thesis using b by (simp add: length_filter_less)
qed

lemma next_starts_shrinks:
  "next_starts hs as = Some ss \<Longrightarrow> length as = length hs \<Longrightarrow>
     length ss = length hs \<and>
     (hs \<noteq> [] \<longrightarrow> sum_list (map2 (\<lambda>h a. length (pending a (sh_metrics h))) hs (map Some ss))
       < sum_list (map2 (\<lambda>h a. length (pending a (sh_metrics h))) hs as))"
proof (induction hs as arbitrary: ss rule: next_starts.induct)
  case (1 h hs a as)
  from 1(2) obtain s ss' where s: "next_closed_window_start a (sh_metrics h) = Some s" "next_starts hs as = Some ss'" "ss = s # ss'"
    by (auto split: option.splits)
  from pending_shrinks [OF s(1)] 1(1) [OF s(1,2)] 1(3) show ?case by (cases hs) (auto simp: s(3))
qed auto

lemma next_merged_windows_shrinks:
  assumes "next_merged_windows hs last_starts = Some ss"
  shows "length ss = length hs" "windows_left hs ss < windows_left hs last_starts"
proof -
  have n: "hs \<noteq> []" "next_starts hs (afters hs last_starts) = Some ss"
    using assms by (auto simp: next_merged_windows_def split: if_splits)
  have "length (afters hs last_starts) = length hs" by (simp add: afters_def)
  from next_starts_shrinks [OF n(2) this] n(1) show "length ss = length hs" "windows_left hs ss < windows_left hs last_starts"
    by (auto simp: windows_left_def afters_def)
qed

text \<open>The loop of \<^verbatim>\<open>_merged_opentelemetry\<close>. It ends since every round leaves fewer windows.\<close>

function merged_loop ::
  "(nat \<Rightarrow> ('q, 's, 'o, 'j) bucket_class) \<Rightarrow> (nat \<Rightarrow> nat) \<Rightarrow> timespec \<Rightarrow> string \<Rightarrow> ('q, 's, 'j) stream_handler list
     \<Rightarrow> timespec list \<Rightarrow> 'o \<Rightarrow> period_error option \<times> timespec list \<times> 'o" where
  "merged_loop cls place now name hs last_starts scope =
     (case next_merged_windows hs last_starts of
        None \<Rightarrow> (None, last_starts, scope)
      | Some ss \<Rightarrow>
          (case get_merged_buckets place (map2 (\<lambda>h start. (h, merge_closed cls now start h)) hs ss) [] of
             Inl e \<Rightarrow> (Some e, last_starts, scope)
           | Inr m \<Rightarrow> merged_loop cls place now name hs ss (export_merged cls now name m scope)))"
  by pat_completeness auto

termination
  by (relation "measure (\<lambda>(cls, place, now, name, hs, last_starts, scope). windows_left hs last_starts)")
    (auto intro: next_merged_windows_shrinks)

declare merged_loop.simps [simp del]

definition merged_opentelemetry ::
  "(nat \<Rightarrow> ('q, 's, 'o, 'j) bucket_class) \<Rightarrow> (nat \<Rightarrow> nat) \<Rightarrow> timespec \<Rightarrow> int \<Rightarrow> ('q, 's, 'j) export_policy \<Rightarrow> 'o
     \<Rightarrow> period_error option \<times> ('q, 's, 'j) export_policy \<times> 'o" where
  "merged_opentelemetry cls place now steady p scope =
     (let hs = ep_handlers p in
      if list_ex (\<lambda>h. \<not> closes_windows h) hs then
        case live_window_due (ep_last_merged_live p) steady of
          (False, _) \<Rightarrow> (None, p, scope)
        | (True, last_live) \<Rightarrow>
            (case get_merged_buckets place (map (\<lambda>h. (h, handler_merge cls now 0 True False h)) hs) [] of
               Inl e \<Rightarrow> (Some e, p, scope)
             | Inr m \<Rightarrow> (None, p\<lparr>ep_last_merged_live := last_live\<rparr>, export_merged cls now (ep_name p) m scope))
      else
        case merged_loop cls place now (ep_name p) hs (ep_last_merged p) scope of
          (e, last_starts, scope) \<Rightarrow> (e, p\<lparr>ep_last_merged := last_starts\<rparr>, scope))"

fun handlers_opentelemetry ::
  "(nat \<Rightarrow> ('q, 's, 'o, 'j) bucket_class) \<Rightarrow> timespec \<Rightarrow> int \<Rightarrow> string \<Rightarrow> ('q, 's, 'j) stream_handler list \<Rightarrow> 'o
     \<Rightarrow> period_error option \<times> ('q, 's, 'j) stream_handler list \<times> 'o" where
  "handlers_opentelemetry cls now steady name [] scope = (None, [], scope)"
| "handlers_opentelemetry cls now steady name (h # hs) scope =
     (case window_opentelemetry cls now steady (policy_labels name (sh_name h)) h scope of
        Inl e \<Rightarrow> (Some e, h # hs, scope)
      | Inr (h, scope) \<Rightarrow>
          (case handlers_opentelemetry cls now steady name hs scope of (e, hs, scope) \<Rightarrow> (e, h # hs, scope)))"

definition opentelemetry_metrics ::
  "(nat \<Rightarrow> ('q, 's, 'o, 'j) bucket_class) \<Rightarrow> (nat \<Rightarrow> nat) \<Rightarrow> timespec \<Rightarrow> int \<Rightarrow> ('q, 's, 'j) export_policy \<Rightarrow> 'o
     \<Rightarrow> period_error option \<times> ('q, 's, 'j) export_policy \<times> 'o" where
  "opentelemetry_metrics cls place now steady p scope =
     (if ep_merge_like_handlers p then merged_opentelemetry cls place now steady p scope
      else
        case handlers_opentelemetry cls now steady (ep_name p) (ep_handlers p) scope of
          (e, hs, scope) \<Rightarrow> (e, p\<lparr>ep_handlers := hs\<rparr>, scope))"

text \<open>One scope per policy, unless nothing was written to it. An exception of a policy is dropped.\<close>

fun push_policies ::
  "(nat \<Rightarrow> ('q, 's, 'x list, 'j) bucket_class) \<Rightarrow> (nat \<Rightarrow> nat) \<Rightarrow> timespec \<Rightarrow> int \<Rightarrow> ('q, 's, 'j) export_policy list
     \<Rightarrow> (string \<times> 'x list) list \<Rightarrow> ('q, 's, 'j) export_policy list \<times> (string \<times> 'x list) list" where
  "push_policies cls place now steady [] scopes = ([], scopes)"
| "push_policies cls place now steady (p # ps) scopes =
     (case opentelemetry_metrics cls place now steady p [] of
        (_, p', scope) \<Rightarrow>
          (case push_policies cls place now steady ps
             (if scope = [] then scopes else scopes @ [(''pktvisor/'' @ ep_name p, scope)]) of
             (ps', scopes') \<Rightarrow> (p' # ps', scopes')))"

text \<open>The JSON of a policy by handler: a handler that writes nothing has no entry.\<close>

fun handlers_json ::
  "(nat \<Rightarrow> ('q, 's, 'o, 'j) bucket_class) \<Rightarrow> 'j \<Rightarrow> timespec \<Rightarrow> int \<Rightarrow> u64 \<Rightarrow> bool \<Rightarrow> ('q, 's, 'j) stream_handler list
     \<Rightarrow> (string \<times> 'j) list \<Rightarrow> period_error + ('q, 's, 'j) stream_handler list \<times> (string \<times> 'j) list" where
  "handlers_json cls null now now_ms period merged [] j = Inr ([], j)"
| "handlers_json cls null now now_ms period merged (h # hs) j =
     (case window_json cls now now_ms period merged h (case map_of j (sh_name h) of Some d \<Rightarrow> d | None \<Rightarrow> null) of
        Inl e \<Rightarrow> Inl e
      | Inr (h', d) \<Rightarrow>
          (case handlers_json cls null now now_ms period merged hs
             (if d = null then AList.delete (sh_name h) j else AList.update (sh_name h) d j) of
             Inl e \<Rightarrow> Inl e
           | Inr (hs', j') \<Rightarrow> Inr (h' # hs', j')))"

fun merged_json ::
  "(nat \<Rightarrow> ('q, 's, 'o, 'j) bucket_class) \<Rightarrow> 'j \<Rightarrow> timespec \<Rightarrow> ('q, 's, 'j) bucket_map \<Rightarrow> (string \<times> 'j) list \<Rightarrow> (string \<times> 'j) list" where
  "merged_json cls null now [] j = j"
| "merged_json cls null now (((_, b), h) # m) j =
     (let d = window_external_json (cls (sh_class h)) now (sh_schema_key h) (sh_metrics h) b
                (case map_of j (merged_name h) of Some d \<Rightarrow> d | None \<Rightarrow> null) in
      merged_json cls null now m (if d = null then AList.delete (merged_name h) j else AList.update (merged_name h) d j))"

definition json_metrics ::
  "(nat \<Rightarrow> ('q, 's, 'o, 'j) bucket_class) \<Rightarrow> 'j \<Rightarrow> (nat \<Rightarrow> nat) \<Rightarrow> timespec \<Rightarrow> int \<Rightarrow> u64 \<Rightarrow> bool \<Rightarrow> ('q, 's, 'j) export_policy
     \<Rightarrow> (string \<times> 'j) list \<Rightarrow> period_error + ('q, 's, 'j) export_policy \<times> (string \<times> 'j) list" where
  "json_metrics cls null place now now_ms period merge p j =
     (if ep_merge_like_handlers p then
        case get_merged_buckets place (map (\<lambda>h. (h, handler_merge cls now period False merge h)) (ep_handlers p)) [] of
          Inl e \<Rightarrow> Inl e
        | Inr m \<Rightarrow> Inr (p, merged_json cls null now m j)
      else
        case handlers_json cls null now now_ms period merge (ep_handlers p) j of
          Inl e \<Rightarrow> Inl e
        | Inr (hs, j) \<Rightarrow> Inr (p\<lparr>ep_handlers := hs\<rparr>, j))"

fun handlers_prometheus ::
  "(nat \<Rightarrow> ('q, 's, 'o, 'j) bucket_class) \<Rightarrow> string \<Rightarrow> ('q, 's, 'j) stream_handler list \<Rightarrow> serializer \<Rightarrow> period_error + serializer" where
  "handlers_prometheus cls name [] ser = Inr ser"
| "handlers_prometheus cls name (h # hs) ser =
     (case window_prometheus cls (policy_labels name (sh_name h)) h ser of
        Inl e \<Rightarrow> Inl e | Inr ser \<Rightarrow> handlers_prometheus cls name hs ser)"

definition prometheus_metrics ::
  "(nat \<Rightarrow> ('q, 's, 'o, 'j) bucket_class) \<Rightarrow> (nat \<Rightarrow> nat) \<Rightarrow> timespec \<Rightarrow> ('q, 's, 'j) export_policy \<Rightarrow> serializer
     \<Rightarrow> period_error + serializer" where
  "prometheus_metrics cls place now p ser =
     (if ep_merge_like_handlers p then
        case get_merged_buckets place (map (\<lambda>h. (h, handler_merge cls now 0 True False h)) (ep_handlers p)) [] of
          Inl e \<Rightarrow> Inl e
        | Inr m \<Rightarrow>
            Inr (fold (\<lambda>((_, b), h).
              window_external_prometheus (cls (sh_class h)) (policy_labels (ep_name p) (merged_name h)) (sh_metrics h) b) m ser)
      else handlers_prometheus cls (ep_name p) (ep_handlers p) ser)"

subsection \<open>One bucket per class\<close>

text \<open>What the buckets of a class should hold: its handlers merged one after the other.\<close>

definition total_merger :: "(('q, 's) bucket option \<Rightarrow> ('q, 's) bucket) \<Rightarrow> ('q, 's) merger" where
  "total_merger f ext = Inr (f ext)"

definition class_bucket ::
  "(('q, 's, 'j) stream_handler \<times> (('q, 's) bucket option \<Rightarrow> ('q, 's) bucket)) list \<Rightarrow> nat \<Rightarrow> ('q, 's) bucket option" where
  "class_bucket ks c = fold (\<lambda>(h, f) b. if sh_class h = c then Some (f b) else b) ks None"

definition class_map ::
  "(('q, 's, 'j) stream_handler \<times> (('q, 's) bucket option \<Rightarrow> ('q, 's) bucket)) list \<Rightarrow> ('q, 's, 'j) bucket_map \<Rightarrow> bool" where
  "class_map ks m \<longleftrightarrow>
     distinct (map (fst \<circ> fst) m) \<and> fst ` fst ` set m = sh_class ` fst ` set ks
     \<and> (\<forall>((c, b), h) \<in> set m. class_bucket ks c = Some b \<and> sh_class h = c \<and> h \<in> fst ` set ks)"

lemma class_bucket_snoc: "class_bucket (ks @ [(h, f)]) c = (if sh_class h = c then Some (f (class_bucket ks c)) else class_bucket ks c)"
  by (simp add: class_bucket_def)

lemma class_bucket_none: "c \<notin> sh_class ` fst ` set ks \<Longrightarrow> class_bucket ks c = None"
  by (induction ks rule: rev_induct) (auto simp: class_bucket_snoc, simp add: class_bucket_def)

definition same_kind :: "('q, 's, 'j) stream_handler \<Rightarrow> ('q, 's, 'j) stream_handler \<Rightarrow> bool" where
  "same_kind h k \<longleftrightarrow> (sh_class h = sh_class k \<longrightarrow> sh_schema_key h = sh_schema_key k \<or> sh_version h = sh_version k)"

lemma merge_into_new:
  assumes "rest \<noteq> []" "\<forall>((c, b), k) \<in> set rest. c \<noteq> sh_class h"
  shows "merge_into p h (total_merger f) passed rest = Inr (emplace p ((sh_class h, f None), h) (passed @ rest))"
  using assms
proof (induction rest arbitrary: passed)
  case (Cons x rest)
  obtain c b k where x: "x = ((c, b), k)" by (cases x) auto
  have "cast_to h (c, b) = None" using Cons.prems(2) by (auto simp: cast_to_def x)
  then show ?case using Cons by (cases "rest = []") (auto simp: x total_merger_def)
qed simp

lemma merge_into_old:
  assumes "\<forall>((c, b), k) \<in> set rest. sh_class k = c \<and> same_kind h k" "sh_class h \<in> fst ` fst ` set rest"
    "distinct (map (fst \<circ> fst) rest)"
  shows "merge_into p h (total_merger f) passed rest =
    Inr (passed @ map (\<lambda>((c, b), k). ((c, if c = sh_class h then f (Some b) else b), k)) rest)"
  using assms
proof (induction rest arbitrary: passed)
  case (Cons x rest)
  obtain c b k where x: "x = ((c, b), k)" by (cases x) auto
  show ?case
  proof (cases "c = sh_class h")
    case True
    have "map (\<lambda>((c, b), k). ((c, if c = sh_class h then f (Some b) else b), k)) rest = rest"
      using Cons.prems(3) True by (intro map_idI) (force simp: x)
    moreover have "sh_schema_key h = sh_schema_key k \<or> sh_version h = sh_version k"
      using Cons.prems(1) True by (auto simp: x same_kind_def)
    ultimately show ?thesis using True by (auto simp: x cast_to_def total_merger_def)
  next
    case False
    then have ne: "rest \<noteq> []" using Cons.prems(2) by (auto simp: x)
    have "merge_into p h (total_merger f) passed (x # rest) = merge_into p h (total_merger f) (passed @ [x]) rest"
      using False ne by (simp add: x cast_to_def total_merger_def)
    also have "\<dots> = Inr ((passed @ [x]) @ map (\<lambda>((c, b), k). ((c, if c = sh_class h then f (Some b) else b), k)) rest)"
      using Cons.prems False by (intro Cons.IH) (auto simp: x)
    finally show ?thesis using False by (simp add: x)
  qed
qed simp

lemma set_emplace: "set (emplace p x xs) = insert x (set xs)"
proof -
  have "set (take p xs) \<union> set (drop p xs) = set xs" by (metis append_take_drop_id set_append)
  then show ?thesis by (auto simp: emplace_def)
qed

lemma distinct_emplace: "distinct (map g (emplace p x xs)) \<longleftrightarrow> g x \<notin> g ` set xs \<and> distinct (map g xs)"
proof -
  have "xs = take p xs @ drop p xs" by simp
  then obtain ys zs where "xs = ys @ zs" "emplace p x xs = ys @ x # zs" unfolding emplace_def by blast
  then show ?thesis by auto
qed

lemma class_map_new:
  assumes "class_map ks m" "sh_class h \<notin> fst ` fst ` set m"
  shows "class_map (ks @ [(h, f)]) (emplace p ((sh_class h, f None), h) m)"
proof -
  let ?ks = "ks @ [(h, f)]" and ?m = "emplace p ((sh_class h, f None), h) m"
  have c: "sh_class h \<notin> sh_class ` fst ` set ks" using assms by (auto simp: class_map_def)
  have "class_bucket ?ks c = Some b \<and> sh_class k = c \<and> k \<in> fst ` set ?ks" if "((c, b), k) \<in> set ?m" for c b k
  proof (cases "((c, b), k) \<in> set m")
    case True
    then have "c \<noteq> sh_class h" using assms(2) by force
    then show ?thesis using True assms(1) by (force simp: class_map_def class_bucket_snoc)
  next
    case False
    then show ?thesis using that by (simp add: set_emplace class_bucket_snoc class_bucket_none [OF c])
  qed
  moreover have "distinct (map (fst \<circ> fst) ?m)"
    using assms by (auto simp: class_map_def distinct_emplace image_image)
  moreover have "fst ` fst ` set ?m = sh_class ` fst ` set ?ks" using assms(1) by (simp add: class_map_def set_emplace)
  ultimately show ?thesis unfolding class_map_def by auto
qed

lemma class_map_old:
  assumes "class_map ks m" "sh_class h \<in> fst ` fst ` set m"
  shows "class_map (ks @ [(h, f)]) (map (\<lambda>((c, b), k). ((c, if c = sh_class h then f (Some b) else b), k)) m)"
proof -
  let ?g = "\<lambda>((c, b), k). ((c, if c = sh_class h then f (Some b) else b), k)"
  have d: "map (fst \<circ> fst) (map ?g m) = map (fst \<circ> fst) m" by (auto simp: case_prod_unfold)
  have f: "fst ` fst ` set (map ?g m) = fst ` fst ` set m" by (force simp: image_image case_prod_unfold)
  have e: "class_bucket (ks @ [(h, f)]) c = Some b' \<and> sh_class k = c \<and> k \<in> fst ` set (ks @ [(h, f)])"
    if "((c, b'), k) \<in> set (map ?g m)" for c b' k
  proof -
    from that obtain b where b: "((c, b), k) \<in> set m" "b' = (if c = sh_class h then f (Some b) else b)" by auto
    have "\<forall>((c, b), h) \<in> set m. class_bucket ks c = Some b \<and> sh_class h = c \<and> h \<in> fst ` set ks"
      using assms(1) unfolding class_map_def by (elim conjE)
    from bspec [OF this b(1)] have "class_bucket ks c = Some b" "sh_class k = c" "k \<in> fst ` set ks" by simp_all
    then show ?thesis using b(2) by (auto simp: class_bucket_snoc)
  qed
  have "distinct (map (fst \<circ> fst) (map ?g m))" using assms(1) unfolding d by (simp add: class_map_def)
  moreover have "fst ` fst ` set (map ?g m) = sh_class ` fst ` set (ks @ [(h, f)])"
    using assms unfolding f class_map_def by auto
  moreover have "\<forall>((c, b), k) \<in> set (map ?g m). class_bucket (ks @ [(h, f)]) c = Some b \<and> sh_class k = c \<and> k \<in> fst ` set (ks @ [(h, f)])"
    using e by blast
  ultimately show ?thesis unfolding class_map_def by (intro conjI)
qed

lemma merge_into_class_map:
  assumes "class_map ks m" "m \<noteq> []" "\<forall>k \<in> fst ` set ks. same_kind h k"
  shows "\<exists>m'. merge_into p h (total_merger f) [] m = Inr m' \<and> class_map (ks @ [(h, f)]) m'"
proof (cases "sh_class h \<in> fst ` fst ` set m")
  case True
  have "\<forall>((c, b), k) \<in> set m. sh_class k = c \<and> same_kind h k" "distinct (map (fst \<circ> fst) m)"
    using assms(1,3) by (auto simp: class_map_def)
  from merge_into_old [OF this(1) True this(2), of p f "[]"] class_map_old [OF assms(1) True] show ?thesis by auto
next
  case False
  then have "\<forall>((c, b), k) \<in> set m. c \<noteq> sh_class h" by force
  from merge_into_new [OF assms(2) this, of p f "[]"] class_map_new [OF assms(1) False] show ?thesis by auto
qed

lemma get_merged_buckets_classes:
  assumes "class_map ks m" "ks = [] \<longleftrightarrow> m = []" "\<forall>h \<in> fst ` set (ks @ ls). \<forall>k \<in> fst ` set (ks @ ls). same_kind h k"
  shows "\<exists>m'. get_merged_buckets place (map (\<lambda>(h, f). (h, total_merger f)) ls) m = Inr m' \<and> class_map (ks @ ls) m'"
  using assms
proof (induction ls arbitrary: ks m)
  case (Cons x ls)
  obtain h f where x: "x = (h, f)" by (cases x)
  have k: "\<forall>k \<in> fst ` set ks. same_kind h k" using Cons.prems(3) by (auto simp: x)
  show ?case
  proof (cases "m = []")
    case True
    then have "ks = []" using Cons.prems(2) by simp
    then have "class_map (ks @ [(h, f)]) [((sh_class h, f None), h)]" by (simp add: class_map_def class_bucket_def)
    from Cons.IH [OF this] Cons.prems(3) show ?thesis by (simp add: x True total_merger_def)
  next
    case False
    from merge_into_class_map [OF Cons.prems(1) False k, of "place (length m)" f] obtain m1 where
      m1: "merge_into (place (length m)) h (total_merger f) [] m = Inr m1" "class_map (ks @ [(h, f)]) m1" by auto
    then have "m1 \<noteq> []" by (auto simp: class_map_def)
    from Cons.IH [OF m1(2)] this Cons.prems(3) show ?thesis using False m1(1) by (simp add: x)
  qed
qed simp


subsection \<open>Handlers in step\<close>

definition merge_held ::
  "('q, 's, 'o, 'j) bucket_class \<Rightarrow> timespec \<Rightarrow> ('q, 's) bucket \<Rightarrow> ('q, 's) bucket option \<Rightarrow> ('q, 's) bucket" where
  "merge_held cls now held ext =
     (case ext of
        Some b \<Rightarrow> bucket_merge cls now Agg_SUM held b
      | None \<Rightarrow> bucket_merge cls now Agg_DEFAULT held (new_bucket cls now))"

lemma pending_sorted:
  assumes "window_ok m"
  shows "sorted_wrt (\<lambda>a b. later (b_start b) (b_start a)) (pending a m)"
proof -
  have "sorted_wrt (\<lambda>a b. later (b_start a) (b_start b)) (drop (newest_closed m) (mm_buckets m))"
    using assms by (intro sorted_wrt_drop) (simp add: window_ok_def starts_def sorted_wrt_map)
  then show ?thesis unfolding pending_def by (intro sorted_wrt_filter) (simp add: sorted_wrt_rev)
qed

lemma pending_next:
  assumes "window_ok m" "pending a m = b # bs"
  shows "pending (Some (b_start b)) m = bs"
proof -
  have "b \<in> set (pending a m)" using assms(2) by simp
  then have after: "starts_after (b_start b) a" by (simp add: pending_def)
  have "pending (Some (b_start b)) m = filter (\<lambda>x. starts_after (b_start x) (Some (b_start b))) (pending a m)"
    unfolding pending_def by (auto intro: filter_cong starts_after_trans [OF _ after])
  moreover have "starts_after (b_start x) (Some (b_start b))" if "x \<in> set bs" for x
    using pending_sorted [OF assms(1), of a] that by (auto simp: assms(2) later_def starts_after_def)
  ultimately show ?thesis by (simp add: assms(2) starts_after_def)
qed

lemma find_start:
  "sorted_wrt (\<lambda>a b. later (b_start a) (b_start b)) xs \<Longrightarrow> b \<in> set xs \<Longrightarrow> find (\<lambda>x. b_start x = b_start b) xs = Some b"
  by (induction xs) (auto simp: later_def)

lemma closed_merge_pending:
  assumes "window_ok m" "b \<in> set (pending a m)"
  shows "closed_merge cls now ext (b_start b) m = Inr (merge_held cls now b ext)"
proof -
  let ?ws = "drop (newest_closed m) (mm_buckets m)"
  have "sorted_wrt (\<lambda>a b. later (b_start a) (b_start b)) ?ws"
    using assms(1) by (intro sorted_wrt_drop) (simp add: window_ok_def starts_def sorted_wrt_map)
  moreover have "b \<in> set ?ws" using assms(2) by (simp add: pending_def)
  ultimately have "find (\<lambda>x. b_start x = b_start b) ?ws = Some b"
    by (rule find_start)
  then show ?thesis by (simp add: closed_merge_def closed_merge_loop_find merge_held_def)
qed

text \<open>The first elements of all lists, then the second ones, as long as every list has one.\<close>

function rounds :: "'a list list \<Rightarrow> 'a list list" where
  "rounds xss = (if xss = [] \<or> [] \<in> set xss then [] else map hd xss # rounds (map tl xss))"
  by pat_completeness auto

termination
proof (relation "measure (length \<circ> hd)")
  fix xss :: "'a list list"
  assume "\<not> (xss = [] \<or> [] \<in> set xss)"
  then show "(map tl xss, xss) \<in> measure (length \<circ> hd)" by (cases xss) auto
qed simp

declare rounds.simps [simp del]

definition waiting :: "('q, 's, 'j) stream_handler list \<Rightarrow> timespec list \<Rightarrow> ('q, 's) bucket list list" where
  "waiting hs last_starts = map2 (\<lambda>h a. pending a (sh_metrics h)) hs (afters hs last_starts)"

lemma length_afters [simp]: "length (afters hs ss) = length hs"
  by (simp add: afters_def)

lemma length_waiting [simp]: "length (waiting hs ss) = length hs"
  by (simp add: waiting_def)

lemma next_starts_pending:
  "length as = length hs \<Longrightarrow>
   next_starts hs as = (let W = map2 (\<lambda>h a. pending a (sh_metrics h)) hs as in if [] \<in> set W then None else Some (map (b_start \<circ> hd) W))"
proof (induction hs as rule: next_starts.induct)
  case (1 h hs a as)
  show ?case
  proof (cases "pending a (sh_metrics h)")
    case Nil
    then show ?thesis by (simp add: next_closed_window_pending)
  next
    case (Cons b bs)
    then show ?thesis using 1(1) [of "b_start b"] 1(2) by (simp add: next_closed_window_pending Let_def split: if_splits)
  qed
qed auto

lemma waiting_empty: "waiting hs ss = [] \<longleftrightarrow> hs = []"
  by (metis length_0_conv length_waiting)

lemma next_merged_waiting:
  "next_merged_windows hs ss = (let W = waiting hs ss in if W = [] \<or> [] \<in> set W then None else Some (map (b_start \<circ> hd) W))"
  unfolding next_merged_windows_def Let_def waiting_empty by (simp add: next_starts_pending Let_def flip: waiting_def)

lemma waiting_next:
  assumes "\<forall>h \<in> set hs. window_ok (sh_metrics h)" "[] \<notin> set (waiting hs ss)"
  shows "waiting hs (map (b_start \<circ> hd) (waiting hs ss)) = map tl (waiting hs ss)"
proof (rule nth_equalityI)
  fix i assume "i < length (waiting hs (map (b_start \<circ> hd) (waiting hs ss)))"
  then have i: "i < length hs" by simp
  then have w: "waiting hs ss ! i = pending (afters hs ss ! i) (sh_metrics (hs ! i))" by (simp add: waiting_def)
  have "waiting hs ss ! i \<noteq> []" using assms(2) i by (metis length_waiting nth_mem)
  then obtain b bs where b: "waiting hs ss ! i = b # bs" by (cases "waiting hs ss ! i") auto
  have "window_ok (sh_metrics (hs ! i))" using assms(1) i by simp
  from pending_next [OF this] have "pending (Some (b_start b)) (sh_metrics (hs ! i)) = bs" using w b by metis
  moreover have "afters hs (map (b_start \<circ> hd) (waiting hs ss)) ! i = Some (b_start b)" using i b by (simp add: afters_def)
  ultimately show "waiting hs (map (b_start \<circ> hd) (waiting hs ss)) ! i = map tl (waiting hs ss) ! i"
    using i b by (simp add: waiting_def)
qed simp

definition round_mergers ::
  "(nat \<Rightarrow> ('q, 's, 'o, 'j) bucket_class) \<Rightarrow> timespec \<Rightarrow> ('q, 's, 'j) stream_handler list \<Rightarrow> ('q, 's) bucket list
     \<Rightarrow> (('q, 's, 'j) stream_handler \<times> (('q, 's) bucket option \<Rightarrow> ('q, 's) bucket)) list" where
  "round_mergers cls now hs bs = map2 (\<lambda>h b. (h, merge_held (cls (sh_class h)) now b)) hs bs"

definition round_map ::
  "(nat \<Rightarrow> ('q, 's, 'o, 'j) bucket_class) \<Rightarrow> (nat \<Rightarrow> nat) \<Rightarrow> timespec \<Rightarrow> ('q, 's, 'j) stream_handler list \<Rightarrow> ('q, 's) bucket list
     \<Rightarrow> ('q, 's, 'j) bucket_map" where
  "round_map cls place now hs bs =
     projr (get_merged_buckets place (map (\<lambda>(h, f). (h, total_merger f)) (round_mergers cls now hs bs)) [])"

lemma mergers_of_round:
  assumes "\<forall>h \<in> set hs. window_ok (sh_metrics h)" "[] \<notin> set (waiting hs ss)"
  shows "map2 (\<lambda>h start. (h, merge_closed cls now start h)) hs (map (b_start \<circ> hd) (waiting hs ss)) =
    map (\<lambda>(h, f). (h, total_merger f)) (round_mergers cls now hs (map hd (waiting hs ss)))"
proof (rule nth_equalityI)
  fix i assume "i < length (map2 (\<lambda>h start. (h, merge_closed cls now start h)) hs (map (b_start \<circ> hd) (waiting hs ss)))"
  then have i: "i < length hs" by simp
  let ?b = "hd (waiting hs ss ! i)"
  have "waiting hs ss ! i \<noteq> []" using assms(2) i by (metis length_waiting nth_mem)
  then have "?b \<in> set (pending (afters hs ss ! i) (sh_metrics (hs ! i)))" using i by (simp add: waiting_def)
  moreover have "window_ok (sh_metrics (hs ! i))" using assms(1) i by simp
  ultimately have "merge_closed cls now (b_start ?b) (hs ! i) = total_merger (merge_held (cls (sh_class (hs ! i))) now ?b)"
    by (intro ext) (simp add: merge_closed_def closed_merge_pending total_merger_def)
  then show "map2 (\<lambda>h start. (h, merge_closed cls now start h)) hs (map (b_start \<circ> hd) (waiting hs ss)) ! i =
    map (\<lambda>(h, f). (h, total_merger f)) (round_mergers cls now hs (map hd (waiting hs ss))) ! i"
    using i by (simp add: round_mergers_def)
qed (simp add: round_mergers_def)

lemma round_map_classes:
  assumes "\<forall>h \<in> set hs. \<forall>k \<in> set hs. same_kind h k" "length bs = length hs"
  shows "get_merged_buckets place (map (\<lambda>(h, f). (h, total_merger f)) (round_mergers cls now hs bs)) [] = Inr (round_map cls place now hs bs)
    \<and> class_map (round_mergers cls now hs bs) (round_map cls place now hs bs)"
proof -
  have "fst ` set (round_mergers cls now hs bs) \<subseteq> set hs" unfolding round_mergers_def by (auto dest: set_zip_leftD)
  then have "\<exists>m. get_merged_buckets place (map (\<lambda>(h, f). (h, total_merger f)) (round_mergers cls now hs bs)) [] = Inr m \<and>
      class_map ([] @ round_mergers cls now hs bs) m"
    using assms(1) by (intro get_merged_buckets_classes) (auto simp: class_map_def)
  then show ?thesis by (auto simp: round_map_def)
qed

lemma merged_loop_rounds:
  assumes "\<forall>h \<in> set hs. window_ok (sh_metrics h)" "\<forall>h \<in> set hs. \<forall>k \<in> set hs. same_kind h k"
  shows "merged_loop cls place now name hs ss scope =
    (let R = rounds (waiting hs ss) in
     (None, if R = [] then ss else map b_start (last R),
      fold (\<lambda>bs. export_merged cls now name (round_map cls place now hs bs)) R scope))"
  using assms
proof (induction cls place now name hs ss scope rule: merged_loop.induct)
  case (1 cls place now name hs ss scope)
  let ?W = "waiting hs ss"
  show ?case
  proof (cases "?W = [] \<or> [] \<in> set ?W")
    case True
    then have "next_merged_windows hs ss = None" "rounds ?W = []" by (simp_all add: next_merged_waiting rounds.simps)
    then show ?thesis by (simp add: merged_loop.simps)
  next
    case False
    let ?ss = "map (b_start \<circ> hd) ?W" and ?bs = "map hd ?W"
    have n: "next_merged_windows hs ss = Some ?ss" using False by (auto simp: next_merged_waiting)
    have r: "rounds ?W = ?bs # rounds (map tl ?W)" using False by (subst rounds.simps) simp
    have w: "waiting hs ?ss = map tl ?W" using waiting_next [OF 1(2)] False by simp
    note m = round_map_classes [OF 1(3), of ?bs place cls now] mergers_of_round [OF 1(2), of ss cls now]
    have g: "get_merged_buckets place (map2 (\<lambda>h start. (h, merge_closed cls now start h)) hs ?ss) [] = Inr (round_map cls place now hs ?bs)"
      using m False by simp
    have s: "map b_start ?bs = ?ss" by simp
    show ?thesis
      unfolding merged_loop.simps [of cls place now name hs ss scope] n option.case g sum.case
      using 1(1) [OF n g 1(2,3)] by (auto simp: Let_def r w s)
  qed
qed

lemma rounds_length: "bs \<in> set (rounds xss) \<Longrightarrow> length bs = length xss"
proof (induction xss rule: rounds.induct)
  case (1 xss)
  then show ?case by (subst (asm) (2) rounds.simps) (auto split: if_splits)
qed

lemma merged_loop_done:
  "merged_loop cls place now name hs ss scope = (None, ss', scope') \<Longrightarrow> next_merged_windows hs ss' = None"
proof (induction cls place now name hs ss scope rule: merged_loop.induct)
  case (1 cls place now name hs ss scope)
  show ?case
  proof (cases "next_merged_windows hs ss")
    case None
    then show ?thesis using 1(2) by (simp add: merged_loop.simps)
  next
    case (Some ss1)
    then show ?thesis using 1(1) [OF Some] 1(2) by (simp add: merged_loop.simps [of _ _ _ _ _ ss] split: sum.splits)
  qed
qed

text \<open>
  C3: The merged OTLP output of a policy whose handlers close their windows always ends, and without an error. In its
  \<open>i\<close>-th round it merges the \<open>i\<close>-th closed window that has not been sent of every handler, oldest first, and
  writes one bucket per bucket class, whatever the addresses of the buckets are. It stops only when some
  handler has no such window, and what it notes as sent are the windows of the last round.
\<close>

theorem merged_windows_in_step:
  assumes "\<forall>h \<in> set (ep_handlers p). window_ok (sh_metrics h) \<and> closes_windows h"
    "\<forall>h \<in> set (ep_handlers p). \<forall>k \<in> set (ep_handlers p). same_kind h k"
  shows "let hs = ep_handlers p; R = rounds (waiting hs (ep_last_merged p));
      p' = p\<lparr>ep_last_merged := if R = [] then ep_last_merged p else map b_start (last R)\<rparr> in
    merged_opentelemetry cls place now steady p scope =
      (None, p', fold (\<lambda>bs. export_merged cls now (ep_name p) (round_map cls place now hs bs)) R scope)
    \<and> next_merged_windows hs (ep_last_merged p') = None
    \<and> (\<forall>bs \<in> set R. class_map (round_mergers cls now hs bs) (round_map cls place now hs bs))"
proof -
  let ?hs = "ep_handlers p" and ?ss = "ep_last_merged p"
  have "\<not> list_ex (\<lambda>h. \<not> closes_windows h) ?hs" using assms(1) by (auto simp: list_ex_iff)
  moreover have ok: "\<forall>h \<in> set ?hs. window_ok (sh_metrics h)" using assms(1) by blast
  note l = merged_loop_rounds [OF this assms(2), of cls place now "ep_name p" ?ss scope]
  moreover have "next_merged_windows ?hs (if rounds (waiting ?hs ?ss) = [] then ?ss else map b_start (last (rounds (waiting ?hs ?ss)))) = None"
    using merged_loop_done [of cls place now "ep_name p" ?hs ?ss scope] l by (auto simp: Let_def split: if_splits)
  moreover have "class_map (round_mergers cls now ?hs bs) (round_map cls place now ?hs bs)" if "bs \<in> set (rounds (waiting ?hs ?ss))" for bs
    using round_map_classes [OF assms(2), of bs place cls now] rounds_length [OF that] by simp
  ultimately show ?thesis by (simp add: merged_opentelemetry_def Let_def)
qed

text \<open>Two handlers of a class: the first has closed two windows, the second one.\<close>

definition demo_manager :: "int list \<Rightarrow> (int list, unit, unit) manager" where
  "demo_manager stamps =
     fold (\<lambda>s m. fst (new_event start_class (ts s 0) (ts s 0) False m)) stamps (new_manager start_class no_config (ts 0 0) (ts 0 0))"

definition demo_handler :: "string \<Rightarrow> int list \<Rightarrow> (int list, unit, unit) stream_handler" where
  "demo_handler name stamps =
     \<lparr>sh_name = name, sh_schema_key = ''net'', sh_version = ''1.0'', sh_class = 0, sh_metrics = demo_manager stamps, sh_groups = 0,
      sh_last_window = None, sh_last_live = None\<rparr>"

definition demo_exports :: "(int list, unit, unit) export_policy" where
  "demo_exports =
     \<lparr>ep_name = ''p'', ep_merge_like_handlers = True, ep_handlers = [demo_handler ''a'' [10, 70, 140], demo_handler ''b'' [20, 80]],
      ep_last_merged = [], ep_last_merged_live = None\<rparr>"

theorem merged_windows_in_step_witness:
  "list_all (\<lambda>h. window_ok (sh_metrics h) \<and> closes_windows h) (ep_handlers demo_exports)
   \<and> list_all (\<lambda>h. list_all (same_kind h) (ep_handlers demo_exports)) (ep_handlers demo_exports)
   \<and> fst (merged_opentelemetry (\<lambda>_. start_class) (\<lambda>_. 0) (ts 200 0) 0 demo_exports []) = None
   \<and> map (map b_start) (rounds (waiting (ep_handlers demo_exports) [])) = [[ts 0 0, ts 0 0]]"
proof (intro conjI)
  show 1: "list_all (\<lambda>h. window_ok (sh_metrics h) \<and> closes_windows h) (ep_handlers demo_exports)" by code_simp
  show 2: "list_all (\<lambda>h. list_all (same_kind h) (ep_handlers demo_exports)) (ep_handlers demo_exports)" by code_simp
  show "fst (merged_opentelemetry (\<lambda>_. start_class) (\<lambda>_. 0) (ts 200 0) 0 demo_exports []) = None"
    using merged_windows_in_step [OF 1 [unfolded list_all_iff] 2 [unfolded list_all_iff],
        of "\<lambda>_. start_class" "\<lambda>_. 0" "ts 200 0" 0 "[]"] by (simp add: Let_def)
  show "map (map b_start) (rounds (waiting (ep_handlers demo_exports) [])) = [[ts 0 0, ts 0 0]]" by code_simp
qed

subsection \<open>Settings\<close>

text \<open>The names that are looked at: those before the first \<^verbatim>\<open>all\<close>.\<close>

definition checked :: "string list \<Rightarrow> string list" where
  "checked gs = takeWhile (\<lambda>g. g \<noteq> ''all'') gs"

definition names_bit :: "(string \<times> nat) list \<Rightarrow> string list \<Rightarrow> nat \<Rightarrow> bool" where
  "names_bit defs gs n \<longleftrightarrow> (\<exists>g \<in> set gs. map_of defs g = Some n)"

lemma disable_groups_result:
  "disable_groups defs gs w =
     (case find (\<lambda>g. map_of defs g = None) (checked gs) of
        Some g \<Rightarrow> Inl (UnknownGroup g)
      | None \<Rightarrow> Inr (if ''all'' \<in> set gs then 0 else fold (unset_bit \<circ> the \<circ> map_of defs) gs w))"
  by (induction gs arbitrary: w) (auto simp: process_group_def checked_def split: option.splits)

lemma enable_groups_result:
  "enable_groups defs gs w =
     (case find (\<lambda>g. map_of defs g = None) (checked gs) of
        Some g \<Rightarrow> Inl (UnknownGroup g)
      | None \<Rightarrow> Inr (if ''all'' \<in> set gs then - 1 else fold (set_bit \<circ> the \<circ> map_of defs) gs w))"
  by (induction gs arbitrary: w) (auto simp: process_group_def checked_def split: option.splits)

lemma find_known: "find (\<lambda>g. map_of defs g = None) gs = None \<Longrightarrow> g \<in> set gs \<Longrightarrow> map_of defs g = Some (the (map_of defs g))"
  by (auto simp: find_None_iff)

lemma bit_fold_unset:
  "\<forall>g \<in> set gs. map_of defs g \<noteq> None \<Longrightarrow>
   bit (fold (unset_bit \<circ> the \<circ> map_of defs) gs (w :: u64)) n \<longleftrightarrow> bit w n \<and> \<not> names_bit defs gs n"
  by (induction gs arbitrary: w) (auto simp: names_bit_def bit_unset_bit_iff)

lemma bit_fold_set:
  "\<forall>g \<in> set gs. map_of defs g \<noteq> None \<Longrightarrow> n < 64 \<Longrightarrow>
   bit (fold (set_bit \<circ> the \<circ> map_of defs) gs (w :: u64)) n \<longleftrightarrow> bit w n \<or> names_bit defs gs n"
  by (induction gs arbitrary: w) (auto simp: names_bit_def bit_set_bit_iff)

definition list_setting :: "conf \<Rightarrow> string \<Rightarrow> string list" where
  "list_setting c key = (case map_of c key of Some (CList gs) \<Rightarrow> gs | _ \<Rightarrow> [])"

lemma checked_all: "''all'' \<notin> set gs \<Longrightarrow> checked gs = gs"
  by (auto simp: checked_def takeWhile_eq_all_conv)

lemma disabled_bits:
  assumes "disable_groups defs gs w = Inr v"
  shows "bit v n \<longleftrightarrow> bit w n \<and> ''all'' \<notin> set gs \<and> \<not> names_bit defs gs n"
proof (cases "''all'' \<in> set gs")
  case True
  then show ?thesis using assms by (auto simp: disable_groups_result split: option.splits)
next
  case False
  have k: "find (\<lambda>g. map_of defs g = None) gs = None" using assms by (auto simp: disable_groups_result checked_all [OF False] split: option.splits)
  then have "v = fold (unset_bit \<circ> the \<circ> map_of defs) gs w" using assms False by (simp add: disable_groups_result checked_all [OF False])
  moreover have "\<forall>g \<in> set gs. map_of defs g \<noteq> None" using k by (auto simp: find_None_iff)
  ultimately show ?thesis using bit_fold_unset [of gs defs w n] assms False by simp
qed

lemma enabled_bits:
  assumes "enable_groups defs gs w = Inr v" "n < 64"
  shows "bit v n \<longleftrightarrow> bit w n \<or> ''all'' \<in> set gs \<or> names_bit defs gs n"
proof (cases "''all'' \<in> set gs")
  case True
  then show ?thesis using assms by (auto simp: enable_groups_result bit_minus_1_iff split: option.splits)
next
  case False
  have k: "find (\<lambda>g. map_of defs g = None) gs = None" using assms by (auto simp: enable_groups_result checked_all [OF False] split: option.splits)
  then have "v = fold (set_bit \<circ> the \<circ> map_of defs) gs w" using assms False by (simp add: enable_groups_result checked_all [OF False])
  moreover have "\<forall>g \<in> set gs. map_of defs g \<noteq> None" using k by (auto simp: find_None_iff)
  ultimately show ?thesis using bit_fold_set [of gs defs n w] assms False by simp
qed

lemma with_list_bits:
  assumes "with_list c key f w = Inr v"
  shows "config_exists c key \<and> f (list_setting c key) w = Inr v \<or> \<not> config_exists c key \<and> v = w \<and> list_setting c key = []"
  using assms by (auto simp: with_list_def config_exists_def config_get_def list_setting_def split: if_splits option.splits sum.splits conf_value.splits)

text \<open>
  The metric groups of a handler after its settings were read: a group is on if it is enabled by its name or by
  \<^verbatim>\<open>all\<close>, or if it was on before and is not disabled by its name or by \<^verbatim>\<open>all\<close>. The window
  of the handler sees the same groups.
\<close>

theorem process_groups_bits:
  assumes "process_groups defs c h = Inr h'" "n < 64"
  shows "(bit (sh_groups h') n \<longleftrightarrow>
      ''all'' \<in> set (list_setting c ''enable'') \<or> names_bit defs (list_setting c ''enable'') n
      \<or> bit (sh_groups h) n \<and> ''all'' \<notin> set (list_setting c ''disable'') \<and> \<not> names_bit defs (list_setting c ''disable'') n)
    \<and> mm_groups (sh_metrics h') = Some (sh_groups h')"
proof -
  obtain g where g: "with_list c ''disable'' (disable_groups defs) (sh_groups h) = Inr g"
    "with_list c ''enable'' (enable_groups defs) g = Inr (sh_groups h')" "mm_groups (sh_metrics h') = Some (sh_groups h')"
    using assms(1) by (auto simp: process_groups_def configure_groups_def upd_front_def split: sum.splits)
  have "bit g n \<longleftrightarrow> bit (sh_groups h) n \<and> ''all'' \<notin> set (list_setting c ''disable'') \<and> \<not> names_bit defs (list_setting c ''disable'') n"
    using with_list_bits [OF g(1)] disabled_bits by (auto simp: names_bit_def)
  moreover have "bit (sh_groups h') n \<longleftrightarrow> bit g n \<or> ''all'' \<in> set (list_setting c ''enable'') \<or> names_bit defs (list_setting c ''enable'') n"
    using with_list_bits [OF g(2)] enabled_bits [OF _ assms(2)] by (auto simp: names_bit_def)
  ultimately show ?thesis using g(3) by auto
qed


theorem process_groups_bits_witness:
  "\<exists>h'. process_groups [(''counters'', 0), (''top'', 1)] [(''disable'', CList [''all'']), (''enable'', CList [''top''])]
      ((demo_handler ''a'' [])\<lparr>sh_groups := 3\<rparr>) = Inr h'
    \<and> bit (sh_groups h') 1 \<and> \<not> bit (sh_groups h') 0"
proof -
  let ?c = "[(''disable'', CList [''all'']), (''enable'', CList [''top''])]" and ?defs = "[(''counters'', 0), (''top'', 1 :: nat)]"
  let ?h = "(demo_handler ''a'' [])\<lparr>sh_groups := 3\<rparr>"
  obtain h' where h: "process_groups ?defs ?c ?h = Inr h'"
    by (simp add: process_groups_def with_list_def config_exists_def config_get_def process_group_def)
  have "bit (sh_groups h') 1 \<and> \<not> bit (sh_groups h') 0"
    using process_groups_bits [OF h, of 0] process_groups_bits [OF h, of 1] by (simp add: list_setting_def names_bit_def)
  with h show ?thesis by blast
qed

end
