(* ===== verification/GeoDb.thy ===== *)
theory GeoDb
  imports LruList Metrics
begin

text \<open>
  The GeoIP and ASN databases (\<^verbatim>\<open>src/src/GeoDB.h\<close>, \<^verbatim>\<open>src/src/GeoDB.cpp\<close>): opening and closing a
  database, the lookups by address and by text, the text made from an entry, and the cache of
  results in front of the lookups, which is the LRU list of \<open>LruList\<close>.

  The MaxMind library is a parameter: an open database is a record of its lookups, where \<^const>\<open>None\<close>
  is both an error and an address without an entry, which the code treats alike, and reading a path
  of an entry gives \<^const>\<open>None\<close> where there is no data. A result \<^const>\<open>None\<close> of a lookup of the model is undefined
  behaviour: a handle that a failed second open has overwritten.
\<close>

subsection \<open>The library\<close>

datatype sockaddr = Sa4 u32 | Sa6 "byte list"

datatype mmdb_data =
    Utf8_String string
  | Double real
  | Uint16 u16
  | Int32 int
  | Uint32 u32
  | Uint64 u64
  | Other_Data

record 'e mmdb =
  mmdb_lookup_sockaddr :: "sockaddr \<Rightarrow> 'e option"
  mmdb_lookup_string :: "string \<Rightarrow> 'e option"
  mmdb_get_value :: "'e \<Rightarrow> string list \<Rightarrow> mmdb_data option"

text \<open>\<^verbatim>\<open>std::to_string\<close> of an integer, and of a double: six decimals, ties to the even digit.\<close>

definition int_str :: "int \<Rightarrow> string" where
  "int_str i = (if i < 0 then ''-'' @ dec_str (nat (- i)) else dec_str (nat i))"

definition pad6 :: "string \<Rightarrow> string" where
  "pad6 s = replicate (6 - length s) (CHR ''0'') @ s"

definition double_str :: "real \<Rightarrow> string" where
  "double_str x =
     (let y = \<bar>x\<bar> * 1000000;
          n = nat \<lfloor>y\<rfloor>;
          n = (if y - real n > 1 / 2 \<or> y - real n = 1 / 2 \<and> odd n then n + 1 else n)
      in (if x < 0 then ''-'' else []) @ dec_str (n div 1000000) @ ''.'' @ pad6 (dec_str (n mod 1000000)))"

subsection \<open>The text of an entry\<close>

definition slash_part :: "mmdb_data option \<Rightarrow> string \<Rightarrow> string" where
  "slash_part result s = (case result of Some (Utf8_String t) \<Rightarrow> s @ ''/'' @ t | _ \<Rightarrow> s)"

definition double_part :: "mmdb_data option \<Rightarrow> string" where
  "double_part result = (case result of Some (Double d) \<Rightarrow> double_str d | _ \<Rightarrow> [])"

definition entry_geo_loc :: "'e mmdb \<Rightarrow> 'e \<Rightarrow> city" where
  "entry_geo_loc db e =
     (let loc = (case mmdb_get_value db e [''continent'', ''code''] of Some (Utf8_String t) \<Rightarrow> t | _ \<Rightarrow> []);
          country = (case mmdb_get_value db e [''country'', ''names'', ''en''] of
                       None \<Rightarrow> mmdb_get_value db e [''country'', ''iso_code'']
                     | r \<Rightarrow> r);
          loc = slash_part country loc;
          loc = slash_part (mmdb_get_value db e [''subdivisions'', ''0'', ''iso_code'']) loc;
          loc = slash_part (mmdb_get_value db e [''city'', ''names'', ''en'']) loc
      in \<lparr>location = loc,
          latitude = double_part (mmdb_get_value db e [''location'', ''latitude'']),
          longitude = double_part (mmdb_get_value db e [''location'', ''longitude''])\<rparr>)"

definition entry_asn :: "'e mmdb \<Rightarrow> 'e \<Rightarrow> string" where
  "entry_asn db e =
     (let number =
            (case mmdb_get_value db e [''autonomous_system_number''] of
               Some (Uint16 n) \<Rightarrow> dec_str (unat n)
             | Some (Int32 n) \<Rightarrow> int_str n
             | Some (Uint32 n) \<Rightarrow> dec_str (unat n)
             | Some (Uint64 n) \<Rightarrow> dec_str (unat n)
             | Some (Utf8_String t) \<Rightarrow> t
             | _ \<Rightarrow> [])
      in slash_part (mmdb_get_value db e [''autonomous_system_organization'']) number)"

definition unknown_city :: city where
  "unknown_city = \<lparr>location = ''Unknown'', latitude = [], longitude = []\<rparr>"

definition no_city :: city where
  "no_city = \<lparr>location = [], latitude = [], longitude = []\<rparr>"

subsection \<open>A database\<close>

datatype db_type = Asn | Geo

record 'e maxmind =
  md_type :: db_type
  md_mmdb :: "'e mmdb option"
  md_enabled :: bool
  md_geo_cache :: "(string, city) lru option"
  md_asn_cache :: "(string, string) lru option"

definition new_maxmind :: "db_type \<Rightarrow> 'e maxmind" where
  "new_maxmind t = \<lparr>md_type = t, md_mmdb = None, md_enabled = False, md_geo_cache = None, md_asn_cache = None\<rparr>"

text \<open>
  \<open>opened\<close> is what \<^verbatim>\<open>MMDB_open\<close> gives, or the text of its error. The message is the exception; the
  handle is overwritten in both cases. The size of the cache is converted to \<^verbatim>\<open>size_t\<close>.
\<close>

definition enable :: "string \<Rightarrow> string + 'e mmdb \<Rightarrow> int \<Rightarrow> 'e maxmind \<Rightarrow> string option \<times> 'e maxmind" where
  "enable database_filename opened cache_size d =
     (case opened of
        Inl err \<Rightarrow> (Some (database_filename @ '': '' @ err), d\<lparr>md_mmdb := None\<rparr>)
      | Inr db \<Rightarrow>
          let d = d\<lparr>md_mmdb := Some db\<rparr>;
              n = unat (word_of_int cache_size :: u64);
              d = (if cache_size \<noteq> 0 then
                     case md_type d of
                       Geo \<Rightarrow> d\<lparr>md_geo_cache := Some (new_lru n)\<rparr>
                     | Asn \<Rightarrow> d\<lparr>md_asn_cache := Some (new_lru n)\<rparr>
                   else d)
          in (None, d\<lparr>md_enabled := True\<rparr>))"

definition disable :: "'e maxmind \<Rightarrow> 'e maxmind" where
  "disable d =
     (let d = (if md_enabled d then d\<lparr>md_mmdb := None, md_enabled := False\<rparr> else d)
      in d\<lparr>md_geo_cache := None, md_asn_cache := None\<rparr>)"

subsection \<open>Lookups\<close>

text \<open>What the database itself says, without a cache.\<close>

definition geo_of :: "'e mmdb \<Rightarrow> 'e option \<Rightarrow> city" where
  "geo_of db lookup = (case lookup of None \<Rightarrow> unknown_city | Some e \<Rightarrow> entry_geo_loc db e)"

definition asn_of :: "'e mmdb \<Rightarrow> 'e option \<Rightarrow> string" where
  "asn_of db lookup = (case lookup of None \<Rightarrow> ''Unknown'' | Some e \<Rightarrow> entry_asn db e)"

text \<open>The cache in front: a hit is returned, else the fresh value is stored and returned.\<close>

definition cached :: "string \<Rightarrow> 'v \<Rightarrow> (string, 'v) lru option \<Rightarrow> 'v \<times> (string, 'v) lru option" where
  "cached key fresh cache =
     (case cache of
        None \<Rightarrow> (fresh, None)
      | Some l \<Rightarrow>
          (case getValue key l of
             Some v \<Rightarrow> (v, Some l)
           | None \<Rightarrow> (fresh, Some (fst (lru_put key fresh l)))))"

text \<open>
  The keys: an IPv4 address is the decimal number \<^verbatim>\<open>s_addr\<close> is, an IPv6 address its sixteen bytes in
  decimal one after the other, with the empty separator of the source.
\<close>

fun cache_key :: "sockaddr \<Rightarrow> string" where
  "cache_key (Sa4 s_addr) = dec_str (unat s_addr)"
| "cache_key (Sa6 bs) = concat (map (\<lambda>b. dec_str (unat b)) bs)"

definition getGeoLoc_sockaddr :: "sockaddr option \<Rightarrow> 'e maxmind \<Rightarrow> city option" where
  "getGeoLoc_sockaddr sa d =
     (case sa of
        None \<Rightarrow> Some no_city
      | Some a \<Rightarrow>
          if \<not> md_enabled d then Some no_city
          else map_option (\<lambda>db. geo_of db (mmdb_lookup_sockaddr db a)) (md_mmdb d))"

text \<open>\<^verbatim>\<open>getGeoLoc\<close> of a \<^verbatim>\<open>sockaddr_in\<close> and of a \<^verbatim>\<open>sockaddr_in6\<close> differ in the key only.\<close>

definition getGeoLoc :: "sockaddr option \<Rightarrow> 'e maxmind \<Rightarrow> (city \<times> 'e maxmind) option" where
  "getGeoLoc sa d =
     (case sa of
        None \<Rightarrow> Some (no_city, d)
      | Some a \<Rightarrow>
          if \<not> md_enabled d then Some (no_city, d)
          else
            map_option (\<lambda>db.
              let (c, cache) = cached (cache_key a) (geo_of db (mmdb_lookup_sockaddr db a)) (md_geo_cache d)
              in (c, d\<lparr>md_geo_cache := cache\<rparr>)) (md_mmdb d))"

definition getGeoLoc_string :: "string option \<Rightarrow> 'e maxmind \<Rightarrow> (city \<times> 'e maxmind) option" where
  "getGeoLoc_string ip_address d =
     (case ip_address of
        None \<Rightarrow> Some (no_city, d)
      | Some s \<Rightarrow>
          if \<not> md_enabled d then Some (no_city, d)
          else
            map_option (\<lambda>db.
              let (c, cache) = cached s (geo_of db (mmdb_lookup_string db s)) (md_geo_cache d)
              in (c, d\<lparr>md_geo_cache := cache\<rparr>)) (md_mmdb d))"

text \<open>The uncached ASN lookup does not test its pointer.\<close>

definition getASNString_sockaddr :: "sockaddr option \<Rightarrow> 'e maxmind \<Rightarrow> string option" where
  "getASNString_sockaddr sa d =
     (if \<not> md_enabled d then Some []
      else
        case (sa, md_mmdb d) of
          (Some a, Some db) \<Rightarrow> Some (asn_of db (mmdb_lookup_sockaddr db a))
        | _ \<Rightarrow> None)"

definition getASNString :: "sockaddr option \<Rightarrow> 'e maxmind \<Rightarrow> (string \<times> 'e maxmind) option" where
  "getASNString sa d =
     (case sa of
        None \<Rightarrow> Some ([], d)
      | Some a \<Rightarrow>
          if \<not> md_enabled d then Some ([], d)
          else
            map_option (\<lambda>db.
              let (s, cache) = cached (cache_key a) (asn_of db (mmdb_lookup_sockaddr db a)) (md_asn_cache d)
              in (s, d\<lparr>md_asn_cache := cache\<rparr>)) (md_mmdb d))"

definition getASNString_string :: "string option \<Rightarrow> 'e maxmind \<Rightarrow> (string \<times> 'e maxmind) option" where
  "getASNString_string ip_address d =
     (case ip_address of
        None \<Rightarrow> Some ([], d)
      | Some s \<Rightarrow>
          if \<not> md_enabled d then Some ([], d)
          else
            map_option (\<lambda>db.
              let (v, cache) = cached s (asn_of db (mmdb_lookup_string db s)) (md_asn_cache d)
              in (v, d\<lparr>md_asn_cache := cache\<rparr>)) (md_mmdb d))"

subsection \<open>Keys\<close>

definition dec_val :: "string \<Rightarrow> nat" where
  "dec_val s = foldl (\<lambda>a c. a * 10 + (uchar c - 48)) 0 s"

lemma dec_val_dec_str: "dec_val (dec_str n) = n"
proof (induction n rule: dec_str.induct)
  case (1 n)
  show ?case
  proof (cases "n < 10")
    case True
    then show ?thesis by (subst dec_str.simps) (simp add: dec_val_def uchar_char_of)
  next
    case False
    then have "dec_val (dec_str n) = dec_val (dec_str (n div 10)) * 10 + n mod 10"
      by (subst dec_str.simps) (simp add: dec_val_def uchar_char_of)
    then show ?thesis using 1 False by simp
  qed
qed

lemma dec_str_inj: "dec_str m = dec_str n \<Longrightarrow> m = n"
  by (metis dec_val_dec_str)

lemma dec_str_nonempty: "length (dec_str n) \<ge> 1"
  by (subst dec_str.simps) simp

lemma dec_str_length: "n < 10 ^ Suc k \<Longrightarrow> length (dec_str n) \<le> Suc k"
proof (induction k arbitrary: n)
  case 0
  then show ?case by (subst dec_str.simps) simp
next
  case (Suc k)
  then have "n div 10 < 10 ^ Suc k" by (simp add: less_mult_imp_div_less mult.commute)
  then show ?case using Suc.IH [of "n div 10"] by (subst dec_str.simps) simp
qed

lemma concat_length: "\<forall>x \<in> set xs. length x \<ge> 1 \<Longrightarrow> length (concat xs) \<ge> length xs"
  by (induction xs) auto

definition addr_ok :: "sockaddr \<Rightarrow> bool" where
  "addr_ok a = (case a of Sa4 _ \<Rightarrow> True | Sa6 bs \<Rightarrow> length bs = 16)"

fun is_Sa6 :: "sockaddr \<Rightarrow> bool" where
  "is_Sa6 (Sa6 _) = True"
| "is_Sa6 (Sa4 _) = False"

lemma key4_length: "length (cache_key (Sa4 w)) \<le> 10"
proof -
  have "unat w < 2 ^ 32" using unsigned_less [of w] by simp
  then show ?thesis using dec_str_length [of "unat w" 9] by simp
qed

lemma key6_length: "length bs = 16 \<Longrightarrow> length (cache_key (Sa6 bs)) \<ge> 16"
  using concat_length [of "map (\<lambda>b. dec_str (unat b)) bs"] dec_str_nonempty by auto

text \<open>Only two IPv6 addresses can share a key.\<close>

lemma cache_key_clash:
  assumes "addr_ok a" "addr_ok b" "cache_key a = cache_key b" "a \<noteq> b"
  shows "is_Sa6 a \<and> is_Sa6 b"
proof -
  have "cache_key (Sa4 w) \<noteq> cache_key (Sa6 bs)" if "length bs = 16" for w bs
    using key4_length [of w] key6_length [OF that] by (auto simp del: cache_key.simps)
  moreover have "v = w" if "cache_key (Sa4 v) = cache_key (Sa4 w)" for v w
    using dec_str_inj [of "unat v" "unat w"] that by (simp add: word_unat_eq_iff)
  ultimately show ?thesis
    using assms by (cases a; cases b) (auto simp: addr_ok_def simp del: cache_key.simps dest: sym)
qed

subsection \<open>Runs of lookups\<close>

definition DEFAULT_CACHE_SIZE :: int where
  "DEFAULT_CACHE_SIZE = 10000"

fun geo_lookups :: "sockaddr list \<Rightarrow> 'e maxmind \<Rightarrow> city list option" where
  "geo_lookups [] d = Some []"
| "geo_lookups (a # as) d =
     (case getGeoLoc (Some a) d of None \<Rightarrow> None | Some (c, d) \<Rightarrow> map_option ((#) c) (geo_lookups as d))"

fun asn_lookups :: "sockaddr list \<Rightarrow> 'e maxmind \<Rightarrow> string list option" where
  "asn_lookups [] d = Some []"
| "asn_lookups (a # as) d =
     (case getASNString (Some a) d of None \<Rightarrow> None | Some (s, d) \<Rightarrow> map_option ((#) s) (asn_lookups as d))"

text \<open>Every cached pair comes from an address of \<open>A\<close>.\<close>

definition cache_from :: "(sockaddr \<Rightarrow> 'v) \<Rightarrow> sockaddr set \<Rightarrow> (string, 'v) lru option \<Rightarrow> bool" where
  "cache_from f A cache =
     (case cache of
        None \<Rightarrow> True
      | Some l \<Rightarrow> lru_ok l \<and> (\<forall>k v. getValue k l = Some v \<longrightarrow> (\<exists>a \<in> A. cache_key a = k \<and> v = f a)))"

lemma get_put_from:
  assumes "lru_ok l" "getValue k' (fst (lru_put k v l)) = Some v'"
  shows "k' = k \<and> v' = v \<or> getValue k' l = Some v'"
proof (cases "k' = k")
  case True
  then show ?thesis using assms lru.get_put_same by force
next
  case False
  let ?l = "fst (lru_put k v l)"
  have "lru_abs ?l = (k, v) # AList.delete k (lru_abs l) \<or> lru_abs ?l = butlast ((k, v) # AList.delete k (lru_abs l))"
    using lru.recency_put [OF assms(1), of k v] by (auto simp: spec_put_def Let_def split: if_splits)
  moreover have "map_of (lru_abs ?l) k' = Some v'"
    using assms(2) lru.get_recency [OF lru.ok_put [OF assms(1)], of k' k v] by simp
  ultimately have "(k', v') \<in> set (AList.delete k (lru_abs l))"
    using False by (metis in_set_butlastD map_of_SomeD set_ConsD prod.inject)
  then have "(k', v') \<in> set (lru_abs l)" by (simp add: alist_delete_filter)
  then show ?thesis
    using lru.get_recency [OF assms(1), of k'] lru.ok_distinct [OF assms(1)] by (simp add: map_of_eq_Some_iff)
qed

lemma cached_from:
  assumes "cache_from f A cache" "a \<in> A" "\<forall>b \<in> A. cache_key b = cache_key a \<longrightarrow> f b = f a"
  shows "fst (cached (cache_key a) (f a) cache) = f a"
    and "cache_from f A (snd (cached (cache_key a) (f a) cache))"
  subgoal
  proof (cases cache)
    case (Some l)
    then have "v = f a" if "getValue (cache_key a) l = Some v" for v
      using assms(1,3) that by (auto simp: cache_from_def)
    then show ?thesis using Some by (auto simp: cached_def split: option.splits)
  qed (simp add: cached_def)
  subgoal
  proof (cases cache)
    case (Some l)
    have ok: "lru_ok l" using assms(1) Some by (simp add: cache_from_def)
    show ?thesis
    proof (cases "getValue (cache_key a) l")
      case None
      have "\<exists>b \<in> A. cache_key b = k \<and> v = f b"
        if "getValue k (fst (lru_put (cache_key a) (f a) l)) = Some v" for k v
        using get_put_from [OF ok that] assms(1,2) Some by (auto simp: cache_from_def)
      then show ?thesis using Some None lru.ok_put [OF ok] by (simp add: cached_def cache_from_def)
    qed (use assms(1) Some in \<open>simp add: cached_def\<close>)
  qed (simp add: cached_def cache_from_def)
  done

lemma geo_lookups_from:
  assumes "md_enabled d" "md_mmdb d = Some db"
    "cache_from (\<lambda>a. geo_of db (mmdb_lookup_sockaddr db a)) A (md_geo_cache d)"
    "set as \<subseteq> A" "\<forall>a \<in> A. \<forall>b \<in> A. cache_key a = cache_key b \<longrightarrow> a = b"
  shows "geo_lookups as d = Some (map (\<lambda>a. geo_of db (mmdb_lookup_sockaddr db a)) as)"
  using assms
proof (induction as arbitrary: d)
  case (Cons a as)
  let ?f = "\<lambda>a. geo_of db (mmdb_lookup_sockaddr db a)"
  let ?r = "cached (cache_key a) (?f a) (md_geo_cache d)"
  have c: "fst ?r = ?f a" "cache_from ?f A (snd ?r)"
    by (rule cached_from [of ?f A]; use Cons.prems in auto)+
  have "getGeoLoc (Some a) d = Some (?f a, d\<lparr>md_geo_cache := snd ?r\<rparr>)"
    using Cons.prems(1,2) c(1) by (cases ?r) (simp add: getGeoLoc_def)
  then show ?case using Cons.IH [of "d\<lparr>md_geo_cache := snd ?r\<rparr>"] Cons.prems c(2) by simp
qed simp

lemma asn_lookups_from:
  assumes "md_enabled d" "md_mmdb d = Some db"
    "cache_from (\<lambda>a. asn_of db (mmdb_lookup_sockaddr db a)) A (md_asn_cache d)"
    "set as \<subseteq> A" "\<forall>a \<in> A. \<forall>b \<in> A. cache_key a = cache_key b \<longrightarrow> a = b"
  shows "asn_lookups as d = Some (map (\<lambda>a. asn_of db (mmdb_lookup_sockaddr db a)) as)"
  using assms
proof (induction as arbitrary: d)
  case (Cons a as)
  let ?f = "\<lambda>a. asn_of db (mmdb_lookup_sockaddr db a)"
  let ?r = "cached (cache_key a) (?f a) (md_asn_cache d)"
  have c: "fst ?r = ?f a" "cache_from ?f A (snd ?r)"
    by (rule cached_from [of ?f A]; use Cons.prems in auto)+
  have "getASNString (Some a) d = Some (?f a, d\<lparr>md_asn_cache := snd ?r\<rparr>)"
    using Cons.prems(1,2) c(1) by (cases ?r) (simp add: getASNString_def)
  then show ?case using Cons.IH [of "d\<lparr>md_asn_cache := snd ?r\<rparr>"] Cons.prems c(2) by simp
qed simp

lemma enabled_fields:
  "md_enabled (snd (enable file (Inr db) n (new_maxmind t)))"
  "md_mmdb (snd (enable file (Inr db) n (new_maxmind t))) = Some db"
  "cache_from f A (md_geo_cache (snd (enable file (Inr db) n (new_maxmind t))))"
  "cache_from g A (md_asn_cache (snd (enable file (Inr db) n (new_maxmind t))))"
  by (simp_all add: enable_def new_maxmind_def cache_from_def Let_def new_lru_ok getValue_refines [OF new_lru_ok(1)]
      split: db_type.splits)

text \<open>A lookup by a key that another address has just stored.\<close>

lemma cached_again:
  assumes "cache_key a = cache_key b"
  shows "cached (cache_key b) v' (snd (cached (cache_key a) v (Some (new_lru n)))) = (v, snd (cached (cache_key a) v (Some (new_lru n))))"
  using assms
  by (simp add: cached_def getValue_refines [OF new_lru_ok(1)] new_lru_ok(2) lru.get_put_same [OF new_lru_ok(1)])

lemma cached_first: "fst (cached k v (Some (new_lru n))) = v"
  by (simp add: cached_def getValue_refines [OF new_lru_ok(1)] new_lru_ok(2))

lemma shared_key_lookups:
  assumes "cache_key a = cache_key b"
  shows "geo_lookups [a, b] (snd (enable file (Inr db) DEFAULT_CACHE_SIZE (new_maxmind Geo)))
      = Some [geo_of db (mmdb_lookup_sockaddr db a), geo_of db (mmdb_lookup_sockaddr db a)]"
    and "asn_lookups [a, b] (snd (enable file (Inr db) DEFAULT_CACHE_SIZE (new_maxmind Asn)))
      = Some [asn_of db (mmdb_lookup_sockaddr db a), asn_of db (mmdb_lookup_sockaddr db a)]"
  by (simp_all add: getGeoLoc_def getASNString_def enable_def new_maxmind_def DEFAULT_CACHE_SIZE_def
      case_prod_unfold cached_first cached_again [OF assms])

subsection \<open>Properties\<close>

text \<open>
  C12: The cache is transparent for IPv4 addresses and for IPv6 addresses with different keys. Once a
  database is open, with a cache of any size or without one, any sequence of cached lookups, in any
  order and with repetitions, returns for every address exactly what the database itself says.
\<close>

theorem geo_cache_transparent:
  assumes "list_all addr_ok as" "inj_on cache_key {a \<in> set as. is_Sa6 a}"
  shows "geo_lookups as (snd (enable file (Inr db) n (new_maxmind t))) = Some (map (\<lambda>a. geo_of db (mmdb_lookup_sockaddr db a)) as)
    \<and> asn_lookups as (snd (enable file (Inr db) n (new_maxmind t))) = Some (map (\<lambda>a. asn_of db (mmdb_lookup_sockaddr db a)) as)"
proof -
  have "a = b" if "a \<in> set as" "b \<in> set as" "cache_key a = cache_key b" for a b
    using cache_key_clash [of a b] that assms by (auto simp: inj_on_def list_all_iff)
  then have keys: "\<forall>a \<in> set as. \<forall>b \<in> set as. cache_key a = cache_key b \<longrightarrow> a = b" by blast
  show ?thesis
    by (intro conjI geo_lookups_from [OF enabled_fields(1,2,3) subset_refl keys]
        asn_lookups_from [OF enabled_fields(1,2,4) subset_refl keys])
qed

text \<open>A database with an entry for every address, the address itself.\<close>

definition demo_mmdb :: "sockaddr mmdb" where
  "demo_mmdb =
     \<lparr>mmdb_lookup_sockaddr = Some, mmdb_lookup_string = (\<lambda>_. None),
      mmdb_get_value = (\<lambda>e path.
        if path = [''continent'', ''code''] then Some (Utf8_String (if is_Sa6 e then ''EU'' else ''NA''))
        else if path = [''city'', ''names'', ''en''] then Some (Utf8_String (cache_key e))
        else None)\<rparr>"

theorem geo_cache_transparent_witness:
  "list_all addr_ok [Sa4 1, Sa6 (replicate 16 7), Sa4 1]
   \<and> map_option (map location) (geo_lookups [Sa4 1, Sa6 (replicate 16 7), Sa4 1]
        (snd (enable ''geo.mmdb'' (Inr demo_mmdb) 1 (new_maxmind Geo))))
     = Some [''NA/1'', ''EU/7777777777777777'', ''NA/1'']"
proof
  show 1: "list_all addr_ok [Sa4 1, Sa6 (replicate 16 7), Sa4 1]" by (simp add: addr_ok_def)
  have 2: "inj_on cache_key {a \<in> set [Sa4 1, Sa6 (replicate 16 7), Sa4 1]. is_Sa6 a}" by (auto simp: inj_on_def)
  show "map_option (map location) (geo_lookups [Sa4 1, Sa6 (replicate 16 7), Sa4 1]
        (snd (enable ''geo.mmdb'' (Inr demo_mmdb) 1 (new_maxmind Geo))))
     = Some [''NA/1'', ''EU/7777777777777777'', ''NA/1'']"
    unfolding geo_cache_transparent [OF 1 2, THEN conjunct1] by code_simp
qed

text \<open>
  Two different IPv6 addresses can share a cache entry. The bytes 1, 23 and the bytes 12, 3 give the
  same key, since the decimal bytes are joined without a separator; so once the first address has
  been looked up, the second one gets the place and the AS of the first, whatever the database says
  of it.
\<close>

theorem geo_cache_confuses_ipv6:
  "let a = Sa6 ([0x20, 0x01, 0x0d, 0xb8] @ replicate 10 0 @ [1, 23]);
       b = Sa6 ([0x20, 0x01, 0x0d, 0xb8] @ replicate 10 0 @ [12, 3]);
       geo = (\<lambda>a. geo_of db (mmdb_lookup_sockaddr db a));
       asn = (\<lambda>a. asn_of db (mmdb_lookup_sockaddr db a))
   in a \<noteq> b
    \<and> geo_lookups [a, b] (snd (enable file (Inr db) DEFAULT_CACHE_SIZE (new_maxmind Geo))) = Some [geo a, geo a]
    \<and> asn_lookups [a, b] (snd (enable file (Inr db) DEFAULT_CACHE_SIZE (new_maxmind Asn))) = Some [asn a, asn a]"
proof -
  have "cache_key (Sa6 ([0x20, 0x01, 0x0d, 0xb8] @ replicate 10 0 @ [1, 23]))
      = cache_key (Sa6 ([0x20, 0x01, 0x0d, 0xb8] @ replicate 10 0 @ [12, 3]))" by code_simp
  note shared = shared_key_lookups [OF this]
  show ?thesis unfolding Let_def shared by simp
qed

end
