(* ===== verification/Handlers.thy ===== *)
theory Handlers
  imports Exports GeoDb Subnets "HOL-Library.Monad_Syntax"
begin

text \<open>
  What the handlers share: the sketches under their metrics, the databases of places, the packets
  and dnstap messages they are given, and the steps from a manager to its live bucket.

  PcapPlusPlus, protobuf and the sketches are parameters. A packet is a record of what the
  handlers read of it through PcapPlusPlus, a dnstap message one of its fields. The three kinds of
  sketches come in one record for all types of items, the items being tagged by their type. The
  lookups of \<open>GeoDb\<close> appear as functions of the address; that the caches in front of them do not
  change the answers, up to clashes of IPv6 keys, is shown there.
\<close>

subsection \<open>Sketches\<close>

datatype item = Num u64 | Text string | Bytes "byte list" | Place city

record ('r, 'q, 'f, 'c) sketches =
  sk_rate :: "('r, int) kll_ops"
  sk_quantile :: "('q, u64) kll_ops"
  sk_items :: "('f, item) fi_ops"
  sk_distinct :: "('c, item) cpc_ops"

text \<open>Sketches that keep nothing.\<close>

definition unit_kll :: "(unit, 't::zero) kll_ops" where
  "unit_kll =
     \<lparr>kll_new = (), kll_update = (\<lambda>_ _. ()), kll_merge = (\<lambda>_ _. ()), kll_is_empty = (\<lambda>_. True), kll_get_n = (\<lambda>_. 0),
      kll_get_quantile = (\<lambda>_ _. 0), kll_get_max_item = (\<lambda>_. 0), kll_get_PMF = (\<lambda>_ _. []), kll_get_CDF = (\<lambda>_ _. [])\<rparr>"

definition unit_sketches :: "(unit, unit, unit, unit) sketches" where
  "unit_sketches =
     \<lparr>sk_rate = unit_kll, sk_quantile = unit_kll,
      sk_items = \<lparr>fi_new = (), fi_update = (\<lambda>_ _ _. ()), fi_merge = (\<lambda>_ _. ()), fi_get_frequent_items = (\<lambda>_. [])\<rparr>,
      sk_distinct = \<lparr>cpc_new = (), cpc_update = (\<lambda>_ _. ()), cpc_union = (\<lambda>_. ()), cpc_estimate = (\<lambda>_. 0)\<rparr>\<rparr>"

fun item_text :: "item \<Rightarrow> string" where
  "item_text (Num n) = u64_str n"
| "item_text (Text s) = s"
| "item_text (Bytes bs) = map (\<lambda>b. char_of (unat b)) bs"
| "item_text (Place c) = location c"

fun item_place :: "item \<Rightarrow> city" where
  "item_place (Place c) = c"
| "item_place i = no_city"

definition new_counter :: "metric \<Rightarrow> counter" where
  "new_counter m = \<lparr>c_metric = m, c_value = 0\<rparr>"

definition new_quantile :: "('q, 't) kll_ops \<Rightarrow> metric \<Rightarrow> ('q, 't) quantile" where
  "new_quantile kll m = \<lparr>q_metric = m, q_sketch = kll_new kll, q_sum = []\<rparr>"

definition new_cardinality :: "('c, 't) cpc_ops \<Rightarrow> metric \<Rightarrow> 'c cardinality" where
  "new_cardinality cpc m = \<lparr>d_metric = m, d_set = cpc_new cpc\<rparr>"

text \<open>
  The value of a quantile in OTLP is a double. The scope holds the values of the signed quantiles
  of rates and those of the unsigned ones, converted.
\<close>

fun otel_map :: "('a \<Rightarrow> 'b) \<Rightarrow> 'a otel_metric \<Rightarrow> 'b otel_metric" where
  "otel_map f m =
     \<lparr>om_name = om_name m, om_desc = om_desc m,
      om_data =
        (case om_data m of
           ONotSet \<Rightarrow> ONotSet
         | OGauge ps \<Rightarrow> OGauge ps
         | OSummary ps \<Rightarrow>
             OSummary (map (\<lambda>p. \<lparr>op_start = op_start p, op_end = op_end p, op_attributes = op_attributes p,
               op_quantiles = map (\<lambda>(q, v). (q, f v)) (op_quantiles p)\<rparr>) ps)
         | OHistogram ps \<Rightarrow>
             OHistogram (map (\<lambda>p. \<lparr>op_start = op_start p, op_end = op_end p, op_attributes = op_attributes p,
               op_bounds = map f (op_bounds p), op_counts = op_counts p, op_count = op_count p\<rparr>) ps))\<rparr>"

definition u64_quantile_otel ::
  "('q, u64) kll_ops \<Rightarrow> timespec \<Rightarrow> timespec \<Rightarrow> label_map \<Rightarrow> ('q, u64) quantile \<Rightarrow> int scope_metrics \<Rightarrow> int scope_metrics" where
  "u64_quantile_otel kll start end_ts labels q scope =
     scope @ map (otel_map uint) (quantile_to_opentelemetry kll start end_ts labels q [])"

text \<open>Statements one after the other, those of a branch only if its condition holds.\<close>

definition in_order :: "('a \<Rightarrow> 'a) list \<Rightarrow> 'a \<Rightarrow> 'a" where
  "in_order fs s = fold (\<lambda>f. f) fs s"

definition only_if :: "bool \<Rightarrow> 'a list \<Rightarrow> 'a list" where
  "only_if c fs = (if c then fs else [])"

text \<open>Calls of \<^verbatim>\<open>set_settings\<close> up to the first that throws.\<close>

fun until_throw :: "('a \<Rightarrow> 'a \<times> bool) list \<Rightarrow> 'a \<Rightarrow> 'a" where
  "until_throw [] s = s"
| "until_throw (f # fs) s = (case f s of (s, thrown) \<Rightarrow> if thrown then s else until_throw fs s)"

definition field_settings ::
  "(('f topn \<Rightarrow> 'f topn) \<Rightarrow> 's \<Rightarrow> 's) \<Rightarrow> ('s \<Rightarrow> 'f topn) \<Rightarrow> nat \<Rightarrow> u64 \<Rightarrow> 's \<Rightarrow> 's \<times> bool" where
  "field_settings upd get n thr s = (upd (\<lambda>t. fst (set_settings n thr t)) s, snd (set_settings n thr (get s)))"

text \<open>The characters of metric names.\<close>

lemma name_chars [simp]:
  "alpha_us (CHR ''a'')" "alpha_us (CHR ''b'')" "alpha_us (CHR ''c'')" "alpha_us (CHR ''d'')" "alpha_us (CHR ''e'')"
  "alpha_us (CHR ''f'')" "alpha_us (CHR ''g'')" "alpha_us (CHR ''h'')" "alpha_us (CHR ''i'')" "alpha_us (CHR ''j'')"
  "alpha_us (CHR ''k'')" "alpha_us (CHR ''l'')" "alpha_us (CHR ''m'')" "alpha_us (CHR ''n'')" "alpha_us (CHR ''o'')"
  "alpha_us (CHR ''p'')" "alpha_us (CHR ''q'')" "alpha_us (CHR ''r'')" "alpha_us (CHR ''s'')" "alpha_us (CHR ''t'')"
  "alpha_us (CHR ''u'')" "alpha_us (CHR ''v'')" "alpha_us (CHR ''w'')" "alpha_us (CHR ''x'')" "alpha_us (CHR ''y'')"
  "alpha_us (CHR ''z'')" "alpha_us (CHR ''A'')" "alpha_us (CHR ''B'')" "alpha_us (CHR ''C'')" "alpha_us (CHR ''D'')"
  "alpha_us (CHR ''E'')" "alpha_us (CHR ''F'')" "alpha_us (CHR ''G'')" "alpha_us (CHR ''H'')" "alpha_us (CHR ''I'')"
  "alpha_us (CHR ''J'')" "alpha_us (CHR ''K'')" "alpha_us (CHR ''L'')" "alpha_us (CHR ''M'')" "alpha_us (CHR ''N'')"
  "alpha_us (CHR ''O'')" "alpha_us (CHR ''P'')" "alpha_us (CHR ''Q'')" "alpha_us (CHR ''R'')" "alpha_us (CHR ''S'')"
  "alpha_us (CHR ''T'')" "alpha_us (CHR ''U'')" "alpha_us (CHR ''V'')" "alpha_us (CHR ''W'')" "alpha_us (CHR ''X'')"
  "alpha_us (CHR ''Y'')" "alpha_us (CHR ''Z'')" "alpha_us (CHR ''_'')" "is_digit (CHR ''0'')" "is_digit (CHR ''1'')"
  "is_digit (CHR ''2'')" "is_digit (CHR ''3'')" "is_digit (CHR ''4'')" "is_digit (CHR ''5'')" "is_digit (CHR ''6'')"
  "is_digit (CHR ''7'')" "is_digit (CHR ''8'')" "is_digit (CHR ''9'')"
  by (simp_all add: alpha_us_def is_digit_def)

subsection \<open>Errors\<close>

datatype handler_error =
  Settings settings_error | Config_Exception string | Handler_Exception string | Std_Exception string

text \<open>A setting that is a flag; an exception ends the steps that follow it.\<close>

definition config_flag :: "conf \<Rightarrow> string \<Rightarrow> handler_error + bool" where
  "config_flag c key =
     (if config_exists c key then
        case config_get sel_bool c key of Inl e \<Rightarrow> Inl (Settings (Setting e)) | Inr b \<Rightarrow> Inr b
      else Inr False)"

definition sum_bind :: "'e + 'a \<Rightarrow> ('a \<Rightarrow> 'e + 'b) \<Rightarrow> 'e + 'b" where
  "sum_bind r f = (case r of Inl e \<Rightarrow> Inl e | Inr x \<Rightarrow> f x)"

text \<open>
  The time to live of transactions, in milliseconds. It is cut to 32 bits before seconds are multiplied,
  and the product again.
\<close>

definition configured_ttl :: "conf \<Rightarrow> handler_error + u32 option" where
  "configured_ttl c =
     (if config_exists c ''xact_ttl_ms'' then
        case config_get sel_uint c ''xact_ttl_ms'' of Inl e \<Rightarrow> Inl (Settings (Setting e)) | Inr ttl \<Rightarrow> Inr (Some (ucast ttl))
      else if config_exists c ''xact_ttl_secs'' then
        case config_get sel_uint c ''xact_ttl_secs'' of
          Inl e \<Rightarrow> Inl (Settings (Setting e)) | Inr ttl \<Rightarrow> Inr (Some (ucast ttl * 1000))
      else Inr None)"

subsection \<open>Places\<close>

record geo_dbs =
  city_enabled :: bool
  city_loc :: "sockaddr \<Rightarrow> city"
  asn_enabled :: bool
  asn_text :: "sockaddr \<Rightarrow> string"

subsection \<open>Packets\<close>

datatype direction = FromHost | ToHost | UnknownDir

datatype protocol = P_IPv4 | P_IPv6 | P_UDP | P_TCP | P_Unknown

record packet =
  pk_ipv4 :: "(ipv4 \<times> ipv4) option"
  pk_ipv6 :: "(ipv6 \<times> ipv6) option"
  pk_tcp_syn :: "bool option"
  pk_len :: u64

text \<open>An address of four bytes as \<^verbatim>\<open>toInt\<close> gives it on a little endian machine.\<close>

definition ipv4_of_bytes :: "byte list \<Rightarrow> ipv4" where
  "ipv4_of_bytes bs = be32 (bs ! 3) (bs ! 2) (bs ! 1) (bs ! 0)"

definition ipv4_Zero :: ipv4 where
  "ipv4_Zero = 0"

definition ipv6_Zero :: ipv6 where
  "ipv6_Zero = replicate 16 0"

record addr_text =
  ip4_text :: "ipv4 \<Rightarrow> string"
  ip6_text :: "ipv6 \<Rightarrow> string"

fun item_ip4_text :: "addr_text \<Rightarrow> item \<Rightarrow> string" where
  "item_ip4_text txts (Num n) = ip4_text txts (ucast n)"
| "item_ip4_text txts i = item_text i"

text \<open>No texts at all.\<close>

definition demo_texts :: addr_text where
  "demo_texts = \<lparr>ip4_text = (\<lambda>_. []), ip6_text = (\<lambda>_. [])\<rparr>"

subsection \<open>TCP connections\<close>

text \<open>
  What the handlers read of a connection of PcapPlusPlus, and what they keep per connection: two
  sessions, one for each side, made at the first data of the side. A session has a buffer of bytes, a mark for
  data that is not of its protocol, and the variables its callback captured when it was made.
\<close>

record connection_data =
  cd_ipv4 :: "(ipv4 \<times> ipv4) option"
  cd_ipv6 :: "ipv6 \<times> ipv6"

record tcp_connection = connection_data +
  cd_flow_key :: u32
  cd_src_port :: u16
  cd_dst_port :: u16
  cd_end_time :: "int \<times> int"

definition timeval_stamp :: "int \<times> int \<Rightarrow> timespec" where
  "timeval_stamp tv = ts (fst tv) (snd tv * 1000)"

record 'e tcp_session =
  ses_buffer :: "byte list"
  ses_invalid :: bool
  ses_captured :: 'e

definition new_session :: "'e \<Rightarrow> 'e tcp_session" where
  "new_session captured = \<lparr>ses_buffer = [], ses_invalid = False, ses_captured = captured\<rparr>"

record 'e tcp_flow =
  fl_sessions :: "bool \<Rightarrow> 'e tcp_session option"
  fl_l3 :: protocol
  fl_port :: u16

definition new_tcp_flow :: "bool \<Rightarrow> u16 \<Rightarrow> 'e tcp_flow" where
  "new_tcp_flow isIPv4 port = \<lparr>fl_sessions = (\<lambda>_. None), fl_l3 = (if isIPv4 then P_IPv4 else P_IPv6), fl_port = port\<rparr>"

subsection \<open>dnstap messages\<close>

datatype dnstap_type =
    AUTH_QUERY | AUTH_RESPONSE | RESOLVER_QUERY | RESOLVER_RESPONSE | CLIENT_QUERY | CLIENT_RESPONSE
  | FORWARDER_QUERY | FORWARDER_RESPONSE | STUB_QUERY | STUB_RESPONSE | TOOL_QUERY | TOOL_RESPONSE
  | UPDATE_QUERY | UPDATE_RESPONSE

datatype socket_family = INET | INET6

datatype socket_protocol = DP_UDP | DP_TCP | DP_DOT | DP_DOH | DP_DNSCryptUDP | DP_DNSCryptTCP | DP_DOQ

record dnstap =
  dt_type :: dnstap_type
  dt_socket_family :: "socket_family option"
  dt_socket_protocol :: "socket_protocol option"
  dt_query_address :: "byte list option"
  dt_response_address :: "byte list option"
  dt_query_time_sec :: "u64 option"
  dt_query_time_nsec :: u32
  dt_response_time_sec :: "u64 option"
  dt_response_time_nsec :: u32

text \<open>
  The time stamp the managers take from a message. \<^const>\<open>None\<close> is a value that was never written: a query or
  response of the first three kinds without its time.
\<close>

definition dnstap_stamp :: "timespec \<Rightarrow> dnstap \<Rightarrow> timespec option" where
  "dnstap_stamp now d =
     (if dt_type d \<in> {CLIENT_RESPONSE, AUTH_RESPONSE, RESOLVER_RESPONSE} then
        map_option (\<lambda>s. ts (sint s) (uint (dt_response_time_nsec d))) (dt_response_time_sec d)
      else if dt_type d \<in> {CLIENT_QUERY, AUTH_QUERY, RESOLVER_QUERY} then
        map_option (\<lambda>s. ts (sint s) (uint (dt_query_time_nsec d))) (dt_query_time_sec d)
      else Some now)"

subsection \<open>The live bucket\<close>

text \<open>
  An event goes through \<^verbatim>\<open>new_event\<close> to the live bucket, the front of the deque. The bucket reads its
  groups through a pointer that is null before \<^verbatim>\<open>configure_groups\<close>; the result \<^const>\<open>None\<close> is that undefined read.
\<close>

definition on_live :: "(u64 \<Rightarrow> 's \<Rightarrow> 's) \<Rightarrow> ('q, 's, 'j) manager \<Rightarrow> ('q, 's, 'j) manager option" where
  "on_live f m =
     map_option (\<lambda>g. upd_front (\<lambda>b. b\<lparr>b_spec := f g (b_spec b)\<rparr>) m) (b_groups (hd (mm_buckets m)))"

definition group_enabled :: "u64 \<Rightarrow> nat \<Rightarrow> bool" where
  "group_enabled groups g = bit groups g"

definition live_event ::
  "('q, 's, 'o, 'j) bucket_class \<Rightarrow> timespec \<Rightarrow> timespec \<Rightarrow> bool \<Rightarrow> (bool \<Rightarrow> u64 \<Rightarrow> 's \<Rightarrow> 's) \<Rightarrow> ('q, 's, 'j) manager
     \<Rightarrow> ('q, 's, 'j) manager option" where
  "live_event cls now stamp sample f m =
     (case new_event cls now stamp sample m of (m, expiring) \<Rightarrow> on_live (f (mm_deep_sampling_now m)) m)"

text \<open>The same for handlers without groups.\<close>

definition plain_event ::
  "('q, 's, 'o, 'j) bucket_class \<Rightarrow> timespec \<Rightarrow> timespec \<Rightarrow> bool \<Rightarrow> (bool \<Rightarrow> 's \<Rightarrow> 's) \<Rightarrow> ('q, 's, 'j) manager
     \<Rightarrow> ('q, 's, 'j) manager" where
  "plain_event cls now stamp sample f m =
     (case new_event cls now stamp sample m of (m, expiring) \<Rightarrow>
        upd_front (\<lambda>b. b\<lparr>b_spec := f (mm_deep_sampling_now m) (b_spec b)\<rparr>) m)"

text \<open>A further step on the live bucket after an event.\<close>

definition on_live_bucket :: "(bool \<Rightarrow> 's \<Rightarrow> 's) \<Rightarrow> ('q, 's, 'j) manager \<Rightarrow> ('q, 's, 'j) manager" where
  "on_live_bucket f m = upd_front (\<lambda>b. b\<lparr>b_spec := f (mm_deep_sampling_now m) (b_spec b)\<rparr>) m"

text \<open>A step on the live bucket that can be undefined and has a result.\<close>

definition live_step ::
  "(bool \<Rightarrow> u64 \<Rightarrow> 's \<Rightarrow> ('s \<times> 'a) option) \<Rightarrow> ('q, 's, 'j) manager \<Rightarrow> (('q, 's, 'j) manager \<times> 'a) option" where
  "live_step f m =
     do { g \<leftarrow> b_groups (hd (mm_buckets m));
          (s, x) \<leftarrow> f (mm_deep_sampling_now m) g (b_spec (hd (mm_buckets m)));
          Some (upd_front (\<lambda>b. b\<lparr>b_spec := s\<rparr>) m, x) }"

text \<open>The three metrics of the base class, under the names a handler gives them.\<close>

definition event_counter :: "metric \<Rightarrow> u64 \<Rightarrow> counter" where
  "event_counter info n = \<lparr>c_metric = info, c_value = n\<rparr>"

lemma in_order_simps [simp]:
  "in_order [] s = s"
  "in_order (f # fs) s = in_order fs (f s)"
  "in_order (fs @ gs) s = in_order gs (in_order fs s)"
  by (simp_all add: in_order_def)

lemma only_if_simps [simp]:
  "only_if True fs = fs"
  "only_if False fs = []"
  by (simp_all add: only_if_def)

lemma in_order_keeps: "list_all (\<lambda>f. \<forall>s. h (f s) = h s) fs \<Longrightarrow> h (in_order fs s) = h s"
  by (induction fs arbitrary: s) simp_all

lemma list_all_only_if [simp]: "list_all P (only_if c fs) \<longleftrightarrow> (c \<longrightarrow> list_all P fs)"
  by (simp add: only_if_def)

lemma until_throw_invariant:
  "(\<And>f s. f \<in> set fs \<Longrightarrow> h (fst (f s)) = h s) \<Longrightarrow> h (until_throw fs s) = h s"
  by (induction fs arbitrary: s) (simp_all add: case_prod_beta)

lemma list_all_butlast: "list_all P xs \<Longrightarrow> list_all P (butlast xs)"
  by (auto simp: list_all_iff dest: in_set_butlastD)

subsection \<open>Buckets that account for their events\<close>

text \<open>
  A bucket is accounted for if an invariant \<open>I\<close> of its specialised part holds and its \<open>tally\<close>, a sum of
  its counters, is the number of events of the base class. The contract of a bucket class under
  which all buckets of a window stay so: a new bucket is empty, closing a bucket and the settings of
  the top lists touch neither, and a merge keeps the invariant and adds the tallies if the groups
  have the counters \<open>on\<close>.
\<close>

definition accounted :: "('s \<Rightarrow> bool) \<Rightarrow> ('s \<Rightarrow> u64) \<Rightarrow> u64 option \<Rightarrow> ('q, 's) bucket \<Rightarrow> bool" where
  "accounted I tally g b \<longleftrightarrow> b_groups b = g \<and> I (b_spec b) \<and> tally (b_spec b) = b_num_events b"

definition tallied :: "('s \<Rightarrow> bool) \<Rightarrow> ('s \<Rightarrow> u64) \<Rightarrow> u64 option \<Rightarrow> ('q, 's, 'j) manager \<Rightarrow> bool" where
  "tallied I tally g m \<longleftrightarrow>
     mm_buckets m \<noteq> [] \<and> mm_groups m = g \<and> list_all (accounted I tally g) (mm_buckets m)"

locale tallied_bucket =
  fixes cls :: "('q, 's, 'o, 'j) bucket_class"
    and I :: "'s \<Rightarrow> bool"
    and tally :: "'s \<Rightarrow> u64"
    and on :: "u64 option \<Rightarrow> bool"
  assumes new_ok: "I (bc_new cls) \<and> tally (bc_new cls) = 0"
    and read_only_ok: "I s \<Longrightarrow> I (bc_on_set_read_only cls s) \<and> tally (bc_on_set_read_only cls s) = tally s"
    and topn_ok: "I s \<Longrightarrow> I (bc_update_topn_metrics cls n thr s) \<and> tally (bc_update_topn_metrics cls n thr s) = tally s"
    and merge_ok: "on g \<Longrightarrow> I s \<Longrightarrow> I t \<Longrightarrow>
      I (bc_specialized_merge cls agg g s t) \<and> tally (bc_specialized_merge cls agg g s t) = tally t + tally s"
begin

lemma accounted_read_only: "accounted I tally g b \<Longrightarrow> accounted I tally g (set_read_only cls stamp b)"
  using read_only_ok by (simp add: accounted_def set_read_only_def)

lemma tallied_new:
  "tallied I tally g (configure_groups g (new_manager cls cfg now now'))"
  "tallied I tally None (new_manager cls cfg now now')"
  using new_ok topn_ok
  by (simp_all add: tallied_def accounted_def configure_groups_def upd_front_def new_manager_def new_bucket_def Let_def)

lemma tallied_shift:
  assumes "tallied I tally g m"
  shows "tallied I tally g (fst (period_shift cls now stamp m))"
proof -
  let ?b = "let b = (new_bucket cls now)\<lparr>b_groups := mm_groups m, b_start := stamp\<rparr>;
       b = b\<lparr>b_spec := bc_update_topn_metrics cls (mm_topn_count m) (mm_topn_percentile_threshold m) (b_spec b)\<rparr>
     in if mm_recorded_stream m then b\<lparr>b_recorded := True\<rparr> else b"
  let ?bs = "?b # set_read_only cls stamp (hd (mm_buckets m)) # tl (mm_buckets m)"
  have "mm_buckets (fst (period_shift cls now stamp m)) = ?bs \<or> mm_buckets (fst (period_shift cls now stamp m)) = butlast ?bs"
    by (simp add: period_shift_def Let_def)
  moreover have "accounted I tally g ?b"
    using assms new_ok topn_ok by (simp add: accounted_def tallied_def new_bucket_def Let_def)
  moreover have "accounted I tally g (hd (mm_buckets m))" "list_all (accounted I tally g) (tl (mm_buckets m))"
    using assms by (cases "mm_buckets m"; simp add: tallied_def)+
  ultimately have "mm_buckets (fst (period_shift cls now stamp m)) \<noteq> []
      \<and> list_all (accounted I tally g) (mm_buckets (fst (period_shift cls now stamp m)))"
    using accounted_read_only list_all_butlast [of "accounted I tally g" ?bs] by auto
  then show ?thesis using assms by (simp add: tallied_def)
qed

lemma tallied_check: "tallied I tally g m \<Longrightarrow> tallied I tally g (fst (check_period_shift cls now stamp m))"
  by (simp add: check_period_shift_def tallied_shift)

lemma tallied_draw: "tallied I tally g m \<Longrightarrow> tallied I tally g (draw sample m)"
  by (simp add: tallied_def)

text \<open>After the event of the base class the live bucket lacks one in its tally.\<close>

lemma tallied_new_event:
  assumes "tallied I tally g m"
  shows "\<exists>b bs. mm_buckets (fst (new_event cls now stamp sample m)) = b # bs
    \<and> b_groups b = g \<and> I (b_spec b) \<and> tally (b_spec b) + 1 = b_num_events b \<and> list_all (accounted I tally g) bs
    \<and> mm_groups (fst (new_event cls now stamp sample m)) = g"
proof -
  let ?m = "fst (check_period_shift cls now stamp (draw sample m))"
  have "tallied I tally g ?m" by (intro tallied_check tallied_draw assms)
  then show ?thesis
    by (cases "mm_buckets ?m")
      (auto simp: new_event_steps upd_front_def tallied_def accounted_def bucket_new_event_def Let_def)
qed

lemma tallied_live_event:
  assumes "tallied I tally (Some g) m"
    "\<And>deep s. I s \<Longrightarrow> I (f deep g s) \<and> tally (f deep g s) = tally s + 1"
  shows "\<exists>m'. live_event cls now stamp sample f m = Some m' \<and> tallied I tally (Some g) m'"
  using tallied_new_event [OF assms(1), of now stamp sample] assms(2)
  by (auto simp: live_event_def on_live_def upd_front_def tallied_def accounted_def case_prod_beta)

lemma tallied_plain_event:
  assumes "tallied I tally g m" "\<And>deep s. I s \<Longrightarrow> I (f deep s) \<and> tally (f deep s) = tally s + 1"
  shows "tallied I tally g (plain_event cls now stamp sample f m)"
  using tallied_new_event [OF assms(1), of now stamp sample] assms(2)
  by (auto simp: plain_event_def upd_front_def tallied_def accounted_def case_prod_beta)

lemma tallied_set_start: "tallied I tally g m \<Longrightarrow> tallied I tally g (set_start_tstamp stamp m)"
  by (cases "mm_buckets m") (auto simp: tallied_def set_start_tstamp_def upd_front_def accounted_def)

lemma tallied_set_end: "tallied I tally g m \<Longrightarrow> tallied I tally g (set_end_tstamp cls stamp m)"
  by (cases "mm_buckets m") (auto simp: tallied_def set_end_tstamp_def upd_front_def accounted_read_only)

lemma tallied_recorded: "tallied I tally g m \<Longrightarrow> tallied I tally g (set_recorded_stream m)"
  by (cases "mm_buckets m") (auto simp: tallied_def set_recorded_stream_def upd_front_def accounted_def)

lemma accounted_merge:
  assumes "on g" "accounted I tally g other" "I (b_spec b)" "tally (b_spec b) = b_num_events b"
  shows "accounted I tally g (bucket_merge cls now agg other b)"
  using assms merge_ok [of g "b_spec other" "b_spec b" agg] by (simp add: accounted_def bucket_merge_def)

lemma accounted_merges:
  assumes "on g" "list_all (accounted I tally g) bs" "I (b_spec b)" "tally (b_spec b) = b_num_events b" "bs \<noteq> []"
  shows "accounted I tally g (fold (bucket_merge cls now agg) bs b)"
  using assms
proof (induction bs arbitrary: b)
  case (Cons x bs)
  have x: "accounted I tally g (bucket_merge cls now agg x b)" by (rule accounted_merge; use Cons.prems in simp)
  then show ?case
    using Cons.IH [of "bucket_merge cls now agg x b"] Cons.prems(1,2) by (cases "bs = []") (simp_all add: accounted_def)
qed simp

lemma accounted_merged_window:
  assumes "on g" "tallied I tally g m" "period \<noteq> 0"
  shows "accounted I tally g (merged_window cls now period m)"
proof -
  have "list_all (accounted I tally g) (take (unat period) (mm_buckets m))"
    using assms(2) by (auto simp: tallied_def list_all_iff dest: in_set_takeD)
  moreover have "take (unat period) (mm_buckets m) \<noteq> []"
    using assms(2,3) by (simp add: tallied_def unat_eq_0)
  ultimately show ?thesis
    using new_ok unfolding merged_window_def Let_def merge_loop_take
    by (intro accounted_merges assms(1)) (auto simp: new_bucket_def)
qed

end

end
