(* ===== verification/NetHandler.thy ===== *)
theory NetHandler
  imports Handlers
begin

text \<open>
  The network handler, version 1 (\<^verbatim>\<open>src/src/handlers/net/v1/NetStreamHandler.h\<close> and \<^verbatim>\<open>.cpp\<close>): its bucket of
  counters, rates and sketches, the processing of packets and dnstap messages with and without deep
  sampling, the merge and the output of buckets, the filters by place and AS, and the handler with
  its connections and the events it passes on to the handlers chained behind it.

  The JSON output is not modelled; it is an argument of \<open>net_class\<close>.
\<close>

subsection \<open>The bucket\<close>

definition NET_SCHEMA :: string where
  "NET_SCHEMA = ''packets''"

definition Net_Counters :: nat where "Net_Counters = 0"
definition Net_Cardinality :: nat where "Net_Cardinality = 1"
definition Net_TopGeo :: nat where "Net_TopGeo = 2"
definition Net_TopIps :: nat where "Net_TopIps = 3"

record network_packet =
  np_dir :: direction
  np_l3 :: protocol
  np_l4 :: protocol
  np_payload_size :: u64
  np_syn_flag :: bool
  np_ipv4_in :: ipv4
  np_ipv4_out :: ipv4
  np_ipv6_in :: ipv6
  np_ipv6_out :: ipv6

definition new_network_packet :: "direction \<Rightarrow> protocol \<Rightarrow> protocol \<Rightarrow> u64 \<Rightarrow> bool \<Rightarrow> network_packet" where
  "new_network_packet dir l3 l4 payload_size syn_flag =
     \<lparr>np_dir = dir, np_l3 = l3, np_l4 = l4, np_payload_size = payload_size, np_syn_flag = syn_flag,
      np_ipv4_in = ipv4_Zero, np_ipv4_out = ipv4_Zero, np_ipv6_in = ipv6_Zero, np_ipv6_out = ipv6_Zero\<rparr>"

record net_counters =
  nc_UDP :: counter
  nc_TCP :: counter
  nc_OtherL4 :: counter
  nc_IPv4 :: counter
  nc_IPv6 :: counter
  nc_TCP_SYN :: counter
  nc_total_in :: counter
  nc_total_out :: counter
  nc_total_unk :: counter
  nc_total :: counter
  nc_filtered :: counter

record ('r, 'q, 'f, 'c) net_bucket =
  nb_srcIPCard :: "'c cardinality"
  nb_dstIPCard :: "'c cardinality"
  nb_topGeoLoc :: "'f topn"
  nb_topASN :: "'f topn"
  nb_topIPv4 :: "'f topn"
  nb_topIPv6 :: "'f topn"
  nb_counters :: net_counters
  nb_payload_size :: "('q, u64) quantile"
  nb_rate_in :: "'r rate"
  nb_rate_out :: "'r rate"
  nb_rate_total :: "'r rate"
  nb_throughput_in :: "'r rate"
  nb_throughput_out :: "'r rate"
  nb_throughput_total :: "'r rate"

definition net_metric :: "string list \<Rightarrow> string \<Rightarrow> metric" where
  "net_metric names desc = \<lparr>m_name = names, m_desc = desc, m_schema_key = NET_SCHEMA\<rparr>"

definition payload_metric :: "string list \<Rightarrow> string \<Rightarrow> metric" where
  "payload_metric names desc = \<lparr>m_name = names, m_desc = desc, m_schema_key = ''payload''\<rparr>"

definition new_net_counters :: net_counters where
  "new_net_counters =
     \<lparr>nc_UDP = new_counter (net_metric [''udp''] ''Count of UDP packets''),
      nc_TCP = new_counter (net_metric [''tcp''] ''Count of TCP packets''),
      nc_OtherL4 = new_counter (net_metric [''other_l4''] ''Count of packets which are not UDP or TCP''),
      nc_IPv4 = new_counter (net_metric [''ipv4''] ''Count of IPv4 packets''),
      nc_IPv6 = new_counter (net_metric [''ipv6''] ''Count of IPv6 packets''),
      nc_TCP_SYN = new_counter (net_metric [''protocol'', ''tcp'', ''syn''] ''Count of TCP SYN packets''),
      nc_total_in = new_counter (net_metric [''in''] ''Count of total ingress packets''),
      nc_total_out = new_counter (net_metric [''out''] ''Count of total egress packets''),
      nc_total_unk = new_counter (net_metric [''unknown_dir''] ''Count of total unknown direction packets''),
      nc_total = new_counter (net_metric [''total''] ''Count of total packets matching the configured filter(s)''),
      nc_filtered = new_counter (net_metric [''filtered'']
        ''Count of total packets that did not match the configured filter(s) (if any)'')\<rparr>"

definition new_net_bucket :: "('r, 'q, 'f, 'c) sketches \<Rightarrow> ('r, 'q, 'f, 'c) net_bucket" where
  "new_net_bucket sk =
     \<lparr>nb_srcIPCard = new_cardinality (sk_distinct sk) (net_metric [''cardinality'', ''src_ips_in''] ''Source IP cardinality''),
      nb_dstIPCard = new_cardinality (sk_distinct sk) (net_metric [''cardinality'', ''dst_ips_out''] ''Destination IP cardinality''),
      nb_topGeoLoc = new_topn (sk_items sk) (net_metric [''top_geoLoc''] ''Top GeoIP locations'') ''geo_loc'',
      nb_topASN = new_topn (sk_items sk) (net_metric [''top_ASN''] ''Top ASNs by IP'') ''asn'',
      nb_topIPv4 = new_topn (sk_items sk) (net_metric [''top_ipv4''] ''Top IPv4 IP addresses'') ''ipv4'',
      nb_topIPv6 = new_topn (sk_items sk) (net_metric [''top_ipv6''] ''Top IPv6 IP addresses'') ''ipv6'',
      nb_counters = new_net_counters,
      nb_payload_size = new_quantile (sk_quantile sk) (net_metric [''payload_size''] ''Quantiles of payload sizes, in bytes''),
      nb_rate_in = new_rate (sk_rate sk) (net_metric [''rates'', ''pps_in''] ''Rate of ingress in packets per second''),
      nb_rate_out = new_rate (sk_rate sk) (net_metric [''rates'', ''pps_out''] ''Rate of egress in packets per second''),
      nb_rate_total = new_rate (sk_rate sk)
        (net_metric [''rates'', ''pps_total''] ''Rate of all packets (combined ingress and egress) in packets per second''),
      nb_throughput_in = new_rate (sk_rate sk)
        (payload_metric [''rates'', ''bytes_in''] ''Data rate of ingress packets in bytes per second''),
      nb_throughput_out = new_rate (sk_rate sk)
        (payload_metric [''rates'', ''bytes_out''] ''Data rate of egress packets in bytes per second''),
      nb_throughput_total = new_rate (sk_rate sk)
        (payload_metric [''rates'', ''bytes_total''] ''Data rate of all packets (combined ingress and egress) in bytes per second'')\<rparr>"

definition net_event_rate_info :: metric where
  "net_event_rate_info = net_metric [''rates'', ''pps_events''] ''Rate of all packets before filtering in packets per second''"

definition net_num_events_info :: metric where
  "net_num_events_info = net_metric [''events''] ''Total packets events generated''"

definition net_num_samples_info :: metric where
  "net_num_samples_info = net_metric [''deep_samples''] ''Total packets that were sampled for deep inspection''"

definition net_update_topn :: "nat \<Rightarrow> u64 \<Rightarrow> ('r, 'q, 'f, 'c) net_bucket \<Rightarrow> ('r, 'q, 'f, 'c) net_bucket" where
  "net_update_topn n thr =
     until_throw
       [field_settings nb_topGeoLoc_update nb_topGeoLoc n thr, field_settings nb_topASN_update nb_topASN n thr,
        field_settings nb_topIPv4_update nb_topIPv4 n thr, field_settings nb_topIPv6_update nb_topIPv6 n thr]"

definition net_on_set_read_only :: "('r, 'q, 'f, 'c) net_bucket \<Rightarrow> ('r, 'q, 'f, 'c) net_bucket" where
  "net_on_set_read_only =
     in_order
       [nb_rate_in_update rate_cancel, nb_rate_out_update rate_cancel, nb_rate_total_update rate_cancel,
        nb_throughput_in_update rate_cancel, nb_throughput_out_update rate_cancel, nb_throughput_total_update rate_cancel]"

subsection \<open>Processing\<close>

definition net_inc ::
  "((counter \<Rightarrow> counter) \<Rightarrow> net_counters \<Rightarrow> net_counters) \<Rightarrow> ('r, 'q, 'f, 'c) net_bucket \<Rightarrow> ('r, 'q, 'f, 'c) net_bucket" where
  "net_inc field = nb_counters_update (field counter_inc)"

definition net_process_filtered :: "u64 \<Rightarrow> ('r, 'q, 'f, 'c) net_bucket \<Rightarrow> ('r, 'q, 'f, 'c) net_bucket" where
  "net_process_filtered g = in_order (only_if (group_enabled g Net_Counters) [net_inc nc_filtered_update])"

definition process_net_layer ::
  "('r, 'q, 'f, 'c) sketches \<Rightarrow> u64 \<Rightarrow> direction \<Rightarrow> protocol \<Rightarrow> protocol \<Rightarrow> u64
     \<Rightarrow> ('r, 'q, 'f, 'c) net_bucket \<Rightarrow> ('r, 'q, 'f, 'c) net_bucket" where
  "process_net_layer sk g dir l3 l4 payload_size =
     in_order
      ((case dir of
          FromHost \<Rightarrow> [nb_rate_out_update rate_inc, nb_throughput_out_update (rate_add payload_size)]
        | ToHost \<Rightarrow> [nb_rate_in_update rate_inc, nb_throughput_in_update (rate_add payload_size)]
        | UnknownDir \<Rightarrow> [])
       @ [nb_rate_total_update rate_inc, nb_throughput_total_update (rate_add payload_size)]
       @ only_if (group_enabled g Net_Counters)
          ([net_inc nc_total_update]
           @ (case dir of
                FromHost \<Rightarrow> [net_inc nc_total_out_update]
              | ToHost \<Rightarrow> [net_inc nc_total_in_update]
              | UnknownDir \<Rightarrow> [net_inc nc_total_unk_update])
           @ (case l3 of P_IPv6 \<Rightarrow> [net_inc nc_IPv6_update] | P_IPv4 \<Rightarrow> [net_inc nc_IPv4_update] | _ \<Rightarrow> [])
           @ (case l4 of
                P_UDP \<Rightarrow> [net_inc nc_UDP_update]
              | P_TCP \<Rightarrow> [net_inc nc_TCP_update]
              | _ \<Rightarrow> [net_inc nc_OtherL4_update]))
       @ [nb_payload_size_update (quantile_update (sk_quantile sk) payload_size)])"

definition process_geo_metrics ::
  "('r, 'q, 'f, 'c) sketches \<Rightarrow> geo_dbs \<Rightarrow> u64 \<Rightarrow> sockaddr \<Rightarrow> ('r, 'q, 'f, 'c) net_bucket \<Rightarrow> ('r, 'q, 'f, 'c) net_bucket" where
  "process_geo_metrics sk geo g sa =
     in_order
      (only_if ((asn_enabled geo \<or> city_enabled geo) \<and> group_enabled g Net_TopGeo)
        (only_if (city_enabled geo) [nb_topGeoLoc_update (topn_update (sk_items sk) (Place (city_loc geo sa)) 1)]
         @ only_if (asn_enabled geo) [nb_topASN_update (topn_update (sk_items sk) (Text (asn_text geo sa)) 1)]))"

text \<open>The overload for a whole packet, which also looks at the addresses.\<close>

definition process_net_packet ::
  "('r, 'q, 'f, 'c) sketches \<Rightarrow> geo_dbs \<Rightarrow> addr_text \<Rightarrow> u64 \<Rightarrow> network_packet
     \<Rightarrow> ('r, 'q, 'f, 'c) net_bucket \<Rightarrow> ('r, 'q, 'f, 'c) net_bucket" where
  "process_net_packet sk geo txts g p =
     in_order
      ((case np_dir p of
          FromHost \<Rightarrow> [nb_rate_out_update rate_inc, nb_throughput_out_update (rate_add (np_payload_size p))]
        | ToHost \<Rightarrow> [nb_rate_in_update rate_inc, nb_throughput_in_update (rate_add (np_payload_size p))]
        | UnknownDir \<Rightarrow> [])
       @ [nb_rate_total_update rate_inc, nb_throughput_total_update (rate_add (np_payload_size p))]
       @ only_if (group_enabled g Net_Counters)
          ([net_inc nc_total_update]
           @ (case np_dir p of
                FromHost \<Rightarrow> [net_inc nc_total_out_update]
              | ToHost \<Rightarrow> [net_inc nc_total_in_update]
              | UnknownDir \<Rightarrow> [net_inc nc_total_unk_update])
           @ (case np_l3 p of P_IPv6 \<Rightarrow> [net_inc nc_IPv6_update] | P_IPv4 \<Rightarrow> [net_inc nc_IPv4_update] | _ \<Rightarrow> [])
           @ (case np_l4 p of
                P_UDP \<Rightarrow> [net_inc nc_UDP_update]
              | P_TCP \<Rightarrow> net_inc nc_TCP_update # only_if (np_syn_flag p) [net_inc nc_TCP_SYN_update]
              | _ \<Rightarrow> [net_inc nc_OtherL4_update]))
       @ [nb_payload_size_update (quantile_update (sk_quantile sk) (np_payload_size p))]
       @ (if np_l3 p = P_IPv4 \<and> np_ipv4_in p \<noteq> ipv4_Zero then
            only_if (group_enabled g Net_Cardinality)
              [nb_srcIPCard_update (cardinality_update (sk_distinct sk) (Num (ucast (np_ipv4_in p))))]
            @ only_if (group_enabled g Net_TopIps)
              [nb_topIPv4_update (topn_update (sk_items sk) (Num (ucast (np_ipv4_in p))) 1)]
            @ [process_geo_metrics sk geo g (Sa4 (np_ipv4_in p))]
          else if np_l3 p = P_IPv6 \<and> np_ipv6_in p \<noteq> ipv6_Zero then
            only_if (group_enabled g Net_Cardinality)
              [nb_srcIPCard_update (cardinality_update (sk_distinct sk) (Bytes (np_ipv6_in p)))]
            @ only_if (group_enabled g Net_TopIps)
              [nb_topIPv6_update (topn_update (sk_items sk) (Text (ip6_text txts (np_ipv6_in p))) 1)]
            @ [process_geo_metrics sk geo g (Sa6 (np_ipv6_in p))]
          else [])
       @ (if np_l3 p = P_IPv4 \<and> np_ipv4_out p \<noteq> ipv4_Zero then
            only_if (group_enabled g Net_Cardinality)
              [nb_dstIPCard_update (cardinality_update (sk_distinct sk) (Num (ucast (np_ipv4_out p))))]
            @ only_if (group_enabled g Net_TopIps)
              [nb_topIPv4_update (topn_update (sk_items sk) (Num (ucast (np_ipv4_out p))) 1)]
            @ [process_geo_metrics sk geo g (Sa4 (np_ipv4_out p))]
          else if np_l3 p = P_IPv6 \<and> np_ipv6_out p \<noteq> ipv6_Zero then
            only_if (group_enabled g Net_Cardinality)
              [nb_dstIPCard_update (cardinality_update (sk_distinct sk) (Bytes (np_ipv6_out p)))]
            @ only_if (group_enabled g Net_TopIps)
              [nb_topIPv6_update (topn_update (sk_items sk) (Text (ip6_text txts (np_ipv6_out p))) 1)]
            @ [process_geo_metrics sk geo g (Sa6 (np_ipv6_out p))]
          else []))"

definition packet_of :: "packet \<Rightarrow> direction \<Rightarrow> protocol \<Rightarrow> protocol \<Rightarrow> network_packet" where
  "packet_of payload dir l3 l4 =
     (let syn_flag = (if l4 = P_TCP then case pk_tcp_syn payload of Some syn \<Rightarrow> syn | None \<Rightarrow> False else False);
          p = new_network_packet dir l3 l4 (pk_len payload) syn_flag
      in case pk_ipv4 payload of
           Some (src, dst) \<Rightarrow>
             (case dir of ToHost \<Rightarrow> p\<lparr>np_ipv4_in := src\<rparr> | FromHost \<Rightarrow> p\<lparr>np_ipv4_out := dst\<rparr> | UnknownDir \<Rightarrow> p)
         | None \<Rightarrow>
             (case pk_ipv6 payload of
                Some (src, dst) \<Rightarrow>
                  (case dir of ToHost \<Rightarrow> p\<lparr>np_ipv6_in := src\<rparr> | FromHost \<Rightarrow> p\<lparr>np_ipv6_out := dst\<rparr> | UnknownDir \<Rightarrow> p)
              | None \<Rightarrow> p))"

definition net_process_packet ::
  "('r, 'q, 'f, 'c) sketches \<Rightarrow> geo_dbs \<Rightarrow> addr_text \<Rightarrow> packet \<Rightarrow> direction \<Rightarrow> protocol \<Rightarrow> protocol \<Rightarrow> bool \<Rightarrow> u64
     \<Rightarrow> ('r, 'q, 'f, 'c) net_bucket \<Rightarrow> ('r, 'q, 'f, 'c) net_bucket" where
  "net_process_packet sk geo txts payload dir l3 l4 deep g =
     (if \<not> deep then process_net_layer sk g dir l3 l4 (pk_len payload)
      else process_net_packet sk geo txts g (packet_of payload dir l3 l4))"

definition dnstap_l3 :: "dnstap \<Rightarrow> protocol" where
  "dnstap_l3 d =
     (case dt_socket_family d of Some INET6 \<Rightarrow> P_IPv6 | Some INET \<Rightarrow> P_IPv4 | None \<Rightarrow> P_Unknown)"

definition dnstap_l4 :: "dnstap \<Rightarrow> protocol" where
  "dnstap_l4 d =
     (case dt_socket_protocol d of Some DP_UDP \<Rightarrow> P_UDP | Some DP_TCP \<Rightarrow> P_TCP | _ \<Rightarrow> P_Unknown)"

definition dnstap_dir :: "dnstap \<Rightarrow> direction" where
  "dnstap_dir d =
     (if dt_type d \<in> {CLIENT_QUERY, STUB_RESPONSE, RESOLVER_RESPONSE, AUTH_QUERY, FORWARDER_RESPONSE, UPDATE_QUERY, TOOL_RESPONSE}
      then ToHost else FromHost)"

definition net_process_dnstap ::
  "('r, 'q, 'f, 'c) sketches \<Rightarrow> geo_dbs \<Rightarrow> addr_text \<Rightarrow> dnstap \<Rightarrow> u64 \<Rightarrow> bool \<Rightarrow> u64
     \<Rightarrow> ('r, 'q, 'f, 'c) net_bucket \<Rightarrow> ('r, 'q, 'f, 'c) net_bucket" where
  "net_process_dnstap sk geo txts d sz deep g =
     (let l3 = dnstap_l3 d; l4 = dnstap_l4 d; dir = dnstap_dir d in
      if \<not> deep then process_net_layer sk g dir l3 l4 sz
      else
        let p = new_network_packet dir l3 l4 sz False;
            p = (case dt_query_address d of
                   Some a \<Rightarrow>
                     if l3 = P_IPv4 \<and> length a = 4 then p\<lparr>np_ipv4_in := ipv4_of_bytes a\<rparr>
                     else if l3 = P_IPv6 \<and> length a = 16 then p\<lparr>np_ipv6_in := a\<rparr> else p
                 | None \<Rightarrow> p);
            p = (case dt_response_address d of
                   Some a \<Rightarrow>
                     if l3 = P_IPv4 \<and> length a = 4 then p\<lparr>np_ipv4_out := ipv4_of_bytes a\<rparr>
                     else if l3 = P_IPv6 \<and> length a = 16 then p\<lparr>np_ipv6_out := a\<rparr> else p
                 | None \<Rightarrow> p)
        in process_net_packet sk geo txts g p)"

subsection \<open>Merge and output\<close>

definition net_merge ::
  "('r, 'q, 'f, 'c) sketches \<Rightarrow> aggregate \<Rightarrow> u64 \<Rightarrow> ('r, 'q, 'f, 'c) net_bucket \<Rightarrow> ('r, 'q, 'f, 'c) net_bucket
     \<Rightarrow> ('r, 'q, 'f, 'c) net_bucket" where
  "net_merge sk agg g other =
     (let rate = rate_merge (sk_rate sk) agg; c = nb_counters other;
          add = (\<lambda>field n. nb_counters_update (field (counter_merge n))) in
      in_order
       ([nb_rate_in_update (rate (nb_rate_in other)), nb_rate_out_update (rate (nb_rate_out other)),
         nb_rate_total_update (rate (nb_rate_total other)), nb_throughput_in_update (rate (nb_throughput_in other)),
         nb_throughput_out_update (rate (nb_throughput_out other)),
         nb_throughput_total_update (rate (nb_throughput_total other))]
        @ only_if (group_enabled g Net_Counters)
           [add nc_UDP_update (nc_UDP c), add nc_TCP_update (nc_TCP c), add nc_TCP_SYN_update (nc_TCP_SYN c),
            add nc_OtherL4_update (nc_OtherL4 c), add nc_IPv4_update (nc_IPv4 c), add nc_IPv6_update (nc_IPv6 c),
            add nc_total_in_update (nc_total_in c), add nc_total_out_update (nc_total_out c),
            add nc_total_unk_update (nc_total_unk c), add nc_total_update (nc_total c),
            add nc_filtered_update (nc_filtered c)]
        @ only_if (group_enabled g Net_Cardinality)
           [nb_srcIPCard_update (cardinality_merge (sk_distinct sk) (nb_srcIPCard other)),
            nb_dstIPCard_update (cardinality_merge (sk_distinct sk) (nb_dstIPCard other))]
        @ only_if (group_enabled g Net_TopIps)
           [nb_topIPv4_update (topn_merge (sk_items sk) (nb_topIPv4 other)),
            nb_topIPv6_update (topn_merge (sk_items sk) (nb_topIPv6 other))]
        @ only_if (group_enabled g Net_TopGeo)
           [nb_topGeoLoc_update (topn_merge (sk_items sk) (nb_topGeoLoc other)),
            nb_topASN_update (topn_merge (sk_items sk) (nb_topASN other))]
        @ [nb_payload_size_update (quantile_merge (sk_quantile sk) agg (nb_payload_size other))]))"

definition net_to_prometheus ::
  "('r, 'q, 'f, 'c) sketches \<Rightarrow> addr_text \<Rightarrow> label_map \<Rightarrow> label_map \<Rightarrow> ('r, ('r, 'q, 'f, 'c) net_bucket) bucket
     \<Rightarrow> serializer \<Rightarrow> serializer" where
  "net_to_prometheus sk txts static labels b =
     (let s = b_spec b; c = nb_counters s; g = the (b_groups b);
          rate = rate_to_prometheus (sk_rate sk) int_str static labels;
          cnt = counter_to_prometheus static labels;
          card = cardinality_to_prometheus (sk_distinct sk) int_str static labels;
          top = (\<lambda>text. topn_to_prometheus (sk_quantile sk) (sk_items sk) text static labels) in
      in_order
       ([rate (nb_rate_in s), rate (nb_rate_out s), rate (nb_rate_total s), rate (nb_throughput_in s),
         rate (nb_throughput_out s), rate (nb_throughput_total s), rate (b_rate b),
         cnt (event_counter net_num_events_info (b_num_events b)),
         cnt (event_counter net_num_samples_info (b_num_samples b))]
        @ only_if (group_enabled g Net_Counters)
           [cnt (nc_UDP c), cnt (nc_TCP c), cnt (nc_TCP_SYN c), cnt (nc_OtherL4 c), cnt (nc_IPv4 c), cnt (nc_IPv6 c),
            cnt (nc_total_in c), cnt (nc_total_out c), cnt (nc_total_unk c), cnt (nc_total c), cnt (nc_filtered c)]
        @ only_if (group_enabled g Net_Cardinality) [card (nb_srcIPCard s), card (nb_dstIPCard s)]
        @ only_if (group_enabled g Net_TopIps)
           [top (item_ip4_text txts) (nb_topIPv4 s), top item_text (nb_topIPv6 s)]
        @ only_if (group_enabled g Net_TopGeo)
           [topn_to_prometheus_labels (sk_quantile sk) (sk_items sk) (\<lambda>key i. geo_labels key (item_place i)) static labels
              (nb_topGeoLoc s), top item_text (nb_topASN s)]
        @ [quantile_to_prometheus (sk_quantile sk) u64_str static labels (nb_payload_size s)]))"

definition net_to_opentelemetry ::
  "('r, 'q, 'f, 'c) sketches \<Rightarrow> addr_text \<Rightarrow> timespec \<Rightarrow> timespec \<Rightarrow> label_map
     \<Rightarrow> ('r, ('r, 'q, 'f, 'c) net_bucket) bucket \<Rightarrow> int scope_metrics \<Rightarrow> int scope_metrics" where
  "net_to_opentelemetry sk txts start end_ts labels b =
     (let s = b_spec b; c = nb_counters s; g = the (b_groups b);
          rate = rate_to_opentelemetry (sk_rate sk) start end_ts labels;
          cnt = counter_to_opentelemetry start end_ts labels;
          card = cardinality_to_opentelemetry (sk_distinct sk) start end_ts labels;
          top = (\<lambda>text. topn_to_opentelemetry (sk_quantile sk) (sk_items sk) text start end_ts labels) in
      in_order
       ([rate (nb_rate_in s), rate (nb_rate_out s), rate (nb_rate_total s), rate (nb_throughput_in s),
         rate (nb_throughput_out s), rate (nb_throughput_total s), rate (b_rate b),
         cnt (event_counter net_num_events_info (b_num_events b)),
         cnt (event_counter net_num_samples_info (b_num_samples b))]
        @ only_if (group_enabled g Net_Counters)
           [cnt (nc_UDP c), cnt (nc_TCP c), cnt (nc_TCP_SYN c), cnt (nc_OtherL4 c), cnt (nc_IPv4 c), cnt (nc_IPv6 c),
            cnt (nc_total_in c), cnt (nc_total_out c), cnt (nc_total_unk c), cnt (nc_total c), cnt (nc_filtered c)]
        @ only_if (group_enabled g Net_Cardinality) [card (nb_srcIPCard s), card (nb_dstIPCard s)]
        @ only_if (group_enabled g Net_TopIps)
           [top (item_ip4_text txts) (nb_topIPv4 s), top item_text (nb_topIPv6 s)]
        @ only_if (group_enabled g Net_TopGeo)
           [topn_to_opentelemetry_labels (sk_quantile sk) (sk_items sk) (\<lambda>key i. geo_labels key (item_place i)) start end_ts labels
              (nb_topGeoLoc s), top item_text (nb_topASN s)]
        @ [u64_quantile_otel (sk_quantile sk) start end_ts labels (nb_payload_size s)]))"

text \<open>The bucket class the window is used with; a merge and an output read the groups through the pointer.\<close>

definition net_class ::
  "('r, 'q, 'f, 'c) sketches \<Rightarrow> addr_text \<Rightarrow> label_map
     \<Rightarrow> (string \<Rightarrow> int \<Rightarrow> u32 \<Rightarrow> ('r, ('r, 'q, 'f, 'c) net_bucket) bucket \<Rightarrow> 'j \<Rightarrow> 'j)
     \<Rightarrow> ('r, ('r, 'q, 'f, 'c) net_bucket, int scope_metrics, 'j) bucket_class" where
  "net_class sk txts static to_json =
     \<lparr>bc_kll = sk_rate sk, bc_event_rate_info = net_event_rate_info, bc_new = new_net_bucket sk,
      bc_specialized_merge = (\<lambda>agg groups. net_merge sk agg (the groups)),
      bc_on_set_read_only = net_on_set_read_only, bc_update_topn_metrics = net_update_topn,
      bc_to_json = to_json, bc_to_prometheus = net_to_prometheus sk txts static,
      bc_to_opentelemetry = net_to_opentelemetry sk txts\<rparr>"

subsection \<open>The manager\<close>

type_synonym ('r, 'q, 'f, 'c, 'j) net_manager = "('r, ('r, 'q, 'f, 'c) net_bucket, 'j) manager"
type_synonym ('r, 'q, 'f, 'c, 'j) net_bucket_class =
  "('r, ('r, 'q, 'f, 'c) net_bucket, int scope_metrics, 'j) bucket_class"

definition manager_process_filtered ::
  "('r, 'q, 'f, 'c, 'j) net_bucket_class \<Rightarrow> timespec \<Rightarrow> timespec
     \<Rightarrow> ('r, 'q, 'f, 'c, 'j) net_manager \<Rightarrow> ('r, 'q, 'f, 'c, 'j) net_manager option" where
  "manager_process_filtered cls now stamp = live_event cls now stamp False (\<lambda>_. net_process_filtered)"

definition manager_process_packet ::
  "('r, 'q, 'f, 'c, 'j) net_bucket_class \<Rightarrow> ('r, 'q, 'f, 'c) sketches \<Rightarrow> geo_dbs \<Rightarrow> addr_text \<Rightarrow> timespec
     \<Rightarrow> packet \<Rightarrow> direction \<Rightarrow> protocol \<Rightarrow> protocol \<Rightarrow> timespec
     \<Rightarrow> ('r, 'q, 'f, 'c, 'j) net_manager \<Rightarrow> ('r, 'q, 'f, 'c, 'j) net_manager option" where
  "manager_process_packet cls sk geo txts now payload dir l3 l4 stamp =
     live_event cls now stamp True (net_process_packet sk geo txts payload dir l3 l4)"

text \<open>\<open>utc\<close> is what \<^verbatim>\<open>timespec_get\<close> reads. The result is undefined where the time stamp is.\<close>

definition manager_process_dnstap ::
  "('r, 'q, 'f, 'c, 'j) net_bucket_class \<Rightarrow> ('r, 'q, 'f, 'c) sketches \<Rightarrow> geo_dbs \<Rightarrow> addr_text \<Rightarrow> timespec \<Rightarrow> timespec
     \<Rightarrow> dnstap \<Rightarrow> u64 \<Rightarrow> ('r, 'q, 'f, 'c, 'j) net_manager \<Rightarrow> ('r, 'q, 'f, 'c, 'j) net_manager option" where
  "manager_process_dnstap cls sk geo txts utc now d sz m =
     (case dnstap_stamp utc d of
        None \<Rightarrow> None
      | Some stamp \<Rightarrow> live_event cls now stamp True (net_process_dnstap sk geo txts d sz) m)"

subsection \<open>The handler\<close>

datatype net_proxy = Pcap_Proxy | Dnstap_Proxy | Mock_Proxy | Other_Proxy string

datatype net_signal =
    Sig_Packet | Sig_Tcp_Reassembled | Sig_Start_Tstamp | Sig_End_Tstamp | Sig_Heartbeat
  | Sig_Tcp_Start | Sig_Tcp_Message | Sig_Tcp_End | Sig_Dnstap

record net_filters =
  f_geoloc_notfound :: bool
  f_asn_notfound :: bool
  f_geoloc_on :: bool
  f_asn_on :: bool
  f_geoloc_prefix :: "string list"
  f_asn_number :: "string list"

record ('r, 'q, 'f, 'c, 'j) net_handler =
  nh_base :: "('r, ('r, 'q, 'f, 'c) net_bucket, 'j) stream_handler"
  nh_proxy :: "net_proxy option"
  nh_event_proxy :: bool
  nh_running :: bool
  nh_connected :: "net_signal list"
  nh_filters :: net_filters

definition new_net_handler ::
  "('r, ('r, 'q, 'f, 'c) net_bucket, 'j) stream_handler \<Rightarrow> net_proxy option \<Rightarrow> bool
     \<Rightarrow> handler_error + ('r, 'q, 'f, 'c, 'j) net_handler" where
  "new_net_handler base proxy chained =
     (case proxy of
        Some (Other_Proxy name) \<Rightarrow> Inl (Handler_Exception (''NetStreamHandler: unsupported input event proxy '' @ name))
      | _ \<Rightarrow>
          Inr \<lparr>nh_base = base, nh_proxy = proxy, nh_event_proxy = chained, nh_running = False, nh_connected = [],
               nh_filters = \<lparr>f_geoloc_notfound = False, f_asn_notfound = False, f_geoloc_on = False, f_asn_on = False,
                 f_geoloc_prefix = [], f_asn_number = []\<rparr>\<rparr>)"

definition net_config_defs :: "string list" where
  "net_config_defs = [''geoloc_notfound'', ''asn_notfound'', ''only_geoloc_prefix'', ''only_asn_number'', ''recorded_stream'']"

definition net_group_defs :: "(string \<times> nat) list" where
  "net_group_defs =
     [(''cardinality'', Net_Cardinality), (''counters'', Net_Counters), (''top_geo'', Net_TopGeo), (''top_ips'', Net_TopIps)]"

fun asn_prefixes :: "string list \<Rightarrow> handler_error + string list" where
  "asn_prefixes [] = Inr []"
| "asn_prefixes (n # ns) =
     (if list_all is_digit n then
        case asn_prefixes ns of Inl e \<Rightarrow> Inl e | Inr ps \<Rightarrow> Inr ((n @ ''/'') # ps)
      else Inl (Config_Exception (''NetStreamHandler: only_asn_number filter contained an invalid/unsupported value: '' @ n)))"

text \<open>The filters from the configuration, the settings in the order of the code.\<close>

definition setup_geoloc_notfound :: "conf \<Rightarrow> net_filters \<Rightarrow> handler_error + net_filters" where
  "setup_geoloc_notfound c f =
     (case config_flag c ''geoloc_notfound'' of
        Inl e \<Rightarrow> Inl e
      | Inr b \<Rightarrow>
          Inr (if b then f\<lparr>f_geoloc_notfound := True, f_geoloc_prefix := f_geoloc_prefix f @ [''Unknown'']\<rparr> else f))"

definition setup_asn_notfound :: "conf \<Rightarrow> net_filters \<Rightarrow> handler_error + net_filters" where
  "setup_asn_notfound c f =
     (case config_flag c ''asn_notfound'' of
        Inl e \<Rightarrow> Inl e
      | Inr b \<Rightarrow> Inr (if b then f\<lparr>f_asn_notfound := True, f_asn_number := f_asn_number f @ [''Unknown'']\<rparr> else f))"

definition setup_geoloc_prefix :: "conf \<Rightarrow> net_filters \<Rightarrow> handler_error + net_filters" where
  "setup_geoloc_prefix c f =
     (if config_exists c ''only_geoloc_prefix'' then
        case config_get sel_list c ''only_geoloc_prefix'' of
          Inl e \<Rightarrow> Inl (Settings (Setting e))
        | Inr ps \<Rightarrow> Inr (f\<lparr>f_geoloc_on := True, f_geoloc_prefix := f_geoloc_prefix f @ ps\<rparr>)
      else Inr f)"

definition setup_asn_number :: "conf \<Rightarrow> net_filters \<Rightarrow> handler_error + net_filters" where
  "setup_asn_number c f =
     (if config_exists c ''only_asn_number'' then
        case config_get sel_list c ''only_asn_number'' of
          Inl e \<Rightarrow> Inl (Settings (Setting e))
        | Inr ns \<Rightarrow>
            (case asn_prefixes ns of
               Inl e \<Rightarrow> Inl e
             | Inr ps \<Rightarrow> Inr (f\<lparr>f_asn_on := True, f_asn_number := f_asn_number f @ ps\<rparr>))
      else Inr f)"

definition setup_filters :: "conf \<Rightarrow> net_filters \<Rightarrow> handler_error + net_filters" where
  "setup_filters c f =
     sum_bind (setup_geoloc_notfound c f) (\<lambda>f.
     sum_bind (setup_asn_notfound c f) (\<lambda>f.
     sum_bind (setup_geoloc_prefix c f) (\<lambda>f.
     setup_asn_number c f)))"

definition net_signals :: "net_proxy option \<Rightarrow> bool \<Rightarrow> net_signal list" where
  "net_signals proxy chained =
     (case proxy of
        Some Pcap_Proxy \<Rightarrow>
          [Sig_Packet, Sig_Tcp_Reassembled, Sig_Start_Tstamp, Sig_End_Tstamp, Sig_Heartbeat]
          @ (if chained then [Sig_Tcp_Start, Sig_Tcp_Message, Sig_Tcp_End] else [])
      | Some Dnstap_Proxy \<Rightarrow> [Sig_Dnstap, Sig_Heartbeat]
      | _ \<Rightarrow> [])"

definition net_start :: "conf \<Rightarrow> ('r, 'q, 'f, 'c, 'j) net_handler \<Rightarrow> handler_error + ('r, 'q, 'f, 'c, 'j) net_handler" where
  "net_start c h =
     (if nh_running h then Inr h
      else
        case validate_configs net_config_defs c of
          Some e \<Rightarrow> Inl (Settings e)
        | None \<Rightarrow>
            let groups = fold set_bit [Net_Counters, Net_Cardinality, Net_TopGeo, Net_TopIps] (sh_groups (nh_base h)) in
            (case process_groups net_group_defs c ((nh_base h)\<lparr>sh_groups := groups\<rparr>) of
               Inl e \<Rightarrow> Inl (Settings e)
             | Inr base \<Rightarrow>
                 (case setup_filters c (nh_filters h) of
                    Inl e \<Rightarrow> Inl e
                  | Inr f \<Rightarrow>
                      let base = (if config_exists c ''recorded_stream''
                                  then base\<lparr>sh_metrics := set_recorded_stream (sh_metrics base)\<rparr> else base)
                      in Inr (h\<lparr>nh_base := base, nh_filters := f,
                                nh_connected := net_signals (nh_proxy h) (nh_event_proxy h), nh_running := True\<rparr>))))"

definition net_stop :: "('r, 'q, 'f, 'c, 'j) net_handler \<Rightarrow> ('r, 'q, 'f, 'c, 'j) net_handler" where
  "net_stop h =
     (if \<not> nh_running h then h
      else
        let off = (case nh_proxy h of
                     Some Pcap_Proxy \<Rightarrow>
                       [Sig_Packet, Sig_Start_Tstamp, Sig_End_Tstamp, Sig_Tcp_Reassembled]
                       @ (if nh_event_proxy h then [Sig_Tcp_Start, Sig_Tcp_Message, Sig_Tcp_End] else [])
                   | Some Dnstap_Proxy \<Rightarrow> [Sig_Dnstap]
                   | _ \<Rightarrow> []) @ [Sig_Heartbeat]
        in h\<lparr>nh_connected := filter (\<lambda>s. s \<notin> set off) (nh_connected h), nh_running := False\<rparr>)"

subsection \<open>Filters\<close>

definition begins_with :: "string \<Rightarrow> string \<Rightarrow> bool" where
  "begins_with str prefix \<longleftrightarrow> length str \<ge> length prefix \<and> take (length prefix) str = prefix"

definition none_begin :: "string list \<Rightarrow> string \<Rightarrow> bool" where
  "none_begin prefixes str \<longleftrightarrow> \<not> list_ex (begins_with str) prefixes"

text \<open>One of the two blocks of the code: the database \<open>on\<close>, the text it has for an address, the prefixes.\<close>

definition filter_block :: "bool \<Rightarrow> (sockaddr \<Rightarrow> string) \<Rightarrow> string list \<Rightarrow> packet \<Rightarrow> direction \<Rightarrow> bool" where
  "filter_block on loc prefixes payload dir =
     (if \<not> on \<or> dir = UnknownDir then True
      else
        case pk_ipv4 payload of
          Some (src, dst) \<Rightarrow>
            dir = ToHost \<and> none_begin prefixes (loc (Sa4 src)) \<or> dir = FromHost \<and> none_begin prefixes (loc (Sa4 dst))
        | None \<Rightarrow>
            (case pk_ipv6 payload of
               Some (src, dst) \<Rightarrow>
                 dir = ToHost \<and> none_begin prefixes (loc (Sa6 src)) \<or> dir = FromHost \<and> none_begin prefixes (loc (Sa6 dst))
             | None \<Rightarrow> False))"

definition will_filter :: "geo_dbs \<Rightarrow> net_filters \<Rightarrow> packet \<Rightarrow> direction \<Rightarrow> bool" where
  "will_filter geo f payload dir \<longleftrightarrow>
     (f_geoloc_on f \<or> f_geoloc_notfound f)
       \<and> filter_block (city_enabled geo) (\<lambda>sa. location (city_loc geo sa)) (f_geoloc_prefix f) payload dir
     \<or> (f_asn_on f \<or> f_asn_notfound f)
       \<and> filter_block (asn_enabled geo) (asn_text geo) (f_asn_number f) payload dir"

definition on_metrics ::
  "(('r, 'q, 'f, 'c, 'j) net_manager \<Rightarrow> ('r, 'q, 'f, 'c, 'j) net_manager) \<Rightarrow> ('r, 'q, 'f, 'c, 'j) net_handler
     \<Rightarrow> ('r, 'q, 'f, 'c, 'j) net_handler" where
  "on_metrics f h = h\<lparr>nh_base := (nh_base h)\<lparr>sh_metrics := f (sh_metrics (nh_base h))\<rparr>\<rparr>"

definition with_metrics ::
  "(('r, 'q, 'f, 'c, 'j) net_manager \<Rightarrow> ('r, 'q, 'f, 'c, 'j) net_manager option) \<Rightarrow> ('r, 'q, 'f, 'c, 'j) net_handler
     \<Rightarrow> ('r, 'q, 'f, 'c, 'j) net_handler option" where
  "with_metrics f h = map_option (\<lambda>m. on_metrics (\<lambda>_. m) h) (f (sh_metrics (nh_base h)))"

definition filtering ::
  "('r, 'q, 'f, 'c, 'j) net_bucket_class \<Rightarrow> geo_dbs \<Rightarrow> timespec \<Rightarrow> packet \<Rightarrow> direction \<Rightarrow> timespec
     \<Rightarrow> ('r, 'q, 'f, 'c, 'j) net_handler \<Rightarrow> (bool \<times> ('r, 'q, 'f, 'c, 'j) net_handler) option" where
  "filtering cls geo now payload dir stamp h =
     (if will_filter geo (nh_filters h) payload dir
      then map_option (Pair True) (with_metrics (manager_process_filtered cls now stamp) h)
      else Some (False, h))"

subsection \<open>Events from the input\<close>

text \<open>
  The events of the inputs, and what the handler passes on to the handlers chained behind it. \<open>hash\<close>
  is the hash of the addresses and ports of a packet, times of connections are in microseconds, and
  the data of a TCP message is a number that stands for it.
\<close>

datatype net_event =
    Ev_Packet packet direction protocol protocol u32 timespec
  | Ev_Tcp_Reassembled packet direction protocol u32 timespec
  | Ev_Start_Tstamp timespec
  | Ev_End_Tstamp timespec
  | Ev_Heartbeat timespec
  | Ev_Tcp_Start connection_data direction "int \<times> int"
  | Ev_Tcp_Message nat connection_data direction "int \<times> int"
  | Ev_Tcp_End connection_data nat "int \<times> int"
  | Ev_Dnstap dnstap u64

datatype passed_on =
    On_Udp packet direction protocol u32 timespec
  | On_Tcp_Reassembled packet direction protocol u32 timespec
  | On_Start_Tstamp timespec
  | On_End_Tstamp timespec
  | On_Heartbeat timespec
  | On_Tcp_Start connection_data direction
  | On_Tcp_Message nat connection_data direction
  | On_Tcp_End connection_data nat

text \<open>The packet that is built for a connection has its addresses; the filters look at nothing else.\<close>

definition connection_packet :: "connection_data \<Rightarrow> packet" where
  "connection_packet c =
     (case cd_ipv4 c of
        Some a \<Rightarrow> \<lparr>pk_ipv4 = Some a, pk_ipv6 = None, pk_tcp_syn = Some False, pk_len = 0\<rparr>
      | None \<Rightarrow> \<lparr>pk_ipv4 = None, pk_ipv6 = Some (cd_ipv6 c), pk_tcp_syn = Some False, pk_len = 0\<rparr>)"

definition validate_tcp_data ::
  "('r, 'q, 'f, 'c, 'j) net_bucket_class \<Rightarrow> geo_dbs \<Rightarrow> timespec \<Rightarrow> connection_data \<Rightarrow> direction \<Rightarrow> int \<times> int
     \<Rightarrow> ('r, 'q, 'f, 'c, 'j) net_handler \<Rightarrow> (bool \<times> ('r, 'q, 'f, 'c, 'j) net_handler) option" where
  "validate_tcp_data cls geo now c dir tv h =
     map_option (\<lambda>(filtered, h). (\<not> filtered, h))
       (filtering cls geo now (connection_packet c) dir (timeval_stamp tv) h)"

definition net_event_signal :: "net_event \<Rightarrow> net_signal" where
  "net_event_signal e =
     (case e of
        Ev_Packet _ _ _ _ _ _ \<Rightarrow> Sig_Packet
      | Ev_Tcp_Reassembled _ _ _ _ _ \<Rightarrow> Sig_Tcp_Reassembled
      | Ev_Start_Tstamp _ \<Rightarrow> Sig_Start_Tstamp
      | Ev_End_Tstamp _ \<Rightarrow> Sig_End_Tstamp
      | Ev_Heartbeat _ \<Rightarrow> Sig_Heartbeat
      | Ev_Tcp_Start _ _ _ \<Rightarrow> Sig_Tcp_Start
      | Ev_Tcp_Message _ _ _ _ \<Rightarrow> Sig_Tcp_Message
      | Ev_Tcp_End _ _ _ \<Rightarrow> Sig_Tcp_End
      | Ev_Dnstap _ _ \<Rightarrow> Sig_Dnstap)"

definition process_packet_cb ::
  "('r, 'q, 'f, 'c, 'j) net_bucket_class \<Rightarrow> ('r, 'q, 'f, 'c) sketches \<Rightarrow> geo_dbs \<Rightarrow> addr_text \<Rightarrow> timespec
     \<Rightarrow> packet \<Rightarrow> direction \<Rightarrow> protocol \<Rightarrow> protocol \<Rightarrow> u32 \<Rightarrow> timespec
     \<Rightarrow> ('r, 'q, 'f, 'c, 'j) net_handler \<Rightarrow> (('r, 'q, 'f, 'c, 'j) net_handler \<times> passed_on list) option" where
  "process_packet_cb cls sk geo txts now payload dir l3 l4 hash stamp h =
     (case filtering cls geo now payload dir stamp h of
        None \<Rightarrow> None
      | Some (True, h) \<Rightarrow> Some (h, [])
      | Some (False, h) \<Rightarrow>
          map_option (\<lambda>h. (h, if nh_event_proxy h \<and> l4 = P_UDP then [On_Udp payload dir l3 hash stamp] else []))
            (with_metrics (manager_process_packet cls sk geo txts now payload dir l3 l4 stamp) h))"

definition process_tcp_reassembled_packet_cb ::
  "('r, 'q, 'f, 'c, 'j) net_bucket_class \<Rightarrow> ('r, 'q, 'f, 'c) sketches \<Rightarrow> geo_dbs \<Rightarrow> addr_text \<Rightarrow> timespec
     \<Rightarrow> packet \<Rightarrow> direction \<Rightarrow> protocol \<Rightarrow> u32 \<Rightarrow> timespec
     \<Rightarrow> ('r, 'q, 'f, 'c, 'j) net_handler \<Rightarrow> (('r, 'q, 'f, 'c, 'j) net_handler \<times> passed_on list) option" where
  "process_tcp_reassembled_packet_cb cls sk geo txts now payload dir l3 flowkey stamp h =
     (case filtering cls geo now payload dir stamp h of
        None \<Rightarrow> None
      | Some (True, h) \<Rightarrow> Some (h, [])
      | Some (False, h) \<Rightarrow>
          map_option (\<lambda>h. (h, if nh_event_proxy h then [On_Tcp_Reassembled payload dir l3 flowkey stamp] else []))
            (with_metrics (manager_process_packet cls sk geo txts now payload dir l3 P_TCP stamp) h))"

definition chain_tcp ::
  "('r, 'q, 'f, 'c, 'j) net_bucket_class \<Rightarrow> geo_dbs \<Rightarrow> timespec \<Rightarrow> connection_data \<Rightarrow> direction \<Rightarrow> int \<times> int \<Rightarrow> passed_on
     \<Rightarrow> ('r, 'q, 'f, 'c, 'j) net_handler \<Rightarrow> (('r, 'q, 'f, 'c, 'j) net_handler \<times> passed_on list) option" where
  "chain_tcp cls geo now c dir tv out h =
     map_option (\<lambda>(valid, h). (h, if valid then [out] else [])) (validate_tcp_data cls geo now c dir tv h)"

definition net_handle ::
  "('r, 'q, 'f, 'c, 'j) net_bucket_class \<Rightarrow> ('r, 'q, 'f, 'c) sketches \<Rightarrow> geo_dbs \<Rightarrow> addr_text \<Rightarrow> timespec
     \<Rightarrow> net_event \<Rightarrow> ('r, 'q, 'f, 'c, 'j) net_handler \<Rightarrow> (('r, 'q, 'f, 'c, 'j) net_handler \<times> passed_on list) option" where
  "net_handle cls sk geo txts now e h =
     (if net_event_signal e \<notin> set (nh_connected h) then Some (h, [])
      else
        case e of
          Ev_Packet payload dir l3 l4 hash stamp \<Rightarrow> process_packet_cb cls sk geo txts now payload dir l3 l4 hash stamp h
        | Ev_Tcp_Reassembled payload dir l3 flowkey stamp \<Rightarrow>
            process_tcp_reassembled_packet_cb cls sk geo txts now payload dir l3 flowkey stamp h
        | Ev_Start_Tstamp stamp \<Rightarrow>
            Some (on_metrics (set_start_tstamp stamp) h, if nh_event_proxy h then [On_Start_Tstamp stamp] else [])
        | Ev_End_Tstamp stamp \<Rightarrow>
            Some (on_metrics (set_end_tstamp cls stamp) h, if nh_event_proxy h then [On_End_Tstamp stamp] else [])
        | Ev_Heartbeat stamp \<Rightarrow>
            Some (on_metrics (\<lambda>m. fst (check_period_shift cls now stamp m)) h,
                  if nh_event_proxy h then [On_Heartbeat stamp] else [])
        | Ev_Tcp_Start c dir start \<Rightarrow> chain_tcp cls geo now c dir start (On_Tcp_Start c dir) h
        | Ev_Tcp_Message n c dir stamp \<Rightarrow> chain_tcp cls geo now c dir stamp (On_Tcp_Message n c dir) h
        | Ev_Tcp_End c reason end_time \<Rightarrow> chain_tcp cls geo now c UnknownDir end_time (On_Tcp_End c reason) h
        | Ev_Dnstap d sz \<Rightarrow>
            map_option (\<lambda>h. (h, [])) (with_metrics (manager_process_dnstap cls sk geo txts now now d sz) h))"

subsection \<open>What processing does to the counters\<close>

definition count_packet :: "direction \<Rightarrow> protocol \<Rightarrow> protocol \<Rightarrow> bool \<Rightarrow> net_counters \<Rightarrow> net_counters" where
  "count_packet dir l3 l4 syn =
     in_order
      ([nc_total_update counter_inc]
       @ (case dir of
            FromHost \<Rightarrow> [nc_total_out_update counter_inc]
          | ToHost \<Rightarrow> [nc_total_in_update counter_inc]
          | UnknownDir \<Rightarrow> [nc_total_unk_update counter_inc])
       @ (case l3 of P_IPv6 \<Rightarrow> [nc_IPv6_update counter_inc] | P_IPv4 \<Rightarrow> [nc_IPv4_update counter_inc] | _ \<Rightarrow> [])
       @ (case l4 of
            P_UDP \<Rightarrow> [nc_UDP_update counter_inc]
          | P_TCP \<Rightarrow> nc_TCP_update counter_inc # only_if syn [nc_TCP_SYN_update counter_inc]
          | _ \<Rightarrow> [nc_OtherL4_update counter_inc]))"

lemma counters_blocks [simp]:
  "nb_counters (net_inc u s) = u counter_inc (nb_counters s)"
  "nb_counters (in_order (case dir of FromHost \<Rightarrow> [nb_rate_out_update r, nb_throughput_out_update t]
     | ToHost \<Rightarrow> [nb_rate_in_update r, nb_throughput_in_update t] | UnknownDir \<Rightarrow> []) s) = nb_counters s"
  "nb_counters (in_order (case dir of FromHost \<Rightarrow> [net_inc u1] | ToHost \<Rightarrow> [net_inc u2] | UnknownDir \<Rightarrow> [net_inc u3]) s)
   = in_order (case dir of FromHost \<Rightarrow> [u1 counter_inc] | ToHost \<Rightarrow> [u2 counter_inc] | UnknownDir \<Rightarrow> [u3 counter_inc]) (nb_counters s)"
  "nb_counters (in_order (case l3 of P_IPv6 \<Rightarrow> [net_inc u1] | P_IPv4 \<Rightarrow> [net_inc u2] | _ \<Rightarrow> []) s)
   = in_order (case l3 of P_IPv6 \<Rightarrow> [u1 counter_inc] | P_IPv4 \<Rightarrow> [u2 counter_inc] | _ \<Rightarrow> []) (nb_counters s)"
  "nb_counters (in_order (case l4 of P_UDP \<Rightarrow> [net_inc u1] | P_TCP \<Rightarrow> net_inc u2 # only_if syn [net_inc u4] | _ \<Rightarrow> [net_inc u3]) s)
   = in_order (case l4 of P_UDP \<Rightarrow> [u1 counter_inc] | P_TCP \<Rightarrow> u2 counter_inc # only_if syn [u4 counter_inc] | _ \<Rightarrow> [u3 counter_inc])
       (nb_counters s)"
  "nb_counters (in_order (case l4 of P_UDP \<Rightarrow> [net_inc u1] | P_TCP \<Rightarrow> [net_inc u2] | _ \<Rightarrow> [net_inc u3]) s)
   = in_order (case l4 of P_UDP \<Rightarrow> [u1 counter_inc] | P_TCP \<Rightarrow> [u2 counter_inc] | _ \<Rightarrow> [u3 counter_inc]) (nb_counters s)"
  by (simp_all add: net_inc_def only_if_def split: direction.split protocol.split)

lemma counters_process_net_layer:
  "nb_counters (process_net_layer sk g dir l3 l4 n s) =
     (if group_enabled g Net_Counters then count_packet dir l3 l4 False (nb_counters s) else nb_counters s)"
  by (cases "group_enabled g Net_Counters"; cases l4) (simp_all add: process_net_layer_def count_packet_def)

text \<open>What both kinds of processing keep: everything but the sketches of addresses and places.\<close>

definition basics where
  "basics s = (nb_counters s, nb_payload_size s, nb_rate_in s, nb_rate_out s, nb_rate_total s,
     nb_throughput_in s, nb_throughput_out s, nb_throughput_total s)"

lemma basics_process_geo [simp]: "basics (process_geo_metrics sk geo g sa s) = basics s"
  by (simp add: process_geo_metrics_def only_if_def basics_def)

lemma basics_addresses [simp]:
  "basics (in_order (only_if b [nb_srcIPCard_update c]) s) = basics s"
  "basics (in_order (only_if b [nb_dstIPCard_update c]) s) = basics s"
  "basics (in_order (only_if b [nb_topIPv4_update t]) s) = basics s"
  "basics (in_order (only_if b [nb_topIPv6_update t]) s) = basics s"
  by (simp_all add: only_if_def basics_def)

lemma basics_address_blocks [simp]:
  "basics (in_order (if a then only_if b1 [nb_srcIPCard_update c1] @ only_if b2 [nb_topIPv4_update t1] @ [process_geo_metrics sk geo g a1]
     else if a' then only_if b3 [nb_srcIPCard_update c2] @ only_if b4 [nb_topIPv6_update t2] @ [process_geo_metrics sk geo g a2]
     else []) s) = basics s"
  "basics (in_order (if a then only_if b1 [nb_dstIPCard_update c1] @ only_if b2 [nb_topIPv4_update t1] @ [process_geo_metrics sk geo g a1]
     else if a' then only_if b3 [nb_dstIPCard_update c2] @ only_if b4 [nb_topIPv6_update t2] @ [process_geo_metrics sk geo g a2]
     else []) s) = basics s"
  by simp_all

text \<open>Deep processing is shallow processing, a SYN and the addresses.\<close>

definition count_syn :: "u64 \<Rightarrow> network_packet \<Rightarrow> ('r, 'q, 'f, 'c) net_bucket \<Rightarrow> ('r, 'q, 'f, 'c) net_bucket" where
  "count_syn g p =
     in_order (only_if (group_enabled g Net_Counters \<and> np_l4 p = P_TCP \<and> np_syn_flag p) [net_inc nc_TCP_SYN_update])"

lemma payload_after_inc: "nb_payload_size_update f (net_inc u s) = net_inc u (nb_payload_size_update f s)"
  by (simp add: net_inc_def)

lemma basics_process_net_packet:
  "basics (process_net_packet sk geo txts g p s) =
     basics (count_syn g p (process_net_layer sk g (np_dir p) (np_l3 p) (np_l4 p) (np_payload_size p) s))"
  unfolding process_net_packet_def process_net_layer_def count_syn_def
  by (cases "group_enabled g Net_Counters"; cases "np_l4 p"; cases "np_syn_flag p") (simp_all add: payload_after_inc)

lemma counters_process_net_packet:
  "nb_counters (process_net_packet sk geo txts g p s) =
     (if group_enabled g Net_Counters then count_packet (np_dir p) (np_l3 p) (np_l4 p) (np_syn_flag p) (nb_counters s)
      else nb_counters s)"
proof -
  have "nb_counters (process_net_packet sk geo txts g p s)
      = nb_counters (count_syn g p (process_net_layer sk g (np_dir p) (np_l3 p) (np_l4 p) (np_payload_size p) s))"
    using basics_process_net_packet [of sk geo txts g p s] by (simp add: basics_def)
  then show ?thesis
    by (cases "np_l4 p"; cases "np_syn_flag p") (simp_all add: count_syn_def counters_process_net_layer count_packet_def)
qed

subsection \<open>Every event is accounted for\<close>

text \<open>The counters by direction and those by transport protocol both add up to the total.\<close>

definition balanced :: "net_counters \<Rightarrow> bool" where
  "balanced c \<longleftrightarrow>
     c_value (nc_total_in c) + c_value (nc_total_out c) + c_value (nc_total_unk c) = c_value (nc_total c)
     \<and> c_value (nc_UDP c) + c_value (nc_TCP c) + c_value (nc_OtherL4 c) = c_value (nc_total c)"

lemma sum_of_three: "(a + x) + (b + y) + (c + z) = (a + b + c) + (x + y + (z :: u64))"
  by (simp add: ac_simps)

definition net_tally :: "('r, 'q, 'f, 'c) net_bucket \<Rightarrow> u64" where
  "net_tally s = c_value (nc_total (nb_counters s)) + c_value (nc_filtered (nb_counters s))"

lemma l3_block [simp]:
  "nc_total (in_order (case l3 of P_IPv6 \<Rightarrow> [nc_IPv6_update f] | P_IPv4 \<Rightarrow> [nc_IPv4_update f] | _ \<Rightarrow> []) c) = nc_total c"
  "nc_total_in (in_order (case l3 of P_IPv6 \<Rightarrow> [nc_IPv6_update f] | P_IPv4 \<Rightarrow> [nc_IPv4_update f] | _ \<Rightarrow> []) c) = nc_total_in c"
  "nc_total_out (in_order (case l3 of P_IPv6 \<Rightarrow> [nc_IPv6_update f] | P_IPv4 \<Rightarrow> [nc_IPv4_update f] | _ \<Rightarrow> []) c) = nc_total_out c"
  "nc_total_unk (in_order (case l3 of P_IPv6 \<Rightarrow> [nc_IPv6_update f] | P_IPv4 \<Rightarrow> [nc_IPv4_update f] | _ \<Rightarrow> []) c) = nc_total_unk c"
  "nc_UDP (in_order (case l3 of P_IPv6 \<Rightarrow> [nc_IPv6_update f] | P_IPv4 \<Rightarrow> [nc_IPv4_update f] | _ \<Rightarrow> []) c) = nc_UDP c"
  "nc_TCP (in_order (case l3 of P_IPv6 \<Rightarrow> [nc_IPv6_update f] | P_IPv4 \<Rightarrow> [nc_IPv4_update f] | _ \<Rightarrow> []) c) = nc_TCP c"
  "nc_OtherL4 (in_order (case l3 of P_IPv6 \<Rightarrow> [nc_IPv6_update f] | P_IPv4 \<Rightarrow> [nc_IPv4_update f] | _ \<Rightarrow> []) c) = nc_OtherL4 c"
  "nc_filtered (in_order (case l3 of P_IPv6 \<Rightarrow> [nc_IPv6_update f] | P_IPv4 \<Rightarrow> [nc_IPv4_update f] | _ \<Rightarrow> []) c) = nc_filtered c"
  by (cases l3; simp)+

definition one_if :: "bool \<Rightarrow> u64" where
  "one_if b = (if b then 1 else 0)"

lemma count_packet_fields:
  "c_value (nc_total (count_packet dir l3 l4 syn c)) = c_value (nc_total c) + 1"
  "c_value (nc_total_in (count_packet dir l3 l4 syn c)) = c_value (nc_total_in c) + one_if (dir = ToHost)"
  "c_value (nc_total_out (count_packet dir l3 l4 syn c)) = c_value (nc_total_out c) + one_if (dir = FromHost)"
  "c_value (nc_total_unk (count_packet dir l3 l4 syn c)) = c_value (nc_total_unk c) + one_if (dir = UnknownDir)"
  "c_value (nc_UDP (count_packet dir l3 l4 syn c)) = c_value (nc_UDP c) + one_if (l4 = P_UDP)"
  "c_value (nc_TCP (count_packet dir l3 l4 syn c)) = c_value (nc_TCP c) + one_if (l4 = P_TCP)"
  "c_value (nc_OtherL4 (count_packet dir l3 l4 syn c)) = c_value (nc_OtherL4 c) + one_if (l4 \<noteq> P_UDP \<and> l4 \<noteq> P_TCP)"
  "nc_filtered (count_packet dir l3 l4 syn c) = nc_filtered c"
  unfolding count_packet_def one_if_def
  by (cases dir; cases l4; cases syn; simp add: counter_inc_def)+

lemma count_packet_balanced:
  "balanced c \<Longrightarrow> balanced (count_packet dir l3 l4 syn c)"
  unfolding balanced_def count_packet_fields sum_of_three
  by (cases dir; cases l4) (simp_all add: one_if_def)

lemma net_processing_counts:
  assumes "group_enabled g Net_Counters" "balanced (nb_counters s)"
  shows "balanced (nb_counters (net_process_packet sk geo txts payload dir l3 l4 deep g s))
      \<and> net_tally (net_process_packet sk geo txts payload dir l3 l4 deep g s) = net_tally s + 1"
    and "balanced (nb_counters (net_process_dnstap sk geo txts d sz deep g s))
      \<and> net_tally (net_process_dnstap sk geo txts d sz deep g s) = net_tally s + 1"
    and "balanced (nb_counters (net_process_filtered g s)) \<and> net_tally (net_process_filtered g s) = net_tally s + 1"
  using assms
  by (simp_all add: net_process_packet_def net_process_dnstap_def net_process_filtered_def Let_def net_tally_def
      counters_process_net_layer counters_process_net_packet count_packet_balanced count_packet_fields)
    (simp add: balanced_def counter_inc_def)

lemma net_merge_counters:
  "nb_counters (net_merge sk agg g other s) =
     (if group_enabled g Net_Counters then
        let c = nb_counters other in
        in_order [nc_UDP_update (counter_merge (nc_UDP c)), nc_TCP_update (counter_merge (nc_TCP c)),
          nc_TCP_SYN_update (counter_merge (nc_TCP_SYN c)), nc_OtherL4_update (counter_merge (nc_OtherL4 c)),
          nc_IPv4_update (counter_merge (nc_IPv4 c)), nc_IPv6_update (counter_merge (nc_IPv6 c)),
          nc_total_in_update (counter_merge (nc_total_in c)), nc_total_out_update (counter_merge (nc_total_out c)),
          nc_total_unk_update (counter_merge (nc_total_unk c)), nc_total_update (counter_merge (nc_total c)),
          nc_filtered_update (counter_merge (nc_filtered c))] (nb_counters s)
      else nb_counters s)"
  by (simp add: net_merge_def only_if_def Let_def)

lemma net_update_topn_counters [simp]: "nb_counters (net_update_topn n thr s) = nb_counters s"
  unfolding net_update_topn_def by (rule until_throw_invariant) (auto simp: field_settings_def)

lemma net_read_only_counters [simp]: "nb_counters (net_on_set_read_only s) = nb_counters s"
  by (simp add: net_on_set_read_only_def)

lemma new_net_bucket_counters:
  "balanced (nb_counters (new_net_bucket sk)) \<and> net_tally (new_net_bucket sk) = 0"
  by (simp add: new_net_bucket_def new_net_counters_def new_counter_def balanced_def net_tally_def)

lemma net_merge_counts:
  assumes "group_enabled g Net_Counters" "balanced (nb_counters s)" "balanced (nb_counters t)"
  shows "balanced (nb_counters (net_merge sk agg g s t)) \<and> net_tally (net_merge sk agg g s t) = net_tally t + net_tally s"
  using assms by (simp add: net_merge_counters balanced_def net_tally_def counter_merge_def Let_def sum_of_three)

interpretation net: tallied_bucket "net_class sk txts static to_json" "\<lambda>s. balanced (nb_counters s)" net_tally
    "\<lambda>g. \<exists>w. g = Some w \<and> group_enabled w Net_Counters" for sk txts static to_json
  by unfold_locales (auto simp: net_class_def new_net_bucket_counters net_merge_counts, simp_all add: net_tally_def)

subsection \<open>Runs of a handler\<close>

fun net_run ::
  "('r, 'q, 'f, 'c, 'j) net_bucket_class \<Rightarrow> ('r, 'q, 'f, 'c) sketches \<Rightarrow> geo_dbs \<Rightarrow> addr_text
     \<Rightarrow> (timespec \<times> net_event) list \<Rightarrow> ('r, 'q, 'f, 'c, 'j) net_handler
     \<Rightarrow> (('r, 'q, 'f, 'c, 'j) net_handler \<times> passed_on list) option" where
  "net_run cls sk geo txts [] h = Some (h, [])"
| "net_run cls sk geo txts ((now, e) # es) h =
     (case net_handle cls sk geo txts now e h of
        None \<Rightarrow> None
      | Some (h, out) \<Rightarrow> map_option (\<lambda>(h, out'). (h, out @ out')) (net_run cls sk geo txts es h))"

definition net_ok :: "('r, 'q, 'f, 'c, 'j) net_handler \<Rightarrow> bool" where
  "net_ok h \<longleftrightarrow>
     group_enabled (sh_groups (nh_base h)) Net_Counters
     \<and> tallied (\<lambda>s. balanced (nb_counters s)) net_tally (Some (sh_groups (nh_base h))) (sh_metrics (nh_base h))"

fun stamped :: "net_event \<Rightarrow> bool" where
  "stamped (Ev_Dnstap d _) = (dnstap_stamp (ts 0 0) d \<noteq> None)"
| "stamped _ = True"

definition filters_on :: "net_filters \<Rightarrow> bool" where
  "filters_on f \<longleftrightarrow> f_geoloc_on f \<or> f_geoloc_notfound f \<or> f_asn_on f \<or> f_asn_notfound f"

fun is_tcp_end :: "passed_on \<Rightarrow> bool" where
  "is_tcp_end (On_Tcp_End _ _) = True"
| "is_tcp_end _ = False"

text \<open>What a step keeps, and what it may pass on.\<close>

definition step_ok ::
  "('r, 'q, 'f, 'c, 'j) net_handler \<Rightarrow> (('r, 'q, 'f, 'c, 'j) net_handler \<times> passed_on list) option \<Rightarrow> bool" where
  "step_ok h r \<longleftrightarrow>
     (\<exists>h' out. r = Some (h', out) \<and> net_ok h' \<and> nh_filters h' = nh_filters h
        \<and> (filters_on (nh_filters h) \<longrightarrow> list_all (\<lambda>p. \<not> is_tcp_end p) out))"

lemma net_ok_on_metrics:
  assumes "net_ok h" "\<And>m. tallied (\<lambda>s. balanced (nb_counters s)) net_tally (Some (sh_groups (nh_base h))) m \<Longrightarrow>
     tallied (\<lambda>s. balanced (nb_counters s)) net_tally (Some (sh_groups (nh_base h))) (f m)"
  shows "net_ok (on_metrics f h)" "nh_filters (on_metrics f h) = nh_filters h" "nh_event_proxy (on_metrics f h) = nh_event_proxy h"
  using assms by (simp_all add: net_ok_def on_metrics_def)

lemma net_live_event_ok:
  assumes "net_ok h" "\<And>deep s. balanced (nb_counters s) \<Longrightarrow>
      balanced (nb_counters (f deep (sh_groups (nh_base h)) s)) \<and> net_tally (f deep (sh_groups (nh_base h)) s) = net_tally s + 1"
  shows "\<exists>h'. with_metrics (live_event (net_class sk txts static to_json) now stamp sample f) h = Some h'
    \<and> net_ok h' \<and> nh_filters h' = nh_filters h \<and> nh_event_proxy h' = nh_event_proxy h"
proof -
  obtain m where m: "live_event (net_class sk txts static to_json) now stamp sample f (sh_metrics (nh_base h)) = Some m"
    "tallied (\<lambda>s. balanced (nb_counters s)) net_tally (Some (sh_groups (nh_base h))) m"
    using net.tallied_live_event [of "sh_groups (nh_base h)" "sh_metrics (nh_base h)" f sk txts static to_json now stamp sample]
      assms unfolding net_ok_def by blast
  have "net_ok (on_metrics (\<lambda>_. m) h)" by (rule net_ok_on_metrics(1)) (use assms(1) m(2) in simp_all)
  then show ?thesis using m(1) by (simp add: with_metrics_def on_metrics_def)
qed

lemma filtering_ok:
  assumes "net_ok h"
  shows "\<exists>h'. filtering (net_class sk txts static to_json) geo now payload dir stamp h
      = Some (will_filter geo (nh_filters h) payload dir, h')
    \<and> net_ok h' \<and> nh_filters h' = nh_filters h \<and> nh_event_proxy h' = nh_event_proxy h"
  using net_live_event_ok [OF assms, of "\<lambda>_. net_process_filtered" sk txts static to_json now stamp False]
    net_processing_counts(3) assms
  by (auto simp: filtering_def manager_process_filtered_def net_ok_def)

lemma will_filter_unknown: "filters_on f \<Longrightarrow> will_filter geo f payload UnknownDir"
  by (auto simp: filters_on_def will_filter_def filter_block_def)

lemma packet_ok:
  assumes "net_ok h"
  shows "\<exists>h'. with_metrics (manager_process_packet (net_class sk txts static to_json) sk geo txts now payload dir l3 l4 stamp) h = Some h'
    \<and> net_ok h' \<and> nh_filters h' = nh_filters h \<and> nh_event_proxy h' = nh_event_proxy h"
  unfolding manager_process_packet_def
  by (rule net_live_event_ok [OF assms], rule net_processing_counts(1)) (use assms in \<open>simp_all add: net_ok_def\<close>)

lemma dnstap_ok:
  assumes "net_ok h" "dnstap_stamp (ts 0 0) d \<noteq> None"
  shows "\<exists>h'. with_metrics (manager_process_dnstap (net_class sk txts static to_json) sk geo txts utc now d sz) h = Some h'
    \<and> net_ok h' \<and> nh_filters h' = nh_filters h"
proof -
  obtain stamp where "dnstap_stamp utc d = Some stamp" using assms(2) by (auto simp: dnstap_stamp_def split: if_splits)
  then have "with_metrics (manager_process_dnstap (net_class sk txts static to_json) sk geo txts utc now d sz) h
      = with_metrics (live_event (net_class sk txts static to_json) now stamp True (net_process_dnstap sk geo txts d sz)) h"
    by (simp add: with_metrics_def manager_process_dnstap_def)
  moreover have "\<exists>h'. with_metrics (live_event (net_class sk txts static to_json) now stamp True (net_process_dnstap sk geo txts d sz)) h = Some h'
    \<and> net_ok h' \<and> nh_filters h' = nh_filters h \<and> nh_event_proxy h' = nh_event_proxy h"
    by (rule net_live_event_ok [OF assms(1)], rule net_processing_counts(2)) (use assms(1) in \<open>simp_all add: net_ok_def\<close>)
  ultimately show ?thesis by auto
qed

lemma chain_tcp_ok:
  assumes "net_ok h" "is_tcp_end out \<Longrightarrow> dir = UnknownDir"
  shows "step_ok h (chain_tcp (net_class sk txts static to_json) geo now c dir tv out h)"
proof -
  let ?p = "connection_packet c"
  obtain h' where h': "filtering (net_class sk txts static to_json) geo now ?p dir (timeval_stamp tv) h
      = Some (will_filter geo (nh_filters h) ?p dir, h')" "net_ok h'" "nh_filters h' = nh_filters h"
    using filtering_ok [OF assms(1)] by blast
  have "filters_on (nh_filters h) \<Longrightarrow> is_tcp_end out \<Longrightarrow> will_filter geo (nh_filters h) ?p dir"
    using assms(2) will_filter_unknown by blast
  then show ?thesis
    using h' by (cases "will_filter geo (nh_filters h) ?p dir") (auto simp: chain_tcp_def validate_tcp_data_def step_ok_def)
qed

lemma step_okI: "net_ok h' \<Longrightarrow> nh_filters h' = nh_filters h \<Longrightarrow> list_all (\<lambda>p. \<not> is_tcp_end p) out \<Longrightarrow> step_ok h (Some (h', out))"
  by (simp add: step_ok_def)

lemma process_packet_cb_ok:
  assumes "net_ok h"
  shows "step_ok h (process_packet_cb (net_class sk txts static to_json) sk geo txts now payload dir l3 l4 hash stamp h)"
proof -
  obtain h' where h': "filtering (net_class sk txts static to_json) geo now payload dir stamp h
      = Some (will_filter geo (nh_filters h) payload dir, h')" "net_ok h'" "nh_filters h' = nh_filters h"
    using filtering_ok [OF assms] by blast
  obtain h'' where "with_metrics (manager_process_packet (net_class sk txts static to_json) sk geo txts now payload dir l3 l4 stamp) h' = Some h''"
    "net_ok h''" "nh_filters h'' = nh_filters h'"
    using packet_ok [OF h'(2)] by blast
  then show ?thesis
    using h' by (cases "will_filter geo (nh_filters h) payload dir") (simp_all add: process_packet_cb_def step_ok_def)
qed

lemma process_tcp_cb_ok:
  assumes "net_ok h"
  shows "step_ok h (process_tcp_reassembled_packet_cb (net_class sk txts static to_json) sk geo txts now payload dir l3 flowkey stamp h)"
proof -
  obtain h' where h': "filtering (net_class sk txts static to_json) geo now payload dir stamp h
      = Some (will_filter geo (nh_filters h) payload dir, h')" "net_ok h'" "nh_filters h' = nh_filters h"
    using filtering_ok [OF assms] by blast
  obtain h'' where "with_metrics (manager_process_packet (net_class sk txts static to_json) sk geo txts now payload dir l3 P_TCP stamp) h' = Some h''"
    "net_ok h''" "nh_filters h'' = nh_filters h'"
    using packet_ok [OF h'(2)] by blast
  then show ?thesis
    using h' by (cases "will_filter geo (nh_filters h) payload dir") (simp_all add: process_tcp_reassembled_packet_cb_def step_ok_def)
qed

lemma net_handle_ok:
  assumes "net_ok h" "stamped e"
  shows "step_ok h (net_handle (net_class sk txts static to_json) sk geo txts now e h)"
proof (cases "net_event_signal e \<in> set (nh_connected h)")
  case False
  then show ?thesis using assms(1) by (simp add: net_handle_def step_ok_def)
next
  case True
  have dnstap: "step_ok h (map_option (\<lambda>h. (h, [])) (with_metrics (manager_process_dnstap (net_class sk txts static to_json) sk geo txts now now d sz) h))"
    if "dnstap_stamp (ts 0 0) d \<noteq> None" for d sz
    using dnstap_ok [OF assms(1) that, of sk txts static to_json geo now now sz] by (auto simp: step_ok_def)
  have metrics: "step_ok h (Some (on_metrics f h, out))"
    if "\<And>m. tallied (\<lambda>s. balanced (nb_counters s)) net_tally (Some (sh_groups (nh_base h))) m \<Longrightarrow>
        tallied (\<lambda>s. balanced (nb_counters s)) net_tally (Some (sh_groups (nh_base h))) (f m)"
      "list_all (\<lambda>p. \<not> is_tcp_end p) out" for f out
    by (rule step_okI) (use net_ok_on_metrics [OF assms(1)] that in blast)+
  show ?thesis
    using True assms(2)
    by (cases e)
      (auto simp: net_handle_def intro!: process_packet_cb_ok process_tcp_cb_ok chain_tcp_ok dnstap metrics assms(1)
        net.tallied_set_start net.tallied_set_end net.tallied_check)
qed

lemma net_run_ok:
  assumes "net_ok h" "list_all (\<lambda>e. stamped (snd e)) es"
  shows "step_ok h (net_run (net_class sk txts static to_json) sk geo txts es h)"
  using assms
proof (induction es arbitrary: h)
  case (Cons ne es)
  obtain now e where ne: "ne = (now, e)" by (cases ne)
  obtain h' out where h': "net_handle (net_class sk txts static to_json) sk geo txts now e h = Some (h', out)" "net_ok h'"
    "nh_filters h' = nh_filters h" "filters_on (nh_filters h) \<longrightarrow> list_all (\<lambda>p. \<not> is_tcp_end p) out"
    using net_handle_ok [of h e] Cons.prems ne unfolding step_ok_def by fastforce
  then have "step_ok h' (net_run (net_class sk txts static to_json) sk geo txts es h')"
    using Cons by simp
  then show ?case using h' ne by (auto simp: step_ok_def)
qed (simp add: step_ok_def)

lemma net_start_ok:
  assumes "net_start c h0 = Inr h" "\<not> nh_running h0"
    "sh_metrics (nh_base h0) = new_manager (net_class sk txts static to_json) cfg now now'"
    "group_enabled (sh_groups (nh_base h)) Net_Counters"
  shows "net_ok h"
proof -
  obtain base f where b: "process_groups net_group_defs c
        ((nh_base h0)\<lparr>sh_groups := fold set_bit [Net_Counters, Net_Cardinality, Net_TopGeo, Net_TopIps] (sh_groups (nh_base h0))\<rparr>) = Inr base"
    "nh_base h = (if config_exists c ''recorded_stream'' then base\<lparr>sh_metrics := set_recorded_stream (sh_metrics base)\<rparr> else base)"
    using assms(1,2) by (auto simp: net_start_def Let_def split: option.splits sum.splits)
  have "sh_metrics base = configure_groups (Some (sh_groups base)) (sh_metrics (nh_base h0))"
    using b(1) by (auto simp: process_groups_def split: sum.splits)
  then have "tallied (\<lambda>s. balanced (nb_counters s)) net_tally (Some (sh_groups base)) (sh_metrics base)"
    using net.tallied_new assms(3) by metis
  then show ?thesis using assms(4) b(2) net.tallied_recorded by (auto simp: net_ok_def)
qed

subsection \<open>Merged windows\<close>

text \<open>What can happen to a bucket, and the sum of two sets of counters as the merge forms it.\<close>

datatype net_op = Op_Packet packet direction protocol protocol bool | Op_Dnstap dnstap u64 bool | Op_Filtered

fun net_apply ::
  "('r, 'q, 'f, 'c) sketches \<Rightarrow> geo_dbs \<Rightarrow> addr_text \<Rightarrow> u64 \<Rightarrow> net_op
     \<Rightarrow> ('r, 'q, 'f, 'c) net_bucket \<Rightarrow> ('r, 'q, 'f, 'c) net_bucket" where
  "net_apply sk geo txts g (Op_Packet payload dir l3 l4 deep) = net_process_packet sk geo txts payload dir l3 l4 deep g"
| "net_apply sk geo txts g (Op_Dnstap d sz deep) = net_process_dnstap sk geo txts d sz deep g"
| "net_apply sk geo txts g Op_Filtered = net_process_filtered g"

definition plus_counters :: "net_counters \<Rightarrow> net_counters \<Rightarrow> net_counters" where
  "plus_counters c =
     in_order [nc_UDP_update (counter_merge (nc_UDP c)), nc_TCP_update (counter_merge (nc_TCP c)),
       nc_TCP_SYN_update (counter_merge (nc_TCP_SYN c)), nc_OtherL4_update (counter_merge (nc_OtherL4 c)),
       nc_IPv4_update (counter_merge (nc_IPv4 c)), nc_IPv6_update (counter_merge (nc_IPv6 c)),
       nc_total_in_update (counter_merge (nc_total_in c)), nc_total_out_update (counter_merge (nc_total_out c)),
       nc_total_unk_update (counter_merge (nc_total_unk c)), nc_total_update (counter_merge (nc_total c)),
       nc_filtered_update (counter_merge (nc_filtered c))]"

lemma merge_inc: "counter_merge (counter_inc a) b = counter_inc (counter_merge a b)"
  by (simp add: counter_merge_def counter_inc_def)

lemma plus_inc:
  "plus_counters (nc_UDP_update counter_inc c) d = nc_UDP_update counter_inc (plus_counters c d)"
  "plus_counters (nc_TCP_update counter_inc c) d = nc_TCP_update counter_inc (plus_counters c d)"
  "plus_counters (nc_TCP_SYN_update counter_inc c) d = nc_TCP_SYN_update counter_inc (plus_counters c d)"
  "plus_counters (nc_OtherL4_update counter_inc c) d = nc_OtherL4_update counter_inc (plus_counters c d)"
  "plus_counters (nc_IPv4_update counter_inc c) d = nc_IPv4_update counter_inc (plus_counters c d)"
  "plus_counters (nc_IPv6_update counter_inc c) d = nc_IPv6_update counter_inc (plus_counters c d)"
  "plus_counters (nc_total_in_update counter_inc c) d = nc_total_in_update counter_inc (plus_counters c d)"
  "plus_counters (nc_total_out_update counter_inc c) d = nc_total_out_update counter_inc (plus_counters c d)"
  "plus_counters (nc_total_unk_update counter_inc c) d = nc_total_unk_update counter_inc (plus_counters c d)"
  "plus_counters (nc_total_update counter_inc c) d = nc_total_update counter_inc (plus_counters c d)"
  "plus_counters (nc_filtered_update counter_inc c) d = nc_filtered_update counter_inc (plus_counters c d)"
  by (cases c; cases d; simp add: plus_counters_def merge_inc)+

lemma plus_count_packet: "plus_counters (count_packet dir l3 l4 syn c) d = count_packet dir l3 l4 syn (plus_counters c d)"
  unfolding count_packet_def
  by (cases dir; cases l3; cases l4; cases syn; simp add: plus_inc)

lemma plus_new: "plus_counters new_net_counters d = d"
  by (cases d) (simp add: plus_counters_def new_net_counters_def new_counter_def counter_merge_def)

text \<open>An operation whose effect on the counters depends on nothing else and commutes with the sum.\<close>

definition additive :: "u64 \<Rightarrow> (('r, 'q, 'f, 'c) net_bucket \<Rightarrow> ('r, 'q, 'f, 'c) net_bucket) \<Rightarrow> bool" where
  "additive g f \<longleftrightarrow>
     (\<exists>k. (\<forall>s. nb_counters (f s) = (if group_enabled g Net_Counters then k (nb_counters s) else nb_counters s))
        \<and> (\<forall>c d. plus_counters (k c) d = k (plus_counters c d)))"

lemma additive_operations:
  "additive g (process_net_layer sk g dir l3 l4 n)"
  "additive g (process_net_packet sk geo txts g p)"
  "additive g (net_process_filtered g)"
  unfolding additive_def net_process_filtered_def
  subgoal by (rule exI [of _ "count_packet dir l3 l4 False"]) (simp add: counters_process_net_layer plus_count_packet)
  subgoal by (rule exI [of _ "count_packet (np_dir p) (np_l3 p) (np_l4 p) (np_syn_flag p)"])
      (simp add: counters_process_net_packet plus_count_packet)
  subgoal by (rule exI [of _ "nc_filtered_update counter_inc"]) (simp add: plus_inc only_if_def)
  done

lemma additive_apply: "additive g (net_apply sk geo txts g op)"
  by (cases op) (simp_all add: net_process_packet_def net_process_dnstap_def Let_def additive_operations)

lemma additive_fold:
  assumes "nb_counters s = (if group_enabled g Net_Counters then plus_counters (nb_counters t) d else nb_counters t)"
  shows "nb_counters (fold (net_apply sk geo txts g) ops s) =
    (if group_enabled g Net_Counters then plus_counters (nb_counters (fold (net_apply sk geo txts g) ops t)) d
     else nb_counters (fold (net_apply sk geo txts g) ops t))"
  using assms
proof (induction ops arbitrary: s t)
  case (Cons op ops)
  obtain k where k: "\<And>s. nb_counters (net_apply sk geo txts g op s) = (if group_enabled g Net_Counters then k (nb_counters s) else nb_counters s)"
    "\<And>c d. plus_counters (k c) d = k (plus_counters c d)"
    using additive_apply [of g sk geo txts op] unfolding additive_def by blast
  have "nb_counters (net_apply sk geo txts g op s) =
      (if group_enabled g Net_Counters then plus_counters (nb_counters (net_apply sk geo txts g op t)) d
       else nb_counters (net_apply sk geo txts g op t))"
    using Cons.prems by (simp add: k)
  from Cons.IH [OF this] show ?case by simp
qed simp

lemma counters_off:
  assumes "\<not> group_enabled g Net_Counters"
  shows "nb_counters (fold (net_apply sk geo txts g) ops s) = nb_counters s"
proof (induction ops arbitrary: s)
  case (Cons op ops)
  have "nb_counters (net_apply sk geo txts g op s) = nb_counters s"
    using additive_apply [of g sk geo txts op] assms by (auto simp: additive_def)
  then show ?case using Cons.IH by simp
qed simp

lemma merge_plus:
  "nb_counters (net_merge sk agg g other s) =
     (if group_enabled g Net_Counters then plus_counters (nb_counters other) (nb_counters s) else nb_counters s)"
  by (simp add: net_merge_counters plus_counters_def Let_def)

lemma packet_of_fields:
  "np_dir (packet_of payload dir l3 l4) = dir" "np_l3 (packet_of payload dir l3 l4) = l3"
  "np_l4 (packet_of payload dir l3 l4) = l4" "np_payload_size (packet_of payload dir l3 l4) = pk_len payload"
  "np_syn_flag (packet_of payload dir l3 l4) \<longleftrightarrow> l4 = P_TCP \<and> pk_tcp_syn payload = Some True"
  by (auto simp: packet_of_def new_network_packet_def Let_def split: option.split direction.split)

subsection \<open>Properties\<close>

text \<open>A handler on a capture, chained, with sketches that keep nothing.\<close>

definition demo_net_class :: "(unit, unit, unit, unit, unit) net_bucket_class" where
  "demo_net_class = net_class unit_sketches demo_texts [] (\<lambda>_ _ _ _ j. j)"

definition demo_net_base :: "(unit, (unit, unit, unit, unit) net_bucket, unit) stream_handler" where
  "demo_net_base =
     \<lparr>sh_name = ''net'', sh_schema_key = NET_SCHEMA, sh_version = ''1.0'', sh_class = 0,
      sh_metrics = new_manager demo_net_class no_config (ts 0 0) (ts 0 0), sh_groups = 0, sh_last_window = None, sh_last_live = None\<rparr>"

definition demo_net0 :: "(unit, unit, unit, unit, unit) net_handler" where
  "demo_net0 = projr (new_net_handler demo_net_base (Some Pcap_Proxy) True)"

definition demo_net :: "conf \<Rightarrow> (unit, unit, unit, unit, unit) net_handler" where
  "demo_net c = projr (net_start c demo_net0)"

definition demo_geo :: geo_dbs where
  "demo_geo = \<lparr>city_enabled = False, city_loc = (\<lambda>_. no_city), asn_enabled = True, asn_text = (\<lambda>_. ''64512/Example'')\<rparr>"

definition demo_packet :: packet where
  "demo_packet = \<lparr>pk_ipv4 = Some (1, 2), pk_ipv6 = None, pk_tcp_syn = None, pk_len = 60\<rparr>"

definition demo_events :: "(timespec \<times> net_event) list" where
  "demo_events =
     [(ts 1 0, Ev_Packet demo_packet ToHost P_IPv4 P_UDP 7 (ts 1 0)),
      (ts 90 0, Ev_Packet demo_packet UnknownDir P_IPv4 P_TCP 7 (ts 90 0)),
      (ts 91 0, Ev_Tcp_End \<lparr>cd_ipv4 = Some (1, 2), cd_ipv6 = ([], [])\<rparr> 0 (91, 0))]"

lemma demo_net_start:
  "new_net_handler demo_net_base (Some Pcap_Proxy) True = Inr demo_net0"
  "sh_metrics demo_net_base = new_manager (net_class unit_sketches demo_texts [] (\<lambda>_ _ _ _ j. j)) no_config (ts 0 0) (ts 0 0)"
  "net_start [] demo_net0 = Inr (demo_net [])"
  "net_start [(''asn_notfound'', CBool True)] demo_net0 = Inr (demo_net [(''asn_notfound'', CBool True)])"
  "group_enabled (sh_groups (nh_base (demo_net []))) Net_Counters"
  "group_enabled (sh_groups (nh_base (demo_net [(''asn_notfound'', CBool True)]))) Net_Counters"
  "filters_on (nh_filters (demo_net [(''asn_notfound'', CBool True)]))"
  by (simp_all add: demo_net_def demo_net0_def new_net_handler_def net_start_def demo_net_base_def demo_net_class_def
      validate_configs_def get_all_keys_def net_config_defs_def process_groups_def with_list_def config_exists_def
      setup_filters_def sum_bind_def setup_geoloc_notfound_def setup_asn_notfound_def setup_geoloc_prefix_def setup_asn_number_def
      config_flag_def config_get_def window_config_defs_def group_enabled_def Net_Counters_def Net_Cardinality_def Net_TopGeo_def
      Net_TopIps_def filters_on_def bit_simps Let_def)


text \<open>
  C6: Merging consecutive windows gives the counters of one long window. If a bucket has processed the
  operations \<open>xs\<close> and another one the operations \<open>ys\<close> that came before, packets and dnstap messages sampled or not and
  filtered packets in any order, then the merge of the two has the counters of a bucket that has
  processed all of them, for any groups and with either way to aggregate.
\<close>

theorem net_windows_add_up:
  "nb_counters (net_merge sk agg g (fold (net_apply sk geo txts g) xs (new_net_bucket sk))
       (fold (net_apply sk geo txts g) ys (new_net_bucket sk)))
   = nb_counters (fold (net_apply sk geo txts g) (ys @ xs) (new_net_bucket sk))"
proof -
  let ?n = "new_net_bucket sk" and ?y = "fold (net_apply sk geo txts g) ys (new_net_bucket sk)"
  have n: "nb_counters ?n = new_net_counters" by (simp add: new_net_bucket_def)
  show ?thesis
  proof (cases "group_enabled g Net_Counters")
    case True
    then have "nb_counters (fold (net_apply sk geo txts g) xs ?y)
        = plus_counters (nb_counters (fold (net_apply sk geo txts g) xs ?n)) (nb_counters ?y)"
      using additive_fold [of ?y g ?n "nb_counters ?y" sk geo txts xs] n by (simp add: plus_new)
    with True show ?thesis by (simp add: merge_plus)
  next
    case False
    then show ?thesis by (simp add: merge_plus counters_off)
  qed
qed

text \<open>
  C5: The network handler accounts for every event. From a started handler with the counters on, any
  sequence of events, packets, reassembled TCP data, connections, dnstap messages with their times,
  heartbeats and time stamps, is processed to its end, over any number of period shifts; then in
  every bucket, and in every merge of the last buckets, the counters by direction and the counters by transport both
  add up to the total, and the number of events is the total plus the filtered ones.
\<close>

theorem net_events_accounted:
  assumes "new_net_handler base proxy chained = Inr h0"
    "sh_metrics base = new_manager (net_class sk txts static to_json) cfg now now'"
    "net_start c h0 = Inr h" "group_enabled (sh_groups (nh_base h)) Net_Counters"
    "list_all (\<lambda>e. stamped (snd e)) es"
  shows "\<exists>h' out. net_run (net_class sk txts static to_json) sk geo txts es h = Some (h', out)
    \<and> (\<forall>b. b \<in> set (mm_buckets (sh_metrics (nh_base h')))
           \<or> (\<exists>n now. n \<noteq> 0 \<and> b = merged_window (net_class sk txts static to_json) now n (sh_metrics (nh_base h'))) \<longrightarrow>
         (let c = nb_counters (b_spec b); v = c_value in
           v (nc_total_in c) + v (nc_total_out c) + v (nc_total_unk c) = v (nc_total c)
           \<and> v (nc_UDP c) + v (nc_TCP c) + v (nc_OtherL4 c) = v (nc_total c)
           \<and> v (nc_total c) + v (nc_filtered c) = b_num_events b))"
proof -
  have h0: "nh_base h0 = base" "\<not> nh_running h0"
    using assms(1) by (auto simp: new_net_handler_def split: option.splits net_proxy.splits)
  have "net_ok h" by (rule net_start_ok [OF assms(3)]) (use h0 assms(2,4) in simp_all)
  then obtain h' out where r: "net_run (net_class sk txts static to_json) sk geo txts es h = Some (h', out)" "net_ok h'"
    using net_run_ok [OF _ assms(5)] unfolding step_ok_def by blast
  let ?I = "\<lambda>s. balanced (nb_counters s)" and ?g = "Some (sh_groups (nh_base h'))"
  have "accounted ?I net_tally ?g b" if "b \<in> set (mm_buckets (sh_metrics (nh_base h')))" for b
    using r(2) that by (auto simp: net_ok_def tallied_def list_all_iff)
  moreover have "accounted ?I net_tally ?g (merged_window (net_class sk txts static to_json) now n (sh_metrics (nh_base h')))"
    if "n \<noteq> 0" for now n
    by (rule net.accounted_merged_window) (use r(2) that in \<open>simp_all add: net_ok_def\<close>)
  ultimately show ?thesis
    using r(1) by (auto simp: accounted_def balanced_def net_tally_def Let_def)
qed

theorem net_events_accounted_witness:
  "map_option (list_all (\<lambda>b. net_tally (b_spec b) = b_num_events b) \<circ> mm_buckets \<circ> sh_metrics \<circ> nh_base \<circ> fst)
     (net_run demo_net_class unit_sketches demo_geo demo_texts demo_events (demo_net [])) = Some True"
proof -
  have "list_all (\<lambda>e. stamped (snd e)) demo_events" by (simp add: demo_events_def)
  from net_events_accounted [OF demo_net_start(1,2,3,5) this, of demo_geo] show ?thesis
    by (auto simp: demo_net_class_def list_all_iff net_tally_def Let_def)
qed

text \<open>
  Behind a filter no end of a TCP connection is passed on. The end of a connection is checked with
  an unknown direction, which every active filter rejects; so a handler chained behind a
  filter sees connections start but never end.
\<close>

theorem tcp_ends_not_passed_on:
  assumes "new_net_handler base proxy chained = Inr h0"
    "sh_metrics base = new_manager (net_class sk txts static to_json) cfg now now'"
    "net_start c h0 = Inr h" "group_enabled (sh_groups (nh_base h)) Net_Counters" "filters_on (nh_filters h)"
    "list_all (\<lambda>e. stamped (snd e)) es"
  shows "\<exists>h' out. net_run (net_class sk txts static to_json) sk geo txts es h = Some (h', out) \<and> list_all (\<lambda>p. \<not> is_tcp_end p) out"
proof -
  have h0: "nh_base h0 = base" "\<not> nh_running h0"
    using assms(1) by (auto simp: new_net_handler_def split: option.splits net_proxy.splits)
  have "net_ok h" by (rule net_start_ok [OF assms(3)]) (use h0 assms(2,4) in simp_all)
  then show ?thesis using net_run_ok [OF _ assms(6)] assms(5) unfolding step_ok_def by blast
qed

theorem tcp_ends_not_passed_on_witness:
  "map_option (list_all (\<lambda>p. \<not> is_tcp_end p) \<circ> snd)
     (net_run demo_net_class unit_sketches demo_geo demo_texts demo_events (demo_net [(''asn_notfound'', CBool True)])) = Some True"
proof -
  have "list_all (\<lambda>e. stamped (snd e)) demo_events" by (simp add: demo_events_def)
  from tcp_ends_not_passed_on [OF demo_net_start(1,2,4,6,7) this, of demo_geo] show ?thesis
    by (auto simp: demo_net_class_def list_all_iff)
qed

text \<open>
  C34: Sampling changes only what it is meant to. A packet that is inspected deeply changes the counters,
  rates and payload sizes exactly as one that is not, except that a TCP packet with the SYN flag is also
  counted as such; the rest of the difference is in the sketches of addresses and places.
\<close>

theorem net_deep_shallow:
  "let d = net_process_packet sk geo txts payload dir l3 l4 True g s;
       h = net_process_packet sk geo txts payload dir l3 l4 False g s;
       syn = (group_enabled g Net_Counters \<and> l4 = P_TCP \<and> pk_tcp_syn payload = Some True)
   in nb_counters d = (if syn then nc_TCP_SYN_update counter_inc (nb_counters h) else nb_counters h)
    \<and> nb_payload_size d = nb_payload_size h
    \<and> nb_rate_in d = nb_rate_in h \<and> nb_rate_out d = nb_rate_out h \<and> nb_rate_total d = nb_rate_total h
    \<and> nb_throughput_in d = nb_throughput_in h \<and> nb_throughput_out d = nb_throughput_out h
    \<and> nb_throughput_total d = nb_throughput_total h"
proof -
  show ?thesis
    using basics_process_net_packet [of sk geo txts g "packet_of payload dir l3 l4" s]
    by (cases "group_enabled g Net_Counters \<and> l4 = P_TCP \<and> pk_tcp_syn payload = Some True")
      (auto simp: packet_of_fields basics_def count_syn_def net_process_packet_def net_inc_def Let_def)
qed

end
