(* ===== verification/PcapHandler.thy ===== *)
theory PcapHandler
  imports Handlers
begin

text \<open>
  The handler of capture statistics (\<^verbatim>\<open>src/src/handlers/pcap/PcapStreamHandler.h\<close> and \<^verbatim>\<open>.cpp\<close>): counters
  of TCP reassembly errors and of the packets that the operating system or the interface dropped.
  The capture library gives running totals, from which a bucket keeps the differences. The JSON
  output is an argument of \<open>pcap_class\<close>.
\<close>

subsection \<open>The bucket\<close>

definition PCAP_SCHEMA :: string where
  "PCAP_SCHEMA = ''pcap''"

record pcap_stats =
  packetsDrop :: u64
  packetsDropByInterface :: u64

record pcap_counters =
  pc_TCP_reassembly_errors :: counter
  pc_os_drop :: counter
  pc_last_os_drop :: u64
  pc_if_drop :: counter
  pc_last_if_drop :: u64

definition pcap_metric :: "string \<Rightarrow> string \<Rightarrow> metric" where
  "pcap_metric name desc = \<lparr>m_name = [name], m_desc = desc, m_schema_key = PCAP_SCHEMA\<rparr>"

definition no_value :: u64 where
  "no_value = - 1"

definition new_pcap_counters :: pcap_counters where
  "new_pcap_counters =
     \<lparr>pc_TCP_reassembly_errors = new_counter (pcap_metric ''tcp_reassembly_errors'' ''Count of TCP reassembly errors''),
      pc_os_drop = new_counter (pcap_metric ''os_drops'' ''Count of packets dropped by the operating system (if supported)''),
      pc_last_os_drop = no_value,
      pc_if_drop = new_counter (pcap_metric ''if_drops'' ''Count of packets dropped by the interface (if supported)''),
      pc_last_if_drop = no_value\<rparr>"

definition pcap_merge :: "pcap_counters \<Rightarrow> pcap_counters \<Rightarrow> pcap_counters" where
  "pcap_merge other =
     in_order
      [pc_TCP_reassembly_errors_update (counter_merge (pc_TCP_reassembly_errors other)),
       pc_os_drop_update (counter_merge (pc_os_drop other)), pc_if_drop_update (counter_merge (pc_if_drop other))]"

definition pcap_to_prometheus :: "label_map \<Rightarrow> label_map \<Rightarrow> ('r, pcap_counters) bucket \<Rightarrow> serializer \<Rightarrow> serializer" where
  "pcap_to_prometheus static labels b =
     (let c = b_spec b; cnt = counter_to_prometheus static labels
      in in_order [cnt (pc_TCP_reassembly_errors c), cnt (pc_os_drop c), cnt (pc_if_drop c)])"

definition pcap_to_opentelemetry ::
  "timespec \<Rightarrow> timespec \<Rightarrow> label_map \<Rightarrow> ('r, pcap_counters) bucket \<Rightarrow> int scope_metrics \<Rightarrow> int scope_metrics" where
  "pcap_to_opentelemetry start end_ts labels b =
     (let c = b_spec b; cnt = counter_to_opentelemetry start end_ts labels
      in in_order [cnt (pc_TCP_reassembly_errors c), cnt (pc_os_drop c), cnt (pc_if_drop c)])"

definition bucket_tcp_reassembly_error :: "pcap_counters \<Rightarrow> pcap_counters" where
  "bucket_tcp_reassembly_error = pc_TCP_reassembly_errors_update counter_inc"

definition bucket_pcap_stats :: "pcap_stats \<Rightarrow> pcap_counters \<Rightarrow> pcap_counters" where
  "bucket_pcap_stats st c =
     (if pc_last_os_drop c = no_value \<or> pc_last_if_drop c = no_value then
        c\<lparr>pc_last_os_drop := packetsDrop st, pc_last_if_drop := packetsDropByInterface st\<rparr>
      else
        let c = (if packetsDrop st > pc_last_os_drop c then
                   c\<lparr>pc_os_drop := counter_add (packetsDrop st - pc_last_os_drop c) (pc_os_drop c),
                     pc_last_os_drop := packetsDrop st\<rparr>
                 else c)
        in if packetsDropByInterface st > pc_last_if_drop c then
             c\<lparr>pc_if_drop := counter_add (packetsDropByInterface st - pc_last_if_drop c) (pc_if_drop c),
               pc_last_if_drop := packetsDropByInterface st\<rparr>
           else c)"

definition pcap_class ::
  "('r, int) kll_ops \<Rightarrow> label_map \<Rightarrow> (string \<Rightarrow> int \<Rightarrow> u32 \<Rightarrow> ('r, pcap_counters) bucket \<Rightarrow> 'j \<Rightarrow> 'j)
     \<Rightarrow> ('r, pcap_counters, int scope_metrics, 'j) bucket_class" where
  "pcap_class kll static to_json =
     \<lparr>bc_kll = kll, bc_event_rate_info = event_rate_metric, bc_new = new_pcap_counters,
      bc_specialized_merge = (\<lambda>agg groups. pcap_merge), bc_on_set_read_only = (\<lambda>c. c),
      bc_update_topn_metrics = (\<lambda>n thr c. c), bc_to_json = to_json, bc_to_prometheus = pcap_to_prometheus static,
      bc_to_opentelemetry = pcap_to_opentelemetry\<rparr>"

subsection \<open>The manager and the handler\<close>

type_synonym ('r, 'j) pcap_manager = "('r, pcap_counters, 'j) manager"
type_synonym ('r, 'j) pcap_bucket_class = "('r, pcap_counters, int scope_metrics, 'j) bucket_class"

definition manager_tcp_reassembly_error ::
  "('r, 'j) pcap_bucket_class \<Rightarrow> timespec \<Rightarrow> timespec \<Rightarrow> ('r, 'j) pcap_manager \<Rightarrow> ('r, 'j) pcap_manager" where
  "manager_tcp_reassembly_error cls now stamp = plain_event cls now stamp True (\<lambda>_. bucket_tcp_reassembly_error)"

text \<open>\<open>utc\<close> is what \<^verbatim>\<open>timespec_get\<close> reads.\<close>

definition manager_pcap_stats ::
  "('r, 'j) pcap_bucket_class \<Rightarrow> timespec \<Rightarrow> timespec \<Rightarrow> pcap_stats \<Rightarrow> ('r, 'j) pcap_manager \<Rightarrow> ('r, 'j) pcap_manager" where
  "manager_pcap_stats cls now utc st = plain_event cls now utc True (\<lambda>_. bucket_pcap_stats st)"

record ('r, 'j) pcap_handler =
  pch_base :: "('r, pcap_counters, 'j) stream_handler"
  pch_running :: bool
  pch_connected :: bool

definition new_pcap_handler ::
  "('r, pcap_counters, 'j) stream_handler \<Rightarrow> string option \<Rightarrow> handler_error + ('r, 'j) pcap_handler" where
  "new_pcap_handler base other_proxy =
     (case other_proxy of
        Some name \<Rightarrow> Inl (Handler_Exception (''PcapStreamHandler: unsupported input event proxy '' @ name))
      | None \<Rightarrow> Inr \<lparr>pch_base = base, pch_running = False, pch_connected = False\<rparr>)"

definition pcap_start :: "conf \<Rightarrow> ('r, 'j) pcap_handler \<Rightarrow> handler_error + ('r, 'j) pcap_handler" where
  "pcap_start c h =
     (if pch_running h then Inr h
      else
        case validate_configs [''recorded_stream''] c of
          Some e \<Rightarrow> Inl (Settings e)
        | None \<Rightarrow>
            let base = pch_base h;
                base = (if config_exists c ''recorded_stream''
                        then base\<lparr>sh_metrics := set_recorded_stream (sh_metrics base)\<rparr> else base)
            in Inr (h\<lparr>pch_base := base, pch_connected := True, pch_running := True\<rparr>))"

definition pcap_stop :: "('r, 'j) pcap_handler \<Rightarrow> ('r, 'j) pcap_handler" where
  "pcap_stop h = (if \<not> pch_running h then h else h\<lparr>pch_connected := False, pch_running := False\<rparr>)"

datatype pcap_event =
    Pcap_Reassembly_Error timespec
  | Pcap_Stats pcap_stats timespec
  | Pcap_Start_Tstamp timespec
  | Pcap_End_Tstamp timespec
  | Pcap_Heartbeat timespec

definition pcap_handle ::
  "('r, 'j) pcap_bucket_class \<Rightarrow> timespec \<Rightarrow> pcap_event \<Rightarrow> ('r, 'j) pcap_handler \<Rightarrow> ('r, 'j) pcap_handler" where
  "pcap_handle cls now e h =
     (if \<not> pch_connected h then h
      else
        let m = sh_metrics (pch_base h);
            m = (case e of
                   Pcap_Reassembly_Error stamp \<Rightarrow> manager_tcp_reassembly_error cls now stamp m
                 | Pcap_Stats st utc \<Rightarrow> manager_pcap_stats cls now utc st m
                 | Pcap_Start_Tstamp stamp \<Rightarrow> set_start_tstamp stamp m
                 | Pcap_End_Tstamp stamp \<Rightarrow> set_end_tstamp cls stamp m
                 | Pcap_Heartbeat stamp \<Rightarrow> fst (check_period_shift cls now stamp m))
        in h\<lparr>pch_base := (pch_base h)\<lparr>sh_metrics := m\<rparr>\<rparr>)"

subsection \<open>What a bucket has counted\<close>

text \<open>
  The statistics a bucket has seen, the first one apart: that one only sets the point from which
  the differences are taken.
\<close>

definition drops_counted :: "u64 list \<Rightarrow> u64" where
  "drops_counted vs = fold max vs 0 - hd vs"

text \<open>A bucket that has seen the totals \<open>os\<close> and \<open>ifs\<close>, none of which is the mark for no value.\<close>

definition saw :: "u64 list \<Rightarrow> u64 list \<Rightarrow> pcap_counters \<Rightarrow> bool" where
  "saw os ifs c \<longleftrightarrow>
     (if os = [] then pc_last_os_drop c = no_value \<and> pc_last_if_drop c = no_value
        \<and> c_value (pc_os_drop c) = 0 \<and> c_value (pc_if_drop c) = 0
      else pc_last_os_drop c = fold max os 0 \<and> pc_last_if_drop c = fold max ifs 0
        \<and> c_value (pc_os_drop c) = drops_counted os \<and> c_value (pc_if_drop c) = drops_counted ifs)"

lemma fold_max_bound: "fold max vs (x :: u64) \<noteq> no_value" if "\<forall>v \<in> set vs. v \<noteq> no_value" "x \<noteq> no_value"
  using that by (induction vs arbitrary: x) (auto simp: max_def)

lemma saw_stats:
  assumes "saw os ifs c" "length os = length ifs" "no_value \<notin> set os" "no_value \<notin> set ifs"
    "packetsDrop st \<noteq> no_value" "packetsDropByInterface st \<noteq> no_value"
  shows "saw (os @ [packetsDrop st]) (ifs @ [packetsDropByInterface st]) (bucket_pcap_stats st c)"
proof (cases "os = []")
  case True
  then show ?thesis
    using assms(1,2) by (simp add: saw_def bucket_pcap_stats_def drops_counted_def)
next
  case False
  then have ifs: "ifs \<noteq> []" using assms(2) by auto
  have z: "(0 :: u64) \<noteq> no_value" by (simp add: no_value_def)
  have "fold max os 0 \<noteq> no_value" "fold max ifs 0 \<noteq> no_value"
    by (rule fold_max_bound; use assms(3,4) z in auto)+
  then show ?thesis
    using assms(1) False ifs
    by (auto simp: saw_def bucket_pcap_stats_def drops_counted_def max_def counter_add_def Let_def)
qed

datatype pcap_op = Op_Stats pcap_stats | Op_Error

fun pcap_apply :: "pcap_op \<Rightarrow> pcap_counters \<Rightarrow> pcap_counters" where
  "pcap_apply (Op_Stats st) = bucket_pcap_stats st"
| "pcap_apply Op_Error = bucket_tcp_reassembly_error"

fun stats_of :: "pcap_op list \<Rightarrow> pcap_stats list" where
  "stats_of [] = []"
| "stats_of (Op_Stats st # ops) = st # stats_of ops"
| "stats_of (Op_Error # ops) = stats_of ops"

lemma stats_of_append: "stats_of (xs @ ys) = stats_of xs @ stats_of ys"
  by (induction xs rule: stats_of.induct) simp_all

lemma errors_stats [simp]: "pc_TCP_reassembly_errors (bucket_pcap_stats st c) = pc_TCP_reassembly_errors c"
  by (simp add: bucket_pcap_stats_def Let_def)

lemma saw_ops:
  assumes "list_all (\<lambda>st. packetsDrop st \<noteq> no_value \<and> packetsDropByInterface st \<noteq> no_value) (stats_of ops)"
  shows "saw (map packetsDrop (stats_of ops)) (map packetsDropByInterface (stats_of ops)) (fold pcap_apply ops new_pcap_counters)
    \<and> c_value (pc_TCP_reassembly_errors (fold pcap_apply ops new_pcap_counters)) = of_nat (length (filter (\<lambda>x. x = Op_Error) ops))"
  using assms
proof (induction ops rule: rev_induct)
  case Nil
  show ?case by (simp add: saw_def new_pcap_counters_def new_counter_def)
next
  case (snoc x ops)
  show ?case
  proof (cases x)
    case (Op_Stats st)
    have "saw (map packetsDrop (stats_of ops) @ [packetsDrop st]) (map packetsDropByInterface (stats_of ops) @ [packetsDropByInterface st])
        (bucket_pcap_stats st (fold pcap_apply ops new_pcap_counters))"
      by (rule saw_stats) (use snoc Op_Stats in \<open>auto simp: stats_of_append list_all_iff\<close>)
    then show ?thesis using snoc Op_Stats by (simp add: stats_of_append)
  next
    case Op_Error
    then show ?thesis
      using snoc by (simp add: stats_of_append saw_def bucket_tcp_reassembly_error_def counter_inc_def)
  qed
qed

lemma fold_max_Max: "vs \<noteq> [] \<Longrightarrow> fold max vs (0 :: u64) = Max (set vs)"
  by (cases vs) (simp_all add: Max.set_eq_fold [symmetric] max_def)

subsection \<open>Properties\<close>

text \<open>
  C36: The drops of a period are a difference of totals. In a bucket that is given the totals of the
  capture library one after the other, with TCP reassembly errors between them, the drop counters are
  the largest total minus the first one, however often a total repeats or falls back, and the
  errors are counted one by one. The largest 64 bit number is the mark for no value and not among the totals.
\<close>

theorem pcap_drops_counted:
  assumes "list_all (\<lambda>st. packetsDrop st \<noteq> no_value \<and> packetsDropByInterface st \<noteq> no_value) (stats_of ops)"
  shows "let c = fold pcap_apply ops new_pcap_counters;
       os = map packetsDrop (stats_of ops); ifs = map packetsDropByInterface (stats_of ops) in
     c_value (pc_os_drop c) = (if os = [] then 0 else Max (set os) - hd os)
     \<and> c_value (pc_if_drop c) = (if ifs = [] then 0 else Max (set ifs) - hd ifs)
     \<and> c_value (pc_TCP_reassembly_errors c) = of_nat (length (filter (\<lambda>x. x = Op_Error) ops))"
proof (cases "stats_of ops = []")
  case True
  then show ?thesis using saw_ops [OF assms] by (simp add: saw_def Let_def)
next
  case False
  then show ?thesis
    using saw_ops [OF assms] fold_max_Max [of "map packetsDrop (stats_of ops)"] fold_max_Max [of "map packetsDropByInterface (stats_of ops)"]
    by (simp add: saw_def Let_def drops_counted_def)
qed

theorem pcap_drops_counted_witness:
  "c_value (pc_os_drop (fold pcap_apply [Op_Stats \<lparr>packetsDrop = 5, packetsDropByInterface = 0\<rparr>, Op_Error,
     Op_Stats \<lparr>packetsDrop = 9, packetsDropByInterface = 0\<rparr>, Op_Stats \<lparr>packetsDrop = 7, packetsDropByInterface = 1\<rparr>]
     new_pcap_counters)) = 4"
proof -
  have "list_all (\<lambda>st. packetsDrop st \<noteq> no_value \<and> packetsDropByInterface st \<noteq> no_value)
    (stats_of [Op_Stats \<lparr>packetsDrop = 5, packetsDropByInterface = 0\<rparr>, Op_Error,
     Op_Stats \<lparr>packetsDrop = 9, packetsDropByInterface = 0\<rparr>, Op_Stats \<lparr>packetsDrop = 7, packetsDropByInterface = 1\<rparr>])"
    by (simp add: no_value_def)
  from pcap_drops_counted [OF this] show ?thesis by (simp add: Let_def max_def)
qed

end
