(* ===== verification/Pairing.thy ===== *)
theory Pairing
  imports Transactions "HOL-Library.Monad_Syntax"
begin

text \<open>
  The contract between the transaction manager and the handlers that pair requests with replies: each
  step of a handler acts on its open transactions by a few operations, and what the steps do between a
  request and its reply leaves the request waiting. Proved once, and used by the DHCP and DNS handlers.
\<close>

datatype ('id, 'x) xact_op = Purge timespec | Start 'id "'x transaction_scheme" | End 'id timespec

fun xact_step :: "('id, 'x) xact_op \<Rightarrow> ('id, 'x) transaction_manager \<Rightarrow> ('id, 'x) transaction_manager" where
  "xact_step (Purge now) m = snd (purge_old_transactions now m)"
| "xact_step (Start i x) m = start_transaction i x m"
| "xact_step (End i t) m = snd (maybe_end_transaction i t m)"

text \<open>A time that is within the whole seconds of the time to live less one of a start.\<close>

definition soon :: "int \<Rightarrow> timespec \<Rightarrow> timespec \<Rightarrow> bool" where
  "soon ttl t0 t \<longleftrightarrow> normalised t \<and> to_ns t - to_ns t0 \<le> (ttl - 1) * 1000000000"

definition waits :: "'id \<Rightarrow> 'x transaction_scheme \<Rightarrow> int \<Rightarrow> ('id, 'x) transaction_manager \<Rightarrow> bool" where
  "waits i x ttl m \<longleftrightarrow>
     manager_ok m \<and> int (tm_ttl_secs m) = ttl \<and> map_of (tm_transactions m) i = Some x \<and> normalised (startTS x)"

text \<open>The operations that leave a transaction alone.\<close>

fun spares :: "'id \<Rightarrow> int \<Rightarrow> timespec \<Rightarrow> ('id, 'x) xact_op \<Rightarrow> bool" where
  "spares i ttl t0 (Purge t) = soon ttl t0 t"
| "spares i ttl t0 (Start k x) = (k \<noteq> i)"
| "spares i ttl t0 (End k t) = (k \<noteq> i)"

lemma ttl_steps [simp]:
  "tm_ttl_secs (start_transaction i t m) = tm_ttl_secs m" "tm_ttl_secs (snd (maybe_end_transaction i e m)) = tm_ttl_secs m"
  "tm_ttl_secs (snd (purge_old_transactions now m)) = tm_ttl_secs m"
  by (simp_all add: start_transaction_def maybe_end_transaction_def purge_old_transactions_def Let_def split: option.split)

lemma manager_ok_op: "manager_ok m \<Longrightarrow> manager_ok (xact_step op m) \<and> tm_ttl_secs (xact_step op m) = tm_ttl_secs m"
  by (cases op) (simp_all add: manager_ok_steps)

lemma manager_ok_ops: "manager_ok m \<Longrightarrow> manager_ok (fold xact_step ops m) \<and> tm_ttl_secs (fold xact_step ops m) = tm_ttl_secs m"
  by (induction ops arbitrary: m) (simp_all add: manager_ok_op)

lemma waits_op:
  assumes "waits i x ttl m" "spares i ttl (startTS x) op"
  shows "waits i x ttl (xact_step op m)"
proof -
  have ok: "manager_ok m" and t: "map_of (tm_transactions m) i = Some x" and n: "normalised (startTS x)"
    using assms(1) by (simp_all add: waits_def)
  have "map_of (tm_transactions (xact_step op m)) i = Some x"
  proof (cases op)
    case (Purge now)
    then show ?thesis
      using purge_lookup [OF _ t, of now] young_is_kept [of now "startTS x" m] ok n assms
      by (simp add: waits_def soon_def manager_ok_def)
  next
    case (Start k y)
    then show ?thesis using assms(2) t by (simp add: start_transaction_def update_conv')
  next
    case (End k e)
    then show ?thesis using assms(2) t by (simp add: maybe_end_transaction_def Let_def delete_conv' split: option.split)
  qed
  then show ?thesis using assms(1) manager_ok_op [OF ok] by (simp add: waits_def)
qed

lemma waits_ops: "waits i x ttl m \<Longrightarrow> list_all (spares i ttl (startTS x)) ops \<Longrightarrow> waits i x ttl (fold xact_step ops m)"
  by (induction ops arbitrary: m) (simp_all add: waits_op)

lemma waits_started:
  "manager_ok m \<Longrightarrow> normalised (startTS x) \<Longrightarrow> waits i x (int (tm_ttl_secs m)) (start_transaction i x m)"
  by (simp add: waits_def manager_ok_steps) (simp add: start_transaction_def update_conv')

lemma waits_ends:
  assumes "waits i x ttl m" "soon ttl (startTS x) t" "to_ns (startTS x) \<le> to_ns t"
  shows "maybe_end_transaction i t m =
      ((Valid, Some (x\<lparr>totalTS := timespec_diff t (startTS x)\<rparr>)), m\<lparr>tm_transactions := AList.delete i (tm_transactions m)\<rparr>)"
    and "to_ns (timespec_diff t (startTS x)) = to_ns t - to_ns (startTS x)"
proof -
  let ?d = "timespec_diff t (startTS x)"
  have n: "normalised t" using assms(2) by (simp add: soon_def)
  have "normalised (startTS x)" using assms(1) by (simp add: waits_def)
  note diff = timespec_diff_exact [OF n this assms(3)]
  show "to_ns ?d = to_ns t - to_ns (startTS x)" by (rule diff(2))
  have ok: "manager_ok m" using assms(1) by (simp add: waits_def)
  have "ttl_ns m \<ge> ttl * 1000000000" using assms(1) by (simp add: waits_def ttl_ns_def)
  then have "\<not> ttl_ns m \<le> to_ns ?d" using assms(2) diff(2) by (simp add: soon_def)
  then show "maybe_end_transaction i t m =
      ((Valid, Some (x\<lparr>totalTS := ?d\<rparr>)), m\<lparr>tm_transactions := AList.delete i (tm_transactions m)\<rparr>)"
    using assms(1) normalised_compare [OF diff(1) ok] by (auto simp: maybe_end_transaction_def waits_def Let_def)
qed

subsection \<open>Handlers that pair\<close>

fun steps :: "('e \<Rightarrow> 'm \<Rightarrow> 'm option) \<Rightarrow> 'e list \<Rightarrow> 'm \<Rightarrow> 'm option" where
  "steps step [] m = Some m"
| "steps step (e # es) m = do { m \<leftarrow> step e m; steps step es m }"

lemma steps_total: "steps (\<lambda>e m. Some (f e m)) es m = Some (fold f es m)"
  by (induction es arbitrary: m) simp_all

text \<open>
  A step acts on the transactions by operations that \<open>may\<close> come from its event.
\<close>

locale pairing =
  fixes xacts :: "'m \<Rightarrow> ('id, 'x) transaction_manager"
    and step :: "'e \<Rightarrow> 'm \<Rightarrow> 'm option"
    and may :: "'e \<Rightarrow> ('id, 'x) xact_op \<Rightarrow> bool"
  assumes step_ops: "step e m = Some m' \<Longrightarrow> \<exists>ops. xacts m' = fold xact_step ops (xacts m) \<and> list_all (may e) ops"
begin

lemma waits_step:
  assumes "waits i x ttl (xacts m)" "step e m = Some m'" "\<And>op. may e op \<Longrightarrow> spares i ttl (startTS x) op"
  shows "waits i x ttl (xacts m')"
proof -
  obtain ops where ops: "xacts m' = fold xact_step ops (xacts m)" "list_all (may e) ops" using step_ops [OF assms(2)] by blast
  have "list_all (spares i ttl (startTS x)) ops" using ops(2) assms(3) by (auto simp: list_all_iff)
  then show ?thesis using waits_ops [OF assms(1)] ops(1) by simp
qed

lemma waits_steps:
  assumes "waits i x ttl (xacts m)" "steps step es m = Some m'"
    "\<And>e op. e \<in> set es \<Longrightarrow> may e op \<Longrightarrow> spares i ttl (startTS x) op"
  shows "waits i x ttl (xacts m')"
  using assms
proof (induction es arbitrary: m)
  case (Cons e es)
  obtain m1 where m1: "step e m = Some m1" "steps step es m1 = Some m'"
    using Cons.prems(2) by (auto simp: Option.bind_eq_Some_conv)
  have "waits i x ttl (xacts m1)" by (rule waits_step [OF Cons.prems(1) m1(1)]) (use Cons.prems(3) in auto)
  then show ?case using Cons.IH m1(2) Cons.prems(3) by auto
qed simp

end

end
