(* ===== verification/DhcpHandler.thy ===== *)
theory DhcpHandler
  imports Handlers Pairing
begin

text \<open>
  The DHCP handler (\<^verbatim>\<open>src/src/handlers/dhcp/DhcpStreamHandler.h\<close> and \<^verbatim>\<open>.cpp\<close>): counters by type of
  message, the top clients, named by matching an acknowledgement with its request through the
  transaction manager of \<open>Transactions\<close>, and the top servers. A message is a record of what the
  handler reads of it through PcapPlusPlus; addresses are texts where the handler uses only their
  text. The JSON output is an argument of \<open>dhcp_class\<close>.
\<close>

subsection \<open>Messages\<close>

datatype dhcp_type = DHCP_DISCOVER | DHCP_OFFER | DHCP_REQUEST | DHCP_ACK | DHCP_Other

record dhcp_layer =
  dl_type :: dhcp_type
  dl_transactionID :: u32
  dl_hostname :: "string option"
  dl_client_mac :: string
  dl_your_ip :: ipv4
  dl_server_id :: "string option"
  dl_source_mac :: "string option"

datatype dhcp6_type = DHCPV6_SOLICIT | DHCPV6_ADVERTISE | DHCPV6_REQUEST | DHCPV6_REPLY | DHCPV6_Other

record dhcp6_layer =
  d6_type :: dhcp6_type
  d6_server_id :: bool
  d6_source_mac :: "string option"
  d6_source_ip :: "ipv6 option"

subsection \<open>The bucket\<close>

definition DHCP_SCHEMA :: string where
  "DHCP_SCHEMA = ''dhcp''"

record dhcp_counters =
  dc_DISCOVER :: counter
  dc_OFFER :: counter
  dc_REQUEST :: counter
  dc_ACK :: counter
  dc_SOLICIT :: counter
  dc_ADVERTISE :: counter
  dc_REQUESTV6 :: counter
  dc_REPLY :: counter
  dc_total :: counter
  dc_filtered :: counter

record ('r, 'f) dhcp_bucket =
  db_topClients :: "'f topn"
  db_topServers :: "'f topn"
  db_counters :: dhcp_counters
  db_rate_total :: "'r rate"

definition dhcp_metric :: "string list \<Rightarrow> string \<Rightarrow> metric" where
  "dhcp_metric names desc = \<lparr>m_name = names, m_desc = desc, m_schema_key = DHCP_SCHEMA\<rparr>"

definition dhcp_counter :: "string \<Rightarrow> string \<Rightarrow> counter" where
  "dhcp_counter name desc = new_counter (dhcp_metric [''wire_packets'', name] desc)"

definition new_dhcp_counters :: dhcp_counters where
  "new_dhcp_counters =
     \<lparr>dc_DISCOVER = dhcp_counter ''discover'' ''Total DHCP packets with message type DISCOVER'',
      dc_OFFER = dhcp_counter ''offer'' ''Total DHCP packets with message type OFFER'',
      dc_REQUEST = dhcp_counter ''request'' ''Total DHCP packets with message type REQUEST'',
      dc_ACK = dhcp_counter ''ack'' ''Total DHCP packets with message type ACK'',
      dc_SOLICIT = dhcp_counter ''solicit'' ''Total DHCPv6 packets with message type SOLICIT'',
      dc_ADVERTISE = dhcp_counter ''advertise'' ''Total DHCPv6 packets with message type ADVERTISE'',
      dc_REQUESTV6 = dhcp_counter ''request_v6'' ''Total DHCPv6 packets with message type REQUEST'',
      dc_REPLY = dhcp_counter ''reply'' ''Total DHCPv6 packets with message type REPLY'',
      dc_total = dhcp_counter ''total'' ''Total DHCP/DHCPv6 wire packets matching the configured filter(s)'',
      dc_filtered = dhcp_counter ''filtered''
        ''Total DHCP/DHCPv6 wire packets seen that did not match the configured filter(s) (if any)''\<rparr>"

definition new_dhcp_bucket :: "('r, 'q, 'f, 'c) sketches \<Rightarrow> ('r, 'f) dhcp_bucket" where
  "new_dhcp_bucket sk =
     \<lparr>db_topClients = new_topn (sk_items sk) (dhcp_metric [''top_clients''] ''Top DHCP clients'') ''client'',
      db_topServers = new_topn (sk_items sk) (dhcp_metric [''top_servers''] ''Top DHCP servers'') ''server'',
      db_counters = new_dhcp_counters,
      db_rate_total = new_rate (sk_rate sk)
        (dhcp_metric [''rates'', ''total''] ''Rate of all DHCP wire packets (combined ingress and egress) in packets per second'')\<rparr>"

definition dhcp_event_rate_info :: metric where
  "dhcp_event_rate_info = dhcp_metric [''rates'', ''events''] ''Rate of all DHCP wire packets before filtering per second''"

definition dhcp_num_events_info :: metric where
  "dhcp_num_events_info = dhcp_metric [''wire_packets'', ''events''] ''Total DHCP wire packets events''"

definition dhcp_num_samples_info :: metric where
  "dhcp_num_samples_info =
     dhcp_metric [''wire_packets'', ''deep_samples''] ''Total DHCP wire packets that were sampled for deep inspection''"

definition dhcp_merge ::
  "('r, 'q, 'f, 'c) sketches \<Rightarrow> aggregate \<Rightarrow> ('r, 'f) dhcp_bucket \<Rightarrow> ('r, 'f) dhcp_bucket \<Rightarrow> ('r, 'f) dhcp_bucket" where
  "dhcp_merge sk agg other =
     (let c = db_counters other; add = (\<lambda>field n. db_counters_update (field (counter_merge n))) in
      in_order
       [db_rate_total_update (rate_merge (sk_rate sk) agg (db_rate_total other)),
        add dc_DISCOVER_update (dc_DISCOVER c), add dc_OFFER_update (dc_OFFER c), add dc_REQUEST_update (dc_REQUEST c),
        add dc_ACK_update (dc_ACK c), add dc_SOLICIT_update (dc_SOLICIT c), add dc_ADVERTISE_update (dc_ADVERTISE c),
        add dc_REQUESTV6_update (dc_REQUESTV6 c), add dc_REPLY_update (dc_REPLY c), add dc_total_update (dc_total c),
        add dc_filtered_update (dc_filtered c),
        db_topClients_update (topn_merge (sk_items sk) (db_topClients other)),
        db_topServers_update (topn_merge (sk_items sk) (db_topServers other))])"

definition dhcp_to_prometheus ::
  "('r, 'q, 'f, 'c) sketches \<Rightarrow> label_map \<Rightarrow> label_map \<Rightarrow> ('r, ('r, 'f) dhcp_bucket) bucket \<Rightarrow> serializer \<Rightarrow> serializer" where
  "dhcp_to_prometheus sk static labels b =
     (let s = b_spec b; c = db_counters s;
          rate = rate_to_prometheus (sk_rate sk) int_str static labels;
          cnt = counter_to_prometheus static labels;
          top = topn_to_prometheus (sk_quantile sk) (sk_items sk) item_text static labels in
      in_order
       [rate (db_rate_total s), rate (b_rate b), cnt (event_counter dhcp_num_events_info (b_num_events b)),
        cnt (event_counter dhcp_num_samples_info (b_num_samples b)),
        cnt (dc_DISCOVER c), cnt (dc_OFFER c), cnt (dc_REQUEST c), cnt (dc_ACK c), cnt (dc_SOLICIT c), cnt (dc_ADVERTISE c),
        cnt (dc_REQUESTV6 c), cnt (dc_REPLY c), cnt (dc_total c), cnt (dc_filtered c),
        top (db_topClients s), top (db_topServers s)])"

definition dhcp_to_opentelemetry ::
  "('r, 'q, 'f, 'c) sketches \<Rightarrow> timespec \<Rightarrow> timespec \<Rightarrow> label_map \<Rightarrow> ('r, ('r, 'f) dhcp_bucket) bucket
     \<Rightarrow> int scope_metrics \<Rightarrow> int scope_metrics" where
  "dhcp_to_opentelemetry sk start end_ts labels b =
     (let s = b_spec b; c = db_counters s;
          rate = rate_to_opentelemetry (sk_rate sk) start end_ts labels;
          cnt = counter_to_opentelemetry start end_ts labels;
          top = topn_to_opentelemetry (sk_quantile sk) (sk_items sk) item_text start end_ts labels in
      in_order
       [rate (db_rate_total s), rate (b_rate b), cnt (event_counter dhcp_num_events_info (b_num_events b)),
        cnt (event_counter dhcp_num_samples_info (b_num_samples b)),
        cnt (dc_DISCOVER c), cnt (dc_OFFER c), cnt (dc_REQUEST c), cnt (dc_ACK c), cnt (dc_SOLICIT c), cnt (dc_ADVERTISE c),
        cnt (dc_REQUESTV6 c), cnt (dc_REPLY c), cnt (dc_total c), cnt (dc_filtered c),
        top (db_topClients s), top (db_topServers s)])"

definition dhcp_inc ::
  "((counter \<Rightarrow> counter) \<Rightarrow> dhcp_counters \<Rightarrow> dhcp_counters) \<Rightarrow> ('r, 'f) dhcp_bucket \<Rightarrow> ('r, 'f) dhcp_bucket" where
  "dhcp_inc field = db_counters_update (field counter_inc)"

definition dhcp_process_filtered :: "('r, 'f) dhcp_bucket \<Rightarrow> ('r, 'f) dhcp_bucket" where
  "dhcp_process_filtered = dhcp_inc dc_filtered_update"

definition bucket_dhcp_layer ::
  "('r, 'q, 'f, 'c) sketches \<Rightarrow> dhcp_layer \<Rightarrow> bool \<Rightarrow> ('r, 'f) dhcp_bucket \<Rightarrow> ('r, 'f) dhcp_bucket" where
  "bucket_dhcp_layer sk d deep =
     in_order
      ([dhcp_inc dc_total_update, db_rate_total_update rate_inc]
       @ (case dl_type d of
            DHCP_DISCOVER \<Rightarrow> [dhcp_inc dc_DISCOVER_update]
          | DHCP_OFFER \<Rightarrow> [dhcp_inc dc_OFFER_update]
          | DHCP_REQUEST \<Rightarrow> [dhcp_inc dc_REQUEST_update]
          | DHCP_ACK \<Rightarrow> [dhcp_inc dc_ACK_update]
          | DHCP_Other \<Rightarrow> [])
       @ only_if (deep \<and> dl_type d = DHCP_OFFER)
          (case (dl_server_id d, dl_source_mac d) of
             (Some server, Some mac) \<Rightarrow>
               [db_topServers_update (topn_update (sk_items sk) (Text (mac @ ''/'' @ server)) 1)]
           | _ \<Rightarrow> []))"

record dhcp_xact = transaction +
  x_hostname :: string
  x_mac_address :: string

definition new_dhcp_transaction ::
  "('r, 'q, 'f, 'c) sketches \<Rightarrow> addr_text \<Rightarrow> bool \<Rightarrow> dhcp_layer \<Rightarrow> dhcp_xact \<Rightarrow> ('r, 'f) dhcp_bucket \<Rightarrow> ('r, 'f) dhcp_bucket" where
  "new_dhcp_transaction sk txts deep d x =
     in_order (only_if (deep \<and> dl_your_ip d \<noteq> ipv4_Zero)
       [db_topClients_update (topn_update (sk_items sk)
          (Text (x_mac_address x @ ''/'' @ x_hostname x @ ''/'' @ ip4_text txts (dl_your_ip d))) 1)])"

definition bucket_dhcp_v6_layer ::
  "('r, 'q, 'f, 'c) sketches \<Rightarrow> addr_text \<Rightarrow> dhcp6_layer \<Rightarrow> bool \<Rightarrow> ('r, 'f) dhcp_bucket \<Rightarrow> ('r, 'f) dhcp_bucket" where
  "bucket_dhcp_v6_layer sk txts d deep =
     in_order
      ((case d6_type d of
          DHCPV6_SOLICIT \<Rightarrow> [dhcp_inc dc_SOLICIT_update]
        | DHCPV6_ADVERTISE \<Rightarrow> [dhcp_inc dc_ADVERTISE_update]
        | DHCPV6_REQUEST \<Rightarrow> [dhcp_inc dc_REQUESTV6_update]
        | DHCPV6_REPLY \<Rightarrow> [dhcp_inc dc_REPLY_update]
        | DHCPV6_Other \<Rightarrow> [])
       @ only_if (deep \<and> (d6_type d = DHCPV6_REPLY \<or> d6_type d = DHCPV6_ADVERTISE) \<and> d6_server_id d)
          (case (d6_source_mac d, d6_source_ip d) of
             (Some mac, Some ip) \<Rightarrow>
               only_if (ip \<noteq> ipv6_Zero)
                 [db_topServers_update (topn_update (sk_items sk) (Text (mac @ ''/'' @ ip6_text txts ip)) 1)]
           | _ \<Rightarrow> []))"

definition dhcp_class ::
  "('r, 'q, 'f, 'c) sketches \<Rightarrow> label_map \<Rightarrow> (string \<Rightarrow> int \<Rightarrow> u32 \<Rightarrow> ('r, ('r, 'f) dhcp_bucket) bucket \<Rightarrow> 'j \<Rightarrow> 'j)
     \<Rightarrow> ('r, ('r, 'f) dhcp_bucket, int scope_metrics, 'j) bucket_class" where
  "dhcp_class sk static to_json =
     \<lparr>bc_kll = sk_rate sk, bc_event_rate_info = dhcp_event_rate_info, bc_new = new_dhcp_bucket sk,
      bc_specialized_merge = (\<lambda>agg groups. dhcp_merge sk agg), bc_on_set_read_only = db_rate_total_update rate_cancel,
      bc_update_topn_metrics = (\<lambda>n thr s. s), bc_to_json = to_json, bc_to_prometheus = dhcp_to_prometheus sk static,
      bc_to_opentelemetry = dhcp_to_opentelemetry sk\<rparr>"

subsection \<open>The manager\<close>

type_synonym ('r, 'f, 'j) dhcp_bucket_class = "('r, ('r, 'f) dhcp_bucket, int scope_metrics, 'j) bucket_class"

record ('r, 'f, 'j) dhcp_manager =
  dm_metrics :: "('r, ('r, 'f) dhcp_bucket, 'j) manager"
  dm_xacts :: "(u32, \<lparr>x_hostname :: string, x_mac_address :: string\<rparr>) transaction_manager"

definition new_dhcp_manager :: "('r, ('r, 'f) dhcp_bucket, 'j) manager \<Rightarrow> ('r, 'f, 'j) dhcp_manager" where
  "new_dhcp_manager m = \<lparr>dm_metrics = m, dm_xacts = new_transaction_manager 5000\<rparr>"

definition set_xact_ttl :: "u32 \<Rightarrow> ('r, 'f, 'j) dhcp_manager \<Rightarrow> ('r, 'f, 'j) dhcp_manager" where
  "set_xact_ttl ttl m = m\<lparr>dm_xacts := new_transaction_manager (unat ttl)\<rparr>"

text \<open>\<^verbatim>\<open>on_period_shift\<close>, which the base class calls exactly when an event or a heartbeat shifts the period.\<close>

definition dhcp_period_shift :: "timespec \<Rightarrow> ('r, 'f, 'j) dhcp_manager \<Rightarrow> ('r, 'f, 'j) dhcp_manager" where
  "dhcp_period_shift stamp m =
     (if will_shift stamp (dm_metrics m) then m\<lparr>dm_xacts := snd (purge_old_transactions stamp (dm_xacts m))\<rparr> else m)"

definition dhcp_event ::
  "('r, 'f, 'j) dhcp_bucket_class \<Rightarrow> timespec \<Rightarrow> timespec \<Rightarrow> bool \<Rightarrow> (bool \<Rightarrow> ('r, 'f) dhcp_bucket \<Rightarrow> ('r, 'f) dhcp_bucket)
     \<Rightarrow> ('r, 'f, 'j) dhcp_manager \<Rightarrow> ('r, 'f, 'j) dhcp_manager" where
  "dhcp_event cls now stamp sample f m =
     (let m = dhcp_period_shift stamp m in m\<lparr>dm_metrics := plain_event cls now stamp sample f (dm_metrics m)\<rparr>)"

definition process_dhcp_layer ::
  "('r, 'f, 'j) dhcp_bucket_class \<Rightarrow> ('r, 'q, 'f, 'c) sketches \<Rightarrow> addr_text \<Rightarrow> timespec \<Rightarrow> dhcp_layer \<Rightarrow> timespec
     \<Rightarrow> ('r, 'f, 'j) dhcp_manager \<Rightarrow> ('r, 'f, 'j) dhcp_manager" where
  "process_dhcp_layer cls sk txts now d stamp m =
     (let m = dhcp_event cls now stamp True (bucket_dhcp_layer sk d) m in
      if dl_type d = DHCP_REQUEST then
        let hostname = (case dl_hostname d of Some n \<Rightarrow> n | None \<Rightarrow> ''Unknown'')
        in m\<lparr>dm_xacts := start_transaction (dl_transactionID d)
               \<lparr>startTS = stamp, totalTS = ts 0 0, x_hostname = hostname, x_mac_address = dl_client_mac d\<rparr> (dm_xacts m)\<rparr>
      else if dl_type d = DHCP_ACK then
        case maybe_end_transaction (dl_transactionID d) stamp (dm_xacts m) of
          ((Valid, Some x), xs) \<Rightarrow>
            m\<lparr>dm_xacts := xs, dm_metrics := on_live_bucket (\<lambda>deep. new_dhcp_transaction sk txts deep d x) (dm_metrics m)\<rparr>
        | (_, xs) \<Rightarrow> m\<lparr>dm_xacts := xs\<rparr>
      else m)"

definition process_dhcp_v6_layer ::
  "('r, 'f, 'j) dhcp_bucket_class \<Rightarrow> ('r, 'q, 'f, 'c) sketches \<Rightarrow> addr_text \<Rightarrow> timespec \<Rightarrow> dhcp6_layer \<Rightarrow> timespec
     \<Rightarrow> ('r, 'f, 'j) dhcp_manager \<Rightarrow> ('r, 'f, 'j) dhcp_manager" where
  "process_dhcp_v6_layer cls sk txts now d stamp = dhcp_event cls now stamp True (bucket_dhcp_v6_layer sk txts d)"

definition dhcp_manager_filtered ::
  "('r, 'f, 'j) dhcp_bucket_class \<Rightarrow> timespec \<Rightarrow> timespec \<Rightarrow> ('r, 'f, 'j) dhcp_manager \<Rightarrow> ('r, 'f, 'j) dhcp_manager" where
  "dhcp_manager_filtered cls now stamp = dhcp_event cls now stamp False (\<lambda>_. dhcp_process_filtered)"

subsection \<open>The handler\<close>

record ('r, 'f, 'j) dhcp_handler =
  dh_metrics :: "('r, 'f, 'j) dhcp_manager"
  dh_running :: bool
  dh_connected :: bool

definition new_dhcp_handler ::
  "('r, ('r, 'f) dhcp_bucket, 'j) manager \<Rightarrow> string option \<Rightarrow> handler_error + ('r, 'f, 'j) dhcp_handler" where
  "new_dhcp_handler m other_proxy =
     (case other_proxy of
        Some name \<Rightarrow> Inl (Handler_Exception (''DhcpStreamHandler: unsupported input event proxy '' @ name))
      | None \<Rightarrow> Inr \<lparr>dh_metrics = new_dhcp_manager m, dh_running = False, dh_connected = False\<rparr>)"

definition dhcp_config_defs :: "string list" where
  "dhcp_config_defs = [''recorded_stream'', ''xact_ttl_secs'', ''xact_ttl_ms'']"

definition dhcp_start :: "conf \<Rightarrow> ('r, 'f, 'j) dhcp_handler \<Rightarrow> handler_error + ('r, 'f, 'j) dhcp_handler" where
  "dhcp_start c h =
     (if dh_running h then Inr h
      else
        case validate_configs dhcp_config_defs c of
          Some e \<Rightarrow> Inl (Settings e)
        | None \<Rightarrow>
            let m = dh_metrics h;
                m = (if config_exists c ''recorded_stream'' then m\<lparr>dm_metrics := set_recorded_stream (dm_metrics m)\<rparr> else m)
            in case configured_ttl c of
                 Inl e \<Rightarrow> Inl e
               | Inr ttl \<Rightarrow>
                   Inr (h\<lparr>dh_metrics := (case ttl of Some t \<Rightarrow> set_xact_ttl t m | None \<Rightarrow> m),
                          dh_connected := True, dh_running := True\<rparr>))"

definition dhcp_stop :: "('r, 'f, 'j) dhcp_handler \<Rightarrow> ('r, 'f, 'j) dhcp_handler" where
  "dhcp_stop h = (if \<not> dh_running h then h else h\<lparr>dh_connected := False, dh_running := False\<rparr>)"

text \<open>There are no filters yet: both tests return false.\<close>

definition dhcp_filtering :: "dhcp_layer \<Rightarrow> timespec \<Rightarrow> bool" where
  "dhcp_filtering d stamp = False"

definition dhcp_filtering_v6 :: "dhcp6_layer \<Rightarrow> timespec \<Rightarrow> bool" where
  "dhcp_filtering_v6 d stamp = False"

text \<open>A UDP packet: its ports, and its payload as either kind of message.\<close>

definition process_udp_packet_cb ::
  "('r, 'f, 'j) dhcp_bucket_class \<Rightarrow> ('r, 'q, 'f, 'c) sketches \<Rightarrow> addr_text \<Rightarrow> timespec \<Rightarrow> u16 \<Rightarrow> u16 \<Rightarrow> dhcp_layer \<Rightarrow> dhcp6_layer
     \<Rightarrow> timespec \<Rightarrow> ('r, 'f, 'j) dhcp_manager \<Rightarrow> ('r, 'f, 'j) dhcp_manager" where
  "process_udp_packet_cb cls sk txts now src_port dst_port d d6 stamp m =
     (if dst_port = 67 \<or> src_port = 67 \<or> dst_port = 68 \<or> src_port = 68 then
        if \<not> dhcp_filtering d stamp then process_dhcp_layer cls sk txts now d stamp m else m
      else if dst_port = 546 \<or> src_port = 546 \<or> dst_port = 547 \<or> src_port = 547 then
        if \<not> dhcp_filtering_v6 d6 stamp then process_dhcp_v6_layer cls sk txts now d6 stamp m else m
      else m)"

datatype dhcp_input =
    Dhcp_Udp u16 u16 dhcp_layer dhcp6_layer timespec
  | Dhcp_Start_Tstamp timespec
  | Dhcp_End_Tstamp timespec
  | Dhcp_Heartbeat timespec

definition dhcp_input_step ::
  "('r, 'f, 'j) dhcp_bucket_class \<Rightarrow> ('r, 'q, 'f, 'c) sketches \<Rightarrow> addr_text \<Rightarrow> timespec \<Rightarrow> dhcp_input
     \<Rightarrow> ('r, 'f, 'j) dhcp_manager \<Rightarrow> ('r, 'f, 'j) dhcp_manager" where
  "dhcp_input_step cls sk txts now e m =
     (case e of
        Dhcp_Udp src dst d d6 stamp \<Rightarrow> process_udp_packet_cb cls sk txts now src dst d d6 stamp m
      | Dhcp_Start_Tstamp stamp \<Rightarrow> m\<lparr>dm_metrics := set_start_tstamp stamp (dm_metrics m)\<rparr>
      | Dhcp_End_Tstamp stamp \<Rightarrow> m\<lparr>dm_metrics := set_end_tstamp cls stamp (dm_metrics m)\<rparr>
      | Dhcp_Heartbeat stamp \<Rightarrow>
          let m = dhcp_period_shift stamp m
          in m\<lparr>dm_metrics := fst (check_period_shift cls now stamp (dm_metrics m))\<rparr>)"

definition dhcp_handle ::
  "('r, 'f, 'j) dhcp_bucket_class \<Rightarrow> ('r, 'q, 'f, 'c) sketches \<Rightarrow> addr_text \<Rightarrow> timespec \<Rightarrow> dhcp_input
     \<Rightarrow> ('r, 'f, 'j) dhcp_handler \<Rightarrow> ('r, 'f, 'j) dhcp_handler" where
  "dhcp_handle cls sk txts now e h =
     (if \<not> dh_connected h then h else h\<lparr>dh_metrics := dhcp_input_step cls sk txts now e (dh_metrics h)\<rparr>)"

subsection \<open>Requests and acknowledgements\<close>

text \<open>The time of an input that can shift the period, and whether it is about the transaction \<open>i\<close>.\<close>

fun input_stamp :: "dhcp_input \<Rightarrow> timespec option" where
  "input_stamp (Dhcp_Udp _ _ _ _ stamp) = Some stamp"
| "input_stamp (Dhcp_Heartbeat stamp) = Some stamp"
| "input_stamp _ = None"

fun about_xact :: "u32 \<Rightarrow> dhcp_input \<Rightarrow> bool" where
  "about_xact i (Dhcp_Udp _ _ d _ _) = (dl_transactionID d = i \<and> (dl_type d = DHCP_REQUEST \<or> dl_type d = DHCP_ACK))"
| "about_xact i _ = False"

text \<open>What an input can do to the transactions.\<close>

fun dhcp_may :: "timespec \<times> dhcp_input \<Rightarrow> (u32, 'x) xact_op \<Rightarrow> bool" where
  "dhcp_may (now, e) (Purge t) = (input_stamp e = Some t)"
| "dhcp_may (now, e) (Start i x) = about_xact i e"
| "dhcp_may (now, e) (End i t) = about_xact i e"

lemma dhcp_event_ops:
  "\<exists>ops. dm_xacts (dhcp_event cls now stamp sample f m) = fold xact_step ops (dm_xacts m) \<and> (ops = [] \<or> ops = [Purge stamp])"
  by (rule exI [of _ "if will_shift stamp (dm_metrics m) then [Purge stamp] else []"])
    (simp add: dhcp_event_def dhcp_period_shift_def Let_def)

lemma process_dhcp_layer_xacts:
  "dm_xacts (process_dhcp_layer cls sk txts now d stamp m) =
     (let xs = dm_xacts (dhcp_event cls now stamp True (bucket_dhcp_layer sk d) m) in
      if dl_type d = DHCP_REQUEST then
        start_transaction (dl_transactionID d)
          \<lparr>startTS = stamp, totalTS = ts 0 0, x_hostname = (case dl_hostname d of Some n \<Rightarrow> n | None \<Rightarrow> ''Unknown''),
           x_mac_address = dl_client_mac d\<rparr> xs
      else if dl_type d = DHCP_ACK then snd (maybe_end_transaction (dl_transactionID d) stamp xs)
      else xs)"
  by (auto simp: process_dhcp_layer_def Let_def split: prod.split xact_result.split option.split)

lemma dhcp_layer_ops:
  "\<exists>ops. dm_xacts (process_dhcp_layer cls sk txts now d stamp m) = fold xact_step ops (dm_xacts m)
     \<and> list_all (dhcp_may (now, Dhcp_Udp src dst d d6 stamp)) ops"
proof -
  obtain ops where ops: "dm_xacts (dhcp_event cls now stamp True (bucket_dhcp_layer sk d) m) = fold xact_step ops (dm_xacts m)"
    "list_all (dhcp_may (now, Dhcp_Udp src dst d d6 stamp)) ops"
    using dhcp_event_ops [of cls now stamp True "bucket_dhcp_layer sk d" m] by force
  let ?x = "\<lparr>startTS = stamp, totalTS = ts 0 0, x_hostname = (case dl_hostname d of Some n \<Rightarrow> n | None \<Rightarrow> ''Unknown''),
    x_mac_address = dl_client_mac d\<rparr>"
  show ?thesis
    using ops
    by (intro exI [of _ "ops @ (if dl_type d = DHCP_REQUEST then [Start (dl_transactionID d) ?x]
        else if dl_type d = DHCP_ACK then [End (dl_transactionID d) stamp] else [])"])
      (simp add: process_dhcp_layer_xacts Let_def)
qed

lemma dhcp_step_ops:
  "\<exists>ops. dm_xacts (dhcp_input_step cls sk txts now e m) = fold xact_step ops (dm_xacts m) \<and> list_all (dhcp_may (now, e)) ops"
proof (cases e)
  case (Dhcp_Udp src dst d d6 stamp)
  have "\<exists>ops. dm_xacts (process_dhcp_v6_layer cls sk txts now d6 stamp m) = fold xact_step ops (dm_xacts m) \<and> list_all (dhcp_may (now, e)) ops"
    using dhcp_event_ops [of cls now stamp True "bucket_dhcp_v6_layer sk txts d6" m]
    by (force simp: process_dhcp_v6_layer_def Dhcp_Udp)
  moreover have "\<exists>ops. dm_xacts m = fold xact_step ops (dm_xacts m) \<and> list_all (dhcp_may (now, e)) ops" by (rule exI [of _ "[]"]) simp
  moreover have "\<exists>ops. dm_xacts (process_dhcp_layer cls sk txts now d stamp m) = fold xact_step ops (dm_xacts m) \<and> list_all (dhcp_may (now, e)) ops"
    unfolding Dhcp_Udp by (rule dhcp_layer_ops)
  moreover have "dhcp_input_step cls sk txts now e m
      \<in> {process_dhcp_layer cls sk txts now d stamp m, process_dhcp_v6_layer cls sk txts now d6 stamp m, m}"
    by (simp add: Dhcp_Udp dhcp_input_step_def process_udp_packet_cb_def)
  ultimately show ?thesis by auto
next
  case (Dhcp_Heartbeat stamp)
  then show ?thesis
    by (intro exI [of _ "if will_shift stamp (dm_metrics m) then [Purge stamp] else []"])
      (simp add: dhcp_input_step_def dhcp_period_shift_def Let_def)
qed (rule exI [of _ "[]"], simp add: dhcp_input_step_def)+

interpretation dhcp_pairing: pairing dm_xacts "\<lambda>(now, e) m. Some (dhcp_input_step cls sk txts now e m)" dhcp_may for cls sk txts
  by unfold_locales (use dhcp_step_ops in fastforce)

lemma ack_ends:
  assumes "waits (dl_transactionID d) x ttl (dm_xacts m)" "soon ttl (startTS x) stamp" "to_ns (startTS x) \<le> to_ns stamp"
    "dl_type d = DHCP_ACK"
  shows "dm_metrics (process_dhcp_layer cls sk txts now d stamp m) =
      on_live_bucket (\<lambda>deep. new_dhcp_transaction sk txts deep d (x\<lparr>totalTS := timespec_diff stamp (startTS x)\<rparr>))
        (plain_event cls now stamp True (bucket_dhcp_layer sk d) (dm_metrics m))
    \<and> map_of (tm_transactions (dm_xacts (process_dhcp_layer cls sk txts now d stamp m))) (dl_transactionID d) = None"
proof -
  let ?m = "dhcp_event cls now stamp True (bucket_dhcp_layer sk d) m"
  obtain ops where "dm_xacts ?m = fold xact_step ops (dm_xacts m)" "ops = [] \<or> ops = [Purge stamp]"
    using dhcp_event_ops by blast
  then have "waits (dl_transactionID d) x ttl (dm_xacts ?m)" using waits_ops [OF assms(1), of ops] assms(2) by auto
  note e = waits_ends [OF this assms(2,3)]
  have "dm_metrics ?m = plain_event cls now stamp True (bucket_dhcp_layer sk d) (dm_metrics m)"
    by (simp add: dhcp_event_def dhcp_period_shift_def Let_def)
  then show ?thesis using assms(4) e(1) by (simp add: process_dhcp_layer_def Let_def delete_conv')
qed

subsection \<open>Properties\<close>

text \<open>
  What the acknowledgement does to the live bucket: the bucket after the base event, with the message counted and, if the
  message is sampled and assigns an address, the client among the top clients.
\<close>

lemma ack_counted:
  fixes m :: "('r, ('r, 'f) dhcp_bucket, 'j) manager" and cls now t sk txts x
  assumes "dl_type ack = DHCP_ACK"
  defines "live \<equiv> fst (new_event cls now t True m)"
  defines "after \<equiv> on_live_bucket (\<lambda>deep. new_dhcp_transaction sk txts deep ack x) (plain_event cls now t True (bucket_dhcp_layer sk ack) m)"
  shows "mm_deep_sampling_now after = mm_deep_sampling_now live"
    "db_topClients (b_spec (hd (mm_buckets after))) =
       (if mm_deep_sampling_now live \<and> dl_your_ip ack \<noteq> ipv4_Zero
        then topn_update (sk_items sk) (Text (x_mac_address x @ ''/'' @ x_hostname x @ ''/'' @ ip4_text txts (dl_your_ip ack))) 1
          (db_topClients (b_spec (hd (mm_buckets live))))
        else db_topClients (b_spec (hd (mm_buckets live))))"
    "db_counters (b_spec (hd (mm_buckets after))) =
       (db_counters (b_spec (hd (mm_buckets live))))
         \<lparr>dc_ACK := counter_inc (dc_ACK (db_counters (b_spec (hd (mm_buckets live))))),
          dc_total := counter_inc (dc_total (db_counters (b_spec (hd (mm_buckets live)))))\<rparr>"
  using assms(1)
  by (simp_all add: live_def after_def on_live_bucket_def plain_event_def upd_front_def bucket_dhcp_layer_def new_dhcp_transaction_def
      dhcp_inc_def case_prod_beta only_if_def)

text \<open>
  C7: An acknowledgement names its client. After a request, and any other traffic and heartbeats whose times
  stay within the whole seconds of the time to live less one, whatever periods they shift, an acknowledgement with
  the same transaction identifier, also within that time, is counted in the live bucket as an acknowledgement; if it is sampled deeply and
  assigns an address, the top clients of the bucket are updated with the hardware address and host name of the
  request and that address, otherwise they stay as they are. The transaction is closed.
\<close>

theorem dhcp_ack_names_client:
  assumes "manager_ok (dm_xacts m)" "dl_type req = DHCP_REQUEST" "dl_type ack = DHCP_ACK"
    "dl_transactionID ack = dl_transactionID req" "normalised t0" "to_ns t0 \<le> to_ns t1"
    "soon (int (tm_ttl_secs (dm_xacts m))) t0 t1"
    "list_all (\<lambda>(now, e). \<not> about_xact (dl_transactionID req) e
        \<and> (case input_stamp e of Some t \<Rightarrow> soon (int (tm_ttl_secs (dm_xacts m))) t0 t | None \<Rightarrow> True)) es"
  shows "let m2 = fold (\<lambda>(now, e). dhcp_input_step cls sk txts now e) es (process_dhcp_layer cls sk txts now req t0 m);
       m3 = process_dhcp_layer cls sk txts now' ack t1 m2;
       live = fst (new_event cls now' t1 True (dm_metrics m2));
       before = b_spec (hd (mm_buckets live)); after = b_spec (hd (mm_buckets (dm_metrics m3)));
       hostname = (case dl_hostname req of Some n \<Rightarrow> n | None \<Rightarrow> ''Unknown'');
       client = dl_client_mac req @ ''/'' @ hostname @ ''/'' @ ip4_text txts (dl_your_ip ack) in
     db_topClients after =
       (if mm_deep_sampling_now live \<and> dl_your_ip ack \<noteq> ipv4_Zero
        then topn_update (sk_items sk) (Text client) 1 (db_topClients before) else db_topClients before)
     \<and> db_counters after =
       (db_counters before)\<lparr>dc_ACK := counter_inc (dc_ACK (db_counters before)), dc_total := counter_inc (dc_total (db_counters before))\<rparr>
     \<and> map_of (tm_transactions (dm_xacts m3)) (dl_transactionID req) = None"
proof -
  let ?x = "\<lparr>startTS = t0, totalTS = ts 0 0, x_hostname = (case dl_hostname req of Some n \<Rightarrow> n | None \<Rightarrow> ''Unknown''),
    x_mac_address = dl_client_mac req\<rparr>"
  let ?ttl = "int (tm_ttl_secs (dm_xacts m))" and ?i = "dl_transactionID req"
  let ?m1 = "process_dhcp_layer cls sk txts now req t0 m" and ?step = "\<lambda>(now, e). dhcp_input_step cls sk txts now e"
  let ?m2 = "fold ?step es ?m1"
  obtain ops where ops: "dm_xacts (dhcp_event cls now t0 True (bucket_dhcp_layer sk req) m) = fold xact_step ops (dm_xacts m)"
    using dhcp_event_ops by blast
  then have "waits ?i ?x ?ttl (dm_xacts ?m1)"
    using waits_started [of "fold xact_step ops (dm_xacts m)" ?x ?i] manager_ok_ops [OF assms(1), of ops] assms(2,5)
    by (simp add: process_dhcp_layer_xacts)
  moreover have "steps (\<lambda>(now, e) m. Some (dhcp_input_step cls sk txts now e m)) es ?m1 = Some ?m2"
    using steps_total [of ?step es ?m1] by (simp add: case_prod_beta')
  moreover have "spares ?i ?ttl t0 op" if "ne \<in> set es" "dhcp_may ne op" for ne and op :: "(u32, \<lparr>x_hostname :: string, x_mac_address :: string\<rparr>) xact_op"
    using assms(8) that by (cases ne; cases op) (auto simp: list_all_iff)
  ultimately have "waits ?i ?x ?ttl (dm_xacts ?m2)"
    using dhcp_pairing.waits_steps [of ?i ?x ?ttl ?m1 cls sk txts es ?m2] by simp
  then have "dm_metrics (process_dhcp_layer cls sk txts now' ack t1 ?m2) =
        on_live_bucket (\<lambda>deep. new_dhcp_transaction sk txts deep ack (?x\<lparr>totalTS := timespec_diff t1 t0\<rparr>))
          (plain_event cls now' t1 True (bucket_dhcp_layer sk ack) (dm_metrics ?m2))"
    "map_of (tm_transactions (dm_xacts (process_dhcp_layer cls sk txts now' ack t1 ?m2))) ?i = None"
    using ack_ends [of ack ?x ?ttl ?m2 t1 cls sk txts now'] assms(3,4,6,7) by simp_all
  then show ?thesis
    unfolding Let_def by (simp add: ack_counted [OF assms(3)])
qed

text \<open>A request and its acknowledgement a second later, with a heartbeat between them.\<close>

definition demo_dhcp :: "dhcp_type \<Rightarrow> dhcp_layer" where
  "demo_dhcp t =
     \<lparr>dl_type = t, dl_transactionID = 7, dl_hostname = Some ''host'', dl_client_mac = ''aa:bb'', dl_your_ip = 1,
      dl_server_id = None, dl_source_mac = None\<rparr>"

definition demo_dhcp_class :: "(unit, unit, unit) dhcp_bucket_class" where
  "demo_dhcp_class = dhcp_class unit_sketches [] (\<lambda>_ _ _ _ j. j)"

definition demo_dhcp_manager :: "(unit, unit, unit) dhcp_manager" where
  "demo_dhcp_manager = new_dhcp_manager (new_manager demo_dhcp_class no_config (ts 0 0) (ts 0 0))"

definition demo_dhcp_asked :: "(unit, unit, unit) dhcp_manager" where
  "demo_dhcp_asked =
     fold (\<lambda>(now, e). dhcp_input_step demo_dhcp_class unit_sketches demo_texts now e) [(ts 60 5, Dhcp_Heartbeat (ts 60 5))]
       (process_dhcp_layer demo_dhcp_class unit_sketches demo_texts (ts 60 0) (demo_dhcp DHCP_REQUEST) (ts 60 0) demo_dhcp_manager)"

definition demo_dhcp_run :: "(unit, unit, unit) dhcp_manager" where
  "demo_dhcp_run = process_dhcp_layer demo_dhcp_class unit_sketches demo_texts (ts 61 0) (demo_dhcp DHCP_ACK) (ts 61 0) demo_dhcp_asked"

theorem dhcp_ack_names_client_witness:
  "let live = fst (new_event demo_dhcp_class (ts 61 0) (ts 61 0) True (dm_metrics demo_dhcp_asked));
       before = b_spec (hd (mm_buckets live)); after = b_spec (hd (mm_buckets (dm_metrics demo_dhcp_run))) in
   db_topClients after = (if mm_deep_sampling_now live
     then topn_update (sk_items unit_sketches) (Text ''aa:bb/host/'') 1 (db_topClients before) else db_topClients before)
   \<and> dc_ACK (db_counters after) = counter_inc (dc_ACK (db_counters before))
   \<and> map_of (tm_transactions (dm_xacts demo_dhcp_run)) 7 = None"
proof -
  have ok: "manager_ok (dm_xacts demo_dhcp_manager)" "tm_ttl_secs (dm_xacts demo_dhcp_manager) = 5"
    using new_transaction_manager_ok(1) [of 5000]
    by (simp_all add: demo_dhcp_manager_def new_dhcp_manager_def) (simp add: new_transaction_manager_def)
  have d: "dl_type (demo_dhcp t) = t" "dl_transactionID (demo_dhcp t) = 7" "dl_your_ip (demo_dhcp t) \<noteq> ipv4_Zero"
    "dl_client_mac (demo_dhcp t) = ''aa:bb''" "dl_hostname (demo_dhcp t) = Some ''host''" for t
    by (simp_all add: demo_dhcp_def ipv4_Zero_def)
  show ?thesis
    using dhcp_ack_names_client [of demo_dhcp_manager "demo_dhcp DHCP_REQUEST" "demo_dhcp DHCP_ACK" "ts 60 0" "ts 61 0"
        "[(ts 60 5, Dhcp_Heartbeat (ts 60 5))]" demo_dhcp_class unit_sketches demo_texts "ts 60 0" "ts 61 0"] ok
    unfolding demo_dhcp_run_def demo_dhcp_asked_def [symmetric] Let_def
    by (simp add: d normalised_def to_ns_def soon_def demo_texts_def)
qed

text \<open>
  DHCPv6 messages are events but are not in the total, whose description names them: a bucket that
  sees only DHCPv6 messages keeps a total of zero.
\<close>

theorem dhcp_v6_not_in_total:
  "dc_total (db_counters (fold (\<lambda>(d, deep). bucket_dhcp_v6_layer sk txts d deep) ds s)) = dc_total (db_counters s)
   \<and> db_rate_total (fold (\<lambda>(d, deep). bucket_dhcp_v6_layer sk txts d deep) ds s) = db_rate_total s"
proof (induction ds arbitrary: s)
  case (Cons x ds)
  have "dc_total (db_counters (bucket_dhcp_v6_layer sk txts d deep s)) = dc_total (db_counters s)
      \<and> db_rate_total (bucket_dhcp_v6_layer sk txts d deep s) = db_rate_total s" for d deep s
    by (cases "d6_type d") (simp_all add: bucket_dhcp_v6_layer_def dhcp_inc_def only_if_def split: option.split)
  with Cons show ?case by (cases x) simp
qed simp

end
