(* ===== verification/DnsBuckets.thy ===== *)
theory DnsBuckets
  imports Handlers Transactions DnsWire "HOL-Library.Signed_Division"
begin

text \<open>
  The metrics of the DNS handler, version 1 (\<^verbatim>\<open>src/src/handlers/dns/v1/DnsStreamHandler.h\<close> and \<^verbatim>\<open>.cpp\<close>, the tables
  of \<^verbatim>\<open>src/libs/visor_dns/dns.h\<close>): the bucket with its merge and two of its outputs, what a message or a
  dnstap record does to it, and the manager with its transactions.

  A message is a layer of \<open>DnsWire\<close>, whose state of parsing is kept from one step to the next. The
  result \<^term>\<open>None\<close> is undefined behaviour: a read outside the message, or a lock that is taken twice. A
  \<^verbatim>\<open>float\<close> that comes from an integer is the natural number it stands for, rounded to 24 bits; a
  \<^verbatim>\<open>double\<close> is a real number.
\<close>

subsection \<open>Libraries\<close>

record ('r, 'q, 'f, 'c, 'd) dns_sketches = "('r, 'q, 'f, 'c) sketches" +
  sk_ratio :: "('d, real) kll_ops"
  ratio_text :: "real \<Rightarrow> string"
  hist_bounds :: "u64 list"
  product_text :: "real \<Rightarrow> u64 \<Rightarrow> string"

record dns_libs = geo_dbs +
  city_loc_str :: "string \<Rightarrow> city"
  asn_text_str :: "string \<Rightarrow> string"
  lib_ntop4 :: "byte list \<Rightarrow> string option"
  lib_ntop6 :: "byte list \<Rightarrow> string option"
  lib_suffixes :: "string \<Rightarrow> string list option"

subsection \<open>Names of types and response codes\<close>

definition QTypeNames :: "(u16 \<times> string) list" where
  "QTypeNames =
     [(0, ''Reserved (0)''), (1, ''A''), (2, ''NS''), (3, ''MD''), (4, ''MF''), (5, ''CNAME''), (6, ''SOA''),
      (7, ''MB''), (8, ''MG''), (9, ''MR''), (10, ''NULL''), (11, ''WKS''), (12, ''PTR''), (13, ''HINFO''),
      (14, ''MINFO''), (15, ''MX''), (16, ''TXT''), (17, ''RP''), (18, ''AFSDB''), (19, ''X25''), (20, ''ISDN''),
      (21, ''RT''), (22, ''NSAP''), (23, ''NSAP-PTR''), (24, ''SIG''), (25, ''KEY''), (26, ''PX''), (27, ''GPOS''),
      (28, ''AAAA''), (29, ''LOC''), (30, ''NXT''), (31, ''EID''), (32, ''NIMLOC''), (33, ''SRV''), (34, ''ATMA''),
      (35, ''NAPTR''), (36, ''KX''), (37, ''CERT''), (38, ''A6''), (39, ''DNAME''), (40, ''SINK''), (41, ''OPT''),
      (42, ''APL''), (43, ''DS''), (44, ''SSHFP''), (45, ''IPSECKEY''), (46, ''RRSIG''), (47, ''NSEC''),
      (48, ''DNSKEY''), (49, ''DHCID''), (50, ''NSEC3''), (51, ''NSEC3PARAM''), (52, ''TLSA''), (53, ''SMIMEA''),
      (55, ''HIP''), (56, ''NINFO''), (57, ''RKEY''), (58, ''TALINK''), (59, ''CDS''), (60, ''CDNSKEY''),
      (61, ''OPENPGPKEY''), (62, ''CSYNC''), (63, ''ZONEMD''), (64, ''SVCB''), (65, ''HTTPS''), (99, ''SPF''),
      (100, ''UINFO''), (101, ''UID''), (102, ''GID''), (103, ''UNSPEC''), (104, ''NID''), (105, ''L32''),
      (106, ''L64''), (107, ''LP''), (108, ''EUI48''), (109, ''EUI64''), (249, ''TKEY''), (250, ''TSIG''),
      (251, ''IXFR''), (252, ''AXFR''), (253, ''MAILB''), (254, ''MAILA''), (255, ''*''), (256, ''URI''),
      (257, ''CAA''), (258, ''AVC''), (259, ''DOA''), (260, ''AMTRELAY''), (32768, ''TA''), (32769, ''DLV''),
      (65535, ''Reserved (65535)'')]"

definition RCodeNames :: "(u16 \<times> string) list" where
  "RCodeNames =
     [(0, ''NOERROR''), (1, ''FORMERR''), (2, ''SRVFAIL''), (3, ''NXDOMAIN''), (4, ''NOTIMP''), (5, ''REFUSED''),
      (6, ''YXDOMAIN''), (7, ''YXRRSET''), (8, ''NXRRSET''), (9, ''NOTAUTH''), (10, ''NOTZONE''), (11, ''DSOTYPENI''),
      (16, ''BADVERS''), (16, ''BADSIG''), (17, ''BADKEY''), (18, ''BADTIME''), (19, ''BADMODE''), (20, ''BADNAME''),
      (21, ''BADALG''), (22, ''BADTRUNC''), (23, ''BADCOOKIE'')]"

definition QTypeNumbers :: "(string \<times> u16) list" where
  "QTypeNumbers = map (\<lambda>(n, s). (s, n)) QTypeNames"

definition RCodeNumbers :: "(string \<times> u16) list" where
  "RCodeNumbers = map (\<lambda>(n, s). (s, n)) RCodeNames"

definition code_name :: "(u16 \<times> string) list \<Rightarrow> item \<Rightarrow> string" where
  "code_name names i =
     (case i of
        Num n \<Rightarrow> (case map_of names (ucast n) of Some s \<Rightarrow> s | None \<Rightarrow> u64_str n)
      | _ \<Rightarrow> item_text i)"

definition NoError :: u16 where
  "NoError = 0"

definition SrvFail :: u16 where
  "SrvFail = 2"

definition NXDomain :: u16 where
  "NXDomain = 3"

definition Refused :: u16 where
  "Refused = 5"

subsection \<open>Messages\<close>

text \<open>The header is read through a pointer to a structure of twelve bytes.\<close>

record dns_header =
  dh_transactionID :: u16
  dh_response :: bool
  dh_responseCode :: u16
  dh_answers :: nat
  dh_additionals :: nat

definition getDnsHeader :: "dns_layer \<Rightarrow> dns_header option" where
  "getDnsHeader l =
     (let d = l_data l in
      if length d < HDR then None
      else Some \<lparr>dh_transactionID = be16 (d ! 1) (d ! 0), dh_response = bit (d ! 2) 7, dh_responseCode = ucast (take_bit 4 (d ! 3)),
                 dh_answers = unat (be16 (d ! 6) (d ! 7)), dh_additionals = unat (be16 (d ! 10) (d ! 11))\<rparr>)"

definition getNameLower :: "dns_resource \<Rightarrow> string" where
  "getNameLower r = map to_lower (r_name r)"

text \<open>The client subnet of an additional record, if there is a record.\<close>

definition ecs_of :: "dns_libs \<Rightarrow> byte list \<Rightarrow> dns_resource option \<Rightarrow> ecs option option" where
  "ecs_of libs data additional =
     (case additional of
        None \<Rightarrow> Some None
      | Some r \<Rightarrow>
          do { ty \<leftarrow> getDnsType data r;
               n \<leftarrow> getDataLength data r;
               if ty \<noteq> DNS_TYPE_OPT \<or> n = 0 then Some None
               else
                 do { arr \<leftarrow> rd_bytes data (getDataOffset r) n;
                      parse_additional_records_ecs (lib_ntop4 libs) (lib_ntop6 libs) ty arr } })"

text \<open>
  The transports: the protocols of dnstap, of which the source names four, and those of PcapPlusPlus.
\<close>

datatype dns_protocol = DNSTAP_UDP | DNSTAP_TCP | DNSTAP_DOT | DNSTAP_DOH | DNSTAP_Other | PCPP_UNKNOWN | PCPP_UDP | PCPP_TCP

definition pcpp_to_protocol :: "protocol \<Rightarrow> dns_protocol" where
  "pcpp_to_protocol t = (if t = P_TCP then PCPP_TCP else if t = P_UDP then PCPP_UDP else PCPP_UNKNOWN)"

definition dnstap_protocol :: "socket_protocol \<Rightarrow> dns_protocol" where
  "dnstap_protocol p =
     (case p of DP_UDP \<Rightarrow> DNSTAP_UDP | DP_TCP \<Rightarrow> DNSTAP_TCP | DP_DOT \<Rightarrow> DNSTAP_DOT | DP_DOH \<Rightarrow> DNSTAP_DOH | _ \<Rightarrow> DNSTAP_Other)"

text \<open>
  A \<^verbatim>\<open>float\<close> holds 24 bits: the larger bits of a number, rounded to the nearest, and to the even one of
  two.
\<close>

function float_shift :: "nat \<Rightarrow> nat" where
  "float_shift n = (if n < 2 ^ 24 then 0 else Suc (float_shift (n div 2)))"
  by pat_completeness auto

termination
  by (relation "measure id") auto

declare float_shift.simps [simp del]

definition to_float :: "u64 \<Rightarrow> nat" where
  "to_float v =
     (let n = unat v; s = float_shift n; q = n div 2 ^ s; r = n mod 2 ^ s
      in if 2 * r > 2 ^ s \<or> 2 * r = 2 ^ s \<and> odd q then (q + 1) * 2 ^ s else q * 2 ^ s)"

subsection \<open>Buckets\<close>

definition DNS_SCHEMA :: string where
  "DNS_SCHEMA = ''dns''"

definition Dns_Cardinality :: nat where "Dns_Cardinality = 0"

definition Dns_Counters :: nat where "Dns_Counters = 1"

definition Dns_Quantiles :: nat where "Dns_Quantiles = 2"

definition Dns_Histograms :: nat where "Dns_Histograms = 3"

definition Dns_Transactions :: nat where "Dns_Transactions = 4"

definition Dns_TopEcs :: nat where "Dns_TopEcs = 5"

definition Dns_TopQnames :: nat where "Dns_TopQnames = 6"

definition Dns_TopQnamesDetails :: nat where "Dns_TopQnamesDetails = 7"

definition Dns_TopPorts :: nat where "Dns_TopPorts = 8"

lemmas dns_group_defs_unfold = Dns_Cardinality_def Dns_Counters_def Dns_Quantiles_def Dns_Histograms_def Dns_Transactions_def
  Dns_TopEcs_def Dns_TopQnames_def Dns_TopQnamesDetails_def Dns_TopPorts_def

record dns_counters =
  dc_xacts_total :: counter
  dc_xacts_in :: counter
  dc_xacts_out :: counter
  dc_xacts_timed_out :: counter
  dc_queries :: counter
  dc_replies :: counter
  dc_UDP :: counter
  dc_TCP :: counter
  dc_DOT :: counter
  dc_DOH :: counter
  dc_IPv4 :: counter
  dc_IPv6 :: counter
  dc_NX :: counter
  dc_REFUSED :: counter
  dc_SRVFAIL :: counter
  dc_RNOERROR :: counter
  dc_NODATA :: counter
  dc_total :: counter
  dc_filtered :: counter
  dc_queryECS :: counter

record ('r, 'q, 'f, 'c, 'd) dns_bucket =
  ds_xactFromTimeUs :: "('q, u64) quantile"
  ds_xactToTimeUs :: "('q, u64) quantile"
  ds_xactFromHistTimeUs :: "'q histogram"
  ds_xactToHistTimeUs :: "'q histogram"
  ds_xactRatio :: "('d, real) quantile"
  ds_qnameCard :: "'c cardinality"
  ds_topGeoLocECS :: "'f topn"
  ds_topASNECS :: "'f topn"
  ds_topQueryECS :: "'f topn"
  ds_topQname2 :: "'f topn"
  ds_topQname3 :: "'f topn"
  ds_topNX :: "'f topn"
  ds_topREFUSED :: "'f topn"
  ds_topSizedQnameResp :: "'f topn"
  ds_topSRVFAIL :: "'f topn"
  ds_topNODATA :: "'f topn"
  ds_topNOERROR :: "'f topn"
  ds_topUDPPort :: "'f topn"
  ds_topQType :: "'f topn"
  ds_topRCode :: "'f topn"
  ds_slowXactIn :: "'f topn"
  ds_slowXactOut :: "'f topn"
  ds_counters :: dns_counters
  ds_rate_total :: "'r rate"

definition dns_metric :: "string list \<Rightarrow> string \<Rightarrow> metric" where
  "dns_metric names desc = \<lparr>m_name = names, m_desc = desc, m_schema_key = DNS_SCHEMA\<rparr>"

definition dns_counter :: "string list \<Rightarrow> string \<Rightarrow> counter" where
  "dns_counter names desc = new_counter (dns_metric names desc)"

definition new_dns_counters :: dns_counters where
  "new_dns_counters =
     \<lparr>dc_xacts_total = dns_counter [''xact'', ''counts'', ''total''] ''Total DNS transactions (query/reply pairs)'',
      dc_xacts_in = dns_counter [''xact'', ''in'', ''total''] ''Total ingress DNS transactions (host is server)'',
      dc_xacts_out = dns_counter [''xact'', ''out'', ''total''] ''Total egress DNS transactions (host is client)'',
      dc_xacts_timed_out = dns_counter [''xact'', ''counts'', ''timed_out''] ''Total number of DNS transactions that timed out'',
      dc_queries = dns_counter [''wire_packets'', ''queries''] ''Total DNS wire packets flagged as query (ingress and egress)'',
      dc_replies = dns_counter [''wire_packets'', ''replies''] ''Total DNS wire packets flagged as reply (ingress and egress)'',
      dc_UDP = dns_counter [''wire_packets'', ''udp''] ''Total DNS wire packets received over UDP (ingress and egress)'',
      dc_TCP = dns_counter [''wire_packets'', ''tcp''] ''Total DNS wire packets received over TCP (ingress and egress)'',
      dc_DOT = dns_counter [''wire_packets'', ''dot''] ''Total DNS wire packets received over DNS over TLS'',
      dc_DOH = dns_counter [''wire_packets'', ''doh''] ''Total DNS wire packets received over DNS over HTTPS'',
      dc_IPv4 = dns_counter [''wire_packets'', ''ipv4''] ''Total DNS wire packets received over IPv4 (ingress and egress)'',
      dc_IPv6 = dns_counter [''wire_packets'', ''ipv6''] ''Total DNS wire packets received over IPv6 (ingress and egress)'',
      dc_NX = dns_counter [''wire_packets'', ''nxdomain'']
        ''Total DNS wire packets flagged as reply with response code NXDOMAIN (ingress and egress)'',
      dc_REFUSED = dns_counter [''wire_packets'', ''refused'']
        ''Total DNS wire packets flagged as reply with response code REFUSED (ingress and egress)'',
      dc_SRVFAIL = dns_counter [''wire_packets'', ''srvfail'']
        ''Total DNS wire packets flagged as reply with response code SRVFAIL (ingress and egress)'',
      dc_RNOERROR = dns_counter [''wire_packets'', ''noerror'']
        ''Total DNS wire packets flagged as reply with response code NOERROR (ingress and egress)'',
      dc_NODATA = dns_counter [''wire_packets'', ''nodata'']
        ''Total DNS wire packets flagged as reply with response code NOERROR and no answer section data (ingress and egress)'',
      dc_total = dns_counter [''wire_packets'', ''total''] ''Total DNS wire packets matching the configured filter(s)'',
      dc_filtered = dns_counter [''wire_packets'', ''filtered'']
        ''Total DNS wire packets seen that did not match the configured filter(s) (if any)'',
      dc_queryECS = dns_counter [''wire_packets'', ''query_ecs''] ''Total queries that have EDNS Client Subnet (ECS) field set''\<rparr>"

definition new_dns_bucket :: "('r, 'q, 'f, 'c, 'd) dns_sketches \<Rightarrow> ('r, 'q, 'f, 'c, 'd) dns_bucket" where
  "new_dns_bucket sk =
     (let quant = (\<lambda>names desc. new_quantile (sk_quantile sk) (dns_metric names desc));
          hist = (\<lambda>names desc. \<lparr>h_metric = dns_metric names desc, h_sketch = kll_new (sk_quantile sk)\<rparr>);
          top = (\<lambda>key names desc. new_topn (sk_items sk) (dns_metric names desc) key) in
      \<lparr>ds_xactFromTimeUs = quant [''xact'', ''out'', ''quantiles_us'']
         ''Quantiles of transaction timing (query/reply pairs) when host is client, in microseconds'',
       ds_xactToTimeUs = quant [''xact'', ''in'', ''quantiles_us'']
         ''Quantiles of transaction timing (query/reply pairs) when host is server, in microseconds'',
       ds_xactFromHistTimeUs = hist [''xact'', ''out'', ''histogram_us'']
         ''Histogram of transaction timing (query/reply pairs) when host is client, in microseconds'',
       ds_xactToHistTimeUs = hist [''xact'', ''in'', ''histogram_us'']
         ''Histogram of transaction timing (query/reply pairs) when host is server, in microseconds'',
       ds_xactRatio = new_quantile (sk_ratio sk) (dns_metric [''xact'', ''ratio'', ''quantiles'']
         ''Quantiles of ratio of packet sizes in a DNS transaction (reply/query)''),
       ds_qnameCard = new_cardinality (sk_distinct sk) (dns_metric [''cardinality'', ''qname'']
         ''Cardinality of unique QNAMES, both ingress and egress''),
       ds_topGeoLocECS = top ''geo_loc'' [''top_geoLoc_ecs''] ''Top GeoIP ECS locations'',
       ds_topASNECS = top ''asn'' [''top_asn_ecs''] ''Top ASNs by ECS'',
       ds_topQueryECS = top ''ecs'' [''top_query_ecs''] ''Top EDNS Client Subnet (ECS) observed in DNS queries'',
       ds_topQname2 = top ''qname'' [''top_qname2''] ''Top QNAMES, aggregated at a depth of two labels'',
       ds_topQname3 = top ''qname'' [''top_qname3''] ''Top QNAMES, aggregated at a depth of three labels'',
       ds_topNX = top ''qname'' [''top_nxdomain''] ''Top QNAMES with result code NXDOMAIN'',
       ds_topREFUSED = top ''qname'' [''top_refused''] ''Top QNAMES with result code REFUSED'',
       ds_topSizedQnameResp = top ''qname'' [''top_qname_by_resp_bytes''] ''Top QNAMES by response volume in bytes'',
       ds_topSRVFAIL = top ''qname'' [''top_srvfail''] ''Top QNAMES with result code SRVFAIL'',
       ds_topNODATA = top ''qname'' [''top_nodata''] ''Top QNAMES with result code NOERROR and no answer section'',
       ds_topNOERROR = top ''qname'' [''top_noerror''] ''Top QNAMES with result code NOERROR'',
       ds_topUDPPort = top ''port'' [''top_udp_ports''] ''Top UDP source port on the query side of a transaction'',
       ds_topQType = top ''qtype'' [''top_qtype''] ''Top query types'',
       ds_topRCode = top ''rcode'' [''top_rcode''] ''Top result codes'',
       ds_slowXactIn = top ''qname'' [''xact'', ''in'', ''top_slow'']
         ''Top QNAMES in transactions where host is the server and transaction speed is slower than p90'',
       ds_slowXactOut = top ''qname'' [''xact'', ''out'', ''top_slow'']
         ''Top QNAMES in transactions where host is the client and transaction speed is slower than p90'',
       ds_counters = new_dns_counters,
       ds_rate_total = new_rate (sk_rate sk) (dns_metric [''rates'', ''total'']
         ''Rate of all DNS wire packets (combined ingress and egress) in packets per second'')\<rparr>)"

definition dns_event_rate_info :: metric where
  "dns_event_rate_info = dns_metric [''rates'', ''events''] ''Rate of all DNS wire packets before filtering per second''"

definition dns_num_events_info :: metric where
  "dns_num_events_info = dns_metric [''wire_packets'', ''events''] ''Total DNS wire packets events''"

definition dns_num_samples_info :: metric where
  "dns_num_samples_info =
     dns_metric [''wire_packets'', ''deep_samples''] ''Total DNS wire packets that were sampled for deep inspection''"

definition dns_update_topn :: "nat \<Rightarrow> u64 \<Rightarrow> ('r, 'q, 'f, 'c, 'd) dns_bucket \<Rightarrow> ('r, 'q, 'f, 'c, 'd) dns_bucket" where
  "dns_update_topn n thr =
     until_throw
      [field_settings ds_topGeoLocECS_update ds_topGeoLocECS n thr, field_settings ds_topASNECS_update ds_topASNECS n thr,
       field_settings ds_topQueryECS_update ds_topQueryECS n thr, field_settings ds_topQname2_update ds_topQname2 n thr,
       field_settings ds_topQname3_update ds_topQname3 n thr, field_settings ds_topNX_update ds_topNX n thr,
       field_settings ds_topREFUSED_update ds_topREFUSED n thr,
       field_settings ds_topSizedQnameResp_update ds_topSizedQnameResp n thr,
       field_settings ds_topSRVFAIL_update ds_topSRVFAIL n thr, field_settings ds_topNODATA_update ds_topNODATA n thr,
       field_settings ds_topNOERROR_update ds_topNOERROR n thr, field_settings ds_topUDPPort_update ds_topUDPPort n thr,
       field_settings ds_topQType_update ds_topQType n thr, field_settings ds_topRCode_update ds_topRCode n thr,
       field_settings ds_slowXactIn_update ds_slowXactIn n thr, field_settings ds_slowXactOut_update ds_slowXactOut n thr]"

definition dns_merge ::
  "('r, 'q, 'f, 'c, 'd) dns_sketches \<Rightarrow> aggregate \<Rightarrow> u64 \<Rightarrow> ('r, 'q, 'f, 'c, 'd) dns_bucket \<Rightarrow> ('r, 'q, 'f, 'c, 'd) dns_bucket
     \<Rightarrow> ('r, 'q, 'f, 'c, 'd) dns_bucket" where
  "dns_merge sk agg g other =
     (let c = ds_counters other;
          add = (\<lambda>field n. ds_counters_update (field (counter_merge n)));
          top = (\<lambda>field t. field (topn_merge (sk_items sk) t)) in
      in_order
       ([ds_rate_total_update (rate_merge (sk_rate sk) agg (ds_rate_total other))]
        @ only_if (group_enabled g Dns_Counters)
           [add dc_queries_update (dc_queries c), add dc_replies_update (dc_replies c), add dc_UDP_update (dc_UDP c),
            add dc_TCP_update (dc_TCP c), add dc_IPv4_update (dc_IPv4 c), add dc_IPv6_update (dc_IPv6 c),
            add dc_NX_update (dc_NX c), add dc_REFUSED_update (dc_REFUSED c), add dc_SRVFAIL_update (dc_SRVFAIL c),
            add dc_RNOERROR_update (dc_RNOERROR c), add dc_NODATA_update (dc_NODATA c), add dc_total_update (dc_total c),
            add dc_filtered_update (dc_filtered c)]
        @ only_if (group_enabled g Dns_Transactions)
           ([add dc_xacts_total_update (dc_xacts_total c), add dc_xacts_in_update (dc_xacts_in c),
             add dc_xacts_out_update (dc_xacts_out c), add dc_xacts_timed_out_update (dc_xacts_timed_out c)]
            @ only_if (group_enabled g Dns_Quantiles)
               [ds_xactFromTimeUs_update (quantile_merge (sk_quantile sk) agg (ds_xactFromTimeUs other)),
                ds_xactToTimeUs_update (quantile_merge (sk_quantile sk) agg (ds_xactToTimeUs other)),
                ds_xactRatio_update (quantile_merge (sk_ratio sk) agg (ds_xactRatio other))]
            @ only_if (group_enabled g Dns_Histograms)
               [ds_xactFromHistTimeUs_update (histogram_merge (sk_quantile sk) (ds_xactFromHistTimeUs other)),
                ds_xactToHistTimeUs_update (histogram_merge (sk_quantile sk) (ds_xactToHistTimeUs other))]
            @ [top ds_slowXactIn_update (ds_slowXactIn other), top ds_slowXactOut_update (ds_slowXactOut other)])
        @ only_if (group_enabled g Dns_Cardinality)
           [ds_qnameCard_update (cardinality_merge (sk_distinct sk) (ds_qnameCard other))]
        @ only_if (group_enabled g Dns_TopEcs)
           (only_if (group_enabled g Dns_Counters) [add dc_queryECS_update (dc_queryECS c)]
            @ [top ds_topGeoLocECS_update (ds_topGeoLocECS other), top ds_topASNECS_update (ds_topASNECS other),
               top ds_topQueryECS_update (ds_topQueryECS other)])
        @ only_if (group_enabled g Dns_TopQnames)
           ([top ds_topQname2_update (ds_topQname2 other), top ds_topQname3_update (ds_topQname3 other),
             top ds_topNX_update (ds_topNX other), top ds_topREFUSED_update (ds_topREFUSED other),
             top ds_topSRVFAIL_update (ds_topSRVFAIL other), top ds_topNODATA_update (ds_topNODATA other)]
            @ only_if (group_enabled g Dns_TopQnamesDetails)
               [top ds_topSizedQnameResp_update (ds_topSizedQnameResp other), top ds_topNOERROR_update (ds_topNOERROR other)])
        @ only_if (group_enabled g Dns_TopPorts) [top ds_topUDPPort_update (ds_topUDPPort other)]
        @ [top ds_topQType_update (ds_topQType other), top ds_topRCode_update (ds_topRCode other)]))"

subsection \<open>Output\<close>

definition dns_to_prometheus ::
  "('r, 'q, 'f, 'c, 'd) dns_sketches \<Rightarrow> label_map \<Rightarrow> label_map \<Rightarrow> ('r, ('r, 'q, 'f, 'c, 'd) dns_bucket) bucket
     \<Rightarrow> serializer \<Rightarrow> serializer" where
  "dns_to_prometheus sk static labels b =
     (let s = b_spec b; c = ds_counters s; g = the (b_groups b);
          rate = rate_to_prometheus (sk_rate sk) int_str static labels;
          cnt = counter_to_prometheus static labels;
          top = (\<lambda>text. topn_to_prometheus (sk_quantile sk) (sk_items sk) text static labels);
          quant = quantile_to_prometheus (sk_quantile sk) u64_str static labels;
          hist = histogram_to_prometheus (sk_quantile sk) (hist_bounds sk) u64_str (product_text sk) static labels in
      in_order
       ([rate (ds_rate_total s), rate (b_rate b), cnt (event_counter dns_num_events_info (b_num_events b)),
         cnt (event_counter dns_num_samples_info (b_num_samples b))]
        @ only_if (group_enabled g Dns_Counters)
           [cnt (dc_queries c), cnt (dc_replies c), cnt (dc_TCP c), cnt (dc_UDP c), cnt (dc_IPv4 c), cnt (dc_IPv6 c),
            cnt (dc_NX c), cnt (dc_REFUSED c), cnt (dc_SRVFAIL c), cnt (dc_RNOERROR c), cnt (dc_NODATA c), cnt (dc_total c),
            cnt (dc_filtered c)]
        @ only_if (group_enabled g Dns_Cardinality)
           [cardinality_to_prometheus (sk_distinct sk) int_str static labels (ds_qnameCard s)]
        @ only_if (group_enabled g Dns_Transactions)
           ([cnt (dc_xacts_total c), cnt (dc_xacts_timed_out c), cnt (dc_xacts_in c), top item_text (ds_slowXactIn s)]
            @ only_if (group_enabled g Dns_Quantiles)
               [quant (ds_xactFromTimeUs s), quant (ds_xactToTimeUs s),
                quantile_to_prometheus (sk_ratio sk) (ratio_text sk) static labels (ds_xactRatio s)]
            @ only_if (group_enabled g Dns_Histograms) [hist (ds_xactFromHistTimeUs s), hist (ds_xactToHistTimeUs s)]
            @ [cnt (dc_xacts_out c), top item_text (ds_slowXactOut s)])
        @ only_if (group_enabled g Dns_TopPorts) [top item_text (ds_topUDPPort s)]
        @ only_if (group_enabled g Dns_TopEcs)
           (only_if (group_enabled g Dns_Counters) [cnt (dc_queryECS c)]
            @ [topn_to_prometheus_labels (sk_quantile sk) (sk_items sk) (\<lambda>key i. geo_labels key (item_place i)) static labels
                 (ds_topGeoLocECS s), top item_text (ds_topASNECS s), top item_text (ds_topQueryECS s)])
        @ only_if (group_enabled g Dns_TopQnames)
           ([top item_text (ds_topQname2 s), top item_text (ds_topQname3 s), top item_text (ds_topNX s),
             top item_text (ds_topREFUSED s), top item_text (ds_topSRVFAIL s), top item_text (ds_topNODATA s)]
            @ only_if (group_enabled g Dns_TopQnamesDetails)
               [top item_text (ds_topSizedQnameResp s), top item_text (ds_topNOERROR s)])
        @ [top (code_name RCodeNames) (ds_topRCode s), top (code_name QTypeNames) (ds_topQType s)]))"

text \<open>The values of OTLP are doubles: here a scope holds the numbers of all kinds of quantiles as reals.\<close>

definition as_reals :: "('a \<Rightarrow> real) \<Rightarrow> ('a scope_metrics \<Rightarrow> 'a scope_metrics) \<Rightarrow> real scope_metrics \<Rightarrow> real scope_metrics" where
  "as_reals f out scope = scope @ map (otel_map f) (out [])"

definition dns_to_opentelemetry ::
  "('r, 'q, 'f, 'c, 'd) dns_sketches \<Rightarrow> timespec \<Rightarrow> timespec \<Rightarrow> label_map
     \<Rightarrow> ('r, ('r, 'q, 'f, 'c, 'd) dns_bucket) bucket \<Rightarrow> real scope_metrics \<Rightarrow> real scope_metrics" where
  "dns_to_opentelemetry sk start end_ts labels b =
     (let s = b_spec b; c = ds_counters s; g = the (b_groups b);
          rate = (\<lambda>r. as_reals of_int (rate_to_opentelemetry (sk_rate sk) start end_ts labels r));
          cnt = counter_to_opentelemetry start end_ts labels;
          top = (\<lambda>text. topn_to_opentelemetry (sk_quantile sk) (sk_items sk) text start end_ts labels);
          quant = (\<lambda>q. as_reals (\<lambda>v. real (unat v)) (quantile_to_opentelemetry (sk_quantile sk) start end_ts labels q));
          hist = (\<lambda>h. as_reals (\<lambda>v. real (unat v))
            (histogram_to_opentelemetry (sk_quantile sk) (hist_bounds sk) start end_ts labels h)) in
      in_order
       ([rate (ds_rate_total s), rate (b_rate b), cnt (event_counter dns_num_events_info (b_num_events b)),
         cnt (event_counter dns_num_samples_info (b_num_samples b))]
        @ only_if (group_enabled g Dns_Counters)
           [cnt (dc_queries c), cnt (dc_replies c), cnt (dc_TCP c), cnt (dc_UDP c), cnt (dc_IPv4 c), cnt (dc_IPv6 c),
            cnt (dc_NX c), cnt (dc_REFUSED c), cnt (dc_SRVFAIL c), cnt (dc_RNOERROR c), cnt (dc_NODATA c), cnt (dc_total c),
            cnt (dc_filtered c)]
        @ only_if (group_enabled g Dns_Cardinality)
           [cardinality_to_opentelemetry (sk_distinct sk) start end_ts labels (ds_qnameCard s)]
        @ only_if (group_enabled g Dns_Transactions)
           ([cnt (dc_xacts_total c), cnt (dc_xacts_timed_out c), cnt (dc_xacts_in c), top item_text (ds_slowXactIn s)]
            @ only_if (group_enabled g Dns_Quantiles)
               [quant (ds_xactFromTimeUs s), quant (ds_xactToTimeUs s),
                quantile_to_opentelemetry (sk_ratio sk) start end_ts labels (ds_xactRatio s)]
            @ only_if (group_enabled g Dns_Histograms) [hist (ds_xactFromHistTimeUs s), hist (ds_xactToHistTimeUs s)]
            @ [cnt (dc_xacts_out c), top item_text (ds_slowXactOut s)])
        @ only_if (group_enabled g Dns_TopPorts) [top item_text (ds_topUDPPort s)]
        @ only_if (group_enabled g Dns_TopEcs)
           (only_if (group_enabled g Dns_Counters) [cnt (dc_queryECS c)]
            @ [topn_to_opentelemetry_labels (sk_quantile sk) (sk_items sk) (\<lambda>key i. geo_labels key (item_place i))
                 start end_ts labels (ds_topGeoLocECS s), top item_text (ds_topASNECS s), top item_text (ds_topQueryECS s)])
        @ only_if (group_enabled g Dns_TopQnames)
           ([top item_text (ds_topQname2 s), top item_text (ds_topQname3 s), top item_text (ds_topNX s),
             top item_text (ds_topREFUSED s), top item_text (ds_topSRVFAIL s), top item_text (ds_topNODATA s)]
            @ only_if (group_enabled g Dns_TopQnamesDetails)
               [top item_text (ds_topSizedQnameResp s), top item_text (ds_topNOERROR s)])
        @ [top (code_name RCodeNames) (ds_topRCode s), top (code_name QTypeNames) (ds_topQType s)]))"

definition dns_class ::
  "('r, 'q, 'f, 'c, 'd) dns_sketches \<Rightarrow> label_map
     \<Rightarrow> (string \<Rightarrow> int \<Rightarrow> u32 \<Rightarrow> ('r, ('r, 'q, 'f, 'c, 'd) dns_bucket) bucket \<Rightarrow> 'j \<Rightarrow> 'j)
     \<Rightarrow> ('r, ('r, 'q, 'f, 'c, 'd) dns_bucket, real scope_metrics, 'j) bucket_class" where
  "dns_class sk static to_json =
     \<lparr>bc_kll = sk_rate sk, bc_event_rate_info = dns_event_rate_info, bc_new = new_dns_bucket sk,
      bc_specialized_merge = (\<lambda>agg groups. dns_merge sk agg (the groups)),
      bc_on_set_read_only = ds_rate_total_update rate_cancel, bc_update_topn_metrics = dns_update_topn,
      bc_to_json = to_json, bc_to_prometheus = dns_to_prometheus sk static, bc_to_opentelemetry = dns_to_opentelemetry sk\<rparr>"

subsection \<open>What a message does to a bucket\<close>

definition dns_inc ::
  "((counter \<Rightarrow> counter) \<Rightarrow> dns_counters \<Rightarrow> dns_counters) \<Rightarrow> ('r, 'q, 'f, 'c, 'd) dns_bucket \<Rightarrow> ('r, 'q, 'f, 'c, 'd) dns_bucket" where
  "dns_inc field = ds_counters_update (field counter_inc)"

definition dns_process_filtered :: "u64 \<Rightarrow> ('r, 'q, 'f, 'c, 'd) dns_bucket \<Rightarrow> ('r, 'q, 'f, 'c, 'd) dns_bucket" where
  "dns_process_filtered g = in_order (only_if (group_enabled g Dns_Counters) [dns_inc dc_filtered_update])"

definition count_transport ::
  "protocol \<Rightarrow> dns_protocol \<Rightarrow> (('r, 'q, 'f, 'c, 'd) dns_bucket \<Rightarrow> ('r, 'q, 'f, 'c, 'd) dns_bucket) list" where
  "count_transport l3 l4 =
     [dns_inc dc_total_update]
     @ (if l3 = P_IPv6 then [dns_inc dc_IPv6_update] else if l3 = P_IPv4 then [dns_inc dc_IPv4_update] else [])
     @ (case l4 of
          DNSTAP_UDP \<Rightarrow> [dns_inc dc_UDP_update] | PCPP_UDP \<Rightarrow> [dns_inc dc_UDP_update]
        | DNSTAP_TCP \<Rightarrow> [dns_inc dc_TCP_update] | PCPP_TCP \<Rightarrow> [dns_inc dc_TCP_update]
        | DNSTAP_DOT \<Rightarrow> [dns_inc dc_DOT_update] | DNSTAP_DOH \<Rightarrow> [dns_inc dc_DOH_update]
        | _ \<Rightarrow> [])"

text \<open>The second \<^verbatim>\<open>process_dns_layer\<close> of the source: a dnstap record without a message, or one that is not sampled.\<close>

definition process_dns_side ::
  "protocol \<Rightarrow> dns_protocol \<Rightarrow> bool \<Rightarrow> u64 \<Rightarrow> ('r, 'q, 'f, 'c, 'd) dns_bucket \<Rightarrow> ('r, 'q, 'f, 'c, 'd) dns_bucket" where
  "process_dns_side l3 l4 is_response g =
     in_order
      ([ds_rate_total_update rate_inc]
       @ only_if (group_enabled g Dns_Counters)
          (count_transport l3 l4 @ (if is_response then [dns_inc dc_replies_update] else [dns_inc dc_queries_update])))"

definition count_header :: "dns_header \<Rightarrow> (('r, 'q, 'f, 'c, 'd) dns_bucket \<Rightarrow> ('r, 'q, 'f, 'c, 'd) dns_bucket) list" where
  "count_header h =
     (if dh_response h then
        dns_inc dc_replies_update #
        (if dh_responseCode h = NoError then
           dns_inc dc_RNOERROR_update # only_if (dh_answers h = 0) [dns_inc dc_NODATA_update]
         else if dh_responseCode h = SrvFail then [dns_inc dc_SRVFAIL_update]
         else if dh_responseCode h = NXDomain then [dns_inc dc_NX_update]
         else if dh_responseCode h = Refused then [dns_inc dc_REFUSED_update]
         else [])
      else [dns_inc dc_queries_update])"

definition query_metrics ::
  "('r, 'q, 'f, 'c, 'd) dns_sketches \<Rightarrow> nat \<Rightarrow> u64 \<Rightarrow> dns_header \<Rightarrow> nat \<Rightarrow> string \<Rightarrow> u16
     \<Rightarrow> (('r, 'q, 'f, 'c, 'd) dns_bucket \<Rightarrow> ('r, 'q, 'f, 'c, 'd) dns_bucket) list" where
  "query_metrics sk suffix_size g h data_len name qtype =
     (let upd = (\<lambda>field i w. field (topn_update (sk_items sk) i w));
          details = only_if (group_enabled g Dns_TopQnamesDetails) in
      only_if (group_enabled g Dns_Cardinality) [ds_qnameCard_update (cardinality_update (sk_distinct sk) (Text name))]
      @ [upd ds_topQType_update (Num (ucast qtype)) 1]
      @ only_if (group_enabled g Dns_TopQnames)
         (only_if (dh_response h)
           ((if dh_responseCode h = SrvFail then [upd ds_topSRVFAIL_update (Text name) 1]
             else if dh_responseCode h = NXDomain then [upd ds_topNX_update (Text name) 1]
             else if dh_responseCode h = Refused then [upd ds_topREFUSED_update (Text name) 1]
             else if dh_responseCode h = NoError then
               details [upd ds_topNOERROR_update (Text name) 1] @ only_if (dh_answers h = 0) [upd ds_topNODATA_update (Text name) 1]
             else [])
            @ details [upd ds_topSizedQnameResp_update (Text name) (of_nat data_len)])
          @ (let (agg2, agg3) = aggregateDomain name suffix_size in
             upd ds_topQname2_update (Text agg2) 1 # only_if (agg3 \<noteq> []) [upd ds_topQname3_update (Text agg3) 1])))"

definition ecs_metrics ::
  "('r, 'q, 'f, 'c, 'd) dns_sketches \<Rightarrow> dns_libs \<Rightarrow> u64 \<Rightarrow> string
     \<Rightarrow> (('r, 'q, 'f, 'c, 'd) dns_bucket \<Rightarrow> ('r, 'q, 'f, 'c, 'd) dns_bucket) list" where
  "ecs_metrics sk libs g subnet =
     (let upd = (\<lambda>field i. field (topn_update (sk_items sk) i 1)) in
      only_if (group_enabled g Dns_Counters) [dns_inc dc_queryECS_update]
      @ [upd ds_topQueryECS_update (Text subnet)]
      @ only_if (city_enabled libs) [upd ds_topGeoLocECS_update (Place (city_loc_str libs subnet))]
      @ only_if (asn_enabled libs) [upd ds_topASNECS_update (Text (asn_text_str libs subnet))])"

text \<open>The last block: the client subnet of a query, for which the additional records are parsed if they are not yet.\<close>

definition process_ecs ::
  "('r, 'q, 'f, 'c, 'd) dns_sketches \<Rightarrow> dns_libs \<Rightarrow> u64 \<Rightarrow> dns_header \<Rightarrow> ('r, 'q, 'f, 'c, 'd) dns_bucket \<times> dns_layer
     \<Rightarrow> (('r, 'q, 'f, 'c, 'd) dns_bucket \<times> dns_layer) option" where
  "process_ecs sk libs g h = (\<lambda>(s, l).
     if \<not> group_enabled g Dns_TopEcs \<or> dh_response h \<or> dh_additionals h = 0 then Some (s, l)
     else
       do { l \<leftarrow> (case l_first_additional l of
                     Some _ \<Rightarrow> Some l
                   | None \<Rightarrow> map_option fst (parseResources False True True l));
            ecs \<leftarrow> ecs_of libs (l_data l) (l_first_additional l);
            Some (case ecs of
                    Some e \<Rightarrow> (in_order (only_if (e_client_subnet e \<noteq> []) (ecs_metrics sk libs g (e_client_subnet e))) s, l)
                  | None \<Rightarrow> (s, l)) })"

definition process_query ::
  "('r, 'q, 'f, 'c, 'd) dns_sketches \<Rightarrow> nat \<Rightarrow> u64 \<Rightarrow> dns_header \<Rightarrow> dns_layer \<Rightarrow> ('r, 'q, 'f, 'c, 'd) dns_bucket
     \<Rightarrow> ('r, 'q, 'f, 'c, 'd) dns_bucket option" where
  "process_query sk suffix_size g h l s =
     (case l_first_query l of
        None \<Rightarrow> Some s
      | Some q \<Rightarrow>
          map_option (\<lambda>qtype. in_order (query_metrics sk suffix_size g h (length (l_data l)) (getNameLower q) qtype) s)
            (getDnsType (l_data l) q))"

definition bucket_dns_layer ::
  "('r, 'q, 'f, 'c, 'd) dns_sketches \<Rightarrow> dns_libs \<Rightarrow> protocol \<Rightarrow> dns_protocol \<Rightarrow> u16 \<Rightarrow> nat \<Rightarrow> dns_layer \<Rightarrow> bool \<Rightarrow> u64
     \<Rightarrow> ('r, 'q, 'f, 'c, 'd) dns_bucket \<Rightarrow> (('r, 'q, 'f, 'c, 'd) dns_bucket \<times> dns_layer) option" where
  "bucket_dns_layer sk libs l3 l4 port suffix_size l deep g s =
     do { let s = ds_rate_total_update rate_inc s;
          s \<leftarrow> (if group_enabled g Dns_Counters
                then map_option (\<lambda>h. in_order (count_transport l3 l4 @ count_header h) s) (getDnsHeader l) else Some s);
          if \<not> deep then Some (s, l)
          else
            do { let s = in_order (only_if (port \<noteq> 0 \<and> group_enabled g Dns_TopPorts)
                   [ds_topUDPPort_update (topn_update (sk_items sk) (Num (ucast port)) 1)]) s;
                 (l, success) \<leftarrow> parseResources True False False l;
                 if \<not> success then Some (s, l)
                 else
                   do { h \<leftarrow> getDnsHeader l;
                        let s = in_order (only_if (dh_response h)
                          [ds_topRCode_update (topn_update (sk_items sk) (Num (ucast (dh_responseCode h))) 1)]) s;
                        s \<leftarrow> process_query sk suffix_size g h l s;
                        process_ecs sk libs g h (s, l) } } }"

text \<open>
  A dnstap record. The bucket is locked, and a record that is not sampled, or that carries no message, is
  counted by a call that locks it again: the lock is not recursive, and locking it twice is undefined.
  Before the other two calls it is released.
\<close>

record dns_dnstap = dnstap +
  dt_query_message :: "byte list option"
  dt_response_message :: "byte list option"
  dt_query_port :: "u32 option"

fun dnstap_is_response :: "dnstap_type \<Rightarrow> bool" where
  "dnstap_is_response FORWARDER_RESPONSE = True"
| "dnstap_is_response STUB_RESPONSE = True"
| "dnstap_is_response TOOL_RESPONSE = True"
| "dnstap_is_response UPDATE_RESPONSE = True"
| "dnstap_is_response CLIENT_RESPONSE = True"
| "dnstap_is_response AUTH_RESPONSE = True"
| "dnstap_is_response RESOLVER_RESPONSE = True"
| "dnstap_is_response _ = False"

definition with_lock :: "bool \<Rightarrow> ('s \<Rightarrow> 'a option) \<Rightarrow> 's \<Rightarrow> 'a option" where
  "with_lock held f s = (if held then None else f s)"

definition bucket_dnstap ::
  "('r, 'q, 'f, 'c, 'd) dns_sketches \<Rightarrow> dns_libs \<Rightarrow> dns_dnstap \<Rightarrow> bool \<Rightarrow> u64
     \<Rightarrow> ('r, 'q, 'f, 'c, 'd) dns_bucket \<Rightarrow> ('r, 'q, 'f, 'c, 'd) dns_bucket option" where
  "bucket_dnstap sk libs d deep g s =
     (let l3 = (case dt_socket_family d of Some INET6 \<Rightarrow> P_IPv6 | Some INET \<Rightarrow> P_IPv4 | None \<Rightarrow> P_Unknown);
          l4 = (case dt_socket_protocol d of Some p \<Rightarrow> dnstap_protocol p | None \<Rightarrow> PCPP_UNKNOWN);
          side = dnstap_is_response (dt_type d);
          port = (case dt_query_port d of Some p \<Rightarrow> ucast p | None \<Rightarrow> 0);
          msg = (if side then dt_response_message d else dt_query_message d) in
      if \<not> deep \<or> dt_query_message d = None \<and> dt_response_message d = None then
        with_lock True (\<lambda>s. Some (process_dns_side l3 l4 side g s)) s
      else
        case msg of
          None \<Rightarrow> Some s
        | Some bytes \<Rightarrow>
            map_option fst (with_lock False (bucket_dns_layer sk libs l3 l4 port 0 (new_layer bytes) deep g) s))"

record dns_xact = transaction +
  x_querySize :: nat

definition xact_time :: "dns_xact \<Rightarrow> u64" where
  "xact_time x = word_of_int (to_ns (totalTS x) sdiv 1000)"

definition new_dns_transaction ::
  "('r, 'q, 'f, 'c, 'd) dns_sketches \<Rightarrow> bool \<Rightarrow> nat \<Rightarrow> nat \<Rightarrow> dns_layer \<Rightarrow> direction \<Rightarrow> dns_xact \<Rightarrow> u64
     \<Rightarrow> ('r, 'q, 'f, 'c, 'd) dns_bucket \<Rightarrow> ('r, 'q, 'f, 'c, 'd) dns_bucket" where
  "new_dns_transaction sk deep to90th from90th l dir x g =
     (let time = xact_time x;
          slow = (\<lambda>limit. limit > 0 \<and> to_float time \<ge> limit) in
      in_order
       ([dns_inc dc_xacts_total_update]
        @ (case dir of
             ToHost \<Rightarrow>
               [dns_inc dc_xacts_out_update]
               @ only_if (deep \<and> group_enabled g Dns_Quantiles) [ds_xactFromTimeUs_update (quantile_update (sk_quantile sk) time)]
               @ only_if (deep \<and> group_enabled g Dns_Histograms) [ds_xactFromHistTimeUs_update (histogram_update (sk_quantile sk) time)]
           | FromHost \<Rightarrow>
               [dns_inc dc_xacts_in_update]
               @ only_if (deep \<and> group_enabled g Dns_Quantiles) [ds_xactToTimeUs_update (quantile_update (sk_quantile sk) time)]
               @ only_if (deep \<and> group_enabled g Dns_Histograms) [ds_xactToHistTimeUs_update (histogram_update (sk_quantile sk) time)]
           | UnknownDir \<Rightarrow> [])
        @ only_if deep
           (only_if (x_querySize x \<noteq> 0)
             [ds_xactRatio_update (quantile_update (sk_ratio sk) (real (length (l_data l)) / real (x_querySize x)))]
            @ (case l_first_query l of
                 None \<Rightarrow> []
               | Some q \<Rightarrow>
                   if dir = ToHost \<and> slow from90th then
                     [ds_slowXactOut_update (topn_update (sk_items sk) (Text (r_name q)) 1)]
                   else if dir = FromHost \<and> slow to90th then
                     [ds_slowXactIn_update (topn_update (sk_items sk) (Text (r_name q)) 1)]
                   else []))))"

definition inc_xact_timed_out :: "u64 \<Rightarrow> ('r, 'q, 'f, 'c, 'd) dns_bucket \<Rightarrow> ('r, 'q, 'f, 'c, 'd) dns_bucket" where
  "inc_xact_timed_out n = ds_counters_update (dc_xacts_timed_out_update (counter_add n))"

subsection \<open>The manager\<close>

type_synonym ('r, 'q, 'f, 'c, 'd, 'j) dns_bucket_class =
  "('r, ('r, 'q, 'f, 'c, 'd) dns_bucket, real scope_metrics, 'j) bucket_class"

record ('r, 'q, 'f, 'c, 'd, 'j) dns_manager =
  dn_metrics :: "('r, ('r, 'q, 'f, 'c, 'd) dns_bucket, 'j) manager"
  dn_xacts :: "(u32 \<times> u16, \<lparr>x_querySize :: nat\<rparr>) transaction_manager"
  dn_to90th :: nat
  dn_from90th :: nat

definition new_dns_manager ::
  "('r, ('r, 'q, 'f, 'c, 'd) dns_bucket, 'j) manager \<Rightarrow> ('r, 'q, 'f, 'c, 'd, 'j) dns_manager" where
  "new_dns_manager m = \<lparr>dn_metrics = m, dn_xacts = new_transaction_manager 5000, dn_to90th = 0, dn_from90th = 0\<rparr>"

definition dns_set_xact_ttl :: "u32 \<Rightarrow> ('r, 'q, 'f, 'c, 'd, 'j) dns_manager \<Rightarrow> ('r, 'q, 'f, 'c, 'd, 'j) dns_manager" where
  "dns_set_xact_ttl ttl m = m\<lparr>dn_xacts := new_transaction_manager (unat ttl)\<rparr>"

text \<open>
  \<^verbatim>\<open>on_period_shift\<close>, after the buckets have moved on: the live bucket is new, the one behind it has just
  been closed.
\<close>

definition dns_on_period_shift ::
  "('r, 'q, 'f, 'c, 'd) dns_sketches \<Rightarrow> timespec \<Rightarrow> ('r, 'q, 'f, 'c, 'd, 'j) dns_manager \<Rightarrow> ('r, 'q, 'f, 'c, 'd, 'j) dns_manager" where
  "dns_on_period_shift sk stamp m =
     (let (timed_out, xs) = purge_old_transactions stamp (dn_xacts m);
          mm = (if timed_out \<noteq> 0
                then on_live_bucket (\<lambda>_. inc_xact_timed_out (of_nat timed_out)) (dn_metrics m) else dn_metrics m);
          closed = b_spec (mm_buckets mm ! 1);
          p90 = (\<lambda>q old. if kll_get_n (sk_quantile sk) (q_sketch q) \<noteq> 0
                         then to_float (kll_get_quantile (sk_quantile sk) (q_sketch q) (90 / 100)) else old)
      in m\<lparr>dn_metrics := mm, dn_xacts := xs, dn_from90th := p90 (ds_xactFromTimeUs closed) (dn_from90th m),
           dn_to90th := p90 (ds_xactToTimeUs closed) (dn_to90th m)\<rparr>)"

text \<open>
  \<^verbatim>\<open>new_event\<close>. The shift comes before the event is counted in the live bucket; the two change different
  fields of it.
\<close>

definition dns_new_event ::
  "('r, 'q, 'f, 'c, 'd, 'j) dns_bucket_class \<Rightarrow> ('r, 'q, 'f, 'c, 'd) dns_sketches \<Rightarrow> timespec \<Rightarrow> timespec \<Rightarrow> bool
     \<Rightarrow> ('r, 'q, 'f, 'c, 'd, 'j) dns_manager \<Rightarrow> ('r, 'q, 'f, 'c, 'd, 'j) dns_manager" where
  "dns_new_event cls sk now stamp sample m =
     (let shift = will_shift stamp (dn_metrics m);
          m = m\<lparr>dn_metrics := fst (new_event cls now stamp sample (dn_metrics m))\<rparr>
      in if shift then dns_on_period_shift sk stamp m else m)"

definition dns_check_period_shift ::
  "('r, 'q, 'f, 'c, 'd, 'j) dns_bucket_class \<Rightarrow> ('r, 'q, 'f, 'c, 'd) dns_sketches \<Rightarrow> timespec \<Rightarrow> timespec
     \<Rightarrow> ('r, 'q, 'f, 'c, 'd, 'j) dns_manager \<Rightarrow> ('r, 'q, 'f, 'c, 'd, 'j) dns_manager" where
  "dns_check_period_shift cls sk now stamp m =
     (let shift = will_shift stamp (dn_metrics m);
          m = m\<lparr>dn_metrics := fst (check_period_shift cls now stamp (dn_metrics m))\<rparr>
      in if shift then dns_on_period_shift sk stamp m else m)"

definition dns_manager_filtered ::
  "('r, 'q, 'f, 'c, 'd, 'j) dns_bucket_class \<Rightarrow> ('r, 'q, 'f, 'c, 'd) dns_sketches \<Rightarrow> timespec \<Rightarrow> timespec
     \<Rightarrow> ('r, 'q, 'f, 'c, 'd, 'j) dns_manager \<Rightarrow> ('r, 'q, 'f, 'c, 'd, 'j) dns_manager option" where
  "dns_manager_filtered cls sk now stamp m =
     (let m = dns_new_event cls sk now stamp False m in
      map_option (\<lambda>mm. m\<lparr>dn_metrics := mm\<rparr>) (on_live dns_process_filtered (dn_metrics m)))"

text \<open>Queries open a transaction, replies close one.\<close>

definition dns_transaction ::
  "('r, 'q, 'f, 'c, 'd) dns_sketches \<Rightarrow> direction \<Rightarrow> u32 \<Rightarrow> timespec \<Rightarrow> dns_header \<Rightarrow> dns_layer
     \<Rightarrow> ('r, 'q, 'f, 'c, 'd, 'j) dns_manager \<Rightarrow> ('r, 'q, 'f, 'c, 'd, 'j) dns_manager option" where
  "dns_transaction sk dir flowkey stamp h l m =
     (let key = (flowkey, dh_transactionID h) in
      if dh_response h then
        case maybe_end_transaction key stamp (dn_xacts m) of
          ((Valid, Some x), xs) \<Rightarrow>
            map_option (\<lambda>mm. m\<lparr>dn_xacts := xs, dn_metrics := mm\<rparr>)
              (on_live (new_dns_transaction sk (mm_deep_sampling_now (dn_metrics m)) (dn_to90th m) (dn_from90th m) l dir x) (dn_metrics m))
        | ((TimedOut, _), xs) \<Rightarrow>
            Some (m\<lparr>dn_xacts := xs, dn_metrics := on_live_bucket (\<lambda>_. inc_xact_timed_out 1) (dn_metrics m)\<rparr>)
        | (_, xs) \<Rightarrow> Some (m\<lparr>dn_xacts := xs\<rparr>)
      else
        Some (m\<lparr>dn_xacts := start_transaction key \<lparr>startTS = stamp, totalTS = ts 0 0, x_querySize = length (l_data l)\<rparr> (dn_xacts m)\<rparr>))"

definition process_dns_layer ::
  "('r, 'q, 'f, 'c, 'd, 'j) dns_bucket_class \<Rightarrow> ('r, 'q, 'f, 'c, 'd) dns_sketches \<Rightarrow> dns_libs \<Rightarrow> timespec \<Rightarrow> dns_layer \<Rightarrow> direction
     \<Rightarrow> protocol \<Rightarrow> protocol \<Rightarrow> u32 \<Rightarrow> u16 \<Rightarrow> nat \<Rightarrow> timespec \<Rightarrow> ('r, 'q, 'f, 'c, 'd, 'j) dns_manager
     \<Rightarrow> (('r, 'q, 'f, 'c, 'd, 'j) dns_manager \<times> dns_layer) option" where
  "process_dns_layer cls sk libs now l dir l3 l4 flowkey port suffix_size stamp m =
     do { let m = dns_new_event cls sk now stamp True m;
          (mm, l) \<leftarrow> live_step (bucket_dns_layer sk libs l3 (pcpp_to_protocol l4) port suffix_size l) (dn_metrics m);
          let m = m\<lparr>dn_metrics := mm\<rparr>;
          g \<leftarrow> mm_groups mm;
          if group_enabled g Dns_Transactions then
            do { h \<leftarrow> getDnsHeader l; m \<leftarrow> dns_transaction sk dir flowkey stamp h l m; Some (m, l) }
          else Some (m, l) }"

definition dns_manager_dnstap ::
  "('r, 'q, 'f, 'c, 'd, 'j) dns_bucket_class \<Rightarrow> ('r, 'q, 'f, 'c, 'd) dns_sketches \<Rightarrow> dns_libs \<Rightarrow> timespec \<Rightarrow> timespec
     \<Rightarrow> dns_dnstap \<Rightarrow> bool \<Rightarrow> ('r, 'q, 'f, 'c, 'd, 'j) dns_manager \<Rightarrow> ('r, 'q, 'f, 'c, 'd, 'j) dns_manager option" where
  "dns_manager_dnstap cls sk libs utc now d filtered m =
     do { stamp \<leftarrow> dnstap_stamp utc (dnstap.truncate d);
          if filtered then dns_manager_filtered cls sk now stamp m
          else
            do { let m = dns_new_event cls sk now stamp True m;
                 (mm, _) \<leftarrow> live_step (\<lambda>deep g s. map_option (\<lambda>s. (s, ())) (bucket_dnstap sk libs d deep g s)) (dn_metrics m);
                 Some (m\<lparr>dn_metrics := mm\<rparr>) } }"

subsection \<open>Counters\<close>

definition dns_balanced :: "('r, 'q, 'f, 'c, 'd) dns_bucket \<Rightarrow> bool" where
  "dns_balanced s \<longleftrightarrow>
     c_value (dc_queries (ds_counters s)) + c_value (dc_replies (ds_counters s)) = c_value (dc_total (ds_counters s))"

definition dns_tally :: "('r, 'q, 'f, 'c, 'd) dns_bucket \<Rightarrow> u64" where
  "dns_tally s = c_value (dc_total (ds_counters s)) + c_value (dc_filtered (ds_counters s))"

text \<open>The four counters the two are made of.\<close>

definition dns_basis :: "('r, 'q, 'f, 'c, 'd) dns_bucket \<Rightarrow> counter \<times> counter \<times> counter \<times> counter" where
  "dns_basis s =
     (dc_queries (ds_counters s), dc_replies (ds_counters s), dc_total (ds_counters s), dc_filtered (ds_counters s))"

lemma basis_decides: "dns_basis s = dns_basis t \<Longrightarrow> dns_balanced s = dns_balanced t \<and> dns_tally s = dns_tally t"
  by (simp add: dns_basis_def dns_balanced_def dns_tally_def)

lemma query_metrics_basis: "dns_basis (in_order (query_metrics sk n g h len name qtype) s) = dns_basis s"
  by (rule in_order_keeps) (simp add: query_metrics_def Let_def dns_basis_def case_prod_beta)

lemma ecs_metrics_basis: "dns_basis (in_order (ecs_metrics sk libs g subnet) s) = dns_basis s"
  by (rule in_order_keeps) (simp add: ecs_metrics_def Let_def dns_basis_def dns_inc_def)

lemma new_dns_transaction_basis: "dns_basis (new_dns_transaction sk deep a b l dir x g s) = dns_basis s"
  unfolding new_dns_transaction_def Let_def
  by (rule in_order_keeps) (simp add: dns_basis_def dns_inc_def split: direction.split option.split)

lemma timed_out_basis [simp]: "dns_basis (inc_xact_timed_out n s) = dns_basis s"
  by (simp add: inc_xact_timed_out_def dns_basis_def)

lemma count_transport_basis:
  "dns_basis (in_order (count_transport l3 l4) s) = dns_basis (dns_inc dc_total_update s)"
proof -
  have "count_transport l3 l4 = dns_inc dc_total_update # tl (count_transport l3 l4 :: (('a, 'b, 'c, 'd, 'e) dns_bucket \<Rightarrow> _) list)"
    by (simp add: count_transport_def)
  moreover have "dns_basis (in_order (tl (count_transport l3 l4)) t) = dns_basis t" for t :: "('a, 'b, 'c, 'd, 'e) dns_bucket"
    by (rule in_order_keeps) (simp add: count_transport_def dns_basis_def dns_inc_def split: dns_protocol.split)
  ultimately show ?thesis by (metis in_order_simps(2))
qed

lemma count_header_basis:
  "dns_basis (in_order (count_header h) s) = dns_basis (dns_inc (if dh_response h then dc_replies_update else dc_queries_update) s)"
proof -
  have "count_header h = dns_inc (if dh_response h then dc_replies_update else dc_queries_update)
      # tl (count_header h :: (('a, 'b, 'c, 'd, 'e) dns_bucket \<Rightarrow> _) list)"
    by (simp add: count_header_def)
  moreover have "dns_basis (in_order (tl (count_header h)) t) = dns_basis t" for t :: "('a, 'b, 'c, 'd, 'e) dns_bucket"
    by (rule in_order_keeps) (simp add: count_header_def dns_basis_def dns_inc_def)
  ultimately show ?thesis by (metis in_order_simps(2))
qed

lemma inc_basis:
  assumes "dns_basis s = dns_basis t"
  shows "dns_basis (dns_inc dc_replies_update s) = dns_basis (dns_inc dc_replies_update t)"
    "dns_basis (dns_inc dc_queries_update s) = dns_basis (dns_inc dc_queries_update t)"
    "dns_basis (dns_inc dc_total_update s) = dns_basis (dns_inc dc_total_update t)"
  using assms by (simp_all add: dns_basis_def dns_inc_def)

text \<open>One message more, and its side.\<close>

lemma counted_message:
  assumes "dns_basis t = dns_basis (dns_inc (if r then dc_replies_update else dc_queries_update) (dns_inc dc_total_update s))" "dns_balanced s"
  shows "dns_balanced t" "dns_tally t = dns_tally s + 1"
  using assms by (cases r; auto simp: dns_basis_def dns_inc_def dns_balanced_def dns_tally_def counter_inc_def add.assoc [symmetric];
      simp add: ac_simps)+

lemma filtered_message:
  assumes "group_enabled g Dns_Counters" "dns_balanced s"
  shows "dns_balanced (dns_process_filtered g s)" "dns_tally (dns_process_filtered g s) = dns_tally s + 1"
  using assms by (simp_all add: dns_process_filtered_def dns_inc_def dns_balanced_def dns_tally_def counter_inc_def)

lemma ecs_basis:
  assumes "process_ecs sk libs g h (s, l) = Some (s', l')"
  shows "dns_basis s' = dns_basis s"
proof -
  have "dns_basis (in_order (only_if c (ecs_metrics sk libs g sub)) s) = dns_basis s" for c sub
    by (simp add: only_if_def ecs_metrics_basis)
  then show ?thesis
    using assms by (auto simp: process_ecs_def Option.bind_eq_Some_conv split: option.splits if_splits)
qed

lemma process_query_basis: "process_query sk n g h l s = Some s' \<Longrightarrow> dns_basis s' = dns_basis s"
  by (auto simp: process_query_def query_metrics_basis split: option.splits)

lemma side_blocks_basis [simp]:
  "dns_basis (in_order (only_if c [ds_topUDPPort_update f]) s) = dns_basis s"
  "dns_basis (in_order (only_if c [ds_topRCode_update f]) s) = dns_basis s"
  "dns_basis (ds_rate_total_update r s) = dns_basis s"
  by (simp_all add: only_if_def dns_basis_def)

lemma counted_by_header:
  "dns_basis (in_order (count_transport l3 l4 @ count_header h) (ds_rate_total_update r s)) =
   dns_basis (dns_inc (if dh_response h then dc_replies_update else dc_queries_update) (dns_inc dc_total_update s))"
proof -
  let ?s = "ds_rate_total_update r s"
  have "dns_basis (in_order (count_transport l3 l4) ?s) = dns_basis (dns_inc dc_total_update ?s)"
    by (rule count_transport_basis)
  also have "\<dots> = dns_basis (dns_inc dc_total_update s)" by (rule inc_basis(3)) simp
  finally have "dns_basis (in_order (count_transport l3 l4) ?s) = dns_basis (dns_inc dc_total_update s)" .
  from inc_basis(1,2) [OF this] show ?thesis
    unfolding in_order_simps(3) count_header_basis by (cases "dh_response h") (simp_all only: if_True if_False)
qed

lemma bucket_dns_layer_counts:
  assumes "bucket_dns_layer sk libs l3 l4 port n l deep g s = Some (s', l')" "group_enabled g Dns_Counters" "dns_balanced s"
  shows "dns_balanced s' \<and> dns_tally s' = dns_tally s + 1"
proof -
  obtain h where h: "getDnsHeader l = Some h" using assms(1,2) by (auto simp: bucket_dns_layer_def Let_def Option.bind_eq_Some_conv)
  let ?s = "in_order (count_transport l3 l4 @ count_header h) (ds_rate_total_update rate_inc s)"
  have "dns_basis s' = dns_basis ?s"
  proof (cases deep)
    case False
    then show ?thesis using assms(1,2) h by (simp add: bucket_dns_layer_def Let_def)
  next
    case True
    let ?t = "in_order (only_if (port \<noteq> 0 \<and> group_enabled g Dns_TopPorts)
      [ds_topUDPPort_update (topn_update (sk_items sk) (Num (ucast port)) 1)]) ?s"
    obtain l1 ok where p: "parseResources True False False l = Some (l1, ok)"
      using assms(1,2) h True by (auto simp: bucket_dns_layer_def Let_def Option.bind_eq_Some_conv)
    show ?thesis
    proof (cases ok)
      case False
      then show ?thesis using assms(1,2) h True p by (auto simp: bucket_dns_layer_def Let_def)
    next
      case ok: True
      from assms(1,2) h True p ok obtain h1 s1 where
        q: "process_query sk n g h1 l1 (in_order (only_if (dh_response h1)
          [ds_topRCode_update (topn_update (sk_items sk) (Num (ucast (dh_responseCode h1))) 1)]) ?t) = Some s1"
        and e: "process_ecs sk libs g h1 (s1, l1) = Some (s', l')"
        by (auto simp: bucket_dns_layer_def Let_def Option.bind_eq_Some_conv)
      show ?thesis using process_query_basis [OF q] ecs_basis [OF e] by simp
    qed
  qed
  then have "dns_basis s' = dns_basis (dns_inc (if dh_response h then dc_replies_update else dc_queries_update) (dns_inc dc_total_update s))"
    using counted_by_header [of l3 l4 h rate_inc s] by simp
  then show ?thesis using counted_message assms(3) by blast
qed

lemma dns_update_topn_basis: "dns_basis (dns_update_topn n thr s) = dns_basis s"
  unfolding dns_update_topn_def by (rule until_throw_invariant) (auto simp: field_settings_def dns_basis_def)

lemma dns_merge_counts:
  assumes "group_enabled g Dns_Counters"
  shows "dns_basis (dns_merge sk agg g other s) =
    (counter_merge (dc_queries (ds_counters other)) (dc_queries (ds_counters s)),
     counter_merge (dc_replies (ds_counters other)) (dc_replies (ds_counters s)),
     counter_merge (dc_total (ds_counters other)) (dc_total (ds_counters s)),
     counter_merge (dc_filtered (ds_counters other)) (dc_filtered (ds_counters s)))"
  using assms by (simp add: dns_merge_def dns_basis_def Let_def only_if_def)

lemma new_dns_bucket_counts: "dns_balanced (new_dns_bucket sk) \<and> dns_tally (new_dns_bucket sk) = 0"
  by (simp add: new_dns_bucket_def new_dns_counters_def dns_counter_def new_counter_def dns_balanced_def dns_tally_def Let_def)

lemma dns_merge_ok:
  assumes "group_enabled g Dns_Counters" "dns_balanced s" "dns_balanced t"
  shows "dns_balanced (dns_merge sk agg g s t) \<and> dns_tally (dns_merge sk agg g s t) = dns_tally t + dns_tally s"
  using dns_merge_counts [OF assms(1), of sk agg s t] assms(2,3)
  by (auto simp: dns_basis_def dns_balanced_def dns_tally_def counter_merge_def) (simp_all add: ac_simps)

interpretation dns: tallied_bucket "dns_class sk static to_json" dns_balanced dns_tally
    "\<lambda>g. \<exists>w. g = Some w \<and> group_enabled w Dns_Counters" for sk static to_json
proof unfold_locales
  fix s :: "('a, 'b, 'c, 'd, 'e) dns_bucket" and n thr
  show "dns_balanced s \<Longrightarrow> dns_balanced (bc_update_topn_metrics (dns_class sk static to_json) n thr s)
      \<and> dns_tally (bc_update_topn_metrics (dns_class sk static to_json) n thr s) = dns_tally s"
    using basis_decides [OF dns_update_topn_basis [of n thr s]] by (simp add: dns_class_def)
  show "dns_balanced s \<Longrightarrow> dns_balanced (bc_on_set_read_only (dns_class sk static to_json) s)
      \<and> dns_tally (bc_on_set_read_only (dns_class sk static to_json) s) = dns_tally s"
    by (simp add: dns_class_def dns_balanced_def dns_tally_def)
qed (auto simp: dns_class_def new_dns_bucket_counts dns_merge_ok)

end
