(* ===== verification/DnsAccount.thy ===== *)
theory DnsAccount
  imports DnsBuckets
begin

text \<open>
  What the metrics of the DNS handler (\<^verbatim>\<open>DnsBuckets\<close>) are proved of: parsing stays inside a message that
  is readable, so that processing it is defined, and every step of the metrics manager keeps the
  account of its events.
\<close>

subsection \<open>Messages that are read to their end\<close>

text \<open>
  A message is readable if reading all its resources never reads a name that is cut off after a label,
  nor writes one past the buffer. Every other way to parse it then stays inside the message as
  well, and the resources it finds lie inside it.
\<close>

definition readable :: "byte list \<Rightarrow> bool" where
  "readable data \<longleftrightarrow> parseResources False False False (new_layer data) \<noteq> None"

definition fits :: "byte list \<Rightarrow> dns_resource \<Rightarrow> bool" where
  "fits data r \<longleftrightarrow> (case getSize data r of Some n \<Rightarrow> r_offset r + n \<le> length data | None \<Rightarrow> False)"

definition layer_ok :: "dns_layer \<Rightarrow> bool" where
  "layer_ok l \<longleftrightarrow> HDR \<le> length (l_data l) \<and> readable (l_data l) \<and> list_all (fits (l_data l)) (l_resources l)
     \<and> pred_option (fits (l_data l)) (l_first_query l) \<and> pred_option (fits (l_data l)) (l_first_answer l)
     \<and> pred_option (fits (l_data l)) (l_first_additional l)"

lemma new_layer_ok: "HDR \<le> length data \<Longrightarrow> readable data \<Longrightarrow> layer_ok (new_layer data)"
  by (simp add: layer_ok_def new_layer_def)

lemma getSize_defined: "\<exists>n. getSize data r = Some n \<and> n \<ge> r_name_len r + 4"
proof -
  have "\<exists>x. rd16 data i = Some x" if "\<not> i \<ge> length data - 1" for i
    using that by (simp add: rd16_def)
  then show ?thesis by (force simp: getSize_def getDataLength_def Let_def)
qed

lemma fits_type: "fits data r \<Longrightarrow> \<exists>ty. getDnsType data r = Some ty"
  using getSize_defined [of data r] by (auto simp: fits_def getDnsType_def rd16_def)

lemma read_all_step:
  assumes "parse_loop False False (Suc n) counts off c0 l0 \<noteq> None"
  shows "\<exists>r sz. new_resource (l_data l0) off (fst (next_type counts)) = Some r \<and> getSize (l_data l0) r = Some sz
    \<and> (off + sz \<le> length (l_data l0) \<longrightarrow>
        (\<exists>c1 l1. parse_loop False False n (snd (next_type counts)) (off + sz) c1 l1 \<noteq> None \<and> l_data l1 = l_data l0))"
proof -
  have nf: "\<not> snd (note_first False False r l)" "l_data (fst (note_first False False r l)) = l_data l" for r l
    by (simp_all add: note_first_def)
  have lk: "l_data (fst (link_resource r l c)) = l_data l" for r l c by (simp add: link_resource_def)
  obtain r where r: "new_resource (l_data l0) off (fst (next_type counts)) = Some r"
    using assms by (auto simp: case_prod_beta Let_def split: option.splits)
  obtain sz where sz: "getSize (l_data l0) r = Some sz" using getSize_defined by blast
  let ?l = "fst (note_first False False r (fst (link_resource r l0 c0)))"
  have "off + sz \<le> length (l_data l0) \<longrightarrow>
      parse_loop False False n (snd (next_type counts)) (off + sz) (snd (link_resource r l0 c0)) ?l \<noteq> None"
    using assms r sz nf(1) by (auto simp: case_prod_beta Let_def)
  then show ?thesis using r sz nf(2) lk by metis
qed

lemma parse_loop_defined:
  assumes "layer_ok l" "parse_loop False False n counts off c0 l0 \<noteq> None" "l_data l0 = l_data l"
  shows "\<exists>l' res. parse_loop qo ao n counts off cur l = Some (l', res) \<and> layer_ok l' \<and> l_data l' = l_data l"
  using assms
proof (induction n arbitrary: counts off c0 l0 cur l)
  case 0
  then show ?case by (intro exI [of _ l] exI [of _ True]) simp
next
  case (Suc n)
  let ?c = "snd (next_type counts)"
  obtain r sz where r: "new_resource (l_data l) off (fst (next_type counts)) = Some r" and sz: "getSize (l_data l) r = Some sz"
    and step: "off + sz \<le> length (l_data l) \<longrightarrow>
        (\<exists>c1 l1. parse_loop False False n ?c (off + sz) c1 l1 \<noteq> None \<and> l_data l1 = l_data l)"
    using read_all_step [OF Suc.prems(2)] Suc.prems(3) by metis
  show ?case
  proof (cases "off + sz > length (l_data l)")
    case True
    then show ?thesis using r sz Suc.prems(1) by (auto simp: case_prod_beta Let_def)
  next
    case False
    obtain l1 cur1 where link: "link_resource r l cur = (l1, cur1)" by (cases "link_resource r l cur")
    let ?l = "fst (note_first qo ao r l1)"
    have fit: "fits (l_data l) r" using False sz new_resource_fields [OF r] by (simp add: fits_def)
    have "list_all (fits (l_data l)) (take k (l_resources l))" for k
      using Suc.prems(1) unfolding layer_ok_def list_all_iff by (blast dest: in_set_takeD)
    then have "layer_ok l1" "l_data l1 = l_data l"
      using Suc.prems(1) link fit by (auto simp: link_resource_def layer_ok_def split: if_splits)
    then have ok: "layer_ok ?l" "l_data ?l = l_data l"
      using fit by (auto simp: note_first_def layer_ok_def)
    obtain l' res where "parse_loop qo ao n ?c (off + sz) cur1 ?l = Some (l', res)" "layer_ok l'" "l_data l' = l_data ?l"
      using Suc.IH [OF ok(1)] step False ok(2) by (metis not_less)
    then show ?thesis using r sz link False ok by (auto simp: case_prod_beta Let_def)
  qed
qed

lemma parseResources_defined:
  assumes "layer_ok l"
  shows "\<exists>l' res. parseResources qo ao force l = Some (l', res) \<and> layer_ok l' \<and> l_data l' = l_data l"
proof -
  have len: "HDR \<le> length (l_data l)" and all: "readable (l_data l)" using assms by (simp_all add: layer_ok_def)
  then obtain q a au ad where c: "header_counts (l_data l) = Some (q, a, au, ad)"
    by (auto simp: header_counts_def rd16_def HDR_def)
  let ?n = "q + a + au + ad"
  have flags: "layer_ok (l'\<lparr>l_parsed := p, l_result := res\<rparr>) = layer_ok l'" for l' p res by (simp add: layer_ok_def)
  show ?thesis
  proof (cases "?n > MAX_RESOURCES")
    case True
    then show ?thesis using c assms by (auto simp: parseResources_def Let_def flags)
  next
    case False
    have "parse_loop False False ?n (q, a, au, ad) HDR 0 (new_layer (l_data l)) \<noteq> None"
      using all c False by (auto simp: readable_def parseResources_def new_layer_def Let_def split: option.splits)
    from parse_loop_defined [OF assms this, of qo ao 0] obtain l' res
      where "parse_loop qo ao ?n (q, a, au, ad) HDR 0 l = Some (l', res)" "layer_ok l'" "l_data l' = l_data l"
      by (auto simp: new_layer_def)
    then show ?thesis using c assms False by (auto simp: parseResources_def Let_def flags)
  qed
qed

lemma getDnsHeader_defined: "layer_ok l \<Longrightarrow> \<exists>h. getDnsHeader l = Some h"
  by (simp add: layer_ok_def getDnsHeader_def Let_def)

lemma process_query_defined: "layer_ok l \<Longrightarrow> \<exists>s'. process_query sk n g h l s = Some s'"
  using fits_type [of "l_data l"] by (auto simp: process_query_def layer_ok_def split: option.split)

lemma bucket_dns_layer_defined:
  assumes "layer_ok l" "\<not> group_enabled g Dns_TopEcs"
  shows "\<exists>s' l'. bucket_dns_layer sk libs l3 l4 port n l deep g s = Some (s', l') \<and> layer_ok l' \<and> l_data l' = l_data l"
proof -
  obtain h where h: "getDnsHeader l = Some h" using getDnsHeader_defined [OF assms(1)] by blast
  obtain l1 ok where p: "parseResources True False False l = Some (l1, ok)" "layer_ok l1" "l_data l1 = l_data l"
    using parseResources_defined [OF assms(1)] by blast
  have h1: "getDnsHeader l1 = Some h" using h p(3) by (simp add: getDnsHeader_def)
  have e: "process_ecs sk libs g h (t, l1) = Some (t, l1)" for t using assms(2) by (simp add: process_ecs_def)
  have q: "\<exists>t'. process_query sk n g h l1 t = Some t'" for t by (rule process_query_defined [OF p(2)])
  show ?thesis
    using assms(1) p h
    by (cases deep; cases ok; cases "group_enabled g Dns_Counters")
      (auto simp: bucket_dns_layer_def Let_def h1 e Option.bind_eq_Some_conv intro: q)
qed

subsection \<open>The manager keeps account of its events\<close>

text \<open>
  Between the event of the base class and the update of the live bucket the live bucket lacks one in its
  tally. The steps in between, and those after the update, leave the four counters alone.
\<close>

definition lacks_one :: "u64 \<Rightarrow> ('r, ('r, 'q, 'f, 'c, 'd) dns_bucket, 'j) manager \<Rightarrow> bool" where
  "lacks_one g m \<longleftrightarrow> (case mm_buckets m of [] \<Rightarrow> False | b # bs \<Rightarrow>
     b_groups b = Some g \<and> dns_balanced (b_spec b) \<and> dns_tally (b_spec b) + 1 = b_num_events b
     \<and> list_all (accounted dns_balanced dns_tally (Some g)) bs \<and> mm_groups m = Some g)"

abbreviation dns_tallied where "dns_tallied g \<equiv> tallied dns_balanced dns_tally (Some g)"

lemma dns_on_live_bucket_keeps:
  assumes "\<And>deep s. dns_basis (f deep s) = dns_basis s"
  shows "lacks_one g m \<Longrightarrow> lacks_one g (on_live_bucket f m)" "dns_tallied g m \<Longrightarrow> dns_tallied g (on_live_bucket f m)"
  using basis_decides [OF assms]
  by (cases "mm_buckets m"; simp add: lacks_one_def on_live_bucket_def upd_front_def tallied_def accounted_def)+

lemma dns_on_live_keeps:
  assumes "\<And>g s. dns_basis (f g s) = dns_basis s" "dns_tallied g m"
  shows "\<exists>m'. on_live f m = Some m' \<and> dns_tallied g m'"
  using basis_decides [OF assms(1)] assms(2)
  by (cases "mm_buckets m") (auto simp: on_live_def upd_front_def tallied_def accounted_def)

lemma timed_out_keeps:
  "lacks_one g m \<Longrightarrow> lacks_one g (on_live_bucket (\<lambda>_. inc_xact_timed_out n) m)"
  "dns_tallied g m \<Longrightarrow> dns_tallied g (on_live_bucket (\<lambda>_. inc_xact_timed_out n) m)"
  by (rule dns_on_live_bucket_keeps [OF timed_out_basis]; assumption)+

lemma dns_shift_keeps: "lacks_one g (dn_metrics m) \<Longrightarrow> lacks_one g (dn_metrics (dns_on_period_shift sk stamp m))"
  by (simp add: timed_out_keeps dns_on_period_shift_def Let_def case_prod_beta)

lemma dns_new_event_lacks_one:
  assumes "dns_tallied g (dn_metrics m)"
  shows "lacks_one g (dn_metrics (dns_new_event (dns_class sk static to_json) sk now stamp sample m))"
proof -
  have "lacks_one g (fst (new_event (dns_class sk static to_json) now stamp sample (dn_metrics m)))"
    using dns.tallied_new_event [OF assms, of sk static to_json now stamp sample] unfolding lacks_one_def by (auto split: list.split)
  then show ?thesis by (simp add: dns_new_event_def Let_def dns_shift_keeps)
qed

lemma live_step_tallied:
  assumes "lacks_one g m"
    "\<And>deep s. \<exists>s' x. f deep g s = Some (s', x) \<and> Q x"
    "\<And>deep s s' x. f deep g s = Some (s', x) \<Longrightarrow> dns_balanced s \<Longrightarrow> dns_balanced s' \<and> dns_tally s' = dns_tally s + 1"
  shows "\<exists>m' x. live_step f m = Some (m', x) \<and> Q x \<and> dns_tallied g m'"
proof -
  obtain b bs where b: "mm_buckets m = b # bs" using assms(1) by (auto simp: lacks_one_def split: list.splits)
  obtain s' x where f: "f (mm_deep_sampling_now m) g (b_spec b) = Some (s', x)" "Q x" using assms(2) by blast
  show ?thesis using assms(1) b f assms(3) [OF f(1)]
    by (auto simp: live_step_def lacks_one_def upd_front_def tallied_def accounted_def)
qed

lemma dns_filtered_tallied:
  assumes "dns_tallied g (dn_metrics m)" "group_enabled g Dns_Counters"
  shows "\<exists>m'. dns_manager_filtered (dns_class sk static to_json) sk now stamp m = Some m' \<and> dns_tallied g (dn_metrics m')"
proof -
  let ?m = "dn_metrics (dns_new_event (dns_class sk static to_json) sk now stamp False m)"
  have "lacks_one g ?m" by (rule dns_new_event_lacks_one [OF assms(1)])
  then obtain b bs where "mm_buckets ?m = b # bs" by (auto simp: lacks_one_def split: list.splits)
  then have "\<exists>mm. on_live dns_process_filtered ?m = Some mm \<and> dns_tallied g mm"
    using \<open>lacks_one g ?m\<close> filtered_message [OF assms(2), of "b_spec b"]
    by (auto simp: on_live_def lacks_one_def upd_front_def tallied_def accounted_def)
  then show ?thesis by (auto simp: dns_manager_filtered_def Let_def)
qed

lemma dns_transaction_tallied:
  assumes "dns_tallied g (dn_metrics m)"
  shows "\<exists>m'. dns_transaction sk dir k stamp h l m = Some m' \<and> dns_tallied g (dn_metrics m')"
proof (cases "dh_response h")
  case True
  let ?e = "maybe_end_transaction (k, dh_transactionID h) stamp (dn_xacts m)"
  obtain r x xs where e: "?e = ((r, x), xs)" by (metis surj_pair)
  have live: "\<exists>mm. on_live (new_dns_transaction sk deep a b l dir y) (dn_metrics m) = Some mm \<and> dns_tallied g mm" for deep a b y
    by (rule dns_on_live_keeps [OF new_dns_transaction_basis assms])
  show ?thesis
    using live assms timed_out_keeps(2) [OF assms] True e
    by (cases r; cases x) (fastforce simp: dns_transaction_def Let_def)+
qed (simp add: dns_transaction_def Let_def assms)

lemma process_dns_layer_tallied:
  assumes "dns_tallied g (dn_metrics m)" "layer_ok l" "group_enabled g Dns_Counters" "\<not> group_enabled g Dns_TopEcs"
  shows "\<exists>m' l'. process_dns_layer (dns_class sk static to_json) sk libs now l dir l3 l4 k port n stamp m = Some (m', l')
    \<and> dns_tallied g (dn_metrics m') \<and> layer_ok l' \<and> l_data l' = l_data l"
proof -
  let ?m = "dns_new_event (dns_class sk static to_json) sk now stamp True m"
  let ?f = "bucket_dns_layer sk libs l3 (pcpp_to_protocol l4) port n l"
  have "\<exists>mm l'. live_step ?f (dn_metrics ?m) = Some (mm, l') \<and> (layer_ok l' \<and> l_data l' = l_data l) \<and> dns_tallied g mm"
    by (rule live_step_tallied [OF dns_new_event_lacks_one [OF assms(1)]])
      (use bucket_dns_layer_defined [OF assms(2,4)] bucket_dns_layer_counts [OF _ assms(3)] in blast)+
  then obtain mm l' where step: "live_step ?f (dn_metrics ?m) = Some (mm, l')" "layer_ok l'" "l_data l' = l_data l" "dns_tallied g mm"
    by blast
  obtain h where h: "getDnsHeader l' = Some h" using getDnsHeader_defined [OF step(2)] by blast
  obtain m' where "dns_transaction sk dir k stamp h l' (?m\<lparr>dn_metrics := mm\<rparr>) = Some m'" "dns_tallied g (dn_metrics m')"
    using dns_transaction_tallied [of g "?m\<lparr>dn_metrics := mm\<rparr>" sk dir k stamp h l'] step(4) by auto
  moreover have "mm_groups mm = Some g" using step(4) by (simp add: tallied_def)
  ultimately show ?thesis using step h by (auto simp: process_dns_layer_def Let_def)
qed

end
