(* ===== verification/DnsTcp.thy ===== *)
theory DnsTcp
  imports Handlers
begin

text \<open>
  DNS over TCP (\<^verbatim>\<open>DnsTcpSessionData\<close> of \<^verbatim>\<open>src/src/handlers/dns/v1/DnsStreamHandler\<close>): a side of a
  connection is a stream of messages, each behind its length in two bytes. The session keeps what it has
  received in a buffer and takes whole messages off its front. Data whose first length is too short for
  a query is not DNS: the session then drops its buffer and ignores what follows.
\<close>

definition MIN_DNS_QUERY_SIZE :: nat where
  "MIN_DNS_QUERY_SIZE = 17"

definition frame_size :: "byte list \<Rightarrow> nat" where
  "frame_size buf = unat (be16 (buf ! 0) (buf ! 1))"

text \<open>The loop over the buffer: the messages it hands on, the buffer and the mark it leaves.\<close>

function receive_loop :: "byte list \<Rightarrow> byte list list \<times> byte list \<times> bool" where
  "receive_loop buf =
     (if length buf < MIN_DNS_QUERY_SIZE + 2 then ([], buf, False)
      else
        let n = frame_size buf in
        if n < MIN_DNS_QUERY_SIZE then ([], [], True)
        else if length buf \<ge> 2 + n then
          (case receive_loop (drop (2 + n) buf) of (ms, rest) \<Rightarrow> (take n (drop 2 buf) # ms, rest))
        else ([], buf, False))"
  by pat_completeness auto
termination
  by (relation "measure length") (auto simp: MIN_DNS_QUERY_SIZE_def)

declare receive_loop.simps [simp del]

definition receive_tcp_data :: "byte list \<Rightarrow> 'e tcp_session \<Rightarrow> byte list list \<times> 'e tcp_session" where
  "receive_tcp_data data s =
     (if ses_invalid s then ([], s)
      else
        case receive_loop (ses_buffer s @ data) of
          (ms, buf, invalid) \<Rightarrow> (ms, s\<lparr>ses_buffer := buf, ses_invalid := invalid\<rparr>))"

text \<open>The reads of a side, one after the other.\<close>

fun receive_all :: "byte list list \<Rightarrow> 'e tcp_session \<Rightarrow> byte list list \<times> 'e tcp_session" where
  "receive_all [] s = ([], s)"
| "receive_all (d # ds) s =
     (case receive_tcp_data d s of (ms, s) \<Rightarrow> (case receive_all ds s of (ms', s) \<Rightarrow> (ms @ ms', s)))"

text \<open>A message as a sender writes it.\<close>

definition frame :: "byte list \<Rightarrow> byte list" where
  "frame msg = word_of_nat (length msg div 256) # word_of_nat (length msg mod 256) # msg"

definition sendable :: "byte list \<Rightarrow> bool" where
  "sendable msg \<longleftrightarrow> MIN_DNS_QUERY_SIZE \<le> length msg \<and> length msg < 2 ^ 16"

subsection \<open>How the stream was cut does not matter\<close>

lemma frame_size_append: "2 \<le> length buf \<Longrightarrow> frame_size (buf @ added) = frame_size buf"
  by (auto simp: frame_size_def nth_append)

text \<open>What the loop leaves is where it goes on when data is added.\<close>

lemma receive_loop_append:
  "receive_loop buf = (ms, rest, invalid) \<Longrightarrow>
   receive_loop (buf @ added) =
     (if invalid then (ms, [], True) else case receive_loop (rest @ added) of (ms', r) \<Rightarrow> (ms @ ms', r))"
proof (induction buf arbitrary: ms rest rule: receive_loop.induct)
  case (1 buf)
  let ?n = "frame_size buf"
  consider (short) "length buf < MIN_DNS_QUERY_SIZE + 2" | (bad) "length buf \<ge> MIN_DNS_QUERY_SIZE + 2" "?n < MIN_DNS_QUERY_SIZE"
    | (part) "length buf \<ge> MIN_DNS_QUERY_SIZE + 2" "?n \<ge> MIN_DNS_QUERY_SIZE" "length buf < 2 + ?n"
    | (whole) "length buf \<ge> MIN_DNS_QUERY_SIZE + 2" "?n \<ge> MIN_DNS_QUERY_SIZE" "length buf \<ge> 2 + ?n"
    by linarith
  then show ?case
  proof cases
    case whole
    obtain ms1 where d: "receive_loop (drop (2 + ?n) buf) = (ms1, rest, invalid)" and ms: "ms = take ?n (drop 2 buf) # ms1"
      using 1(2) whole by (subst (asm) receive_loop.simps) (auto simp: Let_def split: prod.splits)
    have "receive_loop (buf @ added) =
        (case receive_loop (drop (2 + ?n) buf @ added) of (ms', r) \<Rightarrow> (take ?n (drop 2 buf) # ms', r))"
      using whole by (subst receive_loop.simps) (simp add: Let_def frame_size_append)
    moreover have "receive_loop (drop (2 + ?n) buf @ added) =
        (if invalid then (ms1, [], True) else case receive_loop (rest @ added) of (ms', r) \<Rightarrow> (ms1 @ ms', r))"
      using 1(1) [OF _ refl _ _ d] whole by simp
    ultimately show ?thesis by (simp add: ms case_prod_beta)
  next
    case bad
    moreover have "receive_loop (buf @ added) = ([], [], True)"
      using bad by (subst receive_loop.simps) (simp add: Let_def frame_size_append)
    ultimately show ?thesis using 1(2) by (simp add: receive_loop.simps [of buf])
  qed (use 1(2) in \<open>auto simp: receive_loop.simps [of buf] Let_def split: prod.split\<close>)
qed

lemma receive_loop_invalid: "receive_loop buf = (ms, rest, True) \<Longrightarrow> rest = []"
proof (induction buf arbitrary: ms rule: receive_loop.induct)
  case (1 buf)
  show ?case
  proof (cases "length buf < MIN_DNS_QUERY_SIZE + 2 \<or> frame_size buf < MIN_DNS_QUERY_SIZE \<or> length buf < 2 + frame_size buf")
    case True
    then show ?thesis using 1(2) by (auto simp: receive_loop.simps [of buf] Let_def split: if_splits)
  next
    case False
    then obtain ms1 where "receive_loop (drop (2 + frame_size buf) buf) = (ms1, rest, True)"
      using 1(2) by (subst (asm) receive_loop.simps) (auto simp: Let_def split: prod.splits)
    then show ?thesis using 1(1) [OF _ refl] False by simp
  qed
qed

lemma receive_twice:
  "receive_all [d, e] s = receive_tcp_data (d @ e) s"
  by (auto simp: receive_tcp_data_def receive_loop_append [of "ses_buffer s @ d", simplified]
      dest: receive_loop_invalid split: prod.splits)

lemma receive_all_concat: "ds \<noteq> [] \<Longrightarrow> receive_all ds s = receive_tcp_data (concat ds) s"
proof (induction ds arbitrary: s rule: list_nonempty_induct)
  case (single d)
  then show ?case by (simp add: case_prod_beta)
next
  case (cons d ds)
  then show ?case using receive_twice [of d "concat ds" s] by (auto simp: case_prod_beta)
qed

text \<open>
  The messages a side delivers and the state it ends in depend on the bytes received alone, not on
  how TCP cut them into reads.
\<close>

theorem tcp_reads_do_not_matter:
  assumes "concat ds = concat es" "ds \<noteq> []" "es \<noteq> []"
  shows "receive_all ds s = receive_all es s"
  using assms by (simp add: receive_all_concat)

definition demo_dns_message :: "byte list" where
  "demo_dns_message = replicate 17 1"

theorem tcp_reads_do_not_matter_witness:
  "receive_all [take 5 (frame demo_dns_message), drop 5 (frame demo_dns_message)] (new_session ())
   = receive_all [frame demo_dns_message] (new_session ())"
  by (rule tcp_reads_do_not_matter) simp_all

subsection \<open>Nothing is lost\<close>

lemma frame_size_frame:
  assumes "sendable msg"
  shows "frame_size (frame msg @ added) = length msg"
proof -
  have "length msg div 256 < 256" using assms by (simp add: sendable_def less_mult_imp_div_less)
  then show ?thesis by (simp add: frame_size_def frame_def unat_be16 unat_of_nat)
qed

lemma frame_cut:
  assumes "2 \<le> length buf" "2 + frame_size buf \<le> length buf"
  shows "frame (take (frame_size buf) (drop 2 buf)) = take (2 + frame_size buf) buf"
proof -
  obtain a b rest where buf: "buf = a # b # rest" using assms(1) by (cases buf; cases "tl buf") auto
  have n: "frame_size buf = unat a * 256 + unat b" by (simp add: frame_size_def buf unat_be16)
  have "unat b < 256" using unsigned_less [of b] by simp
  then have "frame_size buf div 256 = unat a" "frame_size buf mod 256 = unat b" by (simp_all add: n)
  moreover have "length (take (frame_size buf) (drop 2 buf)) = frame_size buf" using assms(2) by simp
  ultimately show ?thesis by (simp add: frame_def buf del: length_take)
qed

lemma receive_loop_conserves:
  "receive_loop buf = (ms, rest, False) \<Longrightarrow>
   concat (map frame ms) @ rest = buf \<and> list_all sendable ms \<and> length rest < 2 + 2 ^ 16"
proof (induction buf arbitrary: ms rest rule: receive_loop.induct)
  case (1 buf)
  let ?n = "frame_size buf"
  have n: "?n < 2 ^ 16" using unsigned_less [of "be16 (buf ! 0) (buf ! 1)"] by (simp add: frame_size_def)
  show ?case
  proof (cases "MIN_DNS_QUERY_SIZE + 2 \<le> length buf \<and> MIN_DNS_QUERY_SIZE \<le> ?n \<and> 2 + ?n \<le> length buf")
    case True
    then obtain ms1 where d: "receive_loop (drop (2 + ?n) buf) = (ms1, rest, False)" and ms: "ms = take ?n (drop 2 buf) # ms1"
      using 1(2) by (subst (asm) receive_loop.simps) (auto simp: Let_def split: prod.splits)
    have "length (take ?n (drop 2 buf)) = ?n" using True by (auto simp: min_def)
    then have "sendable (take ?n (drop 2 buf))" using True n by (simp add: sendable_def del: length_take)
    moreover have "frame (take ?n (drop 2 buf)) = take (2 + ?n) buf" using True by (intro frame_cut) simp_all
    moreover have "concat (map frame ms1) @ rest = drop (2 + ?n) buf \<and> list_all sendable ms1 \<and> length rest < 2 + 2 ^ 16"
      using 1(1) [OF _ refl _ _ d] True by simp
    ultimately show ?thesis by (simp add: ms)
  next
    case False
    then show ?thesis using 1(2) n by (auto simp: receive_loop.simps [of buf] Let_def MIN_DNS_QUERY_SIZE_def split: if_splits)
  qed
qed

lemma receive_loop_frames:
  "list_all sendable msgs \<Longrightarrow> receive_loop (concat (map frame msgs)) = (msgs, [], False)"
proof (induction msgs)
  case Nil
  show ?case by (simp add: receive_loop.simps MIN_DNS_QUERY_SIZE_def)
next
  case (Cons m msgs)
  then have m: "sendable m" by simp
  have "receive_loop (frame m @ concat (map frame msgs)) =
      (case receive_loop (concat (map frame msgs)) of (ms, rest) \<Rightarrow> (m # ms, rest))"
    using m frame_size_frame [OF m] by (subst receive_loop.simps) (simp add: Let_def sendable_def frame_def)
  then show ?case using Cons by simp
qed

text \<open>
  C10: Messages that are written one after the other, each behind its length, come out as they were
  written, however the stream is cut, and leave an empty buffer.
\<close>

theorem tcp_frames_round_trip:
  assumes "list_all sendable msgs" "concat ds = concat (map frame msgs)" "ds \<noteq> []"
  shows "receive_all ds (new_session e) = (msgs, new_session e)"
  using assms by (simp add: receive_all_concat receive_tcp_data_def receive_loop_frames new_session_def)

theorem tcp_frames_round_trip_witness:
  "receive_all [take 5 (frame demo_dns_message), drop 5 (frame demo_dns_message) @ frame demo_dns_message] (new_session ())
   = ([demo_dns_message, demo_dns_message], new_session ())"
  by (rule tcp_frames_round_trip) (simp_all add: demo_dns_message_def sendable_def MIN_DNS_QUERY_SIZE_def)

text \<open>
  C37: As long as a side is taken for DNS, the messages it has delivered, with their lengths, and its
  buffer are the bytes it received, in order; the messages are of a valid size, and the buffer never
  holds as much as the largest message with its length and one byte more.
\<close>

theorem tcp_stream_kept:
  assumes "receive_all ds (new_session e) = (ms, s)" "\<not> ses_invalid s"
  shows "concat (map frame ms) @ ses_buffer s = concat ds \<and> list_all sendable ms \<and> length (ses_buffer s) < 2 + 2 ^ 16"
proof (cases "ds = []")
  case True
  then show ?thesis using assms by (auto simp: new_session_def)
next
  case False
  obtain buf where "receive_loop (concat ds) = (ms, buf, False)" "ses_buffer s = buf"
    using assms False by (auto simp: receive_all_concat receive_tcp_data_def new_session_def split: prod.splits)
  then show ?thesis using receive_loop_conserves by blast
qed

theorem tcp_stream_kept_witness:
  "(let (ms, s) = receive_all [frame demo_dns_message, [0, 9]] (new_session ()) in
      \<not> ses_invalid s \<and> length ms = 1 \<and> ses_buffer s = [0, 9]
      \<and> concat (map frame ms) @ ses_buffer s = frame demo_dns_message @ [0, 9] \<and> list_all sendable ms)"
proof -
  have "receive_all [frame demo_dns_message, [0, 9]] (new_session ()) = ([demo_dns_message], (new_session ())\<lparr>ses_buffer := [0, 9]\<rparr>)"
    by (simp add: receive_tcp_data_def new_session_def receive_loop.simps frame_def demo_dns_message_def frame_size_def
        MIN_DNS_QUERY_SIZE_def be16_def Let_def)
  from this tcp_stream_kept [OF this] show ?thesis by (simp add: new_session_def del: receive_all.simps)
qed

end
