(* ===== verification/DnsFilters.thy ===== *)
theory DnsFilters
  imports DnsAccount DnsTcp
begin

text \<open>
  The DNS handler up to its events (\<^verbatim>\<open>src/src/handlers/dns/v1/DnsStreamHandler\<close>): the table of UDP predicates
  of the proxy (\<^verbatim>\<open>PcapInputEventProxy\<close> of \<^verbatim>\<open>src/src/inputs/pcap/PcapInputStream.h\<close>), the state of a handler,
  starting it from its settings and stopping it, and the filters.
\<close>

subsection \<open>UDP predicates of the proxy\<close>

text \<open>
  A predicate is installed once for its key. It gives a jump key for a packet, and the callbacks that
  were connected under the jump key are run, in the order of their connection. A callback is known by
  the number of its connection.
\<close>

record ('p, 'c) udp_proxy =
  up_predicates :: "(string, 'p) omap"
  up_signals :: "(string \<times> (nat \<times> 'c) list) list"
  up_connections :: "(string, nat list) omap"
  up_next :: nat

definition new_udp_proxy :: "('p, 'c) udp_proxy" where
  "new_udp_proxy = \<lparr>up_predicates = [], up_signals = [], up_connections = [], up_next = 0\<rparr>"

definition or_empty :: "'a list option \<Rightarrow> 'a list" where
  "or_empty x = (case x of Some xs \<Rightarrow> xs | None \<Rightarrow> [])"

definition register_udp_predicate_signal ::
  "string \<Rightarrow> string \<Rightarrow> string \<Rightarrow> string \<Rightarrow> 'p \<Rightarrow> 'c \<Rightarrow> ('p, 'c) udp_proxy \<Rightarrow> ('p, 'c) udp_proxy" where
  "register_udp_predicate_signal schema_key handler_id predicate_key conditional_value predicate callback p =
     (let full_predicate_key = schema_key @ predicate_key;
          predicate_jump_key = full_predicate_key @ conditional_value
      in p\<lparr>up_predicates := omap_emplace full_predicate_key predicate (up_predicates p),
           up_signals := AList.update predicate_jump_key
             (or_empty (map_of (up_signals p) predicate_jump_key) @ [(up_next p, callback)]) (up_signals p),
           up_connections := omap_put handler_id (or_empty (map_of (up_connections p) handler_id) @ [up_next p]) (up_connections p),
           up_next := up_next p + 1\<rparr>)"

definition unregister_udp_predicate_signal :: "string \<Rightarrow> ('p, 'c) udp_proxy \<Rightarrow> ('p, 'c) udp_proxy" where
  "unregister_udp_predicate_signal handler_id p =
     p\<lparr>up_signals := map (\<lambda>(key, slots).
         (key, filter (\<lambda>(n, _). n \<notin> set (or_empty (map_of (up_connections p) handler_id))) slots)) (up_signals p)\<rparr>"

definition jump_slots :: "string \<Rightarrow> ('p, 'c) udp_proxy \<Rightarrow> 'c list" where
  "jump_slots key p = map snd (or_empty (map_of (up_signals p) key))"

text \<open>Steps that can be undefined and give outputs, one after the other.\<close>

fun run_steps :: "('c \<Rightarrow> 's \<Rightarrow> ('s \<times> 'o list) option) \<Rightarrow> 'c list \<Rightarrow> 's \<Rightarrow> ('s \<times> 'o list) option" where
  "run_steps f [] s = Some (s, [])"
| "run_steps f (c # cs) s =
     do { (s, out) \<leftarrow> f c s; (s, outs) \<leftarrow> run_steps f cs s; Some (s, out @ outs) }"

text \<open>
  \<^verbatim>\<open>process_udp_packet_cb\<close>, after the plain signal: each predicate is run on the packet and then the callbacks
  of the key it gives. \<open>predicate\<close> and \<open>callback\<close> act on the state of the handlers.
\<close>

definition run_udp_predicates ::
  "('p \<Rightarrow> 's \<Rightarrow> (string \<times> 's) option) \<Rightarrow> ('c \<Rightarrow> 's \<Rightarrow> ('s \<times> 'o list) option) \<Rightarrow> ('p, 'c) udp_proxy \<Rightarrow> 's
     \<Rightarrow> ('s \<times> 'o list) option" where
  "run_udp_predicates predicate callback p =
     run_steps (\<lambda>(key, pred) s. do { (jump, s) \<leftarrow> predicate pred s; run_steps callback (jump_slots jump p) s })
       (up_predicates p)"

subsection \<open>The state of a handler\<close>

datatype dns_filter =
    ExcludingRCode | OnlyRCode | OnlyQueries | OnlyResponses | OnlyQtype | AnswerCount | OnlyQName | OnlyQNameSuffix
  | OnlyDNSSECResponse | DnstapMsgType | GeoLocNotFound | AsnNotFound | FiltersMAX

datatype dns_predicate = Udp_RCode_Predicate | Udp_QName_Predicate

datatype dns_proxy = DP_Pcap | DP_Dnstap | DP_Mock | DP_Other string

datatype dns_signal =
    DS_Udp | DS_Tcp_Reassembled | DS_Start_Tstamp | DS_End_Tstamp | DS_Tcp_Start | DS_Tcp_End | DS_Tcp_Message
  | DS_Heartbeat | DS_Dnstap

record dns_filters =
  df_enabled :: "dns_filter list"
  df_public_suffix :: bool
  df_rcodes :: "u16 list"
  df_answer_count :: u64
  df_qnames_suffix :: "string list"
  df_qnames :: "string list"
  df_qtypes :: "u16 list"
  df_dnstap_types :: "dnstap_type list"

definition no_dns_filters :: dns_filters where
  "no_dns_filters =
     \<lparr>df_enabled = [], df_public_suffix = False, df_rcodes = [], df_answer_count = 0, df_qnames_suffix = [], df_qnames = [],
      df_qtypes = [], df_dnstap_types = []\<rparr>"

text \<open>
  The layer of the last UDP packet, kept by the thread for the handlers that look at the same packet. The layer
  points into its packet; \<open>ca_packet\<close> says which one that was. It starts with the key 0, the time 0 and no
  layer. The cache belongs to the thread; as a field of the handler it is that of a thread with one DNS handler.
\<close>

record dns_cache =
  ca_flowKey :: u32
  ca_timestamp :: timespec
  ca_packet :: nat
  ca_layer :: "dns_layer option"

definition new_dns_cache :: dns_cache where
  "new_dns_cache = \<lparr>ca_flowKey = 0, ca_timestamp = ts 0 0, ca_packet = 0, ca_layer = None\<rparr>"

text \<open>What the callback of a TCP session captures when the session is made.\<close>

record dns_captured =
  cp_conn :: tcp_connection
  cp_port :: u16
  cp_dir :: direction
  cp_l3 :: protocol
  cp_flowKey :: u32
  cp_stamp :: timespec

type_synonym dns_flows = "(u32 \<times> dns_captured tcp_flow) list"

record ('r, 'q, 'f, 'c, 'd, 'j) dns_handler =
  hn_base :: "('r, ('r, 'q, 'f, 'c, 'd) dns_bucket, 'j) stream_handler"
  hn_xacts :: "(u32 \<times> u16, \<lparr>x_querySize :: nat\<rparr>) transaction_manager"
  hn_to90th :: nat
  hn_from90th :: nat
  hn_proxy :: dns_proxy
  hn_event_proxy :: bool
  hn_running :: bool
  hn_connected :: "dns_signal list"
  hn_filters :: dns_filters
  hn_suffix :: nat
  hn_using_predicates :: bool
  hn_predicate_type :: dns_filter
  hn_udp :: "(dns_predicate, dns_filter) udp_proxy"
  hn_cache :: dns_cache
  hn_conns :: dns_flows

text \<open>The manager of a handler: the metrics of the base class and what the DNS manager adds to them.\<close>

definition dns_metrics :: "('r, 'q, 'f, 'c, 'd, 'j) dns_handler \<Rightarrow> ('r, 'q, 'f, 'c, 'd, 'j) dns_manager" where
  "dns_metrics h =
     \<lparr>dn_metrics = sh_metrics (hn_base h), dn_xacts = hn_xacts h, dn_to90th = hn_to90th h, dn_from90th = hn_from90th h\<rparr>"

definition set_dns_metrics ::
  "('r, 'q, 'f, 'c, 'd, 'j) dns_manager \<Rightarrow> ('r, 'q, 'f, 'c, 'd, 'j) dns_handler \<Rightarrow> ('r, 'q, 'f, 'c, 'd, 'j) dns_handler" where
  "set_dns_metrics m h =
     h\<lparr>hn_base := (hn_base h)\<lparr>sh_metrics := dn_metrics m\<rparr>, hn_xacts := dn_xacts m, hn_to90th := dn_to90th m,
       hn_from90th := dn_from90th m\<rparr>"

definition on_dns_base ::
  "(('r, ('r, 'q, 'f, 'c, 'd) dns_bucket, 'j) manager \<Rightarrow> ('r, ('r, 'q, 'f, 'c, 'd) dns_bucket, 'j) manager)
     \<Rightarrow> ('r, 'q, 'f, 'c, 'd, 'j) dns_handler \<Rightarrow> ('r, 'q, 'f, 'c, 'd, 'j) dns_handler" where
  "on_dns_base f h = h\<lparr>hn_base := (hn_base h)\<lparr>sh_metrics := f (sh_metrics (hn_base h))\<rparr>\<rparr>"

definition new_dns_handler ::
  "('r, ('r, 'q, 'f, 'c, 'd) dns_bucket, 'j) stream_handler \<Rightarrow> dns_proxy \<Rightarrow> bool
     \<Rightarrow> handler_error + ('r, 'q, 'f, 'c, 'd, 'j) dns_handler" where
  "new_dns_handler base proxy chained =
     (case proxy of
        DP_Other name \<Rightarrow> Inl (Handler_Exception (''DnsStreamHandler: unsupported input event proxy '' @ name))
      | _ \<Rightarrow>
          Inr \<lparr>hn_base = base, hn_xacts = new_transaction_manager 5000, hn_to90th = 0, hn_from90th = 0, hn_proxy = proxy,
               hn_event_proxy = chained, hn_running = False, hn_connected = [], hn_filters = no_dns_filters, hn_suffix = 0,
               hn_using_predicates = False, hn_predicate_type = FiltersMAX, hn_udp = new_udp_proxy, hn_cache = new_dns_cache,
               hn_conns = []\<rparr>)"

subsection \<open>Settings\<close>

definition dns_config_defs :: "string list" where
  "dns_config_defs =
     [''exclude_noerror'', ''only_rcode'', ''only_queries'', ''only_responses'', ''only_dnssec_response'', ''answer_count'',
      ''only_qtype'', ''only_qname'', ''only_qname_suffix'', ''geoloc_notfound'', ''asn_notfound'', ''dnstap_msg_type'',
      ''public_suffix_list'', ''recorded_stream'', ''xact_ttl_secs'', ''xact_ttl_ms'']"

definition dns_group_defs :: "(string \<times> nat) list" where
  "dns_group_defs =
     [(''cardinality'', Dns_Cardinality), (''counters'', Dns_Counters), (''quantiles'', Dns_Quantiles),
      (''histograms'', Dns_Histograms), (''dns_transaction'', Dns_Transactions), (''top_ecs'', Dns_TopEcs),
      (''top_qnames'', Dns_TopQnames), (''top_qnames_details'', Dns_TopQnamesDetails), (''top_ports'', Dns_TopPorts)]"

definition dnstap_map_types :: "(string \<times> dnstap_type \<times> dnstap_type) list" where
  "dnstap_map_types =
     [(''auth'', AUTH_QUERY, AUTH_RESPONSE), (''client'', CLIENT_QUERY, CLIENT_RESPONSE),
      (''forwarder'', FORWARDER_QUERY, FORWARDER_RESPONSE), (''resolver'', RESOLVER_QUERY, RESOLVER_RESPONSE),
      (''stub'', STUB_QUERY, STUB_RESPONSE), (''tool'', TOOL_QUERY, TOOL_RESPONSE), (''update'', UPDATE_QUERY, UPDATE_RESPONSE)]"

definition to_upper :: "char \<Rightarrow> char" where
  "to_upper c = (if CHR ''a'' \<le> c \<and> c \<le> CHR ''z'' then char_of (of_char c - (32 :: nat)) else c)"

text \<open>\<^verbatim>\<open>std::stoul\<close> on a text of digits; it throws for an empty text and for a number over 64 bits.\<close>

definition stoul :: "string \<Rightarrow> handler_error + u64" where
  "stoul s =
     (let n = foldl (\<lambda>n c. 10 * n + (uchar c - 48)) 0 s in
      if s = [] \<or> n \<ge> 2 ^ 64 then Inl (Std_Exception ''stoul'') else Inr (of_nat n))"

definition filters_upd ::
  "(dns_filters \<Rightarrow> dns_filters) \<Rightarrow> ('r, 'q, 'f, 'c, 'd, 'j) dns_handler \<Rightarrow> ('r, 'q, 'f, 'c, 'd, 'j) dns_handler" where
  "filters_upd f h = h\<lparr>hn_filters := f (hn_filters h)\<rparr>"

definition enable_filter ::
  "dns_filter \<Rightarrow> ('r, 'q, 'f, 'c, 'd, 'j) dns_handler \<Rightarrow> ('r, 'q, 'f, 'c, 'd, 'j) dns_handler" where
  "enable_filter x = filters_upd (df_enabled_update (List.insert x))"

definition register_predicate_filter ::
  "dns_filter \<Rightarrow> string \<Rightarrow> string \<Rightarrow> ('r, 'q, 'f, 'c, 'd, 'j) dns_handler \<Rightarrow> ('r, 'q, 'f, 'c, 'd, 'j) dns_handler" where
  "register_predicate_filter x f_key f_value h =
     (if hn_proxy h = DP_Pcap
      then h\<lparr>hn_udp := register_udp_predicate_signal DNS_SCHEMA (sh_name (hn_base h)) f_key f_value
               (if x = OnlyRCode then Udp_RCode_Predicate else Udp_QName_Predicate) x (hn_udp h),
             hn_using_predicates := True\<rparr>
      else h)"

definition add_rcode ::
  "u16 \<Rightarrow> string \<Rightarrow> ('r, 'q, 'f, 'c, 'd, 'j) dns_handler \<Rightarrow> ('r, 'q, 'f, 'c, 'd, 'j) dns_handler" where
  "add_rcode code f_value h =
     register_predicate_filter OnlyRCode ''only_rcode'' f_value (filters_upd (df_rcodes_update (\<lambda>cs. cs @ [code])) h)"

fun add_rcodes ::
  "string list \<Rightarrow> ('r, 'q, 'f, 'c, 'd, 'j) dns_handler \<Rightarrow> handler_error + ('r, 'q, 'f, 'c, 'd, 'j) dns_handler" where
  "add_rcodes [] h = Inr h"
| "add_rcodes (r # rs) h =
     (if list_all is_digit r then
        sum_bind (stoul r) (\<lambda>v.
          if map_of RCodeNames (ucast v) = None
          then Inl (Config_Exception (''DnsStreamHandler: only_rcode filter contained an invalid/unsupported rcode: '' @ u64_str v))
          else add_rcodes rs (add_rcode (ucast v) r h))
      else
        case map_of RCodeNumbers (map to_upper r) of
          Some v \<Rightarrow> add_rcodes rs (add_rcode v (u64_str (ucast v)) h)
        | None \<Rightarrow> Inl (Config_Exception (''DnsStreamHandler: only_rcode filter contained an invalid/unsupported rcode: '' @ r)))"

text \<open>An empty list of codes is taken for the code 0.\<close>

definition setup_rcode ::
  "conf \<Rightarrow> ('r, 'q, 'f, 'c, 'd, 'j) dns_handler \<Rightarrow> handler_error + ('r, 'q, 'f, 'c, 'd, 'j) dns_handler" where
  "setup_rcode c h =
     sum_bind (config_flag c ''exclude_noerror'') (\<lambda>exclude.
       if exclude then Inr (filters_upd (df_rcodes_update (\<lambda>cs. cs @ [NoError])) (enable_filter ExcludingRCode h))
       else if config_exists c ''only_rcode'' then
         let h = enable_filter OnlyRCode h;
             single = (\<lambda>want_code :: u64.
               if map_of RCodeNames (ucast want_code) \<noteq> None then Inr (add_rcode (ucast want_code) (u64_str want_code) h)
               else Inl (Config_Exception ''DnsStreamHandler: only_rcode filter contained an invalid/unsupported rcode'')) in
         (case config_get sel_uint c ''only_rcode'' of
            Inr want_code \<Rightarrow> single want_code
          | Inl _ \<Rightarrow>
              (case config_get sel_list c ''only_rcode'' of
                 Inl _ \<Rightarrow> Inl (Config_Exception ''DnsStreamHandler: wrong value type for only_rcode filter. It should be an integer or an array'')
               | Inr rcodes \<Rightarrow> if rcodes = [] then single 0 else add_rcodes rcodes h))
       else Inr h)"

definition setup_flag ::
  "string \<Rightarrow> dns_filter \<Rightarrow> conf \<Rightarrow> ('r, 'q, 'f, 'c, 'd, 'j) dns_handler \<Rightarrow> handler_error + ('r, 'q, 'f, 'c, 'd, 'j) dns_handler" where
  "setup_flag key x c h = sum_bind (config_flag c key) (\<lambda>b. Inr (if b then enable_filter x h else h))"

definition setup_answer_count ::
  "conf \<Rightarrow> ('r, 'q, 'f, 'c, 'd, 'j) dns_handler \<Rightarrow> handler_error + ('r, 'q, 'f, 'c, 'd, 'j) dns_handler" where
  "setup_answer_count c h =
     (if config_exists c ''answer_count'' then
        case config_get sel_uint c ''answer_count'' of
          Inr n \<Rightarrow> Inr (enable_filter AnswerCount (filters_upd (df_answer_count_update (\<lambda>_. n)) h))
        | Inl _ \<Rightarrow> Inl (Config_Exception ''DnsStreamHandler: wrong value type for answer_count filter. It should be an integer'')
      else Inr h)"

fun add_qtypes ::
  "string list \<Rightarrow> ('r, 'q, 'f, 'c, 'd, 'j) dns_handler \<Rightarrow> handler_error + ('r, 'q, 'f, 'c, 'd, 'j) dns_handler" where
  "add_qtypes [] h = Inr h"
| "add_qtypes (q # qs) h =
     (let push = (\<lambda>n. filters_upd (df_qtypes_update (\<lambda>ts. ts @ [n])) h) in
      if list_all is_digit q then
        sum_bind (stoul q) (\<lambda>v.
          if map_of QTypeNames (ucast v) = None
          then Inl (Config_Exception (''DnsStreamHandler: only_qtype filter contained an invalid/unsupported qtype: '' @ u64_str v))
          else add_qtypes qs (push (ucast v)))
      else
        case map_of QTypeNumbers (map to_upper q) of
          Some v \<Rightarrow> add_qtypes qs (push v)
        | None \<Rightarrow> Inl (Config_Exception (''DnsStreamHandler: only_qtype filter contained an invalid/unsupported qtype: '' @ q)))"

text \<open>A setting that is a list of texts.\<close>

definition with_texts :: "conf \<Rightarrow> string \<Rightarrow> (string list \<Rightarrow> 'h \<Rightarrow> handler_error + 'h) \<Rightarrow> 'h \<Rightarrow> handler_error + 'h" where
  "with_texts c key f h =
     (if config_exists c key then
        case config_get sel_list c key of Inl e \<Rightarrow> Inl (Settings (Setting e)) | Inr xs \<Rightarrow> f xs h
      else Inr h)"

definition setup_qtype ::
  "conf \<Rightarrow> ('r, 'q, 'f, 'c, 'd, 'j) dns_handler \<Rightarrow> handler_error + ('r, 'q, 'f, 'c, 'd, 'j) dns_handler" where
  "setup_qtype c = with_texts c ''only_qtype'' (\<lambda>qs h. add_qtypes qs (enable_filter OnlyQtype h))"

definition add_qname ::
  "string \<Rightarrow> ('r, 'q, 'f, 'c, 'd, 'j) dns_handler \<Rightarrow> ('r, 'q, 'f, 'c, 'd, 'j) dns_handler" where
  "add_qname qname h =
     (let qname_ci = map to_lower qname in
      register_predicate_filter OnlyQName ''only_qname'' qname_ci (filters_upd (df_qnames_update (\<lambda>qs. qs @ [qname_ci])) h))"

definition setup_qname ::
  "conf \<Rightarrow> ('r, 'q, 'f, 'c, 'd, 'j) dns_handler \<Rightarrow> handler_error + ('r, 'q, 'f, 'c, 'd, 'j) dns_handler" where
  "setup_qname c = with_texts c ''only_qname'' (\<lambda>qs h. Inr (fold add_qname qs (enable_filter OnlyQName h)))"

definition setup_qname_suffix ::
  "conf \<Rightarrow> ('r, 'q, 'f, 'c, 'd, 'j) dns_handler \<Rightarrow> handler_error + ('r, 'q, 'f, 'c, 'd, 'j) dns_handler" where
  "setup_qname_suffix c = with_texts c ''only_qname_suffix'' (\<lambda>qs h.
     Inr (filters_upd (df_qnames_suffix_update (\<lambda>ss. ss @ map (map to_lower) qs)) (enable_filter OnlyQNameSuffix h)))"

fun join_texts :: "string \<Rightarrow> string list \<Rightarrow> string" where
  "join_texts sep [] = []"
| "join_texts sep [x] = x"
| "join_texts sep (x # y # xs) = x @ sep @ join_texts sep (y # xs)"

definition setup_dnstap_type ::
  "conf \<Rightarrow> ('r, 'q, 'f, 'c, 'd, 'j) dns_handler \<Rightarrow> handler_error + ('r, 'q, 'f, 'c, 'd, 'j) dns_handler" where
  "setup_dnstap_type c h =
     (if config_exists c ''dnstap_msg_type'' then
        case config_get sel_string c ''dnstap_msg_type'' of
          Inl e \<Rightarrow> Inl (Settings (Setting e))
        | Inr type \<Rightarrow>
            (case map_of dnstap_map_types type of
               Some (query, response) \<Rightarrow>
                 Inr (enable_filter DnstapMsgType (filters_upd (df_dnstap_types_update (\<lambda>ts. response # query # ts)) h))
             | None \<Rightarrow>
                 Inl (Config_Exception (''DnsStreamHandler: dnstap_msg_type contained an invalid/unsupported type. Valid types: ''
                   @ join_texts '', '' (map fst dnstap_map_types))))
      else Inr h)"

definition setup_public_suffix ::
  "conf \<Rightarrow> ('r, 'q, 'f, 'c, 'd, 'j) dns_handler \<Rightarrow> handler_error + ('r, 'q, 'f, 'c, 'd, 'j) dns_handler" where
  "setup_public_suffix c h =
     sum_bind (config_flag c ''public_suffix_list'') (\<lambda>b. Inr (if b then filters_upd (df_public_suffix_update (\<lambda>_. True)) h else h))"

definition setup_metrics ::
  "conf \<Rightarrow> ('r, 'q, 'f, 'c, 'd, 'j) dns_handler \<Rightarrow> handler_error + ('r, 'q, 'f, 'c, 'd, 'j) dns_handler" where
  "setup_metrics c h =
     (let h = (if config_exists c ''recorded_stream'' then on_dns_base set_recorded_stream h else h) in
      sum_bind (configured_ttl c) (\<lambda>ttl.
        Inr (case ttl of Some t \<Rightarrow> set_dns_metrics (dns_set_xact_ttl t (dns_metrics h)) h | None \<Rightarrow> h)))"

definition dns_signals :: "dns_proxy \<Rightarrow> bool \<Rightarrow> dns_signal list" where
  "dns_signals proxy using_predicates =
     (case proxy of
        DP_Pcap \<Rightarrow>
          (if using_predicates then [] else [DS_Udp])
          @ [DS_Tcp_Reassembled, DS_Start_Tstamp, DS_End_Tstamp, DS_Tcp_Start, DS_Tcp_End, DS_Tcp_Message, DS_Heartbeat]
      | DP_Dnstap \<Rightarrow> [DS_Dnstap, DS_Heartbeat]
      | _ \<Rightarrow> [])"

fun in_turn :: "('h \<Rightarrow> 'e + 'h) list \<Rightarrow> 'h \<Rightarrow> 'e + 'h" where
  "in_turn [] h = Inr h"
| "in_turn (f # fs) h = sum_bind (f h) (in_turn fs)"

definition setup_all ::
  "conf \<Rightarrow> ('r, 'q, 'f, 'c, 'd, 'j) dns_handler \<Rightarrow> handler_error + ('r, 'q, 'f, 'c, 'd, 'j) dns_handler" where
  "setup_all c = in_turn
     [setup_rcode c, setup_flag ''only_queries'' OnlyQueries c, setup_flag ''only_responses'' OnlyResponses c,
      setup_flag ''only_dnssec_response'' OnlyDNSSECResponse c, setup_answer_count c, setup_qtype c, setup_qname c,
      setup_qname_suffix c, setup_flag ''geoloc_notfound'' GeoLocNotFound c, setup_flag ''asn_notfound'' AsnNotFound c,
      setup_dnstap_type c, setup_public_suffix c, setup_metrics c]"

definition dns_start ::
  "conf \<Rightarrow> ('r, 'q, 'f, 'c, 'd, 'j) dns_handler \<Rightarrow> handler_error + ('r, 'q, 'f, 'c, 'd, 'j) dns_handler" where
  "dns_start c h =
     (if hn_running h then Inr h
      else
        case validate_configs dns_config_defs c of
          Some e \<Rightarrow> Inl (Settings e)
        | None \<Rightarrow>
            let groups = fold set_bit [Dns_Cardinality, Dns_Counters, Dns_Quantiles, Dns_Transactions, Dns_TopQnames, Dns_TopPorts]
                  (sh_groups (hn_base h)) in
            (case process_groups dns_group_defs c ((hn_base h)\<lparr>sh_groups := groups\<rparr>) of
               Inl e \<Rightarrow> Inl (Settings e)
             | Inr base \<Rightarrow>
                 sum_bind (setup_all c (h\<lparr>hn_base := base\<rparr>)) (\<lambda>h.
                   Inr (h\<lparr>hn_connected := dns_signals (hn_proxy h) (hn_using_predicates h), hn_running := True\<rparr>))))"

definition dns_stop :: "('r, 'q, 'f, 'c, 'd, 'j) dns_handler \<Rightarrow> ('r, 'q, 'f, 'c, 'd, 'j) dns_handler" where
  "dns_stop h =
     (if \<not> hn_running h then h
      else
        let off = (case hn_proxy h of
                     DP_Pcap \<Rightarrow> [DS_Udp, DS_Tcp_Reassembled, DS_Start_Tstamp, DS_End_Tstamp, DS_Tcp_Start, DS_Tcp_End, DS_Tcp_Message]
                   | DP_Dnstap \<Rightarrow> [DS_Dnstap]
                   | _ \<Rightarrow> []) @ [DS_Heartbeat];
            h = (if hn_proxy h = DP_Pcap \<and> hn_using_predicates h
                 then h\<lparr>hn_udp := unregister_udp_predicate_signal (sh_name (hn_base h)) (hn_udp h)\<rparr> else h)
        in h\<lparr>hn_connected := filter (\<lambda>s. s \<notin> set off) (hn_connected h), hn_running := False\<rparr>)"

subsection \<open>Filters\<close>

text \<open>
  A check looks at a layer, which it may have to parse, and says whether the message is to be filtered. The
  number goes along for the length of a static suffix. The first check that says so ends the checks.
\<close>

type_synonym dns_check = "dns_layer \<times> nat \<Rightarrow> (bool \<times> dns_layer \<times> nat) option"

fun any_check :: "dns_check list \<Rightarrow> dns_check" where
  "any_check [] (l, n) = Some (False, l, n)"
| "any_check (c # cs) (l, n) =
     do { (hit, l, n) \<leftarrow> c (l, n); if hit then Some (True, l, n) else any_check cs (l, n) }"

definition on_header :: "(dns_header \<Rightarrow> bool) \<Rightarrow> dns_check" where
  "on_header p = (\<lambda>(l, n). map_option (\<lambda>h. (p h, l, n)) (getDnsHeader l))"

definition DNS_TYPE_RRSIG :: u16 where
  "DNS_TYPE_RRSIG = 46"

text \<open>The answers from the first one on, as \<^verbatim>\<open>getNextAnswer\<close> gives them.\<close>

definition answers_of :: "dns_layer \<Rightarrow> dns_resource list" where
  "answers_of l =
     (case l_first_answer l of
        None \<Rightarrow> []
      | Some a \<Rightarrow> a # takeWhile (\<lambda>r. r_type r = DnsAnswerType) (drop 1 (dropWhile (\<lambda>r. r \<noteq> a) (l_resources l))))"

fun has_rrsig :: "byte list \<Rightarrow> dns_resource list \<Rightarrow> bool option" where
  "has_rrsig data [] = Some False"
| "has_rrsig data (r # rs) =
     do { ty \<leftarrow> getDnsType data r; if ty = DNS_TYPE_RRSIG then Some True else has_rrsig data rs }"

definition check_dnssec :: dns_check where
  "check_dnssec = (\<lambda>(l, n).
     do { h \<leftarrow> getDnsHeader l;
          if \<not> dh_response h \<or> dh_answers h = 0 then Some (True, l, n)
          else
            do { (l, ok) \<leftarrow> parseResources False True True l;
                 if \<not> ok \<or> l_first_answer l = None then Some (True, l, n)
                 else
                   do { ssig \<leftarrow> has_rrsig (l_data l) (take (dh_answers h) (answers_of l)); Some (\<not> ssig, l, n) } } })"

definition with_query :: "(dns_resource \<Rightarrow> dns_check) \<Rightarrow> dns_check" where
  "with_query check = (\<lambda>(l, n).
     do { (l, ok) \<leftarrow> parseResources True False False l;
          if \<not> ok then Some (True, l, n)
          else case l_first_query l of None \<Rightarrow> Some (True, l, n) | Some q \<Rightarrow> check q (l, n) })"

definition check_qtype :: "u16 list \<Rightarrow> dns_check" where
  "check_qtype qtypes = with_query (\<lambda>q (l, n).
     map_option (\<lambda>qtype. (\<not> list_ex ((=) qtype) qtypes, l, n)) (getDnsType (l_data l) q))"

definition check_qname :: "string list \<Rightarrow> dns_check" where
  "check_qname qnames = with_query (\<lambda>q (l, n). Some (\<not> list_ex ((=) (getNameLower q)) qnames, l, n))"

definition check_qname_suffix :: "string list \<Rightarrow> dns_check" where
  "check_qname_suffix suffixes = with_query (\<lambda>q (l, n).
     Some (case find (ends_with (getNameLower q)) suffixes of Some fqn \<Rightarrow> (False, l, length fqn) | None \<Rightarrow> (True, l, n)))"

text \<open>The two filters on places: \<open>on\<close> says that there is a database, \<open>place\<close> is what it has for an address.\<close>

definition check_notfound :: "dns_libs \<Rightarrow> bool \<Rightarrow> (string \<Rightarrow> string) \<Rightarrow> dns_check" where
  "check_notfound libs on place = (\<lambda>(l, n).
     if \<not> on then Some (True, l, n)
     else
       do { h \<leftarrow> getDnsHeader l;
            if dh_response h \<or> dh_additionals h = 0 then Some (True, l, n)
            else
              do { (l, ok) \<leftarrow> parseResources False True True l;
                   if \<not> ok \<or> l_first_additional l = None then Some (True, l, n)
                   else
                     do { ecs \<leftarrow> ecs_of libs (l_data l) (l_first_additional l);
                          Some (case ecs of
                                  None \<Rightarrow> True
                                | Some e \<Rightarrow> e_client_subnet e = [] \<or> place (e_client_subnet e) \<noteq> ''Unknown'', l, n) } } })"

text \<open>The checks of \<^verbatim>\<open>_filtering\<close>. A filter that the callback of a predicate has already decided is left out.\<close>

definition dns_checks :: "dns_libs \<Rightarrow> dns_filters \<Rightarrow> dns_filter \<Rightarrow> dns_check list" where
  "dns_checks libs f decided =
     (let on = (\<lambda>x. x \<in> set (df_enabled f));
          in_rcodes = (\<lambda>h. list_ex ((=) (dh_responseCode h)) (df_rcodes f)) in
      only_if (on ExcludingRCode) [on_header in_rcodes]
      @ only_if (on OnlyRCode \<and> decided \<noteq> OnlyRCode) [on_header (\<lambda>h. \<not> in_rcodes h)]
      @ only_if (on AnswerCount) [on_header (\<lambda>h. of_nat (dh_answers h) \<noteq> df_answer_count f)]
      @ only_if (on OnlyQueries) [on_header dh_response]
      @ only_if (on OnlyResponses) [on_header (\<lambda>h. \<not> dh_response h)]
      @ only_if (on OnlyDNSSECResponse) [check_dnssec]
      @ only_if (on OnlyQtype) [check_qtype (df_qtypes f)]
      @ only_if (on OnlyQName \<and> decided \<noteq> OnlyQName) [check_qname (df_qnames f)]
      @ only_if (on OnlyQNameSuffix) [check_qname_suffix (df_qnames_suffix f)]
      @ only_if (on GeoLocNotFound) [check_notfound libs (city_enabled libs) (\<lambda>a. location (city_loc_str libs a))]
      @ only_if (on AsnNotFound) [check_notfound libs (asn_enabled libs) (asn_text_str libs)])"

definition dns_filtering ::
  "('r, 'q, 'f, 'c, 'd, 'j) dns_bucket_class \<Rightarrow> ('r, 'q, 'f, 'c, 'd) dns_sketches \<Rightarrow> dns_libs \<Rightarrow> timespec \<Rightarrow> dns_layer \<Rightarrow> timespec
     \<Rightarrow> ('r, 'q, 'f, 'c, 'd, 'j) dns_handler \<Rightarrow> (bool \<times> dns_layer \<times> ('r, 'q, 'f, 'c, 'd, 'j) dns_handler) option" where
  "dns_filtering cls sk libs now l stamp h =
     do { (hit, l, n) \<leftarrow> any_check (dns_checks libs (hn_filters h) (hn_predicate_type h)) (l, hn_suffix h);
          let h = h\<lparr>hn_suffix := n\<rparr>;
          if hit then do { m \<leftarrow> dns_manager_filtered cls sk now stamp (dns_metrics h); Some (True, l, set_dns_metrics m h) }
          else Some (False, l, h) }"

definition dns_configs ::
  "dns_libs \<Rightarrow> dns_layer \<Rightarrow> ('r, 'q, 'f, 'c, 'd, 'j) dns_handler \<Rightarrow> (dns_layer \<times> ('r, 'q, 'f, 'c, 'd, 'j) dns_handler) option" where
  "dns_configs libs l h =
     (if df_public_suffix (hn_filters h) \<and> OnlyQNameSuffix \<notin> set (df_enabled (hn_filters h)) then
        do { (l, ok) \<leftarrow> parseResources True False False l;
             Some (l, case l_first_query l of
                        Some q \<Rightarrow> if ok then h\<lparr>hn_suffix := match_public_suffix (lib_suffixes libs) (getNameLower q)\<rparr> else h
                      | None \<Rightarrow> h) }
      else Some (l, h))"

end
