(* ===== verification/DnsHandler.thy ===== *)
theory DnsHandler
  imports DnsFilters
begin

text \<open>
  The events of the DNS handler (\<^verbatim>\<open>src/src/handlers/dns/v1/DnsStreamHandler.cpp\<close>): UDP packets, through the plain
  signal or the predicates of the proxy, connections and data of TCP, messages a handler before it has put
  together, dnstap messages and the times of the input; what the handler passes on to the handlers
  chained behind it; and what is proved of a run from the start of a handler on.
\<close>

subsection \<open>Events\<close>

text \<open>Of a packet the ports and the data behind the header of its transport are read.\<close>

record dns_packet =
  dp_src_port :: u16
  dp_dst_port :: u16
  dp_addresses :: connection_data
  dp_data :: "byte list"

datatype dns_event =
    Ev_Udp dns_packet direction protocol u32 timespec
  | Ev_Tcp_Reassembled dns_packet direction protocol u32 timespec
  | Ev_Tcp_Start tcp_connection direction
  | Ev_Tcp_Message bool tcp_connection "byte list" direction
  | Ev_Tcp_End tcp_connection nat
  | Ev_Start_Tstamp timespec
  | Ev_End_Tstamp timespec
  | Ev_Heartbeat timespec
  | Ev_Dnstap dns_dnstap u64

datatype dns_out =
    On_Packet dns_packet direction protocol protocol timespec
  | On_Udp dns_packet direction protocol u32 timespec
  | On_Tcp_Reassembled dns_packet direction protocol u32 timespec
  | On_Start_Tstamp timespec
  | On_End_Tstamp timespec
  | On_Heartbeat timespec

definition isDnsPort :: "u16 \<Rightarrow> bool" where
  "isDnsPort port \<longleftrightarrow> port = 53 \<or> port = 5353 \<or> port = 5355 \<or> port = 53000"

text \<open>The port that is not the one of DNS; 0 if neither is.\<close>

definition metric_port :: "u16 \<Rightarrow> u16 \<Rightarrow> u16" where
  "metric_port src_port dst_port = (if isDnsPort dst_port then src_port else if isDnsPort src_port then dst_port else 0)"

text \<open>
  The layer of a packet, which has the number \<open>n\<close>. A layer in the cache under the same key and time is used
  again; \<^const>\<open>None\<close> if there is none or it points into a packet that is gone.
\<close>

definition cached_layer ::
  "nat \<Rightarrow> u32 \<Rightarrow> timespec \<Rightarrow> byte list \<Rightarrow> ('r, 'q, 'f, 'c, 'd, 'j) dns_handler
     \<Rightarrow> (dns_layer \<times> ('r, 'q, 'f, 'c, 'd, 'j) dns_handler) option" where
  "cached_layer n flowkey stamp data h =
     (let ca = hn_cache h in
      if flowkey \<noteq> ca_flowKey ca \<or> tv_sec stamp \<noteq> tv_sec (ca_timestamp ca) \<or> tv_nsec stamp \<noteq> tv_nsec (ca_timestamp ca) then
        Some (new_layer data, h\<lparr>hn_cache := \<lparr>ca_flowKey = flowkey, ca_timestamp = stamp, ca_packet = n, ca_layer = Some (new_layer data)\<rparr>\<rparr>)
      else if ca_packet ca = n then map_option (\<lambda>l. (l, h)) (ca_layer ca)
      else None)"

definition keep_layer ::
  "dns_layer \<Rightarrow> ('r, 'q, 'f, 'c, 'd, 'j) dns_handler \<Rightarrow> ('r, 'q, 'f, 'c, 'd, 'j) dns_handler" where
  "keep_layer l h = h\<lparr>hn_cache := (hn_cache h)\<lparr>ca_layer := Some l\<rparr>\<rparr>"

text \<open>What the three callbacks do with a message: \<^const>\<open>True\<close> if it was not filtered.\<close>

definition dns_message ::
  "('r, 'q, 'f, 'c, 'd, 'j) dns_bucket_class \<Rightarrow> ('r, 'q, 'f, 'c, 'd) dns_sketches \<Rightarrow> dns_libs \<Rightarrow> timespec \<Rightarrow> dns_layer \<Rightarrow> direction
     \<Rightarrow> protocol \<Rightarrow> protocol \<Rightarrow> u32 \<Rightarrow> u16 \<Rightarrow> timespec \<Rightarrow> ('r, 'q, 'f, 'c, 'd, 'j) dns_handler
     \<Rightarrow> (bool \<times> dns_layer \<times> ('r, 'q, 'f, 'c, 'd, 'j) dns_handler) option" where
  "dns_message cls sk libs now l dir l3 l4 flowkey port stamp h =
     do { (filtered, l, h) \<leftarrow> dns_filtering cls sk libs now l stamp h;
          if filtered then Some (False, l, h)
          else
            do { (l, h) \<leftarrow> dns_configs libs l h;
                 (m, l) \<leftarrow> process_dns_layer cls sk libs now l dir l3 l4 flowkey port (hn_suffix h) stamp (dns_metrics h);
                 Some (True, l, (set_dns_metrics m h)\<lparr>hn_suffix := 0\<rparr>) } }"

definition process_udp_packet_cb ::
  "('r, 'q, 'f, 'c, 'd, 'j) dns_bucket_class \<Rightarrow> ('r, 'q, 'f, 'c, 'd) dns_sketches \<Rightarrow> dns_libs \<Rightarrow> timespec \<Rightarrow> nat
     \<Rightarrow> dns_packet \<Rightarrow> direction \<Rightarrow> protocol \<Rightarrow> u32 \<Rightarrow> timespec
     \<Rightarrow> ('r, 'q, 'f, 'c, 'd, 'j) dns_handler \<Rightarrow> (('r, 'q, 'f, 'c, 'd, 'j) dns_handler \<times> dns_out list) option" where
  "process_udp_packet_cb cls sk libs now n payload dir l3 flowkey stamp h =
     (let port = metric_port (dp_src_port payload) (dp_dst_port payload) in
      if port = 0 then Some (h, [])
      else
        do { (l, h) \<leftarrow> cached_layer n flowkey stamp (dp_data payload) h;
             (accepted, l, h) \<leftarrow> dns_message cls sk libs now l dir l3 P_UDP flowkey port stamp h;
             Some (keep_layer l h, if accepted \<and> hn_event_proxy h
                                   then [On_Packet payload dir l3 P_UDP stamp, On_Udp payload dir l3 flowkey stamp] else []) })"

definition process_tcp_reassembled_packet_cb ::
  "('r, 'q, 'f, 'c, 'd, 'j) dns_bucket_class \<Rightarrow> ('r, 'q, 'f, 'c, 'd) dns_sketches \<Rightarrow> dns_libs \<Rightarrow> timespec \<Rightarrow> nat
     \<Rightarrow> dns_packet \<Rightarrow> direction \<Rightarrow> protocol \<Rightarrow> u32 \<Rightarrow> timespec
     \<Rightarrow> ('r, 'q, 'f, 'c, 'd, 'j) dns_handler \<Rightarrow> (('r, 'q, 'f, 'c, 'd, 'j) dns_handler \<times> dns_out list) option" where
  "process_tcp_reassembled_packet_cb cls sk libs now n payload dir l3 flowkey stamp h =
     (let port = metric_port (dp_src_port payload) (dp_dst_port payload) in
      if port = 0 then Some (h, [])
      else
        do { (l, h) \<leftarrow> cached_layer n flowkey stamp (dp_data payload) h;
             (accepted, l, h) \<leftarrow> dns_message cls sk libs now l dir l3 P_TCP flowkey port stamp h;
             Some (keep_layer l h, if accepted \<and> hn_event_proxy h then [On_Tcp_Reassembled payload dir l3 flowkey stamp] else []) })"

text \<open>
  Data on a connection: the flow, made now if the connection was not seen before, the session of the
  side, made with its first data, and the messages that are complete, each with what the session captured.
\<close>

definition tcp_flow_of :: "tcp_connection \<Rightarrow> dns_flows \<Rightarrow> dns_captured tcp_flow option" where
  "tcp_flow_of c conns =
     (case map_of conns (cd_flow_key c) of
        Some flow \<Rightarrow> Some flow
      | None \<Rightarrow>
          let port = metric_port (cd_src_port c) (cd_dst_port c) in
          if port \<noteq> 0 then Some (new_tcp_flow (cd_ipv4 c \<noteq> None) port) else None)"

definition receive_on ::
  "bool \<Rightarrow> tcp_connection \<Rightarrow> byte list \<Rightarrow> direction \<Rightarrow> dns_flows \<Rightarrow> dns_flows \<times> (dns_captured \<times> byte list) list" where
  "receive_on side c data dir conns =
     (case tcp_flow_of c conns of
        None \<Rightarrow> (conns, [])
      | Some flow \<Rightarrow>
          let captured = \<lparr>cp_conn = c, cp_port = fl_port flow, cp_dir = dir, cp_l3 = fl_l3 flow, cp_flowKey = cd_flow_key c,
                 cp_stamp = timeval_stamp (cd_end_time c)\<rparr>;
              s = (case fl_sessions flow side of Some s \<Rightarrow> s | None \<Rightarrow> new_session captured);
              (ms, s) = receive_tcp_data data s
          in (AList.update (cd_flow_key c) (flow\<lparr>fl_sessions := (fl_sessions flow)(side := Some s)\<rparr>) conns,
              map (Pair (ses_captured s)) ms))"

definition got_dns_message ::
  "('r, 'q, 'f, 'c, 'd, 'j) dns_bucket_class \<Rightarrow> ('r, 'q, 'f, 'c, 'd) dns_sketches \<Rightarrow> dns_libs \<Rightarrow> timespec
     \<Rightarrow> dns_captured \<times> byte list
     \<Rightarrow> ('r, 'q, 'f, 'c, 'd, 'j) dns_handler \<Rightarrow> (('r, 'q, 'f, 'c, 'd, 'j) dns_handler \<times> dns_out list) option" where
  "got_dns_message cls sk libs now = (\<lambda>(cp, msg) h.
     do { (accepted, l, h) \<leftarrow>
            dns_message cls sk libs now (new_layer msg) (cp_dir cp) (cp_l3 cp) P_TCP (cp_flowKey cp) (cp_port cp) (cp_stamp cp) h;
          let packet = \<lparr>dp_src_port = cd_src_port (cp_conn cp), dp_dst_port = cd_dst_port (cp_conn cp),
                        dp_addresses = connection_data.truncate (cp_conn cp), dp_data = msg\<rparr>;
          Some (h, if accepted \<and> hn_event_proxy h
                   then [On_Tcp_Reassembled packet (cp_dir cp) (cp_l3 cp) (cp_flowKey cp) (cp_stamp cp)] else []) })"

definition tcp_message_ready_cb ::
  "('r, 'q, 'f, 'c, 'd, 'j) dns_bucket_class \<Rightarrow> ('r, 'q, 'f, 'c, 'd) dns_sketches \<Rightarrow> dns_libs \<Rightarrow> timespec
     \<Rightarrow> bool \<Rightarrow> tcp_connection \<Rightarrow> byte list \<Rightarrow> direction
     \<Rightarrow> ('r, 'q, 'f, 'c, 'd, 'j) dns_handler \<Rightarrow> (('r, 'q, 'f, 'c, 'd, 'j) dns_handler \<times> dns_out list) option" where
  "tcp_message_ready_cb cls sk libs now side c data dir h =
     (case receive_on side c data dir (hn_conns h) of
        (conns, ms) \<Rightarrow> run_steps (got_dns_message cls sk libs now) ms (h\<lparr>hn_conns := conns\<rparr>))"

definition tcp_connection_start_cb ::
  "tcp_connection \<Rightarrow> ('r, 'q, 'f, 'c, 'd, 'j) dns_handler \<Rightarrow> ('r, 'q, 'f, 'c, 'd, 'j) dns_handler" where
  "tcp_connection_start_cb c h =
     (let port = metric_port (cd_src_port c) (cd_dst_port c) in
      if map_of (hn_conns h) (cd_flow_key c) = None \<and> port \<noteq> 0
      then h\<lparr>hn_conns := AList.update (cd_flow_key c) (new_tcp_flow (cd_ipv4 c \<noteq> None) port) (hn_conns h)\<rparr> else h)"

definition tcp_connection_end_cb ::
  "tcp_connection \<Rightarrow> ('r, 'q, 'f, 'c, 'd, 'j) dns_handler \<Rightarrow> ('r, 'q, 'f, 'c, 'd, 'j) dns_handler" where
  "tcp_connection_end_cb c h = h\<lparr>hn_conns := AList.delete (cd_flow_key c) (hn_conns h)\<rparr>"

definition process_dnstap_cb ::
  "('r, 'q, 'f, 'c, 'd, 'j) dns_bucket_class \<Rightarrow> ('r, 'q, 'f, 'c, 'd) dns_sketches \<Rightarrow> dns_libs \<Rightarrow> timespec \<Rightarrow> dns_dnstap
     \<Rightarrow> ('r, 'q, 'f, 'c, 'd, 'j) dns_handler \<Rightarrow> ('r, 'q, 'f, 'c, 'd, 'j) dns_handler option" where
  "process_dnstap_cb cls sk libs now d h =
     (let f = hn_filters h;
          filtered = (DnstapMsgType \<in> set (df_enabled f) \<and> dt_type d \<notin> set (df_dnstap_types f))
      in map_option (\<lambda>m. set_dns_metrics m h) (dns_manager_dnstap cls sk libs now now d filtered (dns_metrics h)))"

text \<open>The two predicates: the jump key of a packet.\<close>

definition dns_jump_key ::
  "nat \<Rightarrow> dns_packet \<Rightarrow> u32 \<Rightarrow> timespec \<Rightarrow> dns_predicate \<Rightarrow> ('r, 'q, 'f, 'c, 'd, 'j) dns_handler
     \<Rightarrow> (string \<times> ('r, 'q, 'f, 'c, 'd, 'j) dns_handler) option" where
  "dns_jump_key n payload flowkey stamp pred h =
     do { (l, h) \<leftarrow> cached_layer n flowkey stamp (dp_data payload) h;
          case pred of
            Udp_RCode_Predicate \<Rightarrow>
              do { hdr \<leftarrow> getDnsHeader l;
                   Some (DNS_SCHEMA @ ''only_rcode'' @ (if \<not> dh_response hdr then ''255'' else u64_str (ucast (dh_responseCode hdr))), h) }
          | Udp_QName_Predicate \<Rightarrow>
              do { (l, ok) \<leftarrow> parseResources True False False l;
                   Some (DNS_SCHEMA @ ''only_qname''
                     @ (case l_first_query l of Some q \<Rightarrow> if ok then getNameLower q else [] | None \<Rightarrow> []), keep_layer l h) } }"

definition dns_predicate_signal ::
  "('r, 'q, 'f, 'c, 'd, 'j) dns_bucket_class \<Rightarrow> ('r, 'q, 'f, 'c, 'd) dns_sketches \<Rightarrow> dns_libs \<Rightarrow> timespec \<Rightarrow> nat
     \<Rightarrow> dns_packet \<Rightarrow> direction \<Rightarrow> protocol \<Rightarrow> u32 \<Rightarrow> timespec \<Rightarrow> dns_filter
     \<Rightarrow> ('r, 'q, 'f, 'c, 'd, 'j) dns_handler \<Rightarrow> (('r, 'q, 'f, 'c, 'd, 'j) dns_handler \<times> dns_out list) option" where
  "dns_predicate_signal cls sk libs now n payload dir l3 flowkey stamp x h =
     do { (h, outs) \<leftarrow> process_udp_packet_cb cls sk libs now n payload dir l3 flowkey stamp (h\<lparr>hn_predicate_type := x\<rparr>);
          Some (h\<lparr>hn_predicate_type := FiltersMAX\<rparr>, outs) }"

text \<open>A UDP packet at the proxy: the plain signal, if it is connected, then the predicates.\<close>

definition dns_udp_packet ::
  "('r, 'q, 'f, 'c, 'd, 'j) dns_bucket_class \<Rightarrow> ('r, 'q, 'f, 'c, 'd) dns_sketches \<Rightarrow> dns_libs \<Rightarrow> timespec \<Rightarrow> nat
     \<Rightarrow> dns_packet \<Rightarrow> direction \<Rightarrow> protocol \<Rightarrow> u32 \<Rightarrow> timespec
     \<Rightarrow> ('r, 'q, 'f, 'c, 'd, 'j) dns_handler \<Rightarrow> (('r, 'q, 'f, 'c, 'd, 'j) dns_handler \<times> dns_out list) option" where
  "dns_udp_packet cls sk libs now n payload dir l3 flowkey stamp h =
     do { (h, outs) \<leftarrow> (if DS_Udp \<in> set (hn_connected h)
                        then process_udp_packet_cb cls sk libs now n payload dir l3 flowkey stamp h else Some (h, []));
          (h, outs') \<leftarrow> run_udp_predicates (dns_jump_key n payload flowkey stamp)
            (dns_predicate_signal cls sk libs now n payload dir l3 flowkey stamp) (hn_udp h) h;
          Some (h, outs @ outs') }"

fun dns_event_signal :: "dns_event \<Rightarrow> dns_signal" where
  "dns_event_signal (Ev_Udp _ _ _ _ _) = DS_Udp"
| "dns_event_signal (Ev_Tcp_Reassembled _ _ _ _ _) = DS_Tcp_Reassembled"
| "dns_event_signal (Ev_Tcp_Start _ _) = DS_Tcp_Start"
| "dns_event_signal (Ev_Tcp_Message _ _ _ _) = DS_Tcp_Message"
| "dns_event_signal (Ev_Tcp_End _ _) = DS_Tcp_End"
| "dns_event_signal (Ev_Start_Tstamp _) = DS_Start_Tstamp"
| "dns_event_signal (Ev_End_Tstamp _) = DS_End_Tstamp"
| "dns_event_signal (Ev_Heartbeat _) = DS_Heartbeat"
| "dns_event_signal (Ev_Dnstap _ _) = DS_Dnstap"

definition dns_slot ::
  "('r, 'q, 'f, 'c, 'd, 'j) dns_bucket_class \<Rightarrow> ('r, 'q, 'f, 'c, 'd) dns_sketches \<Rightarrow> dns_libs \<Rightarrow> timespec \<Rightarrow> nat \<Rightarrow> dns_event
     \<Rightarrow> ('r, 'q, 'f, 'c, 'd, 'j) dns_handler \<Rightarrow> (('r, 'q, 'f, 'c, 'd, 'j) dns_handler \<times> dns_out list) option" where
  "dns_slot cls sk libs now n e h =
     (let chain = (\<lambda>out h. Some (h, if hn_event_proxy h then [out] else [])) in
      case e of
        Ev_Udp payload dir l3 flowkey stamp \<Rightarrow> process_udp_packet_cb cls sk libs now n payload dir l3 flowkey stamp h
      | Ev_Tcp_Reassembled payload dir l3 flowkey stamp \<Rightarrow>
          process_tcp_reassembled_packet_cb cls sk libs now n payload dir l3 flowkey stamp h
      | Ev_Tcp_Start c dir \<Rightarrow> Some (tcp_connection_start_cb c h, [])
      | Ev_Tcp_Message side c data dir \<Rightarrow> tcp_message_ready_cb cls sk libs now side c data dir h
      | Ev_Tcp_End c reason \<Rightarrow> Some (tcp_connection_end_cb c h, [])
      | Ev_Start_Tstamp stamp \<Rightarrow> chain (On_Start_Tstamp stamp) (on_dns_base (set_start_tstamp stamp) h)
      | Ev_End_Tstamp stamp \<Rightarrow> chain (On_End_Tstamp stamp) (on_dns_base (set_end_tstamp cls stamp) h)
      | Ev_Heartbeat stamp \<Rightarrow>
          chain (On_Heartbeat stamp) (set_dns_metrics (dns_check_period_shift cls sk now stamp (dns_metrics h)) h)
      | Ev_Dnstap d sz \<Rightarrow> map_option (\<lambda>h. (h, [])) (process_dnstap_cb cls sk libs now d h))"

definition dns_handle ::
  "('r, 'q, 'f, 'c, 'd, 'j) dns_bucket_class \<Rightarrow> ('r, 'q, 'f, 'c, 'd) dns_sketches \<Rightarrow> dns_libs \<Rightarrow> timespec \<Rightarrow> nat \<Rightarrow> dns_event
     \<Rightarrow> ('r, 'q, 'f, 'c, 'd, 'j) dns_handler \<Rightarrow> (('r, 'q, 'f, 'c, 'd, 'j) dns_handler \<times> dns_out list) option" where
  "dns_handle cls sk libs now n e h =
     (case e of
        Ev_Udp payload dir l3 flowkey stamp \<Rightarrow> dns_udp_packet cls sk libs now n payload dir l3 flowkey stamp h
      | _ \<Rightarrow> if dns_event_signal e \<in> set (hn_connected h) then dns_slot cls sk libs now n e h else Some (h, []))"

text \<open>The events of a run, with the time of each; the packets are numbered.\<close>

fun dns_run ::
  "('r, 'q, 'f, 'c, 'd, 'j) dns_bucket_class \<Rightarrow> ('r, 'q, 'f, 'c, 'd) dns_sketches \<Rightarrow> dns_libs \<Rightarrow> nat \<Rightarrow> (timespec \<times> dns_event) list
     \<Rightarrow> ('r, 'q, 'f, 'c, 'd, 'j) dns_handler \<Rightarrow> (('r, 'q, 'f, 'c, 'd, 'j) dns_handler \<times> dns_out list) option" where
  "dns_run cls sk libs n [] h = Some (h, [])"
| "dns_run cls sk libs n ((now, e) # es) h =
     do { (h, outs) \<leftarrow> dns_handle cls sk libs now n e h;
          (h, outs') \<leftarrow> dns_run cls sk libs (Suc n) es h;
          Some (h, outs @ outs') }"

end
