(* ===== verification/DnsRuns.thy ===== *)
theory DnsRuns
  imports DnsHandler
begin

text \<open>
  What is proved of runs of the DNS handler (\<^verbatim>\<open>DnsHandler\<close>) from its start on: every step is defined on
  readable messages, and every message is accounted for.
\<close>

subsection \<open>Filters stay inside the message\<close>

text \<open>A check that is defined on a message that can be read to its end, and leaves it so.\<close>

definition safe_check :: "dns_check \<Rightarrow> bool" where
  "safe_check c \<longleftrightarrow>
     (\<forall>l n. layer_ok l \<longrightarrow> (\<exists>hit l' n'. c (l, n) = Some (hit, l', n') \<and> layer_ok l' \<and> l_data l' = l_data l))"

lemma safe_checkD:
  "safe_check c \<Longrightarrow> layer_ok l \<Longrightarrow> \<exists>hit l' n'. c (l, n) = Some (hit, l', n') \<and> layer_ok l' \<and> l_data l' = l_data l"
  by (simp add: safe_check_def)

lemma safe_on_header: "safe_check (on_header p)"
  using getDnsHeader_defined by (fastforce simp: safe_check_def on_header_def)

lemma has_rrsig_defined: "list_all (fits data) rs \<Longrightarrow> \<exists>b. has_rrsig data rs = Some b"
  by (induction rs) (use fits_type in fastforce)+

lemma answers_fit: "layer_ok l \<Longrightarrow> list_all (fits (l_data l)) (take k (answers_of l))"
  by (auto simp: layer_ok_def answers_of_def list_all_iff split: option.splits
      dest!: in_set_takeD set_takeWhileD in_set_dropD set_dropWhileD)

lemma safe_check_dnssec: "safe_check check_dnssec"
  unfolding safe_check_def
proof (intro allI impI)
  fix l n
  assume l: "layer_ok l"
  obtain h where h: "getDnsHeader l = Some h" using getDnsHeader_defined [OF l] by blast
  obtain l1 ok where p: "parseResources False True True l = Some (l1, ok)" "layer_ok l1" "l_data l1 = l_data l"
    using parseResources_defined [OF l] by blast
  obtain b where "has_rrsig (l_data l1) (take (dh_answers h) (answers_of l1)) = Some b"
    using has_rrsig_defined [OF answers_fit [OF p(2)]] by blast
  then show "\<exists>hit l' n'. check_dnssec (l, n) = Some (hit, l', n') \<and> layer_ok l' \<and> l_data l' = l_data l"
    using h p l by (auto simp: check_dnssec_def)
qed

lemma safe_with_query:
  assumes "\<And>q l n. layer_ok l \<Longrightarrow> fits (l_data l) q \<Longrightarrow> \<exists>hit n'. check q (l, n) = Some (hit, l, n')"
  shows "safe_check (with_query check)"
  unfolding safe_check_def
proof (intro allI impI)
  fix l n
  assume l: "layer_ok l"
  obtain l1 ok where p: "parseResources True False False l = Some (l1, ok)" "layer_ok l1" "l_data l1 = l_data l"
    using parseResources_defined [OF l] by blast
  show "\<exists>hit l' n'. with_query check (l, n) = Some (hit, l', n') \<and> layer_ok l' \<and> l_data l' = l_data l"
  proof (cases "l_first_query l1")
    case (Some q)
    then obtain hit n' where "check q (l1, n) = Some (hit, l1, n')" using assms p(2) by (fastforce simp: layer_ok_def)
    then show ?thesis using p Some by (auto simp: with_query_def)
  qed (use p in \<open>auto simp: with_query_def\<close>)
qed

lemma safe_queries: "safe_check (check_qtype us)" "safe_check (check_qname qs)" "safe_check (check_qname_suffix ss)"
  unfolding check_qtype_def check_qname_def check_qname_suffix_def
  by (rule safe_with_query, use fits_type in \<open>force split: option.split\<close>)+

lemma safe_dns_checks:
  assumes "GeoLocNotFound \<notin> set (df_enabled f)" "AsnNotFound \<notin> set (df_enabled f)"
  shows "list_all safe_check (dns_checks libs f x)"
  using assms by (simp add: dns_checks_def Let_def safe_on_header safe_check_dnssec safe_queries)

lemma safe_any_check:
  assumes "list_all safe_check cs" "layer_ok l"
  shows "\<exists>hit l' n'. any_check cs (l, n) = Some (hit, l', n') \<and> layer_ok l' \<and> l_data l' = l_data l"
  using assms
proof (induction cs arbitrary: l n)
  case (Cons c cs)
  obtain hit l1 n1 where c: "c (l, n) = Some (hit, l1, n1)" "layer_ok l1" "l_data l1 = l_data l"
    using safe_checkD [of c l n] Cons.prems by auto
  then show ?case using Cons.IH [of l1 n1] Cons.prems(1) by (cases hit) auto
next
  case Nil
  then show ?case by (intro exI [of _ False]) simp
qed

subsection \<open>Every message is accounted for\<close>

text \<open>
  What the steps of a run leave alone, and what they keep: the groups and the filters under which every
  step is defined, and the account of the events.
\<close>

definition dns_rest where
  "dns_rest h = (hn_filters h, hn_conns h, hn_udp h, hn_connected h, hn_event_proxy h)"

definition dns_ok :: "u64 \<Rightarrow> ('r, 'q, 'f, 'c, 'd, 'j) dns_handler \<Rightarrow> bool" where
  "dns_ok g h \<longleftrightarrow>
     dns_tallied g (sh_metrics (hn_base h)) \<and> group_enabled g Dns_Counters \<and> \<not> group_enabled g Dns_TopEcs
     \<and> GeoLocNotFound \<notin> set (df_enabled (hn_filters h)) \<and> AsnNotFound \<notin> set (df_enabled (hn_filters h))"

lemma dns_ok_setters [simp]:
  "dn_metrics (dns_metrics h) = sh_metrics (hn_base h)"
  "dns_rest (set_dns_metrics m h) = dns_rest h"
  "dns_rest (h\<lparr>hn_suffix := n\<rparr>) = dns_rest h"
  "dns_rest (h\<lparr>hn_cache := ca\<rparr>) = dns_rest h"
  "dns_rest (h\<lparr>hn_predicate_type := x\<rparr>) = dns_rest h"
  "hn_cache (set_dns_metrics m h) = hn_cache h"
  "sh_metrics (hn_base (set_dns_metrics m h)) = dn_metrics m"
  "hn_filters (set_dns_metrics m h) = hn_filters h"
  by (simp_all add: dns_metrics_def set_dns_metrics_def dns_rest_def)

lemma dns_filtering_ok:
  assumes "dns_ok g h" "layer_ok l"
  shows "\<exists>hit l' h'. dns_filtering (dns_class sk static to_json) sk libs now l stamp h = Some (hit, l', h')
    \<and> layer_ok l' \<and> l_data l' = l_data l \<and> dns_ok g h' \<and> dns_rest h' = dns_rest h \<and> hn_cache h' = hn_cache h"
proof -
  let ?cs = "dns_checks libs (hn_filters h) (hn_predicate_type h)"
  obtain hit l' n where c: "any_check ?cs (l, hn_suffix h) = Some (hit, l', n)" "layer_ok l'" "l_data l' = l_data l"
    using safe_any_check [OF safe_dns_checks assms(2)] assms(1) unfolding dns_ok_def by blast
  obtain m where m: "dns_manager_filtered (dns_class sk static to_json) sk now stamp (dns_metrics (h\<lparr>hn_suffix := n\<rparr>)) = Some m"
    "dns_tallied g (dn_metrics m)"
    using dns_filtered_tallied [of g "dns_metrics (h\<lparr>hn_suffix := n\<rparr>)" sk static to_json now stamp] assms(1)
    by (auto simp: dns_ok_def)
  show ?thesis using c m assms(1) by (cases hit) (auto simp: dns_filtering_def Let_def dns_ok_def)
qed

lemma dns_configs_ok:
  assumes "dns_ok g h" "layer_ok l"
  shows "\<exists>l' h'. dns_configs libs l h = Some (l', h')
    \<and> layer_ok l' \<and> l_data l' = l_data l \<and> dns_ok g h' \<and> dns_rest h' = dns_rest h \<and> hn_cache h' = hn_cache h"
proof -
  obtain l1 ok where p: "parseResources True False False l = Some (l1, ok)" "layer_ok l1" "l_data l1 = l_data l"
    using parseResources_defined [OF assms(2)] by blast
  then show ?thesis using assms
    by (cases "l_first_query l1") (auto simp: dns_configs_def dns_ok_def)
qed

lemma dns_message_ok:
  assumes "dns_ok g h" "layer_ok l"
  shows "\<exists>ok l' h'. dns_message (dns_class sk static to_json) sk libs now l dir l3 l4 k port stamp h = Some (ok, l', h')
    \<and> layer_ok l' \<and> dns_ok g h' \<and> dns_rest h' = dns_rest h \<and> hn_cache h' = hn_cache h"
proof -
  obtain hit l1 h1 where f: "dns_filtering (dns_class sk static to_json) sk libs now l stamp h = Some (hit, l1, h1)" "layer_ok l1"
    "dns_ok g h1" "dns_rest h1 = dns_rest h" "hn_cache h1 = hn_cache h"
    using dns_filtering_ok [OF assms] by blast
  obtain l2 h2 where c: "dns_configs libs l1 h1 = Some (l2, h2)" "layer_ok l2" "dns_ok g h2" "dns_rest h2 = dns_rest h"
    "hn_cache h2 = hn_cache h"
    using dns_configs_ok [OF f(3,2)] f(4,5) by metis
  obtain m l3' where "process_dns_layer (dns_class sk static to_json) sk libs now l2 dir l3 l4 k port (hn_suffix h2) stamp (dns_metrics h2)
      = Some (m, l3')" "dns_tallied g (dn_metrics m)" "layer_ok l3'"
    using process_dns_layer_tallied [of g "dns_metrics h2" l2 sk static to_json libs now dir l3 l4 k port "hn_suffix h2" stamp] c
    by (auto simp: dns_ok_def)
  then show ?thesis using f c by (cases hit) (auto simp: dns_message_def dns_ok_def)
qed

lemma run_steps_keep:
  assumes "\<And>c s. c \<in> set cs \<Longrightarrow> I s \<Longrightarrow> \<exists>s' out. f c s = Some (s', out) \<and> I s'" "I s"
  shows "\<exists>s' outs. run_steps f cs s = Some (s', outs) \<and> I s'"
  using assms
proof (induction cs arbitrary: s)
  case (Cons c cs)
  obtain s1 out where c: "f c s = Some (s1, out)" "I s1" using Cons.prems(1) [of c s] Cons.prems(2) by auto
  obtain s' outs where "run_steps f cs s1 = Some (s', outs)" "I s'" using Cons.IH [OF _ c(2)] Cons.prems(1) by force
  then show ?case using c(1) by simp
qed simp

definition message_ok :: "byte list \<Rightarrow> bool" where
  "message_ok data \<longleftrightarrow> HDR \<le> length data \<and> readable data"

lemma message_layer_ok: "message_ok data \<Longrightarrow> layer_ok (new_layer data)"
  by (simp add: message_ok_def new_layer_ok)

text \<open>The cache while the packet with the number \<open>n\<close> is looked at: another key, or a layer of this packet.\<close>

definition cache_key :: "('r, 'q, 'f, 'c, 'd, 'j) dns_handler \<Rightarrow> u32 \<times> timespec" where
  "cache_key h = (ca_flowKey (hn_cache h), ca_timestamp (hn_cache h))"

definition cache_good :: "nat \<Rightarrow> u32 \<times> timespec \<Rightarrow> ('r, 'q, 'f, 'c, 'd, 'j) dns_handler \<Rightarrow> bool" where
  "cache_good n key h \<longleftrightarrow>
     cache_key h = key \<longrightarrow> ca_packet (hn_cache h) = n \<and> (\<exists>l. ca_layer (hn_cache h) = Some l \<and> layer_ok l)"

definition udp_inv ::
  "u64 \<Rightarrow> nat \<Rightarrow> u32 \<times> timespec \<Rightarrow> ('r, 'q, 'f, 'c, 'd, 'j) dns_handler \<Rightarrow> ('r, 'q, 'f, 'c, 'd, 'j) dns_handler \<Rightarrow> bool" where
  "udp_inv g n key h0 h \<longleftrightarrow>
     dns_ok g h \<and> dns_rest h = dns_rest h0 \<and> cache_good n key h \<and> (cache_key h = key \<or> cache_key h = cache_key h0)"

lemma dns_ok_fields [simp]:
  "dns_ok g (h\<lparr>hn_cache := ca\<rparr>) = dns_ok g h"
  "dns_ok g (h\<lparr>hn_predicate_type := x\<rparr>) = dns_ok g h"
  "dns_ok g (h\<lparr>hn_conns := cs\<rparr>) = dns_ok g h"
  by (simp_all add: dns_ok_def)

lemma udp_inv_predicate_type [simp]: "udp_inv g n key h0 (h\<lparr>hn_predicate_type := x\<rparr>) = udp_inv g n key h0 h"
  by (simp add: udp_inv_def cache_good_def cache_key_def)

lemma cached_layer_ok:
  assumes "udp_inv g n (k, stamp) h0 h" "message_ok data"
  shows "\<exists>l h'. cached_layer n k stamp data h = Some (l, h') \<and> layer_ok l \<and> udp_inv g n (k, stamp) h0 h'
    \<and> cache_key h' = (k, stamp) \<and> ca_packet (hn_cache h') = n"
proof (cases "cache_key h = (k, stamp)")
  case True
  then show ?thesis using assms by (auto simp: cached_layer_def Let_def udp_inv_def cache_good_def cache_key_def)
next
  case False
  then have "k \<noteq> ca_flowKey (hn_cache h) \<or> tv_sec stamp \<noteq> tv_sec (ca_timestamp (hn_cache h))
      \<or> tv_nsec stamp \<noteq> tv_nsec (ca_timestamp (hn_cache h))"
    by (auto simp: cache_key_def)
  then show ?thesis using assms message_layer_ok
    by (auto simp: cached_layer_def Let_def udp_inv_def cache_good_def cache_key_def)
qed

lemma keep_layer_ok:
  assumes "dns_ok g h" "dns_rest h = dns_rest h0" "layer_ok l" "hn_cache h = hn_cache h'" "cache_key h' = key" "ca_packet (hn_cache h') = n"
  shows "udp_inv g n key h0 (keep_layer l h)"
  using assms by (simp add: udp_inv_def keep_layer_def cache_good_def cache_key_def)

lemma packet_message_ok:
  assumes "udp_inv g n (k, stamp) h0 h" "message_ok data"
  shows "\<exists>l h1 ok l2 h2. cached_layer n k stamp data h = Some (l, h1)
    \<and> dns_message (dns_class sk static to_json) sk libs now l dir l3 l4 k port stamp h1 = Some (ok, l2, h2)
    \<and> udp_inv g n (k, stamp) h0 (keep_layer l2 h2)"
proof -
  obtain l h1 where c: "cached_layer n k stamp data h = Some (l, h1)" "layer_ok l" "udp_inv g n (k, stamp) h0 h1"
    "cache_key h1 = (k, stamp)" "ca_packet (hn_cache h1) = n"
    using cached_layer_ok [OF assms] by blast
  obtain ok l2 h2 where m: "dns_message (dns_class sk static to_json) sk libs now l dir l3 l4 k port stamp h1 = Some (ok, l2, h2)"
    "layer_ok l2" "dns_ok g h2" "dns_rest h2 = dns_rest h1" "hn_cache h2 = hn_cache h1"
    using dns_message_ok [OF _ c(2), of g h1] c(3) unfolding udp_inv_def by metis
  have "udp_inv g n (k, stamp) h0 (keep_layer l2 h2)"
    using keep_layer_ok [OF m(3) _ m(2,5) c(4,5)] m(4) c(3) by (simp add: udp_inv_def)
  then show ?thesis using c(1) m(1) by simp
qed

lemma process_udp_packet_ok:
  assumes "udp_inv g n (k, stamp) h0 h" "message_ok (dp_data payload)"
  shows "\<exists>h' outs. process_udp_packet_cb (dns_class sk static to_json) sk libs now n payload dir l3 k stamp h = Some (h', outs)
    \<and> udp_inv g n (k, stamp) h0 h'"
  using packet_message_ok [OF assms, of sk static to_json libs now dir l3 P_UDP "metric_port (dp_src_port payload) (dp_dst_port payload)"] assms(1)
  by (auto simp: process_udp_packet_cb_def Let_def)

lemma process_tcp_reassembled_ok:
  assumes "udp_inv g n (k, stamp) h0 h" "message_ok (dp_data payload)"
  shows "\<exists>h' outs. process_tcp_reassembled_packet_cb (dns_class sk static to_json) sk libs now n payload dir l3 k stamp h = Some (h', outs)
    \<and> udp_inv g n (k, stamp) h0 h'"
  using packet_message_ok [OF assms, of sk static to_json libs now dir l3 P_TCP "metric_port (dp_src_port payload) (dp_dst_port payload)"] assms(1)
  by (auto simp: process_tcp_reassembled_packet_cb_def Let_def)

lemma dns_jump_key_ok:
  assumes "udp_inv g n (k, stamp) h0 h" "message_ok (dp_data payload)"
  shows "\<exists>jump h'. dns_jump_key n payload k stamp pred h = Some (jump, h') \<and> udp_inv g n (k, stamp) h0 h'"
proof -
  obtain l h1 where c: "cached_layer n k stamp (dp_data payload) h = Some (l, h1)" "layer_ok l" "udp_inv g n (k, stamp) h0 h1"
    "cache_key h1 = (k, stamp)" "ca_packet (hn_cache h1) = n"
    using cached_layer_ok [OF assms] by blast
  show ?thesis
  proof (cases pred)
    case Udp_RCode_Predicate
    then show ?thesis using c getDnsHeader_defined [OF c(2)] by (auto simp: dns_jump_key_def)
  next
    case Udp_QName_Predicate
    obtain l1 ok where "parseResources True False False l = Some (l1, ok)" "layer_ok l1"
      using parseResources_defined [OF c(2)] by blast
    then show ?thesis
      using c Udp_QName_Predicate keep_layer_ok [of g h1 h0 l1 h1] by (auto simp: dns_jump_key_def udp_inv_def)
  qed
qed

lemma dns_udp_packet_ok:
  assumes "dns_ok g h" "message_ok (dp_data payload)" "cache_key h \<noteq> (k, stamp)"
  shows "\<exists>h' outs. dns_udp_packet (dns_class sk static to_json) sk libs now n payload dir l3 k stamp h = Some (h', outs)
    \<and> udp_inv g n (k, stamp) h h'"
proof -
  let ?cls = "dns_class sk static to_json"
  have h: "udp_inv g n (k, stamp) h h" using assms by (simp add: udp_inv_def cache_good_def)
  then obtain h1 o1 where 1: "(if DS_Udp \<in> set (hn_connected h)
      then process_udp_packet_cb ?cls sk libs now n payload dir l3 k stamp h else Some (h, [])) = Some (h1, o1)"
    "udp_inv g n (k, stamp) h h1"
    using process_udp_packet_ok [OF h assms(2), of sk static to_json libs now dir l3]
    by (cases "DS_Udp \<in> set (hn_connected h)") auto
  have signal: "\<exists>s' out. dns_predicate_signal ?cls sk libs now n payload dir l3 k stamp x s = Some (s', out) \<and> udp_inv g n (k, stamp) h s'"
    if "udp_inv g n (k, stamp) h s" for x s
  proof -
    have "udp_inv g n (k, stamp) h (s\<lparr>hn_predicate_type := x\<rparr>)" using that by simp
    then obtain s1 out where "process_udp_packet_cb ?cls sk libs now n payload dir l3 k stamp (s\<lparr>hn_predicate_type := x\<rparr>) = Some (s1, out)"
      "udp_inv g n (k, stamp) h s1"
      using process_udp_packet_ok [OF _ assms(2)] by blast
    then show ?thesis by (simp add: dns_predicate_signal_def)
  qed
  have step: "\<exists>s' out. (do { (jump, s) \<leftarrow> dns_jump_key n payload k stamp pred s;
      run_steps (dns_predicate_signal ?cls sk libs now n payload dir l3 k stamp) (jump_slots jump p) s }) = Some (s', out)
      \<and> udp_inv g n (k, stamp) h s'" if "udp_inv g n (k, stamp) h s" for p pred s
  proof -
    note inv = that
    obtain jump s1 where j: "dns_jump_key n payload k stamp pred s = Some (jump, s1)" "udp_inv g n (k, stamp) h s1"
      using dns_jump_key_ok [OF inv assms(2)] by blast
    then show ?thesis
      using run_steps_keep [where I = "udp_inv g n (k, stamp) h", OF signal j(2)] by simp
  qed
  have "\<exists>h' outs. run_udp_predicates (dns_jump_key n payload k stamp)
      (dns_predicate_signal ?cls sk libs now n payload dir l3 k stamp) (hn_udp h1) h1 = Some (h', outs) \<and> udp_inv g n (k, stamp) h h'"
    unfolding run_udp_predicates_def
    by (rule run_steps_keep [where I = "udp_inv g n (k, stamp) h", OF _ 1(2)]) (use step in \<open>simp add: case_prod_beta\<close>)
  then show ?thesis using 1(1) by (auto simp: dns_udp_packet_def)
qed

lemma tcp_message_ok:
  assumes "dns_ok g h" "list_all (\<lambda>(_, m). message_ok m) (snd (receive_on side c data dir (hn_conns h)))"
  shows "\<exists>h' outs. tcp_message_ready_cb (dns_class sk static to_json) sk libs now side c data dir h = Some (h', outs)
    \<and> dns_ok g h' \<and> dns_rest h' = dns_rest (h\<lparr>hn_conns := fst (receive_on side c data dir (hn_conns h))\<rparr>) \<and> hn_cache h' = hn_cache h"
proof -
  obtain conns ms where r: "receive_on side c data dir (hn_conns h) = (conns, ms)" by (metis surj_pair)
  let ?h = "h\<lparr>hn_conns := conns\<rparr>"
  let ?I = "\<lambda>s. dns_ok g s \<and> dns_rest s = dns_rest ?h \<and> hn_cache s = hn_cache h"
  have "\<exists>s' out. got_dns_message (dns_class sk static to_json) sk libs now x s = Some (s', out) \<and> ?I s'"
    if "x \<in> set ms" "?I s" for x s
  proof -
    obtain cp m where x: "x = (cp, m)" by (cases x)
    have l: "layer_ok (new_layer m)" using assms(2) r that(1) x by (auto simp: list_all_iff intro: message_layer_ok)
    show ?thesis
      using dns_message_ok [of g s, OF _ l, of sk static to_json libs now "cp_dir cp" "cp_l3 cp" P_TCP "cp_flowKey cp" "cp_port cp" "cp_stamp cp"]
        that(2) by (auto simp: got_dns_message_def x Let_def)
  qed
  then have "\<exists>s' outs. run_steps (got_dns_message (dns_class sk static to_json) sk libs now) ms ?h = Some (s', outs) \<and> ?I s'"
    by (rule run_steps_keep) (simp_all add: assms(1))
  then show ?thesis by (simp add: tcp_message_ready_cb_def r)
qed

subsection \<open>Runs\<close>

fun event_keys :: "dns_event \<Rightarrow> (u32 \<times> timespec) list" where
  "event_keys (Ev_Udp _ _ _ k stamp) = [(k, stamp)]"
| "event_keys (Ev_Tcp_Reassembled _ _ _ k stamp) = [(k, stamp)]"
| "event_keys _ = []"

definition cache_keys :: "(timespec \<times> dns_event) list \<Rightarrow> (u32 \<times> timespec) list" where
  "cache_keys es = concat (map (event_keys \<circ> snd) es)"

fun conns_after :: "dns_event \<Rightarrow> dns_flows \<Rightarrow> dns_flows" where
  "conns_after (Ev_Tcp_Start c dir) conns =
     (let port = metric_port (cd_src_port c) (cd_dst_port c) in
      if map_of conns (cd_flow_key c) = None \<and> port \<noteq> 0
      then AList.update (cd_flow_key c) (new_tcp_flow (cd_ipv4 c \<noteq> None) port) conns else conns)"
| "conns_after (Ev_Tcp_Message side c data dir) conns = fst (receive_on side c data dir conns)"
| "conns_after (Ev_Tcp_End c reason) conns = AList.delete (cd_flow_key c) conns"
| "conns_after _ conns = conns"

text \<open>Packets, and the messages that come out of a TCP connection, that can be read to their end.\<close>

fun event_ok :: "dns_event \<Rightarrow> dns_flows \<Rightarrow> bool" where
  "event_ok (Ev_Udp p _ _ _ _) conns = message_ok (dp_data p)"
| "event_ok (Ev_Tcp_Reassembled p _ _ _ _) conns = message_ok (dp_data p)"
| "event_ok (Ev_Tcp_Message side c data dir) conns = list_all (\<lambda>(_, m). message_ok m) (snd (receive_on side c data dir conns))"
| "event_ok (Ev_Dnstap d sz) conns = False"
| "event_ok _ conns = True"

fun events_ok :: "(timespec \<times> dns_event) list \<Rightarrow> dns_flows \<Rightarrow> bool" where
  "events_ok [] conns = True"
| "events_ok ((now, e) # es) conns = (event_ok e conns \<and> events_ok es (conns_after e conns))"

definition tcp_connected :: "('r, 'q, 'f, 'c, 'd, 'j) dns_handler \<Rightarrow> bool" where
  "tcp_connected h \<longleftrightarrow> list_all (\<lambda>s. s \<in> set (hn_connected h)) [DS_Tcp_Start, DS_Tcp_End, DS_Tcp_Message]"

lemma dns_rest_fields:
  "dns_rest h = dns_rest h' \<Longrightarrow> hn_conns h = hn_conns h' \<and> hn_connected h = hn_connected h'"
  by (simp add: dns_rest_def)

lemma dns_check_period_shift_tallied:
  assumes "dns_tallied g (dn_metrics m)"
  shows "dns_tallied g (dn_metrics (dns_check_period_shift (dns_class sk static to_json) sk now stamp m))"
proof -
  have "dns_tallied g (fst (check_period_shift (dns_class sk static to_json) now stamp (dn_metrics m)))"
    by (rule dns.tallied_check [OF assms])
  then show ?thesis
    by (simp add: dns_check_period_shift_def dns_on_period_shift_def Let_def case_prod_beta timed_out_keeps)
qed

lemma udp_inv_fields:
  "udp_inv g n key h h' \<Longrightarrow> dns_ok g h' \<and> hn_connected h' = hn_connected h \<and> hn_conns h' = hn_conns h
     \<and> (cache_key h' = key \<or> cache_key h' = cache_key h)"
  by (simp add: udp_inv_def dns_rest_def)

lemma dns_handle_ok:
  assumes "dns_ok g h" "tcp_connected h" "event_ok e (hn_conns h)" "cache_key h \<notin> set (event_keys e)"
  shows "\<exists>h' outs. dns_handle (dns_class sk static to_json) sk libs now n e h = Some (h', outs)
    \<and> dns_ok g h' \<and> hn_connected h' = hn_connected h \<and> hn_conns h' = conns_after e (hn_conns h)
    \<and> cache_key h' \<in> insert (cache_key h) (set (event_keys e))"
proof (cases e)
  case (Ev_Udp p dir l3 k stamp)
  then obtain h' outs where h': "dns_udp_packet (dns_class sk static to_json) sk libs now n p dir l3 k stamp h = Some (h', outs)"
      "udp_inv g n (k, stamp) h h'"
    using dns_udp_packet_ok [OF assms(1)] assms(3,4) by (metis event_keys.simps(1) event_ok.simps(1) list.set_intros(1))
  then show ?thesis using Ev_Udp udp_inv_fields [OF h'(2)] by (simp add: dns_handle_def) blast
next
  case (Ev_Tcp_Reassembled p dir l3 k stamp)
  have "udp_inv g n (k, stamp) h h" using assms Ev_Tcp_Reassembled by (simp add: udp_inv_def cache_good_def)
  then obtain h' outs where h': "process_tcp_reassembled_packet_cb (dns_class sk static to_json) sk libs now n p dir l3 k stamp h = Some (h', outs)"
      "udp_inv g n (k, stamp) h h'"
    using process_tcp_reassembled_ok assms(3) Ev_Tcp_Reassembled by (metis event_ok.simps(2))
  then show ?thesis
    using Ev_Tcp_Reassembled assms(1) udp_inv_fields [OF h'(2)] by (simp add: dns_handle_def dns_slot_def) blast
next
  case (Ev_Tcp_Message side c data dir)
  then obtain h' outs where h': "tcp_message_ready_cb (dns_class sk static to_json) sk libs now side c data dir h = Some (h', outs)"
    "dns_ok g h'" "dns_rest h' = dns_rest (h\<lparr>hn_conns := fst (receive_on side c data dir (hn_conns h))\<rparr>)" "hn_cache h' = hn_cache h"
    using tcp_message_ok [OF assms(1)] assms(3) by (metis event_ok.simps(3))
  then show ?thesis
    using Ev_Tcp_Message assms(2) dns_rest_fields [OF h'(3)]
    by (simp add: dns_handle_def dns_slot_def tcp_connected_def cache_key_def)
qed (use assms dns.tallied_set_start dns.tallied_set_end dns_check_period_shift_tallied [of g "dns_metrics h"] in
    \<open>auto simp: dns_handle_def dns_slot_def tcp_connected_def dns_ok_def cache_key_def on_dns_base_def Let_def
       tcp_connection_start_cb_def tcp_connection_end_cb_def set_dns_metrics_def\<close>)

lemma dns_run_ok:
  assumes "dns_ok g h" "tcp_connected h" "events_ok es (hn_conns h)" "distinct (cache_key h # cache_keys es)"
  shows "\<exists>h' outs. dns_run (dns_class sk static to_json) sk libs n es h = Some (h', outs) \<and> dns_ok g h'"
  using assms
proof (induction es arbitrary: h n)
  case (Cons x es)
  obtain now e where x: "x = (now, e)" by (cases x)
  have e: "event_ok e (hn_conns h)" "events_ok es (conns_after e (hn_conns h))" "cache_key h \<notin> set (event_keys e)"
    using Cons.prems x by (auto simp: cache_keys_def)
  obtain h1 outs where h1: "dns_handle (dns_class sk static to_json) sk libs now n e h = Some (h1, outs)"
    "dns_ok g h1" "hn_connected h1 = hn_connected h" "hn_conns h1 = conns_after e (hn_conns h)"
    "cache_key h1 \<in> insert (cache_key h) (set (event_keys e))"
    using dns_handle_ok [OF Cons.prems(1,2) e(1,3)] by blast
  have "distinct (cache_key h1 # cache_keys es)" using Cons.prems(4) h1(5) by (auto simp: cache_keys_def x)
  moreover have "tcp_connected h1" "events_ok es (hn_conns h1)" using Cons.prems(2) h1(3,4) e(2) by (simp_all add: tcp_connected_def)
  ultimately obtain h' outs' where "dns_run (dns_class sk static to_json) sk libs (Suc n) es h1 = Some (h', outs')" "dns_ok g h'"
    using Cons.IH [OF h1(2)] by blast
  then show ?case using h1(1) x by simp
qed simp

subsection \<open>Starting\<close>

text \<open>What the settings leave alone before the last step, which is about the metrics.\<close>

definition setup_frame where
  "setup_frame h = (hn_base h, hn_proxy h, hn_cache h, hn_conns h, hn_event_proxy h, hn_connected h)"

definition keeps_frame where
  "keeps_frame f \<longleftrightarrow> (\<forall>h h'. f h = Inr h' \<longrightarrow> setup_frame h' = setup_frame h)"

lemma setup_frame_simps [simp]:
  "setup_frame (filters_upd f h) = setup_frame h"
  "setup_frame (enable_filter x h) = setup_frame h"
  "setup_frame (register_predicate_filter x k v h) = setup_frame h"
  "setup_frame (add_rcode r v h) = setup_frame h"
  "setup_frame (add_qname q h) = setup_frame h"
  by (simp_all add: setup_frame_def filters_upd_def enable_filter_def register_predicate_filter_def add_rcode_def add_qname_def Let_def)

lemma add_rcodes_frame: "add_rcodes rs h = Inr h' \<Longrightarrow> setup_frame h' = setup_frame h"
  by (induction rs h rule: add_rcodes.induct) (auto simp: sum_bind_def split: if_splits sum.splits option.splits)

lemma add_qtypes_frame: "add_qtypes qs h = Inr h' \<Longrightarrow> setup_frame h' = setup_frame h"
  by (induction qs h rule: add_qtypes.induct) (auto simp: sum_bind_def Let_def split: if_splits sum.splits option.splits)

lemma fold_add_qname_frame [simp]: "setup_frame (fold add_qname qs h) = setup_frame h"
  by (induction qs arbitrary: h) simp_all

lemma setups_keep_frame:
  "keeps_frame (setup_rcode c)" "keeps_frame (setup_flag k x c)" "keeps_frame (setup_answer_count c)" "keeps_frame (setup_qtype c)"
  "keeps_frame (setup_qname c)" "keeps_frame (setup_qname_suffix c)" "keeps_frame (setup_dnstap_type c)"
  "keeps_frame (setup_public_suffix c)"
  unfolding keeps_frame_def setup_rcode_def setup_flag_def setup_answer_count_def setup_qtype_def setup_qname_def
    setup_qname_suffix_def setup_dnstap_type_def setup_public_suffix_def with_texts_def sum_bind_def Let_def
  by (auto dest: add_rcodes_frame add_qtypes_frame split: if_splits sum.splits option.splits)

lemma in_turn_snoc: "in_turn (fs @ [f]) h = Inr h' \<Longrightarrow> \<exists>h1. in_turn fs h = Inr h1 \<and> f h1 = Inr h'"
  by (induction fs arbitrary: h) (auto simp: sum_bind_def split: sum.splits)

lemma in_turn_frame: "list_all keeps_frame fs \<Longrightarrow> in_turn fs h = Inr h' \<Longrightarrow> setup_frame h' = setup_frame h"
  by (induction fs arbitrary: h) (auto simp: sum_bind_def keeps_frame_def split: sum.splits)

lemma setup_all_frame:
  assumes "setup_all c h = Inr h'"
  shows "\<exists>h1. setup_frame h1 = setup_frame h \<and> setup_metrics c h1 = Inr h'"
proof -
  let ?fs = "[setup_rcode c, setup_flag ''only_queries'' OnlyQueries c, setup_flag ''only_responses'' OnlyResponses c,
      setup_flag ''only_dnssec_response'' OnlyDNSSECResponse c, setup_answer_count c, setup_qtype c, setup_qname c,
      setup_qname_suffix c, setup_flag ''geoloc_notfound'' GeoLocNotFound c, setup_flag ''asn_notfound'' AsnNotFound c,
      setup_dnstap_type c, setup_public_suffix c]"
  have "in_turn (?fs @ [setup_metrics c]) h = Inr h'" using assms by (simp only: setup_all_def append.simps)
  from in_turn_snoc [OF this] obtain h1 where "in_turn ?fs h = Inr h1" "setup_metrics c h1 = Inr h'" by (elim exE conjE)
  moreover have "list_all keeps_frame ?fs"
    by (intro list.pred_inject(1) conjI setups_keep_frame list.pred_inject(2) [THEN iffD2])
  ultimately show ?thesis using in_turn_frame [of ?fs h h1] by (intro exI [of _ h1] conjI)
qed

lemma setup_metrics_ok:
  assumes "setup_metrics c h = Inr h'" "dns_tallied g (sh_metrics (hn_base h))"
  shows "dns_tallied g (sh_metrics (hn_base h'))" "sh_groups (hn_base h') = sh_groups (hn_base h)"
    "hn_cache h' = hn_cache h" "hn_conns h' = hn_conns h" "hn_proxy h' = hn_proxy h"
proof -
  let ?h = "if config_exists c ''recorded_stream'' then on_dns_base set_recorded_stream h else h"
  have "dns_tallied g (sh_metrics (hn_base ?h))" using assms(2) by (simp add: on_dns_base_def dns.tallied_recorded)
  moreover have "sh_metrics (hn_base h') = sh_metrics (hn_base ?h)"
    using assms(1) by (auto simp: setup_metrics_def sum_bind_def Let_def dns_set_xact_ttl_def split: sum.splits option.splits)
  ultimately show "dns_tallied g (sh_metrics (hn_base h'))" by simp
  show "sh_groups (hn_base h') = sh_groups (hn_base h)" "hn_cache h' = hn_cache h" "hn_conns h' = hn_conns h" "hn_proxy h' = hn_proxy h"
    using assms(1)
    by (auto simp: setup_metrics_def sum_bind_def Let_def set_dns_metrics_def on_dns_base_def split: sum.splits option.splits if_splits)
qed

lemma dns_start_ok:
  assumes "new_dns_handler base DP_Pcap chained = Inr h0" "dns_start c h0 = Inr h"
    "sh_metrics base = new_manager (dns_class sk static to_json) cfg now now'"
  shows "dns_tallied (sh_groups (hn_base h)) (sh_metrics (hn_base h))" "tcp_connected h" "hn_conns h = []" "cache_key h = (0, ts 0 0)"
proof -
  have h0: "hn_base h0 = base" "hn_proxy h0 = DP_Pcap" "\<not> hn_running h0" "hn_cache h0 = new_dns_cache" "hn_conns h0 = []"
    using assms(1) by (auto simp: new_dns_handler_def)
  obtain b h2 where b: "process_groups dns_group_defs c (base\<lparr>sh_groups :=
        fold set_bit [Dns_Cardinality, Dns_Counters, Dns_Quantiles, Dns_Transactions, Dns_TopQnames, Dns_TopPorts] (sh_groups base)\<rparr>) = Inr b"
    "setup_all c (h0\<lparr>hn_base := b\<rparr>) = Inr h2"
    "h = h2\<lparr>hn_connected := dns_signals (hn_proxy h2) (hn_using_predicates h2), hn_running := True\<rparr>"
    using assms(2) h0 by (auto simp: dns_start_def Let_def sum_bind_def split: option.splits sum.splits)
  have "sh_metrics b = configure_groups (Some (sh_groups b)) (sh_metrics base)"
    using b(1) by (auto simp: process_groups_def split: sum.splits)
  then have tb: "dns_tallied (sh_groups b) (sh_metrics b)" using dns.tallied_new assms(3) by metis
  obtain h1 where h1: "setup_frame h1 = setup_frame (h0\<lparr>hn_base := b\<rparr>)" "setup_metrics c h1 = Inr h2"
    using setup_all_frame [OF b(2)] by blast
  then have f: "hn_base h1 = b" "hn_proxy h1 = DP_Pcap" "hn_cache h1 = new_dns_cache" "hn_conns h1 = []"
    using h0 by (simp_all add: setup_frame_def)
  note m = setup_metrics_ok [OF h1(2), of "sh_groups b"]
  show "dns_tallied (sh_groups (hn_base h)) (sh_metrics (hn_base h))" "hn_conns h = []"
    using m tb f b(3) by simp_all
  show "tcp_connected h" using m tb f b(3) by (simp add: tcp_connected_def dns_signals_def)
  show "cache_key h = (0, ts 0 0)" using m tb f b(3) by (simp add: cache_key_def new_dns_cache_def)
qed

text \<open>
  C8: The DNS handler accounts for every message. From a handler that was started on a capture with the
  counters on, client subnets off and no filter on places, any sequence of UDP packets, reassembled
  messages, TCP connections and data, heartbeats and time stamps, but no dnstap message, is processed to its end, with any
  of the other filters, through the plain signal or through predicates, if every message can be read to its end
  and all UDP packets and reassembled messages of the sequence differ in their flow or their time, from each other and from flow 0 at time 0,
  the key of the empty cache. Then in every bucket, and in every merge of the last buckets, queries and replies
  add up to the total, and the number of events is the total plus the filtered ones.
\<close>

theorem dns_events_accounted:
  assumes "new_dns_handler base DP_Pcap chained = Inr h0"
    "sh_metrics base = new_manager (dns_class sk static to_json) cfg now now'"
    "dns_start c h0 = Inr h" "group_enabled (sh_groups (hn_base h)) Dns_Counters" "\<not> group_enabled (sh_groups (hn_base h)) Dns_TopEcs"
    "GeoLocNotFound \<notin> set (df_enabled (hn_filters h))" "AsnNotFound \<notin> set (df_enabled (hn_filters h))"
    "events_ok es []" "distinct ((0, ts 0 0) # cache_keys es)"
  shows "\<exists>h' outs. dns_run (dns_class sk static to_json) sk libs 0 es h = Some (h', outs)
    \<and> (\<forall>b. b \<in> set (mm_buckets (sh_metrics (hn_base h')))
           \<or> (\<exists>n now. n \<noteq> 0 \<and> b = merged_window (dns_class sk static to_json) now n (sh_metrics (hn_base h'))) \<longrightarrow>
         (let c = ds_counters (b_spec b); v = c_value in
           v (dc_queries c) + v (dc_replies c) = v (dc_total c) \<and> v (dc_total c) + v (dc_filtered c) = b_num_events b))"
proof -
  let ?g = "sh_groups (hn_base h)"
  note start = dns_start_ok [OF assms(1,3,2)]
  have "dns_ok ?g h" using start(1) assms(4-7) by (simp add: dns_ok_def)
  then obtain h' outs where r: "dns_run (dns_class sk static to_json) sk libs 0 es h = Some (h', outs)" "dns_ok ?g h'"
    using dns_run_ok [of ?g h es sk static to_json libs 0] start(2-4) assms(8,9) by auto
  have "accounted dns_balanced dns_tally (Some ?g) b" if "b \<in> set (mm_buckets (sh_metrics (hn_base h')))" for b
    using r(2) that by (auto simp: dns_ok_def tallied_def list_all_iff)
  moreover have "accounted dns_balanced dns_tally (Some ?g) (merged_window (dns_class sk static to_json) now n (sh_metrics (hn_base h')))"
    if "n \<noteq> 0" for now n
    by (rule dns.accounted_merged_window) (use r(2) that in \<open>simp_all add: dns_ok_def\<close>)
  ultimately show ?thesis
    using r(1) by (auto simp: accounted_def dns_balanced_def dns_tally_def Let_def)
qed

subsection \<open>A handler that was started\<close>

definition small_reply :: "byte list" where
  "small_reply = small_query[2 := 128]"

lemma small_messages:
  "message_ok small_query" "message_ok small_reply"
  "getDnsHeader (new_layer small_query) = Some \<lparr>dh_transactionID = 256, dh_response = False, dh_responseCode = 0, dh_answers = 0, dh_additionals = 0\<rparr>"
  "getDnsHeader (new_layer small_reply) = Some \<lparr>dh_transactionID = 256, dh_response = True, dh_responseCode = 0, dh_answers = 0, dh_additionals = 0\<rparr>"
  by code_simp+

definition demo_dns_sketches :: "(unit, unit, unit, unit, unit) dns_sketches" where
  "demo_dns_sketches = sketches.extend unit_sketches
     \<lparr>sk_ratio = unit_kll, ratio_text = (\<lambda>_. []), hist_bounds = [], product_text = (\<lambda>_ _. [])\<rparr>"

definition demo_dns_libs :: dns_libs where
  "demo_dns_libs =
     \<lparr>city_enabled = False, city_loc = (\<lambda>_. no_city), asn_enabled = False, asn_text = (\<lambda>_. []), city_loc_str = (\<lambda>_. no_city),
      asn_text_str = (\<lambda>_. []), lib_ntop4 = (\<lambda>_. None), lib_ntop6 = (\<lambda>_. None), lib_suffixes = (\<lambda>_. None)\<rparr>"

definition demo_dns_class :: "(unit, unit, unit, unit, unit, unit) dns_bucket_class" where
  "demo_dns_class = dns_class demo_dns_sketches [] (\<lambda>_ _ _ _ j. j)"

definition demo_dns_base :: "(unit, (unit, unit, unit, unit, unit) dns_bucket, unit) stream_handler" where
  "demo_dns_base =
     \<lparr>sh_name = ''dns'', sh_schema_key = DNS_SCHEMA, sh_version = ''1.0'', sh_class = 0,
      sh_metrics = new_manager demo_dns_class no_config (ts 0 0) (ts 0 0), sh_groups = 0, sh_last_window = None, sh_last_live = None\<rparr>"

definition demo_dns0 :: "(unit, unit, unit, unit, unit, unit) dns_handler" where
  "demo_dns0 = projr (new_dns_handler demo_dns_base DP_Pcap True)"

definition demo_dns :: "conf \<Rightarrow> (unit, unit, unit, unit, unit, unit) dns_handler" where
  "demo_dns c = projr (dns_start c demo_dns0)"

definition demo_dns_packet :: "byte list \<Rightarrow> dns_packet" where
  "demo_dns_packet data =
     \<lparr>dp_src_port = 9999, dp_dst_port = 53, dp_addresses = \<lparr>cd_ipv4 = Some (1, 2), cd_ipv6 = ([], [])\<rparr>, dp_data = data\<rparr>"

definition demo_conn :: tcp_connection where
  "demo_conn = \<lparr>cd_ipv4 = Some (1, 2), cd_ipv6 = ([], []), cd_flow_key = 8, cd_src_port = 9999, cd_dst_port = 53, cd_end_time = (61, 0)\<rparr>"

definition demo_dns_events :: "(timespec \<times> dns_event) list" where
  "demo_dns_events =
     [(ts 60 0, Ev_Udp (demo_dns_packet small_query) ToHost P_IPv4 7 (ts 60 0)),
      (ts 61 0, Ev_Tcp_Message False demo_conn (take 5 (frame small_query)) ToHost),
      (ts 61 0, Ev_Tcp_Message False demo_conn (drop 5 (frame small_query)) ToHost),
      (ts 90 0, Ev_Udp (demo_dns_packet small_reply) FromHost P_IPv4 7 (ts 90 0))]"

lemma demo_dns_new:
  "new_dns_handler demo_dns_base DP_Pcap True = Inr demo_dns0"
  "sh_metrics demo_dns_base = new_manager (dns_class demo_dns_sketches [] (\<lambda>_ _ _ _ j. j)) no_config (ts 0 0) (ts 0 0)"
  by (simp_all add: new_dns_handler_def demo_dns0_def demo_dns_base_def demo_dns_class_def)

lemma setup_nothing: "setup_all [] h = Inr h"
  by (simp add: setup_all_def setup_rcode_def setup_flag_def setup_answer_count_def setup_qtype_def setup_qname_def setup_qname_suffix_def
      setup_dnstap_type_def setup_public_suffix_def setup_metrics_def with_texts_def config_flag_def config_exists_def configured_ttl_def
      sum_bind_def Let_def)

lemma demo_dns_started:
  "dns_start [] demo_dns0 = Inr (demo_dns [])"
  "group_enabled (sh_groups (hn_base (demo_dns []))) Dns_Counters"
  "\<not> group_enabled (sh_groups (hn_base (demo_dns []))) Dns_TopEcs"
  "df_enabled (hn_filters (demo_dns [])) = []"
  by (simp_all add: demo_dns_def demo_dns0_def new_dns_handler_def dns_start_def setup_nothing demo_dns_base_def
      validate_configs_def get_all_keys_def process_groups_def with_list_def config_exists_def sum_bind_def window_config_defs_def
      group_enabled_def Dns_Counters_def Dns_TopEcs_def Dns_Cardinality_def Dns_Quantiles_def Dns_Transactions_def Dns_TopQnames_def
      Dns_TopPorts_def no_dns_filters_def bit_simps Let_def)

lemma demo_dns_events_ok: "events_ok demo_dns_events []" "distinct ((0, ts 0 0) # cache_keys demo_dns_events)"
  by code_simp+


theorem dns_events_accounted_witness:
  "map_option (list_all (\<lambda>b. dns_tally (b_spec b) = b_num_events b) \<circ> mm_buckets \<circ> sh_metrics \<circ> hn_base \<circ> fst)
     (dns_run demo_dns_class demo_dns_sketches demo_dns_libs 0 demo_dns_events (demo_dns [])) = Some True"
proof -
  have f: "GeoLocNotFound \<notin> set (df_enabled (hn_filters (demo_dns [])))" "AsnNotFound \<notin> set (df_enabled (hn_filters (demo_dns [])))"
    by (simp_all add: demo_dns_started)
  from dns_events_accounted [OF demo_dns_new demo_dns_started(1-3) f demo_dns_events_ok, of demo_dns_libs] show ?thesis
    by (auto simp: demo_dns_class_def list_all_iff dns_tally_def Let_def)
qed

end
