(* ===== verification/DnsPairs.thy ===== *)
theory DnsPairs
  imports DnsRuns Pairing
begin

text \<open>
  What is proved of the DNS handler beyond the account of its messages: replies are matched with their
  queries, the predicates select the messages of the filter they stand for, and two flaws of
  the code, both about messages that carry or count more than they should.
\<close>

subsection \<open>Queries and replies\<close>

text \<open>What reaches the manager of the handler.\<close>

datatype dns_input =
    In_Layer dns_layer direction protocol protocol u32 u16 nat timespec
  | In_Filtered timespec
  | In_Heartbeat timespec

definition dns_input_step ::
  "('r, 'q, 'f, 'c, 'd, 'j) dns_bucket_class \<Rightarrow> ('r, 'q, 'f, 'c, 'd) dns_sketches \<Rightarrow> dns_libs \<Rightarrow> timespec \<times> dns_input
     \<Rightarrow> ('r, 'q, 'f, 'c, 'd, 'j) dns_manager \<Rightarrow> ('r, 'q, 'f, 'c, 'd, 'j) dns_manager option" where
  "dns_input_step cls sk libs = (\<lambda>(now, e) m.
     case e of
       In_Layer l dir l3 l4 flowkey port n stamp \<Rightarrow> map_option fst (process_dns_layer cls sk libs now l dir l3 l4 flowkey port n stamp m)
     | In_Filtered stamp \<Rightarrow> dns_manager_filtered cls sk now stamp m
     | In_Heartbeat stamp \<Rightarrow> Some (dns_check_period_shift cls sk now stamp m))"

fun dns_input_stamp :: "dns_input \<Rightarrow> timespec" where
  "dns_input_stamp (In_Layer _ _ _ _ _ _ _ stamp) = stamp"
| "dns_input_stamp (In_Filtered stamp) = stamp"
| "dns_input_stamp (In_Heartbeat stamp) = stamp"

fun about_dns_xact :: "u32 \<times> u16 \<Rightarrow> dns_input \<Rightarrow> bool" where
  "about_dns_xact key (In_Layer l _ _ _ flowkey _ _ _) =
     (case getDnsHeader l of Some h \<Rightarrow> key = (flowkey, dh_transactionID h) | None \<Rightarrow> False)"
| "about_dns_xact key _ = False"

fun dns_may :: "timespec \<times> dns_input \<Rightarrow> (u32 \<times> u16, 'x) xact_op \<Rightarrow> bool" where
  "dns_may (now, e) (Purge t) = (t = dns_input_stamp e)"
| "dns_may (now, e) (Start key x) = about_dns_xact key e"
| "dns_may (now, e) (End key t) = about_dns_xact key e"

lemma parse_loop_data: "parse_loop qo ao n counts off cur l = Some (l', res) \<Longrightarrow> l_data l' = l_data l"
proof (induction n arbitrary: counts off cur l)
  case (Suc n)
  have nf: "l_data (fst (note_first qo ao r l)) = l_data l" for r l by (simp add: note_first_def)
  have lk: "l_data (fst (link_resource r l c)) = l_data l" for r l c by (simp add: link_resource_def)
  obtain r where r: "new_resource (l_data l) off (fst (next_type counts)) = Some r"
    using Suc.prems by (auto simp: case_prod_beta Let_def split: option.splits)
  obtain sz where sz: "getSize (l_data l) r = Some sz" using getSize_defined by blast
  let ?l = "fst (note_first qo ao r (fst (link_resource r l cur)))"
  have "l' = l \<or> l' = ?l \<or> parse_loop qo ao n (snd (next_type counts)) (off + sz) (snd (link_resource r l cur)) ?l = Some (l', res)"
    using Suc.prems r sz by (auto simp: case_prod_beta Let_def split: if_splits)
  then show ?case using Suc.IH nf lk by metis
qed simp

lemma parseResources_data: "parseResources qo ao force l = Some (l', res) \<Longrightarrow> l_data l' = l_data l"
  by (auto simp: parseResources_def Let_def split: if_splits option.splits dest!: parse_loop_data)

lemma process_ecs_data: "process_ecs sk libs g h (s, l) = Some (s', l') \<Longrightarrow> l_data l' = l_data l"
  by (auto simp: process_ecs_def Option.bind_eq_Some_conv split: if_splits option.splits dest!: parseResources_data)

lemma bucket_dns_layer_data: "bucket_dns_layer sk libs l3 l4 port n l deep g s = Some (s', l') \<Longrightarrow> l_data l' = l_data l"
  by (auto simp: bucket_dns_layer_def Let_def Option.bind_eq_Some_conv split: if_splits dest!: parseResources_data process_ecs_data)

lemma live_step_result: "live_step f m = Some (m', x) \<Longrightarrow> \<exists>deep g s s'. f deep g s = Some (s', x)"
  by (auto simp: live_step_def Option.bind_eq_Some_conv)

lemma header_data: "l_data l' = l_data l \<Longrightarrow> getDnsHeader l' = getDnsHeader l"
  by (simp add: getDnsHeader_def)

lemma dns_new_event_ops:
  "\<exists>ops. dn_xacts (dns_new_event cls sk now stamp sample m) = fold xact_step ops (dn_xacts m) \<and> (ops = [] \<or> ops = [Purge stamp])"
  by (rule exI [of _ "if will_shift stamp (dn_metrics m) then [Purge stamp] else []"])
    (simp add: dns_new_event_def dns_on_period_shift_def Let_def case_prod_beta)

lemma dns_transaction_xacts:
  assumes "dns_transaction sk dir k stamp h l m = Some m'"
  shows "dn_xacts m' = xact_step (if dh_response h then End (k, dh_transactionID h) stamp
      else Start (k, dh_transactionID h) \<lparr>startTS = stamp, totalTS = ts 0 0, x_querySize = length (l_data l)\<rparr>) (dn_xacts m)"
  using assms by (auto simp: dns_transaction_def Let_def split: if_splits prod.splits xact_result.splits option.splits)

lemma process_dns_layer_steps:
  assumes "process_dns_layer cls sk libs now l dir l3 l4 k port n stamp m = Some (m', l')"
  shows "l_data l' = l_data l"
    and "\<exists>mm g. live_step (bucket_dns_layer sk libs l3 (pcpp_to_protocol l4) port n l)
        (dn_metrics (dns_new_event cls sk now stamp True m)) = Some (mm, l') \<and> mm_groups mm = Some g
      \<and> (if group_enabled g Dns_Transactions
         then \<exists>h. getDnsHeader l = Some h \<and> dns_transaction sk dir k stamp h l' ((dns_new_event cls sk now stamp True m)\<lparr>dn_metrics := mm\<rparr>) = Some m'
         else m' = (dns_new_event cls sk now stamp True m)\<lparr>dn_metrics := mm\<rparr>)"
proof -
  let ?m = "dns_new_event cls sk now stamp True m"
  obtain mm g where s: "live_step (bucket_dns_layer sk libs l3 (pcpp_to_protocol l4) port n l) (dn_metrics ?m) = Some (mm, l')"
    "mm_groups mm = Some g"
    "if group_enabled g Dns_Transactions
     then \<exists>h. getDnsHeader l' = Some h \<and> dns_transaction sk dir k stamp h l' (?m\<lparr>dn_metrics := mm\<rparr>) = Some m'
     else m' = ?m\<lparr>dn_metrics := mm\<rparr>"
    using assms by (auto simp: process_dns_layer_def Let_def Option.bind_eq_Some_conv split: if_splits)
  show d: "l_data l' = l_data l" using live_step_result [OF s(1)] bucket_dns_layer_data by blast
  show "\<exists>mm g. live_step (bucket_dns_layer sk libs l3 (pcpp_to_protocol l4) port n l) (dn_metrics ?m) = Some (mm, l')
      \<and> mm_groups mm = Some g
      \<and> (if group_enabled g Dns_Transactions
         then \<exists>h. getDnsHeader l = Some h \<and> dns_transaction sk dir k stamp h l' (?m\<lparr>dn_metrics := mm\<rparr>) = Some m'
         else m' = ?m\<lparr>dn_metrics := mm\<rparr>)"
    using s header_data [OF d] by auto
qed

lemma dns_step_ops:
  assumes "dns_input_step cls sk libs ne m = Some m'"
  shows "\<exists>ops. dn_xacts m' = fold xact_step ops (dn_xacts m) \<and> list_all (dns_may ne) ops"
proof -
  obtain now e where ne: "ne = (now, e)" by (cases ne)
  show ?thesis
  proof (cases e)
    case (In_Layer l dir l3 l4 k port n stamp)
    let ?m = "dns_new_event cls sk now stamp True m"
    obtain ops where ops: "dn_xacts ?m = fold xact_step ops (dn_xacts m)" "ops = [] \<or> ops = [Purge stamp]"
      using dns_new_event_ops by blast
    obtain l' where p: "process_dns_layer cls sk libs now l dir l3 l4 k port n stamp m = Some (m', l')"
      using assms by (auto simp: dns_input_step_def ne In_Layer)
    from process_dns_layer_steps(2) [OF p] obtain mm where
      "m' = ?m\<lparr>dn_metrics := mm\<rparr> \<or> (\<exists>h. getDnsHeader l = Some h \<and> dns_transaction sk dir k stamp h l' (?m\<lparr>dn_metrics := mm\<rparr>) = Some m')"
      by (auto split: if_splits)
    then show ?thesis
    proof (elim disjE exE conjE)
      fix h assume h: "getDnsHeader l = Some h" "dns_transaction sk dir k stamp h l' (?m\<lparr>dn_metrics := mm\<rparr>) = Some m'"
      show ?thesis
        using dns_transaction_xacts [OF h(2)] ops h(1)
        by (intro exI [of _ "ops @ [if dh_response h then End (k, dh_transactionID h) stamp
          else Start (k, dh_transactionID h) \<lparr>startTS = stamp, totalTS = ts 0 0, x_querySize = length (l_data l')\<rparr>]"])
          (auto simp: ne In_Layer)
    qed (use ops in \<open>auto simp: ne In_Layer intro!: exI [of _ ops]\<close>)
  next
    case (In_Filtered stamp)
    obtain ops where ops: "dn_xacts (dns_new_event cls sk now stamp False m) = fold xact_step ops (dn_xacts m)" "ops = [] \<or> ops = [Purge stamp]"
      using dns_new_event_ops by blast
    then show ?thesis
      using assms by (intro exI [of _ ops]) (auto simp: dns_input_step_def ne In_Filtered dns_manager_filtered_def Let_def)
  next
    case (In_Heartbeat stamp)
    then show ?thesis
      using assms by (intro exI [of _ "if will_shift stamp (dn_metrics m) then [Purge stamp] else []"])
        (auto simp: dns_input_step_def ne dns_check_period_shift_def dns_on_period_shift_def Let_def case_prod_beta)
  qed
qed

interpretation dns_pairing: pairing dn_xacts "dns_input_step cls sk libs" dns_may for cls sk libs
  by unfold_locales (rule dns_step_ops)

lemma groups_kept [simp]:
  "mm_groups (fst (check_period_shift cls now stamp m)) = mm_groups m"
  "mm_groups (fst (new_event cls now stamp sample m)) = mm_groups m"
  "mm_groups (on_live_bucket f m) = mm_groups m"
  by (simp_all add: new_event_steps check_period_shift_def period_shift_def upd_front_def on_live_bucket_def Let_def)

lemma on_live_groups: "on_live f m = Some m' \<Longrightarrow> mm_groups m' = mm_groups m"
  by (auto simp: on_live_def upd_front_def)

lemma live_step_groups: "live_step f m = Some (m', x) \<Longrightarrow> mm_groups m' = mm_groups m"
  by (auto simp: live_step_def upd_front_def Option.bind_eq_Some_conv)

lemma dns_new_event_groups [simp]:
  "mm_groups (dn_metrics (dns_new_event cls sk now stamp sample m)) = mm_groups (dn_metrics m)"
  by (simp add: dns_new_event_def dns_on_period_shift_def Let_def case_prod_beta)

lemma dns_transaction_groups: "dns_transaction sk dir k stamp h l m = Some m' \<Longrightarrow> mm_groups (dn_metrics m') = mm_groups (dn_metrics m)"
  by (auto simp: dns_transaction_def Let_def on_live_groups split: if_splits prod.splits xact_result.splits option.splits)

lemma process_dns_layer_groups:
  assumes "process_dns_layer cls sk libs now l dir l3 l4 k port n stamp m = Some (m', l')"
  shows "mm_groups (dn_metrics m') = mm_groups (dn_metrics m)"
  using process_dns_layer_steps(2) [OF assms]
  by (auto dest!: live_step_groups dns_transaction_groups split: if_splits)

lemma dns_input_step_groups:
  assumes "dns_input_step cls sk libs ne m = Some m'"
  shows "mm_groups (dn_metrics m') = mm_groups (dn_metrics m)"
  using assms
  by (auto simp: dns_input_step_def dns_manager_filtered_def dns_check_period_shift_def dns_on_period_shift_def Let_def case_prod_beta
      dest!: process_dns_layer_groups on_live_groups split: prod.splits dns_input.splits)

lemma dns_steps_groups: "steps (dns_input_step cls sk libs) es m = Some m' \<Longrightarrow> mm_groups (dn_metrics m') = mm_groups (dn_metrics m)"
  by (induction es arbitrary: m) (auto simp: Option.bind_eq_Some_conv dns_input_step_groups)

lemma demo_dns_xacts: "hn_xacts (demo_dns []) = new_transaction_manager 5000"
  and demo_dns_transactions: "group_enabled (sh_groups (hn_base (demo_dns []))) Dns_Transactions"
  by (simp_all add: demo_dns_def demo_dns0_def new_dns_handler_def dns_start_def setup_nothing demo_dns_base_def
      validate_configs_def get_all_keys_def process_groups_def with_list_def config_exists_def sum_bind_def window_config_defs_def
      group_enabled_def Dns_Counters_def Dns_Cardinality_def Dns_Quantiles_def Dns_Transactions_def Dns_TopQnames_def
      Dns_TopPorts_def bit_simps Let_def)

text \<open>A query opens a transaction, and a reply to a waiting one closes it.\<close>

lemma query_waits:
  assumes "process_dns_layer cls sk libs now l dir l3 l4 k port n stamp m = Some (m', l')" "manager_ok (dn_xacts m)"
    "mm_groups (dn_metrics m) = Some g" "group_enabled g Dns_Transactions" "getDnsHeader l = Some h" "\<not> dh_response h" "normalised stamp"
  shows "waits (k, dh_transactionID h) \<lparr>startTS = stamp, totalTS = ts 0 0, x_querySize = length (l_data l)\<rparr>
    (int (tm_ttl_secs (dn_xacts m))) (dn_xacts m')"
proof -
  let ?m = "dns_new_event cls sk now stamp True m"
  obtain ops where ops: "dn_xacts ?m = fold xact_step ops (dn_xacts m)" using dns_new_event_ops by blast
  have ok: "manager_ok (dn_xacts ?m)" "tm_ttl_secs (dn_xacts ?m) = tm_ttl_secs (dn_xacts m)"
    using manager_ok_ops [OF assms(2), of ops] ops by simp_all
  from process_dns_layer_steps(2) [OF assms(1)] obtain mm where
    t: "dns_transaction sk dir k stamp h l' (?m\<lparr>dn_metrics := mm\<rparr>) = Some m'"
    using assms(3-5) live_step_groups by fastforce
  then show ?thesis
    using waits_started [OF ok(1), of "\<lparr>startTS = stamp, totalTS = ts 0 0, x_querySize = length (l_data l)\<rparr>"] ok(2) assms(6,7)
      dns_transaction_xacts [OF t] process_dns_layer_steps(1) [OF assms(1)] by simp
qed

lemma reply_ends:
  assumes "process_dns_layer cls sk libs now l dir l3 l4 k port n stamp m = Some (m', l')"
    "waits (k, dh_transactionID h) x ttl (dn_xacts m)" "soon ttl (startTS x) stamp" "to_ns (startTS x) \<le> to_ns stamp"
    "mm_groups (dn_metrics m) = Some g" "group_enabled g Dns_Transactions" "getDnsHeader l = Some h" "dh_response h"
  shows "\<exists>mm a b. live_step (bucket_dns_layer sk libs l3 (pcpp_to_protocol l4) port n l)
        (dn_metrics (dns_new_event cls sk now stamp True m)) = Some (mm, l')
      \<and> on_live (new_dns_transaction sk (mm_deep_sampling_now mm) a b l' dir (x\<lparr>totalTS := timespec_diff stamp (startTS x)\<rparr>)) mm = Some (dn_metrics m')
      \<and> map_of (tm_transactions (dn_xacts m')) (k, dh_transactionID h) = None"
proof -
  let ?m = "dns_new_event cls sk now stamp True m"
  obtain ops where "dn_xacts ?m = fold xact_step ops (dn_xacts m)" "ops = [] \<or> ops = [Purge stamp]"
    using dns_new_event_ops by blast
  then have w: "waits (k, dh_transactionID h) x ttl (dn_xacts ?m)" using waits_ops [OF assms(2), of ops] assms(3) by auto
  note e = waits_ends [OF w assms(3,4)]
  from process_dns_layer_steps(2) [OF assms(1)] obtain mm where
    s: "live_step (bucket_dns_layer sk libs l3 (pcpp_to_protocol l4) port n l) (dn_metrics ?m) = Some (mm, l')" and
    t: "dns_transaction sk dir k stamp h l' (?m\<lparr>dn_metrics := mm\<rparr>) = Some m'"
    using assms(5-7) live_step_groups by fastforce
  show ?thesis
    using s t e(1) assms(8)
    by (intro exI [of _ mm] exI [of _ "dn_to90th ?m"] exI [of _ "dn_from90th ?m"]) (auto simp: dns_transaction_def Let_def delete_conv')
qed

text \<open>The metrics of transactions, which a message alone leaves as they are.\<close>

definition xact_metrics where
  "xact_metrics s =
     ((dc_xacts_total (ds_counters s), dc_xacts_in (ds_counters s), dc_xacts_out (ds_counters s), dc_xacts_timed_out (ds_counters s)),
      ds_xactFromTimeUs s, ds_xactToTimeUs s, ds_xactFromHistTimeUs s, ds_xactToHistTimeUs s, ds_xactRatio s, ds_slowXactIn s, ds_slowXactOut s)"

lemma message_keeps_xact_metrics:
  "xact_metrics (in_order (query_metrics sk n g h len name qtype) s) = xact_metrics s"
  "xact_metrics (in_order (ecs_metrics sk libs g subnet) s) = xact_metrics s"
  "xact_metrics (in_order (count_transport l3 l4) s) = xact_metrics s"
  "xact_metrics (in_order (count_header h) s) = xact_metrics s"
  "xact_metrics (in_order (only_if c [ds_topUDPPort_update f]) s) = xact_metrics s"
  "xact_metrics (in_order (only_if c [ds_topRCode_update f]) s) = xact_metrics s"
  "xact_metrics (ds_rate_total_update r s) = xact_metrics s"
  by (rule in_order_keeps; simp add: query_metrics_def ecs_metrics_def count_transport_def count_header_def dns_inc_def xact_metrics_def
      Let_def case_prod_beta split: dns_protocol.split)+
    (simp add: xact_metrics_def)

lemma process_ecs_xact_metrics: "process_ecs sk libs g h (s, l) = Some (s', l') \<Longrightarrow> xact_metrics s' = xact_metrics s"
  by (auto simp: process_ecs_def Option.bind_eq_Some_conv only_if_def message_keeps_xact_metrics split: option.splits if_splits)

lemma process_query_xact_metrics: "process_query sk n g h l s = Some s' \<Longrightarrow> xact_metrics s' = xact_metrics s"
  by (auto simp: process_query_def message_keeps_xact_metrics split: option.splits)

lemma bucket_dns_layer_xact_metrics:
  assumes "bucket_dns_layer sk libs l3 l4 port n l deep g s = Some (s', l')"
  shows "xact_metrics s' = xact_metrics s"
proof -
  obtain s1 where s1: "(if group_enabled g Dns_Counters
      then map_option (\<lambda>h. in_order (count_transport l3 l4 @ count_header h) (ds_rate_total_update rate_inc s)) (getDnsHeader l)
      else Some (ds_rate_total_update rate_inc s)) = Some s1" "xact_metrics s1 = xact_metrics s"
    using assms by (auto simp: bucket_dns_layer_def Let_def Option.bind_eq_Some_conv message_keeps_xact_metrics split: if_splits)
  show ?thesis
    using assms s1
    by (auto simp: bucket_dns_layer_def Let_def Option.bind_eq_Some_conv message_keeps_xact_metrics
        dest!: process_ecs_xact_metrics process_query_xact_metrics split: if_splits)
qed

lemma new_dns_transaction_metrics:
  assumes "xact_metrics s = xact_metrics t"
  shows "dc_xacts_total (ds_counters (new_dns_transaction sk deep a b l dir x g s)) = counter_inc (dc_xacts_total (ds_counters t))"
    "dc_xacts_in (ds_counters (new_dns_transaction sk deep a b l dir x g s)) = (if dir = FromHost then counter_inc else id) (dc_xacts_in (ds_counters t))"
    "dc_xacts_out (ds_counters (new_dns_transaction sk deep a b l dir x g s)) = (if dir = ToHost then counter_inc else id) (dc_xacts_out (ds_counters t))"
    "dc_xacts_timed_out (ds_counters (new_dns_transaction sk deep a b l dir x g s)) = dc_xacts_timed_out (ds_counters t)"
    "ds_xactToTimeUs (new_dns_transaction sk deep a b l dir x g s) =
       (if dir = FromHost \<and> deep \<and> group_enabled g Dns_Quantiles then quantile_update (sk_quantile sk) (xact_time x) else id) (ds_xactToTimeUs t)"
    "ds_xactFromTimeUs (new_dns_transaction sk deep a b l dir x g s) =
       (if dir = ToHost \<and> deep \<and> group_enabled g Dns_Quantiles then quantile_update (sk_quantile sk) (xact_time x) else id) (ds_xactFromTimeUs t)"
    "ds_xactRatio (new_dns_transaction sk deep a b l dir x g s) =
       (if deep \<and> x_querySize x \<noteq> 0 then quantile_update (sk_ratio sk) (real (length (l_data l)) / real (x_querySize x)) else id) (ds_xactRatio t)"
proof -
  have t: "dc_xacts_total (ds_counters s) = dc_xacts_total (ds_counters t)" "dc_xacts_in (ds_counters s) = dc_xacts_in (ds_counters t)"
    "dc_xacts_out (ds_counters s) = dc_xacts_out (ds_counters t)" "dc_xacts_timed_out (ds_counters s) = dc_xacts_timed_out (ds_counters t)"
    "ds_xactToTimeUs s = ds_xactToTimeUs t" "ds_xactFromTimeUs s = ds_xactFromTimeUs t" "ds_xactRatio s = ds_xactRatio t"
    using assms by (simp_all add: xact_metrics_def)
  note d = new_dns_transaction_def dns_inc_def only_if_def Let_def t
  show "dc_xacts_total (ds_counters (new_dns_transaction sk deep a b l dir x g s)) = counter_inc (dc_xacts_total (ds_counters t))"
    by (cases dir; cases "l_first_query l"; simp add: d)
  show "dc_xacts_in (ds_counters (new_dns_transaction sk deep a b l dir x g s)) = (if dir = FromHost then counter_inc else id) (dc_xacts_in (ds_counters t))"
    by (cases dir; cases "l_first_query l"; simp add: d)
  show "dc_xacts_out (ds_counters (new_dns_transaction sk deep a b l dir x g s)) = (if dir = ToHost then counter_inc else id) (dc_xacts_out (ds_counters t))"
    by (cases dir; cases "l_first_query l"; simp add: d)
  show "dc_xacts_timed_out (ds_counters (new_dns_transaction sk deep a b l dir x g s)) = dc_xacts_timed_out (ds_counters t)"
    by (cases dir; cases "l_first_query l"; simp add: d)
  show "ds_xactToTimeUs (new_dns_transaction sk deep a b l dir x g s) =
       (if dir = FromHost \<and> deep \<and> group_enabled g Dns_Quantiles then quantile_update (sk_quantile sk) (xact_time x) else id) (ds_xactToTimeUs t)"
    by (cases dir; cases "l_first_query l"; simp add: d)
  show "ds_xactFromTimeUs (new_dns_transaction sk deep a b l dir x g s) =
       (if dir = ToHost \<and> deep \<and> group_enabled g Dns_Quantiles then quantile_update (sk_quantile sk) (xact_time x) else id) (ds_xactFromTimeUs t)"
    by (cases dir; cases "l_first_query l"; simp add: d)
  show "ds_xactRatio (new_dns_transaction sk deep a b l dir x g s) =
       (if deep \<and> x_querySize x \<noteq> 0 then quantile_update (sk_ratio sk) (real (length (l_data l)) / real (x_querySize x)) else id) (ds_xactRatio t)"
    by (cases dir; cases "l_first_query l"; simp add: d)
qed

text \<open>From a reply that closes a transaction to the metrics of the live bucket.\<close>

lemma reply_counted:
  assumes "live_step (bucket_dns_layer sk libs l3 l4 port n r) live = Some (mm, r')"
    "on_live (new_dns_transaction sk (mm_deep_sampling_now mm) a b r' dir x) mm = Some m3"
  shows "\<exists>g s. b_groups (hd (mm_buckets live)) = Some g \<and> xact_metrics s = xact_metrics (b_spec (hd (mm_buckets live)))
    \<and> b_spec (hd (mm_buckets m3)) = new_dns_transaction sk (mm_deep_sampling_now live) a b r' dir x g s \<and> length (l_data r') = length (l_data r)"
proof -
  obtain g s where g: "b_groups (hd (mm_buckets live)) = Some g"
    "bucket_dns_layer sk libs l3 l4 port n r (mm_deep_sampling_now live) g (b_spec (hd (mm_buckets live))) = Some (s, r')"
    "mm = upd_front (\<lambda>b. b\<lparr>b_spec := s\<rparr>) live"
    using assms(1) by (auto simp: live_step_def Option.bind_eq_Some_conv)
  have "b_spec (hd (mm_buckets m3)) = new_dns_transaction sk (mm_deep_sampling_now live) a b r' dir x g s"
    using assms(2) g(1) by (auto simp: g(3) on_live_def upd_front_def)
  then show ?thesis using g(1) bucket_dns_layer_xact_metrics [OF g(2)] bucket_dns_layer_data [OF g(2)] by auto
qed

text \<open>
  C9: A reply is matched with its query. After a query with the transactions group on, and any other
  messages, filtered or not, and heartbeats, of other flows or identifiers, whose times stay within the
  whole seconds of the time to live less one, whatever periods they shift, a reply of the same flow and
  identifier within that time counts one transaction in the live bucket, on the side its direction says; nothing times
  out. If it is sampled deeply, the microseconds from the query to the reply go to the quantiles of that side, if they
  are on, and the ratio of the two sizes to the ratios. The transaction is closed.
\<close>

theorem dns_reply_matched:
  assumes "manager_ok (dn_xacts m)" "mm_groups (dn_metrics m) = Some g" "group_enabled g Dns_Transactions"
    "getDnsHeader q = Some hq" "\<not> dh_response hq" "getDnsHeader r = Some hr" "dh_response hr" "dh_transactionID hr = dh_transactionID hq"
    "normalised t0" "to_ns t0 \<le> to_ns t1" "soon (int (tm_ttl_secs (dn_xacts m))) t0 t1"
    "list_all (\<lambda>(now, e). \<not> about_dns_xact (k, dh_transactionID hq) e \<and> soon (int (tm_ttl_secs (dn_xacts m))) t0 (dns_input_stamp e)) es"
    "process_dns_layer cls sk libs now q dirq l3 l4 k port n t0 m = Some (m1, q')"
    "steps (dns_input_step cls sk libs) es m1 = Some m2"
    "process_dns_layer cls sk libs now' r dir l3' l4' k port' n' t1 m2 = Some (m3, r')"
  shows "let live = dn_metrics (dns_new_event cls sk now' t1 True m2);
       before = b_spec (hd (mm_buckets live)); after = b_spec (hd (mm_buckets (dn_metrics m3)));
       deep = mm_deep_sampling_now live;
       time = quantile_update (sk_quantile sk) (word_of_int ((to_ns t1 - to_ns t0) div 1000));
       ratio = quantile_update (sk_ratio sk) (real (length (l_data r)) / real (length (l_data q))) in
     (\<exists>g'. b_groups (hd (mm_buckets live)) = Some g'
       \<and> ds_xactToTimeUs after = (if dir = FromHost \<and> deep \<and> group_enabled g' Dns_Quantiles then time else id) (ds_xactToTimeUs before)
       \<and> ds_xactFromTimeUs after = (if dir = ToHost \<and> deep \<and> group_enabled g' Dns_Quantiles then time else id) (ds_xactFromTimeUs before))
     \<and> ds_xactRatio after = (if deep then ratio else id) (ds_xactRatio before)
     \<and> dc_xacts_total (ds_counters after) = counter_inc (dc_xacts_total (ds_counters before))
     \<and> dc_xacts_in (ds_counters after) = (if dir = FromHost then counter_inc else id) (dc_xacts_in (ds_counters before))
     \<and> dc_xacts_out (ds_counters after) = (if dir = ToHost then counter_inc else id) (dc_xacts_out (ds_counters before))
     \<and> dc_xacts_timed_out (ds_counters after) = dc_xacts_timed_out (ds_counters before)
     \<and> map_of (tm_transactions (dn_xacts m3)) (k, dh_transactionID hq) = None"
proof -
  let ?x = "\<lparr>startTS = t0, totalTS = ts 0 0, x_querySize = length (l_data q)\<rparr>"
  let ?ttl = "int (tm_ttl_secs (dn_xacts m))" and ?key = "(k, dh_transactionID hq)"
  let ?live = "dn_metrics (dns_new_event cls sk now' t1 True m2)"
  have w1: "waits ?key ?x ?ttl (dn_xacts m1)" by (rule query_waits [OF assms(13,1,2,3,4,5,9)])
  have "spares ?key ?ttl t0 op" if "ne \<in> set es" "dns_may ne op" for ne and op :: "(u32 \<times> u16, \<lparr>x_querySize :: nat\<rparr>) xact_op"
    using assms(12) that by (cases ne; cases op) (auto simp: list_all_iff)
  then have w2: "waits ?key ?x ?ttl (dn_xacts m2)"
    using dns_pairing.waits_steps [OF w1 assms(14)] by simp
  have g: "mm_groups (dn_metrics m2) = Some g"
    using dns_steps_groups [OF assms(14)] process_dns_layer_groups [OF assms(13)] assms(2) by simp
  have w: "waits (k, dh_transactionID hr) ?x ?ttl (dn_xacts m2)" using w2 assms(8) by simp
  have soon: "soon ?ttl (startTS ?x) t1" "to_ns (startTS ?x) \<le> to_ns t1" using assms(10,11) by simp_all
  let ?y = "?x\<lparr>totalTS := timespec_diff t1 (startTS ?x)\<rparr>"
  have time: "xact_time ?y = word_of_int ((to_ns t1 - to_ns t0) div 1000)"
    using waits_ends(2) [OF w soon] assms(10) by (simp add: xact_time_def signed_divide_int_def sgn_if)
  have size: "x_querySize ?y = length (l_data q)" "length (l_data q) \<noteq> 0"
    using assms(4) by (auto simp: getDnsHeader_def HDR_def Let_def split: if_splits)
  obtain mm a b where mm: "live_step (bucket_dns_layer sk libs l3' (pcpp_to_protocol l4') port' n' r) ?live = Some (mm, r')"
    "on_live (new_dns_transaction sk (mm_deep_sampling_now mm) a b r' dir ?y) mm = Some (dn_metrics m3)"
    "map_of (tm_transactions (dn_xacts m3)) ?key = None"
    using reply_ends [OF assms(15) w soon g assms(3,6,7)] unfolding assms(8) by blast
  obtain g' s where s: "b_groups (hd (mm_buckets ?live)) = Some g'" "xact_metrics s = xact_metrics (b_spec (hd (mm_buckets ?live)))"
    "b_spec (hd (mm_buckets (dn_metrics m3))) = new_dns_transaction sk (mm_deep_sampling_now ?live) a b r' dir ?y g' s"
    "length (l_data r') = length (l_data r)"
    using reply_counted [OF mm(1,2)] by blast
  show ?thesis
    unfolding Let_def s(1,3) new_dns_transaction_metrics [OF s(2)] time size(1) s(4) using mm(3) size(2) by simp
qed

theorem dns_reply_matched_witness:
  "\<exists>m1 q' m3 r'. process_dns_layer demo_dns_class demo_dns_sketches demo_dns_libs (ts 60 0) (new_layer small_query) ToHost P_IPv4 P_UDP 7 9999 0
      (ts 60 0) (dns_metrics (demo_dns [])) = Some (m1, q')
    \<and> process_dns_layer demo_dns_class demo_dns_sketches demo_dns_libs (ts 61 0) (new_layer small_reply) FromHost P_IPv4 P_UDP 7 9999 0
      (ts 61 0) (dns_check_period_shift demo_dns_class demo_dns_sketches (ts 60 5) (ts 60 5) m1) = Some (m3, r')
    \<and> dc_xacts_total (ds_counters (b_spec (hd (mm_buckets (dn_metrics m3))))) =
        counter_inc (dc_xacts_total (ds_counters (b_spec (hd (mm_buckets (dn_metrics (dns_new_event demo_dns_class demo_dns_sketches
          (ts 61 0) (ts 61 0) True (dns_check_period_shift demo_dns_class demo_dns_sketches (ts 60 5) (ts 60 5) m1))))))))
    \<and> map_of (tm_transactions (dn_xacts m3)) (7, 256) = None"
proof -
  let ?m = "dns_metrics (demo_dns [])" and ?g = "sh_groups (hn_base (demo_dns []))" and ?cls = "demo_dns_class"
  let ?hb = "\<lambda>m. dns_check_period_shift ?cls demo_dns_sketches (ts 60 5) (ts 60 5) m"
  note cls = demo_dns_class_def
  have t: "dns_tallied ?g (dn_metrics ?m)" using dns_start_ok(1) [OF demo_dns_new(1) demo_dns_started(1) demo_dns_new(2)] by simp
  have l: "layer_ok (new_layer small_query)" "layer_ok (new_layer small_reply)" using message_layer_ok small_messages(1,2) by blast+
  obtain m1 q' where 1: "process_dns_layer ?cls demo_dns_sketches demo_dns_libs (ts 60 0) (new_layer small_query) ToHost P_IPv4 P_UDP 7 9999 0
      (ts 60 0) ?m = Some (m1, q')" "dns_tallied ?g (dn_metrics m1)"
    using process_dns_layer_tallied [OF t l(1) demo_dns_started(2,3)] unfolding cls by blast
  have t2: "dns_tallied ?g (dn_metrics (?hb m1))" unfolding cls by (rule dns_check_period_shift_tallied [OF 1(2)])
  obtain m3 r' where 3: "process_dns_layer ?cls demo_dns_sketches demo_dns_libs (ts 61 0) (new_layer small_reply) FromHost P_IPv4 P_UDP 7 9999 0
      (ts 61 0) (?hb m1) = Some (m3, r')"
    using process_dns_layer_tallied [OF t2 l(2) demo_dns_started(2,3)] unfolding cls by blast
  have x: "dn_xacts ?m = new_transaction_manager 5000" by (simp add: dns_metrics_def demo_dns_xacts)
  have ok: "manager_ok (dn_xacts ?m)" "tm_ttl_secs (dn_xacts ?m) = 5"
    unfolding x by (rule new_transaction_manager_ok, simp add: new_transaction_manager_def)
  have g: "mm_groups (dn_metrics ?m) = Some ?g" using t by (simp add: tallied_def)
  have "steps (dns_input_step ?cls demo_dns_sketches demo_dns_libs) [(ts 60 5, In_Heartbeat (ts 60 5))] m1 = Some (?hb m1)"
    by (simp add: dns_input_step_def)
  from dns_reply_matched [OF ok(1) g demo_dns_transactions small_messages(3) _ small_messages(4) _ _ _ _ _ _ 1(1) this 3]
  show ?thesis using 1(1) 3 ok(2) by (auto simp: normalised_def to_ns_def soon_def Let_def)
qed


subsection \<open>Predicates and filters\<close>

text \<open>The type of the predicate is looked at by the filters alone.\<close>

abbreviation by_predicate :: "dns_filter \<Rightarrow> ('r, 'q, 'f, 'c, 'd, 'j) dns_handler \<Rightarrow> ('r, 'q, 'f, 'c, 'd, 'j) dns_handler" where
  "by_predicate x h \<equiv> h\<lparr>hn_predicate_type := x\<rparr>"

lemma set_dns_metrics_predicate: "set_dns_metrics m (by_predicate x h) = by_predicate x (set_dns_metrics m h)"
  "dns_metrics (by_predicate x h) = dns_metrics h"
  by (simp_all add: set_dns_metrics_def dns_metrics_def)

lemma dns_filtering_predicate:
  assumes "any_check (dns_checks libs (hn_filters h) x) (l, hn_suffix h) = any_check (dns_checks libs (hn_filters h) (hn_predicate_type h)) (l, hn_suffix h)"
  shows "dns_filtering cls sk libs now l stamp (by_predicate x h) =
    map_option (\<lambda>(hit, l, h). (hit, l, by_predicate x h)) (dns_filtering cls sk libs now l stamp h)"
proof -
  have m: "dns_metrics (by_predicate x h\<lparr>hn_suffix := n\<rparr>) = dns_metrics (h\<lparr>hn_suffix := n\<rparr>)" for n
    by (simp add: dns_metrics_def)
  have s: "set_dns_metrics m (by_predicate x h\<lparr>hn_suffix := n\<rparr>) = by_predicate x (set_dns_metrics m (h\<lparr>hn_suffix := n\<rparr>))" for m n
    by (simp add: set_dns_metrics_def)
  show ?thesis
    using assms by (auto simp: dns_filtering_def Let_def m s map_option_bind intro!: Option.bind_cong split: option.splits)
qed

lemma dns_configs_predicate:
  "dns_configs libs l (by_predicate x h) = map_option (\<lambda>(l, h). (l, by_predicate x h)) (dns_configs libs l h)"
  by (auto simp: dns_configs_def map_option_bind intro!: Option.bind_cong split: option.split)

lemma dns_message_predicate:
  assumes "any_check (dns_checks libs (hn_filters h) x) (l, hn_suffix h) = any_check (dns_checks libs (hn_filters h) (hn_predicate_type h)) (l, hn_suffix h)"
  shows "dns_message cls sk libs now l dir l3 l4 k port stamp (by_predicate x h) =
    map_option (\<lambda>(ok, l, h). (ok, l, by_predicate x h)) (dns_message cls sk libs now l dir l3 l4 k port stamp h)"
proof (cases "dns_filtering cls sk libs now l stamp h")
  case None
  then show ?thesis by (simp add: dns_message_def dns_filtering_predicate [OF assms])
next
  case (Some r)
  obtain hit l1 h1 where r: "r = (hit, l1, h1)" by (cases r)
  have s: "set_dns_metrics m (by_predicate x h2)\<lparr>hn_suffix := 0\<rparr> = by_predicate x (set_dns_metrics m h2\<lparr>hn_suffix := 0\<rparr>)" for m h2
    by (simp add: set_dns_metrics_def)
  show ?thesis
    using Some r
    by (cases hit; cases "dns_configs libs l1 h1")
      (auto simp: dns_message_def dns_filtering_predicate [OF assms] dns_configs_predicate set_dns_metrics_predicate s map_option_bind
        intro!: Option.bind_cong)
qed

lemma cached_layer_predicate:
  "cached_layer n k stamp data (by_predicate x h) = map_option (\<lambda>(l, h). (l, by_predicate x h)) (cached_layer n k stamp data h)"
  by (simp add: cached_layer_def Let_def option.map_comp comp_def)

lemma cached_layer_fields:
  "cached_layer n k stamp data h = Some (l, h') \<Longrightarrow>
   hn_filters h' = hn_filters h \<and> hn_suffix h' = hn_suffix h \<and> hn_predicate_type h' = hn_predicate_type h"
  by (auto simp: cached_layer_def Let_def split: if_splits)

lemma process_udp_predicate:
  assumes "\<And>l h1. cached_layer n k stamp (dp_data payload) h = Some (l, h1) \<Longrightarrow>
      any_check (dns_checks libs (hn_filters h) x) (l, hn_suffix h) = any_check (dns_checks libs (hn_filters h) (hn_predicate_type h)) (l, hn_suffix h)"
  shows "process_udp_packet_cb cls sk libs now n payload dir l3 k stamp (by_predicate x h) =
    map_option (\<lambda>(h, outs). (by_predicate x h, outs)) (process_udp_packet_cb cls sk libs now n payload dir l3 k stamp h)"
proof (cases "cached_layer n k stamp (dp_data payload) h")
  case None
  then show ?thesis by (simp add: process_udp_packet_cb_def cached_layer_predicate Let_def)
next
  case (Some r)
  obtain l h1 where r: "r = (l, h1)" by (cases r)
  note f = cached_layer_fields [OF Some [unfolded r]]
  have m: "dns_message cls sk libs now l dir l3 P_UDP k port stamp (by_predicate x h1) =
      map_option (\<lambda>(ok, l, h). (ok, l, by_predicate x h)) (dns_message cls sk libs now l dir l3 P_UDP k port stamp h1)" for port
    by (rule dns_message_predicate) (use assms [OF Some [unfolded r]] f in simp)
  have k: "keep_layer l (by_predicate x h2) = by_predicate x (keep_layer l h2)" for l h2 by (simp add: keep_layer_def)
  show ?thesis
    using Some r
    by (cases "dns_message cls sk libs now l dir l3 P_UDP k (metric_port (dp_src_port payload) (dp_dst_port payload)) stamp h1")
      (auto simp: process_udp_packet_cb_def cached_layer_predicate Let_def m k)
qed

text \<open>The signal of a predicate does what the plain signal does, if its filter lets the message through.\<close>

lemma predicate_signal_plain:
  assumes "hn_predicate_type h = FiltersMAX"
    "\<And>l h1. cached_layer n k stamp (dp_data payload) h = Some (l, h1) \<Longrightarrow>
      any_check (dns_checks libs (hn_filters h) x) (l, hn_suffix h) = any_check (dns_checks libs (hn_filters h) FiltersMAX) (l, hn_suffix h)"
  shows "dns_predicate_signal cls sk libs now n payload dir l3 k stamp x h = process_udp_packet_cb cls sk libs now n payload dir l3 k stamp h"
proof -
  let ?p = "process_udp_packet_cb cls sk libs now n payload dir l3 k stamp"
  have h: "by_predicate FiltersMAX h = h" using assms(1) by simp
  have x: "?p (by_predicate x h) = map_option (\<lambda>(h, outs). (by_predicate x h, outs)) (?p h)"
    by (rule process_udp_predicate) (use assms in simp)
  have "?p (by_predicate FiltersMAX h) = map_option (\<lambda>(h, outs). (by_predicate FiltersMAX h, outs)) (?p h)"
    by (rule process_udp_predicate) (use assms(1) in simp)
  then have "?p h = map_option (\<lambda>(h, outs). (by_predicate FiltersMAX h, outs)) (?p h)" unfolding h .
  then show ?thesis
    unfolding dns_predicate_signal_def x by (cases "?p h") (auto simp: case_prod_beta)
qed

lemma new_dns_handler_fields:
  assumes "new_dns_handler base DP_Pcap chained = Inr h0"
  shows "hn_base h0 = base" "hn_proxy h0 = DP_Pcap" "\<not> hn_running h0" "hn_cache h0 = new_dns_cache" "hn_filters h0 = no_dns_filters"
    "hn_udp h0 = new_udp_proxy" "hn_predicate_type h0 = FiltersMAX"
  using assms by (auto simp: new_dns_handler_def)

lemma dns_start_parts:
  assumes "new_dns_handler base DP_Pcap chained = Inr h0" "dns_start c h0 = Inr h"
  shows "\<exists>b h2. setup_all c (h0\<lparr>hn_base := b\<rparr>) = Inr h2
    \<and> h = h2\<lparr>hn_connected := dns_signals (hn_proxy h2) (hn_using_predicates h2), hn_running := True\<rparr> \<and> sh_name b = sh_name base"
proof -
  obtain b h2 where b: "process_groups dns_group_defs c (base\<lparr>sh_groups :=
        fold set_bit [Dns_Cardinality, Dns_Counters, Dns_Quantiles, Dns_Transactions, Dns_TopQnames, Dns_TopPorts] (sh_groups base)\<rparr>) = Inr b"
    "setup_all c (h0\<lparr>hn_base := b\<rparr>) = Inr h2"
    "h = h2\<lparr>hn_connected := dns_signals (hn_proxy h2) (hn_using_predicates h2), hn_running := True\<rparr>"
    using assms(2) new_dns_handler_fields [OF assms(1)]
    by (auto simp: dns_start_def Let_def sum_bind_def split: option.splits sum.splits)
  have "sh_name b = sh_name base" using b(1) by (auto simp: process_groups_def split: sum.splits)
  then show ?thesis using b(2,3) by blast
qed

lemma rcode_started:
  assumes "new_dns_handler base DP_Pcap chained = Inr h0" "dns_start [(''only_rcode'', CUint code)] h0 = Inr h"
  shows "hn_udp h = register_udp_predicate_signal DNS_SCHEMA (sh_name base) ''only_rcode'' (u64_str code) Udp_RCode_Predicate OnlyRCode new_udp_proxy"
    "DS_Udp \<notin> set (hn_connected h)" "hn_filters h = no_dns_filters\<lparr>df_enabled := [OnlyRCode], df_rcodes := [ucast code]\<rparr>"
    "hn_predicate_type h = FiltersMAX" "hn_cache h = new_dns_cache" "map_of RCodeNames (ucast code) \<noteq> None"
proof -
  let ?c = "[(''only_rcode'', CUint code)]"
  from dns_start_parts [OF assms] obtain b h2 where b: "setup_all ?c (h0\<lparr>hn_base := b\<rparr>) = Inr h2"
    "h = h2\<lparr>hn_connected := dns_signals (hn_proxy h2) (hn_using_predicates h2), hn_running := True\<rparr>" and name: "sh_name b = sh_name base"
    by blast
  note h0 = new_dns_handler_fields [OF assms(1)]
  let ?h = "enable_filter OnlyRCode (h0\<lparr>hn_base := b\<rparr>)"
  have all: "setup_all ?c (h0\<lparr>hn_base := b\<rparr>) = (if map_of RCodeNames (ucast code) \<noteq> None then Inr (add_rcode (ucast code) (u64_str code) ?h)
      else Inl (Config_Exception ''DnsStreamHandler: only_rcode filter contained an invalid/unsupported rcode''))"
    by (simp add: setup_all_def setup_rcode_def setup_flag_def setup_answer_count_def setup_qtype_def setup_qname_def setup_qname_suffix_def
        setup_dnstap_type_def setup_public_suffix_def setup_metrics_def with_texts_def config_flag_def config_exists_def config_get_def
        configured_ttl_def sum_bind_def Let_def)
  then show c: "map_of RCodeNames (ucast code) \<noteq> None" using b(1) by (auto split: if_splits)
  then have "h2 = add_rcode (ucast code) (u64_str code) ?h" using all b(1) by simp
  then show "hn_udp h = register_udp_predicate_signal DNS_SCHEMA (sh_name base) ''only_rcode'' (u64_str code) Udp_RCode_Predicate OnlyRCode new_udp_proxy"
    "DS_Udp \<notin> set (hn_connected h)" "hn_filters h = no_dns_filters\<lparr>df_enabled := [OnlyRCode], df_rcodes := [ucast code]\<rparr>"
    "hn_predicate_type h = FiltersMAX" "hn_cache h = new_dns_cache"
    using b(2) h0 name
    by (simp_all add: add_rcode_def enable_filter_def filters_upd_def register_predicate_filter_def dns_signals_def no_dns_filters_def)
qed

lemma register_first:
  "up_predicates (register_udp_predicate_signal sk i k v p c new_udp_proxy) = [(sk @ k, p)]"
  "jump_slots jump (register_udp_predicate_signal sk i k v p c new_udp_proxy) = (if jump = sk @ k @ v then [c] else [])"
  by (simp_all add: register_udp_predicate_signal_def new_udp_proxy_def jump_slots_def or_empty_def omap_emplace_def Let_def)

lemma not_255: "map_of RCodeNames (ucast (code :: u64)) \<noteq> None \<Longrightarrow> code \<noteq> 255"
  by (auto simp: RCodeNames_def)

definition packet_cache :: "nat \<Rightarrow> u32 \<Rightarrow> timespec \<Rightarrow> dns_layer \<Rightarrow> dns_cache" where
  "packet_cache n k stamp l = \<lparr>ca_flowKey = k, ca_timestamp = stamp, ca_packet = n, ca_layer = Some l\<rparr>"

lemma cached_hit: "hn_cache h = packet_cache n k stamp l \<Longrightarrow> cached_layer n k stamp data h = Some (l, h)"
  by (simp add: cached_layer_def packet_cache_def)

subsection \<open>What a run leaves alone\<close>

text \<open>The filters, the predicates and the signals stay as the start left them, and no predicate is under way between two events.\<close>

definition standing where
  "standing h = (hn_filters h, hn_udp h, hn_connected h)"

lemma run_steps_kept:
  assumes "run_steps f cs s = Some (s', outs)" "I s" "\<And>c s s' out. I s \<Longrightarrow> f c s = Some (s', out) \<Longrightarrow> I s'"
  shows "I s'"
  using assms(1,2) by (induction cs arbitrary: s outs) (auto simp: Option.bind_eq_Some_conv dest: assms(3))

lemma standing_fields [simp]:
  "standing (set_dns_metrics m h) = standing h" "standing (h\<lparr>hn_suffix := n\<rparr>) = standing h" "standing (h\<lparr>hn_cache := ca\<rparr>) = standing h"
  "standing (h\<lparr>hn_predicate_type := x\<rparr>) = standing h" "standing (h\<lparr>hn_conns := cs\<rparr>) = standing h" "standing (keep_layer l h) = standing h"
  "standing (on_dns_base f h) = standing h" "hn_predicate_type (set_dns_metrics m h) = hn_predicate_type h"
  "hn_predicate_type (keep_layer l h) = hn_predicate_type h" "hn_predicate_type (on_dns_base f h) = hn_predicate_type h"
  by (simp_all add: standing_def set_dns_metrics_def keep_layer_def on_dns_base_def)

lemma dns_message_standing:
  assumes "dns_message cls sk libs now l dir l3 l4 k port stamp h = Some (ok, l', h')"
  shows "standing h' = standing h \<and> hn_predicate_type h' = hn_predicate_type h"
proof -
  have 1: "standing h1 = standing h \<and> hn_predicate_type h1 = hn_predicate_type h"
    if "dns_filtering cls sk libs now l stamp h = Some (hit, l1, h1)" for hit l1 h1
    using that by (auto simp: dns_filtering_def Let_def Option.bind_eq_Some_conv split: if_splits)
  have 2: "standing h2 = standing h1 \<and> hn_predicate_type h2 = hn_predicate_type h1"
    if "dns_configs libs l1 h1 = Some (l2, h2)" for l1 l2 and h1 h2 :: "('a, 'b, 'c, 'd, 'e, 'f) dns_handler"
    using that by (auto simp: dns_configs_def Option.bind_eq_Some_conv split: if_splits option.splits)
  show ?thesis
    using assms by (auto simp: dns_message_def Option.bind_eq_Some_conv dest!: 1 2 split: if_splits)
qed

lemma cached_layer_standing:
  "cached_layer n k stamp data h = Some (l, h') \<Longrightarrow> standing h' = standing h \<and> hn_predicate_type h' = hn_predicate_type h"
  by (auto simp: cached_layer_def Let_def split: if_splits)

lemma packet_cb_standing:
  "process_udp_packet_cb cls sk libs now n payload dir l3 k stamp h = Some (h', outs) \<Longrightarrow>
     standing h' = standing h \<and> hn_predicate_type h' = hn_predicate_type h"
  "process_tcp_reassembled_packet_cb cls sk libs now n payload dir l3 k stamp h = Some (h', outs) \<Longrightarrow>
     standing h' = standing h \<and> hn_predicate_type h' = hn_predicate_type h"
  by (auto simp: process_udp_packet_cb_def process_tcp_reassembled_packet_cb_def Let_def Option.bind_eq_Some_conv
      dest!: cached_layer_standing dns_message_standing split: if_splits)

lemma dns_jump_key_standing:
  "dns_jump_key n payload k stamp pred h = Some (jump, h') \<Longrightarrow> standing h' = standing h \<and> hn_predicate_type h' = hn_predicate_type h"
  by (cases pred) (auto simp: dns_jump_key_def Option.bind_eq_Some_conv dest!: cached_layer_standing)

lemma dns_udp_packet_standing:
  assumes "dns_udp_packet cls sk libs now n payload dir l3 k stamp h = Some (h', outs)" "hn_predicate_type h = FiltersMAX"
  shows "standing h' = standing h \<and> hn_predicate_type h' = FiltersMAX"
proof -
  let ?I = "\<lambda>s. standing s = standing h \<and> hn_predicate_type s = FiltersMAX"
  let ?S = "dns_predicate_signal cls sk libs now n payload dir l3 k stamp" and ?J = "dns_jump_key n payload k stamp"
  obtain h1 o1 o2 where 1: "(if DS_Udp \<in> set (hn_connected h)
      then process_udp_packet_cb cls sk libs now n payload dir l3 k stamp h else Some (h, [])) = Some (h1, o1)"
    and 2: "run_udp_predicates ?J ?S (hn_udp h1) h1 = Some (h', o2)"
    using assms(1) by (auto simp: dns_udp_packet_def Option.bind_eq_Some_conv)
  have "?I h1" using 1 assms(2) by (auto dest!: packet_cb_standing split: if_splits)
  have s: "?I s'" if "?I s" "?S x s = Some (s', out)" for x s s' out
    using that by (auto simp: dns_predicate_signal_def Option.bind_eq_Some_conv dest!: packet_cb_standing)
  have step: "?I s'" if "?I s" "do { (jump, s) \<leftarrow> ?J pred s; run_steps ?S (jump_slots jump p) s } = Some (s', out)" for pred p s s' out
  proof -
    note inv = that
    obtain jump s1 where j: "?J pred s = Some (jump, s1)" "run_steps ?S (jump_slots jump p) s1 = Some (s', out)"
      using inv(2) by (auto simp: Option.bind_eq_Some_conv)
    have "?I s1" using dns_jump_key_standing [OF j(1)] inv(1) by simp
    with j(2) show ?thesis by (rule run_steps_kept [where I = ?I]) (rule s)
  qed
  show ?thesis
  proof (rule run_steps_kept [where I = ?I, OF 2 [unfolded run_udp_predicates_def] \<open>?I h1\<close>])
    fix c s s' out
    assume c: "?I s" "(case c of (key, pred) \<Rightarrow> \<lambda>s. do { (jump, s) \<leftarrow> ?J pred s; run_steps ?S (jump_slots jump (hn_udp h1)) s }) s = Some (s', out)"
    show "?I s'" by (rule step [OF c(1), of "snd c" "hn_udp h1" s' out]) (use c(2) in \<open>simp only: case_prod_beta\<close>)
  qed
qed

lemma dns_handle_standing:
  assumes "dns_handle cls sk libs now n e h = Some (h', outs)" "hn_predicate_type h = FiltersMAX"
  shows "standing h' = standing h \<and> hn_predicate_type h' = FiltersMAX"
proof (cases e)
  case (Ev_Udp payload dir l3 k stamp)
  then show ?thesis
    using dns_udp_packet_standing [of cls sk libs now n payload dir l3 k stamp h h' outs] assms by (simp add: dns_handle_def)
next
  case (Ev_Tcp_Reassembled payload dir l3 k stamp)
  then show ?thesis using assms by (auto simp: dns_handle_def dns_slot_def dest!: packet_cb_standing split: if_splits)
next
  case (Ev_Tcp_Message side c data dir)
  let ?I = "\<lambda>s. standing s = standing h \<and> hn_predicate_type s = FiltersMAX"
  show ?thesis
  proof (cases "DS_Tcp_Message \<in> set (hn_connected h)")
    case True
    then have "run_steps (got_dns_message cls sk libs now) (snd (receive_on side c data dir (hn_conns h)))
        (h\<lparr>hn_conns := fst (receive_on side c data dir (hn_conns h))\<rparr>) = Some (h', outs)"
      using assms(1) Ev_Tcp_Message by (simp add: dns_handle_def dns_slot_def tcp_message_ready_cb_def case_prod_beta)
    then show ?thesis
      by (rule run_steps_kept [where I = ?I])
        (use assms(2) in \<open>auto simp: got_dns_message_def Let_def Option.bind_eq_Some_conv dest!: dns_message_standing\<close>)
  qed (use assms Ev_Tcp_Message in \<open>auto simp: dns_handle_def\<close>)
qed (use assms in \<open>auto simp: dns_handle_def dns_slot_def process_dnstap_cb_def tcp_connection_start_cb_def tcp_connection_end_cb_def
    Let_def split: if_splits\<close>)

lemma dns_run_standing:
  assumes "dns_run cls sk libs n es h = Some (h', outs)" "hn_predicate_type h = FiltersMAX"
  shows "standing h' = standing h \<and> hn_predicate_type h' = FiltersMAX"
  using assms
proof (induction es arbitrary: n h outs)
  case (Cons x es)
  obtain now e where x: "x = (now, e)" by (cases x)
  then obtain h1 o1 o2 where h1: "dns_handle cls sk libs now n e h = Some (h1, o1)" "dns_run cls sk libs (Suc n) es h1 = Some (h', o2)"
    using Cons.prems(1) by (auto simp: Option.bind_eq_Some_conv)
  then show ?case using dns_handle_standing [OF h1(1) Cons.prems(2)] Cons.IH [OF h1(2)] by simp
qed simp

lemma cached_miss:
  "cache_key h \<noteq> (k, stamp) \<Longrightarrow>
   cached_layer n k stamp data h = Some (new_layer data, h\<lparr>hn_cache := packet_cache n k stamp (new_layer data)\<rparr>)"
  by (cases stamp; cases "ca_timestamp (hn_cache h)") (auto simp: cached_layer_def cache_key_def packet_cache_def Let_def)

text \<open>
  C38: With a filter for one response code the handler counts, of all UDP packets, the replies with that code alone, and
  the others nowhere. At any time of a run of a handler that was started with the filter, a packet with
  another flow or time than the one in the cache is processed if it is a reply with the code of the filter, with any further filtering of the plain signal;
  any other packet, which for the description of the counter of filtered packets did not match the
  filter, leaves no trace but the layer in the cache. Without twelve bytes of a header the packet is read
  past its end, on any port.
\<close>

theorem dns_rcode_predicate_exact:
  assumes "new_dns_handler base DP_Pcap chained = Inr h0" "dns_start [(''only_rcode'', CUint code)] h0 = Inr h"
    "dns_run cls sk libs n0 es h = Some (h1, before)" "cache_key h1 \<noteq> (k, stamp)"
  shows "dns_udp_packet cls sk libs now n payload dir l3 k stamp h1 =
    (let h2 = h1\<lparr>hn_cache := packet_cache n k stamp (new_layer (dp_data payload))\<rparr> in
     case getDnsHeader (new_layer (dp_data payload)) of
       None \<Rightarrow> None
     | Some hdr \<Rightarrow>
         if dh_response hdr \<and> ucast (dh_responseCode hdr) = code
         then process_udp_packet_cb cls sk libs now n payload dir l3 k stamp h2
         else Some (h2, []))"
proof -
  note st = rcode_started [OF assms(1,2)]
  have s: "hn_filters h1 = hn_filters h" "hn_udp h1 = hn_udp h" "hn_connected h1 = hn_connected h" "hn_predicate_type h1 = FiltersMAX"
    using dns_run_standing [OF assms(3) st(4)] by (simp_all add: standing_def)
  let ?l = "new_layer (dp_data payload)" and ?P = "process_udp_packet_cb cls sk libs now n payload dir l3 k stamp"
  let ?S = "dns_predicate_signal cls sk libs now n payload dir l3 k stamp"
  let ?h2 = "h1\<lparr>hn_cache := packet_cache n k stamp ?l\<rparr>"
  show ?thesis
  proof (cases "getDnsHeader ?l")
    case None
    then show ?thesis using st(2)
      by (simp add: dns_udp_packet_def run_udp_predicates_def s(2,3) st(1) register_first(1) dns_jump_key_def cached_miss [OF assms(4)])
  next
    case (Some hdr)
    let ?key = "DNS_SCHEMA @ ''only_rcode'' @ (if \<not> dh_response hdr then ''255'' else u64_str (ucast (dh_responseCode hdr)))"
    have hit: "cached_layer n k stamp (dp_data payload) ?h2 = Some (?l, ?h2)" by (simp add: cached_hit)
    have jump: "dns_jump_key n payload k stamp Udp_RCode_Predicate h1 = Some (?key, ?h2)"
      by (simp add: dns_jump_key_def cached_miss [OF assms(4)] Some)
    have e: "u64_str a = u64_str b \<longleftrightarrow> a = b" for a b using dec_str_inj [of "unat a" "unat b"] by (auto simp: u64_str_def word_unat_eq_iff)
    have "''255'' = u64_str 255" by code_simp
    then have d: "''255'' = u64_str code \<longleftrightarrow> code = 255" using e [of 255 code] by auto
    have slots: "jump_slots ?key (hn_udp h) = (if dh_response hdr \<and> ucast (dh_responseCode hdr) = code then [OnlyRCode] else [])"
      using not_255 [OF st(6)] d e by (auto simp: st(1) register_first)
    have signal: "?S OnlyRCode ?h2 = ?P ?h2" if "ucast (dh_responseCode hdr) = code"
    proof -
      have "ucast (ucast w :: u64) = w" for w :: u16 by transfer simp
      then have "ucast code = dh_responseCode hdr" using that by auto
      then have "any_check (dns_checks libs (hn_filters ?h2) OnlyRCode) (?l, j) = any_check (dns_checks libs (hn_filters ?h2) FiltersMAX) (?l, j)" for j
        by (simp add: s(1) st(3) no_dns_filters_def dns_checks_def on_header_def Some Let_def)
      then show ?thesis by (intro predicate_signal_plain) (auto simp: s(4) hit)
    qed
    have "dns_udp_packet cls sk libs now n payload dir l3 k stamp h1 = do { (s, outs) \<leftarrow> run_steps ?S (jump_slots ?key (hn_udp h)) ?h2; Some (s, outs) }"
      using st(2) jump by (simp add: dns_udp_packet_def run_udp_predicates_def s(2,3) st(1) register_first(1) del: split_paired_All)
    also have "\<dots> = (if dh_response hdr \<and> ucast (dh_responseCode hdr) = code then ?P ?h2 else Some (?h2, []))"
      unfolding slots using signal by (cases "?P ?h2") auto
    finally show ?thesis by (simp only: Some option.case Let_def)
  qed
qed

definition demo_rcode :: "(unit, unit, unit, unit, unit, unit) dns_handler" where
  "demo_rcode = projr (dns_start [(''only_rcode'', CUint 0)] demo_dns0)"

lemma demo_rcode_started: "dns_start [(''only_rcode'', CUint 0)] demo_dns0 = Inr demo_rcode"
  by (simp add: demo_rcode_def demo_dns0_def new_dns_handler_def dns_start_def demo_dns_base_def
      validate_configs_def get_all_keys_def dns_config_defs_def process_groups_def with_list_def config_exists_def window_config_defs_def
      setup_all_def setup_rcode_def setup_flag_def setup_answer_count_def setup_qtype_def setup_qname_def setup_qname_suffix_def
      setup_dnstap_type_def setup_public_suffix_def setup_metrics_def with_texts_def config_flag_def config_get_def
      configured_ttl_def sum_bind_def RCodeNames_def Let_def)

theorem dns_rcode_predicate_exact_witness:
  "map_option (sh_metrics \<circ> hn_base \<circ> fst)
     (dns_udp_packet demo_dns_class demo_dns_sketches demo_dns_libs (ts 60 0) 0 (demo_dns_packet small_query) ToHost P_IPv4 7 (ts 60 0) demo_rcode)
   = Some (sh_metrics (hn_base demo_rcode))"
proof -
  have d: "getDnsHeader (new_layer (dp_data (demo_dns_packet small_query))) =
      Some \<lparr>dh_transactionID = 256, dh_response = False, dh_responseCode = 0, dh_answers = 0, dh_additionals = 0\<rparr>"
    using small_messages(3) by (simp add: demo_dns_packet_def)
  have c: "cache_key demo_rcode \<noteq> (7, ts 60 0)"
    using rcode_started(5) [OF demo_dns_new(1) demo_rcode_started] by (simp add: cache_key_def new_dns_cache_def)
  show ?thesis
    using dns_rcode_predicate_exact [OF demo_dns_new(1) demo_rcode_started dns_run.simps(1) c,
        of demo_dns_class demo_dns_sketches demo_dns_libs "ts 60 0" 0 "demo_dns_packet small_query" ToHost P_IPv4]
    by (simp add: d Let_def)
qed

subsection \<open>Two filters with predicates\<close>

definition keeps_data :: "dns_check \<Rightarrow> bool" where
  "keeps_data c \<longleftrightarrow> (\<forall>l n hit l' n'. c (l, n) = Some (hit, l', n') \<longrightarrow> l_data l' = l_data l)"

lemma any_check_data: "list_all keeps_data cs \<Longrightarrow> any_check cs (l, n) = Some (hit, l', n') \<Longrightarrow> l_data l' = l_data l"
proof (induction cs arbitrary: l n)
  case (Cons c cs)
  obtain hit1 l1 n1 where c: "c (l, n) = Some (hit1, l1, n1)" using Cons.prems(2) by (cases "c (l, n)") auto
  moreover have "keeps_data c" using Cons.prems(1) by simp
  ultimately have "l_data l1 = l_data l" unfolding keeps_data_def by blast
  then show ?case using Cons c by (cases hit1) auto
qed simp

lemma with_query_data: "(\<And>q l n hit l' n'. check q (l, n) = Some (hit, l', n') \<Longrightarrow> l' = l) \<Longrightarrow> keeps_data (with_query check)"
  by (fastforce simp: keeps_data_def with_query_def Option.bind_eq_Some_conv split: if_splits option.splits dest: parseResources_data)

lemma checks_keep_data:
  "keeps_data (on_header p)" "keeps_data check_dnssec" "keeps_data (check_notfound libs on place)" "keeps_data (check_qtype us)"
  "keeps_data (check_qname qs)" "keeps_data (check_qname_suffix ss)"
proof -
  show "keeps_data (check_qtype us)" "keeps_data (check_qname qs)" "keeps_data (check_qname_suffix ss)"
    unfolding check_qtype_def check_qname_def check_qname_suffix_def
    by (rule with_query_data, force split: option.splits)+
  show "keeps_data (on_header p)" by (auto simp: keeps_data_def on_header_def)
  show "keeps_data check_dnssec" "keeps_data (check_notfound libs on place)"
    by (auto simp: keeps_data_def check_dnssec_def check_notfound_def Option.bind_eq_Some_conv split: if_splits dest!: parseResources_data)
qed

lemma dns_checks_keep_data: "list_all keeps_data (dns_checks libs f x)"
  by (simp add: dns_checks_def Let_def checks_keep_data)

lemma dns_message_fields:
  assumes "dns_message cls sk libs now l dir l3 l4 k port stamp h = Some (ok, l', h')"
  shows "l_data l' = l_data l" "hn_filters h' = hn_filters h" "hn_predicate_type h' = hn_predicate_type h" "hn_cache h' = hn_cache h"
proof -
  obtain hit l1 h1 where f: "dns_filtering cls sk libs now l stamp h = Some (hit, l1, h1)"
    using assms by (auto simp: dns_message_def Option.bind_eq_Some_conv)
  obtain n where "any_check (dns_checks libs (hn_filters h) (hn_predicate_type h)) (l, hn_suffix h) = Some (hit, l1, n)"
    using f by (auto simp: dns_filtering_def Let_def Option.bind_eq_Some_conv split: if_splits)
  then have d1: "l_data l1 = l_data l" by (rule any_check_data [OF dns_checks_keep_data])
  have 1: "hn_filters h1 = hn_filters h \<and> hn_predicate_type h1 = hn_predicate_type h \<and> hn_cache h1 = hn_cache h"
    using f by (auto simp: dns_filtering_def set_dns_metrics_def Let_def Option.bind_eq_Some_conv split: if_splits)
  consider "l' = l1" "h' = h1"
    | l2 h2 m where "dns_configs libs l1 h1 = Some (l2, h2)"
      "process_dns_layer cls sk libs now l2 dir l3 l4 k port (hn_suffix h2) stamp (dns_metrics h2) = Some (m, l')"
      "h' = (set_dns_metrics m h2)\<lparr>hn_suffix := 0\<rparr>"
    using assms f by (auto simp: dns_message_def Option.bind_eq_Some_conv split: if_splits)
  then have "l_data l' = l_data l \<and> hn_filters h' = hn_filters h \<and> hn_predicate_type h' = hn_predicate_type h \<and> hn_cache h' = hn_cache h"
  proof cases
    case 1
    then show ?thesis using d1 \<open>hn_filters h1 = hn_filters h \<and> _\<close> by simp
  next
    case 2
    have "l_data l2 = l_data l1 \<and> hn_filters h2 = hn_filters h1 \<and> hn_predicate_type h2 = hn_predicate_type h1 \<and> hn_cache h2 = hn_cache h1"
      using 2(1) by (auto simp: dns_configs_def Option.bind_eq_Some_conv split: if_splits option.splits dest!: parseResources_data)
    then show ?thesis
      using 2(3) process_dns_layer_steps(1) [OF 2(2)] d1 \<open>hn_filters h1 = hn_filters h \<and> _\<close> by (simp add: set_dns_metrics_def)
  qed
  then show "l_data l' = l_data l" "hn_filters h' = hn_filters h" "hn_predicate_type h' = hn_predicate_type h" "hn_cache h' = hn_cache h"
    by simp_all
qed

lemma process_udp_fields:
  assumes "process_udp_packet_cb cls sk libs now n payload dir l3 k stamp h = Some (h', outs)"
    "hn_cache h = packet_cache n k stamp l" "metric_port (dp_src_port payload) (dp_dst_port payload) \<noteq> 0"
  shows "hn_filters h' = hn_filters h" "hn_predicate_type h' = hn_predicate_type h"
    "\<exists>l'. hn_cache h' = packet_cache n k stamp l' \<and> l_data l' = l_data l"
proof -
  obtain ok l' h1 where m: "dns_message cls sk libs now l dir l3 P_UDP k (metric_port (dp_src_port payload) (dp_dst_port payload)) stamp h = Some (ok, l', h1)"
    "h' = keep_layer l' h1"
    using assms(1,3) by (auto simp: process_udp_packet_cb_def cached_hit [OF assms(2)] Let_def Option.bind_eq_Some_conv)
  note f = dns_message_fields [OF m(1)]
  show "hn_filters h' = hn_filters h" "hn_predicate_type h' = hn_predicate_type h" using f m(2) by (simp_all add: keep_layer_def)
  show "\<exists>l'. hn_cache h' = packet_cache n k stamp l' \<and> l_data l' = l_data l"
    using assms(2) f m(2) by (simp add: keep_layer_def packet_cache_def)
qed

lemma two_started:
  assumes "new_dns_handler base DP_Pcap chained = Inr h0" "dns_start [(''only_rcode'', CUint code), (''only_qname'', CList [name])] h0 = Inr h"
  shows "hn_udp h = register_udp_predicate_signal DNS_SCHEMA (sh_name base) ''only_qname'' (map to_lower name) Udp_QName_Predicate OnlyQName
      (register_udp_predicate_signal DNS_SCHEMA (sh_name base) ''only_rcode'' (u64_str code) Udp_RCode_Predicate OnlyRCode new_udp_proxy)"
    "DS_Udp \<notin> set (hn_connected h)"
    "hn_filters h = no_dns_filters\<lparr>df_enabled := [OnlyQName, OnlyRCode], df_rcodes := [ucast code], df_qnames := [map to_lower name]\<rparr>"
    "hn_predicate_type h = FiltersMAX" "hn_cache h = new_dns_cache"
proof -
  let ?c = "[(''only_rcode'', CUint code), (''only_qname'', CList [name])]"
  from dns_start_parts [OF assms] obtain b h2 where b: "setup_all ?c (h0\<lparr>hn_base := b\<rparr>) = Inr h2"
    "h = h2\<lparr>hn_connected := dns_signals (hn_proxy h2) (hn_using_predicates h2), hn_running := True\<rparr>" and name: "sh_name b = sh_name base"
    by blast
  note h0 = new_dns_handler_fields [OF assms(1)]
  let ?h = "enable_filter OnlyQName (add_rcode (ucast code) (u64_str code) (enable_filter OnlyRCode (h0\<lparr>hn_base := b\<rparr>)))"
  have all: "setup_all ?c (h0\<lparr>hn_base := b\<rparr>) = (if map_of RCodeNames (ucast code) \<noteq> None then Inr (add_qname name ?h)
      else Inl (Config_Exception ''DnsStreamHandler: only_rcode filter contained an invalid/unsupported rcode''))"
    by (simp add: setup_all_def setup_rcode_def setup_flag_def setup_answer_count_def setup_qtype_def setup_qname_def setup_qname_suffix_def
        setup_dnstap_type_def setup_public_suffix_def setup_metrics_def with_texts_def config_flag_def config_exists_def config_get_def
        configured_ttl_def sum_bind_def Let_def)
  then have "h2 = add_qname name ?h" using b(1) by (auto split: if_splits)
  then show "hn_udp h = register_udp_predicate_signal DNS_SCHEMA (sh_name base) ''only_qname'' (map to_lower name) Udp_QName_Predicate OnlyQName
      (register_udp_predicate_signal DNS_SCHEMA (sh_name base) ''only_rcode'' (u64_str code) Udp_RCode_Predicate OnlyRCode new_udp_proxy)"
    "DS_Udp \<notin> set (hn_connected h)"
    "hn_filters h = no_dns_filters\<lparr>df_enabled := [OnlyQName, OnlyRCode], df_rcodes := [ucast code], df_qnames := [map to_lower name]\<rparr>"
    "hn_predicate_type h = FiltersMAX" "hn_cache h = new_dns_cache"
    using b(2) h0 name
    by (simp_all add: add_qname_def add_rcode_def enable_filter_def filters_upd_def register_predicate_filter_def dns_signals_def
        no_dns_filters_def Let_def)
qed

lemma register_second:
  fixes x v i and p :: "(dns_predicate, dns_filter) udp_proxy"
  defines "p \<equiv> register_udp_predicate_signal DNS_SCHEMA i ''only_qname'' x Udp_QName_Predicate OnlyQName
      (register_udp_predicate_signal DNS_SCHEMA i ''only_rcode'' v Udp_RCode_Predicate OnlyRCode new_udp_proxy)"
  shows "up_predicates p = [(DNS_SCHEMA @ ''only_qname'', Udp_QName_Predicate), (DNS_SCHEMA @ ''only_rcode'', Udp_RCode_Predicate)]"
    "jump_slots (DNS_SCHEMA @ ''only_qname'' @ x) p = [OnlyQName]" "jump_slots (DNS_SCHEMA @ ''only_rcode'' @ v) p = [OnlyRCode]"
proof -
  have "DNS_SCHEMA @ ''only_qname'' < DNS_SCHEMA @ ''only_rcode''" by code_simp
  then show "up_predicates p = [(DNS_SCHEMA @ ''only_qname'', Udp_QName_Predicate), (DNS_SCHEMA @ ''only_rcode'', Udp_RCode_Predicate)]"
    by (simp add: p_def register_udp_predicate_signal_def new_udp_proxy_def omap_emplace_def Let_def)
  show "jump_slots (DNS_SCHEMA @ ''only_qname'' @ x) p = [OnlyQName]" "jump_slots (DNS_SCHEMA @ ''only_rcode'' @ v) p = [OnlyRCode]"
    by (simp_all add: p_def register_udp_predicate_signal_def new_udp_proxy_def jump_slots_def or_empty_def update_conv' Let_def)
qed

lemma parse_marks: "parseResources qo ao force l = Some (l', res) \<Longrightarrow> l_parsed l' \<and> l_result l' = res"
  by (auto simp: parseResources_def Let_def split: if_splits option.splits)

text \<open>
  C39: Two filters with predicates count a message twice. A handler that was started with a response code and a
  name processes a UDP reply that has both twice, one time for each predicate, with the same packet,
  so that it is counted and passed on twice.
\<close>

theorem dns_two_filters_count_twice:
  assumes "new_dns_handler base DP_Pcap chained = Inr h0" "dns_start [(''only_rcode'', CUint code), (''only_qname'', CList [name])] h0 = Inr h"
    "getDnsHeader (new_layer (dp_data payload)) = Some hdr" "dh_response hdr" "ucast (dh_responseCode hdr) = code"
    "parseResources True False False (new_layer (dp_data payload)) = Some (l1, True)" "l_first_query l1 = Some q" "getNameLower q = map to_lower name"
    "metric_port (dp_src_port payload) (dp_dst_port payload) \<noteq> 0" "k \<noteq> 0 \<or> stamp \<noteq> ts 0 0"
  shows "dns_udp_packet cls sk libs now n payload dir l3 k stamp h =
    do { (h, outs) \<leftarrow> process_udp_packet_cb cls sk libs now n payload dir l3 k stamp (h\<lparr>hn_cache := packet_cache n k stamp l1\<rparr>);
         (h, outs') \<leftarrow> process_udp_packet_cb cls sk libs now n payload dir l3 k stamp h;
         Some (h, outs @ outs') }"
proof -
  note st = two_started [OF assms(1,2)]
  let ?h1 = "h\<lparr>hn_cache := packet_cache n k stamp l1\<rparr>" and ?P = "process_udp_packet_cb cls sk libs now n payload dir l3 k stamp"
  let ?S = "dns_predicate_signal cls sk libs now n payload dir l3 k stamp" and ?J = "dns_jump_key n payload k stamp"
  have miss: "cached_layer n k stamp (dp_data payload) h = Some (new_layer (dp_data payload), h\<lparr>hn_cache := packet_cache n k stamp (new_layer (dp_data payload))\<rparr>)"
    using assms(10) by (cases stamp) (auto simp: cached_layer_def packet_cache_def Let_def st(5) new_dns_cache_def)
  have j1: "?J Udp_QName_Predicate h = Some (DNS_SCHEMA @ ''only_qname'' @ map to_lower name, ?h1)"
    by (simp add: dns_jump_key_def miss assms(6-8) keep_layer_def packet_cache_def)
  have "ucast (ucast w :: u64) = w" for w :: u16 by transfer simp
  then have code: "ucast code = dh_responseCode hdr" using assms(5) by auto
  have hdr: "getDnsHeader l = Some hdr" if "l_data l = dp_data payload" for l
    using assms(3) header_data [of l "new_layer (dp_data payload)"] that by (simp add: new_layer_def)
  have d1: "l_data l1 = dp_data payload" using parseResources_data [OF assms(6)] by (simp add: new_layer_def)
  have "parseResources True False False l1 = Some (l1, True)" using parse_marks [OF assms(6)] by (simp add: parseResources_def)
  then have "any_check (dns_checks libs (hn_filters h) OnlyQName) (l1, j) = any_check (dns_checks libs (hn_filters h) FiltersMAX) (l1, j)" for j
    using assms(7,8) code hdr [OF d1]
    by (simp add: st(3) no_dns_filters_def dns_checks_def on_header_def check_qname_def with_query_def Let_def)
  then have s1: "?S OnlyQName ?h1 = ?P ?h1"
    by (intro predicate_signal_plain) (auto simp: st(4) cached_hit [of ?h1 n k stamp l1])
  have two: "do { (jump, s) \<leftarrow> ?J Udp_RCode_Predicate h2; run_steps ?S (jump_slots jump (hn_udp h)) s } = ?P h2"
    if p: "?P ?h1 = Some (h2, outs)" for h2 outs
  proof -
    note f = process_udp_fields [OF p _ assms(9), of l1]
    obtain l2 where l2: "hn_cache h2 = packet_cache n k stamp l2" "l_data l2 = dp_data payload" using f(3) d1 by auto
    have "?J Udp_RCode_Predicate h2 = Some (DNS_SCHEMA @ ''only_rcode'' @ u64_str code, h2)"
      by (simp add: dns_jump_key_def cached_hit [OF l2(1)] hdr [OF l2(2)] assms(4,5))
    moreover have "any_check (dns_checks libs (hn_filters h2) OnlyRCode) (l2, j) = any_check (dns_checks libs (hn_filters h2) FiltersMAX) (l2, j)" for j
      using code hdr [OF l2(2)] f(1) by (simp add: st(3) no_dns_filters_def dns_checks_def on_header_def Let_def)
    then have "?S OnlyRCode h2 = ?P h2" using f(2) by (intro predicate_signal_plain) (auto simp: st(4) cached_hit [OF l2(1)])
    ultimately show ?thesis by (cases "?P h2") (auto simp: st(1) register_second simp del: append_Cons)
  qed
  have "dns_udp_packet cls sk libs now n payload dir l3 k stamp h = run_udp_predicates ?J ?S (hn_udp h) h"
    using st(2) by (cases "run_udp_predicates ?J ?S (hn_udp h) h") (auto simp: dns_udp_packet_def)
  also have "\<dots> = do { (h', outs) \<leftarrow> ?P ?h1; (h', outs') \<leftarrow> do { (jump, s) \<leftarrow> ?J Udp_RCode_Predicate h'; run_steps ?S (jump_slots jump (hn_udp h)) s };
      Some (h', outs @ outs') }"
    unfolding run_udp_predicates_def st(1) register_second(1)
    by (cases "?P ?h1") (auto simp: j1 register_second s1 simp del: append_Cons split: option.split prod.split)
  also have "\<dots> = do { (h', outs) \<leftarrow> ?P ?h1; (h', outs') \<leftarrow> ?P h'; Some (h', outs @ outs') }"
  proof (cases "?P ?h1")
    case (Some r)
    obtain h2 outs where r: "r = (h2, outs)" by (cases r)
    show ?thesis unfolding Some r Option.bind.simps prod.case two [OF Some [unfolded r]] ..
  qed simp
  finally show ?thesis .
qed

definition demo_two_conf :: conf where
  "demo_two_conf = [(''only_rcode'', CUint 0), (''only_qname'', CList [''a''])]"

definition demo_two :: "(unit, unit, unit, unit, unit, unit) dns_handler" where
  "demo_two = projr (dns_start demo_two_conf demo_dns0)"

definition demo_parsed :: dns_layer where
  "demo_parsed = fst (the (parseResources True False False (new_layer small_reply)))"

lemma demo_two_started: "dns_start [(''only_rcode'', CUint 0), (''only_qname'', CList [''a''])] demo_dns0 = Inr demo_two"
  by (simp add: demo_two_def demo_two_conf_def demo_dns0_def new_dns_handler_def dns_start_def demo_dns_base_def
      validate_configs_def get_all_keys_def dns_config_defs_def process_groups_def with_list_def config_exists_def window_config_defs_def
      setup_all_def setup_rcode_def setup_flag_def setup_answer_count_def setup_qtype_def setup_qname_def setup_qname_suffix_def
      setup_dnstap_type_def setup_public_suffix_def setup_metrics_def with_texts_def config_flag_def config_get_def
      configured_ttl_def sum_bind_def RCodeNames_def Let_def)

theorem dns_two_filters_count_twice_witness:
  "dns_udp_packet demo_dns_class demo_dns_sketches demo_dns_libs (ts 60 0) 0 (demo_dns_packet small_reply) FromHost P_IPv4 7 (ts 60 0) demo_two =
    do { (h, outs) \<leftarrow> process_udp_packet_cb demo_dns_class demo_dns_sketches demo_dns_libs (ts 60 0) 0 (demo_dns_packet small_reply)
           FromHost P_IPv4 7 (ts 60 0) (demo_two\<lparr>hn_cache := packet_cache 0 7 (ts 60 0) demo_parsed\<rparr>);
         (h, outs') \<leftarrow> process_udp_packet_cb demo_dns_class demo_dns_sketches demo_dns_libs (ts 60 0) 0 (demo_dns_packet small_reply)
           FromHost P_IPv4 7 (ts 60 0) h;
         Some (h, outs @ outs') }"
proof -
  let ?l = "new_layer (dp_data (demo_dns_packet small_reply))"
  have d: "getDnsHeader ?l = Some \<lparr>dh_transactionID = 256, dh_response = True, dh_responseCode = 0, dh_answers = 0, dh_additionals = 0\<rparr>"
    using small_messages(4) by (simp add: demo_dns_packet_def)
  have "parseResources True False False (new_layer small_reply) = Some (demo_parsed, True)" by code_simp
  then have p: "parseResources True False False ?l = Some (demo_parsed, True)" by (simp add: demo_dns_packet_def)
  have "l_first_query demo_parsed = Some (the (l_first_query demo_parsed))" "getNameLower (the (l_first_query demo_parsed)) = map to_lower ''a''"
    by code_simp+
  from dns_two_filters_count_twice [OF demo_dns_new(1) demo_two_started, OF d _ _ p this]
  show ?thesis by (simp add: demo_dns_packet_def metric_port_def isDnsPort_def)
qed

subsection \<open>Times of messages over TCP\<close>

text \<open>Reads on connections and their sides, each with the connection as it is at that time, and the messages with their connection and side.\<close>

fun receive_reads ::
  "(bool \<times> tcp_connection \<times> byte list \<times> direction) list \<Rightarrow> dns_flows
     \<Rightarrow> dns_flows \<times> ((u32 \<times> bool) \<times> dns_captured \<times> byte list) list" where
  "receive_reads [] conns = (conns, [])"
| "receive_reads ((side, c, data, dir) # rs) conns =
     (case receive_on side c data dir conns of (conns, ms) \<Rightarrow>
        (case receive_reads rs conns of (conns, ms') \<Rightarrow> (conns, map (Pair (cd_flow_key c, side)) ms @ ms')))"

definition session_captured :: "u32 \<times> bool \<Rightarrow> dns_captured \<Rightarrow> dns_flows \<Rightarrow> bool" where
  "session_captured ks cp conns \<longleftrightarrow>
     (\<exists>flow s. map_of conns (fst ks) = Some flow \<and> fl_sessions flow (snd ks) = Some s \<and> ses_captured s = cp)"

lemma receive_tcp_data_captured: "ses_captured (snd (receive_tcp_data data s)) = ses_captured s"
  by (simp add: receive_tcp_data_def split: prod.split)

lemma receive_on_captured:
  assumes "session_captured ks cp conns"
  shows "session_captured ks cp (fst (receive_on side c data dir conns))"
    "ks = (cd_flow_key c, side) \<Longrightarrow> list_all (\<lambda>x. fst x = cp) (snd (receive_on side c data dir conns))"
  using assms receive_tcp_data_captured
  by (auto simp: session_captured_def receive_on_def tcp_flow_of_def Let_def list_all_iff update_conv' case_prod_beta split: option.split)

lemma receive_reads_captured:
  assumes "session_captured ks cp conns"
  shows "list_all (\<lambda>x. fst x = ks \<longrightarrow> fst (snd x) = cp) (snd (receive_reads rs conns))"
  using assms
proof (induction rs arbitrary: conns)
  case (Cons r rs)
  obtain side c data dir where r: "r = (side, c, data, dir)" by (cases r)
  note on = receive_on_captured [OF Cons.prems, where side = side and c = c and data = data and dir = dir]
  from Cons.IH [OF on(1)] on(2) show ?case by (fastforce simp: r case_prod_beta list_all_iff)
qed simp

text \<open>
  C40: Messages over TCP carry the time of the first data of their side. The callback of a side captures the time and the
  direction when its session is made, with the first data of the side, and is used until the connection ends, whether
  or not the handler saw the connection start and whatever data of other sides and connections comes between: every message of
  the side, however late it comes, is handled with the time and the direction of the first data.
\<close>

theorem tcp_messages_have_first_time:
  assumes "case map_of conns (cd_flow_key c) of
      None \<Rightarrow> metric_port (cd_src_port c) (cd_dst_port c) \<noteq> 0 | Some flow \<Rightarrow> fl_sessions flow side = None"
  shows "list_all (\<lambda>(ks, cp, msg). ks = (cd_flow_key c, side) \<longrightarrow> cp_stamp cp = timeval_stamp (cd_end_time c) \<and> cp_dir cp = dir)
    (snd (receive_reads ((side, c, data, dir) # rs) conns))"
proof -
  obtain flow where f: "tcp_flow_of c conns = Some flow" "fl_sessions flow side = None"
    using assms by (auto simp: tcp_flow_of_def new_tcp_flow_def Let_def split: option.splits)
  let ?cp = "\<lparr>cp_conn = c, cp_port = fl_port flow, cp_dir = dir, cp_l3 = fl_l3 flow, cp_flowKey = cd_flow_key c,
    cp_stamp = timeval_stamp (cd_end_time c)\<rparr>"
  have on: "session_captured (cd_flow_key c, side) ?cp (fst (receive_on side c data dir conns))"
    "list_all (\<lambda>x. fst x = ?cp) (snd (receive_on side c data dir conns))"
    using receive_tcp_data_captured [of data "new_session ?cp"]
    by (auto simp: session_captured_def receive_on_def f new_session_def Let_def list_all_iff update_conv' case_prod_beta)
  from receive_reads_captured [OF on(1), of rs] on(2) show ?thesis
    by (auto simp: case_prod_beta list_all_iff)
qed

text \<open>A connection whose start was seen, a query on one side, replies on the other, the second much later.\<close>

theorem tcp_messages_have_first_time_witness:
  "map (\<lambda>(ks, cp, msg). (ks, cp_stamp cp)) (snd (receive_reads [(True, demo_conn, frame small_query, ToHost), (False, demo_conn, frame small_reply, FromHost),
      (False, demo_conn\<lparr>cd_end_time := (9999, 0)\<rparr>, frame small_reply, FromHost)] [(8, new_tcp_flow True 9999)]))
   = [((8, True), ts 61 0), ((8, False), ts 61 0), ((8, False), ts 61 0)]"
proof -
  let ?first = "receive_on True demo_conn (frame small_query) ToHost [(8, new_tcp_flow True 9999)]"
  let ?r = "snd (receive_reads [(False, demo_conn, frame small_reply, FromHost),
      (False, demo_conn\<lparr>cd_end_time := (9999, 0)\<rparr>, frame small_reply, FromHost)] (fst ?first))"
  have "case map_of (fst ?first) (cd_flow_key demo_conn) of
      None \<Rightarrow> metric_port (cd_src_port demo_conn) (cd_dst_port demo_conn) \<noteq> 0 | Some flow \<Rightarrow> fl_sessions flow False = None"
    by code_simp
  from tcp_messages_have_first_time [OF this, of FromHost "frame small_reply" "[(False, demo_conn\<lparr>cd_end_time := (9999, 0)\<rparr>, frame small_reply, FromHost)]"]
  have "list_all (\<lambda>(ks, cp, msg). ks = (8, False) \<longrightarrow> cp_stamp cp = ts 61 0) ?r"
    by (auto simp: list_all_iff demo_conn_def timeval_stamp_def)
  moreover have "map fst ?r = [(8, False), (8, False)]" by code_simp
  then obtain x y where "?r = [((8, False), x), ((8, False), y)]"
    by (auto simp only: map_eq_Cons_conv list.map_disc_iff prod.collapse fst_conv)
  moreover have "map (\<lambda>(cp, msg). cp_stamp cp) (snd ?first) = [ts 61 0]" by code_simp
  ultimately have "map (\<lambda>(ks, cp, msg). (ks, cp_stamp cp)) (map (Pair (8, True)) (snd ?first) @ ?r)
      = [((8, True), ts 61 0), ((8, False), ts 61 0), ((8, False), ts 61 0)]"
    by (auto simp: case_prod_beta map_eq_Cons_conv simp del: receive_reads.simps)
  moreover have "cd_flow_key demo_conn = 8" by (simp add: demo_conn_def)
  ultimately show ?thesis
    by (simp only: receive_reads.simps(2) [of True] case_prod_beta snd_conv)
qed

end
