(* ===== verification/BgpHandler.thy ===== *)
theory BgpHandler
  imports Handlers
begin

text \<open>
  The BGP handler (\<^verbatim>\<open>src/src/handlers/bgp/BgpStreamHandler.h\<close> and \<^verbatim>\<open>.cpp\<close>): counters by type of message for the
  data of TCP connections on the port of BGP. Unlike the sessions of DNS those of BGP have no buffer: the data of
  one callback is taken for one message. The port and the parser of PcapPlusPlus are parameters; a
  parser that finds no message returns a null pointer, which the bucket reads through. The JSON output is an
  argument of \<open>bgp_class\<close>.
\<close>

subsection \<open>The bucket\<close>

datatype bgp_type = BGP_Open | BGP_Update | BGP_Notification | BGP_Keepalive | BGP_RouteRefresh

record bgp_libs =
  isBgpPort :: "u16 \<Rightarrow> u16 \<Rightarrow> bool"
  parseBgpLayer :: "byte list \<Rightarrow> bgp_type option"

definition BGP_SCHEMA :: string where
  "BGP_SCHEMA = ''bgp''"

record bgp_counters =
  bg_OPEN :: counter
  bg_UPDATE :: counter
  bg_NOTIFICATION :: counter
  bg_KEEPALIVE :: counter
  bg_ROUTEREFRESH :: counter
  bg_total :: counter
  bg_filtered :: counter

record 'r bgp_bucket =
  bb_counters :: bgp_counters
  bb_rate_total :: "'r rate"

definition bgp_metric :: "string list \<Rightarrow> string \<Rightarrow> metric" where
  "bgp_metric names desc = \<lparr>m_name = names, m_desc = desc, m_schema_key = BGP_SCHEMA\<rparr>"

definition bgp_counter :: "string \<Rightarrow> string \<Rightarrow> counter" where
  "bgp_counter name desc = new_counter (bgp_metric [''wire_packets'', name] desc)"

definition new_bgp_counters :: bgp_counters where
  "new_bgp_counters =
     \<lparr>bg_OPEN = bgp_counter ''open'' ''Total BGP packets with message type OPEN'',
      bg_UPDATE = bgp_counter ''update'' ''Total BGP packets with message type UPDATE'',
      bg_NOTIFICATION = bgp_counter ''notification'' ''Total BGP packets with message type NOTIFICATION'',
      bg_KEEPALIVE = bgp_counter ''keepalive'' ''Total BGP packets with message type KEEPALIVE'',
      bg_ROUTEREFRESH = bgp_counter ''routerefresh'' ''Total BGP packets with message type ROUTEREFRESH'',
      bg_total = bgp_counter ''total'' ''Total BGP wire packets matching the configured filter(s)'',
      bg_filtered = bgp_counter ''filtered''
        ''Total BGP wire packets seen that did not match the configured filter(s) (if any)''\<rparr>"

definition new_bgp_bucket :: "('r, int) kll_ops \<Rightarrow> 'r bgp_bucket" where
  "new_bgp_bucket kll =
     \<lparr>bb_counters = new_bgp_counters,
      bb_rate_total = new_rate kll
        (bgp_metric [''rates'', ''total''] ''Rate of all BGP wire packets (combined ingress and egress) in packets per second'')\<rparr>"

definition bgp_event_rate_info :: metric where
  "bgp_event_rate_info = bgp_metric [''rates'', ''events''] ''Rate of all BGP wire packets before filtering per second''"

definition bgp_num_events_info :: metric where
  "bgp_num_events_info = bgp_metric [''wire_packets'', ''events''] ''Total BGP wire packets events''"

definition bgp_num_samples_info :: metric where
  "bgp_num_samples_info =
     bgp_metric [''wire_packets'', ''deep_samples''] ''Total BGP wire packets that were sampled for deep inspection''"

definition bgp_merge :: "('r, int) kll_ops \<Rightarrow> aggregate \<Rightarrow> 'r bgp_bucket \<Rightarrow> 'r bgp_bucket \<Rightarrow> 'r bgp_bucket" where
  "bgp_merge kll agg other =
     (let c = bb_counters other; add = (\<lambda>field n. bb_counters_update (field (counter_merge n))) in
      in_order
       [bb_rate_total_update (rate_merge kll agg (bb_rate_total other)),
        add bg_OPEN_update (bg_OPEN c), add bg_UPDATE_update (bg_UPDATE c), add bg_NOTIFICATION_update (bg_NOTIFICATION c),
        add bg_KEEPALIVE_update (bg_KEEPALIVE c), add bg_ROUTEREFRESH_update (bg_ROUTEREFRESH c),
        add bg_total_update (bg_total c), add bg_filtered_update (bg_filtered c)])"

definition bgp_to_prometheus ::
  "('r, int) kll_ops \<Rightarrow> label_map \<Rightarrow> label_map \<Rightarrow> ('r, 'r bgp_bucket) bucket \<Rightarrow> serializer \<Rightarrow> serializer" where
  "bgp_to_prometheus kll static labels b =
     (let s = b_spec b; c = bb_counters s;
          rate = rate_to_prometheus kll int_str static labels;
          cnt = counter_to_prometheus static labels in
      in_order
       [rate (bb_rate_total s), rate (b_rate b), cnt (event_counter bgp_num_events_info (b_num_events b)),
        cnt (event_counter bgp_num_samples_info (b_num_samples b)),
        cnt (bg_OPEN c), cnt (bg_UPDATE c), cnt (bg_NOTIFICATION c), cnt (bg_KEEPALIVE c), cnt (bg_ROUTEREFRESH c),
        cnt (bg_total c), cnt (bg_filtered c)])"

definition bgp_to_opentelemetry ::
  "('r, int) kll_ops \<Rightarrow> timespec \<Rightarrow> timespec \<Rightarrow> label_map \<Rightarrow> ('r, 'r bgp_bucket) bucket \<Rightarrow> int scope_metrics \<Rightarrow> int scope_metrics" where
  "bgp_to_opentelemetry kll start end_ts labels b =
     (let s = b_spec b; c = bb_counters s;
          rate = rate_to_opentelemetry kll start end_ts labels;
          cnt = counter_to_opentelemetry start end_ts labels in
      in_order
       [rate (bb_rate_total s), rate (b_rate b), cnt (event_counter bgp_num_events_info (b_num_events b)),
        cnt (event_counter bgp_num_samples_info (b_num_samples b)),
        cnt (bg_OPEN c), cnt (bg_UPDATE c), cnt (bg_NOTIFICATION c), cnt (bg_KEEPALIVE c), cnt (bg_ROUTEREFRESH c),
        cnt (bg_total c), cnt (bg_filtered c)])"

definition bgp_class ::
  "('r, int) kll_ops \<Rightarrow> label_map \<Rightarrow> (string \<Rightarrow> int \<Rightarrow> u32 \<Rightarrow> ('r, 'r bgp_bucket) bucket \<Rightarrow> 'j \<Rightarrow> 'j)
     \<Rightarrow> ('r, 'r bgp_bucket, int scope_metrics, 'j) bucket_class" where
  "bgp_class kll static to_json =
     \<lparr>bc_kll = kll, bc_event_rate_info = bgp_event_rate_info, bc_new = new_bgp_bucket kll,
      bc_specialized_merge = (\<lambda>agg groups. bgp_merge kll agg), bc_on_set_read_only = bb_rate_total_update rate_cancel,
      bc_update_topn_metrics = (\<lambda>n thr s. s), bc_to_json = to_json, bc_to_prometheus = bgp_to_prometheus kll static,
      bc_to_opentelemetry = bgp_to_opentelemetry kll\<rparr>"

definition bgp_inc :: "((counter \<Rightarrow> counter) \<Rightarrow> bgp_counters \<Rightarrow> bgp_counters) \<Rightarrow> 'r bgp_bucket \<Rightarrow> 'r bgp_bucket" where
  "bgp_inc field = bb_counters_update (field counter_inc)"

definition bgp_process_filtered :: "'r bgp_bucket \<Rightarrow> 'r bgp_bucket" where
  "bgp_process_filtered = bgp_inc bg_filtered_update"

definition bucket_bgp_layer :: "bgp_type \<Rightarrow> 'r bgp_bucket \<Rightarrow> 'r bgp_bucket" where
  "bucket_bgp_layer ty =
     in_order
      [bgp_inc bg_total_update, bb_rate_total_update rate_inc,
       (case ty of
          BGP_Open \<Rightarrow> bgp_inc bg_OPEN_update
        | BGP_Update \<Rightarrow> bgp_inc bg_UPDATE_update
        | BGP_Notification \<Rightarrow> bgp_inc bg_NOTIFICATION_update
        | BGP_Keepalive \<Rightarrow> bgp_inc bg_KEEPALIVE_update
        | BGP_RouteRefresh \<Rightarrow> bgp_inc bg_ROUTEREFRESH_update)]"

subsection \<open>The manager\<close>

type_synonym ('r, 'j) bgp_manager = "('r, 'r bgp_bucket, 'j) manager"
type_synonym ('r, 'j) bgp_bucket_class = "('r, 'r bgp_bucket, int scope_metrics, 'j) bucket_class"

text \<open>The layer is a pointer, null for data in which the parser found no message.\<close>

definition process_bgp_layer ::
  "('r, 'j) bgp_bucket_class \<Rightarrow> timespec \<Rightarrow> bgp_type option \<Rightarrow> timespec \<Rightarrow> ('r, 'j) bgp_manager \<Rightarrow> ('r, 'j) bgp_manager option" where
  "process_bgp_layer cls now payload stamp m =
     map_option (\<lambda>ty. plain_event cls now stamp True (\<lambda>_. bucket_bgp_layer ty) m) payload"

definition bgp_manager_filtered ::
  "('r, 'j) bgp_bucket_class \<Rightarrow> timespec \<Rightarrow> timespec \<Rightarrow> ('r, 'j) bgp_manager \<Rightarrow> ('r, 'j) bgp_manager" where
  "bgp_manager_filtered cls now stamp = plain_event cls now stamp False (\<lambda>_. bgp_process_filtered)"

subsection \<open>The handler\<close>

record bgp_captured =
  bg_dir :: direction
  bg_l3 :: protocol
  bg_flowKey :: u32
  bg_stamp :: timespec

type_synonym bgp_flows = "(u32 \<times> bgp_captured tcp_flow) list"

record ('r, 'j) bgp_handler =
  bh_base :: "('r, 'r bgp_bucket, 'j) stream_handler"
  bh_conns :: bgp_flows
  bh_running :: bool
  bh_connected :: bool

definition new_bgp_handler ::
  "('r, 'r bgp_bucket, 'j) stream_handler \<Rightarrow> string option \<Rightarrow> handler_error + ('r, 'j) bgp_handler" where
  "new_bgp_handler base other_proxy =
     (case other_proxy of
        Some name \<Rightarrow> Inl (Handler_Exception (''BgpStreamHandler: unsupported input event proxy '' @ name))
      | None \<Rightarrow> Inr \<lparr>bh_base = base, bh_conns = [], bh_running = False, bh_connected = False\<rparr>)"

definition bgp_start :: "conf \<Rightarrow> ('r, 'j) bgp_handler \<Rightarrow> handler_error + ('r, 'j) bgp_handler" where
  "bgp_start c h =
     (if bh_running h then Inr h
      else
        case validate_configs [''recorded_stream''] c of
          Some e \<Rightarrow> Inl (Settings e)
        | None \<Rightarrow>
            let base = bh_base h;
                base = (if config_exists c ''recorded_stream''
                        then base\<lparr>sh_metrics := set_recorded_stream (sh_metrics base)\<rparr> else base)
            in Inr (h\<lparr>bh_base := base, bh_connected := True, bh_running := True\<rparr>))"

definition bgp_stop :: "('r, 'j) bgp_handler \<Rightarrow> ('r, 'j) bgp_handler" where
  "bgp_stop h = (if \<not> bh_running h then h else h\<lparr>bh_connected := False, bh_running := False\<rparr>)"

definition bgp_filtering :: "bgp_type option \<Rightarrow> bgp_captured \<Rightarrow> bool" where
  "bgp_filtering payload cp = False"

definition bgp_ports :: "bgp_libs \<Rightarrow> tcp_connection \<Rightarrow> bool" where
  "bgp_ports L c = isBgpPort L (cd_src_port c) (cd_dst_port c)"

definition bgp_connection_start :: "bgp_libs \<Rightarrow> tcp_connection \<Rightarrow> bgp_flows \<Rightarrow> bgp_flows" where
  "bgp_connection_start L c conns =
     (if map_of conns (cd_flow_key c) = None \<and> bgp_ports L c
      then AList.update (cd_flow_key c) (new_tcp_flow (cd_ipv4 c \<noteq> None) 1) conns else conns)"

definition bgp_connection_end :: "tcp_connection \<Rightarrow> bgp_flows \<Rightarrow> bgp_flows" where
  "bgp_connection_end c conns = AList.delete (cd_flow_key c) conns"

text \<open>The data of one callback, if it is not from a session marked as invalid, is one message.\<close>

definition bgp_receive_tcp_data :: "byte list \<Rightarrow> bgp_captured tcp_session \<Rightarrow> byte list list" where
  "bgp_receive_tcp_data data s = (if ses_invalid s then [] else [data])"

definition got_bgp_message ::
  "('r, 'j) bgp_bucket_class \<Rightarrow> bgp_libs \<Rightarrow> timespec \<Rightarrow> bgp_captured \<Rightarrow> byte list \<Rightarrow> ('r, 'j) bgp_manager \<Rightarrow> ('r, 'j) bgp_manager option" where
  "got_bgp_message cls L now cp data m =
     (let layer = parseBgpLayer L data in
      if bgp_filtering layer cp then Some m else process_bgp_layer cls now layer (bg_stamp cp) m)"

text \<open>The flow and the session for some data, made now if they are not there.\<close>

definition bgp_session ::
  "bgp_libs \<Rightarrow> bool \<Rightarrow> tcp_connection \<Rightarrow> direction \<Rightarrow> bgp_flows \<Rightarrow> (bgp_flows \<times> bgp_captured tcp_session) option" where
  "bgp_session L side c dir conns =
     do { flow \<leftarrow> (case map_of conns (cd_flow_key c) of
                     Some flow \<Rightarrow> Some flow
                   | None \<Rightarrow> if bgp_ports L c then Some (new_tcp_flow (cd_ipv4 c \<noteq> None) 1) else None);
          let captured = \<lparr>bg_dir = dir, bg_l3 = fl_l3 flow, bg_flowKey = cd_flow_key c, bg_stamp = timeval_stamp (cd_end_time c)\<rparr>;
          let s = (case fl_sessions flow side of Some s \<Rightarrow> s | None \<Rightarrow> new_session captured);
          Some (AList.update (cd_flow_key c) (flow\<lparr>fl_sessions := (fl_sessions flow)(side := Some s)\<rparr>) conns, s) }"

definition bgp_message_ready ::
  "('r, 'j) bgp_bucket_class \<Rightarrow> bgp_libs \<Rightarrow> timespec \<Rightarrow> bool \<Rightarrow> tcp_connection \<Rightarrow> byte list \<Rightarrow> direction
     \<Rightarrow> ('r, 'j) bgp_handler \<Rightarrow> ('r, 'j) bgp_handler option" where
  "bgp_message_ready cls L now side c data dir h =
     (case bgp_session L side c dir (bh_conns h) of
        None \<Rightarrow> Some h
      | Some (conns, s) \<Rightarrow>
          do { m \<leftarrow> fold (\<lambda>d m. Option.bind m (got_bgp_message cls L now (ses_captured s) d)) (bgp_receive_tcp_data data s)
                 (Some (sh_metrics (bh_base h)));
               Some (h\<lparr>bh_conns := conns, bh_base := (bh_base h)\<lparr>sh_metrics := m\<rparr>\<rparr>) })"

datatype bgp_event =
    Bgp_Tcp_Start tcp_connection direction
  | Bgp_Tcp_Message bool tcp_connection "byte list" direction
  | Bgp_Tcp_End tcp_connection
  | Bgp_Start_Tstamp timespec
  | Bgp_End_Tstamp timespec
  | Bgp_Heartbeat timespec

definition bgp_handle ::
  "('r, 'j) bgp_bucket_class \<Rightarrow> bgp_libs \<Rightarrow> timespec \<Rightarrow> bgp_event \<Rightarrow> ('r, 'j) bgp_handler \<Rightarrow> ('r, 'j) bgp_handler option" where
  "bgp_handle cls L now e h =
     (let on_metrics = (\<lambda>f. Some (h\<lparr>bh_base := (bh_base h)\<lparr>sh_metrics := f (sh_metrics (bh_base h))\<rparr>\<rparr>)) in
      if \<not> bh_connected h then Some h
      else
        case e of
          Bgp_Tcp_Start c dir \<Rightarrow> Some (h\<lparr>bh_conns := bgp_connection_start L c (bh_conns h)\<rparr>)
        | Bgp_Tcp_Message side c data dir \<Rightarrow> bgp_message_ready cls L now side c data dir h
        | Bgp_Tcp_End c \<Rightarrow> Some (h\<lparr>bh_conns := bgp_connection_end c (bh_conns h)\<rparr>)
        | Bgp_Start_Tstamp stamp \<Rightarrow> on_metrics (set_start_tstamp stamp)
        | Bgp_End_Tstamp stamp \<Rightarrow> on_metrics (set_end_tstamp cls stamp)
        | Bgp_Heartbeat stamp \<Rightarrow> on_metrics (\<lambda>m. fst (check_period_shift cls now stamp m)))"

fun bgp_run ::
  "('r, 'j) bgp_bucket_class \<Rightarrow> bgp_libs \<Rightarrow> (timespec \<times> bgp_event) list \<Rightarrow> ('r, 'j) bgp_handler \<Rightarrow> ('r, 'j) bgp_handler option" where
  "bgp_run cls L [] h = Some h"
| "bgp_run cls L ((now, e) # es) h = Option.bind (bgp_handle cls L now e h) (bgp_run cls L es)"

subsection \<open>Counters\<close>

definition bgp_exact :: "'r bgp_bucket \<Rightarrow> bool" where
  "bgp_exact s \<longleftrightarrow>
     (let c = bb_counters s; v = c_value in
      v (bg_OPEN c) + v (bg_UPDATE c) + v (bg_NOTIFICATION c) + v (bg_KEEPALIVE c) + v (bg_ROUTEREFRESH c) = v (bg_total c)
      \<and> v (bg_filtered c) = 0)"

definition bgp_tally :: "'r bgp_bucket \<Rightarrow> u64" where
  "bgp_tally s = c_value (bg_total (bb_counters s))"

lemma bucket_bgp_layer_counts:
  "bgp_exact s \<Longrightarrow> bgp_exact (bucket_bgp_layer ty s) \<and> bgp_tally (bucket_bgp_layer ty s) = bgp_tally s + 1"
  by (cases ty) (auto simp: bgp_exact_def bgp_tally_def bucket_bgp_layer_def bgp_inc_def counter_inc_def Let_def algebra_simps)

lemma sum_of_five:
  "(a + a') + (b + b') + (c + c') + (d + d') + (e + e') = (a + b + c + d + e) + (a' + b' + c' + d' + e')" for a :: u64
  by (simp add: ac_simps)

lemma bgp_merge_counts:
  assumes "bgp_exact s" "bgp_exact t"
  shows "bgp_exact (bgp_merge kll agg s t) \<and> bgp_tally (bgp_merge kll agg s t) = bgp_tally t + bgp_tally s"
  using assms by (simp add: bgp_merge_def bgp_exact_def bgp_tally_def counter_merge_def Let_def sum_of_five)

interpretation bgp: tallied_bucket "bgp_class kll static to_json" bgp_exact bgp_tally "\<lambda>_. True" for kll static to_json
  by unfold_locales
    (auto simp: bgp_class_def bgp_merge_counts, simp_all add: bgp_exact_def bgp_tally_def new_bgp_bucket_def new_bgp_counters_def
      bgp_counter_def new_counter_def Let_def)

subsection \<open>Runs\<close>

text \<open>
  What a run is to do to the metrics, as a list of calls, by the flows and the first times of their sides alone. A flow
  is tracked from its start, or its first data, on a BGP port to its end. Each data of a tracked flow is one message of the
  type the parser finds in it, at the time of the first data of its side; without a type there is no list of calls.
\<close>

datatype bgp_call = Count bgp_type timespec | Set_Start timespec | Set_End timespec | Check timespec

type_synonym first_times = "u32 \<Rightarrow> (bool \<Rightarrow> timespec option) option"

definition first_time :: "bool \<Rightarrow> timespec \<Rightarrow> (bool \<Rightarrow> timespec option) option \<Rightarrow> timespec" where
  "first_time side stamp seen = (case seen of None \<Rightarrow> stamp | Some f \<Rightarrow> (case f side of None \<Rightarrow> stamp | Some t \<Rightarrow> t))"

definition or_untimed :: "(bool \<Rightarrow> timespec option) option \<Rightarrow> bool \<Rightarrow> timespec option" where
  "or_untimed seen = (case seen of Some f \<Rightarrow> f | None \<Rightarrow> (\<lambda>_. None))"

fun bgp_calls :: "bgp_libs \<Rightarrow> (timespec \<times> bgp_event) list \<Rightarrow> first_times \<Rightarrow> (timespec \<times> bgp_call) list option" where
  "bgp_calls L [] T = Some []"
| "bgp_calls L ((now, Bgp_Tcp_Start c dir) # es) T =
     bgp_calls L es (if bgp_ports L c then T(cd_flow_key c := Some (or_untimed (T (cd_flow_key c)))) else T)"
| "bgp_calls L ((now, Bgp_Tcp_Message side c data dir) # es) T =
     (let k = cd_flow_key c; t = first_time side (timeval_stamp (cd_end_time c)) (T k) in
      if T k = None \<and> \<not> bgp_ports L c then bgp_calls L es T
      else
        do { ty \<leftarrow> parseBgpLayer L data;
             cs \<leftarrow> bgp_calls L es (T(k := Some ((or_untimed (T k))(side := Some t))));
             Some ((now, Count ty t) # cs) })"
| "bgp_calls L ((now, Bgp_Tcp_End c) # es) T = bgp_calls L es (T(cd_flow_key c := None))"
| "bgp_calls L ((now, Bgp_Start_Tstamp stamp) # es) T = map_option (Cons (now, Set_Start stamp)) (bgp_calls L es T)"
| "bgp_calls L ((now, Bgp_End_Tstamp stamp) # es) T = map_option (Cons (now, Set_End stamp)) (bgp_calls L es T)"
| "bgp_calls L ((now, Bgp_Heartbeat stamp) # es) T = map_option (Cons (now, Check stamp)) (bgp_calls L es T)"

fun do_call :: "('r, 'j) bgp_bucket_class \<Rightarrow> timespec \<times> bgp_call \<Rightarrow> ('r, 'j) bgp_manager \<Rightarrow> ('r, 'j) bgp_manager" where
  "do_call cls (now, Count ty t) m = plain_event cls now t True (\<lambda>_. bucket_bgp_layer ty) m"
| "do_call cls (now, Set_Start stamp) m = set_start_tstamp stamp m"
| "do_call cls (now, Set_End stamp) m = set_end_tstamp cls stamp m"
| "do_call cls (now, Check stamp) m = fst (check_period_shift cls now stamp m)"

text \<open>The events of the buckets that leave the window during some calls.\<close>

fun left_events :: "('r, 'j) bgp_bucket_class \<Rightarrow> (timespec \<times> bgp_call) list \<Rightarrow> ('r, 'j) bgp_manager \<Rightarrow> u64" where
  "left_events cls [] m = 0"
| "left_events cls (c # cs) m =
     (case c of
        (now, Count ty t) \<Rightarrow> expired_events (snd (new_event cls now t True m))
      | (now, Check stamp) \<Rightarrow> expired_events (snd (check_period_shift cls now stamp m))
      | _ \<Rightarrow> 0) + left_events cls cs (do_call cls c m)"

fun is_count :: "timespec \<times> bgp_call \<Rightarrow> bool" where
  "is_count (now, Count ty t) = True"
| "is_count _ = False"

text \<open>The times of the sessions of a handler. No session is ever marked as invalid.\<close>

definition session_times :: "bgp_flows \<Rightarrow> first_times" where
  "session_times conns k = map_option (\<lambda>flow side. map_option (bg_stamp \<circ> ses_captured) (fl_sessions flow side)) (map_of conns k)"

definition valid_sessions :: "bgp_flows \<Rightarrow> bool" where
  "valid_sessions conns \<longleftrightarrow> (\<forall>k flow side s. map_of conns k = Some flow \<longrightarrow> fl_sessions flow side = Some s \<longrightarrow> \<not> ses_invalid s)"

lemma bgp_session_none:
  "bgp_session L side c dir conns = None \<longleftrightarrow> session_times conns (cd_flow_key c) = None \<and> \<not> bgp_ports L c"
  by (auto simp: bgp_session_def session_times_def Let_def split: option.splits)

lemma bgp_session_times:
  assumes "valid_sessions conns" "bgp_session L side c dir conns = Some (conns', s)"
  shows "valid_sessions conns'" "\<not> ses_invalid s"
    "bg_stamp (ses_captured s) = first_time side (timeval_stamp (cd_end_time c)) (session_times conns (cd_flow_key c))"
    "session_times conns' = (session_times conns)(cd_flow_key c :=
       Some ((or_untimed (session_times conns (cd_flow_key c)))(side := Some (bg_stamp (ses_captured s)))))"
proof -
  let ?k = "cd_flow_key c"
  obtain flow where f: "(case map_of conns ?k of
      Some flow \<Rightarrow> Some flow | None \<Rightarrow> if bgp_ports L c then Some (new_tcp_flow (cd_ipv4 c \<noteq> None) 1) else None) = Some flow"
    and c': "conns' = AList.update ?k (flow\<lparr>fl_sessions := (fl_sessions flow)(side := Some s)\<rparr>) conns"
    and s: "s = (case fl_sessions flow side of Some s \<Rightarrow> s
      | None \<Rightarrow> new_session \<lparr>bg_dir = dir, bg_l3 = fl_l3 flow, bg_flowKey = ?k, bg_stamp = timeval_stamp (cd_end_time c)\<rparr>)"
    using assms(2) by (auto simp: bgp_session_def Let_def Option.bind_eq_Some_conv)
  have v: "\<not> ses_invalid t" if "fl_sessions flow sd = Some t" for sd t
    using f assms(1) that by (auto simp: valid_sessions_def new_tcp_flow_def split: option.splits if_splits)
  then show s': "\<not> ses_invalid s" using s by (auto simp: new_session_def split: option.splits)
  show "valid_sessions conns'"
    using assms(1) v s' unfolding c' valid_sessions_def by (auto simp: update_conv' split: if_splits)
  have t: "or_untimed (session_times conns ?k) = (\<lambda>sd. map_option (bg_stamp \<circ> ses_captured) (fl_sessions flow sd))"
    using f by (auto simp: session_times_def or_untimed_def new_tcp_flow_def split: option.splits if_splits)
  have "first_time side stamp seen = (case or_untimed seen side of None \<Rightarrow> stamp | Some t \<Rightarrow> t)" for stamp seen
    by (simp add: first_time_def or_untimed_def split: option.split)
  then show "bg_stamp (ses_captured s) = first_time side (timeval_stamp (cd_end_time c)) (session_times conns ?k)"
    using s t by (simp add: new_session_def split: option.splits)
  show "session_times conns' = (session_times conns)(?k := Some ((or_untimed (session_times conns ?k))(side := Some (bg_stamp (ses_captured s)))))"
    unfolding t by (rule ext) (auto simp: c' session_times_def update_conv')
qed

lemma map_append_nothing [simp]: "map_option ((@) []) x = x"
  by (cases x) simp_all

lemma bgp_message_ready_calls:
  assumes "bh_connected h" "valid_sessions (bh_conns h)"
  shows "case bgp_message_ready cls L now side c data dir h of
      None \<Rightarrow> bgp_calls L ((now, Bgp_Tcp_Message side c data dir) # es) (session_times (bh_conns h)) = None
    | Some h' \<Rightarrow> bh_connected h' \<and> valid_sessions (bh_conns h')
        \<and> (\<exists>cs. bgp_calls L ((now, Bgp_Tcp_Message side c data dir) # es) (session_times (bh_conns h)) =
              map_option ((@) cs) (bgp_calls L es (session_times (bh_conns h')))
            \<and> sh_metrics (bh_base h') = fold (do_call cls) cs (sh_metrics (bh_base h)))"
proof (cases "bgp_session L side c dir (bh_conns h)")
  case None
  then have "session_times (bh_conns h) (cd_flow_key c) = None \<and> \<not> bgp_ports L c" by (simp add: bgp_session_none)
  then show ?thesis using None assms
    by (auto simp: bgp_message_ready_def Let_def intro!: exI [of _ "[]"])
next
  case (Some x)
  then obtain conns s where b: "bgp_session L side c dir (bh_conns h) = Some (conns, s)" by (cases x) auto
  have tr: "\<not> (session_times (bh_conns h) (cd_flow_key c) = None \<and> \<not> bgp_ports L c)" using b bgp_session_none by (metis option.distinct(1))
  note t = bgp_session_times [OF assms(2) b]
  show ?thesis
  proof (cases "parseBgpLayer L data")
    case None
    then show ?thesis using t(2) tr
      by (auto simp: bgp_message_ready_def b bgp_receive_tcp_data_def got_bgp_message_def bgp_filtering_def process_bgp_layer_def Let_def)
  next
    case (Some ty)
    let ?call = "(now, Count ty (bg_stamp (ses_captured s)))"
    have "bgp_calls L ((now, Bgp_Tcp_Message side c data dir) # es) (session_times (bh_conns h)) =
        map_option ((@) [?call]) (bgp_calls L es (session_times conns))"
      using tr Some unfolding t(4)
      by (simp add: Let_def t(3) [symmetric] del: de_Morgan_conj) (cases "bgp_calls L es (session_times conns)"; simp add: t(4))
    then show ?thesis using t(1,2) assms(1) Some
      by (auto simp: bgp_message_ready_def b bgp_receive_tcp_data_def got_bgp_message_def bgp_filtering_def process_bgp_layer_def Let_def
          intro!: exI [of _ "[?call]"])
  qed
qed

lemma bgp_connections_times:
  assumes "valid_sessions conns"
  shows "valid_sessions (bgp_connection_start L c conns)" "valid_sessions (bgp_connection_end c conns)"
    "session_times (bgp_connection_start L c conns) =
       (if bgp_ports L c then (session_times conns)(cd_flow_key c := Some (or_untimed (session_times conns (cd_flow_key c)))) else session_times conns)"
    "session_times (bgp_connection_end c conns) = (session_times conns)(cd_flow_key c := None)"
proof -
  show "valid_sessions (bgp_connection_start L c conns)" "valid_sessions (bgp_connection_end c conns)"
    using assms
    by (auto simp: valid_sessions_def bgp_connection_start_def bgp_connection_end_def update_conv' delete_conv' new_tcp_flow_def
        split: if_splits)
  show "session_times (bgp_connection_start L c conns) =
       (if bgp_ports L c then (session_times conns)(cd_flow_key c := Some (or_untimed (session_times conns (cd_flow_key c)))) else session_times conns)"
    by (rule ext) (auto simp: session_times_def bgp_connection_start_def or_untimed_def update_conv' new_tcp_flow_def split: option.split)
  show "session_times (bgp_connection_end c conns) = (session_times conns)(cd_flow_key c := None)"
    by (rule ext) (auto simp: session_times_def bgp_connection_end_def delete_conv')
qed

lemma bgp_handle_calls:
  assumes "bh_connected h" "valid_sessions (bh_conns h)"
  shows "case bgp_handle cls L now e h of
      None \<Rightarrow> bgp_calls L ((now, e) # es) (session_times (bh_conns h)) = None
    | Some h' \<Rightarrow> bh_connected h' \<and> valid_sessions (bh_conns h')
        \<and> (\<exists>cs. bgp_calls L ((now, e) # es) (session_times (bh_conns h)) = map_option ((@) cs) (bgp_calls L es (session_times (bh_conns h')))
            \<and> sh_metrics (bh_base h') = fold (do_call cls) cs (sh_metrics (bh_base h)))"
proof (cases e)
  case (Bgp_Tcp_Message side c data dir)
  have "bgp_handle cls L now e h = bgp_message_ready cls L now side c data dir h"
    using assms(1) by (simp add: Bgp_Tcp_Message bgp_handle_def)
  then show ?thesis
    using bgp_message_ready_calls [OF assms, where cls = cls and L = L and now = now and side = side and c = c and data = data and dir = dir and es = es]
    by (simp only: Bgp_Tcp_Message)
next
  case (Bgp_Tcp_Start c dir)
  then show ?thesis using assms by (auto simp: bgp_handle_def bgp_connections_times intro!: exI [of _ "[]"])
next
  case (Bgp_Tcp_End c)
  then show ?thesis using assms by (auto simp: bgp_handle_def bgp_connections_times intro!: exI [of _ "[]"])
next
  case (Bgp_Start_Tstamp stamp)
  then show ?thesis using assms by (auto simp: bgp_handle_def Let_def intro!: exI [of _ "[(now, Set_Start stamp)]"] option.map_cong)
next
  case (Bgp_End_Tstamp stamp)
  then show ?thesis using assms by (auto simp: bgp_handle_def Let_def intro!: exI [of _ "[(now, Set_End stamp)]"] option.map_cong)
next
  case (Bgp_Heartbeat stamp)
  then show ?thesis using assms by (auto simp: bgp_handle_def Let_def intro!: exI [of _ "[(now, Check stamp)]"] option.map_cong)
qed

lemma bgp_run_calls:
  assumes "bh_connected h" "valid_sessions (bh_conns h)"
  shows "map_option (\<lambda>h'. sh_metrics (bh_base h')) (bgp_run cls L es h) =
    map_option (\<lambda>cs. fold (do_call cls) cs (sh_metrics (bh_base h))) (bgp_calls L es (session_times (bh_conns h)))"
  using assms
proof (induction es arbitrary: h)
  case (Cons x es)
  obtain now e where x: "x = (now, e)" by (cases x)
  note step = bgp_handle_calls [OF Cons.prems, where cls = cls and L = L and now = now and e = e and es = es]
  show ?case
  proof (cases "bgp_handle cls L now e h")
    case None
    then show ?thesis using step by (simp add: x)
  next
    case (Some h')
    then obtain cs where cs: "bh_connected h'" "valid_sessions (bh_conns h')"
      "bgp_calls L ((now, e) # es) (session_times (bh_conns h)) = map_option ((@) cs) (bgp_calls L es (session_times (bh_conns h')))"
      "sh_metrics (bh_base h') = fold (do_call cls) cs (sh_metrics (bh_base h))"
      using step by auto
    show ?thesis
      using Cons.IH [OF cs(1,2)] Some cs(4) by (simp add: x cs(3) option.map_comp o_def)
  qed
qed simp

text \<open>Under the calls the account is kept, and the events held and left grow by the counts.\<close>

abbreviation bgp_tallied where "bgp_tallied \<equiv> tallied bgp_exact bgp_tally None"

lemma do_call_tallied: "bgp_tallied m \<Longrightarrow> bgp_tallied (do_call (bgp_class kll static to_json) c m)"
proof (cases c)
  case (Pair now call)
  assume m: "bgp_tallied m"
  show ?thesis
  proof (cases call)
    case (Count ty t)
    have "bgp_tallied (plain_event (bgp_class kll static to_json) now t True (\<lambda>_. bucket_bgp_layer ty) m)"
      by (rule bgp.tallied_plain_event [OF m]) (rule bucket_bgp_layer_counts)
    then show ?thesis by (simp add: Pair Count)
  qed (simp_all add: Pair m bgp.tallied_set_start bgp.tallied_set_end bgp.tallied_check)
qed

lemma total_events_front:
  "mm_buckets m \<noteq> [] \<Longrightarrow> (\<And>b. b_num_events (f b) = b_num_events b) \<Longrightarrow> total_events (mm_buckets (upd_front f m)) = total_events (mm_buckets m)"
  by (cases "mm_buckets m") (simp_all add: upd_front_def total_events_def)

lemma do_call_events:
  assumes "mm_buckets m \<noteq> []"
  shows "total_events (mm_buckets (do_call cls c m)) + left_events cls [c] m = total_events (mm_buckets m) + (if is_count c then 1 else 0)"
    and "mm_buckets (do_call cls c m) \<noteq> []"
proof -
  obtain now call where c: "c = (now, call)" by (cases c)
  have ne: "mm_buckets (fst (new_event cls now t True m)) \<noteq> []" for t by (simp add: new_event_steps upd_front_def Let_def)
  show "mm_buckets (do_call cls c m) \<noteq> []"
    using total_events_check(2) [OF assms]
    by (cases call) (auto simp: c plain_event_def upd_front_def set_start_tstamp_def set_end_tstamp_def case_prod_beta)
  show "total_events (mm_buckets (do_call cls c m)) + left_events cls [c] m = total_events (mm_buckets m) + (if is_count c then 1 else 0)"
  proof (cases call)
    case (Count ty t)
    then show ?thesis
      using new_event_total [OF assms, of cls now t True] total_events_front [OF ne]
      by (simp add: c plain_event_def case_prod_beta)
  next
    case (Set_Start stamp)
    then show ?thesis using assms
      by (cases "mm_buckets m") (simp_all add: c set_start_tstamp_def upd_front_def total_events_def)
  next
    case (Set_End stamp)
    then show ?thesis using total_events_front [OF assms, of "set_read_only cls stamp"] by (simp add: c set_end_tstamp_def)
  next
    case (Check stamp)
    then show ?thesis using total_events_check(1) [OF assms, of cls now stamp] by (simp add: c)
  qed
qed

lemma do_calls_events:
  assumes "mm_buckets m \<noteq> []"
  shows "total_events (mm_buckets (fold (do_call cls) cs m)) + left_events cls cs m
    = total_events (mm_buckets m) + of_nat (length (filter is_count cs))"
  using assms
proof (induction cs arbitrary: m)
  case (Cons c cs)
  let ?m = "do_call cls c m"
  have "total_events (mm_buckets (fold (do_call cls) cs ?m)) + left_events cls cs ?m
      = total_events (mm_buckets ?m) + of_nat (length (filter is_count cs))"
    by (rule Cons.IH [OF do_call_events(2) [OF Cons.prems]])
  moreover have "left_events cls (c # cs) m = left_events cls [c] m + left_events cls cs ?m" by simp
  moreover note do_call_events(1) [OF Cons.prems, of cls c]
  ultimately have "total_events (mm_buckets (fold (do_call cls) cs ?m)) + left_events cls (c # cs) m
      = total_events (mm_buckets m) + (if is_count c then 1 else 0) + of_nat (length (filter is_count cs))"
    by (metis (no_types, lifting) add.assoc add.commute)
  then show ?case by simp
qed simp

lemma session_times_Nil: "session_times [] = (\<lambda>_. None)"
  by (rule ext) (simp add: session_times_def)

lemma do_calls_tallied: "bgp_tallied m \<Longrightarrow> bgp_tallied (fold (do_call (bgp_class kll static to_json)) cs m)"
  by (induction cs arbitrary: m) (simp_all add: do_call_tallied)

lemma bgp_started:
  assumes "new_bgp_handler base None = Inr h0" "sh_metrics base = new_manager (bgp_class kll static to_json) cfg now now'"
    "bgp_start c h0 = Inr h"
  shows "bh_connected h" "bh_conns h = []" "bgp_tallied (sh_metrics (bh_base h))" "total_events (mm_buckets (sh_metrics (bh_base h))) = 0"
proof -
  have h: "sh_metrics (bh_base h) \<in> {sh_metrics base, set_recorded_stream (sh_metrics base)}"
    and con: "bh_connected h \<and> bh_conns h = []"
    using assms(1,3) by (auto simp: new_bgp_handler_def bgp_start_def Let_def split: option.splits if_splits)
  show "bh_connected h" "bh_conns h = []" using con by auto
  show "bgp_tallied (sh_metrics (bh_base h))"
    using h bgp.tallied_new(2) [of kll static to_json cfg now now'] bgp.tallied_recorded by (auto simp: assms(2))
  show "total_events (mm_buckets (sh_metrics (bh_base h))) = 0"
    using h by (auto simp: assms(2) new_manager_def set_recorded_stream_def upd_front_def total_events_def new_bucket_def Let_def)
qed

subsection \<open>Properties\<close>

text \<open>
  C11: The BGP handler counts every data of a tracked connection as one message of the type the parser finds in it, and
  is undefined exactly when the parser finds none. From a handler that was started, a run over any connections,
  data, heartbeats and time stamps does to the metrics what the list of calls says. The events in the buckets held at
  the end and in those that left the window are as many as there were data of tracked connections; in every bucket held,
  and in every merge of the last buckets, the types add up to the total, the total is the number of events, and nothing
  is filtered.
\<close>

theorem bgp_reads_accounted:
  assumes "new_bgp_handler base None = Inr h0" "sh_metrics base = new_manager (bgp_class kll static to_json) cfg now now'"
    "bgp_start c h0 = Inr h"
  shows "case bgp_calls L es (\<lambda>_. None) of
      None \<Rightarrow> bgp_run (bgp_class kll static to_json) L es h = None
    | Some cs \<Rightarrow> (\<exists>h'. bgp_run (bgp_class kll static to_json) L es h = Some h'
        \<and> sh_metrics (bh_base h') = fold (do_call (bgp_class kll static to_json)) cs (sh_metrics (bh_base h))
        \<and> total_events (mm_buckets (sh_metrics (bh_base h'))) + left_events (bgp_class kll static to_json) cs (sh_metrics (bh_base h))
            = of_nat (length (filter is_count cs))
        \<and> (\<forall>b. b \<in> set (mm_buckets (sh_metrics (bh_base h')))
             \<or> (\<exists>n now. n \<noteq> 0 \<and> b = merged_window (bgp_class kll static to_json) now n (sh_metrics (bh_base h'))) \<longrightarrow>
           (let c = bb_counters (b_spec b); v = c_value in
            v (bg_OPEN c) + v (bg_UPDATE c) + v (bg_NOTIFICATION c) + v (bg_KEEPALIVE c) + v (bg_ROUTEREFRESH c) = v (bg_total c)
            \<and> v (bg_total c) = b_num_events b \<and> v (bg_filtered c) = 0)))"
proof -
  note st = bgp_started [OF assms]
  have run: "map_option (\<lambda>h'. sh_metrics (bh_base h')) (bgp_run (bgp_class kll static to_json) L es h) =
      map_option (\<lambda>cs. fold (do_call (bgp_class kll static to_json)) cs (sh_metrics (bh_base h))) (bgp_calls L es (\<lambda>_. None))"
    using bgp_run_calls [of h] st(1,2) by (simp add: valid_sessions_def session_times_Nil)
  show ?thesis
  proof (cases "bgp_calls L es (\<lambda>_. None)")
    case None
    then show ?thesis using run by simp
  next
    case (Some cs)
    let ?m = "sh_metrics (bh_base h)"
    obtain h' where h': "bgp_run (bgp_class kll static to_json) L es h = Some h'"
      "sh_metrics (bh_base h') = fold (do_call (bgp_class kll static to_json)) cs ?m"
      using run Some by auto
    have t: "bgp_tallied (sh_metrics (bh_base h'))" unfolding h'(2) by (rule do_calls_tallied [OF st(3)])
    have "accounted bgp_exact bgp_tally None b" if "b \<in> set (mm_buckets (sh_metrics (bh_base h')))
        \<or> (\<exists>n now. n \<noteq> 0 \<and> b = merged_window (bgp_class kll static to_json) now n (sh_metrics (bh_base h')))" for b
      using that t bgp.accounted_merged_window [OF _ t] by (auto simp: tallied_def list_all_iff)
    moreover have "total_events (mm_buckets (sh_metrics (bh_base h'))) + left_events (bgp_class kll static to_json) cs ?m
        = of_nat (length (filter is_count cs))"
      using do_calls_events [of ?m "bgp_class kll static to_json" cs] st(3,4) by (simp add: h'(2) tallied_def)
    ultimately show ?thesis
      using h' by (auto simp: Some accounted_def bgp_exact_def bgp_tally_def Let_def)
  qed
qed

text \<open>The port of BGP, and a parser that looks at the type behind the marker and the length.\<close>

definition demo_bgp_libs :: bgp_libs where
  "demo_bgp_libs =
     \<lparr>isBgpPort = (\<lambda>src dst. src = 179 \<or> dst = 179),
      parseBgpLayer = (\<lambda>d. if length d < 19 then None
         else map_of [(1, BGP_Open), (2, BGP_Update), (3, BGP_Notification), (4, BGP_Keepalive), (5, BGP_RouteRefresh)] (d ! 18))\<rparr>"

definition demo_bgp_class :: "(unit, unit) bgp_bucket_class" where
  "demo_bgp_class = bgp_class unit_kll [] (\<lambda>_ _ _ _ j. j)"

definition demo_bgp_base :: "(unit, unit bgp_bucket, unit) stream_handler" where
  "demo_bgp_base =
     \<lparr>sh_name = ''bgp'', sh_schema_key = BGP_SCHEMA, sh_version = ''1.0'', sh_class = 0,
      sh_metrics = new_manager demo_bgp_class no_config (ts 0 0) (ts 0 0), sh_groups = 0, sh_last_window = None, sh_last_live = None\<rparr>"

definition demo_bgp :: "(unit, unit) bgp_handler" where
  "demo_bgp = \<lparr>bh_base = demo_bgp_base, bh_conns = [], bh_running = True, bh_connected = True\<rparr>"

definition demo_bgp_events :: "(timespec \<times> bgp_event) list" where
  "demo_bgp_events =
     (let c = \<lparr>cd_ipv4 = Some (1, 2), cd_ipv6 = ([], []), cd_flow_key = 8, cd_src_port = 9999, cd_dst_port = 179, cd_end_time = (61, 0)\<rparr> in
      [(ts 60 0, Bgp_Tcp_Start c ToHost),
       (ts 61 0, Bgp_Tcp_Message False c (replicate 16 255 @ [0, 29, 1] @ replicate 10 0) ToHost),
       (ts 90 0, Bgp_Tcp_Message True c (replicate 16 255 @ [0, 19, 4]) FromHost),
       (ts 91 0, Bgp_Tcp_End c)])"

theorem bgp_reads_accounted_witness:
  "map_option (\<lambda>h. total_events (mm_buckets (sh_metrics (bh_base h)))) (bgp_run demo_bgp_class demo_bgp_libs demo_bgp_events demo_bgp) = Some 2"
proof -
  have n: "new_bgp_handler demo_bgp_base None = Inr (demo_bgp\<lparr>bh_running := False, bh_connected := False\<rparr>)"
    "sh_metrics demo_bgp_base = new_manager (bgp_class unit_kll [] (\<lambda>_ _ _ _ j. j)) no_config (ts 0 0) (ts 0 0)"
    "bgp_start [] (demo_bgp\<lparr>bh_running := False, bh_connected := False\<rparr>) = Inr demo_bgp"
    by (simp_all add: new_bgp_handler_def demo_bgp_def demo_bgp_base_def demo_bgp_class_def bgp_start_def validate_configs_def
        get_all_keys_def config_exists_def Let_def)
  have "bgp_calls demo_bgp_libs demo_bgp_events (\<lambda>_. None) =
      Some [(ts 61 0, Count BGP_Open (ts 61 0)), (ts 90 0, Count BGP_Keepalive (ts 61 0))]" by code_simp
  moreover have "left_events demo_bgp_class [(ts 61 0, Count BGP_Open (ts 61 0)), (ts 90 0, Count BGP_Keepalive (ts 61 0))]
      (sh_metrics (bh_base demo_bgp)) = 0"
    by code_simp
  ultimately show ?thesis
    using bgp_reads_accounted [OF n, of demo_bgp_libs demo_bgp_events] by (auto simp: demo_bgp_class_def)
qed

end
