(* ===== verification/Spec2Isabelle.thy ===== *)
theory Spec2Isabelle
  imports Prometheus LruList Transactions Metrics Window Subnets DnsNames DnsWire Netflow Sflow FrameSession PolicyLoads Exports
    GeoDb NetHandler PcapHandler DhcpHandler DnsPairs BgpHandler
begin

text \<open>
  Verification of pktvisor: decoders of network telemetry, metrics over time windows, their output, and the
  policies that tie inputs to handlers.

  \<^bold>\<open>The program and its parts.\<close> An input stream (\<^verbatim>\<open>src/src/inputs\<close>) receives packets, flow datagrams or dnstap
  frames and hands what it decodes to stream handlers (\<^verbatim>\<open>src/src/handlers\<close>). A handler counts in the buckets of a
  metrics window (\<^verbatim>\<open>AbstractMetricsManager.h\<close>); each bucket is made of metrics (\<^verbatim>\<open>Metrics.h\<close>), which are written as
  JSON, as Prometheus text or as OTLP messages. A policy (\<^verbatim>\<open>Policies.cpp\<close>), described in YAML, selects
  taps (\<^verbatim>\<open>Taps.cpp\<close>) and makes, starts and removes the inputs and handlers they need.

  \<^bold>\<open>Conventions.\<close> A \<^verbatim>\<open>std::string\<close> is a list of characters and a buffer a list of bytes; integers keep their width as
  words wherever the code can wrap, and are \<open>nat\<close> or \<open>int\<close> where it cannot. A \<^verbatim>\<open>std::map\<close> is an association list sorted by
  key, an unordered map an association list with distinct keys; both satisfy the contract \<open>keyed_store\<close>. An exception
  or an error return is a value. Undefined behaviour (a read outside a buffer, a write outside an array, a division by zero) is a value of
  its own, an outer \<^term>\<open>None\<close> or the constructors \<open>Undef\<close> and \<open>Undefined\<close>, so that a theorem that excludes it says so.
  Loops over an index are recursions over the index. All recursions are total functions and no fuel is used; where the
  recursion is not structural its termination is proved from the measure in the \<open>termination\<close> command. Code outside the
  repository is a parameter: the sketches of DataSketches, the fstrm library, the conversions of the YAML library,
  PcapPlusPlus, protobuf, the MaxMind library, \<^verbatim>\<open>std::hash\<close>, \<^verbatim>\<open>inet_pton\<close>, the formatting of numbers, and the plugins that make inputs and handlers.
  Locks are left out; an operation that runs under a lock is one step.

  \<^bold>\<open>The theories.\<close>

  \<^item> \<open>Prelude\<close>: machine types, time stamps, maps, reads and writes of big-endian words, and the contract \<open>keyed_store\<close>
    with its two interpretations \<open>omap\<close> and \<open>umap\<close>.
  \<^item> \<open>Labels\<close> (\<^verbatim>\<open>MetricLabels.h\<close>, part of \<^verbatim>\<open>Metrics.cpp\<close>): the UTF-8 check agrees with the table of the Unicode standard, and the escapes
    of label values read back.
  \<^item> \<open>Prometheus\<close> (\<^verbatim>\<open>PrometheusSerializer.h\<close>): label blocks read back to the label map, and \<open>finalize\<close> writes each family once.
  \<^item> \<open>LruList\<close> (\<^verbatim>\<open>VisorLRUList.h\<close>): the linked list with its map of iterators refines a recency list; the contract
    \<open>bounded_cache\<close> holds of it.
  \<^item> \<open>Transactions\<close> (\<^verbatim>\<open>TransactionManager.h\<close>): outcome of an end, and what a purge removes.
  \<^item> \<open>Metrics\<close> (\<^verbatim>\<open>Metrics.h\<close>, \<^verbatim>\<open>Metrics.cpp\<close>): all metric classes over the sketches as parameters; names, merges, and the rows that the two outputs of a table list.
  \<^item> \<open>Window\<close> (\<^verbatim>\<open>AbstractMetricsManager.h\<close>): the deque of buckets. Over any run, every event is counted once, and every closed
    window is exported in order, at most once, and exactly once after an export while it is held; merges add up.
  \<^item> \<open>Subnets\<close> (\<^verbatim>\<open>visor_utils/utils.cpp\<close>): addresses match the first subnet with their prefix, and host specifications are read exactly.
  \<^item> \<open>DnsNames\<close>, \<open>DnsWire\<close> (\<^verbatim>\<open>libs/visor_dns\<close>): names and messages; decoding ends on every packet, inverts encoding, overflows its buffer at 256 bytes, and a parsed
    message has the sections of its header.
  \<^item> \<open>Netflow\<close> (\<^verbatim>\<open>inputs/flow/NetflowData.h\<close>): five versions with template maps shared by all exporters; the contract \<open>flowset_walk\<close>
    is interpreted for versions 9 and 10. Templates stay well formed and exporters do not disturb each other.
  \<^item> \<open>Sflow\<close> (\<^verbatim>\<open>inputs/flow/SflowData.h\<close>): datagrams of expanded samples are decoded to what they were built from, accepted ones are framed by their length fields,
    and reads stay within a bound.
  \<^item> \<open>FrameSession\<close> (\<^verbatim>\<open>inputs/dnstap/UnixFrameSession.h\<close>): the handshake, and independence of the splitting into reads.
  \<^item> \<open>Configurable\<close> (\<^verbatim>\<open>Configurable.h\<close>): configurations from YAML and their hash.
  \<^item> \<open>Registry\<close> (\<^verbatim>\<open>AbstractManager.h\<close>, \<^verbatim>\<open>InputStream.h\<close>, \<^verbatim>\<open>InputStreamManager.h\<close>, \<^verbatim>\<open>HandlerManager.h\<close>, \<^verbatim>\<open>Taps.cpp\<close>): the managers of taps,
    inputs, handlers and policies, and the selection of taps.
  \<^item> \<open>Exports\<close> (\<^verbatim>\<open>StreamHandler.h\<close>, the outputs of \<^verbatim>\<open>Policies.cpp\<close>): settings and windows of a handler and the outputs of a policy; the
    merged OTLP output takes the closed windows of all handlers in step.
  \<^item> \<open>GeoDb\<close> (\<^verbatim>\<open>GeoDB.cpp\<close>): lookups of places and AS numbers; the caches change no answer for addresses with different keys, and two IPv6 addresses
    can have the same key.
  \<^item> \<open>Handlers\<close>: what the handlers share, and the contract \<open>tallied_bucket\<close> under which every bucket of a window, and every merge of
    them, accounts for its events.
  \<^item> \<open>NetHandler\<close> (\<^verbatim>\<open>handlers/net/v1\<close>): filters, sampling, chaining to other handlers; the contract is interpreted (\<open>net\<close>), so that events, totals and
    filtered packets add up over any run.
  \<^item> \<open>PcapHandler\<close> (\<^verbatim>\<open>handlers/pcap\<close>): the drop counters are differences of totals.
  \<^item> \<open>DhcpHandler\<close> (\<^verbatim>\<open>handlers/dhcp\<close>): requests and acknowledgements are matched through the transaction manager over any other traffic.
  \<^item> \<open>Pairing\<close>: what it takes for a transaction to be still open when its second half arrives, as the contract \<open>pairing\<close> of a
    component that starts, ends and purges transactions while it handles events; \<open>dhcp_pairing\<close> and \<open>dns_pairing\<close> interpret it.
  \<^item> \<open>DnsBuckets\<close> (\<^verbatim>\<open>handlers/dns/v1\<close>): the metrics of DNS messages and transactions, their merges and outputs, and the manager; \<open>dns\<close>
    interprets \<open>tallied_bucket\<close>.
  \<^item> \<open>DnsAccount\<close>: on messages that can be read to their end no step of the bucket is undefined and each keeps the account.
  \<^item> \<open>DnsTcp\<close>: the framing of DNS over TCP; messages come out as they were written, however the stream is cut.
  \<^item> \<open>DnsFilters\<close>, \<open>DnsHandler\<close>: settings, filters, the UDP predicates of the capture proxy (\<^verbatim>\<open>PcapInputStream.h\<close>), and the callbacks, with the layer they
    cache. A layer belongs to the packet it was made for; the use of one of an earlier packet is undefined. The cache, which
    the code keeps per thread, is a field of the handler: a thread has one DNS handler.
  \<^item> \<open>DnsRuns\<close>: over any run of a started handler whose packets all differ in flow or time, queries, replies and filtered messages add up to the events.
  \<^item> \<open>DnsPairs\<close>: a reply within the time to live is matched with its query; what the predicates select; messages over TCP have the time of the first data.
  \<^item> \<open>BgpHandler\<close> (\<^verbatim>\<open>handlers/bgp\<close>): a run is a list of calls of the manager, one count per read of a BGP connection; \<open>bgp\<close> interprets \<open>tallied_bucket\<close>, and a run is
    undefined exactly when the parser finds no message in a read.
  \<^item> \<open>Policies\<close>, \<open>PolicyLoads\<close> (\<^verbatim>\<open>Policies.cpp\<close>): start, stop, load with rollback and removal of policies. A load that fails leaves the registry as it was.

  \<^bold>\<open>Bounds.\<close> Time stamps are seconds and nanoseconds as integers. Counters of metrics have 64 bits and wrap. Offsets into a
  datagram are natural numbers: the sources use pointers, which do not wrap inside a block.

  \<^bold>\<open>Not modelled.\<close> The input streams around the decoders (sockets, capture devices, libuv timers, PcapPlusPlus) and the HTTP
  server do input and output only. The JSON output follows the structure of the other two outputs. The third party libraries
  under \<^verbatim>\<open>src/3rd\<close> are parameters. The second versions of the network and DNS handlers and the flow, netprobe and resource handlers are left out;
  of the handlers the first versions for packets and DNS and those for captures, DHCP and BGP are modelled.
\<close>

end
